(* ===== verification/Prelude.thy ===== *)
theory Prelude
  imports Main "HOL-Library.Monad_Syntax" "HOL-Library.Word"
begin

text \<open>
  Shared vocabulary of the development.

  \<^item> Go values. An \<open>int64\<close> or a \<open>uint64\<close> is an \<open>int\<close> whose arithmetic is wrapped explicitly by
    \<open>wrap64\<close> and \<open>wrapu64\<close>; bit sets are \<open>64 word\<close>s; a Go string and a byte slice are both a list
    of 8-bit characters; a Go map is an association list with distinct keys, iterated in list order
    (one of the orders Go's random iteration may choose).
  \<^item> Go results. A function returning \<open>(T, error)\<close> returns a pair of the value and an
    \<open>error option\<close>, where \<open>None\<close> is the nil error. Where a call can crash the process (a nil
    dereference) the definition returns an \<open>option\<close>, and \<open>None\<close> is that crash.
  \<^item> The generic list, map and arithmetic lemmas that several components use.
\<close>

named_theorems go_int "range facts about wrapped Go integers"

unbundle bit_operations_syntax

section \<open>Machine integers\<close>

text \<open>\<open>wrap64\<close> is the value of an \<open>int64\<close> expression whose mathematical value is the argument,
  \<open>wrapu64\<close> that of a \<open>uint64\<close> one.\<close>

definition wrap64 :: "int \<Rightarrow> int" where
  "wrap64 x = (x + 2 ^ 63) mod 2 ^ 64 - 2 ^ 63"

definition wrapu64 :: "int \<Rightarrow> int" where
  "wrapu64 x = x mod 2 ^ 64"

definition in_int64 :: "int \<Rightarrow> bool" where
  "in_int64 x \<longleftrightarrow> - (2 ^ 63) \<le> x \<and> x < 2 ^ 63"

definition in_uint64 :: "int \<Rightarrow> bool" where
  "in_uint64 x \<longleftrightarrow> 0 \<le> x \<and> x < 2 ^ 64"

lemma wrap64_id [go_int]: "in_int64 x \<Longrightarrow> wrap64 x = x"
  by (simp add: wrap64_def in_int64_def)

lemma wrapu64_id [go_int]: "in_uint64 x \<Longrightarrow> wrapu64 x = x"
  by (simp add: wrapu64_def in_uint64_def)

lemma in_int64_wrap64 [simp, intro]: "in_int64 (wrap64 x)"
  by (simp add: wrap64_def in_int64_def)

lemma in_uint64_wrapu64 [simp, intro]: "in_uint64 (wrapu64 x)"
  by (simp add: wrapu64_def in_uint64_def)

lemma in_int64_small [simp]: "in_int64 0" "in_int64 1"
  by (simp_all add: in_int64_def)

lemma in_uint64_small [simp]: "in_uint64 0" "in_uint64 1"
  by (simp_all add: in_uint64_def)

lemma wrap64_add_left: "wrap64 (wrap64 x + y) = wrap64 (x + y)"
proof -
  have "(wrap64 x + y + 2 ^ 63) mod 2 ^ 64 = ((x + 2 ^ 63) mod 2 ^ 64 + y) mod 2 ^ 64"
    by (simp add: wrap64_def algebra_simps)
  also have "\<dots> = (x + y + 2 ^ 63) mod 2 ^ 64"
    by (simp add: mod_simps algebra_simps)
  finally show ?thesis by (simp add: wrap64_def)
qed

lemma wrap64_add_right: "wrap64 (x + wrap64 y) = wrap64 (x + y)"
  using wrap64_add_left [of y x] by (simp add: add.commute)

lemma wrapu64_add_left: "wrapu64 (wrapu64 x + y) = wrapu64 (x + y)"
  unfolding wrapu64_def by (rule mod_add_left_eq)

lemma wrapu64_add_right: "wrapu64 (x + wrapu64 y) = wrapu64 (x + y)"
  unfolding wrapu64_def by (rule mod_add_right_eq)

lemma wrapu64_add_modulus: "wrapu64 (x + 2 ^ 64) = wrapu64 x"
  unfolding wrapu64_def by (rule mod_add_self2)

lemma wrapu64_wrap64: "wrapu64 (wrap64 x) = wrapu64 x"
proof -
  have "wrap64 x mod 2 ^ 64 = ((x + 2 ^ 63) mod 2 ^ 64 - 2 ^ 63) mod 2 ^ 64"
    by (simp add: wrap64_def)
  also have "\<dots> = x mod 2 ^ 64" by (simp add: mod_diff_left_eq)
  finally show ?thesis by (simp add: wrapu64_def)
qed

lemma wrapu64_nonneg [simp]: "0 \<le> wrapu64 x"
  by (simp add: wrapu64_def)

section \<open>Association lists as Go maps\<close>

text \<open>Store and delete on a Go map. A stored key that is new goes to the end.\<close>

fun map_store :: "'k \<Rightarrow> 'v \<Rightarrow> ('k \<times> 'v) list \<Rightarrow> ('k \<times> 'v) list" where
  "map_store k v [] = [(k, v)]"
| "map_store k v ((k', v') # m) = (if k' = k then (k, v) # m else (k', v') # map_store k v m)"

definition map_remove :: "'k \<Rightarrow> ('k \<times> 'v) list \<Rightarrow> ('k \<times> 'v) list" where
  "map_remove k m = [p \<leftarrow> m. fst p \<noteq> k]"

lemma map_of_map_store [simp]: "map_of (map_store k v m) = (map_of m)(k \<mapsto> v)"
  by (induction k v m rule: map_store.induct) (auto simp: fun_eq_iff)

lemma map_of_map_remove [simp]: "map_of (map_remove k m) = (map_of m)(k := None)"
  unfolding map_remove_def by (induction m) (auto simp: fun_eq_iff)

lemma keys_map_store [simp]: "fst ` set (map_store k v m) = insert k (fst ` set m)"
  by (induction k v m rule: map_store.induct) auto

lemma keys_map_remove [simp]: "fst ` set (map_remove k m) = fst ` set m - {k}"
  unfolding map_remove_def by force

lemma distinct_map_store [simp]:
  "distinct (map fst m) \<Longrightarrow> distinct (map fst (map_store k v m))"
proof (induction k v m rule: map_store.induct)
  case (1 k v)
  then show ?case by simp
next
  case (2 k v k' v' m)
  then show ?case by (cases "k' = k") simp_all
qed

lemma distinct_map_remove [simp]:
  "distinct (map fst m) \<Longrightarrow> distinct (map fst (map_remove k m))"
  unfolding map_remove_def by (induction m) auto

lemma map_remove_id: "k \<notin> fst ` set m \<Longrightarrow> map_remove k m = m"
  unfolding map_remove_def by (induction m) auto

lemma map_of_None_keys: "map_of m k = None \<longleftrightarrow> k \<notin> fst ` set m"
  by (simp add: map_of_eq_None_iff)

section \<open>Sums over association lists\<close>

definition sum_by :: "('v \<Rightarrow> int) \<Rightarrow> ('k \<times> 'v) list \<Rightarrow> int" where
  "sum_by f m = (\<Sum>p\<leftarrow>m. f (snd p))"

lemma sum_by_Nil [simp]: "sum_by f [] = 0"
  by (simp add: sum_by_def)

lemma sum_by_Cons [simp]: "sum_by f (p # m) = f (snd p) + sum_by f m"
  by (simp add: sum_by_def)

lemma sum_by_nonneg: "(\<And>v. 0 \<le> f v) \<Longrightarrow> 0 \<le> sum_by f m"
  by (induction m) (auto simp: add_nonneg_nonneg)

lemma sum_by_store_new: "map_of m k = None \<Longrightarrow> sum_by f (map_store k v m) = sum_by f m + f v"
  by (induction k v m rule: map_store.induct) (auto split: if_splits)

lemma sum_by_store_old:
  "map_of m k = Some w \<Longrightarrow> sum_by f (map_store k v m) = sum_by f m - f w + f v"
  by (induction k v m rule: map_store.induct) (auto split: if_splits)

lemma sum_by_remove:
  "distinct (map fst m) \<Longrightarrow> map_of m k = Some w \<Longrightarrow> sum_by f (map_remove k m) = sum_by f m - f w"
proof (induction m)
  case Nil
  then show ?case by simp
next
  case (Cons p m)
  show ?case
  proof (cases "fst p = k")
    case True
    with Cons.prems have "k \<notin> fst ` set m" by (auto simp: image_iff)
    then have "map_remove k (p # m) = m"
      using True by (simp add: map_remove_def map_remove_id [unfolded map_remove_def])
    moreover from True Cons.prems have "snd p = w" by (cases p) simp
    ultimately show ?thesis by simp
  next
    case False
    then have "map_remove k (p # m) = p # map_remove k m" by (simp add: map_remove_def)
    moreover from False Cons.prems have "map_of m k = Some w" by (cases p) simp
    ultimately show ?thesis using Cons by simp
  qed
qed

lemma sum_by_remove_absent: "map_of m k = None \<Longrightarrow> map_remove k m = m"
  by (simp add: map_remove_id map_of_None_keys)

end
