(* ===== verification/Go_Std.thy ===== *)
theory Go_Std
  imports Prelude "HOL-Library.Sublist"
begin

text \<open>
  The part of Go's standard library the modelled code calls: errors and their classification
  (\<open>os.IsNotExist\<close>, \<open>errors.Is\<close>), the \<open>strings\<close> and \<open>bytes\<close> functions, the lexical \<open>path\<close>
  functions, and decimal printing and parsing. Strings are bytes; the white space trimmed by
  \<open>bytes.TrimSpace\<close> is the ASCII one.
\<close>

section \<open>Errors\<close>

datatype errno = ENOENT | EEXIST | EIO | ENOSPC | EBADF | EINVAL | ENOTEMPTY | ENOTDIR | EISDIR
  | EACCES | EPERM | ENOTSUP | ENAMETOOLONG | ENXIO | ELOOP | EXDEV | EBUSY | EROFS | ETXTBSY | ENOSYS

text \<open>
  \<open>Errno\<close> is a \<open>syscall.Errno\<close>; \<open>ErrExist\<close>, \<open>ErrNotExist\<close>, \<open>ErrInvalid\<close>, \<open>ErrClosed\<close> are the
  sentinels of package \<open>os\<close>; \<open>PathError\<close> and \<open>LinkError\<close> are the wrappers \<open>os\<close> functions return;
  \<open>CloudUnreachable\<close> and \<open>NoCachedData\<close> are the repository's wrappers; \<open>Joined\<close> is the result of
  \<open>errors.Join\<close>; \<open>Errorf\<close> is an error made by \<open>fmt.Errorf\<close> from its message, \<open>Wrapped\<close> one that also
  wraps another error (\<open>%w\<close>).
\<close>

datatype error =
    Errno errno
  | ErrExist | ErrNotExist | ErrInvalid | ErrClosed
  | PathError error
  | LinkError error
  | CloudUnreachable error
  | NoCachedData error
  | Joined "error list"
  | Errorf string
  | Wrapped string error

fun underlying_error :: "error \<Rightarrow> error" where
  "underlying_error (PathError e) = e"
| "underlying_error (LinkError e) = e"
| "underlying_error e = e"

fun is_not_exist :: "error option \<Rightarrow> bool" where
  "is_not_exist None = False"
| "is_not_exist (Some e) = (underlying_error e \<in> {Errno ENOENT, ErrNotExist})"

fun is_exist :: "error option \<Rightarrow> bool" where
  "is_exist None = False"
| "is_exist (Some e) = (underlying_error e \<in> {Errno EEXIST, Errno ENOTEMPTY, ErrExist})"

text \<open>\<open>errors.Is(err, &CloudUnreachableError{})\<close> searches the wrapped errors. A wrapper without a cause has
  \<open>Joined []\<close> in its place, which matches nothing.\<close>

fun is_cloud_unreachable :: "error \<Rightarrow> bool" where
  "is_cloud_unreachable (CloudUnreachable e) = True"
| "is_cloud_unreachable (NoCachedData e) = is_cloud_unreachable e"
| "is_cloud_unreachable (PathError e) = is_cloud_unreachable e"
| "is_cloud_unreachable (LinkError e) = is_cloud_unreachable e"
| "is_cloud_unreachable (Joined es) = list_ex is_cloud_unreachable es"
| "is_cloud_unreachable (Wrapped m e) = is_cloud_unreachable e"
| "is_cloud_unreachable _ = False"

text \<open>\<open>errors.Is(err, &NoCachedDataError{})\<close> and \<open>errors.Is(err, os.ErrNotExist)\<close>, likewise.\<close>

fun is_no_cached_data :: "error \<Rightarrow> bool" where
  "is_no_cached_data (NoCachedData e) = True"
| "is_no_cached_data (CloudUnreachable e) = is_no_cached_data e"
| "is_no_cached_data (PathError e) = is_no_cached_data e"
| "is_no_cached_data (LinkError e) = is_no_cached_data e"
| "is_no_cached_data (Joined es) = list_ex is_no_cached_data es"
| "is_no_cached_data (Wrapped m e) = is_no_cached_data e"
| "is_no_cached_data _ = False"

fun is_err_not_exist :: "error \<Rightarrow> bool" where
  "is_err_not_exist (Errno e) = (e = ENOENT)"
| "is_err_not_exist ErrNotExist = True"
| "is_err_not_exist (NoCachedData e) = is_err_not_exist e"
| "is_err_not_exist (CloudUnreachable e) = is_err_not_exist e"
| "is_err_not_exist (PathError e) = is_err_not_exist e"
| "is_err_not_exist (LinkError e) = is_err_not_exist e"
| "is_err_not_exist (Joined es) = list_ex is_err_not_exist es"
| "is_err_not_exist (Wrapped m e) = is_err_not_exist e"
| "is_err_not_exist _ = False"

fun is_err_exist :: "error \<Rightarrow> bool" where
  "is_err_exist (Errno e) = (e \<in> {EEXIST, ENOTEMPTY})"
| "is_err_exist ErrExist = True"
| "is_err_exist (NoCachedData e) = is_err_exist e"
| "is_err_exist (CloudUnreachable e) = is_err_exist e"
| "is_err_exist (PathError e) = is_err_exist e"
| "is_err_exist (LinkError e) = is_err_exist e"
| "is_err_exist (Joined es) = list_ex is_err_exist es"
| "is_err_exist (Wrapped m e) = is_err_exist e"
| "is_err_exist _ = False"

text \<open>\<open>errors.Is\<close> for a \<open>syscall.Errno\<close>, and for \<open>os.ErrPermission\<close>.\<close>

fun errors_is_errno :: "errno \<Rightarrow> error \<Rightarrow> bool" where
  "errors_is_errno n (Errno e) = (e = n)"
| "errors_is_errno n (NoCachedData e) = errors_is_errno n e"
| "errors_is_errno n (CloudUnreachable e) = errors_is_errno n e"
| "errors_is_errno n (PathError e) = errors_is_errno n e"
| "errors_is_errno n (LinkError e) = errors_is_errno n e"
| "errors_is_errno n (Joined es) = list_ex (errors_is_errno n) es"
| "errors_is_errno n (Wrapped m e) = errors_is_errno n e"
| "errors_is_errno n _ = False"

definition is_err_permission :: "error \<Rightarrow> bool" where
  "is_err_permission e \<longleftrightarrow> errors_is_errno EACCES e \<or> errors_is_errno EPERM e"

text \<open>\<open>errors.Join\<close> drops nil errors and is nil when nothing is left.\<close>

definition errors_join :: "error option list \<Rightarrow> error option" where
  "errors_join es = (case List.map_filter id es of [] \<Rightarrow> None | xs \<Rightarrow> Some (Joined xs))"

section \<open>Strings\<close>

definition has_suffix :: "string \<Rightarrow> string \<Rightarrow> bool" where
  "has_suffix s suf \<longleftrightarrow> suffix suf s"

definition trim_suffix :: "string \<Rightarrow> string \<Rightarrow> string" where
  "trim_suffix s suf = (if suffix suf s then take (length s - length suf) s else s)"

definition trim_prefix :: "string \<Rightarrow> string \<Rightarrow> string" where
  "trim_prefix s pre = (if prefix pre s then drop (length pre) s else s)"

definition replace_char :: "char \<Rightarrow> char \<Rightarrow> string \<Rightarrow> string" where
  "replace_char a b s = map (\<lambda>c. if c = a then b else c) s"

text \<open>\<open>strings.Replace(s, old, new, 1)\<close>.\<close>

fun replace_first :: "string \<Rightarrow> string \<Rightarrow> string \<Rightarrow> string" where
  "replace_first old new [] = (if old = [] then new else [])"
| "replace_first old new (c # cs) =
     (if prefix old (c # cs) then new @ drop (length old) (c # cs)
      else c # replace_first old new cs)"

definition is_space :: "char \<Rightarrow> bool" where
  "is_space c \<longleftrightarrow> c \<in> {CHR 0x09, CHR 0x0A, CHR 0x0B, CHR 0x0C, CHR 0x0D, CHR 0x20}"

definition trim_space :: "string \<Rightarrow> string" where
  "trim_space s = rev (dropWhile is_space (rev (dropWhile is_space s)))"

fun split_on :: "char \<Rightarrow> string \<Rightarrow> string list" where
  "split_on c [] = [[]]"
| "split_on c (x # xs) =
     (if x = c then [] # split_on c xs
      else (case split_on c xs of [] \<Rightarrow> [[x]] | y # ys \<Rightarrow> (x # y) # ys))"

text \<open>\<open>SplitN(s, [c], 2)\<close>: the text before the first separator and, when there is one, the rest.\<close>

definition split_first :: "char \<Rightarrow> string \<Rightarrow> string list" where
  "split_first c s =
     (if c \<in> set s then [takeWhile (\<lambda>x. x \<noteq> c) s, tl (dropWhile (\<lambda>x. x \<noteq> c) s)] else [s])"

fun join_with :: "string \<Rightarrow> string list \<Rightarrow> string" where
  "join_with sep [] = []"
| "join_with sep [s] = s"
| "join_with sep (s # t # ss) = s @ sep @ join_with sep (t # ss)"

lemma split_on_Nil_iff [simp]: "split_on c s \<noteq> []"
  by (induction s) (auto split: list.splits)

lemma split_on_append_sep: "c \<notin> set s \<Longrightarrow> split_on c (s @ c # t) = s # split_on c t"
  by (induction s) (auto split: list.splits)

lemma split_on_no_sep: "c \<notin> set s \<Longrightarrow> split_on c s = [s]"
  by (induction s) (auto split: list.splits)

lemma trim_suffix_id: "\<not> suffix suf s \<Longrightarrow> trim_suffix s suf = s"
  by (simp add: trim_suffix_def)

lemma trim_suffix_append [simp]: "trim_suffix (s @ suf) suf = s"
  by (simp add: trim_suffix_def suffix_def)

lemma length_trim_suffix: "length (trim_suffix s suf) \<le> length s"
  by (simp add: trim_suffix_def)

lemma trim_space_id:
  assumes "s = [] \<or> (\<not> is_space (hd s) \<and> \<not> is_space (last s))"
  shows "trim_space s = s"
proof -
  from assms have "dropWhile is_space s = s" by (auto simp: dropWhile_eq_self_iff)
  moreover from assms have "dropWhile is_space (rev s) = rev s"
    by (auto simp: dropWhile_eq_self_iff hd_rev)
  ultimately show ?thesis by (simp add: trim_space_def)
qed

section \<open>Decimal numbers\<close>

definition digit_char :: "nat \<Rightarrow> char" where
  "digit_char d = char_of (48 + d)"

definition is_digit :: "char \<Rightarrow> bool" where
  "is_digit c \<longleftrightarrow> 48 \<le> (of_char c :: nat) \<and> (of_char c :: nat) \<le> 57"

definition digit_val :: "char \<Rightarrow> nat" where
  "digit_val c = of_char c - 48"

fun show_nat :: "nat \<Rightarrow> string" where
  "show_nat n = (if n < 10 then [digit_char n] else show_nat (n div 10) @ [digit_char (n mod 10)])"

declare show_nat.simps [simp del]

definition read_nat :: "string \<Rightarrow> nat" where
  "read_nat s = foldl (\<lambda>acc c. 10 * acc + digit_val c) 0 s"

text \<open>\<open>strconv.ParseUint(s, 10, 64)\<close>: nothing on an empty string, a non-digit or an overflow.\<close>

definition parse_uint :: "string \<Rightarrow> int option" where
  "parse_uint s =
     (if s \<noteq> [] \<and> list_all is_digit s \<and> read_nat s < 2 ^ 64 then Some (int (read_nat s)) else None)"

text \<open>\<open>%d\<close> of a \<open>uint64\<close> or an \<open>int64\<close>.\<close>

definition show_int :: "int \<Rightarrow> string" where
  "show_int i = (if i < 0 then CHR ''-'' # show_nat (nat (- i)) else show_nat (nat i))"

lemma of_char_digit_char: "d < 10 \<Longrightarrow> (of_char (digit_char d) :: nat) = 48 + d"
  by (simp add: digit_char_def)

lemma is_digit_digit_char [simp]: "d < 10 \<Longrightarrow> is_digit (digit_char d)"
  by (simp add: is_digit_def of_char_digit_char)

lemma digit_val_digit_char [simp]: "d < 10 \<Longrightarrow> digit_val (digit_char d) = d"
  by (simp add: digit_val_def of_char_digit_char)

lemma show_nat_not_Nil [simp]: "show_nat n \<noteq> []"
  by (subst show_nat.simps) simp

lemma show_nat_digits [simp]: "list_all is_digit (show_nat n)"
proof (induction n rule: show_nat.induct)
  case (1 n)
  then show ?case by (subst show_nat.simps) simp
qed

lemma read_nat_snoc: "read_nat (s @ [c]) = 10 * read_nat s + digit_val c"
  by (simp add: read_nat_def)

lemma read_show_nat [simp]: "read_nat (show_nat n) = n"
proof (induction n rule: show_nat.induct)
  case (1 n)
  show ?case
  proof (cases "n < 10")
    case True
    then show ?thesis by (subst show_nat.simps) (simp add: read_nat_def)
  next
    case False
    with 1 show ?thesis by (subst show_nat.simps) (simp add: read_nat_snoc)
  qed
qed

lemma parse_show_int [simp]: "in_uint64 i \<Longrightarrow> parse_uint (show_int i) = Some i"
  by (auto simp: parse_uint_def show_int_def in_uint64_def nat_less_iff)

lemma is_digit_not_space: "is_digit c \<Longrightarrow> \<not> is_space c"
  by (auto simp: is_digit_def is_space_def)

lemma show_int_nonneg_chars:
  "0 \<le> i \<Longrightarrow> c \<in> set (show_int i) \<Longrightarrow> is_digit c"
  using show_nat_digits [of "nat i"] by (auto simp: show_int_def list_all_iff)

lemma trim_space_digits: "list_all is_digit s \<Longrightarrow> trim_space s = s"
  by (rule trim_space_id) (cases s; auto simp: list_all_iff is_digit_not_space)

section \<open>Lexical paths\<close>

abbreviation slash :: char where "slash \<equiv> CHR ''/''"

text \<open>\<open>path.Clean\<close>: \<open>.\<close> and empty components go, \<open>..\<close> removes the component before it.\<close>

fun clean_comps :: "bool \<Rightarrow> string list \<Rightarrow> string list \<Rightarrow> string list" where
  "clean_comps rooted acc [] = rev acc"
| "clean_comps rooted acc (c # cs) =
     (if c = '''' \<or> c = ''.'' then clean_comps rooted acc cs
      else if c = ''..'' then
        (if acc \<noteq> [] \<and> hd acc \<noteq> ''..'' then clean_comps rooted (tl acc) cs
         else if rooted then clean_comps rooted acc cs
         else clean_comps rooted (c # acc) cs)
      else clean_comps rooted (c # acc) cs)"

definition path_clean :: "string \<Rightarrow> string" where
  "path_clean p =
     (let rooted = (p \<noteq> [] \<and> hd p = slash);
          cs = clean_comps rooted [] (split_on slash p);
          out = (if rooted then [slash] else []) @ join_with [slash] cs
      in if out = [] then ''.'' else out)"

text \<open>The part of the path up to and including its last slash, and the part after it.\<close>

definition upto_last_slash :: "string \<Rightarrow> string" where
  "upto_last_slash p = rev (dropWhile (\<lambda>c. c \<noteq> slash) (rev p))"

definition after_last_slash :: "string \<Rightarrow> string" where
  "after_last_slash p = rev (takeWhile (\<lambda>c. c \<noteq> slash) (rev p))"

definition path_dir :: "string \<Rightarrow> string" where
  "path_dir p = path_clean (upto_last_slash p)"

definition path_base :: "string \<Rightarrow> string" where
  "path_base p =
     (if p = [] then ''.''
      else let q = rev (dropWhile (\<lambda>c. c = slash) (rev p));
               b = after_last_slash q
           in if b = [] then [slash] else b)"

definition path_join :: "string list \<Rightarrow> string" where
  "path_join es = (case filter (\<lambda>e. e \<noteq> []) es of [] \<Rightarrow> [] | xs \<Rightarrow> path_clean (join_with [slash] xs))"

text \<open>\<open>path.Clean\<close> never makes a path longer.\<close>

definition comps_len :: "string list \<Rightarrow> nat" where
  "comps_len cs = (\<Sum>c\<leftarrow>cs. Suc (length c))"

lemma comps_len_simps [simp]:
  "comps_len [] = 0" "comps_len (c # cs) = Suc (length c) + comps_len cs"
  "comps_len (xs @ ys) = comps_len xs + comps_len ys"
  by (simp_all add: comps_len_def)

lemma comps_len_rev [simp]: "comps_len (rev cs) = comps_len cs"
  by (simp add: comps_len_def rev_map [symmetric])

lemma comps_len_clean: "comps_len (clean_comps r acc cs) \<le> comps_len acc + comps_len cs"
proof (induction r acc cs rule: clean_comps.induct)
  case (1 r acc)
  then show ?case by simp
next
  case (2 r acc c cs)
  then show ?case by (cases acc) auto
qed

lemma comps_len_split: "comps_len (split_on c s) = Suc (length s)"
  by (induction s) (auto split: list.splits)

lemma length_join_with: "length (join_with [c] cs) = comps_len cs - 1"
proof (induction "[c]" cs rule: join_with.induct)
  case (3 s t ss)
  then show ?case by simp
qed simp_all

lemma length_path_clean: "p \<noteq> [] \<Longrightarrow> length (path_clean p) \<le> length p"
proof -
  assume p: "p \<noteq> []"
  then obtain x xs where x: "p = x # xs" by (cases p) simp_all
  let ?r = "hd p = slash"
  let ?cs = "clean_comps ?r [] (split_on slash p)"
  have le: "comps_len ?cs \<le> (if ?r then length p else Suc (length p))"
  proof (cases ?r)
    case True
    with x have "split_on slash p = [] # split_on slash xs" by simp
    with True have "?cs = clean_comps True [] (split_on slash xs)" by simp
    then show ?thesis
      using True x comps_len_clean [of True "[]" "split_on slash xs"] by (simp add: comps_len_split)
  next
    case False
    then show ?thesis
      using comps_len_clean [of ?r "[]" "split_on slash p"] by (simp add: comps_len_split)
  qed
  from p have "length p \<ge> 1" by (cases p) auto
  with le p show ?thesis
    by (auto simp: path_clean_def Let_def length_join_with split: if_splits)
qed

lemma split_on_snoc_sep: "split_on c (s @ [c]) = split_on c s @ [[]]"
  by (induction s) (auto split: list.splits)

lemma clean_comps_snoc_empty: "clean_comps r acc (cs @ [[]]) = clean_comps r acc cs"
  by (induction r acc cs rule: clean_comps.induct) auto

lemma path_clean_snoc_slash: "p \<noteq> [] \<Longrightarrow> path_clean (p @ [slash]) = path_clean p"
  by (simp add: path_clean_def split_on_snoc_sep clean_comps_snoc_empty)

lemma path_clean_slash: "path_clean [slash] = [slash]"
  by (simp add: path_clean_def Let_def)

lemma upto_last_slash_cases:
  "upto_last_slash p = [] \<or> (\<exists>v. upto_last_slash p = v @ [slash] \<and> length v < length p)"
proof (cases "dropWhile (\<lambda>c. c \<noteq> slash) (rev p)")
  case (Cons x xs)
  then have "x = slash" by (metis (mono_tags, lifting) hd_dropWhile list.discI list.sel(1))
  moreover have "length (x # xs) \<le> length (rev p)" using Cons by (metis length_dropWhile_le)
  ultimately show ?thesis using Cons by (auto simp: upto_last_slash_def)
qed (simp add: upto_last_slash_def)

text \<open>The directory of a path, without trailing slash, is shorter than the path.\<close>

lemma length_path_dir: "p \<noteq> [] \<Longrightarrow> path_dir p = [slash] \<or> path_dir p = ''.'' \<or> length (path_dir p) < length p"
proof -
  assume "p \<noteq> []"
  consider "upto_last_slash p = []" | v where "upto_last_slash p = v @ [slash]" "length v < length p"
    using upto_last_slash_cases by blast
  then show ?thesis
  proof cases
    case 1
    then show ?thesis by (simp add: path_dir_def path_clean_def)
  next
    case 2
    show ?thesis
    proof (cases "v = []")
      case True
      then show ?thesis using 2 by (simp add: path_dir_def path_clean_slash)
    next
      case False
      then show ?thesis
        using 2 path_clean_snoc_slash [OF False] length_path_clean [OF False] by (simp add: path_dir_def)
    qed
  qed
qed

end
