(* ===== verification/Bit_Maps.thy ===== *)
theory Bit_Maps
  imports Go_Std
begin

text \<open>
  \<open>BitMap64\<close> of \<open>common/util.go\<close>: a 64-bit flag set changed by compare-and-swap loops. The
  sequential operations come first; the loop of \<open>Set\<close> is then modelled step by step, with any number
  of threads racing on one bit map, to show that a bit is claimed by exactly one caller.
\<close>

section \<open>The operations\<close>

type_synonym bitmap = "64 word"

definition bit_mask :: "nat \<Rightarrow> bitmap" where
  "bit_mask b = push_bit b 1"

definition IsSet :: "bitmap \<Rightarrow> nat \<Rightarrow> bool" where
  "IsSet bm b \<longleftrightarrow> bm AND bit_mask b \<noteq> 0"

text \<open>\<open>Set\<close>, \<open>Clear\<close> and \<open>Reset\<close> return whether this call changed the map, and the new map.\<close>

definition SetBit :: "bitmap \<Rightarrow> nat \<Rightarrow> bool \<times> bitmap" where
  "SetBit bm b = (if bm AND bit_mask b \<noteq> 0 then (False, bm) else (True, bm OR bit_mask b))"

definition ClearBit :: "bitmap \<Rightarrow> nat \<Rightarrow> bool \<times> bitmap" where
  "ClearBit bm b = (if bm AND bit_mask b = 0 then (False, bm) else (True, bm AND NOT (bit_mask b)))"

definition ResetBits :: "bitmap \<Rightarrow> bool \<times> bitmap" where
  "ResetBits bm = (if bm = 0 then (False, bm) else (True, 0))"

abbreviation set_flag :: "nat \<Rightarrow> bitmap \<Rightarrow> bitmap" where
  "set_flag b bm \<equiv> snd (SetBit bm b)"

abbreviation clear_flag :: "nat \<Rightarrow> bitmap \<Rightarrow> bitmap" where
  "clear_flag b bm \<equiv> snd (ClearBit bm b)"

lemma bit_bit_mask: "bit (bit_mask b) n \<longleftrightarrow> n = b \<and> n < 64"
  by (auto simp: bit_mask_def bit_simps)

lemma IsSet_bit: "IsSet bm b \<longleftrightarrow> bit bm b"
proof
  assume "IsSet bm b"
  then have "bm AND bit_mask b \<noteq> 0" by (simp add: IsSet_def)
  then obtain n where "bit (bm AND bit_mask b) n" by (auto simp: bit_eq_iff)
  then show "bit bm b" by (auto simp: bit_and_iff bit_bit_mask)
next
  assume b: "bit bm b"
  then have "b < 64" using bit_imp_le_length [of bm b] by simp
  with b have "bit (bm AND bit_mask b) b" by (simp add: bit_and_iff bit_bit_mask)
  then show "IsSet bm b" by (auto simp: IsSet_def)
qed

lemma bit_SetBit: "b < 64 \<Longrightarrow> bit (snd (SetBit bm b)) n \<longleftrightarrow> bit bm n \<or> n = b"
  using IsSet_bit [of bm b] by (auto simp: SetBit_def IsSet_def bit_or_iff bit_bit_mask)

lemma bit_ClearBit: "bit (snd (ClearBit bm b)) n \<longleftrightarrow> bit bm n \<and> n \<noteq> b"
  using IsSet_bit [of bm b]
  by (auto simp: ClearBit_def IsSet_def bit_and_iff bit_not_iff bit_bit_mask dest: bit_imp_le_length)

lemma IsSet_SetBit [simp]: "b < 64 \<Longrightarrow> IsSet (snd (SetBit bm b)) n \<longleftrightarrow> IsSet bm n \<or> n = b"
  by (simp add: IsSet_bit bit_SetBit)

lemma IsSet_ClearBit [simp]: "IsSet (snd (ClearBit bm b)) n \<longleftrightarrow> IsSet bm n \<and> n \<noteq> b"
  by (simp add: IsSet_bit bit_ClearBit)

lemma IsSet_zero [simp]: "\<not> IsSet 0 n"
  by (simp add: IsSet_def)

lemma SetBit_changed: "fst (SetBit bm b) \<longleftrightarrow> \<not> IsSet bm b"
  by (simp add: SetBit_def IsSet_def)

lemma ClearBit_changed: "fst (ClearBit bm b) \<longleftrightarrow> IsSet bm b"
  by (simp add: ClearBit_def IsSet_def)

section \<open>The loop of Set under concurrency\<close>

text \<open>
  One thread calling \<open>Set(b)\<close> is at the top of its loop, holds a loaded value it found the bit
  clear in, or has returned. \<open>set_load\<close> and \<open>set_load_seen\<close> are the two ways through the load and
  test, \<open>set_cas\<close> and \<open>set_retry\<close> the two outcomes of the compare-and-swap. Any thread may also
  change another bit of the map in between (\<open>other_set\<close>, \<open>other_clear\<close>).
\<close>

datatype set_pc = AtTop | Loaded bitmap | Returned bool

record set_race =
  race_map :: bitmap
  race_pc :: "nat \<Rightarrow> set_pc"

inductive set_step :: "nat \<Rightarrow> set_race \<Rightarrow> set_race \<Rightarrow> bool" for b :: nat where
  set_load: "race_pc s t = AtTop \<Longrightarrow> race_map s AND bit_mask b = 0 \<Longrightarrow>
    set_step b s (s\<lparr>race_pc := (race_pc s)(t := Loaded (race_map s))\<rparr>)"
| set_load_seen: "race_pc s t = AtTop \<Longrightarrow> race_map s AND bit_mask b \<noteq> 0 \<Longrightarrow>
    set_step b s (s\<lparr>race_pc := (race_pc s)(t := Returned False)\<rparr>)"
| set_cas: "race_pc s t = Loaded w \<Longrightarrow> race_map s = w \<Longrightarrow>
    set_step b s (s\<lparr>race_map := w OR bit_mask b, race_pc := (race_pc s)(t := Returned True)\<rparr>)"
| set_retry: "race_pc s t = Loaded w \<Longrightarrow> race_map s \<noteq> w \<Longrightarrow>
    set_step b s (s\<lparr>race_pc := (race_pc s)(t := AtTop)\<rparr>)"
| other_set: "c \<noteq> b \<Longrightarrow> c < 64 \<Longrightarrow> set_step b s (s\<lparr>race_map := snd (SetBit (race_map s) c)\<rparr>)"
| other_clear: "c \<noteq> b \<Longrightarrow> set_step b s (s\<lparr>race_map := snd (ClearBit (race_map s) c)\<rparr>)"

definition race_init :: "bitmap \<Rightarrow> set_race" where
  "race_init bm = \<lparr>race_map = bm, race_pc = (\<lambda>_. AtTop)\<rparr>"

inductive race_reachable :: "nat \<Rightarrow> bitmap \<Rightarrow> set_race \<Rightarrow> bool" for b :: nat and bm :: bitmap where
  race_start: "race_reachable b bm (race_init bm)"
| race_next: "race_reachable b bm s \<Longrightarrow> set_step b s s' \<Longrightarrow> race_reachable b bm s'"

definition race_winners :: "set_race \<Rightarrow> nat set" where
  "race_winners s = {t. race_pc s t = Returned True}"

text \<open>
  The invariant: the bit is set exactly when someone has won, at most one thread has won, a thread
  that holds a loaded value saw the bit clear in it, and a thread that lost found it set.
\<close>

definition race_inv :: "nat \<Rightarrow> set_race \<Rightarrow> bool" where
  "race_inv b s \<longleftrightarrow>
     (IsSet (race_map s) b \<longleftrightarrow> race_winners s \<noteq> {}) \<and>
     (\<forall>t u. race_pc s t = Returned True \<longrightarrow> race_pc s u = Returned True \<longrightarrow> t = u) \<and>
     (\<forall>t w. race_pc s t = Loaded w \<longrightarrow> \<not> IsSet w b) \<and>
     (\<forall>t. race_pc s t = Returned False \<longrightarrow> IsSet (race_map s) b)"

lemma race_inv_init: "\<not> IsSet bm b \<Longrightarrow> race_inv b (race_init bm)"
  by (simp add: race_inv_def race_init_def race_winners_def)

lemma IsSet_or_mask: "b < 64 \<Longrightarrow> IsSet (w OR bit_mask b) n \<longleftrightarrow> IsSet w n \<or> n = b"
  by (auto simp: IsSet_bit bit_or_iff bit_bit_mask)

lemma winners_upd:
  "race_pc s t \<noteq> Returned True \<Longrightarrow> x \<noteq> Returned True \<Longrightarrow>
     race_winners (s\<lparr>race_pc := (race_pc s)(t := x)\<rparr>) = race_winners s"
  by (auto simp: race_winners_def)

lemma race_inv_step:
  assumes "set_step b s s'" and "race_inv b s" and b: "b < 64"
  shows "race_inv b s'"
  using assms(1,2)
proof (induction rule: set_step.induct)
  case (set_load s t)
  then show ?case by (auto simp: race_inv_def winners_upd IsSet_def)
next
  case (set_load_seen s t)
  then show ?case by (auto simp: race_inv_def winners_upd IsSet_def)
next
  case (set_cas s t w)
  then have "race_winners s = {}" by (auto simp: race_inv_def)
  with set_cas b show ?case
    by (auto simp: race_inv_def race_winners_def IsSet_or_mask)
next
  case (set_retry s t w)
  then show ?case by (auto simp: race_inv_def winners_upd)
next
  case (other_set c s)
  with b show ?case by (auto simp: race_inv_def race_winners_def)
next
  case (other_clear c s)
  then show ?case by (auto simp: race_inv_def race_winners_def)
qed

lemma race_reachable_inv:
  "race_reachable b bm s \<Longrightarrow> \<not> IsSet bm b \<Longrightarrow> b < 64 \<Longrightarrow> race_inv b s"
  by (induction rule: race_reachable.induct) (auto intro: race_inv_init race_inv_step)

text \<open>
  C25. When threads race to set one clear bit of a bit map (others changing other bits meanwhile), then
  as soon as any of them has returned, exactly one has returned true, and the bit is set.
\<close>

theorem set_claims_bit_once:
  assumes "race_reachable b bm s" and "\<not> IsSet bm b" and "b < 64"
    and "race_pc s t = Returned r"
  shows "(\<exists>!u. race_pc s u = Returned True) \<and> IsSet (race_map s) b"
proof -
  from race_reachable_inv [OF assms(1-3)] have inv: "race_inv b s" .
  with assms(4) have "IsSet (race_map s) b"
    by (cases r) (auto simp: race_inv_def race_winners_def)
  with inv show ?thesis by (auto simp: race_inv_def race_winners_def)
qed

definition race_example :: set_race where
  "race_example = \<lparr>race_map = 4, race_pc = (\<lambda>_. AtTop)(7 := Loaded 0, 7 := Returned True)\<rparr>"

lemma race_example_reachable: "race_reachable 2 0 race_example"
proof -
  let ?s1 = "(race_init 0)\<lparr>race_pc := (race_pc (race_init 0))(7 := Loaded 0)\<rparr>"
  have "set_step 2 (race_init 0) ((race_init 0)\<lparr>race_pc := (race_pc (race_init 0))(7 := Loaded (race_map (race_init 0)))\<rparr>)"
    by (rule set_load) (simp_all add: race_init_def)
  then have 1: "race_reachable 2 0 ?s1"
    using race_next [OF race_start] by (simp add: race_init_def)
  have "set_step 2 ?s1 (?s1\<lparr>race_map := 0 OR bit_mask 2, race_pc := (race_pc ?s1)(7 := Returned True)\<rparr>)"
    by (rule set_cas) (simp_all add: race_init_def)
  then have "race_reachable 2 0 (?s1\<lparr>race_map := 0 OR bit_mask 2, race_pc := (race_pc ?s1)(7 := Returned True)\<rparr>)"
    by (rule race_next [OF 1])
  then show ?thesis by (simp add: race_init_def race_example_def bit_mask_def)
qed

theorem set_claims_bit_once_witness:
  "(\<exists>!u. race_pc race_example u = Returned True) \<and> IsSet (race_map race_example) 2"
proof (rule set_claims_bit_once [OF race_example_reachable])
  show "race_pc race_example 7 = Returned True" by (simp add: race_example_def)
qed simp_all

end
