(* ===== verification/Block_List.thy ===== *)
theory Block_List
  imports Bit_Maps
begin

text \<open>
  Blocks and block lists of \<open>common/types.go\<close>, the description of a blob as consecutive blocks that
  the streaming and the storage components share: the search for the block holding an offset and the
  selection of the blocks a read or a write touches.
\<close>

section \<open>Log levels\<close>

text \<open>The values of the \<open>LogLevel\<close> enum in order, with the names of both lookup tables.\<close>

definition logLevelNames :: "(int \<times> string) list" where
  "logLevelNames =
     [(0, ''INVALID''), (1, ''LOG_OFF''), (2, ''LOG_CRIT''), (3, ''LOG_ERR''),
      (4, ''LOG_WARNING''), (5, ''LOG_INFO''), (6, ''LOG_TRACE''), (7, ''LOG_DEBUG'')]"

definition logLevelValues :: "(string \<times> int) list" where
  "logLevelValues =
     [(''INVALID'', 0), (''LOG_OFF'', 1), (''LOG_CRIT'', 2), (''LOG_ERR'', 3),
      (''LOG_WARNING'', 4), (''LOG_INFO'', 5), (''LOG_TRACE'', 6), (''LOG_DEBUG'', 7)]"

definition LogLevel_String :: "int \<Rightarrow> string" where
  "LogLevel_String l = (case map_of logLevelNames l of Some n \<Rightarrow> n | None \<Rightarrow> ''INVALID'')"

text \<open>\<open>strings.ToUpper\<close> on ASCII text.\<close>

definition to_upper :: "string \<Rightarrow> string" where
  "to_upper s = map (\<lambda>c. if 97 \<le> (of_char c :: nat) \<and> (of_char c :: nat) \<le> 122
                          then char_of ((of_char c :: nat) - 32) else c) s"

text \<open>\<open>Parse\<close> assigns the level and returns nil, or leaves it alone and returns an error.\<close>

definition LogLevel_Parse :: "int \<Rightarrow> string \<Rightarrow> int \<times> error option" where
  "LogLevel_Parse l s = (case map_of logLevelValues (to_upper s) of
       Some v \<Rightarrow> (v, None)
     | None \<Rightarrow> (l, Some (Errorf (''invalid LogLevel: '' @ s))))"

lemma LogLevel_roundtrip:
  assumes "l \<in> {0..7}"
  shows "LogLevel_Parse l0 (LogLevel_String l) = (l, None)"
proof -
  from assms have "l \<in> {0, 1, 2, 3, 4, 5, 6, 7}" by auto
  then show ?thesis
    by (elim insertE emptyE)
      (simp_all add: LogLevel_String_def logLevelNames_def LogLevel_Parse_def logLevelValues_def to_upper_def)
qed

section \<open>Blocks\<close>

definition DirtyBlock :: nat where "DirtyBlock = 1"
definition TruncatedBlock :: nat where "TruncatedBlock = 2"

record Block =
  StartIndex :: int
  EndIndex :: int
  blk_Flags :: bitmap
  blk_Id :: string
  blk_Data :: string

definition Dirty :: "Block \<Rightarrow> bool" where
  "Dirty b = IsSet (blk_Flags b) DirtyBlock"

definition Truncated :: "Block \<Rightarrow> bool" where
  "Truncated b = IsSet (blk_Flags b) TruncatedBlock"

definition mark_dirty :: "Block \<Rightarrow> Block" where
  "mark_dirty b = b\<lparr>blk_Flags := set_flag DirtyBlock (blk_Flags b)\<rparr>"

lemma mark_dirty_simps [simp]:
  "StartIndex (mark_dirty b) = StartIndex b" "EndIndex (mark_dirty b) = EndIndex b"
  "Dirty (mark_dirty b)" "blk_Data (mark_dirty b) = blk_Data b" "blk_Id (mark_dirty b) = blk_Id b"
  by (simp_all add: mark_dirty_def Dirty_def DirtyBlock_def)

section \<open>Block lists\<close>

definition BlobFlagHasNoBlocks :: nat where "BlobFlagHasNoBlocks = 1"
definition BlobFlagBlockListModified :: nat where "BlobFlagBlockListModified = 2"

record BlockOffsetList =
  BlockList :: "Block list"
  bol_Flags :: bitmap
  BlockIdLength :: int
  bol_Size :: int
  bol_Mtime :: int

definition HasNoBlocks :: "BlockOffsetList \<Rightarrow> bool" where
  "HasNoBlocks bol \<longleftrightarrow> length (BlockList bol) = 0"

definition IsBlockListModified :: "BlockOffsetList \<Rightarrow> bool" where
  "IsBlockListModified bol = IsSet (bol_Flags bol) BlobFlagBlockListModified"

definition ValidateBlockListAgainstFileSize :: "BlockOffsetList \<Rightarrow> int \<Rightarrow> bool" where
  "ValidateBlockListAgainstFileSize bol fileSize =
     (if HasNoBlocks bol then fileSize = 0
      else if EndIndex (last (BlockList bol)) \<noteq> fileSize then False
      else True)"

definition HasAllBlocksWithSameBlockSize :: "BlockOffsetList \<Rightarrow> int \<times> bool" where
  "HasAllBlocksWithSameBlockSize bol =
     (if HasNoBlocks bol then (0, True)
      else let b0 = hd (BlockList bol); blockSize = wrap64 (EndIndex b0 - StartIndex b0)
           in if list_ex (\<lambda>b. wrap64 (EndIndex b - StartIndex b) \<noteq> blockSize) (BlockList bol)
              then (0, False) else (blockSize, True))"

text \<open>
  The search loop, with the bounds as Go \<open>int\<close>s (\<open>higherBound\<close> may become \<open>-1\<close>). Every index it
  reads lies between the bounds, inside the list.
\<close>

function bsearch_loop :: "Block list \<Rightarrow> int \<Rightarrow> int \<Rightarrow> int \<Rightarrow> bool \<times> nat" where
  "bsearch_loop bs offset lowerBound higherBound =
     (if lowerBound \<le> higherBound then
        let middleIndex = (lowerBound + higherBound) div 2; b = bs ! nat middleIndex in
        if EndIndex b > offset \<and> StartIndex b \<le> offset then (True, nat middleIndex)
        else if EndIndex b \<le> offset then bsearch_loop bs offset (middleIndex + 1) higherBound
        else bsearch_loop bs offset lowerBound (middleIndex - 1)
      else (False, length bs))"
  by pat_completeness auto
termination
  by (relation "measure (\<lambda>(bs, offset, lo, hi). nat (hi + 1 - lo))") auto

declare bsearch_loop.simps [simp del]

definition BinarySearch :: "BlockOffsetList \<Rightarrow> int \<Rightarrow> bool \<times> nat" where
  "BinarySearch bol offset =
     bsearch_loop (BlockList bol) offset 0 (int (length (BlockList bol)) - 1)"

text \<open>The loop of \<open>FindBlocks\<close> from the found index on: \<open>cur\<close> is \<open>currentBlockOffset\<close>.\<close>

fun find_loop :: "int \<Rightarrow> int \<Rightarrow> int \<Rightarrow> Block list \<Rightarrow> Block list" where
  "find_loop offset len cur [] = []"
| "find_loop offset len cur (b # bs) =
     (if StartIndex b > wrap64 (offset + len) then []
      else if cur \<ge> StartIndex b \<and> cur < EndIndex b \<and> cur \<le> wrap64 (offset + len)
      then b # find_loop offset len (EndIndex b) bs
      else find_loop offset len cur bs)"

definition FindBlocks :: "BlockOffsetList \<Rightarrow> int \<Rightarrow> int \<Rightarrow> Block list \<times> bool" where
  "FindBlocks bol offset len =
     (case BinarySearch bol offset of (found, index) \<Rightarrow>
        if \<not> found then ([], False)
        else (find_loop offset len offset (drop index (BlockList bol)), True))"

text \<open>
  The loop of \<open>FindBlocksToModify\<close>: it marks the blocks it selects dirty in place, so it returns the
  rewritten list with the accumulated size and whether nothing was selected.
\<close>

fun modify_loop :: "int \<Rightarrow> int \<Rightarrow> int \<Rightarrow> int \<Rightarrow> bool \<Rightarrow> Block list \<Rightarrow> Block list \<times> int \<times> bool" where
  "modify_loop offset len cur sz appendOnly [] = ([], sz, appendOnly)"
| "modify_loop offset len cur sz appendOnly (b # bs) =
     (if StartIndex b > wrap64 (offset + len) then (b # bs, sz, appendOnly)
      else if cur \<ge> StartIndex b \<and> cur < EndIndex b \<and> cur \<le> wrap64 (offset + len)
      then (case modify_loop offset len (EndIndex b) (wrap64 (sz + wrap64 (EndIndex b - StartIndex b))) False bs of
              (bs', r) \<Rightarrow> (mark_dirty b # bs', r))
      else (case modify_loop offset len cur sz appendOnly bs of (bs', r) \<Rightarrow> (b # bs', r)))"

text \<open>
  The result is the index, the size, whether the data reaches past the list, and append-only; the
  block list comes back with its dirty marks.
\<close>

definition FindBlocksToModify ::
  "BlockOffsetList \<Rightarrow> int \<Rightarrow> int \<Rightarrow> (nat \<times> int \<times> bool \<times> bool) \<times> BlockOffsetList" where
  "FindBlocksToModify bol offset len =
     (case BinarySearch bol offset of (found, index) \<Rightarrow>
        if \<not> found then ((index, 0, True, True), bol)
        else (case modify_loop offset len offset 0 True (drop index (BlockList bol)) of
                (bs', sz, appendOnly) \<Rightarrow>
                  ((index, sz,
                    wrap64 (offset + len) \<ge> EndIndex (last (BlockList bol)), appendOnly),
                   bol\<lparr>BlockList := take index (BlockList bol) @ bs'\<rparr>)))"

section \<open>Well-formed block lists\<close>

text \<open>Consecutive non-empty blocks, each starting where the one before it ends.\<close>

fun consecutive :: "Block list \<Rightarrow> bool" where
  "consecutive [] = True"
| "consecutive [b] = (StartIndex b < EndIndex b)"
| "consecutive (b # c # bs) =
     (StartIndex b < EndIndex b \<and> EndIndex b = StartIndex c \<and> consecutive (c # bs))"

lemma consecutive_ConsD: "consecutive (b # bs) \<Longrightarrow> StartIndex b < EndIndex b \<and> consecutive bs"
  by (cases bs) auto

lemma consecutive_later: "consecutive (b # bs) \<Longrightarrow> c \<in> set bs \<Longrightarrow> EndIndex b \<le> StartIndex c"
proof (induction bs arbitrary: b)
  case Nil
  then show ?case by simp
next
  case (Cons d bs)
  then have "StartIndex d < EndIndex d" "EndIndex b = StartIndex d"
    and "c = d \<or> (c \<in> set bs \<and> EndIndex d \<le> StartIndex c)"
    using consecutive_ConsD [of d bs] by auto
  then show ?case by auto
qed

lemma consecutive_nth:
  "consecutive bs \<Longrightarrow> i < j \<Longrightarrow> j < length bs \<Longrightarrow> EndIndex (bs ! i) \<le> StartIndex (bs ! j)"
proof (induction bs arbitrary: i j)
  case Nil
  then show ?case by simp
next
  case (Cons b bs)
  obtain j' where j: "j = Suc j'" using Cons.prems by (cases j) auto
  show ?case
  proof (cases i)
    case 0
    with j Cons.prems show ?thesis using consecutive_later [of b bs "bs ! j'"] by simp
  next
    case (Suc i')
    with j Cons show ?thesis using consecutive_ConsD [of b bs] by simp
  qed
qed

lemma consecutive_nonempty: "consecutive bs \<Longrightarrow> b \<in> set bs \<Longrightarrow> StartIndex b < EndIndex b"
  by (induction bs) (auto dest: consecutive_ConsD)

lemma consecutive_drop: "consecutive bs \<Longrightarrow> consecutive (drop n bs)"
  by (induction bs arbitrary: n) (auto simp: drop_Cons dest: consecutive_ConsD split: nat.splits)

definition holds_offset :: "int \<Rightarrow> Block \<Rightarrow> bool" where
  "holds_offset offset b \<longleftrightarrow> StartIndex b \<le> offset \<and> offset < EndIndex b"

lemma consecutive_holds_unique:
  assumes "consecutive bs" "i < length bs" "j < length bs"
    and "holds_offset x (bs ! i)" "holds_offset x (bs ! j)"
  shows "i = j"
proof (rule ccontr)
  assume "i \<noteq> j"
  then consider "i < j" | "j < i" by linarith
  then show False
    using assms consecutive_nth [of bs i j] consecutive_nth [of bs j i]
    by cases (auto simp: holds_offset_def)
qed

section \<open>The search\<close>

lemma bsearch_step:
  assumes "lo \<le> hi" and "m = (lo + hi) div 2" and "b = bs ! nat m"
  shows "bsearch_loop bs x lo hi =
     (if holds_offset x b then (True, nat m)
      else if EndIndex b \<le> x then bsearch_loop bs x (m + 1) hi
      else bsearch_loop bs x lo (m - 1))"
  using assms by (subst bsearch_loop.simps) (simp add: Let_def holds_offset_def)

lemma bsearch_stop: "hi < lo \<Longrightarrow> bsearch_loop bs x lo hi = (False, length bs)"
  by (subst bsearch_loop.simps) simp

text \<open>The induction the three search lemmas use: on the distance between the bounds.\<close>

lemma bsearch_loop_found:
  "bsearch_loop bs x lo hi = (True, i) \<Longrightarrow> 0 \<le> lo \<Longrightarrow> hi < int (length bs) \<Longrightarrow>
     i < length bs \<and> holds_offset x (bs ! i)"
proof (induction "nat (hi + 1 - lo)" arbitrary: lo hi rule: less_induct)
  case less
  define m where "m = (lo + hi) div 2"
  show ?case
  proof (cases "lo \<le> hi")
    case True
    then have m: "lo \<le> m" "m \<le> hi" by (auto simp: m_def)
    note eq = bsearch_step [OF True m_def refl, of bs x]
    have right: "bsearch_loop bs x (m + 1) hi = (True, i) \<Longrightarrow> ?thesis"
      using m less.prems less.hyps [of hi "m + 1"] by simp
    have left: "bsearch_loop bs x lo (m - 1) = (True, i) \<Longrightarrow> ?thesis"
      using m less.prems less.hyps [of "m - 1" lo] by simp
    show ?thesis
      using eq right left less.prems m by (auto split: if_splits)
  next
    case False
    with less.prems show ?thesis by (simp add: bsearch_stop)
  qed
qed

lemma bsearch_loop_complete:
  assumes "consecutive bs" "k < length bs" "holds_offset x (bs ! k)"
  shows "0 \<le> lo \<Longrightarrow> hi < int (length bs) \<Longrightarrow> lo \<le> int k \<Longrightarrow> int k \<le> hi \<Longrightarrow>
    bsearch_loop bs x lo hi = (True, k)"
proof (induction "nat (hi + 1 - lo)" arbitrary: lo hi rule: less_induct)
  case less
  define m where "m = (lo + hi) div 2"
  have lh: "lo \<le> hi" using less.prems by linarith
  then have m: "lo \<le> m" "m \<le> hi" by (auto simp: m_def)
  have len: "nat m < length bs" using m less.prems by linarith
  note eq = bsearch_step [OF lh m_def refl, of bs x]
  consider (same) "int k = m" | (right) "m < int k" | (left) "int k < m" by linarith
  then show ?case
  proof cases
    case same
    then have "nat m = k" by linarith
    with eq assms(3) show ?thesis by simp
  next
    case right
    have "EndIndex (bs ! nat m) \<le> StartIndex (bs ! k)"
      using assms right m less.prems by (intro consecutive_nth) auto
    then have "EndIndex (bs ! nat m) \<le> x"
      using assms(3) by (simp add: holds_offset_def)
    then have "bsearch_loop bs x lo hi = bsearch_loop bs x (m + 1) hi"
      using eq by (simp add: holds_offset_def)
    then show ?thesis using right m less.prems less.hyps [of hi "m + 1"] by simp
  next
    case left
    have "EndIndex (bs ! k) \<le> StartIndex (bs ! nat m)"
      using assms left m len less.prems by (intro consecutive_nth) auto
    moreover have "StartIndex (bs ! nat m) < EndIndex (bs ! nat m)"
      using assms(1) len by (auto intro: consecutive_nonempty)
    ultimately have "bsearch_loop bs x lo hi = bsearch_loop bs x lo (m - 1)"
      using eq assms(3) by (simp add: holds_offset_def)
    then show ?thesis using left m less.prems less.hyps [of "m - 1" lo] by simp
  qed
qed

lemma bsearch_loop_index: "bsearch_loop bs x lo hi = (False, i) \<Longrightarrow> i = length bs"
proof (induction "nat (hi + 1 - lo)" arbitrary: lo hi rule: less_induct)
  case less
  define m where "m = (lo + hi) div 2"
  show ?case
  proof (cases "lo \<le> hi")
    case True
    then have m: "lo \<le> m" "m \<le> hi" by (auto simp: m_def)
    note eq = bsearch_step [OF True m_def refl, of bs x]
    have right: "bsearch_loop bs x (m + 1) hi = (False, i) \<Longrightarrow> ?thesis"
      using m less.hyps [of hi "m + 1"] by simp
    have left: "bsearch_loop bs x lo (m - 1) = (False, i) \<Longrightarrow> ?thesis"
      using m less.hyps [of "m - 1" lo] by simp
    show ?thesis using eq right left less.prems by (auto split: if_splits)
  next
    case False
    with less.prems show ?thesis by (simp add: bsearch_stop)
  qed
qed

text \<open>
  C26. On a list of consecutive blocks, the binary search reports a block exactly when some block holds
  the offset, and then the index it returns is that of the block; otherwise it returns the list's
  length, where new blocks start.
\<close>

theorem BinarySearch_correct:
  assumes "consecutive (BlockList bol)" and "BinarySearch bol x = (found, i)"
  shows "found = (\<exists>b \<in> set (BlockList bol). holds_offset x b) \<and>
     (if found then i < length (BlockList bol) \<and> holds_offset x (BlockList bol ! i)
      else i = length (BlockList bol))"
proof (cases found)
  case True
  with assms(2) have "i < length (BlockList bol) \<and> holds_offset x (BlockList bol ! i)"
    unfolding BinarySearch_def by (intro bsearch_loop_found) auto
  with True show ?thesis by auto
next
  case False
  have "\<not> holds_offset x b" if "b \<in> set (BlockList bol)" for b
  proof
    assume "holds_offset x b"
    with that obtain k where "k < length (BlockList bol)" "holds_offset x (BlockList bol ! k)"
      by (auto simp: in_set_conv_nth)
    with assms(1) have "BinarySearch bol x = (True, k)"
      unfolding BinarySearch_def by (intro bsearch_loop_complete) auto
    with assms(2) False show False by simp
  qed
  moreover from assms(2) False have "i = length (BlockList bol)"
    unfolding BinarySearch_def by (auto intro: bsearch_loop_index)
  ultimately show ?thesis using False by auto
qed

definition example_list :: BlockOffsetList where
  "example_list = \<lparr>BlockList =
     [\<lparr>StartIndex = 0, EndIndex = 4, blk_Flags = 0, blk_Id = ''a'', blk_Data = []\<rparr>,
      \<lparr>StartIndex = 4, EndIndex = 8, blk_Flags = 0, blk_Id = ''b'', blk_Data = []\<rparr>,
      \<lparr>StartIndex = 8, EndIndex = 10, blk_Flags = 0, blk_Id = ''c'', blk_Data = []\<rparr>],
     bol_Flags = 0, BlockIdLength = 16, bol_Size = 10, bol_Mtime = 0\<rparr>"

lemma example_list_search: "BinarySearch example_list 5 = (True, 1)"
  by (simp add: BinarySearch_def example_list_def bsearch_loop.simps Let_def)

theorem BinarySearch_correct_witness:
  "True = (\<exists>b \<in> set (BlockList example_list). holds_offset 5 b) \<and>
   (if True then 1 < length (BlockList example_list) \<and> holds_offset 5 (BlockList example_list ! 1)
    else 1 = length (BlockList example_list))"
  by (rule BinarySearch_correct [OF _ example_list_search]) (simp add: example_list_def)

section \<open>The selections\<close>

lemma BinarySearch_split:
  assumes "consecutive (BlockList bol)" and "holds_offset x b" and "b \<in> set (BlockList bol)"
  obtains i c cs where "BinarySearch bol x = (True, i)" "drop i (BlockList bol) = c # cs"
    "holds_offset x c" "\<And>d. d \<in> set (take i (BlockList bol)) \<Longrightarrow> EndIndex d \<le> x"
proof -
  let ?bs = "BlockList bol"
  obtain k where k: "k < length ?bs" "?bs ! k = b" using assms(3) by (auto simp: in_set_conv_nth)
  with assms(1,2) have "BinarySearch bol x = (True, k)"
    unfolding BinarySearch_def by (intro bsearch_loop_complete) auto
  moreover have "drop k ?bs = b # drop (Suc k) ?bs" using k by (metis Cons_nth_drop_Suc)
  moreover have "EndIndex d \<le> x" if d: "d \<in> set (take k ?bs)" for d
  proof -
    obtain j where j: "j < k" "d = ?bs ! j" using d k by (auto simp: in_set_conv_nth)
    with k have "EndIndex d \<le> StartIndex b"
      using consecutive_nth [OF assms(1), of j k] by simp
    with assms(2) show ?thesis by (simp add: holds_offset_def)
  qed
  ultimately show thesis using assms(2) that by blast
qed

text \<open>
  What both loops keep: the current offset lies in the next block, and it is either still in the
  requested range or the start of that block.
\<close>

definition at_block :: "int \<Rightarrow> int \<Rightarrow> Block list \<Rightarrow> bool" where
  "at_block e cur bs \<longleftrightarrow> consecutive bs \<and>
     (bs \<noteq> [] \<longrightarrow> holds_offset cur (hd bs) \<and> (cur \<le> e \<or> StartIndex (hd bs) = cur))"

lemma at_block_Cons:
  assumes "at_block e cur (b # bs)"
  shows "StartIndex b \<le> cur" "cur < EndIndex b" "at_block e (EndIndex b) bs"
    "StartIndex b \<le> e \<Longrightarrow> cur \<le> e"
  using assms
  by (cases bs; auto simp: at_block_def holds_offset_def dest: consecutive_ConsD)+

lemma at_block_none_left:
  assumes "at_block e cur (b # bs)" and "e < StartIndex b" and "c \<in> set bs"
  shows "e < StartIndex c"
  using assms consecutive_later [of b bs c] consecutive_ConsD [of b bs]
  by (auto simp: at_block_def)

lemma find_loop_eq:
  "at_block e cur bs \<Longrightarrow> e = wrap64 (offset + len) \<Longrightarrow>
     find_loop offset len cur bs = filter (\<lambda>b. StartIndex b \<le> e) bs"
proof (induction bs arbitrary: cur)
  case Nil
  then show ?case by simp
next
  case (Cons b bs)
  note at = at_block_Cons [OF Cons.prems(1)]
  show ?case
  proof (cases "StartIndex b \<le> e")
    case True
    with at Cons show ?thesis by simp
  next
    case False
    then have "filter (\<lambda>b. StartIndex b \<le> e) bs = []"
      using at_block_none_left [OF Cons.prems(1)] by (force simp: filter_empty_conv)
    with False Cons.prems show ?thesis by simp
  qed
qed

definition touched :: "int \<Rightarrow> int \<Rightarrow> Block \<Rightarrow> bool" where
  "touched offset e b \<longleftrightarrow> offset < EndIndex b \<and> StartIndex b \<le> e"

lemma at_block_search:
  assumes "drop i bs = c # cs" "consecutive bs" "holds_offset x c" "x \<le> e"
  shows "at_block e x (c # cs)"
  using assms consecutive_drop [of bs i] by (auto simp: at_block_def)

lemma at_block_touched:
  assumes "at_block e cur bs" "x \<le> cur" "b \<in> set bs"
  shows "touched x e b \<longleftrightarrow> StartIndex b \<le> e"
proof -
  have "x < EndIndex b"
    using assms
  proof (induction bs arbitrary: cur)
    case Nil
    then show ?case by simp
  next
    case (Cons c bs)
    note at = at_block_Cons [OF Cons.prems(1)]
    show ?case
    proof (cases "b = c")
      case True
      with at Cons.prems show ?thesis by simp
    next
      case False
      with Cons.prems at show ?thesis using Cons.IH [OF at(3)] by auto
    qed
  qed
  then show ?thesis by (simp add: touched_def)
qed

text \<open>
  C27. On consecutive blocks, \<open>FindBlocks\<close> returns exactly the blocks that end after the offset and
  start no later than the end of the range, in order (so the block starting right at the end is
  included), and nothing when no block holds the offset.
\<close>

theorem FindBlocks_correct:
  assumes "consecutive (BlockList bol)" and "0 \<le> len" and "in_int64 (offset + len)"
  shows "FindBlocks bol offset len =
     (if \<exists>b \<in> set (BlockList bol). holds_offset offset b
      then (filter (touched offset (offset + len)) (BlockList bol), True) else ([], False))"
proof (cases "\<exists>b \<in> set (BlockList bol). holds_offset offset b")
  case True
  then obtain b where "b \<in> set (BlockList bol)" "holds_offset offset b" by blast
  from BinarySearch_split [OF assms(1) this(2,1)] obtain i c cs where
    i: "BinarySearch bol offset = (True, i)" "drop i (BlockList bol) = c # cs"
      "holds_offset offset c" "\<And>d. d \<in> set (take i (BlockList bol)) \<Longrightarrow> EndIndex d \<le> offset"
    by metis
  have at: "at_block (offset + len) offset (c # cs)"
    by (rule at_block_search [OF i(2) assms(1) i(3)]) (use assms in simp)
  have "filter (touched offset (offset + len)) (take i (BlockList bol)) = []"
    using i(4) by (force simp: filter_empty_conv touched_def)
  then have "filter (touched offset (offset + len)) (BlockList bol)
      = filter (touched offset (offset + len)) (c # cs)"
    using append_take_drop_id [of i "BlockList bol"] i(2) by (metis append_Nil filter_append)
  also have "\<dots> = filter (\<lambda>b. StartIndex b \<le> offset + len) (c # cs)"
    by (rule filter_cong [OF refl]) (rule at_block_touched [OF at order_refl])
  also have "\<dots> = find_loop offset len offset (c # cs)"
    by (rule find_loop_eq [OF at, symmetric]) (simp add: wrap64_id assms(3))
  finally show ?thesis using True i by (simp add: FindBlocks_def)
next
  case False
  then have "BinarySearch bol offset = (False, length (BlockList bol))"
    using BinarySearch_correct [OF assms(1)] by (cases "BinarySearch bol offset") auto
  with False show ?thesis by (simp add: FindBlocks_def)
qed

theorem FindBlocks_correct_witness:
  "FindBlocks example_list 2 4 = (take 2 (BlockList example_list), True)"
proof -
  have "FindBlocks example_list 2 4 =
     (if \<exists>b \<in> set (BlockList example_list). holds_offset 2 b
      then (filter (touched 2 (2 + 4)) (BlockList example_list), True) else ([], False))"
    by (rule FindBlocks_correct) (simp_all add: example_list_def in_int64_def)
  then show ?thesis by (simp add: example_list_def holds_offset_def touched_def)
qed

definition blocks_size :: "Block list \<Rightarrow> int" where
  "blocks_size bs = (\<Sum>b\<leftarrow>bs. EndIndex b - StartIndex b)"

definition mark_if :: "(Block \<Rightarrow> bool) \<Rightarrow> Block \<Rightarrow> Block" where
  "mark_if P b = (if P b then mark_dirty b else b)"

lemma mark_if_simps [simp]:
  "P b \<Longrightarrow> mark_if P b = mark_dirty b" "\<not> P b \<Longrightarrow> mark_if P b = b"
  by (simp_all add: mark_if_def)

lemma modify_loop_eq:
  "at_block e cur bs \<Longrightarrow> e = wrap64 (offset + len) \<Longrightarrow> in_int64 sz \<Longrightarrow>
     modify_loop offset len cur sz ao bs =
       (map (mark_if (\<lambda>b. StartIndex b \<le> e)) bs,
        wrap64 (sz + blocks_size (filter (\<lambda>b. StartIndex b \<le> e) bs)),
        ao \<and> filter (\<lambda>b. StartIndex b \<le> e) bs = [])"
proof (induction bs arbitrary: cur sz ao)
  case Nil
  then show ?case by (simp add: blocks_size_def wrap64_id)
next
  case (Cons b bs)
  note at = at_block_Cons [OF Cons.prems(1)]
  let ?sz = "wrap64 (sz + wrap64 (EndIndex b - StartIndex b))"
  show ?case
  proof (cases "StartIndex b \<le> e")
    case True
    have "wrap64 (?sz + x) = wrap64 (sz + (EndIndex b - StartIndex b + x))" for x
      by (simp add: wrap64_add_right wrap64_add_left algebra_simps)
    with True at Cons.prems Cons.IH [OF at(3) Cons.prems(2), of ?sz False] show ?thesis
      by (simp add: blocks_size_def)
  next
    case False
    then have none: "\<not> StartIndex c \<le> e" if "c \<in> set bs" for c
      using at_block_none_left [OF Cons.prems(1) _ that] by simp
    then have "map (mark_if (\<lambda>b. StartIndex b \<le> e)) bs = bs"
      by (intro map_idI) simp
    moreover from none have "filter (\<lambda>b. StartIndex b \<le> e) bs = []"
      by (simp add: filter_empty_conv)
    ultimately show ?thesis
      using False Cons.prems by (simp add: blocks_size_def wrap64_id)
  qed
qed

text \<open>
  When some block holds the offset, \<open>FindBlocksToModify\<close> marks dirty exactly the blocks
  \<open>FindBlocks\<close> would return, leaves the others alone, and reports the index of the block holding the
  offset, the total size of the marked blocks, whether the data reaches past the list, and not
  append-only.
\<close>

theorem FindBlocksToModify_correct:
  assumes "consecutive (BlockList bol)" and "0 \<le> len" and "in_int64 (offset + len)"
    and "j < length (BlockList bol)" and "holds_offset offset (BlockList bol ! j)"
  shows "FindBlocksToModify bol offset len =
     ((j, wrap64 (blocks_size (filter (touched offset (offset + len)) (BlockList bol))),
       EndIndex (last (BlockList bol)) \<le> offset + len, False),
      bol\<lparr>BlockList := map (mark_if (touched offset (offset + len))) (BlockList bol)\<rparr>)"
proof -
  let ?bs = "BlockList bol" and ?e = "offset + len"
  let ?P = "\<lambda>b. StartIndex b \<le> ?e" and ?T = "touched offset ?e"
  have search: "BinarySearch bol offset = (True, j)"
    unfolding BinarySearch_def using assms by (intro bsearch_loop_complete) auto
  have drop: "drop j ?bs = ?bs ! j # drop (Suc j) ?bs"
    using assms(4) by (simp add: Cons_nth_drop_Suc)
  have at: "at_block ?e offset (drop j ?bs)"
    unfolding drop using at_block_search [OF drop assms(1) assms(5)] assms(2) by simp
  have before: "\<not> ?T d" if d: "d \<in> set (take j ?bs)" for d
  proof -
    obtain k where "k < j" "d = ?bs ! k" using d assms(4) by (auto simp: in_set_conv_nth)
    then show ?thesis
      using consecutive_nth [OF assms(1), of k j] assms(4,5) by (simp add: holds_offset_def touched_def)
  qed
  have after: "?T d = ?P d" if "d \<in> set (drop j ?bs)" for d
    by (rule at_block_touched [OF at order_refl that])
  have "filter ?T ?bs = filter ?T (take j ?bs) @ filter ?T (drop j ?bs)"
    by (metis append_take_drop_id filter_append)
  also have "\<dots> = filter ?P (drop j ?bs)"
    using before after by (simp cong: filter_cong)
  finally have fil: "filter ?P (drop j ?bs) = filter ?T ?bs" ..
  have "map (mark_if ?T) ?bs = map (mark_if ?T) (take j ?bs) @ map (mark_if ?T) (drop j ?bs)"
    by (metis append_take_drop_id map_append)
  also have "map (mark_if ?T) (take j ?bs) = take j ?bs"
    using before by (intro map_idI) simp
  also have "map (mark_if ?T) (drop j ?bs) = map (mark_if ?P) (drop j ?bs)"
    using after by (intro map_cong) (simp_all add: mark_if_def)
  finally have mp: "take j ?bs @ map (mark_if ?P) (drop j ?bs) = map (mark_if ?T) ?bs" ..
  have "filter ?P (drop j ?bs) \<noteq> []"
    unfolding drop using assms(2,5) by (simp add: holds_offset_def)
  moreover have "modify_loop offset len offset 0 True (drop j ?bs) =
       (map (mark_if ?P) (drop j ?bs), wrap64 (0 + blocks_size (filter ?P (drop j ?bs))),
        True \<and> filter ?P (drop j ?bs) = [])"
    by (rule modify_loop_eq [OF at]) (simp_all add: wrap64_id assms(3))
  ultimately show ?thesis
    using search assms(3) by (simp add: FindBlocksToModify_def fil mp wrap64_id)
qed

theorem FindBlocksToModify_correct_witness:
  "FindBlocksToModify example_list 5 2 =
     ((1, 4, False, False),
      example_list\<lparr>BlockList := map (mark_if (touched 5 7)) (BlockList example_list)\<rparr>)"
proof -
  have "FindBlocksToModify example_list 5 2 =
     ((1, wrap64 (blocks_size (filter (touched 5 (5 + 2)) (BlockList example_list))),
       EndIndex (last (BlockList example_list)) \<le> 5 + 2, False),
      example_list\<lparr>BlockList := map (mark_if (touched 5 (5 + 2))) (BlockList example_list)\<rparr>)"
    by (rule FindBlocksToModify_correct)
      (simp_all add: example_list_def in_int64_def holds_offset_def)
  then show ?thesis
    by (simp add: example_list_def touched_def blocks_size_def wrap64_def)
qed

end
