(* ===== verification/Lru_Cache.thy ===== *)
theory Lru_Cache
  imports Block_List
begin

text \<open>
  The block cache of \<open>common/cache_policy/lru_policy.go\<close> used by the streaming layer: a doubly linked
  list of (key, block) pairs, most recent first, a map from keys to list elements, and the number of
  bytes the cached blocks occupy.

  Blocks are shared by pointer, so they live in a heap from references to blocks that the operations
  take and return. A list element has an identity of its own (\<open>nd_id\<close>), because the map points to
  elements. \<open>Purge\<close> leaves the list pointer nil, hence the \<open>option\<close>; dereferencing it, or the back of
  an empty list, crashes.
\<close>

section \<open>State\<close>

type_synonym block_ref = nat
type_synonym block_heap = "block_ref \<Rightarrow> Block"

record lru_node =
  nd_id :: nat
  nd_key :: int
  nd_value :: block_ref

record LRUCache =
  Capacity :: int
  lru_List :: "lru_node list option"
  Elements :: "(int \<times> nat) list"
  Occupied :: int
  lru_fresh :: nat

definition NewLRUCache :: "int \<Rightarrow> LRUCache" where
  "NewLRUCache capacity =
     \<lparr>Capacity = capacity, lru_List = Some [], Elements = [], Occupied = 0, lru_fresh = 0\<rparr>"

definition find_node :: "nat \<Rightarrow> lru_node list \<Rightarrow> lru_node option" where
  "find_node i ns = find (\<lambda>n. nd_id n = i) ns"

definition remove_node :: "nat \<Rightarrow> lru_node list \<Rightarrow> lru_node list" where
  "remove_node i ns = filter (\<lambda>n. nd_id n \<noteq> i) ns"

definition block_size :: "Block \<Rightarrow> int" where
  "block_size b = EndIndex b - StartIndex b"

section \<open>Operations\<close>

text \<open>The element the map holds for a key. A map entry always has its element in the list.\<close>

definition lookup_node :: "LRUCache \<Rightarrow> int \<Rightarrow> lru_node option" where
  "lookup_node c k =
     (case map_of (Elements c) k of None \<Rightarrow> None
      | Some i \<Rightarrow> (case lru_List c of None \<Rightarrow> None | Some ns \<Rightarrow> find_node i ns))"

definition lru_Get :: "LRUCache \<Rightarrow> int \<Rightarrow> block_ref option \<times> bool \<times> LRUCache" where
  "lru_Get c bk =
     (case lookup_node c bk of
        Some n \<Rightarrow> (Some (nd_value n), True,
          c\<lparr>lru_List := map_option (\<lambda>ns. n # remove_node (nd_id n) ns) (lru_List c)\<rparr>)
      | None \<Rightarrow> (None, False, c))"

definition lru_Resize ::
  "block_heap \<Rightarrow> LRUCache \<Rightarrow> int \<Rightarrow> int \<Rightarrow> bool \<times> block_heap \<times> LRUCache" where
  "lru_Resize h c bk newEndIndex =
     (case lookup_node c bk of
        Some n \<Rightarrow>
          let cb = h (nd_value n); sizeDiff = newEndIndex - EndIndex cb in
          (True, h(nd_value n := cb\<lparr>EndIndex := newEndIndex\<rparr>),
           c\<lparr>Occupied := wrap64 (Occupied c + sizeDiff)\<rparr>)
      | None \<Rightarrow> (False, h, c))"

definition lru_Remove :: "block_heap \<Rightarrow> LRUCache \<Rightarrow> int \<Rightarrow> block_heap \<times> LRUCache" where
  "lru_Remove h c k =
     (case lookup_node c k of
        Some n \<Rightarrow>
          (h(nd_value n := (h (nd_value n))\<lparr>blk_Data := []\<rparr>),
           c\<lparr>Occupied := wrap64 (Occupied c - block_size (h (nd_value n))),
             Elements := map_remove k (Elements c),
             lru_List := map_option (remove_node (nd_id n)) (lru_List c)\<rparr>)
      | None \<Rightarrow> (h, c))"

text \<open>\<open>evict\<close> walks from the back of the list to the first clean block and removes it by its key.\<close>

fun evict_walk :: "block_heap \<Rightarrow> LRUCache \<Rightarrow> lru_node list \<Rightarrow> bool \<times> block_heap \<times> LRUCache" where
  "evict_walk h c [] = (False, h, c)"
| "evict_walk h c (n # ns) =
     (if \<not> Dirty (h (nd_value n)) then (True, lru_Remove h c (nd_key n)) else evict_walk h c ns)"

definition lru_evict :: "block_heap \<Rightarrow> LRUCache \<Rightarrow> (bool \<times> block_heap \<times> LRUCache) option" where
  "lru_evict h c =
     (case lru_List c of
        None \<Rightarrow> None
      | Some ns \<Rightarrow> if ns = [] then None else Some (evict_walk h c (rev ns)))"

definition push_front :: "block_heap \<Rightarrow> LRUCache \<Rightarrow> int \<Rightarrow> block_ref \<Rightarrow> LRUCache option" where
  "push_front h c k v =
     (case lru_List c of
        None \<Rightarrow> None
      | Some ns \<Rightarrow>
          Some (c\<lparr>lru_List := Some (\<lparr>nd_id = lru_fresh c, nd_key = k, nd_value = v\<rparr> # ns),
                  lru_fresh := Suc (lru_fresh c),
                  Occupied := wrap64 (Occupied c + block_size (h v)),
                  Elements := map_store k (lru_fresh c) (Elements c)\<rparr>))"

definition lru_Put ::
  "block_heap \<Rightarrow> LRUCache \<Rightarrow> int \<Rightarrow> block_ref \<Rightarrow> (bool \<times> block_heap \<times> LRUCache) option" where
  "lru_Put h c k v =
     (if Occupied c \<ge> Capacity c then
        do {
          (evicted, h1, c1) \<leftarrow> lru_evict h c;
          if \<not> evicted then Some (False, h1, c1)
          else do { c2 \<leftarrow> push_front h1 c1 k v; Some (True, h1, c2) }
        }
      else do { c2 \<leftarrow> push_front h c k v; Some (True, h, c2) })"

definition lru_Keys :: "LRUCache \<Rightarrow> int list" where
  "lru_Keys c = map fst (Elements c)"

definition RecentlyUsed :: "LRUCache \<Rightarrow> block_ref option" where
  "RecentlyUsed c =
     (case lru_List c of Some (n # ns) \<Rightarrow> Some (nd_value n) | _ \<Rightarrow> None)"

definition LeastRecentlyUsed :: "LRUCache \<Rightarrow> block_ref option" where
  "LeastRecentlyUsed c =
     (case lru_List c of Some (n # ns) \<Rightarrow> Some (nd_value (last (n # ns))) | _ \<Rightarrow> None)"

fun remove_all :: "block_heap \<Rightarrow> LRUCache \<Rightarrow> int list \<Rightarrow> block_heap \<times> LRUCache" where
  "remove_all h c [] = (h, c)"
| "remove_all h c (k # ks) = (case lru_Remove h c k of (h', c') \<Rightarrow> remove_all h' c' ks)"

definition lru_Purge :: "block_heap \<Rightarrow> LRUCache \<Rightarrow> block_heap \<times> LRUCache" where
  "lru_Purge h c =
     (case remove_all h c (lru_Keys c) of
        (h', c') \<Rightarrow> (h', c'\<lparr>Capacity := 0, Elements := [], lru_List := None\<rparr>))"

section \<open>The invariant\<close>

definition nodes :: "LRUCache \<Rightarrow> lru_node list" where
  "nodes c = (case lru_List c of None \<Rightarrow> [] | Some ns \<Rightarrow> ns)"

definition nodes_size :: "block_heap \<Rightarrow> lru_node list \<Rightarrow> int" where
  "nodes_size h ns = (\<Sum>n\<leftarrow>ns. block_size (h (nd_value n)))"

text \<open>
  The list and the map describe the same keys, elements are distinct, no block is cached under two
  keys, and the occupied size is the sum of the block sizes (as an \<open>int64\<close>).
\<close>

definition lru_inv :: "block_heap \<Rightarrow> LRUCache \<Rightarrow> bool" where
  "lru_inv h c \<longleftrightarrow>
     lru_List c \<noteq> None \<and>
     distinct (map nd_id (nodes c)) \<and> distinct (map nd_key (nodes c)) \<and>
     distinct (map nd_value (nodes c)) \<and>
     (\<forall>n \<in> set (nodes c). nd_id n < lru_fresh c) \<and>
     distinct (map fst (Elements c)) \<and>
     (\<forall>k i. map_of (Elements c) k = Some i \<longleftrightarrow> (\<exists>n \<in> set (nodes c). nd_key n = k \<and> nd_id n = i)) \<and>
     Occupied c = wrap64 (nodes_size h (nodes c))"

lemma lru_inv_new: "lru_inv h (NewLRUCache cap)"
  by (simp add: lru_inv_def NewLRUCache_def nodes_def nodes_size_def wrap64_id)

lemma find_node_in: "find_node i ns = Some n \<Longrightarrow> n \<in> set ns \<and> nd_id n = i"
  by (auto simp: find_node_def find_Some_iff)

lemma find_node_distinct:
  "distinct (map nd_id ns) \<Longrightarrow> n \<in> set ns \<Longrightarrow> find_node (nd_id n) ns = Some n"
  by (induction ns) (auto simp: find_node_def)

lemma lookup_node_iff:
  assumes "lru_inv h c"
  shows "lookup_node c k = Some n \<longleftrightarrow> n \<in> set (nodes c) \<and> nd_key n = k"
proof
  assume "lookup_node c k = Some n"
  then obtain i where i: "map_of (Elements c) k = Some i" "find_node i (nodes c) = Some n"
    by (auto simp: lookup_node_def nodes_def split: option.splits)
  then obtain m where "m \<in> set (nodes c)" "nd_key m = k" "nd_id m = i"
    using assms by (auto simp: lru_inv_def)
  moreover have "n \<in> set (nodes c)" "nd_id n = i" using find_node_in [OF i(2)] by auto
  ultimately show "n \<in> set (nodes c) \<and> nd_key n = k"
    using assms by (auto simp: lru_inv_def distinct_map dest: inj_onD)
next
  assume n: "n \<in> set (nodes c) \<and> nd_key n = k"
  then have "map_of (Elements c) k = Some (nd_id n)"
    using assms unfolding lru_inv_def by blast
  moreover have "find_node (nd_id n) (nodes c) = Some n"
    using assms n by (intro find_node_distinct) (auto simp: lru_inv_def)
  moreover obtain ns where "lru_List c = Some ns" using assms by (auto simp: lru_inv_def)
  ultimately show "lookup_node c k = Some n"
    by (simp add: lookup_node_def nodes_def)
qed

lemma lookup_node_None:
  "lru_inv h c \<Longrightarrow> lookup_node c k = None \<longleftrightarrow> k \<notin> nd_key ` set (nodes c)"
proof -
  assume "lru_inv h c"
  note iff = lookup_node_iff [OF this]
  have "lookup_node c k = None \<longleftrightarrow> \<not> (\<exists>n. lookup_node c k = Some n)" by simp
  also have "\<dots> \<longleftrightarrow> k \<notin> nd_key ` set (nodes c)" unfolding iff by blast
  finally show ?thesis .
qed

lemma distinct_split:
  fixes g :: "lru_node \<Rightarrow> 'k"
  assumes "distinct (map g (ys @ x # zs))" and "y \<in> set ys \<or> y \<in> set zs"
  shows "g y \<noteq> g x"
proof -
  have "g x \<notin> g ` set ys" "g x \<notin> g ` set zs" using assms(1) by simp_all
  with assms(2) show ?thesis by (metis imageI)
qed

lemma remove_node_split:
  assumes "distinct (map nd_id ns)" and "n \<in> set ns"
  obtains ys zs where "ns = ys @ n # zs" "remove_node (nd_id n) ns = ys @ zs"
proof -
  obtain ys zs where ns: "ns = ys @ n # zs" using assms(2) by (auto simp: in_set_conv_decomp)
  have "nd_id y \<noteq> nd_id n" if "y \<in> set ys \<or> y \<in> set zs" for y
    by (rule distinct_split [OF _ that]) (use assms(1) ns in simp)
  then have "filter (\<lambda>m. nd_id m \<noteq> nd_id n) ys = ys" "filter (\<lambda>m. nd_id m \<noteq> nd_id n) zs = zs"
    by (simp_all add: filter_id_conv)
  with ns that [of ys zs] show thesis by (simp add: remove_node_def)
qed

lemma set_remove_node:
  "distinct (map nd_id ns) \<Longrightarrow> n \<in> set ns \<Longrightarrow> set (remove_node (nd_id n) ns) = set ns - {n}"
  by (auto simp: remove_node_def distinct_map dest: inj_onD)

lemma nodes_size_cong:
  "(\<And>n. n \<in> set ns \<Longrightarrow> block_size (h (nd_value n)) = block_size (h' (nd_value n))) \<Longrightarrow>
     nodes_size h ns = nodes_size h' ns"
  by (simp add: nodes_size_def cong: map_cong)

lemma nodes_size_append [simp]: "nodes_size h (xs @ ys) = nodes_size h xs + nodes_size h ys"
  and nodes_size_Cons [simp]: "nodes_size h (n # ys) = block_size (h (nd_value n)) + nodes_size h ys"
  and nodes_size_Nil [simp]: "nodes_size h [] = 0"
  by (simp_all add: nodes_size_def)

section \<open>Every operation keeps it\<close>

lemma lru_Get_inv:
  assumes inv: "lru_inv h c" and g: "lru_Get c k = (r, found, c')"
  shows "lru_inv h c'"
proof (cases "lookup_node c k")
  case None
  with inv g show ?thesis by (simp add: lru_Get_def)
next
  case (Some n)
  have n: "n \<in> set (nodes c)" using lookup_node_iff [OF inv] Some by blast
  obtain ns where ns: "lru_List c = Some ns" using inv by (auto simp: lru_inv_def)
  then have nodes: "nodes c = ns" by (simp add: nodes_def)
  obtain ys zs where split: "ns = ys @ n # zs" "remove_node (nd_id n) ns = ys @ zs"
    using remove_node_split [of ns n] inv n nodes by (auto simp: lru_inv_def)
  have c': "c' = c\<lparr>lru_List := Some (n # ys @ zs)\<rparr>"
    using g Some ns split by (simp add: lru_Get_def)
  then have "nodes c' = n # ys @ zs" by (simp add: nodes_def)
  with inv c' nodes split show ?thesis
    by (auto simp: lru_inv_def algebra_simps)
qed

lemma lru_Remove_inv:
  assumes inv: "lru_inv h c" and r: "lru_Remove h c k = (h', c')"
  shows "lru_inv h' c'"
proof (cases "lookup_node c k")
  case None
  with inv r show ?thesis by (simp add: lru_Remove_def)
next
  case (Some n)
  have n: "n \<in> set (nodes c)" "nd_key n = k" using lookup_node_iff [OF inv] Some by blast+
  obtain ns where ns: "lru_List c = Some ns" using inv by (auto simp: lru_inv_def)
  then have nodes: "nodes c = ns" by (simp add: nodes_def)
  have c': "c' = c\<lparr>Occupied := wrap64 (Occupied c - block_size (h (nd_value n))),
      Elements := map_remove k (Elements c), lru_List := Some (remove_node (nd_id n) ns)\<rparr>"
    and h': "h' = h(nd_value n := (h (nd_value n))\<lparr>blk_Data := []\<rparr>)"
    using r Some ns by (simp_all add: lru_Remove_def)
  have d: "distinct (map nd_id ns)" "distinct (map nd_key ns)" "distinct (map nd_value ns)"
    using inv nodes by (auto simp: lru_inv_def)
  obtain ys zs where split: "ns = ys @ n # zs" "remove_node (nd_id n) ns = ys @ zs"
    using remove_node_split [OF d(1)] n nodes by blast
  have nodes': "nodes c' = ys @ zs" using c' split by (simp add: nodes_def)
  have "nodes_size h' (ys @ zs) = nodes_size h (ys @ zs)"
    by (rule nodes_size_cong) (simp add: h' block_size_def)
  then have "wrap64 (Occupied c - block_size (h (nd_value n))) = wrap64 (nodes_size h' (nodes c'))"
    using inv nodes nodes' split
      wrap64_add_left [of "nodes_size h ns" "- block_size (h (nd_value n))"]
    by (simp add: lru_inv_def)
  moreover have "map_of (Elements c') k' = Some i \<longleftrightarrow>
      (\<exists>m \<in> set (nodes c'). nd_key m = k' \<and> nd_id m = i)" for k' i
  proof -
    have "nd_key m \<noteq> k" if "m \<in> set ys \<or> m \<in> set zs" for m
    proof -
      have "nd_key m \<noteq> nd_key n"
        by (rule distinct_split [OF _ that]) (use d(2) split(1) in simp)
      with n(2) show ?thesis by simp
    qed
    then have "m \<in> set (nodes c') \<longleftrightarrow> m \<in> set ns \<and> nd_key m \<noteq> k" for m
      using n split nodes' by auto
    then show ?thesis using inv c' nodes by (auto simp: lru_inv_def)
  qed
  moreover have "distinct (map fst (Elements c'))" using inv c' by (simp add: lru_inv_def)
  ultimately show ?thesis
    using inv c' nodes nodes' split by (auto simp: lru_inv_def)
qed

lemma evict_walk_inv:
  "lru_inv h c \<Longrightarrow> evict_walk h c ns = (e, h', c') \<Longrightarrow> lru_inv h' c'"
  by (induction ns) (auto split: if_splits intro: lru_Remove_inv)

lemma push_front_inv:
  assumes inv: "lru_inv h c" and k: "k \<notin> nd_key ` set (nodes c)" and v: "v \<notin> nd_value ` set (nodes c)"
    and p: "push_front h c k v = Some c'"
  shows "lru_inv h c'"
proof -
  let ?n = "\<lparr>nd_id = lru_fresh c, nd_key = k, nd_value = v\<rparr>"
  obtain ns where ns: "lru_List c = Some ns" using inv by (auto simp: lru_inv_def)
  then have nodes: "nodes c = ns" by (simp add: nodes_def)
  have c': "c' = c\<lparr>lru_List := Some (?n # ns), lru_fresh := Suc (lru_fresh c),
      Occupied := wrap64 (Occupied c + block_size (h v)),
      Elements := map_store k (lru_fresh c) (Elements c)\<rparr>"
    using p ns by (simp add: push_front_def)
  have nodes': "nodes c' = ?n # ns" using c' by (simp add: nodes_def)
  have fresh: "lru_fresh c \<notin> nd_id ` set ns" using inv nodes by (auto simp: lru_inv_def)
  have occ: "Occupied c' = wrap64 (nodes_size h (nodes c'))"
    using inv nodes nodes' c' wrap64_add_left [of "nodes_size h ns" "block_size (h v)"]
    by (simp add: lru_inv_def add.commute)
  have "map_of (Elements c') k' = Some i \<longleftrightarrow>
      (\<exists>m \<in> set (nodes c'). nd_key m = k' \<and> nd_id m = i)" for k' i
    using inv k c' nodes nodes' by (cases "k' = k") (auto simp: lru_inv_def)
  with inv k v c' nodes nodes' fresh occ show ?thesis
    by (auto simp: lru_inv_def)
qed

lemma lru_Remove_nodes:
  assumes "lru_inv h c" and "lru_Remove h c k = (h', c')"
  shows "set (nodes c') = {n \<in> set (nodes c). nd_key n \<noteq> k}"
proof (cases "lookup_node c k")
  case None
  with assms lookup_node_None [OF assms(1), of k] show ?thesis by (auto simp: lru_Remove_def)
next
  case (Some n)
  then have n: "n \<in> set (nodes c)" "nd_key n = k" using lookup_node_iff [OF assms(1)] by blast+
  have "nodes c' = remove_node (nd_id n) (nodes c)"
    using assms Some by (auto simp: lru_Remove_def nodes_def lru_inv_def split: option.splits)
  then show ?thesis
    using n assms(1) by (auto simp: set_remove_node lru_inv_def distinct_map dest: inj_onD)
qed

lemma evict_walk_nodes:
  "lru_inv h c \<Longrightarrow> evict_walk h c ns = (e, h', c') \<Longrightarrow> set (nodes c') \<subseteq> set (nodes c)"
  by (induction ns) (auto split: if_splits dest: lru_Remove_nodes)

lemma nodes_Some: "lru_inv h c \<Longrightarrow> lru_List c = Some (nodes c)"
  by (auto simp: lru_inv_def nodes_def)

lemma lru_Remove_list:
  assumes "lru_inv h c" and "nodes c = xs @ n # ys"
  shows "\<exists>h' c'. lru_Remove h c (nd_key n) = (h', c') \<and> nodes c' = xs @ ys \<and> lru_fresh c' = lru_fresh c"
proof -
  have n: "n \<in> set (nodes c)" using assms(2) by simp
  then have "lookup_node c (nd_key n) = Some n" using lookup_node_iff [OF assms(1)] by blast
  moreover have "remove_node (nd_id n) (xs @ n # ys) = xs @ ys"
  proof -
    have "nd_id m \<noteq> nd_id n" if "m \<in> set xs \<or> m \<in> set ys" for m
      by (rule distinct_split [OF _ that]) (use assms in \<open>simp add: lru_inv_def\<close>)
    then show ?thesis by (simp add: remove_node_def filter_id_conv)
  qed
  moreover have "lru_List c = Some (xs @ n # ys)" using nodes_Some [OF assms(1)] assms(2) by simp
  ultimately show ?thesis by (simp add: lru_Remove_def nodes_def)
qed

lemma evict_walk_skip:
  "(\<And>m. m \<in> set ds \<Longrightarrow> Dirty (h (nd_value m))) \<Longrightarrow> evict_walk h c (ds @ ns) = evict_walk h c ns"
  by (induction ds) auto

lemma evict_walk_all_dirty:
  "(\<And>m. m \<in> set ds \<Longrightarrow> Dirty (h (nd_value m))) \<Longrightarrow> evict_walk h c ds = (False, h, c)"
  by (induction ds) auto

text \<open>
  Storing a new block in a full cache evicts the least recently used clean block, whatever dirty
  blocks were used less recently, and puts the new block in front; the cache stays well-formed.
\<close>

theorem lru_Put_evicts_last_clean:
  assumes inv: "lru_inv h c" and full: "Capacity c \<le> Occupied c"
    and split: "nodes c = xs @ n # ds"
    and clean: "\<not> Dirty (h (nd_value n))" and dirty: "\<forall>m \<in> set ds. Dirty (h (nd_value m))"
    and fresh: "k \<notin> nd_key ` set (nodes c)" "v \<notin> nd_value ` set (nodes c)"
  shows "\<exists>h' c'. lru_Put h c k v = Some (True, h', c') \<and> lru_inv h' c' \<and>
     nodes c' = \<lparr>nd_id = lru_fresh c, nd_key = k, nd_value = v\<rparr> # xs @ ds"
proof -
  obtain h' c1 where r: "lru_Remove h c (nd_key n) = (h', c1)" "nodes c1 = xs @ ds"
      "lru_fresh c1 = lru_fresh c"
    using lru_Remove_list [OF inv split] by blast
  have "evict_walk h c (rev (nodes c)) = evict_walk h c (rev ds @ n # rev xs)"
    using split by simp
  also have "\<dots> = evict_walk h c (n # rev xs)"
    by (rule evict_walk_skip) (use dirty in simp)
  also have "\<dots> = (True, h', c1)" using clean r by simp
  finally have ev: "lru_evict h c = Some (True, h', c1)"
    using nodes_Some [OF inv] split by (simp add: lru_evict_def)
  have inv1: "lru_inv h' c1" by (rule lru_Remove_inv [OF inv r(1)])
  have l1: "lru_List c1 = Some (xs @ ds)" using nodes_Some [OF inv1] r(2) by simp
  then obtain c' where c': "push_front h' c1 k v = Some c'"
    by (simp add: push_front_def)
  have "lru_inv h' c'"
    by (rule push_front_inv [OF inv1 _ _ c']) (use fresh split r(2) in auto)
  moreover have "nodes c' = \<lparr>nd_id = lru_fresh c, nd_key = k, nd_value = v\<rparr> # xs @ ds"
    using c' l1 r(3) by (auto simp: push_front_def nodes_def)
  moreover have "lru_Put h c k v = Some (True, h', c')"
    using full ev c' by (simp add: lru_Put_def)
  ultimately show ?thesis by blast
qed

text \<open>A cache of two blocks, the less recent one dirty: storing a third evicts the clean one.\<close>

definition lru_example_heap :: block_heap where
  "lru_example_heap r = \<lparr>StartIndex = 4 * int r, EndIndex = 4 * int r + 4,
     blk_Flags = (if r = 0 then 2 else 0), blk_Id = [], blk_Data = []\<rparr>"

definition lru_example :: LRUCache where
  "lru_example = \<lparr>Capacity = 8,
     lru_List = Some [\<lparr>nd_id = 1, nd_key = 4, nd_value = 1\<rparr>, \<lparr>nd_id = 0, nd_key = 0, nd_value = 0\<rparr>],
     Elements = [(0, 0), (4, 1)], Occupied = 8, lru_fresh = 2\<rparr>"

lemma lru_example_inv: "lru_inv lru_example_heap lru_example"
  by (auto simp: lru_inv_def lru_example_def lru_example_heap_def nodes_def block_size_def wrap64_def)

theorem lru_Put_evicts_last_clean_witness:
  "\<exists>h' c'. lru_Put lru_example_heap lru_example 8 2 = Some (True, h', c') \<and> lru_inv h' c' \<and>
     nodes c' = [\<lparr>nd_id = 2, nd_key = 8, nd_value = 2\<rparr>, \<lparr>nd_id = 0, nd_key = 0, nd_value = 0\<rparr>]"
  using lru_Put_evicts_last_clean [OF lru_example_inv, of "[]" "\<lparr>nd_id = 1, nd_key = 4, nd_value = 1\<rparr>"
      "[\<lparr>nd_id = 0, nd_key = 0, nd_value = 0\<rparr>]" 8 2]
  by (simp add: lru_example_def nodes_def lru_example_heap_def Dirty_def DirtyBlock_def IsSet_def bit_mask_def)

text \<open>
  \<open>Put\<close> refuses only a full cache whose blocks are all dirty, and then nothing changes: a dirty
  block is never dropped.
\<close>

theorem lru_Put_keeps_dirty:
  assumes inv: "lru_inv h c" and put: "lru_Put h c k v = Some (ok, h', c')"
    and n: "n \<in> set (nodes c)" "Dirty (h (nd_value n))"
  shows "n \<in> set (nodes c') \<and> (\<not> ok \<longrightarrow> c' = c \<and> h' = h \<and> (\<forall>m \<in> set (nodes c). Dirty (h (nd_value m))))"
proof -
  have front: "set (nodes c1) \<subseteq> set (nodes c2)" if "push_front h1 c1 k v = Some c2" for h1 c1 c2
    using that by (auto simp: push_front_def nodes_def split: option.splits)
  have walk: "n \<in> set (nodes c1) \<and> (\<not> e \<longrightarrow> c1 = c \<and> h1 = h \<and> (\<forall>m \<in> set ns. Dirty (h (nd_value m))))"
    if "evict_walk h c ns = (e, h1, c1)" "set ns \<subseteq> set (nodes c)" for ns e h1 c1
    using that
  proof (induction ns)
    case Nil
    with n show ?case by auto
  next
    case (Cons m ns)
    show ?case
    proof (cases "Dirty (h (nd_value m))")
      case True
      with Cons show ?thesis by auto
    next
      case False
      with Cons.prems have e: e and r: "lru_Remove h c (nd_key m) = (h1, c1)" by auto
      have "nd_key n \<noteq> nd_key m"
      proof
        assume "nd_key n = nd_key m"
        moreover have "inj_on nd_key (set (nodes c))" using inv by (simp add: lru_inv_def distinct_map)
        moreover have "m \<in> set (nodes c)" using Cons.prems by simp
        ultimately have "n = m" using n(1) by (simp add: inj_on_def)
        with n False show False by simp
      qed
      with lru_Remove_nodes [OF inv r] n e show ?thesis by auto
    qed
  qed
  show ?thesis
  proof (cases "Occupied c \<ge> Capacity c")
    case False
    with put front n show ?thesis
      by (auto simp: lru_Put_def bind_eq_Some_conv)
  next
    case True
    with put obtain e h1 c1 where e: "lru_evict h c = Some (e, h1, c1)"
      and rest: "(if \<not> e then Some (False, h1, c1)
             else push_front h1 c1 k v \<bind> (\<lambda>c2. Some (True, h1, c2))) = Some (ok, h', c')"
      by (auto simp: lru_Put_def bind_eq_Some_conv)
    then have "evict_walk h c (rev (nodes c)) = (e, h1, c1)"
      using nodes_Some [OF inv] by (auto simp: lru_evict_def split: if_splits)
    from walk [OF this] have w: "n \<in> set (nodes c1)"
      "\<not> e \<longrightarrow> c1 = c \<and> h1 = h \<and> (\<forall>m \<in> set (nodes c). Dirty (h (nd_value m)))" by auto
    with rest front show ?thesis by (auto simp: bind_eq_Some_conv split: if_splits)
  qed
qed

definition dirty_example :: LRUCache where
  "dirty_example = \<lparr>Capacity = 4, lru_List = Some [\<lparr>nd_id = 0, nd_key = 0, nd_value = 0\<rparr>],
     Elements = [(0, 0)], Occupied = 4, lru_fresh = 1\<rparr>"

theorem lru_Put_keeps_dirty_witness:
  "lru_Put lru_example_heap dirty_example 8 2 = Some (False, lru_example_heap, dirty_example) \<and>
   \<lparr>nd_id = 0, nd_key = 0, nd_value = 0\<rparr> \<in> set (nodes dirty_example)"
proof -
  have put: "lru_Put lru_example_heap dirty_example 8 2 = Some (False, lru_example_heap, dirty_example)"
    by (simp add: lru_Put_def dirty_example_def lru_evict_def lru_example_heap_def Dirty_def DirtyBlock_def
        IsSet_def bit_mask_def)
  have "lru_inv lru_example_heap dirty_example"
    by (auto simp: lru_inv_def dirty_example_def lru_example_heap_def nodes_def block_size_def wrap64_def)
  from lru_Put_keeps_dirty [OF this put, of "\<lparr>nd_id = 0, nd_key = 0, nd_value = 0\<rparr>"] put show ?thesis
    by (simp add: dirty_example_def nodes_def lru_example_heap_def Dirty_def DirtyBlock_def IsSet_def bit_mask_def)
qed

end
