(* ===== verification/Handle_Map.thy ===== *)
theory Handle_Map
  imports Lru_Cache
begin

text \<open>
  \<open>common/lock_map.go\<close> and \<open>internal/handlemap/handle_map.go\<close>: the per-file lock items with their
  handle counts, and the table of open handles with its id allocator.
\<close>

section \<open>Lock items\<close>

text \<open>
  The counters are \<open>uint32\<close>. The mutex of an item is not part of the record: an operation here is
  one atomic action of the code, and what runs under the lock is one definition of its component.
\<close>

record LockMapItem =
  handleCount :: int
  dirtyCount :: int
  downloadTime :: int
  LazyOpen :: bool

definition wrapu32 :: "int \<Rightarrow> int" where
  "wrapu32 x = x mod 2 ^ 32"

definition new_lock_item :: LockMapItem where
  "new_lock_item = \<lparr>handleCount = 0, dirtyCount = 0, downloadTime = 0, LazyOpen = False\<rparr>"

definition lm_Inc :: "LockMapItem \<Rightarrow> LockMapItem" where
  "lm_Inc l = l\<lparr>handleCount := wrapu32 (handleCount l + 1)\<rparr>"

definition lm_Dec :: "LockMapItem \<Rightarrow> LockMapItem" where
  "lm_Dec l = l\<lparr>handleCount := wrapu32 (handleCount l - 1)\<rparr>"

definition lm_IncDirty :: "LockMapItem \<Rightarrow> LockMapItem" where
  "lm_IncDirty l = l\<lparr>dirtyCount := wrapu32 (dirtyCount l + 1)\<rparr>"

text \<open>\<open>DecDirty\<close> stops at zero instead of wrapping.\<close>

definition lm_DecDirty :: "LockMapItem \<Rightarrow> LockMapItem" where
  "lm_DecDirty l =
     (let current = dirtyCount l in
      if current = 0 then l else l\<lparr>dirtyCount := wrapu32 (current - 1)\<rparr>)"

definition lm_SetDownloadTime :: "int \<Rightarrow> LockMapItem \<Rightarrow> LockMapItem" where
  "lm_SetDownloadTime now l = l\<lparr>downloadTime := now\<rparr>"

text \<open>
  The map holds pointers to items: a name that is deleted and asked for again gets a new item, while
  holders of the old one keep it.
\<close>

record LockMap =
  locks :: "(string \<times> nat) list"
  lock_items :: "nat \<Rightarrow> LockMapItem"
  lock_fresh :: nat

definition NewLockMap :: LockMap where
  "NewLockMap = \<lparr>locks = [], lock_items = (\<lambda>_. new_lock_item), lock_fresh = 0\<rparr>"

definition lm_Get :: "LockMap \<Rightarrow> string \<Rightarrow> nat \<times> LockMap" where
  "lm_Get l name =
     (case map_of (locks l) name of
        Some i \<Rightarrow> (i, l)
      | None \<Rightarrow> (lock_fresh l,
          l\<lparr>locks := map_store name (lock_fresh l) (locks l),
            lock_items := (lock_items l)(lock_fresh l := new_lock_item),
            lock_fresh := Suc (lock_fresh l)\<rparr>))"

definition lm_Delete :: "LockMap \<Rightarrow> string \<Rightarrow> LockMap" where
  "lm_Delete l name = l\<lparr>locks := map_remove name (locks l)\<rparr>"

definition lock_map_inv :: "LockMap \<Rightarrow> bool" where
  "lock_map_inv l \<longleftrightarrow> distinct (map fst (locks l)) \<and>
     (\<forall>n i. map_of (locks l) n = Some i \<longrightarrow> i < lock_fresh l) \<and>
     (\<forall>n m i. map_of (locks l) n = Some i \<longrightarrow> map_of (locks l) m = Some i \<longrightarrow> n = m)"

lemma lock_map_inv_new: "lock_map_inv NewLockMap"
  by (simp add: lock_map_inv_def NewLockMap_def)

lemma lm_Get_inv: "lock_map_inv l \<Longrightarrow> lm_Get l n = (i, l') \<Longrightarrow> lock_map_inv l'"
  unfolding lock_map_inv_def lm_Get_def
  by (auto split: option.splits if_splits simp del: map_of_eq_Some_iff) (metis less_SucI less_irrefl)+

lemma lm_Delete_inv: "lock_map_inv l \<Longrightarrow> lock_map_inv (lm_Delete l n)"
  unfolding lock_map_inv_def lm_Delete_def
  by (auto simp del: map_of_eq_Some_iff split: if_splits)

text \<open>
  While a name is not deleted, every \<open>Get\<close> of it returns the same item, and \<open>Get\<close>s of other names
  return other items: what makes the item's mutex the file's lock.
\<close>

lemma lm_Get_stable:
  assumes "lock_map_inv l" and "lm_Get l n = (i, l')"
  shows "fst (lm_Get l' n) = i \<and> (m \<noteq> n \<longrightarrow> fst (lm_Get l' m) \<noteq> i)"
proof -
  from lm_Get_inv [OF assms] have inv: "lock_map_inv l'" .
  from assms(2) have n: "map_of (locks l') n = Some i"
    by (auto simp: lm_Get_def split: option.splits simp del: map_of_eq_Some_iff)
  moreover have "fst (lm_Get l' m) \<noteq> i" if "m \<noteq> n"
    using inv n that unfolding lock_map_inv_def lm_Get_def
    by (auto split: option.splits simp del: map_of_eq_Some_iff)
  ultimately show ?thesis by (simp add: lm_Get_def)
qed

datatype dirty_op = IncD | DecD

fun dirty_run :: "LockMapItem \<Rightarrow> dirty_op list \<Rightarrow> LockMapItem" where
  "dirty_run l [] = l"
| "dirty_run l (IncD # ops) = dirty_run (lm_IncDirty l) ops"
| "dirty_run l (DecD # ops) = dirty_run (lm_DecDirty l) ops"

lemma wrapu32_id: "0 \<le> x \<Longrightarrow> x < 2 ^ 32 \<Longrightarrow> wrapu32 x = x"
  by (simp add: wrapu32_def)

lemma dirty_run_bounds:
  "0 \<le> dirtyCount l \<Longrightarrow> dirtyCount l + int (length ops) < 2 ^ 32 \<Longrightarrow>
     0 \<le> dirtyCount (dirty_run l ops) \<and> dirtyCount (dirty_run l ops) \<le> dirtyCount l + int (length ops)"
proof (induction l ops rule: dirty_run.induct)
  case (1 l)
  then show ?case by simp
next
  case (2 l ops)
  then have "dirtyCount (lm_IncDirty l) = dirtyCount l + 1"
    by (simp add: lm_IncDirty_def wrapu32_id)
  with 2 show ?case by simp
next
  case (3 l ops)
  then have "dirtyCount (lm_DecDirty l) = max 0 (dirtyCount l - 1)"
    by (simp add: lm_DecDirty_def Let_def wrapu32_id)
  with 3 show ?case by (simp add: max_def split: if_splits)
qed

section \<open>Handles\<close>

definition HandleFlagDirty :: nat where "HandleFlagDirty = 1"
definition HandleFlagCached :: nat where "HandleFlagCached = 3"
definition HandleOpenedAppend :: nat where "HandleOpenedAppend = 4"

record Cache =
  cache_lru :: LRUCache
  cache_bol :: BlockOffsetList
  StreamOnly :: bool
  HandleCount :: int

text \<open>
  \<open>h_FObj\<close> is the number of the open operating-system file, if any; \<open>h_Buffers\<close> holds the cooked and
  the cooking block lists.
\<close>

record Handle =
  h_ID :: int
  h_FObj :: "nat option"
  h_CacheObj :: "Cache option"
  h_Buffers :: "(nat list \<times> nat list) option"
  h_Size :: int
  h_Mtime :: int
  h_UnixFD :: int
  h_OptCnt :: int
  h_Flags :: bitmap
  h_Path :: string
  h_values :: "(string \<times> string) list"

definition InvalidHandleID :: int where "InvalidHandleID = 0"

definition NewHandle :: "string \<Rightarrow> Handle" where
  "NewHandle path = \<lparr>h_ID = InvalidHandleID, h_FObj = None, h_CacheObj = None, h_Buffers = None,
     h_Size = 0, h_Mtime = 0, h_UnixFD = 0, h_OptCnt = 0, h_Flags = 0, h_Path = path, h_values = []\<rparr>"

definition h_Dirty :: "Handle \<Rightarrow> bool" where
  "h_Dirty h = IsSet (h_Flags h) HandleFlagDirty"

definition h_Cached :: "Handle \<Rightarrow> bool" where
  "h_Cached h = IsSet (h_Flags h) HandleFlagCached"

definition h_SetValue :: "Handle \<Rightarrow> string \<Rightarrow> string \<Rightarrow> Handle" where
  "h_SetValue h k v = h\<lparr>h_values := map_store k v (h_values h)\<rparr>"

definition h_GetValue :: "Handle \<Rightarrow> string \<Rightarrow> string option" where
  "h_GetValue h k = map_of (h_values h) k"

definition h_RemoveValue :: "Handle \<Rightarrow> string \<Rightarrow> string option \<times> Handle" where
  "h_RemoveValue h k = (map_of (h_values h) k, h\<lparr>h_values := map_remove k (h_values h)\<rparr>)"

definition h_Cleanup :: "Handle \<Rightarrow> Handle" where
  "h_Cleanup h = h\<lparr>h_values := []\<rparr>"

definition CreateCacheObject :: "int \<Rightarrow> Handle \<Rightarrow> Handle" where
  "CreateCacheObject capacity h = h\<lparr>h_CacheObj := Some
     \<lparr>cache_lru = NewLRUCache capacity,
      cache_bol = \<lparr>BlockList = [], bol_Flags = 0, BlockIdLength = 0, bol_Size = 0, bol_Mtime = 0\<rparr>,
      StreamOnly = False, HandleCount = 0\<rparr>\<rparr>"

section \<open>The handle table\<close>

record HandleTable =
  handles :: "(int \<times> Handle) list"
  nextHandleID :: int

text \<open>
  The allocator increments the 64-bit counter until the id is free. Nothing in the loop itself stops
  it, so it is a partial function; \<open>hm_Add_returns\<close> below shows that it does return while the table
  has fewer than \<open>2 ^ 64\<close> handles.
\<close>

partial_function (option) alloc_id :: "(int \<times> 'h) list \<Rightarrow> int \<Rightarrow> int option" where
  "alloc_id hs n =
     (let key = wrapu64 (n + 1) in
      if map_of hs key \<noteq> None then alloc_id hs key else Some key)"

declare alloc_id.simps [code]

text \<open>\<open>Add\<close> returns the id and stores the handle, whose \<open>ID\<close> field it sets.\<close>

definition hm_Add :: "HandleTable \<Rightarrow> Handle \<Rightarrow> (int \<times> Handle \<times> HandleTable) option" where
  "hm_Add t h = do {
     key \<leftarrow> alloc_id (handles t) (nextHandleID t);
     let h' = h\<lparr>h_ID := key\<rparr>;
     Some (key, h', t\<lparr>handles := map_store key h' (handles t), nextHandleID := key\<rparr>)
   }"

definition hm_Delete :: "HandleTable \<Rightarrow> int \<Rightarrow> HandleTable" where
  "hm_Delete t key = t\<lparr>handles := map_remove key (handles t)\<rparr>"

definition hm_LoadAndDelete :: "HandleTable \<Rightarrow> int \<Rightarrow> Handle option \<times> HandleTable" where
  "hm_LoadAndDelete t key =
     (case map_of (handles t) key of
        None \<Rightarrow> (None, t)
      | Some h \<Rightarrow> (Some h, t\<lparr>handles := map_remove key (handles t)\<rparr>))"

definition hm_Load :: "HandleTable \<Rightarrow> int \<Rightarrow> Handle option" where
  "hm_Load t key = map_of (handles t) key"

lemma alloc_id_free:
  assumes "map_of hs (wrapu64 (n + d)) = None" and "0 < d"
  shows "\<exists>key. alloc_id hs n = Some key \<and> map_of hs key = None \<and> in_uint64 key"
  using assms
proof (induction "nat d" arbitrary: n d rule: less_induct)
  case less
  let ?key = "wrapu64 (n + 1)"
  show ?case
  proof (cases "map_of hs ?key = None")
    case True
    then have "alloc_id hs n = Some ?key" by (simp add: alloc_id.simps [of hs n] Let_def)
    with True show ?thesis by simp
  next
    case False
    then have "d \<noteq> 1" using less.prems by auto
    with less.prems have d: "nat (d - 1) < nat d" "0 < d - 1" by auto
    have "wrapu64 (?key + (d - 1)) = wrapu64 (n + d)"
      using wrapu64_add_left [of "n + 1" "d - 1"] by (simp add: algebra_simps)
    with less.prems have "map_of hs (wrapu64 (?key + (d - 1))) = None" by simp
    from less.hyps [OF d(1) this d(2)] show ?thesis
      using False by (simp add: alloc_id.simps [of hs n] Let_def)
  qed
qed

lemma free_id_exists:
  assumes "length hs < 2 ^ 64"
  shows "\<exists>f. in_uint64 f \<and> map_of hs f = None"
proof (rule ccontr)
  assume "\<not> ?thesis"
  then have "{0..<2 ^ 64 :: int} \<subseteq> fst ` set hs"
    by (auto simp: in_uint64_def map_of_eq_None_iff)
  then have "card {0..<2 ^ 64 :: int} \<le> card (fst ` set hs)" by (intro card_mono) auto
  also have "\<dots> \<le> length hs" by (metis card_length image_set length_map)
  finally show False using assms by simp
qed

lemma alloc_id_returns:
  assumes "length hs < 2 ^ 64"
  shows "\<exists>key. alloc_id hs n = Some key \<and> map_of hs key = None \<and> in_uint64 key"
proof -
  obtain f where f: "in_uint64 f" "map_of hs f = None"
    using free_id_exists [OF assms] by blast
  define d where "d = wrapu64 (f - n) + 2 ^ 64"
  have "0 < d" using wrapu64_nonneg [of "f - n"] by (simp add: d_def add_nonneg_pos)
  have "wrapu64 (n + d) = wrapu64 (n + (f - n) + 2 ^ 64)"
    using wrapu64_add_right [of "n + 2 ^ 64" "f - n"] by (simp add: d_def algebra_simps)
  also have "\<dots> = f" using f by (simp add: wrapu64_add_modulus [simplified] wrapu64_id)
  finally have "map_of hs (wrapu64 (n + d)) = None" using f by simp
  from alloc_id_free [OF this \<open>0 < d\<close>] show ?thesis .
qed

text \<open>
  While fewer than \<open>2 ^ 64\<close> handles are open, \<open>Add\<close> returns: it gives the handle an id no open
  handle has, the table then finds the handle under that id, and every other entry is unchanged.
\<close>

theorem hm_Add_returns:
  assumes "length (handles t) < 2 ^ 64"
  shows "\<exists>key t'. hm_Add t h = Some (key, h\<lparr>h_ID := key\<rparr>, t') \<and> in_uint64 key \<and>
     hm_Load t key = None \<and> hm_Load t' key = Some (h\<lparr>h_ID := key\<rparr>) \<and>
     (\<forall>k. k \<noteq> key \<longrightarrow> hm_Load t' k = hm_Load t k)"
  using alloc_id_returns [OF assms, of "nextHandleID t"]
  by (auto simp: hm_Add_def hm_Load_def Let_def)

definition table_example :: HandleTable where
  "table_example = \<lparr>handles = [(1, NewHandle ''a''), (2, NewHandle ''b'')], nextHandleID = 0\<rparr>"

theorem hm_Add_returns_witness:
  "\<exists>key t'. hm_Add table_example (NewHandle ''c'') = Some (key, (NewHandle ''c'')\<lparr>h_ID := key\<rparr>, t') \<and>
     in_uint64 key \<and> hm_Load table_example key = None \<and>
     hm_Load t' key = Some ((NewHandle ''c'')\<lparr>h_ID := key\<rparr>) \<and>
     (\<forall>k. k \<noteq> key \<longrightarrow> hm_Load t' k = hm_Load table_example k)"
  by (rule hm_Add_returns) (simp add: table_example_def)

end
