(* ===== verification/Component.thy ===== *)
theory Component
  imports Handle_Map
begin

text \<open>
  The interface every pipeline component implements: object attributes (\<open>internal/attribute.go\<close>), the
  option structs (\<open>internal/component_options.go\<close>), the \<open>Component\<close> interface
  (\<open>internal/component.go\<close>) as a record of functions over the state of the components from there
  down, and \<open>BaseComponent\<close> (\<open>internal/base_component.go\<close>), which passes every call on.

  An operation takes the clock reading of the call, its options and the state; it returns the
  results with the new state, or \<open>None\<close> when the process crashes. Options that point to a handle
  carry the handle's fields.
\<close>

section \<open>Attributes\<close>

type_synonym file_mode = "32 word"

definition ModeDir :: file_mode where "ModeDir = push_bit 31 1"
definition ModeSymlink :: file_mode where "ModeSymlink = push_bit 27 1"
definition ModePerm :: file_mode where "ModePerm = 0x1FF"
definition ModeSetuid :: file_mode where "ModeSetuid = push_bit 23 1"
definition ModeSetgid :: file_mode where "ModeSetgid = push_bit 22 1"
definition ModeSticky :: file_mode where "ModeSticky = push_bit 20 1"

text \<open>\<open>os.ModeType\<close>: directory, symlink, named pipe, socket, device, char device, irregular.\<close>

definition ModeType :: file_mode where
  "ModeType = ModeDir OR ModeSymlink OR push_bit 25 1 OR push_bit 24 1 OR push_bit 26 1
     OR push_bit 21 1 OR push_bit 19 1"

definition PropFlagNotExists :: nat where "PropFlagNotExists = 1"
definition PropFlagIsDir :: nat where "PropFlagIsDir = 2"
definition PropFlagEmptyDir :: nat where "PropFlagEmptyDir = 3"
definition PropFlagSymlink :: nat where "PropFlagSymlink = 4"
definition PropFlagModeDefault :: nat where "PropFlagModeDefault = 5"

record ObjAttr =
  a_Mtime :: int
  a_Atime :: int
  a_Ctime :: int
  a_Crtime :: int
  a_Size :: int
  a_Mode :: file_mode
  a_Flags :: bitmap
  a_Path :: string
  a_Name :: string
  a_MD5 :: "string option"
  a_ETag :: string
  a_Metadata :: "(string \<times> string) list option"

definition IsDir :: "ObjAttr \<Rightarrow> bool" where
  "IsDir a = IsSet (a_Flags a) PropFlagIsDir"

definition IsSymlink :: "ObjAttr \<Rightarrow> bool" where
  "IsSymlink a = IsSet (a_Flags a) PropFlagSymlink"

definition IsModeDefault :: "ObjAttr \<Rightarrow> bool" where
  "IsModeDefault a = IsSet (a_Flags a) PropFlagModeDefault"

definition NewDirBitMap :: bitmap where "NewDirBitMap = set_flag PropFlagIsDir 0"
definition NewSymlinkBitMap :: bitmap where "NewSymlinkBitMap = set_flag PropFlagSymlink 0"
definition NewFileBitMap :: bitmap where "NewFileBitMap = 0"

definition TruncateDirName :: "string \<Rightarrow> string" where
  "TruncateDirName name = trim_suffix name [slash]"

definition ExtendDirName :: "string \<Rightarrow> string" where
  "ExtendDirName name = (if \<not> has_suffix name [slash] then name @ [slash] else name)"

definition CreateObjAttr :: "string \<Rightarrow> int \<Rightarrow> int \<Rightarrow> ObjAttr" where
  "CreateObjAttr objectPath sz lastModified =
     \<lparr>a_Mtime = lastModified, a_Atime = lastModified, a_Ctime = lastModified, a_Crtime = lastModified,
      a_Size = sz, a_Mode = 0, a_Flags = set_flag PropFlagModeDefault NewFileBitMap,
      a_Path = objectPath, a_Name = path_base objectPath, a_MD5 = None, a_ETag = [],
      a_Metadata = Some []\<rparr>"

definition CreateObjAttrDir :: "int \<Rightarrow> string \<Rightarrow> ObjAttr" where
  "CreateObjAttrDir now path =
     (CreateObjAttr (TruncateDirName path) 4096 now)
       \<lparr>a_Mode := ModeDir, a_Flags := set_flag PropFlagModeDefault NewDirBitMap\<rparr>"

lemma CreateObjAttr_simps [simp]:
  "a_Path (CreateObjAttr p n t) = p" "a_Size (CreateObjAttr p n t) = n"
  "a_Name (CreateObjAttr p n t) = path_base p" "a_Mtime (CreateObjAttr p n t) = t"
  "a_Path (CreateObjAttrDir t p) = TruncateDirName p"
  "a_Name (CreateObjAttrDir t p) = path_base (TruncateDirName p)"
  by (simp_all add: CreateObjAttr_def CreateObjAttrDir_def)

lemma CreateObjAttr_kind [simp]: "\<not> IsDir (CreateObjAttr p n t)" "IsDir (CreateObjAttrDir t p)"
  by (simp_all add: IsDir_def CreateObjAttr_def CreateObjAttrDir_def PropFlagIsDir_def
      PropFlagModeDefault_def NewFileBitMap_def NewDirBitMap_def)

lemma TruncateDirName_ExtendDirName:
  "\<not> has_suffix name [slash] \<Longrightarrow> TruncateDirName (ExtendDirName name) = name"
  by (simp add: TruncateDirName_def ExtendDirName_def)

text \<open>Object names have forward slashes.\<close>

definition NormalizeObjectName :: "string \<Rightarrow> string" where
  "NormalizeObjectName name = replace_char (CHR 0x5C) slash name"

section \<open>Options\<close>

record CreateDirOptions =
  cd_Name :: string
  cd_Mode :: file_mode

record NameOptions =
  opt_Name :: string

record StreamDirOptions =
  sd_Name :: string
  sd_Offset :: int
  sd_Token :: string
  sd_Count :: int

record RenameDirOptions =
  rd_Src :: string
  rd_Dst :: string

record CreateFileOptions =
  cf_Name :: string
  cf_Mode :: file_mode

record OpenFileOptions =
  of_Name :: string
  of_Flags :: int
  of_Mode :: file_mode

record ReleaseFileOptions =
  rl_Handle :: Handle

record RenameFileOptions =
  rf_Src :: string
  rf_Dst :: string
  rf_SrcAttr :: "ObjAttr option"
  rf_DstAttr :: "ObjAttr option"

record ReadInBufferOptions =
  ri_Handle :: "Handle option"
  ri_Offset :: int
  ri_Etag :: "string option"
  ri_Data :: string
  ri_Path :: string
  ri_Size :: int

record WriteFileOptions =
  wf_Handle :: Handle
  wf_Offset :: int
  wf_Data :: string
  wf_Metadata :: "(string \<times> string) list option"

record TruncateFileOptions =
  tf_Handle :: "Handle option"
  tf_Name :: string
  tf_OldSize :: int
  tf_NewSize :: int
  tf_BlockSize :: int

text \<open>
  \<open>CopyToFile\<close> and \<open>CopyFromFile\<close> are given an open local file. What is read of it is its
  \<open>Stat\<close> (size, modification time, mode; or an error) and its content from the current position.
\<close>

record LocalFile =
  lf_Stat :: "error + (int \<times> int \<times> file_mode)"
  lf_Content :: string

record CopyToFileOptions =
  ct_Name :: string
  ct_Offset :: int
  ct_Count :: int
  ct_File :: nat

record CopyFromFileOptions =
  cp_Name :: string
  cp_File :: LocalFile
  cp_Metadata :: "(string \<times> string) list option"

record FlushFileOptions =
  ff_Handle :: Handle
  ff_CloseInProgress :: bool

record SyncFileOptions =
  sf_Handle :: Handle

record CreateLinkOptions =
  cl_Name :: string
  cl_Target :: string

record ReadLinkOptions =
  rk_Name :: string
  rk_Size :: int

record GetAttrOptions =
  ga_Name :: string
  ga_RetrieveMetadata :: bool

record ChmodOptions =
  cm_Name :: string
  cm_Mode :: file_mode

record ChownOptions =
  co_Name :: string
  co_Owner :: int
  co_Group :: int

record StageDataOptions =
  sg_Name :: string
  sg_Id :: string
  sg_Data :: string
  sg_Offset :: int

record CommitDataOptions =
  cd_CommitName :: string
  cd_List :: "string list"
  cd_BlockSize :: int
  cd_NewETag :: "string option"

record CommittedBlock =
  cb_Id :: string
  cb_Offset :: int
  cb_Size :: int

record Statfs_t =
  st_Bsize :: int
  st_Blocks :: int
  st_Bfree :: int
  st_Bavail :: int
  st_Files :: int
  st_Ffree :: int
  st_Frsize :: int
  st_Flags :: int
  st_Namemax :: int

section \<open>The interface\<close>

text \<open>An operation: clock reading, options, state to results and new state; \<open>None\<close> is a crash.\<close>

type_synonym ('s, 'o, 'r) handler = "int \<Rightarrow> 'o \<Rightarrow> 's \<Rightarrow> ('r \<times> 's) option"

type_synonym err = "error option"

record 's component =
  CloudConnected :: "('s, unit, bool) handler"
  CreateDir :: "('s, CreateDirOptions, err) handler"
  DeleteDir :: "('s, NameOptions, err) handler"
  IsDirEmpty :: "('s, NameOptions, bool) handler"
  OpenDir :: "('s, NameOptions, err) handler"
  StreamDir :: "('s, StreamDirOptions, ObjAttr list \<times> string \<times> err) handler"
  CloseDir :: "('s, NameOptions, err) handler"
  RenameDir :: "('s, RenameDirOptions, err) handler"
  CreateFile :: "('s, CreateFileOptions, Handle option \<times> err) handler"
  DeleteFile :: "('s, NameOptions, err) handler"
  OpenFile :: "('s, OpenFileOptions, Handle option \<times> err) handler"
  ReleaseFile :: "('s, ReleaseFileOptions, err) handler"
  RenameFile :: "('s, RenameFileOptions, err) handler"
  ReadInBuffer :: "('s, ReadInBufferOptions, string \<times> int \<times> err) handler"
  WriteFile :: "('s, WriteFileOptions, int \<times> err) handler"
  TruncateFile :: "('s, TruncateFileOptions, err) handler"
  CopyToFile :: "('s, CopyToFileOptions, err) handler"
  CopyFromFile :: "('s, CopyFromFileOptions, err) handler"
  SyncFile :: "('s, SyncFileOptions, err) handler"
  SyncDir :: "('s, NameOptions, err) handler"
  FlushFile :: "('s, FlushFileOptions, err) handler"
  CreateLink :: "('s, CreateLinkOptions, err) handler"
  ReadLink :: "('s, ReadLinkOptions, string \<times> err) handler"
  GetAttr :: "('s, GetAttrOptions, ObjAttr option \<times> err) handler"
  GetFileBlockOffsets :: "('s, NameOptions, BlockOffsetList option \<times> err) handler"
  Chmod :: "('s, ChmodOptions, err) handler"
  Chown :: "('s, ChownOptions, err) handler"
  FileUsed :: "('s, string, err) handler"
  StatFs :: "('s, unit, Statfs_t option \<times> bool \<times> err) handler"
  GetCommittedBlockList :: "('s, string, CommittedBlock list option \<times> err) handler"
  StageData :: "('s, StageDataOptions, err) handler"
  CommitData :: "('s, CommitDataOptions, err) handler"

section \<open>The base component\<close>

text \<open>
  Every method of \<open>BaseComponent\<close> has one shape: call the next component when there is one, otherwise
  return the zero results.
\<close>

definition pass_on ::
  "'s component option \<Rightarrow> ('s component \<Rightarrow> ('s, 'o, 'r) handler) \<Rightarrow> 'r \<Rightarrow> ('s, 'o, 'r) handler" where
  "pass_on nxt method zero now options s =
     (case nxt of Some c \<Rightarrow> method c now options s | None \<Rightarrow> Some (zero, s))"

definition zero_attr :: ObjAttr where
  "zero_attr = \<lparr>a_Mtime = 0, a_Atime = 0, a_Ctime = 0, a_Crtime = 0, a_Size = 0, a_Mode = 0,
     a_Flags = 0, a_Path = [], a_Name = [], a_MD5 = None, a_ETag = [], a_Metadata = None\<rparr>"

definition zero_bol :: BlockOffsetList where
  "zero_bol = \<lparr>BlockList = [], bol_Flags = 0, BlockIdLength = 0, bol_Size = 0, bol_Mtime = 0\<rparr>"

definition base_component :: "'s component option \<Rightarrow> 's component" where
  "base_component nxt = \<lparr>
     CloudConnected = pass_on nxt CloudConnected False,
     CreateDir = pass_on nxt CreateDir None,
     DeleteDir = pass_on nxt DeleteDir None,
     IsDirEmpty = pass_on nxt IsDirEmpty False,
     OpenDir = pass_on nxt OpenDir None,
     StreamDir = pass_on nxt StreamDir ([], [], None),
     CloseDir = pass_on nxt CloseDir None,
     RenameDir = pass_on nxt RenameDir None,
     CreateFile = pass_on nxt CreateFile (None, None),
     DeleteFile = pass_on nxt DeleteFile None,
     OpenFile = pass_on nxt OpenFile (None, None),
     ReleaseFile = pass_on nxt ReleaseFile None,
     RenameFile = pass_on nxt RenameFile None,
     ReadInBuffer = (\<lambda>now options. pass_on nxt ReadInBuffer (ri_Data options, 0, None) now options),
     WriteFile = pass_on nxt WriteFile (0, None),
     TruncateFile = pass_on nxt TruncateFile None,
     CopyToFile = pass_on nxt CopyToFile None,
     CopyFromFile = pass_on nxt CopyFromFile None,
     SyncFile = pass_on nxt SyncFile None,
     SyncDir = pass_on nxt SyncDir None,
     FlushFile = pass_on nxt FlushFile None,
     CreateLink = pass_on nxt CreateLink None,
     ReadLink = pass_on nxt ReadLink ([], None),
     GetAttr = pass_on nxt GetAttr (Some zero_attr, None),
     GetFileBlockOffsets = pass_on nxt GetFileBlockOffsets (Some zero_bol, None),
     Chmod = pass_on nxt Chmod None,
     Chown = pass_on nxt Chown None,
     FileUsed = pass_on nxt FileUsed None,
     StatFs = pass_on nxt StatFs (None, False, None),
     GetCommittedBlockList = pass_on nxt GetCommittedBlockList (None, None),
     StageData = pass_on nxt StageData None,
     CommitData = pass_on nxt CommitData None\<rparr>"

text \<open>\<open>SetNextComponent\<close> sets the next component once and panics on a second call.\<close>

definition SetNextComponent :: "'c option \<Rightarrow> 'c \<Rightarrow> 'c option option" where
  "SetNextComponent nxt c = (if nxt = None then Some (Some c) else None)"

lemma pass_on_Some [simp]: "pass_on (Some c) method zero = method c"
  by (simp add: pass_on_def fun_eq_iff)

lemma base_component_transparent: "base_component (Some c) = c"
  by (cases c) (simp add: base_component_def)

section \<open>A component above another\<close>

text \<open>
  A component with a state of its own runs over the pair of that state and the state below. A call
  to the next component changes the second part only.
\<close>

definition below :: "('n, 'o, 'r) handler \<Rightarrow> ('c \<times> 'n, 'o, 'r) handler" where
  "below f now options = (\<lambda>(c, n). map_option (\<lambda>(r, n'). (r, (c, n'))) (f now options n))"

definition component_below :: "'n component \<Rightarrow> ('c \<times> 'n) component" where
  "component_below nc = \<lparr>
     CloudConnected = below (CloudConnected nc), CreateDir = below (CreateDir nc),
     DeleteDir = below (DeleteDir nc), IsDirEmpty = below (IsDirEmpty nc),
     OpenDir = below (OpenDir nc), StreamDir = below (StreamDir nc),
     CloseDir = below (CloseDir nc), RenameDir = below (RenameDir nc),
     CreateFile = below (CreateFile nc), DeleteFile = below (DeleteFile nc),
     OpenFile = below (OpenFile nc), ReleaseFile = below (ReleaseFile nc),
     RenameFile = below (RenameFile nc), ReadInBuffer = below (ReadInBuffer nc),
     WriteFile = below (WriteFile nc), TruncateFile = below (TruncateFile nc),
     CopyToFile = below (CopyToFile nc), CopyFromFile = below (CopyFromFile nc),
     SyncFile = below (SyncFile nc), SyncDir = below (SyncDir nc), FlushFile = below (FlushFile nc),
     CreateLink = below (CreateLink nc), ReadLink = below (ReadLink nc), GetAttr = below (GetAttr nc),
     GetFileBlockOffsets = below (GetFileBlockOffsets nc), Chmod = below (Chmod nc),
     Chown = below (Chown nc), FileUsed = below (FileUsed nc), StatFs = below (StatFs nc),
     GetCommittedBlockList = below (GetCommittedBlockList nc), StageData = below (StageData nc),
     CommitData = below (CommitData nc)\<rparr>"

lemma below_Some [simp]:
  "below f now options (c, n) = Some (r, c', n') \<longleftrightarrow> f now options n = Some (r, n') \<and> c' = c"
  by (auto simp: below_def)

lemma below_None [simp]: "below f now options (c, n) = None \<longleftrightarrow> f now options n = None"
  by (simp add: below_def)

end
