(* ===== verification/Pipeline.thy ===== *)
theory Pipeline
  imports Component
begin

text \<open>
  Building, starting and stopping the pipeline (\<open>internal/pipeline.go\<close>), and the checks and rewrites
  of its component names (\<open>common/util.go\<close>). What the pipeline sees of a component here is its name,
  its priority and the results of its life-cycle methods; the calls it makes are recorded in order.
\<close>

section \<open>Component names\<close>

definition ComponentInPipeline :: "string list \<Rightarrow> string \<Rightarrow> bool" where
  "ComponentInPipeline pipeline cmp = list_ex (\<lambda>c. c = cmp) pipeline"

definition ValidatePipeline :: "string list \<Rightarrow> error option" where
  "ValidatePipeline pipeline =
     (if ComponentInPipeline pipeline ''file_cache'' \<and> ComponentInPipeline pipeline ''block_cache''
      then Some (Errorf ''mount: file-cache and block-cache cannot be used together'')
      else if ComponentInPipeline pipeline ''file_cache'' \<and> ComponentInPipeline pipeline ''xload''
      then Some (Errorf ''mount: file-cache and xload cannot be used together'')
      else if ComponentInPipeline pipeline ''block_cache'' \<and> ComponentInPipeline pipeline ''xload''
      then Some (Errorf ''mount: block-cache and xload cannot be used together'')
      else None)"

text \<open>The loops of \<open>UpdatePipeline\<close>: the first of two components is overwritten.\<close>

fun replace_comp :: "string \<Rightarrow> string \<Rightarrow> string \<Rightarrow> string list \<Rightarrow> string list option" where
  "replace_comp x y cmp [] = None"
| "replace_comp x y cmp (c # cs) =
     (if c = x \<or> c = y then Some (cmp # cs) else map_option ((#) c) (replace_comp x y cmp cs))"

definition UpdatePipeline :: "string list \<Rightarrow> string \<Rightarrow> string list" where
  "UpdatePipeline pipeline cmp =
     (if ComponentInPipeline pipeline cmp then pipeline
      else if cmp = ''xload'' then
        (case replace_comp ''file_cache'' ''block_cache'' cmp pipeline of Some p \<Rightarrow> p | None \<Rightarrow> pipeline)
      else if cmp = ''block_cache'' then
        (case replace_comp ''file_cache'' ''xload'' cmp pipeline of Some p \<Rightarrow> p | None \<Rightarrow> pipeline)
      else pipeline)"

lemma ComponentInPipeline_iff [simp]: "ComponentInPipeline p c \<longleftrightarrow> c \<in> set p"
  by (auto simp: ComponentInPipeline_def list_ex_iff)

definition data_components :: "string set" where
  "data_components = {''file_cache'', ''block_cache'', ''xload''}"

lemma ValidatePipeline_iff:
  "ValidatePipeline p = None \<longleftrightarrow>
     (\<forall>c \<in> set p \<inter> data_components. \<forall>d \<in> set p \<inter> data_components. c = d)"
  by (auto simp: ValidatePipeline_def data_components_def)

lemma replace_comp_None: "replace_comp x y cmp p = None \<longleftrightarrow> x \<notin> set p \<and> y \<notin> set p"
  by (induction p) auto

lemma replace_comp_split:
  "replace_comp x y cmp p = Some q \<Longrightarrow> \<exists>ys z zs. p = ys @ z # zs \<and> (z = x \<or> z = y) \<and> q = ys @ cmp # zs"
proof (induction p arbitrary: q)
  case Nil
  then show ?case by simp
next
  case (Cons c cs)
  show ?case
  proof (cases "c = x \<or> c = y")
    case True
    with Cons.prems have "c # cs = [] @ c # cs \<and> (c = x \<or> c = y) \<and> q = [] @ cmp # cs" by auto
    then show ?thesis by blast
  next
    case False
    with Cons.prems obtain q' where q': "replace_comp x y cmp cs = Some q'" "q = c # q'" by auto
    from Cons.IH [OF q'(1)] q'(2) show ?thesis by (metis append_Cons)
  qed
qed

lemma replace_comp_Some:
  assumes "replace_comp x y cmp p = Some q" and "distinct p" and "cmp \<notin> set p"
  shows "\<exists>z. (z = x \<or> z = y) \<and> z \<in> set p \<and> set q = insert cmp (set p - {z}) \<and> distinct q"
proof -
  obtain ys z zs where "p = ys @ z # zs" "z = x \<or> z = y" "q = ys @ cmp # zs"
    using replace_comp_split [OF assms(1)] by blast
  with assms(2,3) show ?thesis by (intro exI [of _ z]) auto
qed

text \<open>
  C30. Replacing the caching component of a valid pipeline without repeated components, as
  \<open>UpdatePipeline\<close> does for \<open>xload\<close> and \<open>block_cache\<close>, gives a valid pipeline without repeated
  components again.
\<close>

theorem UpdatePipeline_valid:
  assumes "ValidatePipeline p = None" and "distinct p"
  shows "ValidatePipeline (UpdatePipeline p cmp) = None \<and> distinct (UpdatePipeline p cmp)"
proof -
  have step: "ValidatePipeline q = None \<and> distinct q"
    if rep: "replace_comp x y cmp p = Some q" "cmp \<notin> set p"
      and xy: "x \<in> data_components" "y \<in> data_components"
    for x y q
  proof -
    obtain z where z: "z = x \<or> z = y" "z \<in> set p" "set q = insert cmp (set p - {z})" "distinct q"
      using replace_comp_Some [OF rep(1) assms(2) rep(2)] by blast
    moreover have "c = z" if "c \<in> set p" "c \<in> data_components" for c
      using assms(1) z xy that
      by (auto simp: ValidatePipeline_iff)
    ultimately have "set q \<inter> data_components \<subseteq> {cmp}" by auto
    then show ?thesis using z(4) by (auto simp: ValidatePipeline_iff)
  qed
  show ?thesis
    using assms step
    by (auto simp: UpdatePipeline_def data_components_def split: option.split)
qed

theorem UpdatePipeline_valid_witness:
  "ValidatePipeline (UpdatePipeline [''libfuse'', ''file_cache'', ''azstorage''] ''xload'') = None \<and>
   distinct (UpdatePipeline [''libfuse'', ''file_cache'', ''azstorage''] ''xload'')"
  by (rule UpdatePipeline_valid) (simp_all add: ValidatePipeline_def)

section \<open>Construction\<close>

definition LevelMid :: int where "LevelMid = 500"
definition Producer :: int where "Producer = 1000"
definition Consumer :: int where "Consumer = 100"
definition LevelOne :: int where "LevelOne = 400"
definition LevelTwo :: int where "LevelTwo = 300"

record pipe_comp =
  pc_Name :: string
  pc_Priority :: int
  pc_Configure :: "bool \<Rightarrow> error option"
  pc_Start :: "error option"
  pc_Stop :: "error option"

text \<open>The registry maps names to constructors; constructing a component here gives its description.\<close>

fun build_components ::
  "(string \<times> pipe_comp) list \<Rightarrow> bool \<Rightarrow> int \<Rightarrow> string list \<Rightarrow> error + pipe_comp list" where
  "build_components reg isParent lastPriority [] = Inr []"
| "build_components reg isParent lastPriority (name # names) =
     (case map_of reg name of
        Some c \<Rightarrow>
          (case pc_Configure c isParent of
             Some e \<Rightarrow> Inl e
           | None \<Rightarrow>
               if pc_Priority c > lastPriority
               then Inl (Errorf (''config error in Pipeline [component '' @ name @ '' is out of order]''))
               else (case build_components reg isParent (pc_Priority c) names of
                       Inl e \<Rightarrow> Inl e | Inr cs \<Rightarrow> Inr (c # cs)))
      | None \<Rightarrow> Inl (Errorf (''config error in Pipeline [component '' @ name @ '' not registered]'')))"

definition NewPipeline ::
  "(string \<times> pipe_comp) list \<Rightarrow> string list \<Rightarrow> bool \<Rightarrow> error + pipe_comp list" where
  "NewPipeline reg names isParent = build_components reg isParent Producer names"

lemma build_components_ok:
  "build_components reg isParent lp names = Inr cs \<Longrightarrow>
     map (map_of reg) names = map Some cs \<and> (\<forall>c \<in> set cs. pc_Configure c isParent = None) \<and>
     sorted_wrt (\<lambda>a b. pc_Priority a \<ge> pc_Priority b) cs \<and> (\<forall>c \<in> set cs. pc_Priority c \<le> lp)"
  by (induction reg isParent lp names arbitrary: cs rule: build_components.induct)
    (fastforce split: option.splits sum.splits if_splits)+

section \<open>Starting and stopping\<close>

datatype life_call = StartCall string | StopCall string

fun stop_all :: "pipe_comp list \<Rightarrow> life_call list \<times> error option list" where
  "stop_all [] = ([], [])"
| "stop_all (c # cs) = (case stop_all cs of (calls, errs) \<Rightarrow>
     (StopCall (pc_Name c) # calls, pc_Stop c # errs))"

text \<open>
  The loop of \<open>Start\<close> from index \<open>i - 1\<close> down to 0. When a component fails to start, the components
  after it in the list are stopped, and the loop goes on.
\<close>

fun start_loop :: "pipe_comp list \<Rightarrow> nat \<Rightarrow> life_call list \<times> error option list" where
  "start_loop comps 0 = ([], [])"
| "start_loop comps (Suc i) =
     (let v = comps ! i; (calls, errs) = start_loop comps i in
      case pc_Start v of
        None \<Rightarrow> (StartCall (pc_Name v) # calls, errs)
      | Some e \<Rightarrow> (case stop_all (drop (Suc i) comps) of (scalls, serrs) \<Rightarrow>
          (StartCall (pc_Name v) # scalls @ calls, Some e # serrs @ errs)))"

text \<open>\<open>Start\<close> first calls \<open>Create\<close>, which indexes component 0: an empty pipeline panics.\<close>

definition pipeline_Start :: "pipe_comp list \<Rightarrow> (life_call list \<times> error option) option" where
  "pipeline_Start comps =
     (if comps = [] then None
      else case start_loop comps (length comps) of (calls, errs) \<Rightarrow> Some (calls, errors_join errs))"

definition pipeline_Stop :: "pipe_comp list \<Rightarrow> life_call list \<times> error option" where
  "pipeline_Stop comps = (case stop_all comps of (calls, errs) \<Rightarrow> (calls, errors_join errs))"

text \<open>\<open>Create\<close> links each component to the one after it.\<close>

fun create_links :: "'c list \<Rightarrow> ('c \<times> 'c option) list" where
  "create_links [] = []"
| "create_links [c] = [(c, None)]"
| "create_links (c # d # cs) = (c, Some d) # create_links (d # cs)"

fun is_start :: "life_call \<Rightarrow> bool" where
  "is_start (StartCall n) = True"
| "is_start (StopCall n) = False"

lemma stop_all_calls: "fst (stop_all cs) = map (StopCall \<circ> pc_Name) cs"
  by (induction cs) (auto split: prod.splits)

lemma filter_stop_calls [simp]: "filter is_start (map (StopCall \<circ> pc_Name) cs) = []"
  by (induction cs) auto

lemma start_loop_starts:
  "i \<le> length comps \<Longrightarrow>
     filter is_start (fst (start_loop comps i)) = map (StartCall \<circ> pc_Name) (rev (take i comps))"
proof (induction i)
  case 0
  then show ?case by simp
next
  case (Suc i)
  obtain calls errs where l: "start_loop comps i = (calls, errs)" by fastforce
  obtain scalls serrs where s: "stop_all (drop (Suc i) comps) = (scalls, serrs)" by fastforce
  then have "scalls = map (StopCall \<circ> pc_Name) (drop (Suc i) comps)"
    using stop_all_calls [of "drop (Suc i) comps"] by simp
  then have "filter is_start scalls = []" by simp
  with Suc l s show ?case
    by (simp add: take_Suc_conv_app_nth Let_def split: option.splits)
qed

lemma start_loop_ok:
  "i \<le> length comps \<Longrightarrow> \<forall>c \<in> set (take i comps). pc_Start c = None \<Longrightarrow>
     start_loop comps i = (map (StartCall \<circ> pc_Name) (rev (take i comps)), [])"
  by (induction i) (auto simp: take_Suc_conv_app_nth Let_def)

lemma start_loop_err:
  "i \<le> length comps \<Longrightarrow> j < i \<Longrightarrow> pc_Start (comps ! j) = Some e \<Longrightarrow>
     Some e \<in> set (snd (start_loop comps i))"
proof (induction i)
  case 0
  then show ?case by simp
next
  case (Suc i)
  then show ?case
    by (cases "j = i") (auto simp: Let_def split: option.splits prod.splits)
qed

lemma errors_join_Some: "Some e \<in> set es \<Longrightarrow> errors_join es \<noteq> None"
proof -
  assume "Some e \<in> set es"
  then have "e \<in> set (List.map_filter id es)" by (force simp: map_filter_def)
  then show ?thesis by (cases "List.map_filter id es") (auto simp: errors_join_def)
qed

text \<open>
  C31. \<open>Start\<close> calls the \<open>Start\<close> method of every component, last to first, whether or not one of them
  fails: a failure neither ends the loop nor keeps the components before it in the list from being
  started afterwards. It reports an error when some component failed, and without failures nothing
  is stopped and the result is nil.
\<close>

theorem pipeline_Start_starts_all:
  assumes "pipeline_Start comps = Some (calls, err)"
  shows "filter is_start calls = map (StartCall \<circ> pc_Name) (rev comps) \<and>
     ((\<exists>c \<in> set comps. pc_Start c \<noteq> None) \<longrightarrow> err \<noteq> None) \<and>
     ((\<forall>c \<in> set comps. pc_Start c = None) \<longrightarrow>
        calls = map (StartCall \<circ> pc_Name) (rev comps) \<and> err = None)"
proof -
  let ?n = "length comps"
  from assms have c: "calls = fst (start_loop comps ?n)" "err = errors_join (snd (start_loop comps ?n))"
    by (auto simp: pipeline_Start_def split: if_splits prod.splits)
  have "err \<noteq> None" if bad: "\<exists>c \<in> set comps. pc_Start c \<noteq> None"
  proof -
    obtain j e where "j < ?n" "pc_Start (comps ! j) = Some e"
      using bad by (auto simp: in_set_conv_nth)
    from errors_join_Some [OF start_loop_err [OF order_refl this]] show ?thesis by (simp add: c)
  qed
  moreover have "filter is_start calls = map (StartCall \<circ> pc_Name) (rev comps)"
    using start_loop_starts [of ?n comps] by (simp add: c)
  moreover have "calls = map (StartCall \<circ> pc_Name) (rev comps) \<and> err = None"
    if "\<forall>c \<in> set comps. pc_Start c = None"
    using start_loop_ok [of ?n comps] that by (simp add: c errors_join_def)
  ultimately show ?thesis by blast
qed

definition pc_example :: "string \<Rightarrow> error option \<Rightarrow> pipe_comp" where
  "pc_example n e = \<lparr>pc_Name = n, pc_Priority = LevelMid, pc_Configure = (\<lambda>_. None), pc_Start = e,
     pc_Stop = None\<rparr>"

text \<open>
  The middle component fails: the last one is stopped again, yet the first is started and stays so.
\<close>

lemma pipeline_Start_example:
  "pipeline_Start [pc_example ''a'' None, pc_example ''b'' (Some (Errno EIO)), pc_example ''c'' None] =
     Some ([StartCall ''c'', StartCall ''b'', StopCall ''c'', StartCall ''a''], Some (Joined [Errno EIO]))"
  by (simp add: pipeline_Start_def pc_example_def errors_join_def numeral_eq_Suc map_filter_def)

theorem pipeline_Start_starts_all_witness:
  "filter is_start [StartCall ''c'', StartCall ''b'', StopCall ''c'', StartCall ''a''] =
     [StartCall ''c'', StartCall ''b'', StartCall ''a'']"
  using pipeline_Start_starts_all [OF pipeline_Start_example] by (simp add: pc_example_def)

end
