(* ===== verification/Size_Journal.thy ===== *)
theory Size_Journal
  imports Pipeline
begin

text \<open>
  The size journal of the size tracker (\<open>component/size_tracker/journal.go\<close>): the tracked size of a
  mount is a base size, read from a file that several mounts share, plus a pending delta. \<open>sync\<close>
  merges the delta into the file; epochs decide whose size wins.
\<close>

section \<open>State\<close>

record MountSize =
  ms_size :: int
  ms_pendingDelta :: int
  ms_epoch :: int

text \<open>Base plus delta, with the subtraction stopping at zero.\<close>

definition apply_delta :: "int \<Rightarrow> int \<Rightarrow> int" where
  "apply_delta baseSize delta =
     (if delta < 0 then
        let dec = wrapu64 (wrap64 (- delta)) in if baseSize < dec then 0 else wrapu64 (baseSize - dec)
      else wrapu64 (baseSize + wrapu64 delta))"

definition ms_GetSize :: "MountSize \<Rightarrow> int" where
  "ms_GetSize ms = apply_delta (ms_size ms) (ms_pendingDelta ms)"

definition ms_Add :: "int \<Rightarrow> MountSize \<Rightarrow> MountSize" where
  "ms_Add delta ms = ms\<lparr>ms_pendingDelta := wrap64 (ms_pendingDelta ms + delta)\<rparr>"

definition IncrementEpoch :: "MountSize \<Rightarrow> MountSize" where
  "IncrementEpoch ms = ms\<lparr>ms_epoch := wrapu64 (ms_epoch ms + 1)\<rparr>"

section \<open>The journal text\<close>

definition journal_text :: "int \<Rightarrow> int \<Rightarrow> int \<Rightarrow> string" where
  "journal_text epoch sz ms =
     ''version=1'' @ [CHR 0x0A] @
     ''epoch='' @ show_int epoch @ [CHR 0x0A] @
     ''size_bytes='' @ show_int sz @ [CHR 0x0A] @
     ''updated_unix_ms='' @ show_int ms @ [CHR 0x0A]"

text \<open>One line changes the pair of file epoch and current size read so far.\<close>

definition parse_line :: "int \<times> int \<Rightarrow> string \<Rightarrow> int \<times> int" where
  "parse_line st raw =
     (case st of (fileEpoch, currentSize) \<Rightarrow>
      let ln = trim_space raw in
      if ln = [] \<or> prefix ''#'' ln \<or> prefix '';'' ln then st
      else case split_first CHR ''='' ln of
        [k, v] \<Rightarrow>
          (let key = trim_space k; val = trim_space v in
           if key = ''epoch'' then
             (case parse_uint val of Some u \<Rightarrow> (u, currentSize) | None \<Rightarrow> st)
           else if key = ''size_bytes'' then
             (case parse_uint val of Some u \<Rightarrow> (fileEpoch, u) | None \<Rightarrow> st)
           else st)
      | _ \<Rightarrow> st)"

definition parse_journal :: "string \<Rightarrow> int \<times> int" where
  "parse_journal text = foldl parse_line (0, 0) (split_on (CHR 0x0A) text)"

definition big_endian :: "string \<Rightarrow> int" where
  "big_endian bs = foldl (\<lambda>acc c. 256 * acc + int (of_char c)) 0 bs"

text \<open>What \<open>sync\<close> reads from the file: the file's epoch and size. Eight bytes seen by a mount that
  has no epoch yet are a legacy journal.\<close>

definition read_journal :: "int \<Rightarrow> string \<Rightarrow> int \<times> int" where
  "read_journal myEpoch content =
     (if content = [] then (0, 0)
      else if length content = 8 \<and> myEpoch = 0 then (0, big_endian content)
      else parse_journal content)"

section \<open>Sync\<close>

text \<open>
  The file operation that fails, if one does: opening (the work directory, the root, the file, its
  lock or its stat), reading, seeking, writing after some bytes, truncating, syncing.
\<close>

datatype sync_fault = FailOpen | FailRead | FailSeek | FailWrite nat | FailTruncate | FailSync

text \<open>The choice of the base size. It returns the base, the delta to apply and the mount's new fields.\<close>

definition choose_base :: "MountSize \<Rightarrow> int \<times> int \<Rightarrow> int \<times> int \<times> MountSize" where
  "choose_base ms fromFile =
     (case fromFile of (fileEpoch, currentSize) \<Rightarrow>
      let myEpoch = ms_epoch ms; delta = ms_pendingDelta ms in
      if myEpoch < fileEpoch then
        (currentSize, 0,
         ms\<lparr>ms_size := currentSize, ms_pendingDelta := wrap64 (ms_pendingDelta ms - delta),
            ms_epoch := fileEpoch\<rparr>)
      else if myEpoch > fileEpoch then (ms_size ms, delta, ms)
      else (currentSize, delta, ms\<lparr>ms_size := currentSize\<rparr>))"

definition nonzero_epoch :: "MountSize \<Rightarrow> MountSize" where
  "nonzero_epoch ms = (if ms_epoch ms = 0 then ms\<lparr>ms_epoch := 1\<rparr> else ms)"

text \<open>
  \<open>sync\<close> with the clock reading \<open>now\<close> (milliseconds) and the deltas \<open>mid\<close> that other goroutines add
  after it has loaded the pending delta. The exclusive file lock makes it atomic for the other mounts.
\<close>

definition ms_sync ::
  "sync_fault option \<Rightarrow> int \<Rightarrow> int \<Rightarrow> MountSize \<Rightarrow> string \<Rightarrow> error option \<times> MountSize \<times> string" where
  "ms_sync fault now mid ms content =
     (if fault = Some FailOpen then (Some (Errno EIO), ms, content)
      else if fault = Some FailRead \<and> content \<noteq> [] then (Some (Errno EIO), ms, content)
      else
        let (baseSize, delta, ms1) = choose_base ms (read_journal (ms_epoch ms) content);
            ms2 = nonzero_epoch ms1;
            updated = apply_delta baseSize delta;
            buf = journal_text (ms_epoch ms2) updated now;
            ms3 = ms_Add mid ms2
        in case fault of
             Some FailSeek \<Rightarrow> (Some (Errno EIO), ms3, content)
           | Some (FailWrite n) \<Rightarrow> (Some (Errno EIO), ms3, take n buf @ drop (min n (length buf)) content)
           | Some FailTruncate \<Rightarrow> (Some (Errno EIO), ms3, buf @ drop (length buf) content)
           | Some FailSync \<Rightarrow> (Some (Errno EIO), ms3, buf)
           | _ \<Rightarrow>
               (None,
                ms3\<lparr>ms_size := updated,
                    ms_pendingDelta :=
                      (if delta \<noteq> 0 then wrap64 (ms_pendingDelta ms3 - delta) else ms_pendingDelta ms3)\<rparr>,
                buf))"

definition CreateSizeJournal :: "sync_fault option \<Rightarrow> int \<Rightarrow> string \<Rightarrow> (error + MountSize) \<times> string" where
  "CreateSizeJournal fault now content =
     (case ms_sync fault now 0 \<lparr>ms_size = 0, ms_pendingDelta = 0, ms_epoch = 0\<rparr> content of
        (Some e, ms, content') \<Rightarrow> (Inl e, content')
      | (None, ms, content') \<Rightarrow> (Inr ms, content'))"

section \<open>Reading back what was written\<close>

lemma show_int_no_newline: "0 \<le> i \<Longrightarrow> CHR 0x0A \<notin> set (show_int i)"
  using show_int_nonneg_chars [of i "CHR 0x0A"] by (auto simp: is_digit_def)

lemma show_int_digits: "0 \<le> i \<Longrightarrow> list_all is_digit (show_int i)"
  by (simp add: show_int_def)

lemma split_first_eq: "CHR ''='' \<notin> set k \<Longrightarrow> split_first CHR ''='' (k @ CHR ''='' # v) = [k, v]"
  unfolding split_first_def by (induction k) auto

lemma show_int_not_Nil [simp]: "show_int i \<noteq> []"
  by (simp add: show_int_def)

lemma trim_key_value:
  assumes "k \<noteq> []" "\<not> is_space (hd k)" "0 \<le> i"
  shows "trim_space (k @ show_int i) = k @ show_int i"
proof (rule trim_space_id)
  have "is_digit (last (show_int i))"
    using show_int_nonneg_chars [OF assms(3), of "last (show_int i)"] by simp
  then have "\<not> is_space (last (k @ show_int i))" by (simp add: is_digit_not_space)
  with assms show "k @ show_int i = [] \<or> \<not> is_space (hd (k @ show_int i)) \<and> \<not> is_space (last (k @ show_int i))"
    by simp
qed

lemma parse_line_epoch:
  "in_uint64 i \<Longrightarrow> parse_line (e, s) (''epoch='' @ show_int i) = (i, s)"
  using trim_key_value [of "''epoch=''" i] split_first_eq [of "''epoch''" "show_int i"]
  by (simp add: parse_line_def in_uint64_def is_space_def trim_space_digits show_int_digits
      trim_space_def [of "''epoch''"] parse_show_int [unfolded in_uint64_def])

lemma parse_line_size:
  "in_uint64 i \<Longrightarrow> parse_line (e, s) (''size_bytes='' @ show_int i) = (e, i)"
  using trim_key_value [of "''size_bytes=''" i] split_first_eq [of "''size_bytes''" "show_int i"]
  by (simp add: parse_line_def in_uint64_def is_space_def trim_space_digits show_int_digits
      trim_space_def [of "''size_bytes''"] parse_show_int [unfolded in_uint64_def])

lemma parse_line_updated:
  "0 \<le> i \<Longrightarrow> parse_line (e, s) (''updated_unix_ms='' @ show_int i) = (e, s)"
  using trim_key_value [of "''updated_unix_ms=''" i] split_first_eq [of "''updated_unix_ms''" "show_int i"]
  by (simp add: parse_line_def is_space_def trim_space_def [of "''updated_unix_ms''"])

lemma parse_line_other: "parse_line (e, s) ''version=1'' = (e, s)" "parse_line (e, s) [] = (e, s)"
  by (simp_all add: parse_line_def trim_space_def is_space_def split_first_def)

text \<open>
  Reading the journal back gives the epoch and the size that were written, whatever the time
  stamp, and the text is never taken for a legacy journal.
\<close>

theorem journal_roundtrip:
  assumes "in_uint64 epoch" and "in_uint64 sz" and "0 \<le> ms"
  shows "read_journal myEpoch (journal_text epoch sz ms) = (epoch, sz)"
proof -
  have pos: "0 \<le> epoch" "0 \<le> sz" using assms by (simp_all add: in_uint64_def)
  have "split_on (CHR 0x0A) (journal_text epoch sz ms) =
      [''version=1'', ''epoch='' @ show_int epoch, ''size_bytes='' @ show_int sz,
       ''updated_unix_ms='' @ show_int ms, []]"
    using split_on_append_sep [of "CHR 0x0A" "''version=1''"]
      split_on_append_sep [of "CHR 0x0A" "''epoch='' @ show_int epoch"]
      split_on_append_sep [of "CHR 0x0A" "''size_bytes='' @ show_int sz"]
      split_on_append_sep [of "CHR 0x0A" "''updated_unix_ms='' @ show_int ms" "[]"]
      show_int_no_newline [OF pos(1)] show_int_no_newline [OF pos(2)] show_int_no_newline [OF assms(3)]
    by (simp add: journal_text_def)
  then have "parse_journal (journal_text epoch sz ms) = (epoch, sz)"
    by (simp only: parse_journal_def foldl_Cons foldl_Nil parse_line_other
        parse_line_epoch [OF assms(1)] parse_line_size [OF assms(2)] parse_line_updated [OF assms(3)])
  then show ?thesis by (simp add: read_journal_def journal_text_def)
qed

theorem journal_roundtrip_witness:
  "read_journal 0 (journal_text 3 1048576 1700000000000) = (3, 1048576)"
  by (rule journal_roundtrip) (simp_all add: in_uint64_def)

section \<open>Several mounts on one journal\<close>

lemma apply_delta_eq:
  assumes "in_uint64 b" and "in_int64 d" and "b + d < 2 ^ 64"
  shows "apply_delta b d = max 0 (b + d)"
proof (cases "d < 0")
  case True
  with assms(2) have "wrapu64 (wrap64 (- d)) = - d"
    by (simp add: wrapu64_wrap64 wrapu64_id in_uint64_def in_int64_def)
  with True assms show ?thesis
    by (auto simp: apply_delta_def Let_def wrapu64_id in_uint64_def)
next
  case False
  with assms have "wrapu64 d = d" by (simp add: wrapu64_id in_uint64_def in_int64_def)
  with False assms show ?thesis
    by (simp add: apply_delta_def wrapu64_id in_uint64_def)
qed

text \<open>
  A successful sync of a mount whose epoch is the file's writes the sum of the file's size and
  the pending delta (zero when that is negative), adopts it as its base, and leaves pending exactly
  what other goroutines added during the sync.
\<close>

theorem ms_sync_same_epoch:
  assumes "in_uint64 e" "1 \<le> e" "in_uint64 s" "0 \<le> t" "0 \<le> now"
    and "ms_epoch ms = e" and "in_int64 (ms_pendingDelta ms)" and "s + ms_pendingDelta ms < 2 ^ 64"
    and "in_int64 mid"
  shows "ms_sync None now mid ms (journal_text e s t) =
     (let u = max 0 (s + ms_pendingDelta ms) in
      (None, ms\<lparr>ms_size := u, ms_pendingDelta := mid\<rparr>, journal_text e u now))"
proof -
  let ?p = "ms_pendingDelta ms"
  have "read_journal (ms_epoch ms) (journal_text e s t) = (e, s)"
    using assms by (intro journal_roundtrip) auto
  moreover have "apply_delta s ?p = max 0 (s + ?p)" using assms by (intro apply_delta_eq) auto
  moreover have "wrap64 (wrap64 (?p + mid) - ?p) = mid"
    using wrap64_add_left [of "?p + mid" "- ?p"] assms(9) by (simp add: wrap64_id)
  ultimately show ?thesis
    using assms
    by (simp add: ms_sync_def choose_base_def nonzero_epoch_def ms_Add_def Let_def wrap64_id)
qed

theorem ms_sync_same_epoch_witness:
  "ms_sync None 7 5 \<lparr>ms_size = 0, ms_pendingDelta = - 30, ms_epoch = 2\<rparr> (journal_text 2 100 1) =
     (None, \<lparr>ms_size = 70, ms_pendingDelta = 5, ms_epoch = 2\<rparr>, journal_text 2 70 7)"
  using ms_sync_same_epoch [of 2 100 1 7 "\<lparr>ms_size = 0, ms_pendingDelta = - 30, ms_epoch = 2\<rparr>" 5]
  by (simp add: in_uint64_def in_int64_def)

record journal_sys =
  js_file :: string
  js_mount :: "nat \<Rightarrow> MountSize"

datatype journal_op = JAdd nat int | JSync nat int int

fun journal_step :: "journal_sys \<Rightarrow> journal_op \<Rightarrow> journal_sys" where
  "journal_step y (JAdd i d) = y\<lparr>js_mount := (js_mount y)(i := ms_Add d (js_mount y i))\<rparr>"
| "journal_step y (JSync i now mid) =
     (case ms_sync None now mid (js_mount y i) (js_file y) of
        (_, ms, f) \<Rightarrow> y\<lparr>js_file := f, js_mount := (js_mount y)(i := ms)\<rparr>)"

text \<open>What an operation adds to the tracked total.\<close>

fun op_delta :: "journal_op \<Rightarrow> int" where
  "op_delta (JAdd i d) = d"
| "op_delta (JSync i now mid) = mid"

definition js_size :: "journal_sys \<Rightarrow> int" where
  "js_size y = snd (read_journal 1 (js_file y))"

definition js_total :: "nat \<Rightarrow> journal_sys \<Rightarrow> int" where
  "js_total n y = js_size y + (\<Sum>i<n. ms_pendingDelta (js_mount y i))"

text \<open>
  The range conditions of an operation: it is of one of the \<open>n\<close> mounts, nothing overflows, and a
  sync does not bottom out at zero.
\<close>

fun op_ok :: "nat \<Rightarrow> journal_sys \<Rightarrow> journal_op \<Rightarrow> bool" where
  "op_ok n y (JAdd i d) \<longleftrightarrow> i < n \<and> in_int64 (ms_pendingDelta (js_mount y i) + d)"
| "op_ok n y (JSync i now mid) \<longleftrightarrow> i < n \<and> 0 \<le> now \<and> in_int64 mid \<and>
     in_uint64 (js_size y + ms_pendingDelta (js_mount y i))"

fun journal_run :: "journal_sys \<Rightarrow> journal_op list \<Rightarrow> journal_sys" where
  "journal_run y [] = y"
| "journal_run y (x # xs) = journal_run (journal_step y x) xs"

fun run_ok :: "nat \<Rightarrow> journal_sys \<Rightarrow> journal_op list \<Rightarrow> bool" where
  "run_ok n y [] = True"
| "run_ok n y (x # xs) \<longleftrightarrow> op_ok n y x \<and> run_ok n (journal_step y x) xs"

definition journal_inv :: "int \<Rightarrow> nat \<Rightarrow> journal_sys \<Rightarrow> bool" where
  "journal_inv e n y \<longleftrightarrow> in_uint64 e \<and> 1 \<le> e \<and>
     (\<exists>s t. js_file y = journal_text e s t \<and> in_uint64 s \<and> 0 \<le> t) \<and>
     (\<forall>i<n. ms_epoch (js_mount y i) = e \<and> in_int64 (ms_pendingDelta (js_mount y i)))"

lemma sum_fun_upd:
  fixes g :: "'b \<Rightarrow> int" and i n :: nat
  assumes i: "i < n"
  shows "(\<Sum>j<n. g ((m(i := x)) j)) = (\<Sum>j<n. g (m j)) - g (m i) + g x"
proof -
  have "(\<Sum>j<n. g ((m(i := x)) j)) = g ((m(i := x)) i) + (\<Sum>j \<in> {..<n} - {i}. g ((m(i := x)) j))"
    using i by (intro sum.remove) auto
  also have "(\<Sum>j \<in> {..<n} - {i}. g ((m(i := x)) j)) = (\<Sum>j \<in> {..<n} - {i}. g (m j))"
    by (intro sum.cong) auto
  also have "(\<Sum>j<n. g (m j)) = g (m i) + (\<Sum>j \<in> {..<n} - {i}. g (m j))"
    using i by (intro sum.remove) auto
  then have "(\<Sum>j \<in> {..<n} - {i}. g (m j)) = (\<Sum>j<n. g (m j)) - g (m i)" by simp
  finally show ?thesis by simp
qed

lemma journal_step_inv:
  assumes inv: "journal_inv e n y" and ok: "op_ok n y x"
  shows "journal_inv e n (journal_step y x) \<and> js_total n (journal_step y x) = js_total n y + op_delta x"
proof (cases x)
  case (JAdd i d)
  with ok have "wrap64 (ms_pendingDelta (js_mount y i) + d) = ms_pendingDelta (js_mount y i) + d"
    by (simp add: wrap64_id)
  with inv ok JAdd show ?thesis
    using sum_fun_upd [of i n ms_pendingDelta "js_mount y" "ms_Add d (js_mount y i)"]
    by (auto simp: journal_inv_def js_total_def js_size_def ms_Add_def)
next
  case (JSync i now mid)
  let ?ms = "js_mount y i"
  from inv obtain s t where f: "js_file y = journal_text e s t" "in_uint64 s" "0 \<le> t"
    and e: "in_uint64 e" "1 \<le> e" and m: "\<forall>j<n. ms_epoch (js_mount y j) = e \<and> in_int64 (ms_pendingDelta (js_mount y j))"
    by (auto simp: journal_inv_def)
  have sz: "js_size y = s" using journal_roundtrip [OF e(1) f(2,3)] f(1) by (simp add: js_size_def)
  from ok JSync sz have i: "i < n" "0 \<le> now" "in_int64 mid" "in_uint64 (s + ms_pendingDelta ?ms)" by auto
  let ?u = "s + ms_pendingDelta ?ms"
  have "ms_sync None now mid ?ms (js_file y) =
      (None, ?ms\<lparr>ms_size := ?u, ms_pendingDelta := mid\<rparr>, journal_text e ?u now)"
    using ms_sync_same_epoch [OF e f(2,3) i(2), of ?ms mid] m i f(1)
    by (simp add: in_uint64_def max_def Let_def)
  then have st: "journal_step y x = y\<lparr>js_file := journal_text e ?u now,
      js_mount := (js_mount y)(i := ?ms\<lparr>ms_size := ?u, ms_pendingDelta := mid\<rparr>)\<rparr>"
    using JSync by simp
  have "js_size (journal_step y x) = ?u"
    using journal_roundtrip [OF e(1) i(4) i(2)] by (simp add: js_size_def st)
  moreover have "(\<Sum>j<n. ms_pendingDelta (js_mount (journal_step y x) j)) =
      (\<Sum>j<n. ms_pendingDelta (js_mount y j)) - ms_pendingDelta ?ms + mid"
    using sum_fun_upd [OF i(1), of ms_pendingDelta "js_mount y" "?ms\<lparr>ms_size := ?u, ms_pendingDelta := mid\<rparr>"]
    by (simp add: st)
  ultimately have "js_total n (journal_step y x) = js_total n y + op_delta x"
    using JSync sz by (simp add: js_total_def)
  moreover have "journal_inv e n (journal_step y x)"
    using e m i unfolding journal_inv_def st by auto
  ultimately show ?thesis by blast
qed

text \<open>
  C14. However the adds and syncs of several mounts sharing a journal interleave, the file's size plus
  the deltas still pending is always the initial total plus everything added: no delta is lost and
  none is counted twice. (The run must not overflow or bottom out, and the mounts share the file's
  epoch.)
\<close>

theorem journal_conserves_total:
  assumes "journal_inv e n y" and "run_ok n y xs"
  shows "journal_inv e n (journal_run y xs) \<and>
     js_total n (journal_run y xs) = js_total n y + (\<Sum>x\<leftarrow>xs. op_delta x)"
  using assms
proof (induction xs arbitrary: y)
  case Nil
  then show ?case by simp
next
  case (Cons x xs)
  then have "journal_inv e n (journal_step y x) \<and> js_total n (journal_step y x) = js_total n y + op_delta x"
    by (intro journal_step_inv) auto
  with Cons show ?case by simp
qed

definition journal_example :: journal_sys where
  "journal_example = \<lparr>js_file = journal_text 1 100 0,
     js_mount = (\<lambda>_. \<lparr>ms_size = 100, ms_pendingDelta = 0, ms_epoch = 1\<rparr>)\<rparr>"

lemma journal_example_inv: "journal_inv 1 2 journal_example"
  by (auto simp: journal_inv_def journal_example_def)
    (rule exI [of _ 100], rule exI [of _ 0], simp add: in_uint64_def)

theorem journal_conserves_total_witness:
  "js_total 2 (journal_run journal_example [JAdd 0 50, JAdd 1 (- 20), JSync 1 9 3]) =
     js_total 2 journal_example + 33"
proof -
  have sz: "js_size journal_example = 100"
    using journal_roundtrip [of 1 100 0 1] by (simp add: js_size_def journal_example_def in_uint64_def)
  have "run_ok 2 journal_example [JAdd 0 50, JAdd 1 (- 20), JSync 1 9 3]"
    using sz by (simp add: js_size_def journal_example_def ms_Add_def in_int64_def in_uint64_def wrap64_def)
  from journal_conserves_total [OF journal_example_inv this] show ?thesis by simp
qed

end
