(* ===== verification/Os_Files.thy ===== *)
theory Os_Files
  imports Size_Journal
begin

text \<open>
  The operating-system files that the loopback component works on, through package \<open>os\<close>: names map to
  inodes, open files hold the inode they were opened on, so they survive a rename or a removal.

  Paths are absolute and lexically clean. A parent must be an existing directory; a symbolic link is
  followed only as the last component of a path (at most 40 times, then the open fails as the kernel
  does with \<open>ELOOP\<close>, here \<open>EIO\<close>). Permissions, hard links and I/O failures are not modelled, so that the
  only error of a read that comes with bytes is the end of the file. An open file is not held to its access
  mode: the kernel refuses a read of a file opened for writing only, or a write of one opened for
  reading, before it reaches the file system.
\<close>

section \<open>State\<close>

datatype node =
    FileNode (node_content: string) (node_mode: file_mode) (node_mtime: int)
  | DirNode (node_mode: file_mode) (node_mtime: int)
  | LinkNode (node_target: string) (node_mtime: int)

record os_fs =
  dents :: "(string \<times> nat) list"
  inodes :: "nat \<Rightarrow> node"
  next_ino :: nat
  open_fds :: "(nat \<times> nat) list"
  next_fd :: nat

fun is_dir_node :: "node \<Rightarrow> bool" where
  "is_dir_node (DirNode m t) = True"
| "is_dir_node _ = False"

fun is_link_node :: "node \<Rightarrow> bool" where
  "is_link_node (LinkNode l t) = True"
| "is_link_node _ = False"

fun is_file_node :: "node \<Rightarrow> bool" where
  "is_file_node (FileNode c m t) = True"
| "is_file_node _ = False"

text \<open>\<open>Size()\<close> of \<open>Lstat\<close>: a directory is one 4096-byte block.\<close>

fun node_stat_size :: "node \<Rightarrow> int" where
  "node_stat_size (FileNode c m t) = int (length c)"
| "node_stat_size (DirNode m t) = 4096"
| "node_stat_size (LinkNode l t) = int (length l)"

fun node_stat_mode :: "node \<Rightarrow> file_mode" where
  "node_stat_mode (FileNode c m t) = m"
| "node_stat_mode (DirNode m t) = ModeDir OR m"
| "node_stat_mode (LinkNode l t) = ModeSymlink OR ModePerm"

text \<open>Bytes stored in a node, a directory counting nothing.\<close>

fun stored_size :: "node \<Rightarrow> int" where
  "stored_size (FileNode c m t) = int (length c)"
| "stored_size (DirNode m t) = 0"
| "stored_size (LinkNode l t) = int (length l)"

definition node_at :: "os_fs \<Rightarrow> string \<Rightarrow> node option" where
  "node_at fs p = map_option (inodes fs) (map_of (dents fs) p)"

definition parent_is_dir :: "os_fs \<Rightarrow> string \<Rightarrow> bool" where
  "parent_is_dir fs p = (case node_at fs (path_dir p) of Some nd \<Rightarrow> is_dir_node nd | None \<Rightarrow> False)"

text \<open>Following symbolic links at the end of a path.\<close>

fun resolve :: "nat \<Rightarrow> os_fs \<Rightarrow> string \<Rightarrow> string option" where
  "resolve 0 fs p = None"
| "resolve (Suc k) fs p =
     (case node_at fs p of
        Some (LinkNode l t) \<Rightarrow>
          resolve k fs (if prefix [slash] l then path_clean l else path_join [path_dir p, l])
      | _ \<Rightarrow> Some p)"

section \<open>Operations\<close>

definition set_inode :: "nat \<Rightarrow> node \<Rightarrow> os_fs \<Rightarrow> os_fs" where
  "set_inode i nd fs = fs\<lparr>inodes := (inodes fs)(i := nd)\<rparr>"

definition new_entry :: "string \<Rightarrow> node \<Rightarrow> os_fs \<Rightarrow> os_fs" where
  "new_entry p nd fs = fs\<lparr>dents := map_store p (next_ino fs) (dents fs),
     inodes := (inodes fs)(next_ino fs := nd), next_ino := Suc (next_ino fs)\<rparr>"

definition path_err :: "errno \<Rightarrow> error" where
  "path_err e = PathError (Errno e)"

definition os_Lstat :: "os_fs \<Rightarrow> string \<Rightarrow> error + node" where
  "os_Lstat fs p = (case node_at fs p of Some nd \<Rightarrow> Inr nd | None \<Rightarrow> Inl (path_err ENOENT))"

definition os_Mkdir :: "int \<Rightarrow> string \<Rightarrow> file_mode \<Rightarrow> os_fs \<Rightarrow> error option \<times> os_fs" where
  "os_Mkdir now p mode fs =
     (if node_at fs p \<noteq> None then (Some (path_err EEXIST), fs)
      else if \<not> parent_is_dir fs p then (Some (path_err ENOENT), fs)
      else (None, new_entry p (DirNode (mode AND ModePerm) now) fs))"

definition has_children :: "os_fs \<Rightarrow> string \<Rightarrow> bool" where
  "has_children fs p = list_ex (\<lambda>(q, i). prefix (p @ [slash]) q) (dents fs)"

text \<open>\<open>os.Remove\<close> unlinks a file or removes an empty directory.\<close>

definition os_Remove :: "string \<Rightarrow> os_fs \<Rightarrow> error option \<times> os_fs" where
  "os_Remove p fs =
     (case node_at fs p of
        None \<Rightarrow> (Some (path_err ENOENT), fs)
      | Some nd \<Rightarrow>
          if is_dir_node nd \<and> has_children fs p then (Some (path_err ENOTEMPTY), fs)
          else (None, fs\<lparr>dents := map_remove p (dents fs)\<rparr>))"

text \<open>The flags of \<open>os.OpenFile\<close> that matter here: create, truncate, exclusive.\<close>

record open_flags =
  fl_create :: bool
  fl_trunc :: bool
  fl_excl :: bool

definition alloc_fd :: "nat \<Rightarrow> os_fs \<Rightarrow> nat \<times> os_fs" where
  "alloc_fd i fs = (next_fd fs, fs\<lparr>open_fds := map_store (next_fd fs) i (open_fds fs),
     next_fd := Suc (next_fd fs)\<rparr>)"

definition os_OpenFile ::
  "int \<Rightarrow> string \<Rightarrow> open_flags \<Rightarrow> file_mode \<Rightarrow> os_fs \<Rightarrow> (error + nat) \<times> os_fs" where
  "os_OpenFile now p0 fl mode fs =
     (case resolve 40 fs p0 of
        None \<Rightarrow> (Inl (path_err EIO), fs)
      | Some p \<Rightarrow>
          (case map_of (dents fs) p of
             None \<Rightarrow>
               if \<not> fl_create fl \<or> \<not> parent_is_dir fs p then (Inl (path_err ENOENT), fs)
               else let fs1 = new_entry p (FileNode [] (mode AND ModePerm) now) fs;
                        (fd, fs2) = alloc_fd (next_ino fs) fs1 in (Inr fd, fs2)
           | Some i \<Rightarrow>
               if fl_create fl \<and> fl_excl fl then (Inl (path_err EEXIST), fs)
               else (case inodes fs i of
                       FileNode c m t \<Rightarrow>
                         let fs1 = (if fl_trunc fl then set_inode i (FileNode [] m now) fs else fs);
                             (fd, fs2) = alloc_fd i fs1 in (Inr fd, fs2)
                     | DirNode m t \<Rightarrow>
                         if fl_create fl \<or> fl_trunc fl then (Inl (path_err EISDIR), fs)
                         else let (fd, fs2) = alloc_fd i fs in (Inr fd, fs2)
                     | LinkNode l t \<Rightarrow> (Inl (path_err EIO), fs))))"

definition os_Close :: "nat \<Rightarrow> os_fs \<Rightarrow> error option \<times> os_fs" where
  "os_Close fd fs =
     (if map_of (open_fds fs) fd = None then (Some (PathError ErrClosed), fs)
      else (None, fs\<lparr>open_fds := map_remove fd (open_fds fs)\<rparr>))"

text \<open>
  The bytes of a file after writing \<open>data\<close> at \<open>off\<close>; a gap before the offset reads as zeros, and a
  write of no bytes changes nothing.
\<close>

definition write_at :: "string \<Rightarrow> nat \<Rightarrow> string \<Rightarrow> string" where
  "write_at c off data =
     (if data = [] then c
      else take off (c @ replicate (off - length c) (CHR 0x00)) @ data @ drop (off + length data) c)"

definition os_WriteAt :: "int \<Rightarrow> nat \<Rightarrow> string \<Rightarrow> int \<Rightarrow> os_fs \<Rightarrow> (int \<times> error option) \<times> os_fs" where
  "os_WriteAt now fd data off fs =
     (case map_of (open_fds fs) fd of
        None \<Rightarrow> ((0, Some (PathError ErrClosed)), fs)
      | Some i \<Rightarrow>
          if off < 0 then ((0, Some (path_err EINVAL)), fs)
          else (case inodes fs i of
                  FileNode c m t \<Rightarrow>
                    ((int (length data), None),
                     set_inode i (FileNode (write_at c (nat off) data) m (if data = [] then t else now)) fs)
                | _ \<Rightarrow> ((0, Some (path_err EISDIR)), fs)))"

text \<open>\<open>ReadAt\<close> returns the bytes read, and \<open>io.EOF\<close> (here \<open>True\<close>) when there were fewer than asked.\<close>

definition os_ReadAt :: "os_fs \<Rightarrow> nat \<Rightarrow> nat \<Rightarrow> int \<Rightarrow> (string \<times> bool) + error" where
  "os_ReadAt fs fd n off =
     (case map_of (open_fds fs) fd of
        None \<Rightarrow> Inr (PathError ErrClosed)
      | Some i \<Rightarrow>
          if off < 0 then Inr (path_err EINVAL)
          else (case inodes fs i of
                  FileNode c m t \<Rightarrow> let bs = take n (drop (nat off) c) in Inl (bs, length bs < n)
                | _ \<Rightarrow> Inr (path_err EISDIR)))"

definition os_Truncate :: "int \<Rightarrow> string \<Rightarrow> int \<Rightarrow> os_fs \<Rightarrow> error option \<times> os_fs" where
  "os_Truncate now p0 n fs =
     (case resolve 40 fs p0 of
        None \<Rightarrow> (Some (path_err EIO), fs)
      | Some p \<Rightarrow>
          (case map_of (dents fs) p of
             None \<Rightarrow> (Some (path_err ENOENT), fs)
           | Some i \<Rightarrow>
               (case inodes fs i of
                  FileNode c m t \<Rightarrow>
                    if n < 0 then (Some (path_err EINVAL), fs)
                    else (None, set_inode i (FileNode
                            (take (nat n) (c @ replicate (nat n - length c) (CHR 0x00))) m now) fs)
                | _ \<Rightarrow> (Some (path_err EISDIR), fs))))"

text \<open>
  Go's \<open>os.Rename\<close>: a directory at the destination is refused with \<open>EEXIST\<close>; otherwise the
  destination is replaced, and the entries below a moved directory move with it.
\<close>

definition move_path :: "string \<Rightarrow> string \<Rightarrow> string \<Rightarrow> string" where
  "move_path old new p =
     (if p = old then new
      else if prefix (old @ [slash]) p then new @ drop (length old) p else p)"

definition os_Rename :: "string \<Rightarrow> string \<Rightarrow> os_fs \<Rightarrow> error option \<times> os_fs" where
  "os_Rename old new fs =
     (case node_at fs old of
        None \<Rightarrow> (Some (LinkError (Errno ENOENT)), fs)
      | Some nd \<Rightarrow>
          (case node_at fs new of
             Some nd' \<Rightarrow>
               if is_dir_node nd' then (Some (LinkError (Errno EEXIST)), fs)
               else if is_dir_node nd then (Some (LinkError (Errno ENOTDIR)), fs)
               else if old = new then (None, fs)
               else (None, fs\<lparr>dents := map (\<lambda>(p, i). (move_path old new p, i))
                               (map_remove new (dents fs))\<rparr>)
           | None \<Rightarrow>
               if \<not> parent_is_dir fs new then (Some (LinkError (Errno ENOENT)), fs)
               else if prefix (old @ [slash]) new then (Some (LinkError (Errno EINVAL)), fs)
               else (None, fs\<lparr>dents := map (\<lambda>(p, i). (move_path old new p, i)) (dents fs)\<rparr>)))"

definition os_Symlink :: "int \<Rightarrow> string \<Rightarrow> string \<Rightarrow> os_fs \<Rightarrow> error option \<times> os_fs" where
  "os_Symlink now target p fs =
     (if node_at fs p \<noteq> None then (Some (LinkError (Errno EEXIST)), fs)
      else if \<not> parent_is_dir fs p \<or> target = [] then (Some (LinkError (Errno ENOENT)), fs)
      else (None, new_entry p (LinkNode target now) fs))"

definition os_Readlink :: "os_fs \<Rightarrow> string \<Rightarrow> error + string" where
  "os_Readlink fs p =
     (case node_at fs p of
        None \<Rightarrow> Inl (path_err ENOENT)
      | Some (LinkNode l t) \<Rightarrow> Inr l
      | Some _ \<Rightarrow> Inl (path_err EINVAL))"

definition os_Chmod :: "string \<Rightarrow> file_mode \<Rightarrow> os_fs \<Rightarrow> error option \<times> os_fs" where
  "os_Chmod p0 mode fs =
     (case resolve 40 fs p0 of
        None \<Rightarrow> (Some (path_err EIO), fs)
      | Some p \<Rightarrow>
          (case map_of (dents fs) p of
             None \<Rightarrow> (Some (path_err ENOENT), fs)
           | Some i \<Rightarrow>
               (case inodes fs i of
                  FileNode c m t \<Rightarrow> (None, set_inode i (FileNode c (mode AND ModePerm) t) fs)
                | DirNode m t \<Rightarrow> (None, set_inode i (DirNode (mode AND ModePerm) t) fs)
                | LinkNode l t \<Rightarrow> (Some (path_err EIO), fs))))"

text \<open>
  The entries of a directory, or of the one a symbolic link leads to, with their nodes, sorted by name as
  \<open>os.ReadDir\<close> returns them.
\<close>

definition string_code :: "string \<Rightarrow> nat list" where
  "string_code s = map of_char s"

fun lex_le :: "nat list \<Rightarrow> nat list \<Rightarrow> bool" where
  "lex_le [] ys = True"
| "lex_le (x # xs) [] = False"
| "lex_le (x # xs) (y # ys) = (x < y \<or> (x = y \<and> lex_le xs ys))"

fun insert_by_name :: "(string \<times> 'b) \<Rightarrow> (string \<times> 'b) list \<Rightarrow> (string \<times> 'b) list" where
  "insert_by_name e [] = [e]"
| "insert_by_name e (f # fs) =
     (if lex_le (string_code (fst e)) (string_code (fst f)) then e # f # fs else f # insert_by_name e fs)"

definition sort_by_name :: "(string \<times> 'b) list \<Rightarrow> (string \<times> 'b) list" where
  "sort_by_name es = foldr insert_by_name es []"

definition os_ReadDir :: "os_fs \<Rightarrow> string \<Rightarrow> error + (string \<times> node) list" where
  "os_ReadDir fs p =
     (case resolve 40 fs p of
        None \<Rightarrow> Inl (path_err EIO)
      | Some d \<Rightarrow>
          (case node_at fs d of
             None \<Rightarrow> Inl (path_err ENOENT)
           | Some nd \<Rightarrow>
               if \<not> is_dir_node nd then Inl (path_err ENOTDIR)
               else Inr (sort_by_name (List.map_filter
                      (\<lambda>(q, i). if path_dir q = d \<and> q \<noteq> d then Some (path_base q, inodes fs i) else None)
                      (dents fs)))))"

section \<open>Invariant and stored bytes\<close>

text \<open>Distinct names, no two names of one inode, and inode numbers below the allocator.\<close>

definition fs_inv :: "os_fs \<Rightarrow> bool" where
  "fs_inv fs \<longleftrightarrow> distinct (map fst (dents fs)) \<and> distinct (map snd (dents fs)) \<and>
     (\<forall>i \<in> snd ` set (dents fs). i < next_ino fs)"

definition fs_total :: "os_fs \<Rightarrow> int" where
  "fs_total fs = sum_by (\<lambda>i. stored_size (inodes fs i)) (dents fs)"

definition path_size :: "os_fs \<Rightarrow> string \<Rightarrow> int" where
  "path_size fs p = (case node_at fs p of Some nd \<Rightarrow> stored_size nd | None \<Rightarrow> 0)"

lemma stored_size_nonneg [simp]: "0 \<le> stored_size nd"
  by (cases nd) auto

lemma fs_total_nonneg: "0 \<le> fs_total fs"
  by (simp add: fs_total_def sum_by_nonneg)

lemma sum_by_cong: "(\<And>p. p \<in> set m \<Longrightarrow> f (snd p) = g (snd p)) \<Longrightarrow> sum_by f m = sum_by g m"
  by (induction m) auto

lemma sum_by_upd:
  "distinct (map snd m) \<Longrightarrow> map_of m p = Some i \<Longrightarrow>
     sum_by (\<lambda>j. g ((h(i := x)) j)) m = sum_by (\<lambda>j. g (h j)) m - g (h i) + g x"
proof (induction m)
  case Nil
  then show ?case by simp
next
  case (Cons e m)
  obtain q j where e: "e = (q, j)" by (cases e)
  show ?case
  proof (cases "q = p")
    case True
    with Cons.prems e have j: "j = i" "i \<notin> snd ` set m" by auto
    then have "sum_by (\<lambda>j. g ((h(i := x)) j)) m = sum_by (\<lambda>j. g (h j)) m"
      by (intro sum_by_cong) (auto simp: image_iff)
    with e j show ?thesis by simp
  next
    case False
    with Cons.prems e have m: "map_of m p = Some i" by simp
    then have "i \<in> snd ` set m" by (metis map_of_SomeD image_eqI snd_conv)
    with Cons.prems e have "j \<noteq> i" by auto
    with e m Cons show ?thesis by simp
  qed
qed

lemma fs_total_set_inode:
  assumes "fs_inv fs" and "map_of (dents fs) p = Some i"
  shows "fs_total (set_inode i nd fs) = fs_total fs - stored_size (inodes fs i) + stored_size nd"
  using assms sum_by_upd [of "dents fs" p i stored_size "inodes fs" nd]
  by (simp add: fs_total_def set_inode_def fs_inv_def)

lemma fs_inv_set_inode [simp]: "fs_inv (set_inode i nd fs) = fs_inv fs"
  by (simp add: fs_inv_def set_inode_def)

lemma fs_total_new_entry:
  assumes "fs_inv fs" and "map_of (dents fs) p = None"
  shows "fs_total (new_entry p nd fs) = fs_total fs + stored_size nd"
proof -
  let ?h = "(inodes fs)(next_ino fs := nd)"
  have "sum_by (\<lambda>j. stored_size (?h j)) (map_store p (next_ino fs) (dents fs)) =
      sum_by (\<lambda>j. stored_size (?h j)) (dents fs) + stored_size nd"
    using sum_by_store_new [OF assms(2), of "\<lambda>j. stored_size (?h j)" "next_ino fs"] by simp
  also have "sum_by (\<lambda>j. stored_size (?h j)) (dents fs) = fs_total fs"
    unfolding fs_total_def using assms(1) by (intro sum_by_cong) (auto simp: fs_inv_def)
  finally show ?thesis by (simp add: fs_total_def new_entry_def)
qed

lemma snds_map_store_new:
  "map_of m k = None \<Longrightarrow> map snd (map_store k v m) = map snd m @ [v]"
  by (induction k v m rule: map_store.induct) (auto split: if_splits)

lemma fs_inv_new_entry:
  assumes "fs_inv fs" and "map_of (dents fs) p = None"
  shows "fs_inv (new_entry p nd fs)"
proof -
  have s: "map snd (map_store p (next_ino fs) (dents fs)) = map snd (dents fs) @ [next_ino fs]"
    by (rule snds_map_store_new [OF assms(2)])
  then have "snd ` set (map_store p (next_ino fs) (dents fs)) = insert (next_ino fs) (snd ` set (dents fs))"
    by (metis Un_insert_right boolean_algebra.disj_zero_right image_set list.simps(15) set_append set_empty)
  with assms(1) s show ?thesis by (auto simp: fs_inv_def new_entry_def)
qed

lemma map_remove_subset: "set (map_remove k m) \<subseteq> set m"
  by (auto simp: map_remove_def)

lemma distinct_snd_map_remove: "distinct (map snd m) \<Longrightarrow> distinct (map snd (map_remove k m))"
  unfolding map_remove_def by (induction m) auto

lemma fs_inv_remove: "fs_inv fs \<Longrightarrow> fs_inv (fs\<lparr>dents := map_remove p (dents fs)\<rparr>)"
  using map_remove_subset [of p "dents fs"]
  by (auto simp: fs_inv_def distinct_snd_map_remove)

lemma fs_total_remove:
  assumes "fs_inv fs"
  shows "fs_total (fs\<lparr>dents := map_remove p (dents fs)\<rparr>) = fs_total fs - path_size fs p"
proof (cases "map_of (dents fs) p")
  case None
  then show ?thesis
    by (simp add: fs_total_def path_size_def node_at_def sum_by_remove_absent)
next
  case (Some i)
  with assms show ?thesis
    using sum_by_remove [of "dents fs" p i "\<lambda>i. stored_size (inodes fs i)"]
    by (simp add: fs_total_def path_size_def node_at_def fs_inv_def)
qed

lemma length_write_at:
  "data \<noteq> [] \<Longrightarrow> int (length (write_at c off data)) = max (int (length c)) (int off + int (length data))"
  by (auto simp: write_at_def max_def)

end
