(* ===== verification/Loopback.thy ===== *)
theory Loopback
  imports Os_Files
begin

text \<open>
  The loopback component (\<open>component/loopback/loopback_fs.go\<close>): the bottom of a test pipeline, which
  serves every operation from a local directory through \<open>Os_Files\<close> and keeps its open files in the
  handle table. It is the model's concrete storage: the contracts the components above rely on are
  discharged by it.
\<close>

section \<open>State\<close>

record loopback =
  lb_fs :: os_fs
  lb_table :: HandleTable
  lb_path :: string
  lb_consistency :: bool

definition lb_full :: "loopback \<Rightarrow> string \<Rightarrow> string" where
  "lb_full s name = path_join [lb_path s, name]"

text \<open>A step of the file system inside the component.\<close>

definition lb_os :: "(os_fs \<Rightarrow> 'r \<times> os_fs) \<Rightarrow> loopback \<Rightarrow> ('r \<times> loopback) option" where
  "lb_os f s = (case f (lb_fs s) of (r, fs) \<Rightarrow> Some (r, s\<lparr>lb_fs := fs\<rparr>))"

abbreviation no_flags :: open_flags where
  "no_flags \<equiv> \<lparr>fl_create = False, fl_trunc = False, fl_excl = False\<rparr>"

abbreviation create_trunc :: open_flags where
  "create_trunc \<equiv> \<lparr>fl_create = True, fl_trunc = True, fl_excl = False\<rparr>"

section \<open>Directories\<close>

definition lb_CreateDir :: "(loopback, CreateDirOptions, err) handler" where
  "lb_CreateDir now options s = lb_os (os_Mkdir now (lb_full s (cd_Name options)) (cd_Mode options)) s"

definition lb_DeleteDir :: "(loopback, NameOptions, err) handler" where
  "lb_DeleteDir now options s = lb_os (os_Remove (lb_full s (opt_Name options))) s"

text \<open>\<open>Readdirnames(1)\<close> reports \<open>io.EOF\<close> on an empty directory and another error on a file.\<close>

definition lb_IsDirEmpty :: "(loopback, NameOptions, bool) handler" where
  "lb_IsDirEmpty now options s =
     (case os_ReadDir (lb_fs s) (lb_full s (opt_Name options)) of
        Inl e \<Rightarrow> Some (False, s)
      | Inr es \<Rightarrow> Some (es = [], s))"

definition node_attr :: "string \<Rightarrow> string \<Rightarrow> node \<Rightarrow> ObjAttr" where
  "node_attr path name nd =
     \<lparr>a_Mtime = node_mtime nd, a_Atime = node_mtime nd, a_Ctime = node_mtime nd, a_Crtime = 0,
      a_Size = node_stat_size nd, a_Mode = node_stat_mode nd,
      a_Flags = (if is_link_node nd then set_flag PropFlagSymlink 0
                 else if is_dir_node nd then set_flag PropFlagIsDir 0 else 0),
      a_Path = path, a_Name = name, a_MD5 = None, a_ETag = [], a_Metadata = None\<rparr>"

text \<open>
  The MD5 of a listed entry that is not a directory, computed when the consistency check is on: the hash
  of the content the path leads to, or none where opening or reading it fails (the error is only logged).
  The hash function belongs to the library and is a parameter.
\<close>

definition computeMD5 :: "(string \<Rightarrow> string) \<Rightarrow> os_fs \<Rightarrow> string \<Rightarrow> string option" where
  "computeMD5 md5 fs p =
     (case resolve 40 fs p of
        None \<Rightarrow> None
      | Some q \<Rightarrow> (case node_at fs q of Some (FileNode c m t) \<Rightarrow> Some (md5 c) | _ \<Rightarrow> None))"

definition lb_StreamDir ::
  "(string \<Rightarrow> string) \<Rightarrow> (loopback, StreamDirOptions, ObjAttr list \<times> string \<times> err) handler" where
  "lb_StreamDir md5 now options s =
     (if sd_Token options = ''na'' then Some (([], [], None), s)
      else case os_ReadDir (lb_fs s) (lb_full s (sd_Name options)) of
        Inl e \<Rightarrow> Some (([], [], Some e), s)
      | Inr files \<Rightarrow>
          Some ((map (\<lambda>(name, nd).
                   (node_attr (replace_char CHR 0x5C slash (path_join [sd_Name options, name])) name nd)
                     \<lparr>a_MD5 := (if lb_consistency s \<and> \<not> is_dir_node nd
                                then computeMD5 md5 (lb_fs s) (path_join [lb_full s (sd_Name options), name]) else None)\<rparr>) files,
                 [], None), s))"

definition lb_RenameDir :: "(loopback, RenameDirOptions, err) handler" where
  "lb_RenameDir now options s =
     lb_os (os_Rename (lb_full s (rd_Src options)) (lb_full s (rd_Dst options))) s"

section \<open>Files\<close>

text \<open>Opening a file wraps the descriptor in a new handle and adds it to the table.\<close>

definition add_handle :: "string \<Rightarrow> nat \<Rightarrow> loopback \<Rightarrow> ((Handle option \<times> err) \<times> loopback) option" where
  "add_handle name fd s = do {
     (key, h, t) \<leftarrow> hm_Add (lb_table s) ((NewHandle name)\<lparr>h_FObj := Some fd\<rparr>);
     Some ((Some h, None), s\<lparr>lb_table := t\<rparr>)
   }"

definition lb_CreateFile :: "(loopback, CreateFileOptions, Handle option \<times> err) handler" where
  "lb_CreateFile now options s =
     (if cf_Name options = ''FailThis''
      then Some ((None, Some (Errorf ''LoopbackFS::CreateFile : Failed to create file FailThis'')), s)
      else case os_OpenFile now (lb_full s (cf_Name options)) create_trunc (cf_Mode options) (lb_fs s) of
        (Inl e, fs) \<Rightarrow> Some ((None, Some e), s\<lparr>lb_fs := fs\<rparr>)
      | (Inr fd, fs) \<Rightarrow> add_handle (cf_Name options) fd (s\<lparr>lb_fs := fs\<rparr>))"

definition lb_CreateLink :: "(loopback, CreateLinkOptions, err) handler" where
  "lb_CreateLink now options s =
     lb_os (os_Symlink now (cl_Target options) (lb_full s (cl_Name options))) s"

definition lb_DeleteFile :: "(loopback, NameOptions, err) handler" where
  "lb_DeleteFile now options s = lb_os (os_Remove (lb_full s (opt_Name options))) s"

definition flags_of_int :: "int \<Rightarrow> open_flags" where
  "flags_of_int f = \<lparr>fl_create = odd (f div 64), fl_trunc = odd (f div 512), fl_excl = odd (f div 128)\<rparr>"

definition lb_OpenFile :: "(loopback, OpenFileOptions, Handle option \<times> err) handler" where
  "lb_OpenFile now options s =
     (case os_OpenFile now (lb_full s (of_Name options)) (flags_of_int (of_Flags options))
             (of_Mode options) (lb_fs s) of
        (Inl e, fs) \<Rightarrow> Some ((None, Some e), s\<lparr>lb_fs := fs\<rparr>)
      | (Inr fd, fs) \<Rightarrow> add_handle (of_Name options) fd (s\<lparr>lb_fs := fs\<rparr>))"

definition lb_ReleaseFile :: "(loopback, ReleaseFileOptions, err) handler" where
  "lb_ReleaseFile now options s =
     (case h_FObj (rl_Handle options) of
        None \<Rightarrow> Some (Some (Errno EBADF), s)
      | Some fd \<Rightarrow>
          lb_os (os_Close fd) (s\<lparr>lb_table := hm_Delete (lb_table s) (h_ID (rl_Handle options))\<rparr>))"

text \<open>The walk over the open handles runs whether or not the rename succeeded.\<close>

definition rename_handles :: "string \<Rightarrow> string \<Rightarrow> HandleTable \<Rightarrow> HandleTable" where
  "rename_handles src dst t =
     t\<lparr>handles := map (\<lambda>(k, h). (k, if h_Path h = src then h\<lparr>h_Path := dst\<rparr> else h)) (handles t)\<rparr>"

definition lb_RenameFile :: "(loopback, RenameFileOptions, err) handler" where
  "lb_RenameFile now options s =
     (case os_Rename (lb_full s (rf_Src options)) (lb_full s (rf_Dst options)) (lb_fs s) of
        (e, fs) \<Rightarrow>
          Some (e, s\<lparr>lb_fs := fs,
                     lb_table := rename_handles (rf_Src options) (rf_Dst options) (lb_table s)\<rparr>))"

definition lb_ReadLink :: "(loopback, ReadLinkOptions, string \<times> err) handler" where
  "lb_ReadLink now options s =
     (case os_Readlink (lb_fs s) (lb_full s (rk_Name options)) of
        Inl e \<Rightarrow> Some (([], Some e), s)
      | Inr target \<Rightarrow>
          Some ((trim_prefix (replace_char CHR 0x5C slash target) (replace_char CHR 0x5C slash (lb_path s)),
                 None), s))"

text \<open>
  Without an open file the read opens the path itself, and a failure to open is reported as zero
  bytes and no error.
\<close>

definition lb_ReadInBuffer :: "(loopback, ReadInBufferOptions, string \<times> int \<times> err) handler" where
  "lb_ReadInBuffer now options s =
     (let handle = (case ri_Handle options of
                      Some h \<Rightarrow> h | None \<Rightarrow> (NewHandle (ri_Path options))\<lparr>h_Size := ri_Size options\<rparr>);
          fill = (\<lambda>bs. bs @ drop (length bs) (ri_Data options));
          read = (\<lambda>fs fd. case os_ReadAt fs fd (length (ri_Data options)) (ri_Offset options) of
                    Inl (bs, eof) \<Rightarrow> (fill bs, int (length bs), None)
                  | Inr e \<Rightarrow> (ri_Data options, 0, Some e))
      in case h_FObj handle of
           None \<Rightarrow>
             (case os_OpenFile now (lb_full s (h_Path handle)) no_flags 0 (lb_fs s) of
                (Inl e, fs) \<Rightarrow> Some ((ri_Data options, 0, None), s\<lparr>lb_fs := fs\<rparr>)
              | (Inr fd, fs) \<Rightarrow> Some (read fs fd, s\<lparr>lb_fs := snd (os_Close fd fs)\<rparr>))
         | Some fd \<Rightarrow> Some (read (lb_fs s) fd, s))"

text \<open>\<open>WriteFile\<close> marks the handle dirty in the table, where all users of the handle see it.\<close>

definition mark_handle_dirty :: "int \<Rightarrow> HandleTable \<Rightarrow> HandleTable" where
  "mark_handle_dirty key t =
     t\<lparr>handles := map (\<lambda>(k, h). (k, if k = key then h\<lparr>h_Flags := set_flag HandleFlagDirty (h_Flags h)\<rparr> else h))
                    (handles t)\<rparr>"

definition lb_WriteFile :: "(loopback, WriteFileOptions, int \<times> err) handler" where
  "lb_WriteFile now options s =
     (case h_FObj (wf_Handle options) of
        None \<Rightarrow> Some ((0, Some ErrInvalid), s)
      | Some fd \<Rightarrow>
          lb_os (os_WriteAt now fd (wf_Data options) (wf_Offset options))
            (s\<lparr>lb_table := mark_handle_dirty (h_ID (wf_Handle options)) (lb_table s)\<rparr>))"

definition lb_TruncateFile :: "(loopback, TruncateFileOptions, err) handler" where
  "lb_TruncateFile now options s =
     lb_os (os_Truncate now (lb_full s (tf_Name options)) (tf_NewSize options)) s"

definition lb_FlushFile :: "(loopback, FlushFileOptions, err) handler" where
  "lb_FlushFile now options s =
     (case h_FObj (ff_Handle options) of None \<Rightarrow> Some (Some ErrClosed, s) | Some fd \<Rightarrow> Some (None, s))"

text \<open>
  \<open>CopyToFile\<close> copies into a local file the caller has just opened, so from its start; the
  descriptors share one operating system.
\<close>

definition lb_CopyToFile :: "(loopback, CopyToFileOptions, err) handler" where
  "lb_CopyToFile now options s =
     (case os_OpenFile now (lb_full s (ct_Name options)) no_flags 0 (lb_fs s) of
        (Inl e, fs) \<Rightarrow> Some (Some e, s\<lparr>lb_fs := fs\<rparr>)
      | (Inr fd, fs) \<Rightarrow>
          (case map_of (open_fds fs) fd of
             None \<Rightarrow> Some (Some (PathError ErrClosed), s\<lparr>lb_fs := fs\<rparr>)
           | Some i \<Rightarrow>
               (case inodes fs i of
                  FileNode c m t \<Rightarrow>
                    (case os_WriteAt now (ct_File options) c 0 fs of
                       ((n, Some e), fs1) \<Rightarrow> Some (Some e, s\<lparr>lb_fs := fs1\<rparr>)
                     | ((n, None), fs1) \<Rightarrow> lb_os (os_Close fd) (s\<lparr>lb_fs := fs1\<rparr>))
                | _ \<Rightarrow> Some (Some (path_err EISDIR), s\<lparr>lb_fs := fs\<rparr>))))"

text \<open>Replacing the content of an open file, as \<open>io.Copy\<close> into a truncated file does.\<close>

definition lb_CopyFromFile :: "(loopback, CopyFromFileOptions, err) handler" where
  "lb_CopyFromFile now options s =
     (case os_OpenFile now (lb_full s (cp_Name options)) create_trunc 0x1B6 (lb_fs s) of
        (Inl e, fs) \<Rightarrow> Some (Some e, s\<lparr>lb_fs := fs\<rparr>)
      | (Inr fd, fs) \<Rightarrow>
          (case os_WriteAt now fd (lf_Content (cp_File options)) 0 fs of
             ((n, Some e), fs1) \<Rightarrow> Some (Some e, s\<lparr>lb_fs := fs1\<rparr>)
           | ((n, None), fs1) \<Rightarrow> lb_os (os_Close fd) (s\<lparr>lb_fs := fs1\<rparr>)))"

definition lb_GetAttr :: "(loopback, GetAttrOptions, ObjAttr option \<times> err) handler" where
  "lb_GetAttr now options s =
     (case os_Lstat (lb_fs s) (lb_full s (ga_Name options)) of
        Inl e \<Rightarrow> Some ((None, Some e), s)
      | Inr nd \<Rightarrow>
          Some ((Some (node_attr (ga_Name options)
                   (replace_char CHR 0x5C slash (path_base (lb_full s (ga_Name options)))) nd), None), s))"

definition lb_Chmod :: "(loopback, ChmodOptions, err) handler" where
  "lb_Chmod now options s = lb_os (os_Chmod (lb_full s (cm_Name options)) (cm_Mode options)) s"

text \<open>Owners are not part of the modelled file system: changing one only needs the file to exist.\<close>

definition lb_Chown :: "(loopback, ChownOptions, err) handler" where
  "lb_Chown now options s =
     (case resolve 40 (lb_fs s) (lb_full s (co_Name options)) of
        None \<Rightarrow> Some (Some (path_err EIO), s)
      | Some p \<Rightarrow> Some (if node_at (lb_fs s) p = None then Some (path_err ENOENT) else None, s))"

section \<open>Staged blocks\<close>

definition staged_path :: "loopback \<Rightarrow> string \<Rightarrow> string \<Rightarrow> string" where
  "staged_path s name bid = lb_full s name @ ''_'' @ replace_char slash (CHR ''_'') bid"

text \<open>\<open>os.WriteFile\<close>: create or truncate, then write all.\<close>

definition lb_StageData :: "(loopback, StageDataOptions, err) handler" where
  "lb_StageData now options s =
     (case os_OpenFile now (staged_path s (sg_Name options) (sg_Id options)) create_trunc 0x1A4 (lb_fs s) of
        (Inl e, fs) \<Rightarrow> Some (Some e, s\<lparr>lb_fs := fs\<rparr>)
      | (Inr fd, fs) \<Rightarrow>
          (case os_WriteAt now fd (sg_Data options) 0 fs of
             ((n, e), fs1) \<Rightarrow> Some (e, s\<lparr>lb_fs := snd (os_Close fd fs1)\<rparr>)))"

text \<open>
  One staged block copied into the blob at \<open>idx * BlockSize\<close>; a block that is not there is skipped.
  The result is \<open>Inl\<close> of the early return's error (possibly nil), or \<open>Inr\<close> to go on.
\<close>

definition commit_block ::
  "int \<Rightarrow> nat \<Rightarrow> int \<Rightarrow> string \<Rightarrow> os_fs \<Rightarrow> (err + unit) \<times> os_fs" where
  "commit_block now blob pos p fs =
     (case os_Lstat fs p of
        Inl e \<Rightarrow> (if \<not> is_not_exist (Some e) then Inl (Some e) else Inr (), fs)
      | Inr nd \<Rightarrow>
          (case os_OpenFile now p no_flags 0 fs of
             (Inl e, fs1) \<Rightarrow> (Inl (Some e), fs1)
           | (Inr bfd, fs1) \<Rightarrow>
               (case os_ReadAt fs1 bfd (nat (node_stat_size nd)) 0 of
                  Inr e \<Rightarrow> (Inl (Some e), fs1)
                | Inl (bs, eof) \<Rightarrow>
                    if int (length bs) \<noteq> node_stat_size nd then (Inl None, fs1)
                    else (case os_WriteAt now blob bs pos fs1 of
                            ((n, Some e), fs2) \<Rightarrow> (Inl (Some e), fs2)
                          | ((n, None), fs2) \<Rightarrow>
                              if n \<noteq> node_stat_size nd then (Inl None, fs2)
                              else (case os_Close bfd fs2 of
                                      (Some e, fs3) \<Rightarrow> (Inl (Some e), fs3)
                                    | (None, fs3) \<Rightarrow> (Inr (), fs3))))))"

fun commit_loop ::
  "int \<Rightarrow> nat \<Rightarrow> int \<Rightarrow> int \<Rightarrow> string list \<Rightarrow> os_fs \<Rightarrow> (err + unit) \<times> os_fs" where
  "commit_loop now blob bs idx [] fs = (Inr (), fs)"
| "commit_loop now blob bs idx (p # ps) fs =
     (case commit_block now blob (wrap64 (idx * bs)) p fs of
        (Inl e, fs1) \<Rightarrow> (Inl e, fs1)
      | (Inr _, fs1) \<Rightarrow> commit_loop now blob bs (idx + 1) ps fs1)"

fun remove_staged :: "string list \<Rightarrow> os_fs \<Rightarrow> os_fs" where
  "remove_staged [] fs = fs"
| "remove_staged (p # ps) fs = remove_staged ps (snd (os_Remove p fs))"

definition lb_CommitData :: "(loopback, CommitDataOptions, err) handler" where
  "lb_CommitData now options s =
     (let name = cd_CommitName options; main = lb_full s name;
          staged = map (staged_path s name) (cd_List options) in
      case os_OpenFile now main \<lparr>fl_create = True, fl_trunc = False, fl_excl = False\<rparr> 0x1A4 (lb_fs s) of
        (Inl e, fs) \<Rightarrow> Some (Some e, s\<lparr>lb_fs := fs\<rparr>)
      | (Inr blob, fs) \<Rightarrow>
          let (terr, fs1) = (if cd_List options = [] then os_Truncate now main 0 fs else (None, fs)) in
          case terr of
            Some e \<Rightarrow> Some (Some e, s\<lparr>lb_fs := fs1\<rparr>)
          | None \<Rightarrow>
              (case commit_loop now blob (cd_BlockSize options) 0 staged fs1 of
                 (Inl e, fs2) \<Rightarrow> Some (e, s\<lparr>lb_fs := fs2\<rparr>)
               | (Inr _, fs2) \<Rightarrow> lb_os (os_Close blob) (s\<lparr>lb_fs := remove_staged staged fs2\<rparr>)))"

text \<open>The committed blocks of a file: its size cut into whole megabytes.\<close>

definition lb_GetCommittedBlockList :: "(loopback, string, CommittedBlock list option \<times> err) handler" where
  "lb_GetCommittedBlockList now name s =
     (case os_Lstat (lb_fs s) (lb_full s name) of
        Inl e \<Rightarrow> Some ((None, Some e), s)
      | Inr nd \<Rightarrow>
          let blockSize = 1024 * 1024; blocks = node_stat_size nd div blockSize in
          Some ((Some (map (\<lambda>i. \<lparr>cb_Id = show_nat i, cb_Offset = int i * blockSize, cb_Size = blockSize\<rparr>)
                         [0..<nat blocks]), None), s))"

definition loopback_component :: "(string \<Rightarrow> string) \<Rightarrow> loopback component" where
  "loopback_component md5 = (base_component None)\<lparr>
     CloudConnected := (\<lambda>now _ s. Some (True, s)),
     CreateDir := lb_CreateDir, DeleteDir := lb_DeleteDir, IsDirEmpty := lb_IsDirEmpty,
     StreamDir := lb_StreamDir md5, RenameDir := lb_RenameDir, CreateFile := lb_CreateFile,
     CreateLink := lb_CreateLink, DeleteFile := lb_DeleteFile, OpenFile := lb_OpenFile,
     ReleaseFile := lb_ReleaseFile, RenameFile := lb_RenameFile, ReadLink := lb_ReadLink,
     ReadInBuffer := lb_ReadInBuffer, WriteFile := lb_WriteFile, TruncateFile := lb_TruncateFile,
     FlushFile := lb_FlushFile, CopyToFile := lb_CopyToFile, CopyFromFile := lb_CopyFromFile,
     GetAttr := lb_GetAttr,
     Chmod := lb_Chmod, Chown := lb_Chown, StageData := lb_StageData, CommitData := lb_CommitData,
     GetCommittedBlockList := lb_GetCommittedBlockList\<rparr>"

end
