(* ===== verification/Size_Tracker.thy ===== *)
theory Size_Tracker
  imports Complex_Main Loopback
begin

text \<open>
  The size tracker (\<open>component/size_tracker/size_tracker.go\<close>): it keeps the total size of the files in
  the mount in the size journal by comparing attributes before and after each operation of the next
  component, can refuse operations that would exceed the bucket's capacity, and reports usage through
  \<open>StatFs\<close>, shifted by an offset that a three-state machine chooses.

  The state is the pair of the tracker's fields and the state of the components below. The
  \<open>float64\<close> arithmetic of \<open>StatFs\<close> is modelled by exact rationals.
\<close>

section \<open>State\<close>

datatype EvictionMode = Normal | Overuse | Emergency

fun EvictionMode_String :: "EvictionMode \<Rightarrow> string" where
  "EvictionMode_String Normal = ''Normal''"
| "EvictionMode_String Overuse = ''Overuse''"
| "EvictionMode_String Emergency = ''Emergency''"

record SizeTracker =
  mountSize :: MountSize
  totalBucketCapacity :: int
  displayCapacity :: int
  serverCount :: int
  evictionMode :: EvictionMode
  bucketUsage :: int
  statSizeOffset :: int
  hardLimitEnabled :: bool

definition MbToBytes :: int where "MbToBytes = 1024 * 1024"
definition st_blockSize :: int where "st_blockSize = 4096"

definition targetUtilization :: rat where "targetUtilization = 9 / 10"
definition hysteresisMargin :: rat where "hysteresisMargin = 2 / 100"
definition overuseThreshold :: rat where "overuseThreshold = targetUtilization + hysteresisMargin"
definition emergencyThreshold :: rat where "emergencyThreshold = overuseThreshold + 5 / 100"
definition bucketNormalizedThreshold :: rat where
  "bucketNormalizedThreshold = targetUtilization - hysteresisMargin"

lemmas thresholds = overuseThreshold_def emergencyThreshold_def bucketNormalizedThreshold_def
  targetUtilization_def hysteresisMargin_def

definition st_Add :: "int \<Rightarrow> SizeTracker \<Rightarrow> SizeTracker" where
  "st_Add d st = st\<lparr>mountSize := ms_Add d (mountSize st)\<rparr>"

section \<open>Configuration\<close>

text \<open>\<open>SanitizeName\<close> of \<open>common/util.go\<close> replaces the characters a file name may not contain.\<close>

definition SanitizeName :: "string \<Rightarrow> string" where
  "SanitizeName name = map (\<lambda>c. if c \<in> set (CHR 0x5C # CHR 0x22 # ''/:*?<>|'') then CHR ''_'' else c) name"

text \<open>
  What \<open>Configure\<close> reads from the configuration: the result of reading its own section, the display
  capacity if that key is set (an error or a value), the journal name if set, and the bucket or
  container name with its prefix from the storage sections (\<open>None\<close> when reading one fails).
\<close>

record st_config =
  cfg_section :: "(int \<times> bool) option"
  cfg_display :: "int option option"
  cfg_journal :: "string option"
  cfg_s3 :: "(string \<times> string) option"
  cfg_azure :: "(string \<times> string) option"

definition journal_name :: "st_config \<Rightarrow> string" where
  "journal_name cfg =
     (case cfg_journal cfg of
        Some name \<Rightarrow> name
      | None \<Rightarrow>
          (case cfg_s3 cfg of
             Some (bucket, pre) \<Rightarrow>
               (let n = SanitizeName (bucket @ ''-'' @ pre) in if n \<noteq> [] then n @ ''.dat'' else ''mount_size.dat'')
           | None \<Rightarrow>
               (case cfg_azure cfg of
                  Some (container, pre) \<Rightarrow>
                    (let n = SanitizeName (container @ ''-'' @ pre) in if n \<noteq> [] then n @ ''.dat'' else ''mount_size.dat'')
                | None \<Rightarrow> ''mount_size.dat'')))"

text \<open>
  The capacity part of \<open>Configure\<close>. An explicit display capacity of zero makes the integer division
  panic.
\<close>

definition configure_capacity :: "int \<Rightarrow> int option option \<Rightarrow> SizeTracker \<Rightarrow> SizeTracker option" where
  "configure_capacity capacity display st =
     (if capacity = 0 then Some st
      else
        let total = wrapu64 (capacity * MbToBytes);
            shown = (case display of Some (Some mb) \<Rightarrow> wrapu64 (mb * MbToBytes) | _ \<Rightarrow> total)
        in if shown = 0 then None
           else Some (st\<lparr>totalBucketCapacity := total, displayCapacity := shown,
                         serverCount := wrapu64 (total + shown div 2) div shown\<rparr>))"

text \<open>\<open>Configure\<close> itself; the journal of the chosen name is opened with the given fault, if any.\<close>

definition st_Configure ::
  "st_config \<Rightarrow> sync_fault option \<Rightarrow> int \<Rightarrow> (string \<Rightarrow> string) \<Rightarrow> SizeTracker \<Rightarrow>
     (error option \<times> SizeTracker) option" where
  "st_Configure cfg fault now files st =
     (case cfg_section cfg of
        None \<Rightarrow> Some (Some (Errorf ''SizeTracker: config error [invalid config attributes]''), st)
      | Some (capacity, hard) \<Rightarrow>
          do {
            st1 \<leftarrow> configure_capacity capacity (cfg_display cfg) st;
            let st2 = st1\<lparr>hardLimitEnabled := hard\<rparr>;
            (case fst (CreateSizeJournal fault now (files (journal_name cfg))) of
               Inl e \<Rightarrow> Some (Some e, st2)
             | Inr ms \<Rightarrow> Some (None, st2\<lparr>mountSize := ms\<rparr>))
          })"

section \<open>File operations\<close>

text \<open>The attributes of a path as the next component reports them.\<close>

definition next_attr ::
  "'n component \<Rightarrow> int \<Rightarrow> string \<Rightarrow> 'n \<Rightarrow> ((ObjAttr option \<times> err) \<times> 'n) option" where
  "next_attr nc now name n = GetAttr nc now \<lparr>ga_Name = name, ga_RetrieveMetadata = False\<rparr> n"

definition st_CreateFile :: "'n component \<Rightarrow> (SizeTracker \<times> 'n, CreateFileOptions, Handle option \<times> err) handler" where
  "st_CreateFile nc now options = (\<lambda>(st, n). do {
     ((attr, getAttrErr), n1) \<leftarrow> next_attr nc now (cf_Name options) n;
     ((handle, err), n2) \<leftarrow> CreateFile nc now options n1;
     if err = None \<and> getAttrErr = None
     then do { sz \<leftarrow> map_option a_Size attr; Some ((handle, err), (st_Add (wrap64 (- sz)) st, n2)) }
     else Some ((handle, err), (st, n2))
   })"

definition st_DeleteFile :: "'n component \<Rightarrow> (SizeTracker \<times> 'n, NameOptions, err) handler" where
  "st_DeleteFile nc now options = (\<lambda>(st, n). do {
     ((attr, getAttrErr), n1) \<leftarrow> next_attr nc now (opt_Name options) n;
     (err, n2) \<leftarrow> DeleteFile nc now options n1;
     if err = None \<and> getAttrErr = None
     then do { sz \<leftarrow> map_option a_Size attr; Some (err, (st_Add (wrap64 (- sz)) st, n2)) }
     else Some (err, (st, n2))
   })"

definition st_RenameFile :: "'n component \<Rightarrow> (SizeTracker \<times> 'n, RenameFileOptions, err) handler" where
  "st_RenameFile nc now options = (\<lambda>(st, n). do {
     ((dstAttr, dstErr), n1) \<leftarrow> next_attr nc now (rf_Dst options) n;
     (err, n2) \<leftarrow> RenameFile nc now options n1;
     if dstErr = None \<and> err = None
     then do { sz \<leftarrow> map_option a_Size dstAttr; Some (err, (st_Add (wrap64 (- sz)) st, n2)) }
     else Some (err, (st, n2))
   })"

definition checkCapacityDelta :: "SizeTracker \<Rightarrow> int \<Rightarrow> err" where
  "checkCapacityDelta st delta =
     (if \<not> hardLimitEnabled st \<or> totalBucketCapacity st = 0 \<or> delta \<le> 0 then None
      else
        let current = ms_GetSize (mountSize st) in
        if current \<ge> totalBucketCapacity st then Some (Errno ENOSPC)
        else
          let remaining = wrapu64 (totalBucketCapacity st - current) in
          if wrapu64 delta > remaining then Some (Errno ENOSPC) else None)"

text \<open>The size an attribute lookup gives, zero when it failed.\<close>

definition size_or_zero :: "ObjAttr option \<times> err \<Rightarrow> int option" where
  "size_or_zero r = (case r of (attr, e) \<Rightarrow> if e = None then map_option a_Size attr else Some 0)"

definition st_WriteFile :: "'n component \<Rightarrow> (SizeTracker \<times> 'n, WriteFileOptions, int \<times> err) handler" where
  "st_WriteFile nc now options = (\<lambda>(st, n). do {
     (r, n1) \<leftarrow> next_attr nc now (h_Path (wf_Handle options)) n;
     oldSize \<leftarrow> size_or_zero r;
     let newSize = max oldSize (wrap64 (wf_Offset options + int (length (wf_Data options))));
     let diff = wrap64 (newSize - oldSize);
     case checkCapacityDelta st diff of
       Some e \<Rightarrow> Some ((0, Some e), (st, n1))
     | None \<Rightarrow> do {
         ((bytesWritten, err), n2) \<leftarrow> WriteFile nc now options n1;
         if err \<noteq> None then Some ((bytesWritten, err), (st, n2))
         else Some ((bytesWritten, None), (st_Add diff st, n2))
       }
   })"

definition st_TruncateFile :: "'n component \<Rightarrow> (SizeTracker \<times> 'n, TruncateFileOptions, err) handler" where
  "st_TruncateFile nc now options = (\<lambda>(st, n). do {
     (r, n1) \<leftarrow> next_attr nc now (tf_Name options) n;
     origSize \<leftarrow> size_or_zero r;
     case checkCapacityDelta st (wrap64 (tf_NewSize options - origSize)) of
       Some e \<Rightarrow> Some (Some e, (st, n1))
     | None \<Rightarrow> do {
         (err, n2) \<leftarrow> TruncateFile nc now options n1;
         if err \<noteq> None then Some (err, (st, n2))
         else Some (None, (st_Add (wrap64 (tf_NewSize options - origSize)) st, n2))
       }
   })"

text \<open>When the local file cannot be stat'ed the copy goes on without a check and without counting.\<close>

definition st_CopyFromFile :: "'n component \<Rightarrow> (SizeTracker \<times> 'n, CopyFromFileOptions, err) handler" where
  "st_CopyFromFile nc now options = (\<lambda>(st, n). do {
     (r, n1) \<leftarrow> next_attr nc now (cp_Name options) n;
     origSize \<leftarrow> size_or_zero r;
     let stat = lf_Stat (cp_File options);
     case (case stat of Inr (fsz, _) \<Rightarrow> checkCapacityDelta st (wrap64 (fsz - origSize)) | Inl _ \<Rightarrow> None) of
       Some e \<Rightarrow> Some (Some e, (st, n1))
     | None \<Rightarrow> do {
         (err, n2) \<leftarrow> CopyFromFile nc now options n1;
         if err \<noteq> None then Some (err, (st, n2))
         else (case stat of
                 Inr (fsz, _) \<Rightarrow> Some (None, (st_Add (wrap64 (fsz - origSize)) st, n2))
               | Inl _ \<Rightarrow> Some (None, (st, n2)))
       }
   })"

definition st_CommitData :: "'n component \<Rightarrow> (SizeTracker \<times> 'n, CommitDataOptions, err) handler" where
  "st_CommitData nc now options = (\<lambda>(st, n). do {
     (r, n1) \<leftarrow> next_attr nc now (cd_CommitName options) n;
     origSize \<leftarrow> size_or_zero r;
     (err, n2) \<leftarrow> CommitData nc now options n1;
     if err \<noteq> None then Some (err, (st, n2))
     else do {
       (r', n3) \<leftarrow> next_attr nc now (cd_CommitName options) n2;
       newSize \<leftarrow> size_or_zero r';
       Some (None, (st_Add (wrap64 (newSize - origSize)) st, n3))
     }
   })"

definition st_CreateLink :: "'n component \<Rightarrow> (SizeTracker \<times> 'n, CreateLinkOptions, err) handler" where
  "st_CreateLink nc now options = (\<lambda>(st, n). do {
     (r, n1) \<leftarrow> next_attr nc now (cl_Name options) n;
     origSize \<leftarrow> size_or_zero r;
     (err, n2) \<leftarrow> CreateLink nc now options n1;
     if err \<noteq> None then Some (err, (st, n2))
     else Some (None, (st_Add (wrap64 (int (length (cl_Target options)) - origSize)) st, n2))
   })"

section \<open>Reported usage\<close>

fun updateState :: "rat \<Rightarrow> EvictionMode \<times> int \<Rightarrow> EvictionMode \<times> int" where
  "updateState f (Normal, servers) =
     (if f > overuseThreshold then (Overuse, servers) else (Normal, servers))"
| "updateState f (Overuse, servers) =
     (if f < bucketNormalizedThreshold then (Normal, servers)
      else if f > emergencyThreshold then (Emergency, wrapu64 (servers + 1))
      else (Overuse, servers))"
| "updateState f (Emergency, servers) =
     (if f < bucketNormalizedThreshold then (Normal, servers) else (Emergency, servers))"

text \<open>The mode after a series of readings.\<close>

definition readings :: "rat list \<Rightarrow> EvictionMode \<times> int \<Rightarrow> EvictionMode \<times> int" where
  "readings fs s = fold updateState fs s"

lemma updateState_Normal:
  "fst (updateState f (m, k)) = Normal \<longleftrightarrow>
     (if m = Normal then f \<le> overuseThreshold else f < bucketNormalizedThreshold)"
  by (cases m) auto

text \<open>
  The mode has the hysteresis its thresholds promise: after a series of readings it is off
  \<open>Normal\<close> exactly when some reading passed 92 percent and no later one fell below 88 percent.
\<close>

theorem mode_hysteresis:
  "fst (readings fs (Normal, k)) \<noteq> Normal \<longleftrightarrow>
     (\<exists>xs f ys. fs = xs @ f # ys \<and> 92 / 100 < f \<and> (\<forall>g \<in> set ys. 88 / 100 \<le> g))"
proof (induction fs rule: rev_induct)
  case Nil
  then show ?case by (simp add: readings_def)
next
  case (snoc g fs)
  obtain m k' where m: "readings fs (Normal, k) = (m, k')" by fastforce
  have step: "readings (fs @ [g]) (Normal, k) = updateState g (m, k')"
    using m by (simp add: readings_def)
  have over: "overuseThreshold = 92 / 100" and norm: "bucketNormalizedThreshold = 88 / 100"
    by (simp_all add: thresholds)
  let ?trig = "\<lambda>fs. \<exists>xs f ys. fs = xs @ f # ys \<and> 92 / 100 < f \<and> (\<forall>g \<in> set ys. 88 / 100 \<le> g)"
  have trig: "?trig (fs @ [g]) \<longleftrightarrow> 92 / 100 < g \<or> (?trig fs \<and> 88 / 100 \<le> g)"
  proof
    assume "?trig (fs @ [g])"
    then obtain xs f ys where *: "fs @ [g] = xs @ f # ys" "92 / 100 < f" "\<forall>g \<in> set ys. 88 / 100 \<le> g"
      by blast
    show "92 / 100 < g \<or> (?trig fs \<and> 88 / 100 \<le> g)"
    proof (cases ys rule: rev_cases)
      case (snoc ys' y)
      with * have "fs = xs @ f # ys'" "y = g" by auto
      with * snoc show ?thesis by auto
    qed (use * in auto)
  next
    assume "92 / 100 < g \<or> (?trig fs \<and> 88 / 100 \<le> g)"
    then show "?trig (fs @ [g])"
    proof
      assume "?trig fs \<and> 88 / 100 \<le> g"
      then obtain xs f ys where "fs = xs @ f # ys" "92 / 100 < f" "\<forall>h \<in> set (ys @ [g]). 88 / 100 \<le> h"
        by auto
      then show ?thesis by (intro exI [of _ xs] exI [of _ f] exI [of _ "ys @ [g]"]) simp
    qed force
  qed
  have "?trig fs \<longleftrightarrow> m \<noteq> Normal" using snoc.IH m by simp
  then show ?case
    unfolding step updateState_Normal over norm trig by (cases "m = Normal") auto
qed

theorem mode_hysteresis_witness: "fst (readings [5 / 10, 95 / 100, 9 / 10] (Normal, 1)) \<noteq> Normal"
proof -
  have "[5 / 10, 95 / 100, 9 / 10] = [5 / 10] @ (95 / 100 :: rat) # [9 / 10]" by simp
  moreover have "\<forall>g \<in> set [9 / 10 :: rat]. 88 / 100 \<le> g" by simp
  moreover have "92 / 100 < (95 / 100 :: rat)" by simp
  ultimately show ?thesis unfolding mode_hysteresis by blast
qed

text \<open>
  The offset for the mode the machine is in after the update. The server count read for the intended
  capacity is the one before the update; when it is zero the \<open>float64\<close> quotient is infinite and the
  offset minus infinity, which the caller cuts off at zero.
\<close>

definition size_offset :: "SizeTracker \<Rightarrow> EvictionMode \<Rightarrow> int \<Rightarrow> rat" where
  "size_offset st mode usage =
     (let nxEvictionThreshold = targetUtilization * of_int (displayCapacity st);
          intendedCapacity = of_int (totalBucketCapacity st) / of_int (serverCount st)
      in if serverCount st = 0 \<and> mode \<noteq> Emergency then 0
         else case mode of
           Normal \<Rightarrow> nxEvictionThreshold - targetUtilization * intendedCapacity
         | Overuse \<Rightarrow> nxEvictionThreshold - (bucketNormalizedThreshold - hysteresisMargin) * intendedCapacity
         | Emergency \<Rightarrow> of_int usage - of_int (ms_GetSize (mountSize st)))"

definition update_usage :: "int \<Rightarrow> SizeTracker \<Rightarrow> SizeTracker" where
  "update_usage returned st =
     (if returned = bucketUsage st then st
      else
        case updateState (of_int returned / of_int (totalBucketCapacity st)) (evictionMode st, serverCount st) of
          (mode, servers) \<Rightarrow>
            st\<lparr>bucketUsage := returned, evictionMode := mode, serverCount := servers,
               statSizeOffset := \<lfloor>max 0 (size_offset st mode returned)\<rfloor>\<rparr>)"

definition tracker_statfs :: "int \<Rightarrow> Statfs_t" where
  "tracker_statfs blocks = \<lparr>st_Bsize = st_blockSize, st_Blocks = blocks, st_Bfree = 0, st_Bavail = 0,
     st_Files = 1000000000, st_Ffree = 1000000000, st_Frsize = st_blockSize, st_Flags = 0, st_Namemax = 255\<rparr>"

definition st_StatFs :: "'n component \<Rightarrow> (SizeTracker \<times> 'n, unit, Statfs_t option \<times> bool \<times> err) handler" where
  "st_StatFs nc now u = (\<lambda>(st, n).
     let blocks = ms_GetSize (mountSize st) div st_blockSize in
     if totalBucketCapacity st = 0 then Some ((Some (tracker_statfs blocks), True, None), (st, n))
     else do {
       ((stat, ret, err), n1) \<leftarrow> StatFs nc now u n;
       st1 \<leftarrow> (if err = None \<and> ret
              then map_option (\<lambda>x. update_usage (wrapu64 (st_Blocks x * st_blockSize)) st) stat
              else Some st);
       Some ((Some (tracker_statfs (wrapu64 (blocks + statSizeOffset st1 div st_blockSize))), True, None),
             (st1, n1))
     })"

section \<open>The component\<close>

definition size_tracker_component :: "'n component \<Rightarrow> (SizeTracker \<times> 'n) component" where
  "size_tracker_component nc = (component_below nc)\<lparr>
     CreateFile := st_CreateFile nc, DeleteFile := st_DeleteFile nc, RenameFile := st_RenameFile nc,
     WriteFile := st_WriteFile nc, TruncateFile := st_TruncateFile nc,
     CopyFromFile := st_CopyFromFile nc, StatFs := st_StatFs nc, CommitData := st_CommitData nc,
     CreateLink := st_CreateLink nc\<rparr>"

end
