(* ===== verification/Size_Accounting.thy ===== *)
theory Size_Accounting
  imports Size_Tracker
begin

text \<open>
  What the size tracker promises: over any storage whose operations change its stored bytes the way
  their attributes say, the tracked size is always the number of bytes stored, and with the hard limit
  on it does not pass the capacity. The storage's contract is the locale \<open>sized_store\<close>; the loopback
  component discharges it.
\<close>

section \<open>Requests\<close>

datatype st_request =
    RCreate CreateFileOptions
  | RDelete NameOptions
  | RRename RenameFileOptions
  | RWrite WriteFileOptions
  | RTruncate TruncateFileOptions
  | RCopy CopyFromFileOptions
  | RLink CreateLinkOptions

text \<open>A request served by a component, keeping the error only.\<close>

definition err_only :: "(('a \<times> err) \<times> 's) option \<Rightarrow> (err \<times> 's) option" where
  "err_only r = map_option (\<lambda>((a, e), s). (e, s)) r"

fun serve :: "'s component \<Rightarrow> int \<Rightarrow> st_request \<Rightarrow> 's \<Rightarrow> (err \<times> 's) option" where
  "serve c now (RCreate o1) s = err_only (CreateFile c now o1 s)"
| "serve c now (RDelete o1) s = DeleteFile c now o1 s"
| "serve c now (RRename o1) s = RenameFile c now o1 s"
| "serve c now (RWrite o1) s = err_only (WriteFile c now o1 s)"
| "serve c now (RTruncate o1) s = TruncateFile c now o1 s"
| "serve c now (RCopy o1) s = CopyFromFile c now o1 s"
| "serve c now (RLink o1) s = CreateLink c now o1 s"

fun subject :: "st_request \<Rightarrow> string" where
  "subject (RCreate o1) = cf_Name o1"
| "subject (RDelete o1) = opt_Name o1"
| "subject (RRename o1) = rf_Dst o1"
| "subject (RWrite o1) = h_Path (wf_Handle o1)"
| "subject (RTruncate o1) = tf_Name o1"
| "subject (RCopy o1) = cp_Name o1"
| "subject (RLink o1) = cl_Name o1"

definition copied_size :: "CopyFromFileOptions \<Rightarrow> int" where
  "copied_size o1 = (case lf_Stat (cp_File o1) of Inr (sz, _) \<Rightarrow> sz | Inl _ \<Rightarrow> 0)"

text \<open>The size of the subject after a request that succeeds, from its size before.\<close>

fun size_after :: "st_request \<Rightarrow> int \<Rightarrow> int" where
  "size_after (RCreate o1) sz = 0"
| "size_after (RDelete o1) sz = 0"
| "size_after (RRename o1) sz = 0"
| "size_after (RWrite o1) sz = max sz (wf_Offset o1 + int (length (wf_Data o1)))"
| "size_after (RTruncate o1) sz = tf_NewSize o1"
| "size_after (RCopy o1) sz = copied_size o1"
| "size_after (RLink o1) sz = int (length (cl_Target o1))"

text \<open>What every request must satisfy for sizes to be meaningful at all.\<close>

fun well_formed :: "st_request \<Rightarrow> bool" where
  "well_formed (RWrite o1) \<longleftrightarrow> 0 \<le> wf_Offset o1"
| "well_formed (RTruncate o1) \<longleftrightarrow> in_int64 (tf_NewSize o1)"
| "well_formed (RCopy o1) \<longleftrightarrow> (\<exists>sz r. lf_Stat (cp_File o1) = Inr (sz, r) \<and> 0 \<le> sz)"
| "well_formed _ \<longleftrightarrow> True"

section \<open>The contract\<close>

text \<open>
  \<open>total\<close> is the number of bytes stored, \<open>fsize\<close> what a path contributes to it, \<open>legal\<close> the
  requests the upper layers send. A lookup tells the contribution and changes nothing; a legal request
  returns, keeps the invariant, and changes the total by the change of its subject's size if it
  succeeds, not at all if it fails. (A rename moves its source's bytes and loses the destination's.)
\<close>

locale sized_store =
  fixes nc :: "'n component"
    and inv :: "'n \<Rightarrow> bool"
    and total :: "'n \<Rightarrow> int"
    and fsize :: "'n \<Rightarrow> string \<Rightarrow> int"
    and legal :: "'n \<Rightarrow> st_request \<Rightarrow> bool"
  assumes fsize_range: "inv n \<Longrightarrow> 0 \<le> fsize n p \<and> fsize n p \<le> total n"
    and legal_wf: "legal n r \<Longrightarrow> well_formed r"
    and attr: "inv n \<Longrightarrow> legal n r \<Longrightarrow>
      \<exists>x. next_attr nc now (subject r) n = Some (x, n) \<and> size_or_zero x = Some (fsize n (subject r)) \<and>
          (snd x \<noteq> None \<longrightarrow> fsize n (subject r) = 0)"
    and served: "inv n \<Longrightarrow> legal n r \<Longrightarrow>
      \<exists>e n'. serve nc now r n = Some (e, n') \<and> inv n' \<and>
         total n' = total n +
           (if e = None then size_after r (fsize n (subject r)) - fsize n (subject r) else 0)"

text \<open>The tracker's size is the store's, and the base is not out of range.\<close>

definition counted :: "('n \<Rightarrow> int) \<Rightarrow> SizeTracker \<times> 'n \<Rightarrow> bool" where
  "counted tot = (\<lambda>(st, n).
     0 \<le> ms_size (mountSize st) \<and> ms_size (mountSize st) < 2 ^ 63 \<and>
     in_int64 (ms_pendingDelta (mountSize st)) \<and>
     ms_size (mountSize st) + ms_pendingDelta (mountSize st) = tot n)"

lemma counted_GetSize:
  assumes "counted tot (st, n)" and "0 \<le> tot n" and "tot n < 2 ^ 63"
  shows "ms_GetSize (mountSize st) = tot n"
  using assms apply_delta_eq [of "ms_size (mountSize st)" "ms_pendingDelta (mountSize st)"]
  by (auto simp: counted_def ms_GetSize_def in_uint64_def)

lemma counted_Add:
  assumes "counted tot (st, n)" and "0 \<le> tot n'" and "tot n' < 2 ^ 63"
    and "tot n' = tot n + d"
  shows "counted tot (st_Add d st, n')"
proof -
  from assms have "in_int64 (ms_pendingDelta (mountSize st) + d)"
    by (auto simp: counted_def in_int64_def)
  with assms show ?thesis by (simp add: counted_def st_Add_def ms_Add_def wrap64_id)
qed

lemma counted_same: "counted tot (st, n) \<Longrightarrow> tot n' = tot n \<Longrightarrow> counted tot (st, n')"
  by (simp add: counted_def)

definition capacity_free :: "SizeTracker \<Rightarrow> SizeTracker \<Rightarrow> bool" where
  "capacity_free st st' \<longleftrightarrow> totalBucketCapacity st' = totalBucketCapacity st \<and>
     hardLimitEnabled st' = hardLimitEnabled st"

lemma capacity_free_simps [simp]: "capacity_free st st" "capacity_free st (st_Add d st)"
  by (simp_all add: capacity_free_def st_Add_def)

lemma capacity_check_passed:
  assumes "checkCapacityDelta st d = None" and "hardLimitEnabled st" and "totalBucketCapacity st \<noteq> 0"
    and "in_uint64 (totalBucketCapacity st)" and "in_int64 d" and "0 \<le> ms_GetSize (mountSize st)"
  shows "d \<le> 0 \<or> ms_GetSize (mountSize st) + d \<le> totalBucketCapacity st"
proof (cases "d \<le> 0")
  case False
  with assms have lt: "ms_GetSize (mountSize st) < totalBucketCapacity st"
    by (auto simp: checkCapacityDelta_def Let_def split: if_splits)
  have "wrapu64 d = d" using False assms(5) by (simp add: wrapu64_id in_uint64_def in_int64_def)
  moreover have "wrapu64 (totalBucketCapacity st - ms_GetSize (mountSize st))
      = totalBucketCapacity st - ms_GetSize (mountSize st)"
    using lt assms(4,6) by (simp add: wrapu64_id in_uint64_def)
  ultimately show ?thesis
    using False assms lt by (auto simp: checkCapacityDelta_def Let_def split: if_splits)
qed simp

text \<open>Requests whose growth the tracker checks against the capacity.\<close>

fun checked :: "st_request \<Rightarrow> bool" where
  "checked (RLink o1) = False"
| "checked _ = True"

fun all_checked :: "(int \<times> st_request) list \<Rightarrow> bool" where
  "all_checked [] = True"
| "all_checked ((now, r) # rs) = (checked r \<and> all_checked rs)"

definition within_limit :: "SizeTracker \<Rightarrow> int \<Rightarrow> int \<Rightarrow> bool" where
  "within_limit st before after \<longleftrightarrow>
     (hardLimitEnabled st \<and> totalBucketCapacity st \<noteq> 0 \<and> in_uint64 (totalBucketCapacity st) \<longrightarrow>
      after \<le> before \<or> after \<le> totalBucketCapacity st)"

text \<open>
  A sequence of requests, each with its clock reading. \<open>legal_run\<close> follows the run: every request is
  legal where it is made, and the store never reaches \<open>2 ^ 63\<close> bytes.
\<close>

fun serve_all :: "'s component \<Rightarrow> (int \<times> st_request) list \<Rightarrow> 's \<Rightarrow> 's option" where
  "serve_all c [] s = Some s"
| "serve_all c ((now, r) # rs) s =
     (case serve c now r s of None \<Rightarrow> None | Some (e, s') \<Rightarrow> serve_all c rs s')"

fun legal_run ::
  "('n \<Rightarrow> int) \<Rightarrow> ('n \<Rightarrow> st_request \<Rightarrow> bool) \<Rightarrow> 'n component \<Rightarrow> (int \<times> st_request) list \<Rightarrow>
     SizeTracker \<times> 'n \<Rightarrow> bool" where
  "legal_run tot ok nc [] s = True"
| "legal_run tot ok nc ((now, r) # rs) s =
     (ok (snd s) r \<and>
      (case serve (size_tracker_component nc) now r s of
         None \<Rightarrow> True
       | Some (e, s') \<Rightarrow> tot (snd s') < 2 ^ 63 \<and> legal_run tot ok nc rs s'))"

context sized_store begin

lemma total_nonneg: "inv n \<Longrightarrow> 0 \<le> total n"
  using fsize_range [of n "[]"] by linarith

text \<open>
  One tracked request, given the lookup and the outcome of the request below: the shared part of the
  seven cases.
\<close>

definition tracked :: "int \<Rightarrow> st_request \<Rightarrow> SizeTracker \<times> 'n \<Rightarrow> (err \<times> (SizeTracker \<times> 'n)) option \<Rightarrow> bool" where
  "tracked now r s res \<longleftrightarrow> (\<exists>e st' n'. res = Some (e, (st', n')) \<and> inv n' \<and> capacity_free (fst s) st' \<and>
     (total n' < 2 ^ 63 \<longrightarrow> counted total (st', n') \<and>
        (checked r \<longrightarrow> within_limit (fst s) (total (snd s)) (total n'))))"

lemma trackedI:
  assumes "res = Some (e, (st', n'))" "inv n'" "capacity_free (fst s) st'"
    and "total n' < 2 ^ 63 \<Longrightarrow> counted total (st', n')"
    and "total n' < 2 ^ 63 \<Longrightarrow> checked r \<Longrightarrow> within_limit (fst s) (total (snd s)) (total n')"
  shows "tracked now r s res"
  using assms by (auto simp: tracked_def)

lemma sub_case:
  assumes inv: "inv n" and r: "serve nc now r n = Some (e, n')" and inv': "inv n'"
    and tot: "total n' = total n + (if e = None then size_after r f - f else 0)"
    and f: "f = fsize n (subject r)" and zero: "size_after r f = 0"
    and c: "counted total (st, n)" and b: "total n < 2 ^ 63"
    and found: "size_or_zero x = Some f" "snd x \<noteq> None \<longrightarrow> f = 0"
    and res: "res = (if e = None \<and> snd x = None
      then do { sz \<leftarrow> map_option a_Size (fst x); Some (e, (st_Add (wrap64 (- sz)) st, n')) }
      else Some (e, (st, n')))"
  shows "tracked now r (st, n) res"
proof (cases "e = None \<and> snd x = None")
  case True
  with found obtain a where a: "fst x = Some a" "a_Size a = f"
    by (cases x) (auto simp: size_or_zero_def)
  have "0 \<le> f" "f \<le> total n" using fsize_range [OF inv, of "subject r"] f by auto
  with b have "wrap64 (- f) = - f" by (simp add: wrap64_id in_int64_def)
  with True a res have "res = Some (e, (st_Add (- f) st, n'))" by simp
  moreover have "total n' = total n + - f" using True tot zero by simp
  ultimately show ?thesis
    using inv' c total_nonneg [OF inv'] \<open>0 \<le> f\<close>
    by (intro trackedI [where e = e and st' = "st_Add (- f) st" and n' = n'])
      (auto intro: counted_Add simp: within_limit_def)
next
  case False
  then have "res = Some (e, (st, n'))" using res by auto
  moreover have "total n' = total n" using False tot zero found(2) by auto
  ultimately show ?thesis
    using inv' c by (intro trackedI [where e = e and st' = st and n' = n'])
      (auto intro: counted_same simp: within_limit_def)
qed

lemma grow_case:
  assumes inv: "inv n" and inv': "inv n'"
    and tot: "total n' = total n + (if e = None then d else 0)"
    and c: "counted total (st, n)" and b: "total n < 2 ^ 63"
    and d: "total n + d < 2 ^ 63 \<Longrightarrow> 0 \<le> total n + d \<Longrightarrow> d' = d"
    and lim: "checked r \<Longrightarrow> checkCapacityDelta st d' = None"
    and res: "res = Some (e, (if e = None then st_Add d' st else st, n'))"
  shows "tracked now r (st, n) res"
proof (cases "e = None")
  case True
  have nn: "0 \<le> total n'" "0 \<le> total n" using total_nonneg inv inv' by auto
  show ?thesis
  proof (rule trackedI [where e = e and st' = "st_Add d' st" and n' = n'])
    assume lt: "total n' < 2 ^ 63"
    then have dd: "d' = d" using d tot True nn by simp
    then show "counted total (st_Add d' st, n')"
      using c nn lt tot True by (intro counted_Add) auto
    assume "checked r"
    then have "checkCapacityDelta st d = None" using lim dd by simp
    moreover have "in_int64 d" using tot True nn lt b by (simp add: in_int64_def)
    ultimately show "within_limit (fst (st, n)) (total (snd (st, n))) (total n')"
      using capacity_check_passed [of st d] counted_GetSize [OF c nn(2) b] nn tot True
      by (auto simp: within_limit_def)
  qed (use res True inv' in auto)
next
  case False
  with tot res inv' c show ?thesis
    by (intro trackedI [where e = e and st' = st and n' = n'])
      (auto intro: counted_same simp: within_limit_def)
qed

lemma refused_case:
  "inv n \<Longrightarrow> counted total (st, n) \<Longrightarrow> tracked now r (st, n) (Some (e, (st, n)))"
  by (rule trackedI [where st' = st and n' = n]) (auto simp: within_limit_def)

lemma served_pieces:
  assumes "inv n" "legal n r" "total n < 2 ^ 63"
  obtains x f e n' where "next_attr nc now (subject r) n = Some (x, n)" "size_or_zero x = Some f"
    "snd x \<noteq> None \<longrightarrow> f = 0" "f = fsize n (subject r)" "serve nc now r n = Some (e, n')" "inv n'"
    "total n' = total n + (if e = None then size_after r f - f else 0)"
    "0 \<le> f" "f \<le> total n" "in_int64 f"
proof -
  from attr [OF assms(1,2), of now] obtain x where
    x: "next_attr nc now (subject r) n = Some (x, n)" "size_or_zero x = Some (fsize n (subject r))"
      "snd x \<noteq> None \<longrightarrow> fsize n (subject r) = 0" by blast
  from served [OF assms(1,2), of now] obtain e n' where
    e: "serve nc now r n = Some (e, n')" "inv n'"
      "total n' = total n +
         (if e = None then size_after r (fsize n (subject r)) - fsize n (subject r) else 0)" by blast
  show ?thesis
    using fsize_range [OF assms(1), of "subject r"] assms(3)
    by (intro that [OF x refl e]) (auto simp: in_int64_def)
qed

lemma tracked_delta:
  assumes "total n + (v - f) < 2 ^ 63" "0 \<le> total n + (v - f)" "0 \<le> f" "f \<le> total n" "total n < 2 ^ 63"
  shows "wrap64 (v - f) = v - f"
  using assms by (intro wrap64_id) (auto simp: in_int64_def)

lemmas tracker_ops = size_tracker_component_def component_below_def Let_def

lemma tracked_RCreate:
  assumes "inv n" "legal n (RCreate o1)" "counted total (st, n)" "total n < 2 ^ 63"
  shows "tracked now (RCreate o1) (st, n) (serve (size_tracker_component nc) now (RCreate o1) (st, n))"
proof (rule served_pieces [OF assms(1,2,4), of now])
  fix x f e n'
  assume *: "next_attr nc now (subject (RCreate o1)) n = Some (x, n)" "size_or_zero x = Some f"
    "snd x \<noteq> None \<longrightarrow> f = 0" "f = fsize n (subject (RCreate o1))"
    "serve nc now (RCreate o1) n = Some (e, n')" "inv n'"
    "total n' = total n + (if e = None then size_after (RCreate o1) f - f else 0)"
  from *(5) obtain h where "CreateFile nc now o1 n = Some ((h, e), n')"
    by (auto simp: err_only_def)
  then show ?thesis
    using *(1) by (intro sub_case [OF assms(1) *(5,6,7,4) _ assms(3,4) *(2,3)])
      (auto simp: tracker_ops st_CreateFile_def err_only_def split: prod.splits Option.bind_splits)
qed

lemma tracked_RDelete:
  assumes "inv n" "legal n (RDelete o1)" "counted total (st, n)" "total n < 2 ^ 63"
  shows "tracked now (RDelete o1) (st, n) (serve (size_tracker_component nc) now (RDelete o1) (st, n))"
proof (rule served_pieces [OF assms(1,2,4), of now])
  fix x f e n'
  assume *: "next_attr nc now (subject (RDelete o1)) n = Some (x, n)" "size_or_zero x = Some f"
    "snd x \<noteq> None \<longrightarrow> f = 0" "f = fsize n (subject (RDelete o1))"
    "serve nc now (RDelete o1) n = Some (e, n')" "inv n'"
    "total n' = total n + (if e = None then size_after (RDelete o1) f - f else 0)"
  then show ?thesis
    by (intro sub_case [OF assms(1) *(5,6,7,4) _ assms(3,4) *(2,3)])
      (auto simp: tracker_ops st_DeleteFile_def split: prod.splits)
qed

lemma tracked_RRename:
  assumes "inv n" "legal n (RRename o1)" "counted total (st, n)" "total n < 2 ^ 63"
  shows "tracked now (RRename o1) (st, n) (serve (size_tracker_component nc) now (RRename o1) (st, n))"
proof (rule served_pieces [OF assms(1,2,4), of now])
  fix x f e n'
  assume *: "next_attr nc now (subject (RRename o1)) n = Some (x, n)" "size_or_zero x = Some f"
    "snd x \<noteq> None \<longrightarrow> f = 0" "f = fsize n (subject (RRename o1))"
    "serve nc now (RRename o1) n = Some (e, n')" "inv n'"
    "total n' = total n + (if e = None then size_after (RRename o1) f - f else 0)"
  then show ?thesis
    by (intro sub_case [OF assms(1) *(5,6,7,4) _ assms(3,4) *(2,3)])
      (auto simp: tracker_ops st_RenameFile_def split: prod.splits)
qed

lemma tracked_RWrite:
  assumes "inv n" "legal n (RWrite o1)" "counted total (st, n)" "total n < 2 ^ 63"
  shows "tracked now (RWrite o1) (st, n) (serve (size_tracker_component nc) now (RWrite o1) (st, n))"
proof (rule served_pieces [OF assms(1,2,4), of now])
  fix x f e n'
  assume *: "next_attr nc now (subject (RWrite o1)) n = Some (x, n)" "size_or_zero x = Some f"
    "snd x \<noteq> None \<longrightarrow> f = 0" "f = fsize n (subject (RWrite o1))"
    "serve nc now (RWrite o1) n = Some (e, n')" "inv n'"
    "total n' = total n + (if e = None then size_after (RWrite o1) f - f else 0)"
    "0 \<le> f" "f \<le> total n" "in_int64 f"
  let ?v = "wf_Offset o1 + int (length (wf_Data o1))"
  let ?d' = "wrap64 (max f (wrap64 ?v) - f)"
  from *(5) obtain b where b: "WriteFile nc now o1 n = Some ((b, e), n')"
    by (auto simp: err_only_def)
  have d: "?d' = max f ?v - f" if "total n + (max f ?v - f) < 2 ^ 63"
  proof -
    have "0 \<le> ?v" using legal_wf [OF assms(2)] by simp
    moreover have "?v < 2 ^ 63" using that *(8,9) by (auto simp: max_def split: if_splits)
    ultimately have "wrap64 ?v = ?v" by (intro wrap64_id) (simp add: in_int64_def)
    with that *(8,9) assms(4) show ?thesis by (simp add: tracked_delta [of n "max f ?v" f])
  qed
  show ?thesis
  proof (cases "checkCapacityDelta st ?d'")
    case None
    show ?thesis
      by (rule grow_case [where e = e, OF assms(1) *(6) _ assms(3,4) d])
        (use *(1,2,7) b None in \<open>auto simp: tracker_ops st_WriteFile_def err_only_def\<close>)
  next
    case (Some e')
    then show ?thesis
      using *(1,2) refused_case [OF assms(1,3)]
      by (simp add: tracker_ops st_WriteFile_def err_only_def)
  qed
qed

lemma tracked_RTruncate:
  assumes "inv n" "legal n (RTruncate o1)" "counted total (st, n)" "total n < 2 ^ 63"
  shows "tracked now (RTruncate o1) (st, n) (serve (size_tracker_component nc) now (RTruncate o1) (st, n))"
proof (rule served_pieces [OF assms(1,2,4), of now])
  fix x f e n'
  assume *: "next_attr nc now (subject (RTruncate o1)) n = Some (x, n)" "size_or_zero x = Some f"
    "snd x \<noteq> None \<longrightarrow> f = 0" "f = fsize n (subject (RTruncate o1))"
    "serve nc now (RTruncate o1) n = Some (e, n')" "inv n'"
    "total n' = total n + (if e = None then size_after (RTruncate o1) f - f else 0)"
    "0 \<le> f" "f \<le> total n" "in_int64 f"
  let ?v = "tf_NewSize o1"
  have d: "wrap64 (?v - f) = ?v - f" if "total n + (?v - f) < 2 ^ 63" "0 \<le> total n + (?v - f)"
    using that *(8,9) assms(4) by (rule tracked_delta)
  show ?thesis
  proof (cases "checkCapacityDelta st (wrap64 (?v - f))")
    case None
    show ?thesis
      by (rule grow_case [where e = e, OF assms(1) *(6) _ assms(3,4) d])
        (use *(1,2,5,7) None in \<open>auto simp: tracker_ops st_TruncateFile_def\<close>)
  next
    case (Some e')
    then show ?thesis
      using *(1,2) refused_case [OF assms(1,3)]
      by (simp add: tracker_ops st_TruncateFile_def)
  qed
qed

lemma tracked_RCopy:
  assumes "inv n" "legal n (RCopy o1)" "counted total (st, n)" "total n < 2 ^ 63"
  shows "tracked now (RCopy o1) (st, n) (serve (size_tracker_component nc) now (RCopy o1) (st, n))"
proof (rule served_pieces [OF assms(1,2,4), of now])
  fix x f e n'
  assume *: "next_attr nc now (subject (RCopy o1)) n = Some (x, n)" "size_or_zero x = Some f"
    "snd x \<noteq> None \<longrightarrow> f = 0" "f = fsize n (subject (RCopy o1))"
    "serve nc now (RCopy o1) n = Some (e, n')" "inv n'"
    "total n' = total n + (if e = None then size_after (RCopy o1) f - f else 0)"
    "0 \<le> f" "f \<le> total n" "in_int64 f"
  from legal_wf [OF assms(2)] obtain sz r where sz: "lf_Stat (cp_File o1) = Inr (sz, r)" by auto
  then have after: "copied_size o1 = sz" by (simp add: copied_size_def)
  let ?v = sz
  have d: "wrap64 (?v - f) = ?v - f" if "total n + (?v - f) < 2 ^ 63" "0 \<le> total n + (?v - f)"
    using that *(8,9) assms(4) by (rule tracked_delta)
  show ?thesis
  proof (cases "checkCapacityDelta st (wrap64 (?v - f))")
    case None
    show ?thesis
      by (rule grow_case [where e = e, OF assms(1) *(6) _ assms(3,4) d])
        (use *(1,2,5,7) None sz after in \<open>auto simp: tracker_ops st_CopyFromFile_def\<close>)
  next
    case (Some e')
    then show ?thesis
      using *(1,2) sz after refused_case [OF assms(1,3)]
      by (simp add: tracker_ops st_CopyFromFile_def)
  qed
qed

lemma tracked_RLink:
  assumes "inv n" "legal n (RLink o1)" "counted total (st, n)" "total n < 2 ^ 63"
  shows "tracked now (RLink o1) (st, n) (serve (size_tracker_component nc) now (RLink o1) (st, n))"
proof (rule served_pieces [OF assms(1,2,4), of now])
  fix x f e n'
  assume *: "next_attr nc now (subject (RLink o1)) n = Some (x, n)" "size_or_zero x = Some f"
    "snd x \<noteq> None \<longrightarrow> f = 0" "f = fsize n (subject (RLink o1))"
    "serve nc now (RLink o1) n = Some (e, n')" "inv n'"
    "total n' = total n + (if e = None then size_after (RLink o1) f - f else 0)"
    "0 \<le> f" "f \<le> total n" "in_int64 f"
  let ?v = "int (length (cl_Target o1))"
  have d: "wrap64 (?v - f) = ?v - f" if "total n + (?v - f) < 2 ^ 63" "0 \<le> total n + (?v - f)"
    using that *(8,9) assms(4) by (rule tracked_delta)
  show ?thesis
    by (rule grow_case [where e = e, OF assms(1) *(6) _ assms(3,4) d])
      (use *(1,2,5,7) in \<open>auto simp: tracker_ops st_CreateLink_def\<close>)
qed

theorem tracked_serve:
  assumes "inv n" "legal n r" "counted total (st, n)" "total n < 2 ^ 63"
  shows "tracked now r (st, n) (serve (size_tracker_component nc) now r (st, n))"
  using assms
  by (cases r) (simp_all only: tracked_RCreate tracked_RDelete tracked_RRename tracked_RWrite
      tracked_RTruncate tracked_RCopy tracked_RLink)

lemma tracked_run:
  assumes "inv n" "counted total (st, n)" "total n < 2 ^ 63" "legal_run total legal nc rs (st, n)"
  shows "\<exists>st' n'. serve_all (size_tracker_component nc) rs (st, n) = Some (st', n') \<and> inv n' \<and>
    counted total (st', n') \<and> total n' < 2 ^ 63 \<and> capacity_free st st' \<and>
    (all_checked rs \<longrightarrow> within_limit st (total n) (total n'))"
  using assms
proof (induction rs arbitrary: st n)
  case Nil
  then show ?case by (simp add: within_limit_def)
next
  case (Cons q rs)
  obtain now r where q: "q = (now, r)" by (cases q)
  with Cons.prems have "legal n r" by simp
  from tracked_serve [OF Cons.prems(1) this Cons.prems(2,3), of now] obtain e st1 n1 where
    r: "serve (size_tracker_component nc) now r (st, n) = Some (e, st1, n1)" "inv n1" "capacity_free st st1"
    and c: "total n1 < 2 ^ 63 \<longrightarrow> counted total (st1, n1) \<and>
      (checked r \<longrightarrow> within_limit st (total n) (total n1))"
    by (auto simp: tracked_def)
  from Cons.prems(4) q r have l: "total n1 < 2 ^ 63" "legal_run total legal nc rs (st1, n1)" by auto
  from c l have c1: "counted total (st1, n1)" by simp
  from Cons.IH [OF r(2) c1 l] obtain st' n' where
    i: "serve_all (size_tracker_component nc) rs (st1, n1) = Some (st', n')" "inv n'"
      "counted total (st', n')" "total n' < 2 ^ 63" "capacity_free st1 st'"
      "all_checked rs \<longrightarrow> within_limit st1 (total n1) (total n')" by blast
  have "within_limit st (total n) (total n')" if "all_checked (q # rs)"
    using that c l i(6) r(3) q by (auto simp: within_limit_def capacity_free_def)
  moreover have "capacity_free st st'" using r(3) i(5) by (simp add: capacity_free_def)
  ultimately show ?case using q r(1) i by auto
qed

lemma run_exact:
  assumes "inv n" "counted total (st, n)" "total n < 2 ^ 63" "legal_run total legal nc rs (st, n)"
  shows "\<exists>st' n'. serve_all (size_tracker_component nc) rs (st, n) = Some (st', n') \<and>
    ms_GetSize (mountSize st') = total n'"
proof -
  from tracked_run [OF assms] obtain st' n' where
    r: "serve_all (size_tracker_component nc) rs (st, n) = Some (st', n')" "inv n'"
      "counted total (st', n')" "total n' < 2 ^ 63" by blast
  from counted_GetSize [OF r(3) total_nonneg [OF r(2)] r(4)] r(1) show ?thesis by blast
qed

lemma run_within_limit:
  assumes "inv n" "counted total (st, n)" "total n < 2 ^ 63" "legal_run total legal nc rs (st, n)"
    and "all_checked rs" "hardLimitEnabled st" "totalBucketCapacity st \<noteq> 0"
      "in_uint64 (totalBucketCapacity st)"
  shows "\<exists>st' n'. serve_all (size_tracker_component nc) rs (st, n) = Some (st', n') \<and>
    total n' \<le> max (total n) (totalBucketCapacity st)"
proof -
  from tracked_run [OF assms(1-4)] obtain st' n' where
    r: "serve_all (size_tracker_component nc) rs (st, n) = Some (st', n')"
      "all_checked rs \<longrightarrow> within_limit st (total n) (total n')" by blast
  with assms(5-8) have "total n' \<le> total n \<or> total n' \<le> totalBucketCapacity st"
    by (simp only: within_limit_def simp_thms)
  with r(1) show ?thesis by auto
qed

end

end
