(* ===== verification/Loopback_Sizes.thy ===== *)
theory Loopback_Sizes
  imports Size_Accounting
begin

text \<open>
  The loopback component satisfies the size tracker's contract: its stored bytes are the bytes of its
  files, and each operation changes them as \<open>size_after\<close> says. The properties of the size tracker
  follow for the pair of both components.
\<close>

section \<open>The stored bytes of the local directory\<close>

lemma fs_inv_alloc_fd [simp]: "fs_inv (snd (alloc_fd i fs)) = fs_inv fs"
  by (simp add: alloc_fd_def fs_inv_def)

lemma alloc_fd_simps [simp]:
  "fs_total (snd (alloc_fd i fs)) = fs_total fs" "dents (snd (alloc_fd i fs)) = dents fs"
  "inodes (snd (alloc_fd i fs)) = inodes fs" "fst (alloc_fd i fs) = next_fd fs"
  "map_of (open_fds (snd (alloc_fd i fs))) (next_fd fs) = Some i"
  by (simp_all add: alloc_fd_def fs_total_def del: map_of_eq_Some_iff)

lemma path_size_range:
  assumes "fs_inv fs"
  shows "0 \<le> path_size fs p \<and> path_size fs p \<le> fs_total fs"
proof -
  have "0 \<le> fs_total (fs\<lparr>dents := map_remove p (dents fs)\<rparr>)" by (rule fs_total_nonneg)
  with fs_total_remove [OF assms, of p] show ?thesis
    by (auto simp: path_size_def split: option.splits)
qed

lemma os_Remove_total:
  assumes "fs_inv fs"
  shows "fs_inv (snd (os_Remove p fs)) \<and> fs_total (snd (os_Remove p fs)) =
    fs_total fs + (if fst (os_Remove p fs) = None then - path_size fs p else 0)"
  using assms by (auto simp: os_Remove_def fs_inv_remove fs_total_remove split: option.splits)

definition plain_path :: "os_fs \<Rightarrow> string \<Rightarrow> bool" where
  "plain_path fs p = (case node_at fs p of None \<Rightarrow> True | Some nd \<Rightarrow> is_file_node nd)"

lemma plain_path_cases:
  assumes "plain_path fs p"
  obtains "map_of (dents fs) p = None" "path_size fs p = 0"
    | i c m t where "map_of (dents fs) p = Some i" "inodes fs i = FileNode c m t"
        "path_size fs p = int (length c)"
proof (cases "map_of (dents fs) p")
  case None
  then show ?thesis by (intro that(1)) (simp_all add: path_size_def node_at_def)
next
  case (Some i)
  with assms obtain c m t where "inodes fs i = FileNode c m t"
    by (cases "inodes fs i") (auto simp: plain_path_def node_at_def)
  with Some show ?thesis
    by (intro that(2)) (auto simp: path_size_def node_at_def)
qed

lemma resolve_plain:
  assumes "plain_path fs p"
  shows "resolve 40 fs p = Some p"
proof -
  have "resolve (Suc 39) fs p = Some p"
    using assms by (auto simp: plain_path_def simp del: Suc_numeral split: option.splits node.splits)
  then show ?thesis by simp
qed

text \<open>Opening a plain path with create and truncate leaves an empty file, or fails and changes nothing.\<close>

lemma os_OpenFile_create:
  assumes "fs_inv fs" and "plain_path fs p"
  shows "\<exists>r fs'. os_OpenFile now p create_trunc mode fs = (r, fs') \<and> fs_inv fs' \<and>
    (case r of
       Inl e \<Rightarrow> fs' = fs
     | Inr fd \<Rightarrow> fs_total fs' = fs_total fs - path_size fs p \<and>
         (\<exists>i m t. map_of (open_fds fs') fd = Some i \<and> map_of (dents fs') p = Some i \<and>
            inodes fs' i = FileNode [] m t))"
  using assms(2)
proof (cases rule: plain_path_cases)
  case 1
  let ?nd = "FileNode [] (mode AND ModePerm) now"
  have "fs_total (new_entry p ?nd fs) = fs_total fs" "fs_inv (new_entry p ?nd fs)"
    using fs_total_new_entry [OF assms(1) 1(1), of ?nd] fs_inv_new_entry [OF assms(1) 1(1)] by auto
  moreover have "alloc_fd i fs' = (next_fd fs', snd (alloc_fd i fs'))" for i fs'
    by (simp add: alloc_fd_def)
  ultimately show ?thesis
    using 1 assms by (auto simp: os_OpenFile_def resolve_plain new_entry_def alloc_fd_def
        fs_total_def fs_inv_def simp del: map_of_eq_Some_iff)
next
  case (2 i c m t)
  have "fs_total (set_inode i (FileNode [] m now) fs) = fs_total fs - path_size fs p"
    using fs_total_set_inode [OF assms(1) 2(1), of "FileNode [] m now"] 2 by simp
  moreover have "fs_inv (set_inode i (FileNode [] m now) fs)" using assms(1) by simp
  ultimately show ?thesis
    using 2 assms by (auto simp: os_OpenFile_def resolve_plain set_inode_def alloc_fd_def
        fs_total_def fs_inv_def simp del: map_of_eq_Some_iff)
qed

lemma os_Truncate_total:
  assumes "fs_inv fs" and "plain_path fs p"
  shows "\<exists>e fs'. os_Truncate now p n fs = (e, fs') \<and> fs_inv fs' \<and>
    fs_total fs' = fs_total fs + (if e = None then n - path_size fs p else 0)"
  using assms(2)
proof (cases rule: plain_path_cases)
  case 1
  with assms show ?thesis by (auto simp: os_Truncate_def resolve_plain)
next
  case (2 i c m t)
  let ?nd = "FileNode (take (nat n) (c @ replicate (nat n - length c) (CHR 0x00))) m now"
  have "fs_total (set_inode i ?nd fs) = fs_total fs - path_size fs p + stored_size ?nd"
    using fs_total_set_inode [OF assms(1) 2(1), of ?nd] 2 by simp
  moreover have "0 \<le> n \<Longrightarrow> stored_size ?nd = n" by simp
  ultimately show ?thesis using 2 assms by (auto simp: os_Truncate_def resolve_plain)
qed

lemma os_WriteAt_total:
  assumes "fs_inv fs" and "map_of (open_fds fs) fd = Some i" and "map_of (dents fs) p = Some i"
    and "inodes fs i = FileNode c m t" and "0 \<le> off"
  shows "\<exists>fs'. os_WriteAt now fd data off fs = ((int (length data), None), fs') \<and> fs_inv fs' \<and>
    open_fds fs' = open_fds fs \<and>
    fs_total fs' = fs_total fs + (int (length (write_at c (nat off) data)) - path_size fs p)"
proof -
  let ?nd = "FileNode (write_at c (nat off) data) m (if data = [] then t else now)"
  have "path_size fs p = int (length c)" using assms by (simp add: path_size_def node_at_def)
  then show ?thesis
    using fs_total_set_inode [OF assms(1,3), of ?nd] assms
    by (auto simp: os_WriteAt_def set_inode_def fs_inv_def)
qed

lemma fs_Close [simp]:
  "fs_inv (snd (os_Close fd fs)) = fs_inv fs" "fs_total (snd (os_Close fd fs)) = fs_total fs"
  by (simp_all add: os_Close_def fs_inv_def fs_total_def)

lemma os_Symlink_total:
  assumes "fs_inv fs"
  shows "\<exists>e fs'. os_Symlink now target p fs = (e, fs') \<and> fs_inv fs' \<and>
    fs_total fs' = fs_total fs + (if e = None then int (length target) - path_size fs p else 0)"
proof (cases "map_of (dents fs) p")
  case None
  then have "path_size fs p = 0" by (simp add: path_size_def node_at_def)
  with None show ?thesis
    using assms fs_total_new_entry [OF assms None, of "LinkNode target now"]
      fs_inv_new_entry [OF assms None, of "LinkNode target now"]
    by (auto simp: os_Symlink_def)
qed (use assms in \<open>simp add: os_Symlink_def node_at_def\<close>)

text \<open>Renaming a file that is no directory moves its one entry and drops the destination's.\<close>

lemma move_entries:
  assumes "fs_inv fs" and "map_of (dents fs) new = None" and "\<not> has_children fs old" and "old \<noteq> new"
  shows "fs_inv (fs\<lparr>dents := map (\<lambda>(p, i). (move_path old new p, i)) (dents fs)\<rparr>) \<and>
    fs_total (fs\<lparr>dents := map (\<lambda>(p, i). (move_path old new p, i)) (dents fs)\<rparr>) = fs_total fs"
proof -
  let ?f = "\<lambda>p. if p = old then new else p"
  have m: "map (\<lambda>(p, i). (move_path old new p, i)) (dents fs) = map (\<lambda>(p, i). (?f p, i)) (dents fs)"
    using assms(3) by (auto simp: move_path_def has_children_def list_ex_iff)
  have fst: "map fst (map (\<lambda>(p, i). (?f p, i)) (dents fs)) = map ?f (map fst (dents fs))"
    and snd: "map snd (map (\<lambda>(p, i). (?f p, i)) (dents fs)) = map snd (dents fs)"
    by (simp_all add: case_prod_beta comp_def)
  have "inj_on ?f (set (map fst (dents fs)))"
    using assms(2,4) by (auto simp: inj_on_def map_of_None_keys)
  then have d: "distinct (map ?f (map fst (dents fs)))"
    using assms(1) by (subst distinct_map) (simp add: fs_inv_def)
  have sum: "sum_by g (map (\<lambda>(p, i). (?f p, i)) xs) = sum_by g xs" for g and xs :: "(string \<times> nat) list"
    by (induction xs) auto
  have img: "snd ` set (map (\<lambda>(p, i). (?f p, i)) (dents fs)) = snd ` set (dents fs)"
    using snd by (metis image_set)
  define ds where "ds = map (\<lambda>(p, i). (?f p, i)) (dents fs)"
  show ?thesis
    using assms(1) d fst snd sum [of _ "dents fs"] img unfolding m fs_inv_def fs_total_def ds_def [symmetric]
    by simp
qed

lemma os_Rename_total:
  assumes "fs_inv fs" and "\<not> has_children fs old" and "old \<noteq> new"
  shows "\<exists>e fs'. os_Rename old new fs = (e, fs') \<and> fs_inv fs' \<and>
    fs_total fs' = fs_total fs + (if e = None then - path_size fs new else 0)"
proof -
  let ?fs1 = "fs\<lparr>dents := map_remove new (dents fs)\<rparr>"
  have c: "\<not> has_children ?fs1 old" using assms(2) map_remove_subset [of new "dents fs"]
    by (auto simp: has_children_def list_ex_iff)
  have "fs_inv ?fs1" by (rule fs_inv_remove [OF assms(1)])
  note move_entries [OF this _ c assms(3)] fs_total_remove [OF assms(1), of new]
    move_entries [OF assms(1) _ assms(2,3)]
  then show ?thesis
    using assms(1,3)
    by (auto simp: os_Rename_def node_at_def path_size_def simp del: map_of_eq_Some_iff split: option.splits)
qed

section \<open>The contract\<close>

definition lb_inv :: "loopback \<Rightarrow> bool" where
  "lb_inv s \<longleftrightarrow> fs_inv (lb_fs s)"

definition lb_total :: "loopback \<Rightarrow> int" where
  "lb_total s = fs_total (lb_fs s)"

definition lb_fsize :: "loopback \<Rightarrow> string \<Rightarrow> int" where
  "lb_fsize s p = path_size (lb_fs s) (lb_full s p)"

text \<open>A path that names no directory.\<close>

definition no_dir :: "loopback \<Rightarrow> string \<Rightarrow> bool" where
  "no_dir s p = (case node_at (lb_fs s) (lb_full s p) of None \<Rightarrow> True | Some nd \<Rightarrow> \<not> is_dir_node nd)"

text \<open>
  The requests the upper layers send: files are created and copied onto files or new names, files and
  links (never directories) are removed or renamed, to another name; a write has data, goes to a
  non-negative offset and comes with a handle that is open on the file its path names; the local file
  of a copy has the size it reports.
\<close>

fun lb_legal :: "loopback \<Rightarrow> st_request \<Rightarrow> bool" where
  "lb_legal s (RCreate o1) \<longleftrightarrow> plain_path (lb_fs s) (lb_full s (cf_Name o1)) \<and>
     int (length (handles (lb_table s))) < 2 ^ 64"
| "lb_legal s (RDelete o1) \<longleftrightarrow> no_dir s (opt_Name o1)"
| "lb_legal s (RRename o1) \<longleftrightarrow> no_dir s (rf_Dst o1) \<and> \<not> has_children (lb_fs s) (lb_full s (rf_Src o1)) \<and>
     lb_full s (rf_Src o1) \<noteq> lb_full s (rf_Dst o1)"
| "lb_legal s (RWrite o1) \<longleftrightarrow> wf_Data o1 \<noteq> [] \<and> 0 \<le> wf_Offset o1 \<and>
     (case h_FObj (wf_Handle o1) of
        None \<Rightarrow> False
      | Some fd \<Rightarrow>
          (case map_of (open_fds (lb_fs s)) fd of
             None \<Rightarrow> False
           | Some i \<Rightarrow> map_of (dents (lb_fs s)) (lb_full s (h_Path (wf_Handle o1))) = Some i \<and>
               is_file_node (inodes (lb_fs s) i)))"
| "lb_legal s (RTruncate o1) \<longleftrightarrow> plain_path (lb_fs s) (lb_full s (tf_Name o1)) \<and> in_int64 (tf_NewSize o1)"
| "lb_legal s (RCopy o1) \<longleftrightarrow> plain_path (lb_fs s) (lb_full s (cp_Name o1)) \<and>
     (case lf_Stat (cp_File o1) of Inl e \<Rightarrow> False
      | Inr (sz, r) \<Rightarrow> sz = int (length (lf_Content (cp_File o1))))"
| "lb_legal s (RLink o1) \<longleftrightarrow> no_dir s (cl_Name o1)"

lemma plain_no_dir: "plain_path (lb_fs s) (lb_full s p) \<Longrightarrow> no_dir s p"
  by (auto simp: plain_path_def no_dir_def split: option.splits node.splits elim: is_file_node.elims)

lemma legal_no_dir:
  assumes "lb_legal s r"
  shows "no_dir s (subject r)"
proof (cases r)
  case (RWrite o1)
  with assms show ?thesis
    by (auto simp: no_dir_def node_at_def split: option.splits elim!: is_file_node.elims)
qed (use assms plain_no_dir in auto)

lemma lb_attr:
  assumes "no_dir s p"
  shows "\<exists>x. next_attr (loopback_component md5) now p s = Some (x, s) \<and> size_or_zero x = Some (lb_fsize s p) \<and>
    (snd x \<noteq> None \<longrightarrow> lb_fsize s p = 0)"
proof (cases "node_at (lb_fs s) (lb_full s p)")
  case None
  then show ?thesis
    by (simp add: next_attr_def loopback_component_def lb_GetAttr_def os_Lstat_def size_or_zero_def
        lb_fsize_def path_size_def)
next
  case (Some nd)
  with assms have "node_stat_size nd = stored_size nd" by (cases nd) (auto simp: no_dir_def)
  with Some show ?thesis
    by (simp add: next_attr_def loopback_component_def lb_GetAttr_def os_Lstat_def size_or_zero_def
        lb_fsize_def path_size_def node_attr_def)
qed

text \<open>What each operation of the loopback component does to the stored bytes.\<close>

abbreviation lb_serve :: "(string \<Rightarrow> string) \<Rightarrow> int \<Rightarrow> st_request \<Rightarrow> loopback \<Rightarrow> (err \<times> loopback) option" where
  "lb_serve md5 \<equiv> serve (loopback_component md5)"

lemmas lb_comp = loopback_component_def lb_os_def lb_inv_def lb_total_def lb_fsize_def

lemma add_handle_Some:
  assumes "int (length (handles (lb_table s))) < 2 ^ 64"
  shows "\<exists>h t. add_handle name fd s = Some ((Some h, None), s\<lparr>lb_table := t\<rparr>)"
  using alloc_id_returns [of "handles (lb_table s)" "nextHandleID (lb_table s)"] assms
  by (auto simp: add_handle_def hm_Add_def Let_def)

text \<open>The shape every operation meets.\<close>

definition changes_by :: "loopback \<Rightarrow> (err \<times> loopback) option \<Rightarrow> int \<Rightarrow> bool" where
  "changes_by s res d \<longleftrightarrow> (\<exists>e s'. res = Some (e, s') \<and> lb_inv s' \<and>
     lb_total s' = lb_total s + (if e = None then d else 0))"

lemma changes_byI:
  "res = Some (e, s') \<Longrightarrow> fs_inv (lb_fs s') \<Longrightarrow>
     fs_total (lb_fs s') = fs_total (lb_fs s) + (if e = None then d else 0) \<Longrightarrow> changes_by s res d"
  by (auto simp: changes_by_def lb_inv_def lb_total_def)

lemma changes_by_same: "lb_inv s \<Longrightarrow> changes_by s (Some (Some e, s)) d"
  by (auto simp: changes_by_def)

lemma lb_Create_total:
  assumes "lb_inv s" "lb_legal s (RCreate o1)"
  shows "changes_by s (lb_serve md5 now (RCreate o1) s) (- lb_fsize s (cf_Name o1))"
proof (cases "cf_Name o1 = ''FailThis''")
  case True
  then show ?thesis
    using assms(1) by (simp add: loopback_component_def lb_CreateFile_def err_only_def changes_by_same)
next
  case False
  let ?p = "lb_full s (cf_Name o1)"
  have "fs_inv (lb_fs s)" "plain_path (lb_fs s) ?p" using assms by (simp_all add: lb_inv_def)
  from os_OpenFile_create [OF this, of now "cf_Mode o1"] obtain r fs' where
    o: "os_OpenFile now ?p create_trunc (cf_Mode o1) (lb_fs s) = (r, fs')" and "fs_inv fs'"
    and r: "case r of Inl e \<Rightarrow> fs' = lb_fs s | Inr fd \<Rightarrow> fs_total fs' = fs_total (lb_fs s) - path_size (lb_fs s) ?p \<and>
         (\<exists>i m t. map_of (open_fds fs') fd = Some i \<and> map_of (dents fs') ?p = Some i \<and>
            inodes fs' i = FileNode [] m t)" by blast
  show ?thesis
  proof (cases r)
    case (Inl e)
    then show ?thesis
      using o r assms(1) False
      by (intro changes_byI [where e = "Some e"])
        (auto simp: loopback_component_def lb_CreateFile_def err_only_def lb_inv_def)
  next
    case (Inr fd)
    obtain h t where h: "add_handle (cf_Name o1) fd (s\<lparr>lb_fs := fs'\<rparr>) = Some ((Some h, None), s\<lparr>lb_fs := fs', lb_table := t\<rparr>)"
      using add_handle_Some [of "s\<lparr>lb_fs := fs'\<rparr>" "cf_Name o1" fd] assms(2) by auto
    with Inr show ?thesis
      using o r \<open>fs_inv fs'\<close> False
      by (intro changes_byI [where e = None])
        (auto simp: loopback_component_def lb_CreateFile_def err_only_def lb_fsize_def)
  qed
qed

lemma lb_Delete_total:
  assumes "lb_inv s"
  shows "changes_by s (lb_serve md5 now (RDelete o1) s) (- lb_fsize s (opt_Name o1))"
proof -
  obtain e fs' where r: "os_Remove (lb_full s (opt_Name o1)) (lb_fs s) = (e, fs')" by fastforce
  with os_Remove_total [of "lb_fs s" "lb_full s (opt_Name o1)"] assms show ?thesis
    by (intro changes_byI [where e = e and s' = "s\<lparr>lb_fs := fs'\<rparr>"])
      (auto simp: loopback_component_def lb_os_def lb_DeleteFile_def lb_inv_def lb_fsize_def)
qed

lemma lb_Rename_total:
  assumes "lb_inv s" "lb_legal s (RRename o1)"
  shows "changes_by s (lb_serve md5 now (RRename o1) s) (- lb_fsize s (rf_Dst o1))"
  using os_Rename_total [of "lb_fs s" "lb_full s (rf_Src o1)" "lb_full s (rf_Dst o1)"] assms
  by (auto simp: changes_by_def lb_comp lb_RenameFile_def)

lemma lb_Write_total:
  assumes "lb_inv s" "lb_legal s (RWrite o1)"
  shows "changes_by s (lb_serve md5 now (RWrite o1) s)
    (size_after (RWrite o1) (lb_fsize s (h_Path (wf_Handle o1))) - lb_fsize s (h_Path (wf_Handle o1)))"
proof -
  let ?p = "lb_full s (h_Path (wf_Handle o1))"
  from assms(2) obtain fd i where l: "h_FObj (wf_Handle o1) = Some fd"
      "map_of (open_fds (lb_fs s)) fd = Some i" "map_of (dents (lb_fs s)) ?p = Some i"
      "is_file_node (inodes (lb_fs s) i)" "wf_Data o1 \<noteq> []" "0 \<le> wf_Offset o1"
    by (auto simp del: map_of_eq_Some_iff split: option.splits)
  then obtain c m t where c: "inodes (lb_fs s) i = FileNode c m t" by (cases "inodes (lb_fs s) i") auto
  with l have f: "lb_fsize s (h_Path (wf_Handle o1)) = int (length c)"
    by (simp add: lb_fsize_def path_size_def node_at_def)
  from os_WriteAt_total [OF _ l(2,3) c l(6), of now "wf_Data o1"] assms(1) obtain fs' where
    w: "os_WriteAt now fd (wf_Data o1) (wf_Offset o1) (lb_fs s) = ((int (length (wf_Data o1)), None), fs')"
      "fs_inv fs'" "fs_total fs' = fs_total (lb_fs s) +
        (int (length (write_at c (nat (wf_Offset o1)) (wf_Data o1))) - path_size (lb_fs s) ?p)"
    by (auto simp: lb_inv_def)
  then obtain t' where "lb_serve md5 now (RWrite o1) s = Some (None, s\<lparr>lb_table := t', lb_fs := fs'\<rparr>)"
    using l(1) by (auto simp: err_only_def loopback_component_def lb_WriteFile_def lb_os_def)
  then show ?thesis
    using w f length_write_at [OF l(5), of c "nat (wf_Offset o1)"] l(6)
    by (intro changes_byI [where e = None]) (auto simp: lb_fsize_def)
qed

lemma lb_Truncate_total:
  assumes "lb_inv s" "lb_legal s (RTruncate o1)"
  shows "changes_by s (lb_serve md5 now (RTruncate o1) s) (tf_NewSize o1 - lb_fsize s (tf_Name o1))"
  using os_Truncate_total [of "lb_fs s" "lb_full s (tf_Name o1)" now "tf_NewSize o1"] assms
  by (auto simp: changes_by_def lb_comp lb_TruncateFile_def)

lemma lb_Link_total:
  assumes "lb_inv s"
  shows "changes_by s (lb_serve md5 now (RLink o1) s) (int (length (cl_Target o1)) - lb_fsize s (cl_Name o1))"
  using os_Symlink_total [of "lb_fs s" now "cl_Target o1" "lb_full s (cl_Name o1)"] assms
  by (auto simp: changes_by_def lb_comp lb_CreateLink_def)

lemma lb_Copy_total:
  assumes "lb_inv s" "lb_legal s (RCopy o1)"
  shows "changes_by s (lb_serve md5 now (RCopy o1) s) (copied_size o1 - lb_fsize s (cp_Name o1))"
proof -
  let ?p = "lb_full s (cp_Name o1)"
  have "fs_inv (lb_fs s)" "plain_path (lb_fs s) ?p" using assms by (simp_all add: lb_inv_def)
  from os_OpenFile_create [OF this, of now "0x1B6"] obtain r fs' where
    o: "os_OpenFile now ?p create_trunc 0x1B6 (lb_fs s) = (r, fs')" and "fs_inv fs'"
    and r: "case r of Inl e \<Rightarrow> fs' = lb_fs s | Inr fd \<Rightarrow> fs_total fs' = fs_total (lb_fs s) - path_size (lb_fs s) ?p \<and>
         (\<exists>i m t. map_of (open_fds fs') fd = Some i \<and> map_of (dents fs') ?p = Some i \<and>
            inodes fs' i = FileNode [] m t)" by blast
  show ?thesis
  proof (cases r)
    case (Inl e)
    then show ?thesis
      using o r assms(1)
      by (intro changes_byI [where e = "Some e"])
        (auto simp: loopback_component_def lb_CopyFromFile_def lb_inv_def)
  next
    case (Inr fd)
    with r obtain i m t where i: "map_of (open_fds fs') fd = Some i" "map_of (dents fs') ?p = Some i"
      "inodes fs' i = FileNode [] m t"
      and tot: "fs_total fs' = fs_total (lb_fs s) - path_size (lb_fs s) ?p" by auto
    let ?data = "lf_Content (cp_File o1)"
    have "path_size fs' ?p = 0" using i by (simp add: path_size_def node_at_def)
    with os_WriteAt_total [OF \<open>fs_inv fs'\<close> i, of 0 now ?data] obtain fs2 where
      w: "os_WriteAt now fd ?data 0 fs' = ((int (length ?data), None), fs2)" "fs_inv fs2"
        "open_fds fs2 = open_fds fs'" "fs_total fs2 = fs_total fs' + int (length (write_at [] 0 ?data))"
      by auto
    have "int (length (write_at [] 0 ?data)) = copied_size o1"
      using assms(2) by (auto simp: write_at_def copied_size_def split: sum.splits)
    moreover have "os_Close fd fs2 = (None, snd (os_Close fd fs2))"
      using i w(3) by (simp add: os_Close_def del: map_of_eq_Some_iff)
    ultimately have "lb_serve md5 now (RCopy o1) s = Some (None, s\<lparr>lb_fs := snd (os_Close fd fs2)\<rparr>)"
      using Inr w(1) o
      by (simp add: loopback_component_def lb_CopyFromFile_def lb_os_def case_prod_beta prod_eq_iff)
    then show ?thesis
      using w(2,4) tot \<open>int (length (write_at [] 0 ?data)) = copied_size o1\<close>
      by (intro changes_byI [where e = None]) (auto simp: lb_fsize_def)
  qed
qed

lemma lb_served:
  assumes "lb_inv s" "lb_legal s r"
  shows "changes_by s (lb_serve md5 now r s)
    (size_after r (lb_fsize s (subject r)) - lb_fsize s (subject r))"
  using assms lb_Create_total lb_Delete_total lb_Rename_total lb_Write_total lb_Truncate_total
    lb_Copy_total lb_Link_total
  by (cases r) (simp_all del: serve.simps lb_legal.simps)

interpretation lbs: sized_store "loopback_component md5" lb_inv lb_total lb_fsize lb_legal for md5
proof
  show "well_formed r" if "lb_legal n r" for n r
    using that by (cases r) (auto split: sum.splits)
  show "0 \<le> lb_fsize n p \<and> lb_fsize n p \<le> lb_total n" if "lb_inv n" for n p
    using path_size_range that by (simp add: lb_fsize_def lb_total_def lb_inv_def)
  show "\<exists>x. next_attr (loopback_component md5) now (subject r) n = Some (x, n) \<and>
      size_or_zero x = Some (lb_fsize n (subject r)) \<and> (snd x \<noteq> None \<longrightarrow> lb_fsize n (subject r) = 0)"
    if "lb_inv n" "lb_legal n r" for n r now
    using lb_attr [OF legal_no_dir [OF that(2)]] .
  show "\<exists>e n'. lb_serve md5 now r n = Some (e, n') \<and> lb_inv n' \<and> lb_total n' = lb_total n +
      (if e = None then size_after r (lb_fsize n (subject r)) - lb_fsize n (subject r) else 0)"
    if "lb_inv n" "lb_legal n r" for n r now
    using lb_served [OF that, of md5 now] by (simp only: changes_by_def)
qed

section \<open>Properties\<close>

text \<open>
  C10. Over the loopback storage, after any sequence of legal file operations the size the tracker
  reports is exactly the number of bytes stored, whatever operations failed on the way.
\<close>

theorem tracker_exact:
  assumes "lb_inv n" and "counted lb_total (st, n)" and "lb_total n < 2 ^ 63"
    and "legal_run lb_total lb_legal (loopback_component md5) rs (st, n)"
  shows "\<exists>st' n'. serve_all (size_tracker_component (loopback_component md5)) rs (st, n) = Some (st', n') \<and>
    ms_GetSize (mountSize st') = lb_total n'"
  using assms by (rule lbs.run_exact)

definition sizes_disk :: loopback where
  "sizes_disk =
     \<lparr>lb_fs = \<lparr>dents = [(''/d'', 0), (''/d/a'', 1), (''/d/b'', 2)],
        inodes = (\<lambda>i. if i = 0 then DirNode 0 0 else if i = 1 then FileNode ''abc'' 0 0 else FileNode ''de'' 0 0),
        next_ino = 3, open_fds = [(5, 1)], next_fd = 6\<rparr>,
      lb_table = \<lparr>handles = [(1, (NewHandle ''a'')\<lparr>h_FObj := Some 5, h_ID := 1\<rparr>)], nextHandleID = 1\<rparr>,
      lb_path = ''/d'', lb_consistency = False\<rparr>"

definition sizes_tracker :: SizeTracker where
  "sizes_tracker =
     \<lparr>mountSize = \<lparr>ms_size = 4, ms_pendingDelta = 1, ms_epoch = 7\<rparr>,
      totalBucketCapacity = 8, displayCapacity = 8, serverCount = 1, evictionMode = Normal,
      bucketUsage = 0, statSizeOffset = 0, hardLimitEnabled = True\<rparr>"

definition sizes_requests :: "(int \<times> st_request) list" where
  "sizes_requests =
     [(0, RWrite \<lparr>wf_Handle = (NewHandle ''a'')\<lparr>h_FObj := Some 5, h_ID := 1\<rparr>, wf_Offset = 2,
          wf_Data = ''xyz'', wf_Metadata = None\<rparr>),
      (1, RTruncate \<lparr>tf_Handle = None, tf_Name = ''b'', tf_OldSize = 2, tf_NewSize = 9, tf_BlockSize = 0\<rparr>),
      (2, RCreate \<lparr>cf_Name = ''b'', cf_Mode = 0\<rparr>),
      (3, RRename \<lparr>rf_Src = ''a'', rf_Dst = ''b'', rf_SrcAttr = None, rf_DstAttr = None\<rparr>),
      (4, RDelete \<lparr>opt_Name = ''a''\<rparr>)]"

lemma sizes_ok:
  "lb_inv sizes_disk" "counted lb_total (sizes_tracker, sizes_disk)" "lb_total sizes_disk = 5"
  by (simp_all add: lb_inv_def lb_total_def fs_inv_def fs_total_def counted_def sizes_disk_def
      sizes_tracker_def in_int64_def)

lemma sizes_legal: "legal_run lb_total lb_legal (loopback_component id) sizes_requests (sizes_tracker, sizes_disk)"
  by code_simp

theorem tracker_exact_witness:
  "\<exists>st' n'. serve_all (size_tracker_component (loopback_component id)) sizes_requests
      (sizes_tracker, sizes_disk) = Some (st', n') \<and> ms_GetSize (mountSize st') = lb_total n'"
  by (rule tracker_exact) (simp_all add: sizes_ok sizes_legal)

text \<open>
  C11. With the hard limit on, no sequence of legal requests whose growth the tracker checks takes the
  stored bytes above the capacity, unless they were above it at the start; then they do not grow.
\<close>

theorem hard_limit_holds:
  assumes "lb_inv n" and "counted lb_total (st, n)" and "lb_total n < 2 ^ 63"
    and "legal_run lb_total lb_legal (loopback_component md5) rs (st, n)"
    and "all_checked rs" and "hardLimitEnabled st" and "totalBucketCapacity st \<noteq> 0"
    and "in_uint64 (totalBucketCapacity st)"
  shows "\<exists>st' n'. serve_all (size_tracker_component (loopback_component md5)) rs (st, n) = Some (st', n') \<and>
    lb_total n' \<le> max (lb_total n) (totalBucketCapacity st)"
  using assms by (rule lbs.run_within_limit)

theorem hard_limit_holds_witness:
  "\<exists>st' n'. serve_all (size_tracker_component (loopback_component id)) sizes_requests
      (sizes_tracker, sizes_disk) = Some (st', n') \<and>
    lb_total n' \<le> max (lb_total sizes_disk) (totalBucketCapacity sizes_tracker)"
  by (rule hard_limit_holds)
    (simp_all add: sizes_ok sizes_legal, simp_all add: sizes_requests_def sizes_tracker_def in_uint64_def)

text \<open>
  C35. The hard limit does not cover links: with the limit on and fewer bytes left than the target has, so that
  the check the other operations make refuses the growth, creating a link under a new name still succeeds,
  and the stored bytes and the size the tracker reports pass the capacity.
\<close>

theorem links_pass_the_limit:
  assumes "lb_inv n" and "counted lb_total (st, n)" and "lb_total n + int (length target) < 2 ^ 63"
    and "node_at (lb_fs n) (lb_full n name) = None" and "parent_is_dir (lb_fs n) (lb_full n name)" and "target \<noteq> []"
    and "hardLimitEnabled st" and "totalBucketCapacity st \<noteq> 0" and "in_uint64 (totalBucketCapacity st)"
    and "totalBucketCapacity st < lb_total n + int (length target)"
  shows "checkCapacityDelta st (int (length target)) \<noteq> None \<and>
    (\<exists>st' n'. serve (size_tracker_component (loopback_component md5)) now
        (RLink \<lparr>cl_Name = name, cl_Target = target\<rparr>) (st, n) = Some (None, st', n') \<and>
      totalBucketCapacity st' < lb_total n' \<and> ms_GetSize (mountSize st') = lb_total n')"
proof -
  let ?k = "int (length target)" and ?r = "RLink \<lparr>cl_Name = name, cl_Target = target\<rparr>"
  have tot: "0 \<le> lb_total n" "lb_total n < 2 ^ 63" using assms(3) lbs.total_nonneg [OF assms(1)] by auto
  have size: "ms_GetSize (mountSize st) = lb_total n" by (rule counted_GetSize [OF assms(2) tot])
  have k: "0 < ?k" "in_int64 ?k" using assms(3,6) tot by (auto simp: in_int64_def)
  have "checkCapacityDelta st ?k \<noteq> None"
    using capacity_check_passed [OF _ assms(7-9) k(2)] k(1) size tot assms(10) by auto
  moreover
  define n' where "n' = n\<lparr>lb_fs := new_entry (lb_full n name) (LinkNode target now) (lb_fs n)\<rparr>"
  have m: "map_of (dents (lb_fs n)) (lb_full n name) = None" using assms(4) by (simp add: node_at_def)
  have t: "lb_total n' = lb_total n + ?k"
    using fs_total_new_entry [OF _ m, of "LinkNode target now"] assms(1) by (simp add: lb_total_def lb_inv_def n'_def)
  have "serve (size_tracker_component (loopback_component md5)) now ?r (st, n) = Some (None, st_Add ?k st, n')"
    using assms(4-6) k(2)
    by (simp add: size_tracker_component_def component_below_def st_CreateLink_def loopback_component_def next_attr_def lb_GetAttr_def
        os_Lstat_def size_or_zero_def lb_CreateLink_def lb_os_def os_Symlink_def n'_def wrap64_id)
  moreover have "ms_GetSize (mountSize (st_Add ?k st)) = lb_total n'"
    by (rule counted_GetSize [OF counted_Add [OF assms(2) _ _ t]]) (use t tot assms(3) in auto)
  moreover have "totalBucketCapacity (st_Add ?k st) < lb_total n'" using t assms(10) by (simp add: st_Add_def)
  ultimately show ?thesis by blast
qed

lemma links_pass_the_limit_witness:
  "\<exists>st' n'. serve (size_tracker_component (loopback_component id)) 0 (RLink \<lparr>cl_Name = ''l'', cl_Target = ''abcdef''\<rparr>)
      (sizes_tracker, sizes_disk) = Some (None, st', n') \<and>
    totalBucketCapacity st' < lb_total n' \<and> ms_GetSize (mountSize st') = lb_total n'"
proof -
  have p: "lb_full sizes_disk ''l'' = ''/d/l''" "path_dir ''/d/l'' = ''/d''" by code_simp+
  from links_pass_the_limit [OF sizes_ok(1,2), of "''abcdef''" "''l''" id 0] show ?thesis
    by (simp add: sizes_ok(3) p parent_is_dir_def node_at_def)
      (simp add: sizes_disk_def sizes_tracker_def in_uint64_def)
qed

end
