(* ===== verification/Entry_Cache.thy ===== *)
theory Entry_Cache
  imports Loopback_Sizes
begin

text \<open>
  The entry cache (\<open>component/entry_cache/entry_cache.go\<close>): directory listings are kept per path and
  continuation token until the expiring LRU of package \<open>tlru\<close> evicts them. That package is not part of
  the repository; what matters of it here is that it may call \<open>pathEvict\<close> on any key at any time, so
  evictions are steps of their own between the requests.
\<close>

section \<open>State and operations\<close>

record pathCacheItem =
  pc_children :: "ObjAttr list"
  pc_nextToken :: string

record EntryCache =
  cacheTimeout :: int
  pathMap :: "(string \<times> pathCacheItem) list"

definition defaultEntryCacheTimeout :: int where "defaultEntryCacheTimeout = 30"

text \<open>
  \<open>Configure\<close> reads the \<open>read-only\<close> key and the component's own section (\<open>None\<close> where reading
  fails); the timeout is present when its key is set. A failure of the LRU's constructor is the last
  argument.
\<close>

definition ec_Configure ::
  "bool option \<Rightarrow> int option option \<Rightarrow> error option \<Rightarrow> EntryCache \<Rightarrow> err \<times> EntryCache" where
  "ec_Configure readonly section lruErr c =
     (case readonly of
        None \<Rightarrow> (Some (Errorf ''config error in entry_cache''), c)
      | Some False \<Rightarrow> (Some (Errorf ''EntryCache component should be used in only in read-only mode''), c)
      | Some True \<Rightarrow>
          (case section of
             None \<Rightarrow> (Some (Errorf ''EntryCache: config error [invalid config attributes]''), c)
           | Some timeout \<Rightarrow>
               let c1 = c\<lparr>cacheTimeout := (case timeout of Some t \<Rightarrow> t | None \<Rightarrow> defaultEntryCacheTimeout)\<rparr>
               in (if lruErr = None then None else Some (Errorf ''config error in entry_cache''), c1)))"

definition path_key :: "string \<Rightarrow> string \<Rightarrow> string" where
  "path_key name token = name @ ''##'' @ token"

definition ec_StreamDir ::
  "'n component \<Rightarrow> (EntryCache \<times> 'n, StreamDirOptions, ObjAttr list \<times> string \<times> err) handler" where
  "ec_StreamDir nc now options = (\<lambda>(c, n).
     let pathKey = path_key (sd_Name options) (sd_Token options) in
     case map_of (pathMap c) pathKey of
       None \<Rightarrow>
         (case StreamDir nc now options n of
            None \<Rightarrow> None
          | Some ((pathList, token, err), n1) \<Rightarrow>
              if err = None \<and> pathList \<noteq> []
              then Some ((pathList, token, err),
                     (c\<lparr>pathMap := map_store pathKey \<lparr>pc_children = pathList, pc_nextToken = token\<rparr> (pathMap c)\<rparr>,
                      n1))
              else Some ((pathList, token, err), (c, n1)))
     | Some item \<Rightarrow> Some ((pc_children item, pc_nextToken item, None), (c, n)))"

definition pathEvict :: "string \<Rightarrow> EntryCache \<Rightarrow> EntryCache" where
  "pathEvict pathKey c = c\<lparr>pathMap := map_remove pathKey (pathMap c)\<rparr>"

definition entry_cache_component :: "'n component \<Rightarrow> (EntryCache \<times> 'n) component" where
  "entry_cache_component nc = (component_below nc)\<lparr>StreamDir := ec_StreamDir nc\<rparr>"

section \<open>Runs\<close>

text \<open>Listing requests, each with its clock reading, and evictions in any order.\<close>

datatype ec_event = List_Dir int StreamDirOptions | Evict_Path string

fun ec_run :: "'n component \<Rightarrow> ec_event list \<Rightarrow> EntryCache \<times> 'n \<Rightarrow>
    ((ObjAttr list \<times> string \<times> err) list \<times> (EntryCache \<times> 'n)) option" where
  "ec_run nc [] s = Some ([], s)"
| "ec_run nc (Evict_Path k # es) (c, n) = ec_run nc es (pathEvict k c, n)"
| "ec_run nc (List_Dir now options # es) s =
     (case StreamDir (entry_cache_component nc) now options s of
        None \<Rightarrow> None
      | Some (r, s') \<Rightarrow> map_option (\<lambda>(rs, s''). (r # rs, s'')) (ec_run nc es s'))"

fun listed :: "ec_event list \<Rightarrow> StreamDirOptions list" where
  "listed [] = []"
| "listed (Evict_Path k # es) = listed es"
| "listed (List_Dir now options # es) = options # listed es"

definition plain_names :: "ec_event list \<Rightarrow> bool" where
  "plain_names es \<longleftrightarrow> list_all (\<lambda>options. CHR ''#'' \<notin> set (sd_Name options)) (listed es)"

section \<open>Keys\<close>

lemma path_key_inj:
  assumes "path_key a s = path_key b t" and "CHR ''#'' \<notin> set a" and "CHR ''#'' \<notin> set b"
  shows "a = b \<and> s = t"
proof -
  have t: "takeWhile (\<lambda>c. c \<noteq> CHR ''#'') (path_key x y) = x" if "CHR ''#'' \<notin> set x" for x y
    using that by (subst path_key_def, subst takeWhile_append2) auto
  from t [OF assms(2), of s] t [OF assms(3), of t] assms(1) have "a = b" by simp
  with assms(1) show ?thesis by (simp add: path_key_def)
qed

section \<open>The contract below\<close>

text \<open>
  A storage that does not change while mounted read-only: listing a directory from a token answers
  \<open>answer name token\<close> whatever the other options, and leaves the state as it is.
\<close>

locale fixed_listing =
  fixes nc :: "'n component" and n0 :: 'n
    and answer :: "string \<Rightarrow> string \<Rightarrow> ObjAttr list \<times> string \<times> err"
  assumes listing: "StreamDir nc now options n0 = Some (answer (sd_Name options) (sd_Token options), n0)"
begin

definition coherent :: "EntryCache \<Rightarrow> bool" where
  "coherent c \<longleftrightarrow> (\<forall>k item. map_of (pathMap c) k = Some item \<longrightarrow>
     (\<exists>name token. CHR ''#'' \<notin> set name \<and> k = path_key name token \<and>
        answer name token = (pc_children item, pc_nextToken item, None)))"

lemma coherent_evict: "coherent c \<Longrightarrow> coherent (pathEvict k c)"
  by (simp add: coherent_def pathEvict_def del: map_of_eq_Some_iff)

lemma StreamDir_answer:
  assumes "coherent c" and "CHR ''#'' \<notin> set (sd_Name options)"
  shows "\<exists>c'. ec_StreamDir nc now options (c, n0) =
    Some (answer (sd_Name options) (sd_Token options), (c', n0)) \<and> coherent c'"
proof (cases "map_of (pathMap c) (path_key (sd_Name options) (sd_Token options))")
  case None
  obtain l t e where a: "answer (sd_Name options) (sd_Token options) = (l, t, e)" by (metis prod_cases3)
  with assms None show ?thesis
    by (auto simp: ec_StreamDir_def Let_def listing coherent_def simp del: map_of_eq_Some_iff)
next
  case (Some item)
  with assms(1) obtain name token where
    "CHR ''#'' \<notin> set name" "path_key (sd_Name options) (sd_Token options) = path_key name token"
    "answer name token = (pc_children item, pc_nextToken item, None)"
    unfolding coherent_def by blast
  with path_key_inj [of "sd_Name options" "sd_Token options" name token] assms Some show ?thesis
    by (auto simp: ec_StreamDir_def Let_def simp del: map_of_eq_Some_iff)
qed

lemma run_answers:
  "coherent c \<Longrightarrow> plain_names es \<Longrightarrow>
    \<exists>c'. ec_run nc es (c, n0) =
      Some (map (\<lambda>options. answer (sd_Name options) (sd_Token options)) (listed es), (c', n0))"
proof (induction es arbitrary: c)
  case Nil
  then show ?case by simp
next
  case (Cons e es)
  show ?case
  proof (cases e)
    case (List_Dir now options)
    with Cons.prems have "CHR ''#'' \<notin> set (sd_Name options)" "plain_names es"
      by (simp_all add: plain_names_def)
    with StreamDir_answer [OF Cons.prems(1) this(1), of now] Cons.IH List_Dir show ?thesis
      by (fastforce simp: entry_cache_component_def)
  next
    case (Evict_Path k)
    with Cons.prems Cons.IH [OF coherent_evict [OF Cons.prems(1), of k]] show ?thesis
      by (simp add: plain_names_def)
  qed
qed

end

text \<open>The loopback component keeps this contract in every state.\<close>

definition lb_listing :: "(string \<Rightarrow> string) \<Rightarrow> loopback \<Rightarrow> string \<Rightarrow> string \<Rightarrow> ObjAttr list \<times> string \<times> err" where
  "lb_listing md5 s name token =
     (case lb_StreamDir md5 0 \<lparr>sd_Name = name, sd_Offset = 0, sd_Token = token, sd_Count = 0\<rparr> s of
        Some (r, s') \<Rightarrow> r | None \<Rightarrow> ([], [], None))"

interpretation lbl: fixed_listing "loopback_component md5" s "lb_listing md5 s" for md5 s
  by unfold_locales
    (auto simp: loopback_component_def lb_listing_def lb_StreamDir_def split: sum.splits)

section \<open>Properties\<close>

text \<open>
  C13. Over the loopback storage, no order of listings and evictions makes the cache visible: every
  listing is answered as the storage itself would answer it, provided that no directory name contains
  a hash sign.
\<close>

theorem entry_cache_transparent:
  assumes "pathMap c = []" and "plain_names es"
  shows "\<exists>c'. ec_run (loopback_component md5) es (c, s) =
    Some (map (\<lambda>options. lb_listing md5 s (sd_Name options) (sd_Token options)) (listed es), (c', s))"
  using assms by (intro lbl.run_answers) (simp_all add: lbl.coherent_def)

definition listing_events :: "ec_event list" where
  "listing_events =
     [List_Dir 0 \<lparr>sd_Name = [], sd_Offset = 0, sd_Token = [], sd_Count = 10\<rparr>,
      List_Dir 1 \<lparr>sd_Name = [], sd_Offset = 0, sd_Token = [], sd_Count = 10\<rparr>,
      Evict_Path ''##'',
      List_Dir 2 \<lparr>sd_Name = ''a'', sd_Offset = 0, sd_Token = [], sd_Count = 10\<rparr>]"

theorem entry_cache_transparent_witness:
  "\<exists>c'. ec_run (loopback_component id) listing_events (\<lparr>cacheTimeout = 30, pathMap = []\<rparr>, sizes_disk) =
    Some (map (\<lambda>options. lb_listing id sizes_disk (sd_Name options) (sd_Token options)) (listed listing_events),
      (c', sizes_disk))"
  by (rule entry_cache_transparent) (simp_all add: listing_events_def plain_names_def)

definition hash_disk :: loopback where
  "hash_disk =
     \<lparr>lb_fs = \<lparr>dents = [(''/d'', 0), (''/d/a'', 1), (''/d/a##b'', 2), (''/d/a/x'', 3), (''/d/a##b/y'', 4)],
        inodes = (\<lambda>i. if i < 3 then DirNode 0 0 else FileNode ''abc'' 0 0),
        next_ino = 5, open_fds = [], next_fd = 0\<rparr>,
      lb_table = \<lparr>handles = [], nextHandleID = 0\<rparr>, lb_path = ''/d'', lb_consistency = False\<rparr>"

text \<open>
  C36. Names with hash signs collide, over any storage: the key of a path and a token does not determine them.
  When the directory \<open>a##b\<close> has been listed from the token \<open>t\<close> and had entries, a listing of \<open>a\<close> from the token
  \<open>b##t\<close> is answered with the entries of \<open>a##b\<close>, and the storage is not asked.
\<close>

theorem entry_cache_collision:
  assumes "map_of (pathMap c) (path_key (a @ ''##'' @ b) t) = None"
    and "sd_Name q = a @ ''##'' @ b" and "sd_Token q = t" and "StreamDir nc now q n = Some ((l, token, None), n1)" and "l \<noteq> []"
    and "sd_Name q' = a" and "sd_Token q' = b @ ''##'' @ t"
  shows "\<exists>c'. ec_run nc [List_Dir now q, List_Dir now' q'] (c, n) = Some ([(l, token, None), (l, token, None)], (c', n1))"
proof -
  have "path_key a (b @ ''##'' @ t) = path_key (a @ ''##'' @ b) t" by (simp add: path_key_def)
  with assms show ?thesis
    by (simp add: entry_cache_component_def ec_StreamDir_def Let_def del: map_of_eq_Some_iff map_of_eq_None_iff)
qed

text \<open>In the witness the storage, asked itself, lists another file.\<close>

lemma entry_cache_collision_witness:
  "\<exists>y c'. map a_Name y = [''y''] \<and>
    ec_run (loopback_component id)
      [List_Dir 0 \<lparr>sd_Name = ''a##b'', sd_Offset = 0, sd_Token = [], sd_Count = 10\<rparr>,
       List_Dir 0 \<lparr>sd_Name = ''a'', sd_Offset = 0, sd_Token = ''b##'', sd_Count = 10\<rparr>]
      (\<lparr>cacheTimeout = 30, pathMap = []\<rparr>, hash_disk) = Some ([(y, [], None), (y, [], None)], (c', hash_disk)) \<and>
    map a_Name (fst (lb_listing id hash_disk ''a'' ''b##'')) = [''x'']"
proof -
  let ?q = "\<lparr>sd_Name = ''a##b'', sd_Offset = 0, sd_Token = [], sd_Count = 10\<rparr>"
  let ?y = "fst (lb_listing id hash_disk ''a##b'' [])"
  have y: "map a_Name ?y = [''y'']" "map a_Name (fst (lb_listing id hash_disk ''a'' ''b##'')) = [''x'']"
    "snd (lb_listing id hash_disk ''a##b'' []) = ([], None)" by code_simp+
  have "StreamDir (loopback_component id) 0 ?q hash_disk = Some ((?y, [], None), hash_disk)"
    using lbl.listing [of id 0 ?q hash_disk] y(3) by (simp add: prod_eq_iff)
  moreover have "?y \<noteq> []" using y(1) by auto
  ultimately show ?thesis
    using entry_cache_collision [of "\<lparr>cacheTimeout = 30, pathMap = []\<rparr>" "''a''" "''b''" "[]" ?q "loopback_component id" 0
        hash_disk ?y "[]" hash_disk "\<lparr>sd_Name = ''a'', sd_Offset = 0, sd_Token = ''b##'', sd_Count = 10\<rparr>" 0] y(1,2)
    by auto
qed

end
