(* ===== verification/Cache_Tree.thy ===== *)
theory Cache_Tree
  imports Entry_Cache
begin

text \<open>
  The data structure of the attribute cache (\<open>component/attr_cache/cacheMap.go\<close>): a map from paths to
  items, linked to a tree by parent and children pointers. Items and object attributes are cells of a
  store, addressed by numbers, since the code shares them: an item is reached from the map, from its
  parent and from its children, an attribute from its item and from cached listings.

  A nil pointer dereference is \<open>None\<close>. The two recursions over the tree take fuel; \<open>tree_fuel\<close> gives
  enough (\<open>Cache_Invariant\<close>). A nil map and an empty one are both the empty list.
\<close>

section \<open>Items\<close>

definition AttrFlagExists :: nat where "AttrFlagExists = 1"
definition AttrFlagValid :: nat where "AttrFlagValid = 2"
definition AttrFlagNotInCloud :: nat where "AttrFlagNotInCloud = 3"

record listCacheSegment =
  seg_entries :: "nat list"
  seg_nextToken :: string
  seg_cachedAt :: int

record attrCacheItem =
  ci_attr :: nat
  ci_cachedAt :: int
  ci_listCache :: "(string \<times> listCacheSegment) list"
  ci_attrFlag :: bitmap
  ci_children :: "(string \<times> nat) list"
  ci_parent :: "nat option"
  ci_listingComplete :: bool

record cacheTreeMap =
  cacheMap :: "(string \<times> nat) list"
  cacheTree :: nat
  maxFiles :: int
  ct_items :: "nat \<Rightarrow> attrCacheItem"
  ct_nitems :: nat
  ct_attrs :: "nat \<Rightarrow> ObjAttr"
  ct_nattrs :: nat

definition ct_attr :: "cacheTreeMap \<Rightarrow> nat \<Rightarrow> ObjAttr" where
  "ct_attr c i = ct_attrs c (ci_attr (ct_items c i))"

abbreviation ct_path :: "cacheTreeMap \<Rightarrow> nat \<Rightarrow> string" where
  "ct_path c i \<equiv> a_Path (ct_attr c i)"

definition upd_item :: "nat \<Rightarrow> (attrCacheItem \<Rightarrow> attrCacheItem) \<Rightarrow> cacheTreeMap \<Rightarrow> cacheTreeMap" where
  "upd_item i f c = c\<lparr>ct_items := (ct_items c)(i := f (ct_items c i))\<rparr>"

definition upd_attr :: "nat \<Rightarrow> (ObjAttr \<Rightarrow> ObjAttr) \<Rightarrow> cacheTreeMap \<Rightarrow> cacheTreeMap" where
  "upd_attr i f c =
     c\<lparr>ct_attrs := (ct_attrs c)(ci_attr (ct_items c i) := f (ct_attr c i))\<rparr>"

definition new_attr :: "ObjAttr \<Rightarrow> cacheTreeMap \<Rightarrow> nat \<times> cacheTreeMap" where
  "new_attr a c = (ct_nattrs c,
     c\<lparr>ct_attrs := (ct_attrs c)(ct_nattrs c := a), ct_nattrs := Suc (ct_nattrs c)\<rparr>)"

definition new_item :: "attrCacheItem \<Rightarrow> cacheTreeMap \<Rightarrow> nat \<times> cacheTreeMap" where
  "new_item it c = (ct_nitems c,
     c\<lparr>ct_items := (ct_items c)(ct_nitems c := it), ct_nitems := Suc (ct_nitems c)\<rparr>)"

definition newAttrCacheItem :: "nat \<Rightarrow> bool \<Rightarrow> int \<Rightarrow> attrCacheItem" where
  "newAttrCacheItem attr ex cachedAt =
     \<lparr>ci_attr = attr, ci_cachedAt = cachedAt, ci_listCache = [],
      ci_attrFlag = (if ex then set_flag AttrFlagExists (set_flag AttrFlagValid 0)
                     else set_flag AttrFlagValid 0),
      ci_children = [], ci_parent = None, ci_listingComplete = False\<rparr>"

definition newCacheTreeMap :: "int \<Rightarrow> int \<Rightarrow> cacheTreeMap" where
  "newCacheTreeMap mx now =
     \<lparr>cacheMap = [([], 0)], cacheTree = 0, maxFiles = mx,
      ct_items = (\<lambda>_. newAttrCacheItem 0 True now), ct_nitems = 1,
      ct_attrs = (\<lambda>_. CreateObjAttrDir now []), ct_nattrs = 1\<rparr>"

definition it_valid :: "cacheTreeMap \<Rightarrow> nat \<Rightarrow> bool" where
  "it_valid c i = IsSet (ci_attrFlag (ct_items c i)) AttrFlagValid"

definition it_exists :: "cacheTreeMap \<Rightarrow> nat \<Rightarrow> bool" where
  "it_exists c i \<longleftrightarrow> it_valid c i \<and> IsSet (ci_attrFlag (ct_items c i)) AttrFlagExists"

definition isInCloud :: "cacheTreeMap \<Rightarrow> nat \<Rightarrow> bool" where
  "isInCloud c i \<longleftrightarrow> \<not> IsDir (ct_attr c i) \<or>
     (IsDir (ct_attr c i) \<and> \<not> IsSet (ci_attrFlag (ct_items c i)) AttrFlagNotInCloud)"

definition isRoot :: "cacheTreeMap \<Rightarrow> nat \<Rightarrow> bool" where
  "isRoot c i \<longleftrightarrow> ct_path c i = []"

section \<open>Lookup and insertion\<close>

text \<open>\<open>getParentDir\<close> of \<open>attr_cache.go\<close>.\<close>

definition getParentDir :: "string \<Rightarrow> string" where
  "getParentDir childPath =
     (let parentDir = path_dir (TruncateDirName childPath) in if parentDir = ''.'' then [] else parentDir)"

definition ct_get :: "cacheTreeMap \<Rightarrow> string \<Rightarrow> nat option" where
  "ct_get c p = map_of (cacheMap c) (TruncateDirName p)"

lemma length_TruncateDirName: "length (TruncateDirName p) \<le> length p"
  by (simp add: TruncateDirName_def length_trim_suffix)

text \<open>The parent directory's path is shorter, so the walks to the root end.\<close>

lemma getParentDir_shorter:
  assumes "p \<noteq> []"
  shows "length (getParentDir p) < length p"
proof (cases "TruncateDirName p = []")
  case True
  then show ?thesis using assms by (simp add: getParentDir_def path_dir_def upto_last_slash_def path_clean_def)
next
  case False
  have "length (TruncateDirName p) < length p \<or> (TruncateDirName p = p \<and> p \<noteq> [slash])"
    by (auto simp: TruncateDirName_def trim_suffix_def suffix_def)
  then show ?thesis
  proof
    assume "length (TruncateDirName p) < length p"
    moreover have "0 < length (TruncateDirName p)" using False by simp
    ultimately have "1 < length p" "length (TruncateDirName p) < length p" by linarith+
    then show ?thesis using length_path_dir [OF False] by (auto simp: getParentDir_def Let_def)
  next
    assume p: "TruncateDirName p = p \<and> p \<noteq> [slash]"
    show ?thesis
    proof (cases "path_dir p = [slash]")
      case True
      have "length p \<noteq> 1"
      proof
        assume "length p = 1"
        then obtain c where "p = [c]" by (auto simp: length_Suc_conv)
        with p True show False by (auto simp: path_dir_def upto_last_slash_def path_clean_def)
      qed
      with True p assms show ?thesis by (cases p) (auto simp: getParentDir_def)
    next
      case f: False
      with length_path_dir [OF assms] p show ?thesis using assms by (auto simp: getParentDir_def Let_def)
    qed
  qed
qed

lemma parent_key_shorter:
  assumes "p \<noteq> []"
  shows "length (TruncateDirName (TruncateDirName (getParentDir p))) < length p"
    and "length (TruncateDirName (getParentDir p)) < length p"
  using getParentDir_shorter [OF assms] length_TruncateDirName [of "getParentDir p"]
    length_TruncateDirName [of "TruncateDirName (getParentDir p)"] by linarith+

text \<open>
  The end of \<open>insertItem\<close>: link the new item to its parent and to the map. Outside of a directory
  listing the parent's cached listings are dropped.
\<close>

definition link_item :: "string \<Rightarrow> nat \<Rightarrow> nat \<Rightarrow> bool \<Rightarrow> cacheTreeMap \<Rightarrow> cacheTreeMap" where
  "link_item p new par fromDirList c =
     (let c1 = upd_item new (\<lambda>it. it\<lparr>ci_parent := Some par\<rparr>) c;
          c2 = (if \<not> fromDirList \<and> it_exists c1 new
                then upd_item par (\<lambda>it. it\<lparr>ci_listCache := []\<rparr>) c1 else c1);
          c3 = upd_item par (\<lambda>it. it\<lparr>ci_children := map_store (a_Name (ct_attr c2 new)) new (ci_children it)\<rparr>) c2
      in c3\<lparr>cacheMap := map_store p new (cacheMap c3)\<rparr>)"

text \<open>
  \<open>insertItem\<close> on an item whose path, without trailing slash, is the first argument. A missing parent
  (or a deleted one, under an item that exists) is made first. The root's path is its own parent: with
  the root missing the code would recurse on it for ever, which is the crash here.
\<close>

definition lacks_parent :: "cacheTreeMap \<Rightarrow> string \<Rightarrow> nat \<Rightarrow> bool" where
  "lacks_parent c parentPath new =
     (case ct_get c parentPath of
        None \<Rightarrow> True
      | Some par \<Rightarrow> \<not> it_exists c par \<and> it_exists c new)"

definition new_parent :: "int \<Rightarrow> string \<Rightarrow> nat \<Rightarrow> cacheTreeMap \<Rightarrow> nat \<times> cacheTreeMap" where
  "new_parent now parentPath new c =
     (case new_attr (CreateObjAttrDir now parentPath) c of
        (a, c1) \<Rightarrow> new_item (newAttrCacheItem a (it_exists c new) (ci_cachedAt (ct_items c new))) c1)"

function insertItem :: "string \<Rightarrow> nat \<Rightarrow> bool \<Rightarrow> int \<Rightarrow> cacheTreeMap \<Rightarrow> cacheTreeMap option" where
  "insertItem p new fromDirList now c =
     (let parentPath = getParentDir p; q = TruncateDirName (TruncateDirName parentPath) in
      if lacks_parent c parentPath new then
        (if p = [] then None
         else case new_parent now parentPath new c of
           (par, c1) \<Rightarrow> map_option (link_item p new par fromDirList) (insertItem q par fromDirList now c1))
      else map_option (\<lambda>par. link_item p new par fromDirList c) (ct_get c parentPath))"
  by pat_completeness auto
termination by (relation "measure (\<lambda>(p, _). length p)") (auto intro: parent_key_shorter)

declare insertItem.simps [simp del]

text \<open>
  \<open>insert\<close>, for an attribute that is a cell already. It returns the new item, or nil when the cache is
  full or the attribute is the root's.
\<close>

definition ct_insert ::
  "nat \<Rightarrow> bool \<Rightarrow> int \<Rightarrow> bool \<Rightarrow> int \<Rightarrow> cacheTreeMap \<Rightarrow> (nat option \<times> cacheTreeMap) option" where
  "ct_insert a ex cachedAt fromDirList now c =
     (if int (length (cacheMap c)) \<ge> maxFiles c then Some (None, c)
      else if a_Path (ct_attrs c a) = [] then Some (None, c)
      else case new_item (newAttrCacheItem a ex cachedAt) c of
        (i, c1) \<Rightarrow>
          map_option (\<lambda>c2. (Some i, c2))
            (insertItem (TruncateDirName (a_Path (ct_attrs c a))) i fromDirList now c1))"

definition insert_attr ::
  "ObjAttr \<Rightarrow> bool \<Rightarrow> int \<Rightarrow> bool \<Rightarrow> int \<Rightarrow> cacheTreeMap \<Rightarrow> (nat option \<times> cacheTreeMap) option" where
  "insert_attr attr ex cachedAt fromDirList now c =
     (case new_attr attr c of (a, c1) \<Rightarrow> ct_insert a ex cachedAt fromDirList now c1)"

text \<open>The nearest valid ancestor.\<close>

function getCachedParent :: "cacheTreeMap \<Rightarrow> string \<Rightarrow> nat option" where
  "getCachedParent c name =
     (if name = [] then None
      else case ct_get c (getParentDir name) of
        Some i \<Rightarrow> if it_valid c i then Some i else getCachedParent c (getParentDir name)
      | None \<Rightarrow> getCachedParent c (getParentDir name))"
  by pat_completeness auto
termination by (relation "measure (\<lambda>(_, name). length name)") (auto intro: getParentDir_shorter)

declare getCachedParent.simps [simp del]

section \<open>Recursion over the tree\<close>

fun fold_opt :: "('a \<Rightarrow> 's \<Rightarrow> 's option) \<Rightarrow> 'a list \<Rightarrow> 's \<Rightarrow> 's option" where
  "fold_opt f [] s = Some s"
| "fold_opt f (x # xs) s = (case f x s of None \<Rightarrow> None | Some s' \<Rightarrow> fold_opt f xs s')"

text \<open>
  A child's path is longer than its parent's, so the tree is no deeper than the longest path: one more
  than its length is enough fuel.
\<close>

definition tree_fuel :: "cacheTreeMap \<Rightarrow> nat" where
  "tree_fuel c = Suc (foldr (\<lambda>i m. max (length (ct_path c i)) m) [0..<ct_nitems c] 0)"

abbreviation child_items :: "cacheTreeMap \<Rightarrow> nat \<Rightarrow> nat list" where
  "child_items c i \<equiv> map snd (ci_children (ct_items c i))"

definition drop_parent_listing :: "nat \<Rightarrow> cacheTreeMap \<Rightarrow> cacheTreeMap" where
  "drop_parent_listing i c =
     (case ci_parent (ct_items c i) of
        None \<Rightarrow> c
      | Some par \<Rightarrow> upd_item par (\<lambda>it. it\<lparr>ci_listCache := []\<rparr>) c)"

definition set_deleted :: "int \<Rightarrow> nat \<Rightarrow> cacheTreeMap \<Rightarrow> cacheTreeMap" where
  "set_deleted t i c =
     upd_item i (\<lambda>it. it\<lparr>ci_attrFlag := set_flag AttrFlagValid (clear_flag AttrFlagExists (ci_attrFlag it)),
                        ci_cachedAt := t\<rparr>) (drop_parent_listing i c)"

primrec mark_deleted :: "nat \<Rightarrow> int \<Rightarrow> nat \<Rightarrow> cacheTreeMap \<Rightarrow> cacheTreeMap option" where
  "mark_deleted 0 t i c = None"
| "mark_deleted (Suc k) t i c =
     (if isRoot c i then Some c
      else if \<not> it_exists c i then Some c
      else map_option (set_deleted t i) (fold_opt (mark_deleted k t) (child_items c i) c))"

definition markDeleted :: "nat \<Rightarrow> int \<Rightarrow> cacheTreeMap \<Rightarrow> cacheTreeMap option" where
  "markDeleted i t c = mark_deleted (tree_fuel c) t i c"

definition drop_parent_complete :: "nat \<Rightarrow> cacheTreeMap \<Rightarrow> cacheTreeMap" where
  "drop_parent_complete i c =
     (case ci_parent (ct_items c i) of
        None \<Rightarrow> c
      | Some par \<Rightarrow>
          if it_exists c par
          then upd_item par (\<lambda>it. it\<lparr>ci_listCache := [], ci_listingComplete := False\<rparr>) c else c)"

definition set_invalid :: "nat \<Rightarrow> cacheTreeMap \<Rightarrow> cacheTreeMap" where
  "set_invalid i c =
     upd_item i (\<lambda>it. it\<lparr>ci_attrFlag := clear_flag AttrFlagValid (ci_attrFlag it)\<rparr>) (drop_parent_complete i c)"

primrec invalidate_item :: "nat \<Rightarrow> nat \<Rightarrow> cacheTreeMap \<Rightarrow> cacheTreeMap option" where
  "invalidate_item 0 i c = None"
| "invalidate_item (Suc k) i c =
     (if isRoot c i then Some c
      else if \<not> it_valid c i then Some c
      else map_option (set_invalid i) (fold_opt (invalidate_item k) (child_items c i) c))"

definition invalidate :: "nat \<Rightarrow> cacheTreeMap \<Rightarrow> cacheTreeMap option" where
  "invalidate i c = invalidate_item (tree_fuel c) i c"

section \<open>Updates of one item\<close>

definition markInCloud :: "nat \<Rightarrow> bool \<Rightarrow> cacheTreeMap \<Rightarrow> cacheTreeMap" where
  "markInCloud i inCloud c =
     (if isRoot c i \<and> \<not> inCloud then c
      else if \<not> IsDir (ct_attr c i) then c
      else upd_item i (\<lambda>it. it\<lparr>ci_attrFlag :=
             (if inCloud then clear_flag AttrFlagNotInCloud (ci_attrFlag it)
              else set_flag AttrFlagNotInCloud (ci_attrFlag it))\<rparr>) c)"

definition setSize :: "nat \<Rightarrow> int \<Rightarrow> int \<Rightarrow> cacheTreeMap \<Rightarrow> cacheTreeMap" where
  "setSize i sz t c =
     upd_item i (\<lambda>it. it\<lparr>ci_cachedAt := t\<rparr>)
       (upd_attr i (\<lambda>a. a\<lparr>a_Mtime := t, a_Ctime := t, a_Size := sz\<rparr>) c)"

definition touchModifyAndChangeTimes :: "nat option \<Rightarrow> int \<Rightarrow> cacheTreeMap \<Rightarrow> cacheTreeMap" where
  "touchModifyAndChangeTimes it t c =
     (case it of
        None \<Rightarrow> c
      | Some i \<Rightarrow>
          if \<not> it_exists c i then c
          else upd_item i (\<lambda>it. it\<lparr>ci_cachedAt := t\<rparr>)
                 (upd_attr i (\<lambda>a. a\<lparr>a_Mtime := t, a_Ctime := t\<rparr>) c))"

definition setMode :: "nat \<Rightarrow> file_mode \<Rightarrow> int \<Rightarrow> cacheTreeMap \<Rightarrow> cacheTreeMap" where
  "setMode i mode now c =
     (let currentType = a_Mode (ct_attr c i) AND ModeType;
          currentType = (if currentType = 0 then mode AND ModeType else currentType);
          modeBits = mode AND (ModePerm OR ModeSetuid OR ModeSetgid OR ModeSticky)
      in upd_item i (\<lambda>it. it\<lparr>ci_cachedAt := now\<rparr>)
           (upd_attr i (\<lambda>a. a\<lparr>a_Mode := currentType OR modeBits,
                             a_Flags := clear_flag PropFlagModeDefault (a_Flags a), a_Ctime := now\<rparr>) c))"

end
