(* ===== verification/Attr_Cache.thy ===== *)
theory Attr_Cache
  imports Cache_Tree
begin

text \<open>
  The attribute cache component (\<open>component/attr_cache/attr_cache.go\<close>): it answers \<open>GetAttr\<close>, listings
  and \<open>IsDirEmpty\<close> from the tree of \<open>Cache_Tree\<close> while its entries are fresh, and keeps the tree in step
  with the operations that pass through it.

  Times are in nanoseconds, timeouts in seconds. An operation reads the clock once. Every handler
  holds the cache's lock while it works on the tree, so a handler's tree part is one step. Attributes
  are handed to the caller by value; inside the cache they stay shared with the cached listings.
\<close>

section \<open>State\<close>

definition defaultAttrCacheTimeout :: int where "defaultAttrCacheTimeout = 120"
definition defaultMaxFiles :: int where "defaultMaxFiles = 5000000"

record AttrCache =
  ac_cacheTimeout :: int
  ac_cacheOnList :: bool
  ac_enableSymlinks :: bool
  ac_maxFiles :: int
  ac_cache :: cacheTreeMap

text \<open>
  The configuration: \<open>None\<close> when the section cannot be read; a field is present when its key is set,
  except for the first two booleans (\<open>no-cache-on-list\<close>, \<open>enable-symlinks\<close>), read with their default.
\<close>

record ac_config =
  cfg_noCacheOnList :: bool
  cfg_enableSymlinks :: bool
  cfg_enableSymlinksSet :: bool
  cfg_timeout :: "int option"
  cfg_cacheOnList :: "bool option"
  cfg_maxFiles :: "int option"
  cfg_noSymlinks :: "bool option"

definition ac_Configure :: "ac_config option \<Rightarrow> AttrCache \<Rightarrow> err \<times> AttrCache" where
  "ac_Configure conf ac =
     (case conf of
        None \<Rightarrow> (Some (Errorf ''config error in attr_cache''), ac)
      | Some cfg \<Rightarrow>
          (None, ac\<lparr>
             ac_cacheTimeout := (case cfg_timeout cfg of Some t \<Rightarrow> t | None \<Rightarrow> defaultAttrCacheTimeout),
             ac_cacheOnList := (case cfg_cacheOnList cfg of Some b \<Rightarrow> b | None \<Rightarrow> \<not> cfg_noCacheOnList cfg),
             ac_maxFiles := (case cfg_maxFiles cfg of Some n \<Rightarrow> n | None \<Rightarrow> defaultMaxFiles),
             ac_enableSymlinks := (case cfg_noSymlinks cfg of
                 Some no \<Rightarrow> if \<not> cfg_enableSymlinksSet cfg then \<not> no else cfg_enableSymlinks cfg
               | None \<Rightarrow> cfg_enableSymlinks cfg)\<rparr>))"

definition ac_Start :: "int \<Rightarrow> AttrCache \<Rightarrow> AttrCache" where
  "ac_Start now ac = ac\<lparr>ac_cache := newCacheTreeMap (ac_maxFiles ac) now\<rparr>"

text \<open>\<open>time.Since(t).Seconds() >= timeout\<close>.\<close>

definition expired :: "AttrCache \<Rightarrow> int \<Rightarrow> int \<Rightarrow> bool" where
  "expired ac now t \<longleftrightarrow> now - t \<ge> ac_cacheTimeout ac * 1000000000"

text \<open>A crash-free change of the tree inside the component.\<close>

definition with_cache :: "AttrCache \<Rightarrow> cacheTreeMap option \<Rightarrow> AttrCache option" where
  "with_cache ac r = map_option (\<lambda>c. ac\<lparr>ac_cache := c\<rparr>) r"

section \<open>Helpers\<close>

text \<open>
  The walks to the ancestors take the directory's item, or make one. A nil item (from a full cache, or
  for the attribute of the root) is dereferenced: a crash.
\<close>

definition dir_item :: "string \<Rightarrow> int \<Rightarrow> cacheTreeMap \<Rightarrow> (nat \<times> cacheTreeMap) option" where
  "dir_item dirPath now c =
     (let make = (case insert_attr (CreateObjAttrDir now dirPath) True now False now c of
                    Some (Some j, c1) \<Rightarrow> Some (j, c1) | _ \<Rightarrow> None)
      in case ct_get c dirPath of
           Some i \<Rightarrow> if it_exists c i then Some (i, c) else make
         | None \<Rightarrow> make)"

definition known_in_cloud :: "string \<Rightarrow> cacheTreeMap \<Rightarrow> bool" where
  "known_in_cloud dirPath c =
     (case ct_get c dirPath of Some i \<Rightarrow> it_exists c i \<and> isInCloud c i | None \<Rightarrow> False)"

function markAncestorsInCloud :: "string \<Rightarrow> int \<Rightarrow> cacheTreeMap \<Rightarrow> cacheTreeMap option" where
  "markAncestorsInCloud dirPath now c =
     (if dirPath = [] then Some c
      else if known_in_cloud dirPath c then Some c
      else case dir_item dirPath now c of
        None \<Rightarrow> None
      | Some (i, c1) \<Rightarrow> markAncestorsInCloud (getParentDir dirPath) now (markInCloud i True c1))"
  by pat_completeness auto
termination by (relation "measure (\<lambda>(p, _). length p)") (auto intro: getParentDir_shorter)

declare markAncestorsInCloud.simps [simp del]

definition anyChildrenInCloud :: "cacheTreeMap \<Rightarrow> nat \<Rightarrow> bool" where
  "anyChildrenInCloud c i \<longleftrightarrow> list_ex (\<lambda>j. it_exists c j \<and> isInCloud c j) (child_items c i)"

function updateAncestorsInCloud :: "string \<Rightarrow> int \<Rightarrow> cacheTreeMap \<Rightarrow> cacheTreeMap option" where
  "updateAncestorsInCloud dirPath now c =
     (if dirPath = [] then Some c
      else case dir_item dirPath now c of
        None \<Rightarrow> None
      | Some (i, c1) \<Rightarrow>
          if isInCloud c1 i \<noteq> anyChildrenInCloud c1 i
          then updateAncestorsInCloud (getParentDir dirPath) now (markInCloud i (anyChildrenInCloud c1 i) c1)
          else Some c1)"
  by pat_completeness auto
termination by (relation "measure (\<lambda>(p, _). length p)") (auto intro: getParentDir_shorter)

declare updateAncestorsInCloud.simps [simp del]

definition touchParentDirTimes :: "string \<Rightarrow> int \<Rightarrow> cacheTreeMap \<Rightarrow> cacheTreeMap option" where
  "touchParentDirTimes childPath t c =
     (let parentPath = getParentDir childPath in
      case ct_get c parentPath of
        Some i \<Rightarrow>
          if it_exists c i then Some (touchModifyAndChangeTimes (Some i) t c)
          else map_option (\<lambda>(it, c1). touchModifyAndChangeTimes it t c1)
                 (insert_attr ((CreateObjAttrDir t parentPath)\<lparr>a_Ctime := t, a_Mtime := t\<rparr>) True t False t c)
      | None \<Rightarrow>
          map_option (\<lambda>(it, c1). touchModifyAndChangeTimes it t c1)
            (insert_attr ((CreateObjAttrDir t parentPath)\<lparr>a_Ctime := t, a_Mtime := t\<rparr>) True t False t c))"

text \<open>\<open>deleteDirectory\<close>; the directory must exist in the cache.\<close>

definition deleteDirectory :: "string \<Rightarrow> int \<Rightarrow> cacheTreeMap \<Rightarrow> (err \<times> cacheTreeMap) option" where
  "deleteDirectory p deletedAt c =
     (case ct_get c p of
        Some i \<Rightarrow>
          if it_exists c i
          then map_option (\<lambda>c1. (None, c1))
                 (Option.bind (markDeleted i deletedAt c) (updateAncestorsInCloud (getParentDir p) deletedAt))
          else Some (Some (Errno ENOENT), c)
      | None \<Rightarrow> Some (Some (Errno ENOENT), c))"

text \<open>\<open>invalidateDirectory\<close> finds each subdirectory again through the map.\<close>

primrec invalidate_dir :: "nat \<Rightarrow> string \<Rightarrow> cacheTreeMap \<Rightarrow> cacheTreeMap option" where
  "invalidate_dir 0 p c = None"
| "invalidate_dir (Suc k) p c =
     (case ct_get c p of
        None \<Rightarrow> Some c
      | Some i \<Rightarrow>
          if \<not> it_valid c i then Some c
          else fold_opt
            (\<lambda>j c1. if \<not> IsDir (ct_attr c1 j) then invalidate j c1 else invalidate_dir k (ct_path c1 j) c1)
            (child_items c i) c)"

definition invalidateDirectory :: "string \<Rightarrow> cacheTreeMap \<Rightarrow> cacheTreeMap option" where
  "invalidateDirectory p c = invalidate_dir (tree_fuel c) p c"

text \<open>
  \<open>moveCachedItem\<close>: the destination items are made top down, the source items are marked deleted bottom
  up. The result is nil for an item that does not exist. Inserting a destination item can fail on a
  full cache; the nil result is dereferenced.
\<close>

definition cloneMovedAttr :: "ObjAttr \<Rightarrow> string \<Rightarrow> ObjAttr" where
  "cloneMovedAttr srcAttr dstPath = srcAttr\<lparr>a_Path := dstPath, a_Name := path_base dstPath\<rparr>"

primrec move_item ::
  "nat \<Rightarrow> string \<Rightarrow> string \<Rightarrow> int \<Rightarrow> nat \<Rightarrow> cacheTreeMap \<Rightarrow> cacheTreeMap option" where
  "move_item 0 srcDir dstDir t i c = None"
| "move_item (Suc k) srcDir dstDir t i c =
     (if \<not> it_exists c i then Some c
      else
        case insert_attr (cloneMovedAttr (ct_attr c i) (replace_first srcDir dstDir (ct_path c i)))
               True (ci_cachedAt (ct_items c i)) False t c of
          Some (Some j, c1) \<Rightarrow>
            Option.bind
              (fold_opt (move_item k srcDir dstDir t) (child_items c1 i)
                 (markInCloud j (isInCloud c1 i) c1))
              (markDeleted i t)
        | _ \<Rightarrow> None)"

definition moveCachedItem :: "nat \<Rightarrow> string \<Rightarrow> string \<Rightarrow> int \<Rightarrow> cacheTreeMap \<Rightarrow> cacheTreeMap option" where
  "moveCachedItem i srcDir dstDir t c = move_item (tree_fuel c) srcDir dstDir t i c"

text \<open>Forgetting what is known of one path after its content changed in storage.\<close>

definition forget_path :: "string \<Rightarrow> cacheTreeMap \<Rightarrow> cacheTreeMap option" where
  "forget_path p c =
     (case ct_get c p of
        Some i \<Rightarrow> invalidate i c
      | None \<Rightarrow>
          (case ct_get c (getParentDir p) of
             Some par \<Rightarrow>
               Some (if it_exists c par
                     then upd_item par (\<lambda>it. it\<lparr>ci_listCache := [], ci_listingComplete := False\<rparr>) c else c)
           | None \<Rightarrow> Some c))"

section \<open>Background cleanup\<close>

fun insert_desc :: "string \<Rightarrow> string list \<Rightarrow> string list" where
  "insert_desc s [] = [s]"
| "insert_desc s (x # xs) =
     (if lex_le (string_code x) (string_code s) then s # x # xs else x # insert_desc s xs)"

definition sort_desc :: "string list \<Rightarrow> string list" where
  "sort_desc ss = foldr insert_desc ss []"

definition keysToDelete :: "AttrCache \<Rightarrow> int \<Rightarrow> string list" where
  "keysToDelete ac now =
     (let c = ac_cache ac in
      sort_desc (map fst (filter (\<lambda>(p, i). p \<noteq> [] \<and> expired ac now (ci_cachedAt (ct_items c i))) (cacheMap c))))"

definition cleanup_key :: "AttrCache \<Rightarrow> int \<Rightarrow> string \<Rightarrow> cacheTreeMap \<Rightarrow> cacheTreeMap option" where
  "cleanup_key ac now p c =
     (case map_of (cacheMap c) p of
        None \<Rightarrow> Some c
      | Some i \<Rightarrow>
          if ci_children (ct_items c i) = [] \<and> expired ac now (ci_cachedAt (ct_items c i))
          then map_option
            (\<lambda>c1. (case ci_parent (ct_items c1 i) of
                     Some par \<Rightarrow>
                       upd_item par (\<lambda>it. it\<lparr>ci_children := map_remove (a_Name (ct_attr c1 i)) (ci_children it)\<rparr>) c1
                   | None \<Rightarrow> c1)
                 \<lparr>cacheMap := map_remove p (cacheMap c1)\<rparr>)
            (if it_exists c i then invalidate i c else Some c)
          else Some c)"

definition cleanupExpiredEntries :: "'n component \<Rightarrow> int \<Rightarrow> AttrCache \<times> 'n \<Rightarrow> (AttrCache \<times> 'n) option" where
  "cleanupExpiredEntries nc now = (\<lambda>(ac, n).
     case CloudConnected nc now () n of
       None \<Rightarrow> None
     | Some (online, n1) \<Rightarrow>
         if \<not> online then Some (ac, n1)
         else map_option (\<lambda>ac1. (ac1, n1))
           (with_cache ac (fold_opt (cleanup_key ac now) (keysToDelete ac now) (ac_cache ac))))"

section \<open>Attributes\<close>

text \<open>
  \<open>GetAttr\<close>: what the cache knows of the path as attribute and error, and whether it may be served.
\<close>

definition cached_answer :: "AttrCache \<Rightarrow> int \<Rightarrow> string \<Rightarrow> (ObjAttr option \<times> err) \<times> bool" where
  "cached_answer ac now name =
     (let c = ac_cache ac;
          (attr, e, fresh) =
            (case ct_get c name of
               Some i \<Rightarrow>
                 if it_valid c i
                 then (if it_exists c i then Some (ct_attr c i) else None,
                       if it_exists c i then None else Some (Errno ENOENT),
                       \<not> expired ac now (ci_cachedAt (ct_items c i)))
                 else (None, None, False)
             | None \<Rightarrow> (None, None, False))
      in if fresh then ((attr, e), True)
         else case getCachedParent c name of
           Some par \<Rightarrow>
             if \<not> it_exists c par \<or> ci_listingComplete (ct_items c par)
             then ((attr, Some (Errno ENOENT)), \<not> expired ac now (ci_cachedAt (ct_items c par)))
             else ((attr, e), False)
         | None \<Rightarrow> ((attr, e), False))"

definition ac_GetAttr :: "'n component \<Rightarrow> (AttrCache \<times> 'n, GetAttrOptions, ObjAttr option \<times> err) handler" where
  "ac_GetAttr nc now options = (\<lambda>(ac, n).
     let ((attrFromCache, errFromCache), respond) = cached_answer ac now (ga_Name options) in
     if respond then Some ((attrFromCache, errFromCache), (ac, n))
     else do {
       ((pathAttr, err), n1) \<leftarrow> GetAttr nc now options n;
       (case err of
          None \<Rightarrow> do {
            (it, c1) \<leftarrow> (case pathAttr of
                           None \<Rightarrow> Some (None, ac_cache ac)
                         | Some a \<Rightarrow> insert_attr a True now False now (ac_cache ac));
            c2 \<leftarrow> markAncestorsInCloud (getParentDir (ga_Name options)) now c1;
            Some ((pathAttr, None), (ac\<lparr>ac_cache := c2\<rparr>, n1))
          }
        | Some e \<Rightarrow>
            if e = Errno ENOENT then do {
              (it, c1) \<leftarrow> insert_attr (CreateObjAttr (ga_Name options) 0 now) False now False now (ac_cache ac);
              Some ((pathAttr, err), (ac\<lparr>ac_cache := c1\<rparr>, n1))
            }
            else if is_cloud_unreachable e then
              (if attrFromCache \<noteq> None \<or> errFromCache \<noteq> None
               then Some ((attrFromCache, errors_join [errFromCache, err]), (ac, n1))
               else Some ((None, Some (NoCachedData e)), (ac, n1)))
            else Some ((pathAttr, err), (ac, n1)))
     })"

section \<open>Directories\<close>

definition ac_CreateDir :: "'n component \<Rightarrow> (AttrCache \<times> 'n, CreateDirOptions, err) handler" where
  "ac_CreateDir nc now options = (\<lambda>(ac, n). do {
     (err, n1) \<leftarrow> CreateDir nc now options n;
     let c = ac_cache ac;
     let name = cd_Name options;
     let found = ct_get c name;
     if err = None \<or> err = Some (Errno EEXIST) then
       (if (case found of Some i \<Rightarrow> it_exists c i | None \<Rightarrow> False) then Some (Some ErrExist, (ac, n1))
        else do {
          c1 \<leftarrow> (case found of Some i \<Rightarrow> markDeleted i now c | None \<Rightarrow> Some c);
          (it, c2) \<leftarrow> insert_attr (CreateObjAttrDir now name) True now False now c1;
          let c3 = (case it of
                      Some i \<Rightarrow> upd_item i (\<lambda>it. it\<lparr>ci_listingComplete := True\<rparr>) (markInCloud i False c2)
                    | None \<Rightarrow> c2);
          c4 \<leftarrow> (if err = None then touchParentDirTimes name now c3 else Some c3);
          let c5 = (case it of
                      Some i \<Rightarrow> if err = None then setMode i (cd_Mode options) now c4 else c4
                    | None \<Rightarrow> c4);
          Some (err, (ac\<lparr>ac_cache := c5\<rparr>, n1))
        })
     else Some (err, (ac, n1))
   })"

definition ac_DeleteDir :: "'n component \<Rightarrow> (AttrCache \<times> 'n, NameOptions, err) handler" where
  "ac_DeleteDir nc now options = (\<lambda>(ac, n). do {
     (err, n1) \<leftarrow> DeleteDir nc now options n;
     if err = None then do {
       (err2, c1) \<leftarrow> deleteDirectory (opt_Name options) now (ac_cache ac);
       c2 \<leftarrow> (if err2 = None then touchParentDirTimes (opt_Name options) now c1 else Some c1);
       Some (err2, (ac\<lparr>ac_cache := c2\<rparr>, n1))
     }
     else Some (err, (ac, n1))
   })"

text \<open>The listing helpers, on attribute cells.\<close>

fun new_attrs :: "ObjAttr list \<Rightarrow> cacheTreeMap \<Rightarrow> nat list \<times> cacheTreeMap" where
  "new_attrs [] c = ([], c)"
| "new_attrs (a # as) c =
     (case new_attr a c of (r, c1) \<Rightarrow> (case new_attrs as c1 of (rs, c2) \<Rightarrow> (r # rs, c2)))"

definition addDirsNotInCloudToListing :: "string \<Rightarrow> nat list \<Rightarrow> cacheTreeMap \<Rightarrow> nat list" where
  "addDirsNotInCloudToListing listPath pathList c =
     (case ct_get c listPath of
        Some dir \<Rightarrow>
          if it_exists c dir
          then pathList @ map (\<lambda>j. ci_attr (ct_items c j))
                 (filter (\<lambda>j. it_exists c j \<and> \<not> isInCloud c j) (child_items c dir))
          else pathList
      | None \<Rightarrow> pathList)"

text \<open>
  \<open>fetchCachedDirList\<close>: the cached page, or on the left what is left of an expired one. (Its error is
  only compared with nil.) The page is kept as the storage allocated it, so that one without entries is not
  nil: every storage of the repository answers a listing that succeeds with a slice it made (the
  loopback's answer to the token \<open>na\<close> apart).
\<close>

definition fetchCachedDirList ::
  "AttrCache \<Rightarrow> int \<Rightarrow> string \<Rightarrow> string \<Rightarrow> nat list option + (nat list \<times> string)" where
  "fetchCachedDirList ac now p token =
     (if \<not> ac_cacheOnList ac then Inl None
      else case ct_get (ac_cache ac) p of
        None \<Rightarrow> Inl None
      | Some i \<Rightarrow>
          (case map_of (ci_listCache (ct_items (ac_cache ac) i)) token of
             None \<Rightarrow> Inl None
           | Some seg \<Rightarrow>
               if expired ac now (seg_cachedAt seg) then Inl (Some (seg_entries seg))
               else Inr (seg_entries seg, seg_nextToken seg)))"

definition cacheAttributes ::
  "AttrCache \<Rightarrow> int \<Rightarrow> nat list \<Rightarrow> string \<Rightarrow> cacheTreeMap \<Rightarrow> cacheTreeMap option" where
  "cacheAttributes ac now pathList listDirPath c =
     (if \<not> ac_cacheOnList ac then Some c
      else Option.bind (if pathList \<noteq> [] then markAncestorsInCloud listDirPath now c else Some c)
        (fold_opt (\<lambda>a c1. map_option snd (ct_insert a True now True now c1)) pathList))"

definition cacheListSegment ::
  "AttrCache \<Rightarrow> int \<Rightarrow> nat list \<Rightarrow> string \<Rightarrow> string \<Rightarrow> string \<Rightarrow> cacheTreeMap \<Rightarrow> cacheTreeMap" where
  "cacheListSegment ac now pathList listDirPath token nextToken c =
     (if \<not> ac_cacheOnList ac then c
      else case ct_get c listDirPath of
        None \<Rightarrow> c
      | Some i \<Rightarrow>
          upd_item i (\<lambda>it. it\<lparr>ci_listCache := map_store token
            \<lparr>seg_entries = pathList, seg_nextToken = nextToken, seg_cachedAt = now\<rparr> (ci_listCache it)\<rparr>) c)"

definition markListingComplete :: "string \<Rightarrow> int \<Rightarrow> cacheTreeMap \<Rightarrow> cacheTreeMap" where
  "markListingComplete listDirPath now c =
     (case ct_get c listDirPath of
        Some i \<Rightarrow> upd_item i (\<lambda>it. it\<lparr>ci_listingComplete := True, ci_cachedAt := now\<rparr>) c
      | None \<Rightarrow> c)"

text \<open>Sorting by path (equal paths in their order) and dropping all but the first of equal neighbours.\<close>

definition sort_attrs :: "cacheTreeMap \<Rightarrow> nat list \<Rightarrow> nat list" where
  "sort_attrs c rs = map snd (sort_by_name (map (\<lambda>r. (a_Path (ct_attrs c r), r)) rs))"

fun compact_attrs :: "cacheTreeMap \<Rightarrow> nat list \<Rightarrow> nat list" where
  "compact_attrs c [] = []"
| "compact_attrs c [r] = [r]"
| "compact_attrs c (r # s # rs) =
     (if a_Path (ct_attrs c r) = a_Path (ct_attrs c s) then compact_attrs c (r # rs)
      else r # compact_attrs c (s # rs))"

text \<open>
  The page the storage returned, merged with the cache. Its results are the cells, the token and the
  error to return.
\<close>

definition merge_listing ::
  "AttrCache \<Rightarrow> int \<Rightarrow> StreamDirOptions \<Rightarrow> nat list option \<Rightarrow> nat list \<Rightarrow> string \<Rightarrow> err \<Rightarrow> cacheTreeMap \<Rightarrow>
     ((nat list \<times> string \<times> err) \<times> cacheTreeMap) option" where
  "merge_listing ac now options cachedPathList pathList nextToken err c =
     (case err of
        None \<Rightarrow> do {
          c1 \<leftarrow> cacheAttributes ac now pathList (sd_Name options) c;
          c2 \<leftarrow> (if pathList \<noteq> [] then markAncestorsInCloud (sd_Name options) now c1 else Some c1);
          let merged = (if nextToken = [] then addDirsNotInCloudToListing (sd_Name options) pathList c2 else pathList);
          Some ((merged, nextToken, None), c2)
        }
      | Some e \<Rightarrow>
          if is_cloud_unreachable e then
            (case cachedPathList of
               Some rs \<Rightarrow> Some ((rs, [], err), c)
             | None \<Rightarrow>
                 (case ct_get c (sd_Name options) of
                    Some i \<Rightarrow>
                      if sd_Token options = []
                      then Some ((pathList @ map (\<lambda>j. ci_attr (ct_items c j))
                                   (filter (\<lambda>j. it_exists c j \<and> it_valid c j) (child_items c i)),
                                 nextToken, err), c)
                      else Some ((pathList, nextToken, Some (NoCachedData e)), c)
                  | None \<Rightarrow> Some ((pathList, nextToken, Some (NoCachedData e)), c)))
          else Some ((pathList, nextToken, err), c))"

definition ac_StreamDir ::
  "'n component \<Rightarrow> (AttrCache \<times> 'n, StreamDirOptions, ObjAttr list \<times> string \<times> err) handler" where
  "ac_StreamDir nc now options = (\<lambda>(ac, n).
     case fetchCachedDirList ac now (sd_Name options) (sd_Token options) of
       Inr (rs, token) \<Rightarrow> Some ((map (ct_attrs (ac_cache ac)) rs, token, None), (ac, n))
     | Inl cachedPathList \<Rightarrow> do {
         ((attrs, token, err), n1) \<leftarrow> StreamDir nc now options n;
         let (refs, c) = new_attrs attrs (ac_cache ac);
         ((pathList, nextToken, err1), c1) \<leftarrow> merge_listing ac now options cachedPathList refs token err c;
         let pathList = compact_attrs c1 (sort_attrs c1 pathList);
         let c2 = (if err1 = None
                   then (let c2 = cacheListSegment ac now pathList (sd_Name options) (sd_Token options) nextToken c1
                         in if nextToken = [] then markListingComplete (sd_Name options) now c2 else c2)
                   else c1);
         Some ((map (ct_attrs c2) pathList, nextToken, err1), (ac\<lparr>ac_cache := c2\<rparr>, n1))
       })"

definition ac_IsDirEmpty :: "'n component \<Rightarrow> (AttrCache \<times> 'n, NameOptions, bool) handler" where
  "ac_IsDirEmpty nc now options = (\<lambda>(ac, n).
     let c = ac_cache ac; ask = map_option (\<lambda>(b, n1). (b, (ac, n1))) (IsDirEmpty nc now options n) in
     case ct_get c (opt_Name options) of
       None \<Rightarrow> ask
     | Some i \<Rightarrow>
         if \<not> it_exists c i then ask
         else if list_ex (it_exists c) (child_items c i) then Some (False, (ac, n))
         else if ci_listingComplete (ct_items c i) \<and> \<not> expired ac now (ci_cachedAt (ct_items c i))
         then Some (True, (ac, n))
         else ask)"

definition ac_RenameDir :: "'n component \<Rightarrow> (AttrCache \<times> 'n, RenameDirOptions, err) handler" where
  "ac_RenameDir nc now options = (\<lambda>(ac, n). do {
     (err, n1) \<leftarrow> RenameDir nc now options n;
     let c = ac_cache ac;
     let src = rd_Src options;
     let dst = rd_Dst options;
     if err \<noteq> None then Some (err, (ac, n1))
     else if (case ct_get c dst of Some i \<Rightarrow> it_exists c i | None \<Rightarrow> False) then Some (Some ErrExist, (ac, n1))
     else case ct_get c src of
       None \<Rightarrow> Some (Some (Errno ENOENT), (ac, n1))
     | Some i \<Rightarrow>
         if \<not> it_exists c i then Some (Some (Errno ENOENT), (ac, n1))
         else do {
           c1 \<leftarrow> moveCachedItem i (TruncateDirName src) (TruncateDirName dst) now c;
           c2 \<leftarrow> touchParentDirTimes src now c1;
           c3 \<leftarrow> (if getParentDir src \<noteq> getParentDir dst then touchParentDirTimes dst now c2 else Some c2);
           Some (None, (ac\<lparr>ac_cache := c3\<rparr>, n1))
         }
   })"

section \<open>Files\<close>

definition ac_CreateFile :: "'n component \<Rightarrow> (AttrCache \<times> 'n, CreateFileOptions, Handle option \<times> err) handler" where
  "ac_CreateFile nc now options = (\<lambda>(ac, n). do {
     ((h, err), n1) \<leftarrow> CreateFile nc now options n;
     if err = None then do {
       let name = cf_Name options;
       c1 \<leftarrow> markAncestorsInCloud (getParentDir name) now (ac_cache ac);
       (it, c2) \<leftarrow> insert_attr (CreateObjAttr name 0 now) True now False now c1;
       let c3 = (case it of Some i \<Rightarrow> setMode i (cf_Mode options) now c2 | None \<Rightarrow> c2);
       c4 \<leftarrow> touchParentDirTimes name now c3;
       Some ((h, None), (ac\<lparr>ac_cache := c4\<rparr>, n1))
     }
     else Some ((h, err), (ac, n1))
   })"

definition ac_OpenFile :: "'n component \<Rightarrow> (AttrCache \<times> 'n, OpenFileOptions, Handle option \<times> err) handler" where
  "ac_OpenFile nc now options = (\<lambda>(ac, n). do {
     ((h, err), n1) \<leftarrow> OpenFile nc now options n;
     if is_not_exist err then do {
       let c = ac_cache ac;
       c1 \<leftarrow> (case ct_get c (of_Name options) of
                Some i \<Rightarrow> if it_exists c i then markDeleted i now c else Some c
              | None \<Rightarrow> Some c);
       c2 \<leftarrow> updateAncestorsInCloud (getParentDir (of_Name options)) now c1;
       Some ((h, err), (ac\<lparr>ac_cache := c2\<rparr>, n1))
     }
     else Some ((h, err), (ac, n1))
   })"

text \<open>
  Without a valid entry a new one is inserted, to be marked deleted; on a full cache the nil item is
  dereferenced.
\<close>

definition ac_DeleteFile :: "'n component \<Rightarrow> (AttrCache \<times> 'n, NameOptions, err) handler" where
  "ac_DeleteFile nc now options = (\<lambda>(ac, n). do {
     (err, n1) \<leftarrow> DeleteFile nc now options n;
     if err = None then do {
       let name = opt_Name options;
       let c = ac_cache ac;
       (it, c1) \<leftarrow> (case ct_get c name of
                      Some i \<Rightarrow>
                        if it_valid c i then Some (Some i, c)
                        else insert_attr (CreateObjAttr name 0 now) True now False now c
                    | None \<Rightarrow> insert_attr (CreateObjAttr name 0 now) True now False now c);
       i \<leftarrow> it;
       c2 \<leftarrow> markDeleted i now c1;
       c3 \<leftarrow> updateAncestorsInCloud (getParentDir name) now c2;
       c4 \<leftarrow> touchParentDirTimes name now c3;
       Some (None, (ac\<lparr>ac_cache := c4\<rparr>, n1))
     }
     else Some (err, (ac, n1))
   })"

definition ac_RenameFile :: "'n component \<Rightarrow> (AttrCache \<times> 'n, RenameFileOptions, err) handler" where
  "ac_RenameFile nc now options = (\<lambda>(ac, n). do {
     (err, n1) \<leftarrow> RenameFile nc now options n;
     let c = ac_cache ac;
     let src = rf_Src options;
     let dst = rf_Dst options;
     if err \<noteq> None then Some (err, (ac, n1))
     else case ct_get c src of
       None \<Rightarrow> Some (None, (ac, n1))
     | Some i \<Rightarrow>
         if \<not> it_exists c i then Some (None, (ac, n1))
         else do {
           c1 \<leftarrow> moveCachedItem i src dst now c;
           c2 \<leftarrow> updateAncestorsInCloud (getParentDir src) now c1;
           c3 \<leftarrow> markAncestorsInCloud (getParentDir dst) now c2;
           c4 \<leftarrow> touchParentDirTimes src now c3;
           c5 \<leftarrow> (if getParentDir src \<noteq> getParentDir dst then touchParentDirTimes dst now c4 else Some c4);
           Some (None, (ac\<lparr>ac_cache := c5\<rparr>, n1))
         }
   })"

text \<open>An existing entry of the path, or a new one; nil on a full cache is a crash.\<close>

definition entry_or_new :: "string \<Rightarrow> int \<Rightarrow> int \<Rightarrow> cacheTreeMap \<Rightarrow> (nat \<times> cacheTreeMap) option" where
  "entry_or_new name sz now c =
     (let make = (case insert_attr (CreateObjAttr name sz now) True now False now c of
                    Some (Some j, c1) \<Rightarrow> Some (j, c1) | _ \<Rightarrow> None)
      in case ct_get c name of
           Some i \<Rightarrow> if it_exists c i then Some (i, c) else make
         | None \<Rightarrow> make)"

definition ac_WriteFile :: "'n component \<Rightarrow> (AttrCache \<times> 'n, WriteFileOptions, int \<times> err) handler" where
  "ac_WriteFile nc now options s = do {
     let name = h_Path (wf_Handle options);
     ((attr, err), s1) \<leftarrow> ac_GetAttr nc now \<lparr>ga_Name = name, ga_RetrieveMetadata = True\<rparr> s;
     if err \<noteq> None \<and> \<not> is_not_exist err then Some ((0, err), s1)
     else do {
       let options = (case attr of Some a \<Rightarrow> options\<lparr>wf_Metadata := a_Metadata a\<rparr> | None \<Rightarrow> options);
       let (ac, n) = s1;
       ((sz, err), n1) \<leftarrow> WriteFile nc now options n;
       if err = None then do {
         let newSize = wrap64 (wf_Offset options + int (length (wf_Data options)));
         (i, c1) \<leftarrow> entry_or_new name newSize now (ac_cache ac);
         let c2 = upd_attr i (\<lambda>a. a\<lparr>a_Metadata := wf_Metadata options\<rparr>) (setSize i newSize now c1);
         Some ((sz, None), (ac\<lparr>ac_cache := c2\<rparr>, n1))
       }
       else Some ((sz, err), (ac, n1))
     }
   }"

definition ac_TruncateFile :: "'n component \<Rightarrow> (AttrCache \<times> 'n, TruncateFileOptions, err) handler" where
  "ac_TruncateFile nc now options = (\<lambda>(ac, n). do {
     (err, n1) \<leftarrow> TruncateFile nc now options n;
     if err = None then do {
       (i, c1) \<leftarrow> entry_or_new (tf_Name options) (tf_NewSize options) now (ac_cache ac);
       Some (None, (ac\<lparr>ac_cache := setSize i (tf_NewSize options) now c1\<rparr>, n1))
     }
     else Some (err, (ac, n1))
   })"

definition ac_CopyToFile :: "'n component \<Rightarrow> (AttrCache \<times> 'n, CopyToFileOptions, err) handler" where
  "ac_CopyToFile nc now options = (\<lambda>(ac, n). do {
     (err, n1) \<leftarrow> CopyToFile nc now options n;
     let c = ac_cache ac;
     if is_not_exist err then do {
       c1 \<leftarrow> (case ct_get c (ct_Name options) of
                Some i \<Rightarrow> if it_exists c i then invalidate i c else Some c
              | None \<Rightarrow> Some c);
       Some (err, (ac\<lparr>ac_cache := c1\<rparr>, n1))
     }
     else Some (err, (ac, n1))
   })"

text \<open>The metadata of an upload: the given keys, completed by those the file has.\<close>

definition merged_metadata ::
  "(string \<times> string) list option \<Rightarrow> ObjAttr option \<Rightarrow> (string \<times> string) list option" where
  "merged_metadata given attr =
     (case attr of
        None \<Rightarrow> given
      | Some a \<Rightarrow>
          (case given of
             None \<Rightarrow> a_Metadata a
           | Some m \<Rightarrow>
               Some (fold (\<lambda>(k, v) m. if map_of m k = None then map_store k v m else m)
                       (case a_Metadata a of Some am \<Rightarrow> am | None \<Rightarrow> []) m)))"

definition ac_CopyFromFile :: "'n component \<Rightarrow> (AttrCache \<times> 'n, CopyFromFileOptions, err) handler" where
  "ac_CopyFromFile nc now options s = do {
     let name = cp_Name options;
     ((attr, err), s1) \<leftarrow> ac_GetAttr nc now \<lparr>ga_Name = name, ga_RetrieveMetadata = True\<rparr> s;
     if err \<noteq> None \<and> \<not> is_not_exist err then Some (err, s1)
     else do {
       let options = options\<lparr>cp_Metadata := merged_metadata (cp_Metadata options) attr\<rparr>;
       let (ac, n) = s1;
       (err, n1) \<leftarrow> CopyFromFile nc now options n;
       if err = None then do {
         c1 \<leftarrow> markAncestorsInCloud (getParentDir name) now (ac_cache ac);
         (case lf_Stat (cp_File options) of
            Inl statErr \<Rightarrow> do {
              c2 \<leftarrow> forget_path name c1;
              Some (None, (ac\<lparr>ac_cache := c2\<rparr>, n1))
            }
          | Inr (sz, mtime, mode) \<Rightarrow> do {
              (it, c2) \<leftarrow> insert_attr (CreateObjAttr name sz mtime) True now False now c1;
              i \<leftarrow> it;
              Some (None, (ac\<lparr>ac_cache := setMode i mode now c2\<rparr>, n1))
            })
       }
       else Some (err, (ac, n1))
     }
   }"

definition ac_SyncFile :: "'n component \<Rightarrow> (AttrCache \<times> 'n, SyncFileOptions, err) handler" where
  "ac_SyncFile nc now options = (\<lambda>(ac, n). do {
     (err, n1) \<leftarrow> SyncFile nc now options n;
     let c = ac_cache ac;
     if err = None then do {
       c1 \<leftarrow> (case ct_get c (h_Path (sf_Handle options)) of Some i \<Rightarrow> invalidate i c | None \<Rightarrow> Some c);
       Some (None, (ac\<lparr>ac_cache := c1\<rparr>, n1))
     }
     else Some (err, (ac, n1))
   })"

definition ac_SyncDir :: "'n component \<Rightarrow> (AttrCache \<times> 'n, NameOptions, err) handler" where
  "ac_SyncDir nc now options = (\<lambda>(ac, n). do {
     (err, n1) \<leftarrow> SyncDir nc now options n;
     if err = None then do {
       c1 \<leftarrow> invalidateDirectory (opt_Name options) (ac_cache ac);
       Some (None, (ac\<lparr>ac_cache := c1\<rparr>, n1))
     }
     else Some (err, (ac, n1))
   })"

definition ac_CreateLink :: "'n component \<Rightarrow> (AttrCache \<times> 'n, CreateLinkOptions, err) handler" where
  "ac_CreateLink nc now options = (\<lambda>(ac, n). do {
     (err, n1) \<leftarrow> CreateLink nc now options n;
     if err = None then do {
       let name = cl_Name options;
       let attr = CreateObjAttr name (int (length (cl_Target options))) now;
       (it, c1) \<leftarrow> insert_attr (attr\<lparr>a_Flags := set_flag PropFlagSymlink (a_Flags attr)\<rparr>) True now False now
                    (ac_cache ac);
       c2 \<leftarrow> markAncestorsInCloud (getParentDir name) now c1;
       c3 \<leftarrow> touchParentDirTimes name now c2;
       Some (None, (ac\<lparr>ac_cache := c3\<rparr>, n1))
     }
     else Some (err, (ac, n1))
   })"

definition ac_FlushFile :: "'n component \<Rightarrow> (AttrCache \<times> 'n, FlushFileOptions, err) handler" where
  "ac_FlushFile nc now options = (\<lambda>(ac, n). do {
     (err, n1) \<leftarrow> FlushFile nc now options n;
     let name = h_Path (ff_Handle options);
     if err = None then do {
       c1 \<leftarrow> forget_path name (ac_cache ac);
       c2 \<leftarrow> markAncestorsInCloud (getParentDir name) now c1;
       Some (None, (ac\<lparr>ac_cache := c2\<rparr>, n1))
     }
     else Some (err, (ac, n1))
   })"

definition ac_CommitData :: "'n component \<Rightarrow> (AttrCache \<times> 'n, CommitDataOptions, err) handler" where
  "ac_CommitData nc now options = (\<lambda>(ac, n). do {
     (err, n1) \<leftarrow> CommitData nc now options n;
     let name = cd_CommitName options;
     if err = None then do {
       c1 \<leftarrow> forget_path name (ac_cache ac);
       c2 \<leftarrow> markAncestorsInCloud (getParentDir name) now c1;
       Some (None, (ac\<lparr>ac_cache := c2\<rparr>, n1))
     }
     else Some (err, (ac, n1))
   })"

definition ac_Chmod :: "'n component \<Rightarrow> (AttrCache \<times> 'n, ChmodOptions, err) handler" where
  "ac_Chmod nc now options = (\<lambda>(ac, n). do {
     (err, n1) \<leftarrow> Chmod nc now options n;
     let c = ac_cache ac;
     if err = None then
       Some (None,
         (case ct_get c (cm_Name options) of
            Some i \<Rightarrow> if it_exists c i then ac\<lparr>ac_cache := setMode i (cm_Mode options) now c\<rparr> else ac
          | None \<Rightarrow> ac, n1))
     else Some (err, (ac, n1))
   })"

definition attr_cache_component :: "'n component \<Rightarrow> (AttrCache \<times> 'n) component" where
  "attr_cache_component nc = (component_below nc)\<lparr>
     CreateDir := ac_CreateDir nc, DeleteDir := ac_DeleteDir nc, IsDirEmpty := ac_IsDirEmpty nc,
     StreamDir := ac_StreamDir nc, RenameDir := ac_RenameDir nc, CreateFile := ac_CreateFile nc,
     DeleteFile := ac_DeleteFile nc, OpenFile := ac_OpenFile nc, RenameFile := ac_RenameFile nc,
     WriteFile := ac_WriteFile nc, TruncateFile := ac_TruncateFile nc, CopyToFile := ac_CopyToFile nc,
     CopyFromFile := ac_CopyFromFile nc, SyncFile := ac_SyncFile nc, SyncDir := ac_SyncDir nc,
     FlushFile := ac_FlushFile nc, CreateLink := ac_CreateLink nc, GetAttr := ac_GetAttr nc,
     Chmod := ac_Chmod nc, CommitData := ac_CommitData nc\<rparr>"

end
