(* ===== verification/Cache_Invariant.thy ===== *)
theory Cache_Invariant
  imports Attr_Cache
begin

text \<open>
  The shape of the attribute cache's tree: every mapped item is under the key of its path, the root is
  there and exists, children point to their parent and have a longer path, and no two items share an
  attribute. Every operation of the tree keeps it, and the walks over the tree return.
\<close>

section \<open>Paths\<close>

lemma split_on_mem: "x \<in> set (split_on c s) \<Longrightarrow> c \<notin> set x"
  by (induction s arbitrary: x) (auto split: if_splits list.splits)

lemma clean_comps_mem:
  "x \<in> set (clean_comps r acc cs) \<Longrightarrow> x \<in> set acc \<or> (x \<in> set cs \<and> x \<noteq> [])"
proof (induction r acc cs rule: clean_comps.induct)
  case (1 r acc)
  then show ?case by simp
next
  case (2 r acc c cs)
  then show ?case by (cases acc) (auto split: if_splits)
qed

lemma join_with_last:
  "cs \<noteq> [] \<Longrightarrow> \<forall>x \<in> set cs. x \<noteq> [] \<and> s \<notin> set x \<Longrightarrow>
     join_with [s] cs \<noteq> [] \<and> last (join_with [s] cs) \<noteq> s"
proof (induction "[s]" cs rule: join_with.induct)
  case (2 s)
  then show ?case by (metis join_with.simps(2) last_in_set list.set_intros(1))
qed auto

lemma path_clean_trailing: "suffix [slash] (path_clean p) \<Longrightarrow> path_clean p = [slash]"
proof -
  let ?r = "p \<noteq> [] \<and> hd p = slash"
  let ?cs = "clean_comps ?r [] (split_on slash p)"
  assume s: "suffix [slash] (path_clean p)"
  have cs: "\<forall>x \<in> set ?cs. x \<noteq> [] \<and> slash \<notin> set x"
    using clean_comps_mem [of _ ?r "[]" "split_on slash p"] split_on_mem [of _ slash p] by fastforce
  show ?thesis
  proof (cases "?cs = []")
    case True
    with s show ?thesis by (auto simp: path_clean_def Let_def suffix_def split: if_splits)
  next
    case False
    note j = join_with_last [OF this cs]
    then have "last (path_clean p) \<noteq> slash" by (simp add: path_clean_def Let_def)
    moreover have "last (path_clean p) = slash" using s by (auto simp: suffix_def)
    ultimately show ?thesis by simp
  qed
qed

lemma TruncateDirName_getParentDir:
  "TruncateDirName (TruncateDirName (getParentDir p)) = TruncateDirName (getParentDir p)"
proof (cases "suffix [slash] (getParentDir p)")
  case True
  then have "getParentDir p = [slash]"
    using path_clean_trailing by (auto simp: getParentDir_def path_dir_def Let_def split: if_splits)
  then show ?thesis by (simp add: TruncateDirName_def trim_suffix_def)
qed (simp add: TruncateDirName_def trim_suffix_def)
lemma Truncate_parent_no_slash: "TruncateDirName (getParentDir p) \<noteq> [slash]"
proof
  assume "TruncateDirName (getParentDir p) = [slash]"
  moreover have "TruncateDirName [slash] = []" by (simp add: TruncateDirName_def trim_suffix_def)
  ultimately show False using TruncateDirName_getParentDir [of p] by simp
qed

lemma TruncateDirName_eq_Nil: "TruncateDirName p = [] \<longleftrightarrow> p = [] \<or> p = [slash]"
  by (auto simp: TruncateDirName_def trim_suffix_def suffix_def)

section \<open>The invariant\<close>

definition rank :: "cacheTreeMap \<Rightarrow> nat \<Rightarrow> nat" where
  "rank c i = length (TruncateDirName (ct_path c i))"

definition ct_inv :: "cacheTreeMap \<Rightarrow> bool" where
  "ct_inv c \<longleftrightarrow>
     map_of (cacheMap c) [] = Some (cacheTree c) \<and> ct_path c (cacheTree c) = [] \<and> it_exists c (cacheTree c) \<and>
     (\<forall>k i. map_of (cacheMap c) k = Some i \<longrightarrow> i < ct_nitems c \<and> TruncateDirName (ct_path c i) = k) \<and>
     (\<forall>i < ct_nitems c. ci_attr (ct_items c i) < ct_nattrs c \<and> ct_path c i \<noteq> [slash]) \<and>
     (\<forall>i < ct_nitems c. \<forall>j < ct_nitems c. ci_attr (ct_items c i) = ci_attr (ct_items c j) \<longrightarrow> i = j) \<and>
     (\<forall>i < ct_nitems c. \<forall>j \<in> set (child_items c i).
        j < ct_nitems c \<and> rank c i < rank c j \<and> ci_parent (ct_items c j) = Some i)"

lemma ct_invD:
  assumes "ct_inv c"
  shows "map_of (cacheMap c) [] = Some (cacheTree c)" "ct_path c (cacheTree c) = []"
    "it_exists c (cacheTree c)"
    "map_of (cacheMap c) k = Some i \<Longrightarrow> i < ct_nitems c"
    "map_of (cacheMap c) k = Some i \<Longrightarrow> TruncateDirName (ct_path c i) = k"
    "i < ct_nitems c \<Longrightarrow> ci_attr (ct_items c i) < ct_nattrs c"
    "i < ct_nitems c \<Longrightarrow> j < ct_nitems c \<Longrightarrow> ci_attr (ct_items c i) = ci_attr (ct_items c j) \<Longrightarrow> i = j"
    "i < ct_nitems c \<Longrightarrow> j \<in> set (child_items c i) \<Longrightarrow> j < ct_nitems c"
    "i < ct_nitems c \<Longrightarrow> j \<in> set (child_items c i) \<Longrightarrow> rank c i < rank c j"
    "i < ct_nitems c \<Longrightarrow> j \<in> set (child_items c i) \<Longrightarrow> ci_parent (ct_items c j) = Some i"
    "i < ct_nitems c \<Longrightarrow> ct_path c i \<noteq> [slash]"
  using assms unfolding ct_inv_def by blast+

lemma ct_invI:
  assumes "map_of (cacheMap c) [] = Some (cacheTree c)" "ct_path c (cacheTree c) = []"
    "it_exists c (cacheTree c)"
    "\<And>k i. map_of (cacheMap c) k = Some i \<Longrightarrow> i < ct_nitems c \<and> TruncateDirName (ct_path c i) = k"
    "\<And>i. i < ct_nitems c \<Longrightarrow> ci_attr (ct_items c i) < ct_nattrs c \<and> ct_path c i \<noteq> [slash]"
    "\<And>i j. i < ct_nitems c \<Longrightarrow> j < ct_nitems c \<Longrightarrow> ci_attr (ct_items c i) = ci_attr (ct_items c j) \<Longrightarrow> i = j"
    "\<And>i j. i < ct_nitems c \<Longrightarrow> j \<in> set (child_items c i) \<Longrightarrow>
       j < ct_nitems c \<and> rank c i < rank c j \<and> ci_parent (ct_items c j) = Some i"
  shows "ct_inv c"
  using assms unfolding ct_inv_def by blast

lemma root_less: "ct_inv c \<Longrightarrow> cacheTree c < ct_nitems c"
  by (rule ct_invD(4) [OF _ ct_invD(1)])

lemma ct_get_less: "ct_inv c \<Longrightarrow> ct_get c p = Some i \<Longrightarrow> i < ct_nitems c"
  unfolding ct_get_def by (rule ct_invD(4))

lemma ct_get_key: "ct_inv c \<Longrightarrow> ct_get c p = Some i \<Longrightarrow> TruncateDirName (ct_path c i) = TruncateDirName p"
  unfolding ct_get_def by (rule ct_invD(5))

lemma TruncateDirName_Nil [simp]: "TruncateDirName [] = []"
  by (simp add: TruncateDirName_def trim_suffix_def)

lemma ct_get_root: "ct_inv c \<Longrightarrow> ct_get c [] = Some (cacheTree c)"
  by (simp add: ct_get_def ct_invD(1))

section \<open>Changes that keep the shape\<close>

definition same_shape :: "cacheTreeMap \<Rightarrow> cacheTreeMap \<Rightarrow> bool" where
  "same_shape c c' \<longleftrightarrow>
     cacheMap c' = cacheMap c \<and> cacheTree c' = cacheTree c \<and> maxFiles c' = maxFiles c \<and>
     ct_nitems c' = ct_nitems c \<and> ct_nattrs c' = ct_nattrs c \<and>
     (\<forall>i. ci_attr (ct_items c' i) = ci_attr (ct_items c i) \<and>
          ci_children (ct_items c' i) = ci_children (ct_items c i) \<and>
          ci_parent (ct_items c' i) = ci_parent (ct_items c i)) \<and>
     (\<forall>a. a_Path (ct_attrs c' a) = a_Path (ct_attrs c a) \<and> a_Name (ct_attrs c' a) = a_Name (ct_attrs c a)) \<and>
     (\<forall>i. isRoot c i \<longrightarrow> it_exists c' i = it_exists c i)"

lemma same_shape_refl [simp]: "same_shape c c"
  by (simp add: same_shape_def)

lemma same_shape_path: "same_shape c c' \<Longrightarrow> ct_path c' i = ct_path c i"
  by (simp add: same_shape_def ct_attr_def)

lemma same_shape_trans: "same_shape c c1 \<Longrightarrow> same_shape c1 c2 \<Longrightarrow> same_shape c c2"
  using same_shape_path [of c c1] by (auto simp: same_shape_def isRoot_def)

lemma same_shape_simps:
  assumes "same_shape c c'"
  shows "rank c' i = rank c i" "isRoot c' i = isRoot c i" "child_items c' i = child_items c i"
    "ct_nitems c' = ct_nitems c" "tree_fuel c' = tree_fuel c" "ct_get c' p = ct_get c p"
    "maxFiles c' = maxFiles c" "cacheMap c' = cacheMap c"
  using assms same_shape_path [OF assms]
  by (simp_all add: rank_def isRoot_def same_shape_def tree_fuel_def ct_get_def)

lemma same_shape_inv:
  assumes s: "same_shape c c'" and i: "ct_inv c"
  shows "ct_inv c'"
proof -
  have "isRoot c (cacheTree c)" using ct_invD(2) [OF i] by (simp add: isRoot_def)
  with s have "it_exists c' (cacheTree c)" using ct_invD(3) [OF i] by (simp add: same_shape_def)
  then show ?thesis
    using i s same_shape_path [OF s] same_shape_simps(1,3) [OF s]
    unfolding ct_inv_def by (simp add: same_shape_def)
qed

lemma upd_item_simps [simp]:
  "ct_items (upd_item i f c) = (ct_items c)(i := f (ct_items c i))"
  "cacheMap (upd_item i f c) = cacheMap c" "cacheTree (upd_item i f c) = cacheTree c"
  "maxFiles (upd_item i f c) = maxFiles c" "ct_nitems (upd_item i f c) = ct_nitems c"
  "ct_attrs (upd_item i f c) = ct_attrs c" "ct_nattrs (upd_item i f c) = ct_nattrs c"
  by (simp_all add: upd_item_def)

lemma upd_attr_simps [simp]:
  "ct_items (upd_attr i f c) = ct_items c"
  "cacheMap (upd_attr i f c) = cacheMap c" "cacheTree (upd_attr i f c) = cacheTree c"
  "maxFiles (upd_attr i f c) = maxFiles c" "ct_nitems (upd_attr i f c) = ct_nitems c"
  "ct_nattrs (upd_attr i f c) = ct_nattrs c"
  "ct_attrs (upd_attr i f c) = (ct_attrs c)(ci_attr (ct_items c i) := f (ct_attr c i))"
  by (simp_all add: upd_attr_def)

text \<open>An item update that leaves links alone and the root's existence.\<close>

lemma same_shape_upd_item:
  assumes "\<And>it. ci_attr (f it) = ci_attr it \<and> ci_children (f it) = ci_children it \<and> ci_parent (f it) = ci_parent it"
    and "isRoot c i \<Longrightarrow> ci_attrFlag (f (ct_items c i)) = ci_attrFlag (ct_items c i)"
  shows "same_shape c (upd_item i f c)"
  using assms by (auto simp: same_shape_def it_exists_def it_valid_def)

lemma same_shape_upd_attr:
  assumes "\<And>a. a_Path (f a) = a_Path a \<and> a_Name (f a) = a_Name a"
  shows "same_shape c (upd_attr i f c)"
  using assms by (auto simp: same_shape_def it_exists_def it_valid_def ct_attr_def)

lemma same_shape_drop_parent_listing: "same_shape c (drop_parent_listing i c)"
  by (auto simp: drop_parent_listing_def intro!: same_shape_upd_item split: option.splits)

lemma same_shape_drop_parent_complete: "same_shape c (drop_parent_complete i c)"
  by (auto simp: drop_parent_complete_def intro!: same_shape_upd_item split: option.splits)

lemma same_shape_set_deleted: "\<not> isRoot c i \<Longrightarrow> same_shape c (set_deleted t i c)"
  unfolding set_deleted_def
  by (rule same_shape_trans [OF same_shape_drop_parent_listing same_shape_upd_item])
    (simp_all add: isRoot_def same_shape_path [OF same_shape_drop_parent_listing])

lemma same_shape_set_invalid: "\<not> isRoot c i \<Longrightarrow> same_shape c (set_invalid i c)"
  unfolding set_invalid_def
  by (rule same_shape_trans [OF same_shape_drop_parent_complete same_shape_upd_item])
    (simp_all add: isRoot_def same_shape_path [OF same_shape_drop_parent_complete])

lemma same_shape_markInCloud: "same_shape c (markInCloud i b c)"
proof (cases "isRoot c i")
  case True
  have "IsSet (ci_attrFlag (ct_items c i)) b = IsSet (clear_flag AttrFlagNotInCloud (ci_attrFlag (ct_items c i))) b"
    if "b = AttrFlagExists \<or> b = AttrFlagValid" for b
    using that by (auto simp: IsSet_bit bit_ClearBit AttrFlagExists_def AttrFlagValid_def AttrFlagNotInCloud_def)
  then show ?thesis
    by (auto simp: markInCloud_def same_shape_def it_exists_def it_valid_def isRoot_def)
next
  case False
  then show ?thesis by (auto simp: markInCloud_def intro!: same_shape_upd_item)
qed

lemma same_shape_setSize: "same_shape c (setSize i sz t c)"
  unfolding setSize_def
  by (rule same_shape_trans [OF same_shape_upd_attr same_shape_upd_item]) auto

lemma same_shape_touch: "same_shape c (touchModifyAndChangeTimes it t c)"
  unfolding touchModifyAndChangeTimes_def
  by (auto split: option.splits intro!: same_shape_trans [OF same_shape_upd_attr same_shape_upd_item])

lemma same_shape_setMode: "same_shape c (setMode i m t c)"
  unfolding setMode_def Let_def
  by (rule same_shape_trans [OF same_shape_upd_attr same_shape_upd_item]) auto

section \<open>The walks over the tree return\<close>

definition maxlen :: "cacheTreeMap \<Rightarrow> nat" where
  "maxlen c = foldr (\<lambda>i m. max (length (ct_path c i)) m) [0..<ct_nitems c] 0"

lemma tree_fuel_maxlen: "tree_fuel c = Suc (maxlen c)"
  by (simp add: tree_fuel_def maxlen_def)

lemma foldr_max_ge: "x \<in> set xs \<Longrightarrow> f x \<le> foldr (\<lambda>i m. max (f i) m) xs (0::nat)"
  by (induction xs) auto

lemma rank_le_maxlen: "i < ct_nitems c \<Longrightarrow> rank c i \<le> maxlen c"
  using foldr_max_ge [of i "[0..<ct_nitems c]" "\<lambda>i. length (ct_path c i)"]
    length_TruncateDirName [of "ct_path c i"]
  by (simp add: rank_def maxlen_def)

lemma fold_opt_keeps:
  assumes "\<And>x s. x \<in> set xs \<Longrightarrow> P s \<Longrightarrow> \<exists>s'. f x s = Some s' \<and> P s'" and "P s"
  shows "\<exists>s'. fold_opt f xs s = Some s' \<and> P s'"
  using assms
proof (induction xs arbitrary: s)
  case (Cons x xs)
  from Cons.prems obtain s1 where "f x s = Some s1" "P s1" by fastforce
  with Cons show ?case by fastforce
qed simp

text \<open>Fuel for a walk below an item.\<close>

definition fuelled :: "nat \<Rightarrow> nat \<Rightarrow> cacheTreeMap \<Rightarrow> bool" where
  "fuelled k i c \<longleftrightarrow> i < ct_nitems c \<and> maxlen c < k + rank c i"

lemma fuelled_start: "i < ct_nitems c \<Longrightarrow> fuelled (tree_fuel c) i c"
  by (simp add: fuelled_def tree_fuel_maxlen)

lemma fuelled_child:
  "ct_inv c \<Longrightarrow> fuelled (Suc k) i c \<Longrightarrow> j \<in> set (child_items c i) \<Longrightarrow> fuelled k j c"
  using ct_invD(8,9) [of c i j] by (fastforce simp: fuelled_def)

lemma not_fuelled_0: "\<not> fuelled 0 i c"
  using rank_le_maxlen [of i c] by (auto simp: fuelled_def)

lemma fuelled_shape: "same_shape c c' \<Longrightarrow> fuelled k i c' = fuelled k i c"
  using same_shape_simps(1,4,5) [of c c'] by (simp add: fuelled_def tree_fuel_maxlen)

lemma walk_children:
  assumes "\<And>j c'. j \<in> set (child_items c i) \<Longrightarrow> same_shape c c' \<Longrightarrow>
      \<exists>c''. f j c' = Some c'' \<and> same_shape c' c''"
  shows "\<exists>c'. fold_opt f (child_items c i) c = Some c' \<and> same_shape c c'"
  using assms same_shape_trans by (intro fold_opt_keeps) (blast, simp)

lemma mark_deleted_returns:
  "ct_inv c \<Longrightarrow> fuelled k i c \<Longrightarrow> \<exists>c'. mark_deleted k t i c = Some c' \<and> same_shape c c'"
proof (induction k arbitrary: i c)
  case 0
  then show ?case using not_fuelled_0 by blast
next
  case (Suc k)
  show ?case
  proof (cases "isRoot c i \<or> \<not> it_exists c i")
    case False
    have "\<exists>c'. fold_opt (mark_deleted k t) (child_items c i) c = Some c' \<and> same_shape c c'"
    proof (rule walk_children)
      fix j c' assume "j \<in> set (child_items c i)" "same_shape c c'"
      then show "\<exists>c''. mark_deleted k t j c' = Some c'' \<and> same_shape c' c''"
        using Suc fuelled_child fuelled_shape same_shape_inv by metis
    qed
    then obtain c1 where c1: "fold_opt (mark_deleted k t) (child_items c i) c = Some c1" "same_shape c c1" by blast
    have "\<not> isRoot c1 i" using False same_shape_simps(2) [OF c1(2)] by simp
    then have "same_shape c (set_deleted t i c1)"
      by (intro same_shape_trans [OF c1(2)] same_shape_set_deleted)
    then show ?thesis using False c1(1) by simp
  qed auto
qed

lemma invalidate_item_returns:
  "ct_inv c \<Longrightarrow> fuelled k i c \<Longrightarrow> \<exists>c'. invalidate_item k i c = Some c' \<and> same_shape c c'"
proof (induction k arbitrary: i c)
  case 0
  then show ?case using not_fuelled_0 by blast
next
  case (Suc k)
  show ?case
  proof (cases "isRoot c i \<or> \<not> it_valid c i")
    case False
    have "\<exists>c'. fold_opt (invalidate_item k) (child_items c i) c = Some c' \<and> same_shape c c'"
    proof (rule walk_children)
      fix j c' assume "j \<in> set (child_items c i)" "same_shape c c'"
      then show "\<exists>c''. invalidate_item k j c' = Some c'' \<and> same_shape c' c''"
        using Suc fuelled_child fuelled_shape same_shape_inv by metis
    qed
    then obtain c1 where c1: "fold_opt (invalidate_item k) (child_items c i) c = Some c1" "same_shape c c1" by blast
    have "\<not> isRoot c1 i" using False same_shape_simps(2) [OF c1(2)] by simp
    then have "same_shape c (set_invalid i c1)"
      by (intro same_shape_trans [OF c1(2)] same_shape_set_invalid)
    then show ?thesis using False c1(1) by simp
  qed auto
qed

lemma markDeleted_returns:
  "ct_inv c \<Longrightarrow> i < ct_nitems c \<Longrightarrow> \<exists>c'. markDeleted i t c = Some c' \<and> same_shape c c'"
  unfolding markDeleted_def by (intro mark_deleted_returns fuelled_start)

lemma invalidate_returns:
  "ct_inv c \<Longrightarrow> i < ct_nitems c \<Longrightarrow> \<exists>c'. invalidate i c = Some c' \<and> same_shape c c'"
  unfolding invalidate_def by (intro invalidate_item_returns fuelled_start)

section \<open>Insertion\<close>

text \<open>What an insertion leaves as it was: the items there were, up to their links and listings.\<close>

definition keeps :: "cacheTreeMap \<Rightarrow> cacheTreeMap \<Rightarrow> bool" where
  "keeps c c' \<longleftrightarrow>
     ct_nitems c \<le> ct_nitems c' \<and> ct_nattrs c \<le> ct_nattrs c' \<and> maxFiles c' = maxFiles c \<and>
     cacheTree c' = cacheTree c \<and>
     (\<forall>i < ct_nitems c.
        ci_attr (ct_items c' i) = ci_attr (ct_items c i) \<and> ci_attrFlag (ct_items c' i) = ci_attrFlag (ct_items c i) \<and>
        ci_cachedAt (ct_items c' i) = ci_cachedAt (ct_items c i) \<and>
        ci_listingComplete (ct_items c' i) = ci_listingComplete (ct_items c i)) \<and>
     (\<forall>a < ct_nattrs c. ct_attrs c' a = ct_attrs c a)"

lemma keeps_refl [simp]: "keeps c c"
  by (simp add: keeps_def)

lemma keeps_trans:
  assumes a: "keeps c c1" and b: "keeps c1 c2"
  shows "keeps c c2"
proof -
  from a b have n: "ct_nitems c \<le> ct_nitems c1" "ct_nitems c1 \<le> ct_nitems c2"
    "ct_nattrs c \<le> ct_nattrs c1" "ct_nattrs c1 \<le> ct_nattrs c2" by (simp_all add: keeps_def)
  then have "i < ct_nitems c \<Longrightarrow> i < ct_nitems c1" "i < ct_nattrs c \<Longrightarrow> i < ct_nattrs c1" for i by linarith+
  with a b n show ?thesis by (simp add: keeps_def)
qed

lemma keeps_simps:
  assumes "keeps c c'" and "i < ct_nitems c"
  shows "it_valid c' i = it_valid c i" "it_exists c' i = it_exists c i" "i < ct_nitems c'"
    "ci_cachedAt (ct_items c' i) = ci_cachedAt (ct_items c i)"
    "ci_listingComplete (ct_items c' i) = ci_listingComplete (ct_items c i)"
    "ci_attr (ct_items c i) < ct_nattrs c \<Longrightarrow> ct_attr c' i = ct_attr c i"
  using assms by (auto simp: keeps_def it_valid_def it_exists_def ct_attr_def)

lemma new_attr_inv:
  assumes "new_attr a c = (r, c1)" and "ct_inv c"
  shows "ct_inv c1" "keeps c c1" "r < ct_nattrs c1" "\<forall>i < ct_nitems c1. ci_attr (ct_items c1 i) \<noteq> r"
    "ct_attrs c1 r = a" "cacheMap c1 = cacheMap c" "ct_items c1 = ct_items c" "ct_nitems c1 = ct_nitems c"
    "maxFiles c1 = maxFiles c"
proof -
  have c1: "c1 = c\<lparr>ct_attrs := (ct_attrs c)(ct_nattrs c := a), ct_nattrs := Suc (ct_nattrs c)\<rparr>"
    and r: "r = ct_nattrs c" using assms(1) by (auto simp: new_attr_def)
  have at: "ct_attr c1 i = ct_attr c i" if "i < ct_nitems c" for i
    using ct_invD(6) [OF assms(2) that] by (simp add: c1 ct_attr_def)
  then have rk: "rank c1 i = rank c i" if "i < ct_nitems c" for i using that by (simp add: rank_def)
  have root: "cacheTree c < ct_nitems c" using ct_invD(4) [OF assms(2) ct_invD(1) [OF assms(2)]] .
  have cells: "cacheMap c1 = cacheMap c" "cacheTree c1 = cacheTree c" "ct_items c1 = ct_items c"
      "ct_nitems c1 = ct_nitems c" "ct_nattrs c1 = Suc (ct_nattrs c)" "maxFiles c1 = maxFiles c"
    by (simp_all add: c1)
  have ex: "it_exists c1 i = it_exists c i" for i by (simp add: it_exists_def it_valid_def cells)
  note inv = ct_invD [OF assms(2)]
  show "ct_inv c1"
  proof (rule ct_invI)
    show "ct_path c1 (cacheTree c1) = []" using inv(2) at [OF root] by (simp add: cells)
    show "i < ct_nitems c1 \<and> TruncateDirName (ct_path c1 i) = k" if "map_of (cacheMap c1) k = Some i" for k i
      using that inv(4,5) [of k i] at by (simp add: cells del: map_of_eq_Some_iff)
    show "ci_attr (ct_items c1 i) < ct_nattrs c1 \<and> ct_path c1 i \<noteq> [slash]" if "i < ct_nitems c1" for i
      using inv(6,11) [of i] that at by (simp add: cells)
    show "j < ct_nitems c1 \<and> rank c1 i < rank c1 j \<and> ci_parent (ct_items c1 j) = Some i"
      if "i < ct_nitems c1" "j \<in> set (child_items c1 i)" for i j
      using that inv(8-10) [of i j] rk by (simp add: cells)
  qed (use inv(1,3,7) in \<open>simp_all add: cells ex\<close>)
  show "keeps c c1" by (auto simp: keeps_def c1)
  show "\<forall>i < ct_nitems c1. ci_attr (ct_items c1 i) \<noteq> r"
    using ct_invD(6) [OF assms(2)] by (simp add: cells r) (metis less_irrefl)
qed (use assms(1) in \<open>auto simp: new_attr_def\<close>)

lemma new_item_inv:
  assumes "new_item it c = (i, c1)" and "ct_inv c" and "ci_attr it < ct_nattrs c"
    and "\<forall>j < ct_nitems c. ci_attr (ct_items c j) \<noteq> ci_attr it" and "ci_children it = []"
    and "a_Path (ct_attrs c (ci_attr it)) \<noteq> [slash]"
  shows "ct_inv c1" "keeps c c1" "i < ct_nitems c1" "ct_items c1 i = it" "ct_attrs c1 = ct_attrs c"
    "cacheMap c1 = cacheMap c" "maxFiles c1 = maxFiles c" "ct_nattrs c1 = ct_nattrs c"
proof -
  have c1: "c1 = c\<lparr>ct_items := (ct_items c)(ct_nitems c := it), ct_nitems := Suc (ct_nitems c)\<rparr>"
    and i: "i = ct_nitems c" using assms(1) by (auto simp: new_item_def)
  have at: "ct_items c1 j = ct_items c j" "ct_attr c1 j = ct_attr c j" "it_exists c1 j = it_exists c j"
      "rank c1 j = rank c j" if "j < ct_nitems c" for j
    using that by (simp_all add: c1 ct_attr_def it_exists_def it_valid_def rank_def)
  have root: "cacheTree c < ct_nitems c" using ct_invD(4) [OF assms(2) ct_invD(1) [OF assms(2)]] .
  have cells: "cacheMap c1 = cacheMap c" "cacheTree c1 = cacheTree c" "ct_nattrs c1 = ct_nattrs c"
      "ct_nitems c1 = Suc (ct_nitems c)" "ct_items c1 (ct_nitems c) = it"
    by (simp_all add: c1)
  note inv = ct_invD [OF assms(2)]
  have old: "i < ct_nitems c \<or> i = ct_nitems c" if "i < ct_nitems c1" for i
    using that cells(4) by linarith
  show "ct_inv c1"
  proof (rule ct_invI)
    show "ct_path c1 (cacheTree c1) = []" "it_exists c1 (cacheTree c1)"
      using inv(2,3) at [OF root] by (simp_all add: cells)
    show "i < ct_nitems c1 \<and> TruncateDirName (ct_path c1 i) = k" if "map_of (cacheMap c1) k = Some i" for k i
      using that inv(4,5) [of k i] at by (simp add: cells del: map_of_eq_Some_iff)
    show "ci_attr (ct_items c1 i) < ct_nattrs c1 \<and> ct_path c1 i \<noteq> [slash]" if "i < ct_nitems c1" for i
      using old [OF that] inv(6,11) [of i] at(1,2) [of i] assms(3,6) cells(3,5) c1
      by (auto simp: ct_attr_def)
    show "i = j" if "i < ct_nitems c1" "j < ct_nitems c1" "ci_attr (ct_items c1 i) = ci_attr (ct_items c1 j)" for i j
      using old [OF that(1)] old [OF that(2)] inv(7) [of i j] assms(4) at(1) cells(5) that(3) by auto
    show "j < ct_nitems c1 \<and> rank c1 i < rank c1 j \<and> ci_parent (ct_items c1 j) = Some i"
      if "i < ct_nitems c1" "j \<in> set (child_items c1 i)" for i j
    proof -
      have i: "i < ct_nitems c" "j \<in> set (child_items c i)"
        using old [OF that(1)] that(2) cells(5) assms(5) at(1) [of i] by auto
      with inv(8-10) [OF i] at show ?thesis by (simp add: cells)
    qed
  qed (use inv(1) in \<open>simp add: cells\<close>)
  show "keeps c c1" by (auto simp: keeps_def c1)
qed (use assms(1) in \<open>auto simp: new_item_def\<close>)

lemma values_map_store: "snd ` set (map_store k v m) \<subseteq> insert v (snd ` set m)"
  by (induction k v m rule: map_store.induct) auto

lemma link_item_items:
  assumes "par \<noteq> new"
  shows "ct_items (link_item p new par f c) = (ct_items c)
    (new := (ct_items c new)\<lparr>ci_parent := Some par\<rparr>,
     par := (ct_items c par)\<lparr>
       ci_listCache := (if \<not> f \<and> it_exists c new then [] else ci_listCache (ct_items c par)),
       ci_children := map_store (a_Name (ct_attr c new)) new (ci_children (ct_items c par))\<rparr>)"
  using assms by (auto simp: link_item_def Let_def ct_attr_def it_exists_def it_valid_def fun_eq_iff)

lemma link_item_cells [simp]:
  "cacheMap (link_item p new par f c) = map_store p new (cacheMap c)"
  "ct_attrs (link_item p new par f c) = ct_attrs c" "ct_nitems (link_item p new par f c) = ct_nitems c"
  "ct_nattrs (link_item p new par f c) = ct_nattrs c" "maxFiles (link_item p new par f c) = maxFiles c"
  "cacheTree (link_item p new par f c) = cacheTree c"
  by (simp_all add: link_item_def Let_def)

lemma link_item_inv:
  assumes inv: "ct_inv c" and new: "new < ct_nitems c" "ci_parent (ct_items c new) = None"
    and par: "par < ct_nitems c" "rank c par < rank c new"
    and p: "p \<noteq> []" "TruncateDirName (ct_path c new) = p"
  shows "ct_inv (link_item p new par f c)" "keeps c (link_item p new par f c)"
proof -
  let ?c = "link_item p new par f c"
  have ne: "par \<noteq> new" using par(2) by auto
  note items = link_item_items [OF ne, of p f c]
  have at: "ct_attr ?c i = ct_attr c i" for i using ne by (simp add: ct_attr_def items)
  have rk: "rank ?c i = rank c i" for i by (simp add: rank_def at)
  have ex: "it_exists ?c i = it_exists c i" for i using ne by (simp add: it_exists_def it_valid_def items)
  have ca: "ci_attr (ct_items ?c i) = ci_attr (ct_items c i)" for i by (simp add: items)
  note d = ct_invD [OF inv]
  have ch: "j < ct_nitems c \<and> rank c i < rank c j \<and> ci_parent (ct_items ?c j) = Some i"
    if i: "i < ct_nitems c" and j: "j \<in> set (child_items ?c i)" for i j
  proof (cases "i = par")
    case True
    then have "j = new \<or> j \<in> set (child_items c par)"
      using j values_map_store [of _ new "ci_children (ct_items c par)"] by (auto simp: items)
    then show ?thesis
      using True par new ne d(8-10) [of par j] by (auto simp: items)
  next
    case False
    then have j': "j \<in> set (child_items c i)" using j by (auto simp: items split: if_splits)
    have "j \<noteq> new" using d(10) [OF i j'] new(2) by auto
    with False d(8-10) [OF i j'] show ?thesis by (auto simp: items)
  qed
  show "ct_inv ?c"
  proof (rule ct_invI)
    show "i < ct_nitems ?c \<and> TruncateDirName (ct_path ?c i) = k" if "map_of (cacheMap ?c) k = Some i" for k i
      using that d(4,5) [of k i] p(2) new(1) by (simp add: at del: map_of_eq_Some_iff split: if_splits)
    show "i = j" if "i < ct_nitems ?c" "j < ct_nitems ?c" "ci_attr (ct_items ?c i) = ci_attr (ct_items ?c j)" for i j
      using that d(7) [of i j] by (simp add: ca)
  qed (use d(1-3,6,11) p(1) ch in \<open>simp_all add: at rk ex ca\<close>)
  show "keeps c ?c" using ne by (auto simp: keeps_def items)
qed

text \<open>
  \<open>insertItem\<close> returns, keeps the invariant and what there was, and maps the path to the new item; its
  parent is in the map too, exists if the item does, and has then dropped its listings.
\<close>

definition fresh_cells :: "cacheTreeMap \<Rightarrow> cacheTreeMap \<Rightarrow> bool" where
  "fresh_cells c c' \<longleftrightarrow>
     (\<forall>i. ct_nitems c \<le> i \<longrightarrow> i < ct_nitems c' \<longrightarrow> ct_nattrs c \<le> ci_attr (ct_items c' i))"

definition inserted :: "string \<Rightarrow> nat \<Rightarrow> bool \<Rightarrow> cacheTreeMap \<Rightarrow> cacheTreeMap \<Rightarrow> bool" where
  "inserted p new f c c' \<longleftrightarrow> ct_inv c' \<and> keeps c c' \<and> map_of (cacheMap c') p = Some new \<and>
     (\<forall>k i. k \<noteq> p \<longrightarrow> map_of (cacheMap c) k = Some i \<longrightarrow> it_exists c i \<longrightarrow> map_of (cacheMap c') k = Some i) \<and>
     (\<forall>i < ct_nitems c. i \<noteq> new \<longrightarrow> ci_parent (ct_items c' i) = ci_parent (ct_items c i)) \<and>
     fresh_cells c c' \<and>
     (\<exists>par. ct_get c' (getParentDir p) = Some par \<and> par \<noteq> new \<and> (it_exists c new \<longrightarrow> it_exists c' par \<and>
        (\<not> f \<longrightarrow> ci_listCache (ct_items c' par) = [])))"

lemma newAttrCacheItem_flags [simp]:
  "IsSet (ci_attrFlag (newAttrCacheItem a ex t)) AttrFlagValid"
  "IsSet (ci_attrFlag (newAttrCacheItem a ex t)) AttrFlagExists = ex"
  "ci_children (newAttrCacheItem a ex t) = []" "ci_parent (newAttrCacheItem a ex t) = None"
  "ci_attr (newAttrCacheItem a ex t) = a" "ci_cachedAt (newAttrCacheItem a ex t) = t"
  by (simp_all add: newAttrCacheItem_def IsSet_bit bit_SetBit AttrFlagValid_def AttrFlagExists_def)

lemma new_parent_inv:
  assumes "new_parent now q new c = (par, c1)" and "ct_inv c" and "TruncateDirName q \<noteq> [slash]"
  shows "ct_inv c1" "keeps c c1" "par < ct_nitems c1" "par \<ge> ct_nitems c" "ci_parent (ct_items c1 par) = None"
    "ct_path c1 par = TruncateDirName q" "it_exists c1 par = it_exists c new" "cacheMap c1 = cacheMap c"
    "\<And>i. i < ct_nitems c \<Longrightarrow> ct_items c1 i = ct_items c i"
    "ct_nitems c1 = Suc par" "ct_nattrs c \<le> ci_attr (ct_items c1 par)" "ct_nattrs c \<le> ct_nattrs c1"
    "par = ct_nitems c"
proof -
  obtain a c0 where a: "new_attr (CreateObjAttrDir now q) c = (a, c0)"
    and i: "new_item (newAttrCacheItem a (it_exists c new) (ci_cachedAt (ct_items c new))) c0 = (par, c1)"
    using assms(1) by (auto simp: new_parent_def split: prod.splits)
  note A = new_attr_inv [OF a assms(2)]
  note I = new_item_inv [OF i A(1)]
  have "TruncateDirName q \<noteq> [slash]"
    using assms(3) by (auto simp: TruncateDirName_def trim_suffix_def suffix_def)
  then have I': "ct_inv c1" "keeps c0 c1" "par < ct_nitems c1"
      "ct_items c1 par = newAttrCacheItem a (it_exists c new) (ci_cachedAt (ct_items c new))"
      "ct_attrs c1 = ct_attrs c0" "cacheMap c1 = cacheMap c0"
    using I A(3,4,5) by auto
  from I' A show "ct_inv c1" "keeps c c1" "par < ct_nitems c1" "ci_parent (ct_items c1 par) = None"
    "ct_path c1 par = TruncateDirName q" "it_exists c1 par = it_exists c new" "cacheMap c1 = cacheMap c"
    by (auto intro: keeps_trans simp: ct_attr_def it_exists_def it_valid_def)
  show "par \<ge> ct_nitems c" using i A(8) by (auto simp: new_item_def)
  show "ct_items c1 i = ct_items c i" if "i < ct_nitems c" for i
    using i that A(7,8) by (auto simp: new_item_def)
  show "ct_nitems c1 = Suc par" "par = ct_nitems c" using i A(8) by (auto simp: new_item_def)
  show "ct_nattrs c \<le> ci_attr (ct_items c1 par)" using I'(4) a by (simp add: new_attr_def)
  show "ct_nattrs c \<le> ct_nattrs c1" using \<open>keeps c c1\<close> by (simp add: keeps_def)
qed

lemma insertItem_inserted:
  "ct_inv c \<Longrightarrow> new < ct_nitems c \<Longrightarrow> ci_parent (ct_items c new) = None \<Longrightarrow>
     TruncateDirName (ct_path c new) = p \<Longrightarrow> p \<noteq> [] \<Longrightarrow>
     \<exists>c'. insertItem p new f now c = Some c' \<and> inserted p new f c c'"
proof (induction p new f now c rule: insertItem.induct)
  case (1 p new f now c)
  let ?pp = "getParentDir p"
  let ?q = "TruncateDirName (TruncateDirName ?pp)"
  note inv = 1(2) and new = 1(3,4,5) and p = 1(6)
  have q: "?q = TruncateDirName ?pp" by (rule TruncateDirName_getParentDir)
  have len: "length ?q < length p" using parent_key_shorter(1) [OF p] .
  have rank_new: "rank c new = length p" using new(3) by (simp add: rank_def)
  show ?case
  proof (cases "lacks_parent c ?pp new")
    case False
    then obtain par where par: "ct_get c ?pp = Some par" "it_exists c new \<longrightarrow> it_exists c par"
      by (auto simp: lacks_parent_def split: option.splits)
    have pl: "par < ct_nitems c" by (rule ct_get_less [OF inv par(1)])
    have rk: "rank c par < rank c new" using ct_get_key [OF inv par(1)] len q rank_new by (simp add: rank_def)
    then have ne: "par \<noteq> new" by auto
    let ?c = "link_item p new par f c"
    note L = link_item_inv [OF inv new(1,2) pl rk p new(3), of f]
    have "TruncateDirName ?pp \<noteq> p" using len q by auto
    then have "ct_get ?c ?pp = Some par" using par(1) by (simp add: ct_get_def)
    then have "inserted p new f c ?c"
      unfolding inserted_def
      using L par(2) ne keeps_simps(2) [OF L(2) pl]
      by (auto simp: link_item_items [OF ne] fresh_cells_def simp del: map_of_eq_Some_iff)
    moreover have "insertItem p new f now c = Some ?c"
      using False par(1) by (subst insertItem.simps) (simp add: Let_def)
    ultimately show ?thesis by blast
  next
    case True
    have "?q \<noteq> []"
    proof
      assume "?q = []"
      then have "ct_get c ?pp = Some (cacheTree c)" using ct_get_root [OF inv] q by (simp add: ct_get_def)
      with True ct_invD(3) [OF inv] show False by (simp add: lacks_parent_def)
    qed
    obtain par c1 where np: "new_parent now ?pp new c = (par, c1)" by fastforce
    note N = new_parent_inv [OF np inv Truncate_parent_no_slash]
    have "TruncateDirName (ct_path c1 par) = ?q" using N(6) by simp
    from 1(1) [OF refl refl True p np [symmetric] N(1,3,5) this \<open>?q \<noteq> []\<close>]
    obtain c2 where c2: "insertItem ?q par f now c1 = Some c2" "inserted ?q par f c1 c2" by blast
    let ?c = "link_item p new par f c2"
    have i2: "ct_inv c2" and k2: "keeps c1 c2" and m2: "map_of (cacheMap c2) ?q = Some par"
      using c2(2) by (auto simp: inserted_def)
    have k: "keeps c c2" using keeps_trans [OF N(2) k2] .
    have nl: "new < ct_nitems c2" using keeps_simps(3) [OF k new(1)] .
    have pl: "par < ct_nitems c2" using keeps_simps(3) [OF k2 N(3)] .
    have at: "ct_attr c2 new = ct_attr c new"
      using keeps_simps(6) [OF k new(1)] ct_invD(6) [OF inv new(1)] by simp
    have other: "ci_parent (ct_items c2 i) = ci_parent (ct_items c i)" if "i < ct_nitems c" for i
      using c2(2) that N(4,9) keeps_simps(3) [OF N(2) that] by (auto simp: inserted_def)
    then have pn: "ci_parent (ct_items c2 new) = None" using new by simp
    have rk: "rank c2 par < rank c2 new"
      using ct_invD(5) [OF i2 m2] len at new(3) by (simp add: rank_def)
    then have ne: "par \<noteq> new" by auto
    note L = link_item_inv [OF i2 nl pn pl rk p, of f] at new(3)
    have ex: "it_exists c2 par = it_exists c new"
      using keeps_simps(2) [OF k2 N(3)] N(7) by simp
    have "TruncateDirName ?pp \<noteq> p" using len q by auto
    then have g: "ct_get ?c ?pp = Some par" using m2 q by (simp add: ct_get_def)
    have "insertItem p new f now c = Some ?c"
      using True p np c2(1) by (subst insertItem.simps) (simp add: Let_def)
    moreover have "inserted p new f c ?c"
      unfolding inserted_def
    proof (intro conjI)
      show "ct_inv ?c" "keeps c ?c" using L keeps_trans [OF k] by auto
      show "map_of (cacheMap ?c) p = Some new" by simp
      show "\<forall>ka i. ka \<noteq> p \<longrightarrow> map_of (cacheMap c) ka = Some i \<longrightarrow> it_exists c i \<longrightarrow> map_of (cacheMap ?c) ka = Some i"
      proof (intro allI impI)
        fix k i assume k: "k \<noteq> p" "map_of (cacheMap c) k = Some i" "it_exists c i"
        have "k \<noteq> ?q"
          using k True q ct_invD(3) [OF inv] by (auto simp: lacks_parent_def ct_get_def)
        moreover have "it_exists c1 i" using k(3) keeps_simps(2) [OF N(2) ct_invD(4) [OF inv k(2)]] by simp
        ultimately have "map_of (cacheMap c2) k = Some i"
          using c2(2) k(2) N(8) by (simp add: inserted_def del: map_of_eq_Some_iff)
        with k(1) show "map_of (cacheMap ?c) k = Some i" by simp
      qed
      show "\<forall>i < ct_nitems c. i \<noteq> new \<longrightarrow> ci_parent (ct_items ?c i) = ci_parent (ct_items c i)"
        using other ne by (simp add: link_item_items [OF ne])
      have "ct_nattrs c \<le> ci_attr (ct_items c2 i)" if "ct_nitems c \<le> i" "i < ct_nitems c2" for i
      proof (cases "i = par")
        case True
        with N(11) k2 N(3) show ?thesis by (simp add: keeps_def)
      next
        case False
        with that N(10,13) have "ct_nitems c1 \<le> i" by linarith
        moreover have "fresh_cells c1 c2" using c2(2) unfolding inserted_def by blast
        ultimately have "ct_nattrs c1 \<le> ci_attr (ct_items c2 i)" using that(2) by (simp add: fresh_cells_def)
        with N(12) show ?thesis by (rule order_trans)
      qed
      then show "fresh_cells c ?c" by (simp add: fresh_cells_def link_item_items [OF ne])
      show "\<exists>par. ct_get ?c ?pp = Some par \<and> par \<noteq> new \<and> (it_exists c new \<longrightarrow> it_exists ?c par \<and>
          (\<not> f \<longrightarrow> ci_listCache (ct_items ?c par) = []))"
        using g ne ex keeps_simps(2) [OF k new(1)] L
        by (intro exI [of _ par]) (auto simp: link_item_items [OF ne] it_exists_def it_valid_def)
    qed
    ultimately show ?thesis by blast
  qed
qed

text \<open>What \<open>insert\<close> does with an attribute, when it makes an item.\<close>

definition insert_result ::
  "ObjAttr \<Rightarrow> bool \<Rightarrow> int \<Rightarrow> bool \<Rightarrow> cacheTreeMap \<Rightarrow> nat \<Rightarrow> cacheTreeMap \<Rightarrow> bool" where
  "insert_result attr ex t f c i c' \<longleftrightarrow>
     ct_inv c' \<and> keeps c c' \<and> ct_nitems c \<le> i \<and> i < ct_nitems c' \<and> ct_attr c' i = attr \<and>
     it_valid c' i \<and> it_exists c' i = ex \<and> ci_cachedAt (ct_items c' i) = t \<and>
     ct_get c' (a_Path attr) = Some i \<and>
     (\<forall>j. ct_nitems c \<le> j \<longrightarrow> j < ct_nitems c' \<longrightarrow> j \<noteq> i \<longrightarrow> ct_nattrs c \<le> ci_attr (ct_items c' j)) \<and>
     (\<forall>k j. k \<noteq> TruncateDirName (a_Path attr) \<longrightarrow> map_of (cacheMap c) k = Some j \<longrightarrow> it_exists c j \<longrightarrow>
        map_of (cacheMap c') k = Some j) \<and>
     (\<exists>par. ct_get c' (getParentDir (TruncateDirName (a_Path attr))) = Some par \<and> par \<noteq> i \<and>
        (ex \<longrightarrow> it_exists c' par \<and> (\<not> f \<longrightarrow> ci_listCache (ct_items c' par) = [])))"

lemma ct_insert_result:
  assumes inv: "ct_inv c" and a: "a < ct_nattrs c" "\<forall>j < ct_nitems c. ci_attr (ct_items c j) \<noteq> a"
    and p: "a_Path (ct_attrs c a) \<noteq> [slash]" "a_Path (ct_attrs c a) \<noteq> []"
    and room: "int (length (cacheMap c)) < maxFiles c"
  shows "\<exists>i c'. ct_insert a ex t f now c = Some (Some i, c') \<and> insert_result (ct_attrs c a) ex t f c i c' \<and>
    ci_attr (ct_items c' i) = a"
proof -
  obtain i c1 where ni: "new_item (newAttrCacheItem a ex t) c = (i, c1)" by fastforce
  note I = new_item_inv [OF ni inv, simplified, OF a p(1)]
  let ?p = "a_Path (ct_attrs c a)"
  have at: "ct_attr c1 i = ct_attrs c a" by (simp add: ct_attr_def I(4,5))
  have ex: "it_exists c1 i = ex" "it_valid c1 i" by (simp_all add: it_exists_def it_valid_def I(4))
  have pn: "ci_parent (ct_items c1 i) = None" by (simp add: I(4))
  have ge: "ct_nitems c \<le> i" using ni by (simp add: new_item_def)
  have "TruncateDirName ?p \<noteq> []" using p by (simp add: TruncateDirName_eq_Nil)
  from insertItem_inserted [OF I(1,3) pn _ this, of f now] obtain c2 where
    c2: "insertItem (TruncateDirName ?p) i f now c1 = Some c2" "inserted (TruncateDirName ?p) i f c1 c2"
    by (auto simp: at)
  have inv2: "ct_inv c2" and k2: "keeps c1 c2" and m2: "map_of (cacheMap c2) (TruncateDirName ?p) = Some i"
    and old2: "\<And>k j. k \<noteq> TruncateDirName ?p \<Longrightarrow> map_of (cacheMap c1) k = Some j \<Longrightarrow> it_exists c1 j \<Longrightarrow>
        map_of (cacheMap c2) k = Some j"
    and fr2: "fresh_cells c1 c2"
    and par2: "\<exists>par. ct_get c2 (getParentDir (TruncateDirName ?p)) = Some par \<and> par \<noteq> i \<and>
        (it_exists c1 i \<longrightarrow> it_exists c2 par \<and> (\<not> f \<longrightarrow> ci_listCache (ct_items c2 par) = []))"
    using c2(2) unfolding inserted_def by blast+
  have attr_i: "ci_attr (ct_items c1 i) < ct_nattrs c1" using ct_invD(6) [OF I(1,3)] .
  have "insert_result (ct_attrs c a) ex t f c i c2"
    unfolding insert_result_def
  proof (intro conjI allI impI)
    fix k j assume k: "k \<noteq> TruncateDirName ?p" "map_of (cacheMap c) k = Some j" "it_exists c j"
    then show "map_of (cacheMap c2) k = Some j"
      using old2 [OF k(1)] I(6) keeps_simps(2) [OF I(2) ct_invD(4) [OF inv k(2)]] by simp
  next
    fix j assume j: "ct_nitems c \<le> j" "j < ct_nitems c2" "j \<noteq> i"
    have "ct_nitems c1 = Suc i" "i = ct_nitems c" using ni by (auto simp: new_item_def)
    with j fr2 I(8) show "ct_nattrs c \<le> ci_attr (ct_items c2 j)" by (simp add: fresh_cells_def)
  qed (use inv2 keeps_trans [OF I(2) k2] ge keeps_simps [OF k2 I(3)] attr_i at ex I(4) m2 par2 in
      \<open>simp_all add: ct_get_def\<close>)
  moreover have "ci_attr (ct_items c2 i) = a" using k2 I(3,4) by (simp add: keeps_def)
  ultimately show ?thesis using c2(1) ni room p by (auto simp: ct_insert_def)
qed

lemma insert_attr_result:
  assumes inv: "ct_inv c" and p: "a_Path attr \<noteq> [slash]" "a_Path attr \<noteq> []"
    and room: "int (length (cacheMap c)) < maxFiles c"
  shows "\<exists>i c'. insert_attr attr ex t f now c = Some (Some i, c') \<and> insert_result attr ex t f c i c' \<and>
    ct_nattrs c \<le> ci_attr (ct_items c' i)"
proof -
  obtain a c1 where n: "new_attr attr c = (a, c1)" by fastforce
  note A = new_attr_inv [OF n inv]
  have "int (length (cacheMap c1)) < maxFiles c1" using room by (simp add: A(6,9))
  from ct_insert_result [OF A(1,3,4) _ _ this, of ex t f now] p obtain i c' where
    r: "ct_insert a ex t f now c1 = Some (Some i, c')" "insert_result attr ex t f c1 i c'"
      "ci_attr (ct_items c' i) = a"
    by (auto simp: A(5))
  from r(2) have "keeps c1 c'" by (simp add: insert_result_def)
  then have k: "keeps c c'" by (rule keeps_trans [OF A(2)])
  moreover have "it_exists c1 = it_exists c" by (simp add: fun_eq_iff it_exists_def it_valid_def A(7))
  moreover have "ct_nattrs c \<le> ct_nattrs c1" using A(2) by (simp add: keeps_def)
  moreover from r(2) have "ct_inv c'" "ct_nitems c \<le> i" "i < ct_nitems c'" "ct_attr c' i = attr"
    "it_valid c' i" "it_exists c' i = ex" "ci_cachedAt (ct_items c' i) = t" "ct_get c' (a_Path attr) = Some i"
    "\<forall>j. ct_nitems c \<le> j \<longrightarrow> j < ct_nitems c' \<longrightarrow> j \<noteq> i \<longrightarrow> ct_nattrs c1 \<le> ci_attr (ct_items c' j)"
    "\<forall>k j. k \<noteq> TruncateDirName (a_Path attr) \<longrightarrow> map_of (cacheMap c) k = Some j \<longrightarrow> it_exists c1 j \<longrightarrow>
        map_of (cacheMap c') k = Some j"
    "\<exists>par. ct_get c' (getParentDir (TruncateDirName (a_Path attr))) = Some par \<and> par \<noteq> i \<and>
        (ex \<longrightarrow> it_exists c' par \<and> (\<not> f \<longrightarrow> ci_listCache (ct_items c' par) = []))"
    unfolding insert_result_def A(6,8) by blast+
  ultimately have "insert_result attr ex t f c i c'"
    unfolding insert_result_def using k order_trans by auto
  moreover have "ct_nattrs c \<le> ci_attr (ct_items c' i)" using r(3) n by (simp add: new_attr_def)
  ultimately show ?thesis using r(1) n by (auto simp: insert_attr_def)
qed

lemma insert_attr_full:
  assumes "int (length (cacheMap c)) \<ge> maxFiles c \<or> a_Path attr = []"
  shows "insert_attr attr ex t f now c = Some (None, snd (new_attr attr c))"
  using assms by (auto simp: insert_attr_def ct_insert_def new_attr_def)

lemma insert_attr_inv:
  assumes "ct_inv c" and "a_Path attr \<noteq> [slash]"
  shows "\<exists>it c'. insert_attr attr ex t f now c = Some (it, c') \<and> ct_inv c' \<and> keeps c c'"
proof (cases "int (length (cacheMap c)) < maxFiles c \<and> a_Path attr \<noteq> []")
  case True
  with insert_attr_result [OF assms, of ex t f now] show ?thesis by (auto simp: insert_result_def)
next
  case False
  obtain a c1 where n: "new_attr attr c = (a, c1)" by fastforce
  have "insert_attr attr ex t f now c = Some (None, snd (new_attr attr c))"
    using False by (intro insert_attr_full) auto
  with n new_attr_inv(1,2) [OF n assms(1)] show ?thesis by simp
qed

end
