(* ===== verification/Attr_Cache_Safety.thy ===== *)
theory Attr_Cache_Safety
  imports Cache_Invariant
begin

text \<open>
  Every handler of the attribute cache keeps the tree's invariant, whatever the components below
  answer: for single operations first, then for any sequence of requests.
\<close>

section \<open>Tree operations\<close>

text \<open>
  The tree before and after a change: the invariant holds, items and attribute cells are only added,
  paths do not change, and no new item uses a cell that was there before.
\<close>

definition good :: "cacheTreeMap \<Rightarrow> cacheTreeMap \<Rightarrow> bool" where
  "good c c' \<longleftrightarrow> ct_inv c' \<and> ct_nitems c \<le> ct_nitems c' \<and> ct_nattrs c \<le> ct_nattrs c' \<and>
     (\<forall>a < ct_nattrs c. a_Path (ct_attrs c' a) = a_Path (ct_attrs c a)) \<and>
     (\<forall>i < ct_nitems c'. ci_attr (ct_items c' i) < ct_nattrs c \<longrightarrow>
        i < ct_nitems c \<and> ci_attr (ct_items c i) = ci_attr (ct_items c' i))"

lemma good_inv [dest]: "good c c' \<Longrightarrow> ct_inv c'"
  by (simp add: good_def)

lemma good_trans:
  assumes a: "good c c1" and b: "good c1 c2"
  shows "good c c2"
proof -
  have le: "ct_nitems c \<le> ct_nitems c2" "ct_nattrs c \<le> ct_nattrs c2" "ct_nattrs c \<le> ct_nattrs c1"
    using a b by (auto simp: good_def)
  have "a_Path (ct_attrs c2 x) = a_Path (ct_attrs c x)" if "x < ct_nattrs c" for x
  proof -
    have "x < ct_nattrs c1" using that le(3) by simp
    with that a b show ?thesis by (simp add: good_def)
  qed
  moreover have "i < ct_nitems c \<and> ci_attr (ct_items c i) = ci_attr (ct_items c2 i)"
    if "i < ct_nitems c2" "ci_attr (ct_items c2 i) < ct_nattrs c" for i
  proof -
    have "ci_attr (ct_items c2 i) < ct_nattrs c1" using that(2) le(3) by simp
    with that(1) b have "i < ct_nitems c1" "ci_attr (ct_items c1 i) = ci_attr (ct_items c2 i)"
      by (simp_all add: good_def)
    with that(2) a show ?thesis by (simp add: good_def)
  qed
  ultimately show ?thesis using le(1,2) b by (simp add: good_def)
qed

lemma good_then: "good c c1 \<Longrightarrow> (ct_inv c1 \<Longrightarrow> good c1 c2) \<Longrightarrow> good c c2"
  using good_trans by blast

lemma good_less: "good c c' \<Longrightarrow> i < ct_nitems c \<Longrightarrow> i < ct_nitems c'"
  by (simp add: good_def)

lemma good_shape: "ct_inv c \<Longrightarrow> same_shape c c' \<Longrightarrow> good c c'"
  using same_shape_inv [of c c'] by (simp add: good_def same_shape_def)

lemma good_refl: "ct_inv c \<Longrightarrow> good c c"
  by (simp add: good_def)

lemma good_then_shape: "good c c1 \<Longrightarrow> same_shape c1 c2 \<Longrightarrow> good c c2"
  using good_shape [of c1 c2] good_trans by blast

lemmas shapes = same_shape_markInCloud same_shape_setSize same_shape_touch same_shape_setMode

lemmas good_updates = good_shape [OF _ same_shape_markInCloud] good_shape [OF _ same_shape_setSize]
  good_shape [OF _ same_shape_touch] good_shape [OF _ same_shape_setMode]

lemma good_insert_result:
  assumes "ct_inv c" "insert_result attr ex t f c i c'" "ct_nattrs c \<le> ci_attr (ct_items c' i)"
  shows "good c c'"
proof -
  from assms(2) have k: "keeps c c'" "ct_inv c'"
    and fr: "\<forall>j. ct_nitems c \<le> j \<longrightarrow> j < ct_nitems c' \<longrightarrow> j \<noteq> i \<longrightarrow> ct_nattrs c \<le> ci_attr (ct_items c' j)"
    by (auto simp: insert_result_def)
  have "j < ct_nitems c" if "j < ct_nitems c'" "ci_attr (ct_items c' j) < ct_nattrs c" for j
  proof (rule ccontr)
    assume "\<not> j < ct_nitems c"
    with fr that assms(3) show False by (cases "j = i") (auto simp: not_less)
  qed
  with k show ?thesis by (auto simp: good_def keeps_def)
qed

lemma good_new_attr: "ct_inv c \<Longrightarrow> good c (snd (new_attr a c))"
  using new_attr_inv(1) [of a c "fst (new_attr a c)" "snd (new_attr a c)"]
  by (simp add: good_def) (simp add: new_attr_def)

lemma good_insert_attr:
  assumes "ct_inv c" "insert_attr attr ex t f now c = Some (it, c')" "a_Path attr \<noteq> [slash]"
  shows "good c c'"
proof (cases "int (length (cacheMap c)) < maxFiles c \<and> a_Path attr \<noteq> []")
  case True
  with insert_attr_result [OF assms(1,3), of ex t f now] assms(2) good_insert_result [OF assms(1)]
  show ?thesis by auto
next
  case False
  then have "insert_attr attr ex t f now c = Some (None, snd (new_attr attr c))"
    by (intro insert_attr_full) auto
  with assms(2) good_new_attr [OF assms(1), of attr] show ?thesis by auto
qed

lemma insert_attr_new_item:
  assumes "ct_inv c" "insert_attr attr ex t f now c = Some (Some i, c')" "a_Path attr \<noteq> [slash]"
  shows "i < ct_nitems c'"
proof (cases "int (length (cacheMap c)) < maxFiles c \<and> a_Path attr \<noteq> []")
  case True
  with insert_attr_result [OF assms(1,3), of ex t f now] assms(2) show ?thesis
    by (auto simp: insert_result_def)
next
  case False
  then have "insert_attr attr ex t f now c = Some (None, snd (new_attr attr c))"
    by (intro insert_attr_full) auto
  with assms(2) show ?thesis by simp
qed

lemma good_markDeleted:
  "ct_inv c \<Longrightarrow> i < ct_nitems c \<Longrightarrow> markDeleted i t c = Some c' \<Longrightarrow> good c c'"
  using markDeleted_returns [of c i t] good_shape by fastforce

lemma good_invalidate:
  "ct_inv c \<Longrightarrow> i < ct_nitems c \<Longrightarrow> invalidate i c = Some c' \<Longrightarrow> good c c'"
  using invalidate_returns [of c i] good_shape by fastforce

text \<open>Names for which the directory attribute made of them is not the path \<open>/\<close>.\<close>

definition sane :: "string \<Rightarrow> bool" where
  "sane p \<longleftrightarrow> p \<noteq> [slash] \<and> TruncateDirName p \<noteq> [slash]"

lemma sane_getParentDir: "TruncateDirName (getParentDir p) \<noteq> [slash]"
  by (rule Truncate_parent_no_slash)

lemma good_dir_item:
  assumes "ct_inv c" "TruncateDirName d \<noteq> [slash]" "dir_item d now c = Some (i, c')"
  shows "good c c'" "i < ct_nitems c'"
proof -
  have "good c c' \<and> i < ct_nitems c'"
    if "insert_attr (CreateObjAttrDir now d) True now False now c = Some (Some i, c')"
    using good_insert_attr [OF assms(1) that] insert_attr_new_item [OF assms(1) that] assms(2) by simp
  then have "good c c' \<and> i < ct_nitems c'"
    using assms(3) good_refl [OF assms(1)] ct_get_less [OF assms(1)]
    by (auto simp: dir_item_def Let_def split: option.splits if_splits)
  then show "good c c'" "i < ct_nitems c'" by simp_all
qed

lemma good_markAncestorsInCloud:
  "ct_inv c \<Longrightarrow> TruncateDirName d \<noteq> [slash] \<Longrightarrow> markAncestorsInCloud d now c = Some c' \<Longrightarrow> good c c'"
proof (induction d now c arbitrary: c' rule: markAncestorsInCloud.induct)
  case (1 d now c)
  note eq = 1(4) [unfolded markAncestorsInCloud.simps [of d]]
  show ?case
  proof (cases "d = [] \<or> known_in_cloud d c")
    case True
    with eq good_refl [OF 1(2)] show ?thesis by (auto split: if_splits)
  next
    case False
    with eq obtain i c1 where i: "dir_item d now c = Some (i, c1)"
      "markAncestorsInCloud (getParentDir d) now (markInCloud i True c1) = Some c'"
      by (auto split: option.splits)
    have g: "good c (markInCloud i True c1)"
      by (rule good_then_shape [OF good_dir_item(1) [OF 1(2,3) i(1)] same_shape_markInCloud])
    from False have "d \<noteq> []" "\<not> known_in_cloud d c" by auto
    note IH = 1(1) [OF this i(1) refl _ sane_getParentDir i(2)]
    show ?thesis by (rule good_then [OF g IH])
  qed
qed

lemma good_updateAncestorsInCloud:
  "ct_inv c \<Longrightarrow> TruncateDirName d \<noteq> [slash] \<Longrightarrow> updateAncestorsInCloud d now c = Some c' \<Longrightarrow> good c c'"
proof (induction d now c arbitrary: c' rule: updateAncestorsInCloud.induct)
  case (1 d now c)
  note eq = 1(4) [unfolded updateAncestorsInCloud.simps [of d]]
  show ?case
  proof (cases "d = []")
    case True
    with eq good_refl [OF 1(2)] show ?thesis by simp
  next
    case False
    with eq obtain i c1 where i: "dir_item d now c = Some (i, c1)" by (auto split: option.splits)
    note g1 = good_dir_item(1) [OF 1(2,3) i]
    show ?thesis
    proof (cases "isInCloud c1 i \<noteq> anyChildrenInCloud c1 i")
      case True
      with eq i False have
        "updateAncestorsInCloud (getParentDir d) now (markInCloud i (anyChildrenInCloud c1 i) c1) = Some c'"
        by simp
      note IH = 1(1) [OF False i refl True _ sane_getParentDir this]
      show ?thesis by (rule good_then [OF good_then_shape [OF g1 same_shape_markInCloud] IH])
    next
      case f: False
      with eq i False g1 show ?thesis by simp
    qed
  qed
qed

lemma good_touchParentDirTimes:
  assumes "ct_inv c" "touchParentDirTimes p t c = Some c'"
  shows "good c c'"
proof -
  have new: "good c (touchModifyAndChangeTimes it t c1)"
    if "insert_attr ((CreateObjAttrDir t (getParentDir p))\<lparr>a_Ctime := t, a_Mtime := t\<rparr>) True t False t c = Some (it, c1)"
    for it c1
  proof -
    have "good c c1"
      by (rule good_insert_attr [OF assms(1) that]) (simp add: sane_getParentDir)
    then show ?thesis by (rule good_then_shape [OF _ same_shape_touch])
  qed
  show ?thesis
    using assms new good_updates(3) [OF assms(1)]
    by (auto simp: touchParentDirTimes_def Let_def split: option.splits if_splits)
qed

lemma good_deleteDirectory:
  assumes "ct_inv c" "deleteDirectory p t c = Some (e, c')"
  shows "good c c'"
proof (cases "\<exists>i. ct_get c p = Some i \<and> it_exists c i")
  case True
  then obtain i where i: "ct_get c p = Some i" "it_exists c i" by blast
  with assms(2) obtain c1 where "markDeleted i t c = Some c1"
    "updateAncestorsInCloud (getParentDir p) t c1 = Some c'"
    by (auto simp: deleteDirectory_def split: bind_splits)
  with good_markDeleted [OF assms(1) ct_get_less [OF assms(1) i(1)]] show ?thesis
    using good_updateAncestorsInCloud sane_getParentDir good_trans by (meson good_def)
next
  case False
  with assms good_refl show ?thesis by (auto simp: deleteDirectory_def split: option.splits if_splits)
qed

lemma good_fold_opt:
  assumes "fold_opt f xs c = Some c'" and "ct_inv c"
    and "\<And>x c1 c2. x \<in> set xs \<Longrightarrow> good c c1 \<Longrightarrow> f x c1 = Some c2 \<Longrightarrow> good c1 c2"
  shows "good c c'"
proof -
  have "good c s \<Longrightarrow> fold_opt f ys s = Some c' \<Longrightarrow> set ys \<subseteq> set xs \<Longrightarrow> good c c'" for ys s
  proof (induction ys arbitrary: s)
    case (Cons y ys)
    from Cons.prems obtain s1 where "f y s = Some s1" "fold_opt f ys s1 = Some c'"
      by (auto split: option.splits)
    with Cons assms(3) good_trans show ?case by (metis insert_subset list.simps(15))
  qed simp
  with assms good_refl show ?thesis by blast
qed

text \<open>A destination with a character other than a slash never turns a moved path into \<open>/\<close>.\<close>

lemma replace_first_slash:
  assumes "ch \<in> set dst" "ch \<noteq> slash" "p \<noteq> [slash]"
  shows "replace_first src dst p \<noteq> [slash]"
proof -
  have "replace_first src dst p = p \<or> ch \<in> set (replace_first src dst p)"
    using assms(1) by (induction src dst p rule: replace_first.induct) auto
  with assms show ?thesis by auto
qed

lemma good_move_item:
  assumes dst: "ch \<in> set dst" "ch \<noteq> slash"
  shows "ct_inv c \<Longrightarrow> i < ct_nitems c \<Longrightarrow> move_item k src dst t i c = Some c' \<Longrightarrow> good c c'"
proof (induction k arbitrary: i c c')
  case (Suc k)
  show ?case
  proof (cases "it_exists c i")
    case False
    with Suc.prems good_refl show ?thesis by simp
  next
    case True
    let ?attr = "cloneMovedAttr (ct_attr c i) (replace_first src dst (ct_path c i))"
    from True Suc.prems(3) obtain j c1 c2 where
      ins: "insert_attr ?attr True (ci_cachedAt (ct_items c i)) False t c = Some (Some j, c1)"
      and fold: "fold_opt (move_item k src dst t) (child_items c1 i) (markInCloud j (isInCloud c1 i) c1) = Some c2"
      and del: "markDeleted i t c2 = Some c'"
      by (auto split: option.splits bind_splits)
    have "ct_path c i \<noteq> [slash]" using ct_invD(11) [OF Suc.prems(1,2)] .
    then have "a_Path ?attr \<noteq> [slash]"
      using replace_first_slash [OF dst] by (simp add: cloneMovedAttr_def)
    from good_insert_attr [OF Suc.prems(1) ins this] have g1: "good c (markInCloud j (isInCloud c1 i) c1)"
      by (rule good_then_shape [OF _ same_shape_markInCloud])
    have g2: "good (markInCloud j (isInCloud c1 i) c1) c2"
    proof (rule good_fold_opt [OF fold])
      show "ct_inv (markInCloud j (isInCloud c1 i) c1)" using g1 by (simp add: good_def)
      fix x ca cb assume x: "x \<in> set (child_items c1 i)" "good (markInCloud j (isInCloud c1 i) c1) ca"
        "move_item k src dst t x ca = Some cb"
      have inv1: "ct_inv (markInCloud j (isInCloud c1 i) c1)" and
        "i < ct_nitems (markInCloud j (isInCloud c1 i) c1)"
        using g1 good_less [OF g1 Suc.prems(2)] by (simp_all add: good_def)
      moreover have "child_items (markInCloud j (isInCloud c1 i) c1) i = child_items c1 i"
        using same_shape_simps(3) [OF same_shape_markInCloud] .
      ultimately have "x < ct_nitems (markInCloud j (isInCloud c1 i) c1)"
        using ct_invD(8) x(1) by metis
      then have "x < ct_nitems ca" "ct_inv ca" using good_less [OF x(2)] x(2) by auto
      with Suc.IH x(3) show "good ca cb" by blast
    qed
    have g: "good c c2" using good_trans [OF g1 g2] .
    then have "good c2 c'" using good_markDeleted [OF _ good_less [OF g Suc.prems(2)] del] by (simp add: good_def)
    with g show ?thesis by (rule good_trans)
  qed
qed simp

lemma good_moveCachedItem:
  "ct_inv c \<Longrightarrow> i < ct_nitems c \<Longrightarrow> \<exists>ch \<in> set dst. ch \<noteq> slash \<Longrightarrow>
     moveCachedItem i src dst t c = Some c' \<Longrightarrow> good c c'"
  unfolding moveCachedItem_def using good_move_item by blast

lemma good_invalidate_dir: "ct_inv c \<Longrightarrow> invalidate_dir k p c = Some c' \<Longrightarrow> good c c'"
proof (induction k arbitrary: p c c')
  case (Suc k)
  show ?case
  proof (cases "\<exists>i. ct_get c p = Some i \<and> it_valid c i")
    case False
    with Suc.prems good_refl show ?thesis by (auto split: option.splits if_splits)
  next
    case True
    then obtain i where i: "ct_get c p = Some i" "it_valid c i" by blast
    note il = ct_get_less [OF Suc.prems(1) i(1)]
    let ?f = "\<lambda>j c1. if \<not> IsDir (ct_attr c1 j) then invalidate j c1 else invalidate_dir k (ct_path c1 j) c1"
    from Suc.prems(2) i have f: "fold_opt ?f (child_items c i) c = Some c'" by simp
    show ?thesis
    proof (rule good_fold_opt [OF f Suc.prems(1)])
      fix x ca cb assume x: "x \<in> set (child_items c i)" "good c ca" "?f x ca = Some cb"
      have "x < ct_nitems c" using ct_invD(8) [OF Suc.prems(1) il x(1)] .
      then have "x < ct_nitems ca" "ct_inv ca" using good_less [OF x(2)] x(2) by auto
      with x(3) Suc.IH good_invalidate show "good ca cb" by (auto split: if_splits)
    qed
  qed
qed simp

lemma good_invalidateDirectory: "ct_inv c \<Longrightarrow> invalidateDirectory p c = Some c' \<Longrightarrow> good c c'"
  unfolding invalidateDirectory_def by (rule good_invalidate_dir)

lemma good_forget_path:
  assumes "ct_inv c" "forget_path p c = Some c'"
  shows "good c c'"
proof -
  have "good c (upd_item par (\<lambda>it. it\<lparr>ci_listCache := [], ci_listingComplete := False\<rparr>) c)" for par
    by (rule good_shape [OF assms(1) same_shape_upd_item]) auto
  then show ?thesis
    using assms good_invalidate [OF assms(1) ct_get_less [OF assms(1)]] good_refl [OF assms(1)]
    by (auto simp: forget_path_def split: option.splits if_splits)
qed

text \<open>Removing one expired leaf.\<close>

lemma good_unlink:
  assumes "ct_inv c" and "p \<noteq> []"
  shows "good c ((case par of
      Some q \<Rightarrow> upd_item q (\<lambda>it. it\<lparr>ci_children := map_remove nm (ci_children it)\<rparr>) c
    | None \<Rightarrow> c)\<lparr>cacheMap := map_remove p (cacheMap c)\<rparr>)"
proof -
  define c' where "c' = (case par of
      Some q \<Rightarrow> upd_item q (\<lambda>it. it\<lparr>ci_children := map_remove nm (ci_children it)\<rparr>) c
    | None \<Rightarrow> c)\<lparr>cacheMap := map_remove p (cacheMap c)\<rparr>"
  have cells: "ct_attrs c' = ct_attrs c" "ct_nitems c' = ct_nitems c" "ct_nattrs c' = ct_nattrs c"
    "cacheTree c' = cacheTree c" "cacheMap c' = map_remove p (cacheMap c)"
    by (auto simp: c'_def split: option.splits)
  have items: "ci_attr (ct_items c' i) = ci_attr (ct_items c i)"
    "ci_attrFlag (ct_items c' i) = ci_attrFlag (ct_items c i)"
    "ci_parent (ct_items c' i) = ci_parent (ct_items c i)"
    "set (child_items c' i) \<subseteq> set (child_items c i)" for i
    using map_remove_subset [of nm] by (auto simp: c'_def split: option.splits)
  have at: "ct_attr c' i = ct_attr c i" for i by (simp add: ct_attr_def cells items)
  have rk: "rank c' i = rank c i" for i by (simp add: rank_def at)
  have ex: "it_exists c' i = it_exists c i" for i by (simp add: it_exists_def it_valid_def items)
  note d = ct_invD [OF assms(1)]
  have "ct_inv c'"
  proof (rule ct_invI)
    show "i < ct_nitems c' \<and> TruncateDirName (ct_path c' i) = k" if "map_of (cacheMap c') k = Some i" for k i
      using that d(4,5) [of k i] unfolding at cells by (simp del: map_of_eq_Some_iff split: if_splits)
    show "i = j" if "i < ct_nitems c'" "j < ct_nitems c'" "ci_attr (ct_items c' i) = ci_attr (ct_items c' j)" for i j
      using that d(7) [of i j] unfolding cells items by simp
    show "j < ct_nitems c' \<and> rank c' i < rank c' j \<and> ci_parent (ct_items c' j) = Some i"
      if "i < ct_nitems c'" "j \<in> set (child_items c' i)" for i j
    proof -
      have "i < ct_nitems c" "j \<in> set (child_items c i)" using that items(4) [of i] cells(2) by auto
      then show ?thesis using d(8-10) [of i j] unfolding cells rk items by simp
    qed
  qed (use d(1-3,6,11) assms(2) in \<open>simp_all add: cells at ex items\<close>)
  then have "good c c'" by (simp add: good_def cells items(1))
  then show ?thesis by (simp only: c'_def)
qed

lemma good_cleanup_key:
  assumes "ct_inv c" "p \<noteq> []" "cleanup_key ac now p c = Some c'"
  shows "good c c'"
proof (cases "map_of (cacheMap c) p")
  case None
  with assms good_refl show ?thesis by (auto simp: cleanup_key_def)
next
  case (Some i)
  note il = ct_invD(4) [OF assms(1) Some]
  show ?thesis
  proof (cases "ci_children (ct_items c i) = [] \<and> expired ac now (ci_cachedAt (ct_items c i))")
    case True
    with assms(3) Some obtain c1 where c1: "(if it_exists c i then invalidate i c else Some c) = Some c1"
      and c': "c' = (case ci_parent (ct_items c1 i) of
           Some par \<Rightarrow> upd_item par (\<lambda>it. it\<lparr>ci_children := map_remove (a_Name (ct_attr c1 i)) (ci_children it)\<rparr>) c1
         | None \<Rightarrow> c1)\<lparr>cacheMap := map_remove p (cacheMap c1)\<rparr>"
      by (auto simp: cleanup_key_def)
    from c1 have "good c c1"
      using good_refl [OF assms(1)] good_invalidate [OF assms(1) il] by (auto split: if_splits)
    then show ?thesis unfolding c' by (rule good_then) (rule good_unlink [OF _ assms(2)])
  next
    case False
    with assms Some good_refl show ?thesis by (auto simp: cleanup_key_def simp del: map_of_eq_Some_iff)
  qed
qed

lemma good_entry_or_new:
  assumes "ct_inv c" "p \<noteq> [slash]" "entry_or_new p sz now c = Some (i, c')"
  shows "good c c'"
proof -
  have "good c c1" if "insert_attr (CreateObjAttr p sz now) True now False now c = Some (Some j, c1)" for j c1
    using good_insert_attr [OF assms(1) that] assms(2) by simp
  with assms(3) good_refl [OF assms(1)] show ?thesis
    by (auto simp: entry_or_new_def Let_def split: option.splits if_splits)
qed

section \<open>Handlers\<close>

definition safe :: "AttrCache \<Rightarrow> AttrCache \<Rightarrow> bool" where
  "safe ac ac' \<longleftrightarrow> good (ac_cache ac) (ac_cache ac')"

lemma safe_cache [simp]: "safe ac (ac\<lparr>ac_cache := c\<rparr>) \<longleftrightarrow> good (ac_cache ac) c"
  by (simp add: safe_def)

lemma safe_same: "ct_inv (ac_cache ac) \<Longrightarrow> safe ac ac"
  by (simp add: safe_def good_refl)

abbreviation acc_inv :: "AttrCache \<Rightarrow> bool" where
  "acc_inv ac \<equiv> ct_inv (ac_cache ac)"

lemmas bind_split_asm = bind_split_asm Option.bind_split_asm

lemma safe_GetAttr:
  assumes inv: "acc_inv ac" and nm: "ga_Name options \<noteq> [slash]"
    and ans: "\<And>a e n1. GetAttr nc now options n = Some ((Some a, e), n1) \<Longrightarrow> a_Path a \<noteq> [slash]"
    and r: "ac_GetAttr nc now options (ac, n) = Some (res, (ac', n'))"
  shows "safe ac ac'"
proof (cases "snd (cached_answer ac now (ga_Name options))")
  case True
  with r inv show ?thesis by (auto simp: ac_GetAttr_def Let_def safe_same split: prod.splits)
next
  case False
  obtain at0 er0 where ca: "cached_answer ac now (ga_Name options) = ((at0, er0), False)"
    using False by (metis prod.collapse)
  with r obtain pa err n1 where g: "GetAttr nc now options n = Some ((pa, err), n1)"
    by (auto simp: ac_GetAttr_def Let_def split: bind_split_asm)
  show ?thesis
  proof (cases err)
    case None
    with r ca g obtain it c1 c2 where
      c1: "(case pa of None \<Rightarrow> Some (None, ac_cache ac) | Some a \<Rightarrow> insert_attr a True now False now (ac_cache ac)) = Some (it, c1)"
      and c2: "markAncestorsInCloud (getParentDir (ga_Name options)) now c1 = Some c2" and ac': "ac' = ac\<lparr>ac_cache := c2\<rparr>"
      by (auto simp: ac_GetAttr_def Let_def split: bind_split_asm)
    have "good (ac_cache ac) c1"
      using c1 good_refl [OF inv] good_insert_attr [OF inv] ans g None by (auto split: option.splits)
    then show ?thesis unfolding ac' safe_cache
      by (rule good_then) (rule good_markAncestorsInCloud [OF _ sane_getParentDir c2])
  next
    case (Some e)
    with r ca g good_insert_attr [OF inv, of "CreateObjAttr (ga_Name options) 0 now"] nm inv show ?thesis
      by (auto simp: ac_GetAttr_def Let_def safe_same split: bind_split_asm if_splits)
  qed
qed

lemma safe_CreateDir:
  assumes inv: "acc_inv ac" and nm: "TruncateDirName (cd_Name options) \<noteq> [slash]"
    and r: "ac_CreateDir nc now options (ac, n) = Some (res, (ac', n'))"
  shows "safe ac ac'"
proof -
  let ?c = "ac_cache ac" and ?nm = "cd_Name options"
  from r obtain err n1 where e: "CreateDir nc now options n = Some (err, n1)"
    by (auto simp: ac_CreateDir_def split: bind_split_asm)
  show ?thesis
  proof (cases "(err = None \<or> err = Some (Errno EEXIST)) \<and>
      \<not> (case ct_get ?c ?nm of Some i \<Rightarrow> it_exists ?c i | None \<Rightarrow> False)")
    case False
    with r e inv show ?thesis by (auto simp: ac_CreateDir_def Let_def safe_same split: if_splits)
  next
    case True
    with r e obtain c1 it c2 c4 where
      c1: "(case ct_get ?c ?nm of Some i \<Rightarrow> markDeleted i now ?c | None \<Rightarrow> Some ?c) = Some c1"
      and c2: "insert_attr (CreateObjAttrDir now ?nm) True now False now c1 = Some (it, c2)"
      and c4: "(if err = None then touchParentDirTimes ?nm now (case it of
                  Some i \<Rightarrow> upd_item i (\<lambda>it. it\<lparr>ci_listingComplete := True\<rparr>) (markInCloud i False c2)
                | None \<Rightarrow> c2) else Some (case it of
                  Some i \<Rightarrow> upd_item i (\<lambda>it. it\<lparr>ci_listingComplete := True\<rparr>) (markInCloud i False c2)
                | None \<Rightarrow> c2)) = Some c4"
      and ac': "ac' = ac\<lparr>ac_cache := (case it of
                  Some i \<Rightarrow> if err = None then setMode i (cd_Mode options) now c4 else c4 | None \<Rightarrow> c4)\<rparr>"
      by (auto simp: ac_CreateDir_def Let_def split: bind_split_asm)
    have g1: "good ?c c1"
      using c1 good_refl [OF inv] good_markDeleted [OF inv ct_get_less [OF inv]] by (auto split: option.splits)
    have g2: "good ?c c2"
      using g1 by (rule good_then) (rule good_insert_attr [OF _ c2], simp_all add: nm)
    let ?c3 = "case it of
        Some i \<Rightarrow> upd_item i (\<lambda>it. it\<lparr>ci_listingComplete := True\<rparr>) (markInCloud i False c2) | None \<Rightarrow> c2"
    have "same_shape c2 ?c3"
      by (auto intro!: same_shape_trans [OF same_shape_markInCloud same_shape_upd_item] split: option.split)
    with g2 have g3: "good ?c ?c3" by (rule good_then_shape)
    have g4: "good ?c c4"
    proof (cases "err = None")
      case True
      then have "touchParentDirTimes ?nm now ?c3 = Some c4" using c4 by simp
      with g3 good_then good_touchParentDirTimes show ?thesis by blast
    next
      case False
      with c4 have "?c3 = c4" by simp
      with g3 show ?thesis by (simp only:)
    qed
    have "same_shape c4 (case it of Some i \<Rightarrow> if err = None then setMode i (cd_Mode options) now c4 else c4 | None \<Rightarrow> c4)"
      by (auto intro: same_shape_setMode split: option.split)
    with g4 show ?thesis unfolding ac' safe_cache by (rule good_then_shape)
  qed
qed

lemma safe_DeleteDir:
  assumes inv: "acc_inv ac" and r: "ac_DeleteDir nc now options (ac, n) = Some (res, (ac', n'))"
  shows "safe ac ac'"
proof -
  from r obtain err n1 where e: "DeleteDir nc now options n = Some (err, n1)"
    by (auto simp: ac_DeleteDir_def split: bind_split_asm)
  show ?thesis
  proof (cases err)
    case (Some x)
    with r e inv show ?thesis by (auto simp: ac_DeleteDir_def safe_same)
  next
    case None
    with r e obtain err2 c1 c2 where
      c1: "deleteDirectory (opt_Name options) now (ac_cache ac) = Some (err2, c1)"
      and c2: "(if err2 = None then touchParentDirTimes (opt_Name options) now c1 else Some c1) = Some c2"
      and ac': "ac' = ac\<lparr>ac_cache := c2\<rparr>"
      by (auto simp: ac_DeleteDir_def split: bind_split_asm)
    note g1 = good_deleteDirectory [OF inv c1]
    have "good (ac_cache ac) c2"
      using g1 c2 good_then [OF g1 good_touchParentDirTimes] by (auto split: if_splits)
    then show ?thesis by (simp add: ac')
  qed
qed

lemma new_attrs_inv:
  "ct_inv c \<Longrightarrow> new_attrs as c = (rs, c') \<Longrightarrow>
     good c c' \<and> ct_nattrs c \<le> ct_nattrs c' \<and> cacheMap c' = cacheMap c \<and> ct_items c' = ct_items c \<and>
     ct_nitems c' = ct_nitems c \<and> map (ct_attrs c') rs = as \<and> distinct rs \<and>
     set rs \<subseteq> {ct_nattrs c ..< ct_nattrs c'} \<and> (\<forall>r < ct_nattrs c. ct_attrs c' r = ct_attrs c r)"
proof (induction "as" arbitrary: c rs)
  case Nil
  then show ?case by (simp add: good_refl)
next
  case (Cons a "as")
  obtain r c1 where n: "new_attr a c = (r, c1)" by fastforce
  obtain rs' where rs: "new_attrs as c1 = (rs', c')" "rs = r # rs'"
    using Cons.prems(2) n by (auto split: prod.splits)
  note A = new_attr_inv [OF n Cons.prems(1)]
  have r: "r = ct_nattrs c" "ct_nattrs c1 = Suc (ct_nattrs c)" "\<forall>x < ct_nattrs c. ct_attrs c1 x = ct_attrs c x"
    using n by (auto simp: new_attr_def)
  note IH = Cons.IH [OF A(1) rs(1)]
  have "good c c1" using good_new_attr [OF Cons.prems(1), of a] n by simp
  then show ?case using IH A r rs(2) good_trans [of c c1 c'] by auto
qed

text \<open>Cells of a listing that no item uses yet, all different.\<close>

definition unused :: "nat list \<Rightarrow> cacheTreeMap \<Rightarrow> bool" where
  "unused rs c \<longleftrightarrow> distinct rs \<and> (\<forall>r \<in> set rs. r < ct_nattrs c \<and> a_Path (ct_attrs c r) \<noteq> [slash] \<and>
     (\<forall>i < ct_nitems c. ci_attr (ct_items c i) \<noteq> r))"

lemma unused_good: "unused rs c \<Longrightarrow> good c c' \<Longrightarrow> unused rs c'"
  unfolding unused_def good_def by (metis order_less_le_trans)

lemma fold_insert_inv:
  "ct_inv c \<Longrightarrow> unused rs c \<Longrightarrow> fold_opt (\<lambda>a c1. map_option snd (ct_insert a True t f now c1)) rs c = Some c' \<Longrightarrow>
     ct_inv c'"
proof (induction rs arbitrary: c)
  case (Cons r rs)
  from Cons.prems(2) have r: "r < ct_nattrs c" "a_Path (ct_attrs c r) \<noteq> [slash]"
    "\<forall>i < ct_nitems c. ci_attr (ct_items c i) \<noteq> r" "unused rs c" "r \<notin> set rs" by (auto simp: unused_def)
  show ?case
  proof (cases "int (length (cacheMap c)) < maxFiles c \<and> a_Path (ct_attrs c r) \<noteq> []")
    case False
    then have "ct_insert r True t f now c = Some (None, c)" by (auto simp: ct_insert_def)
    with Cons.prems Cons.IH r(4) show ?thesis by simp
  next
    case True
    with ct_insert_result [OF Cons.prems(1) r(1,3,2), of True t f now] obtain i c1 where
      i: "ct_insert r True t f now c = Some (Some i, c1)" "insert_result (ct_attrs c r) True t f c i c1"
        "ci_attr (ct_items c1 i) = r" by blast
    from i(2) have k: "keeps c c1" "ct_inv c1"
      and fr: "\<forall>j. ct_nitems c \<le> j \<longrightarrow> j < ct_nitems c1 \<longrightarrow> j \<noteq> i \<longrightarrow> ct_nattrs c \<le> ci_attr (ct_items c1 j)"
      by (auto simp: insert_result_def)
    have "unused rs c1"
      unfolding unused_def
    proof (intro conjI ballI allI impI)
      fix x assume x: "x \<in> set rs"
      then have u: "x < ct_nattrs c" "a_Path (ct_attrs c x) \<noteq> [slash]" "\<forall>i < ct_nitems c. ci_attr (ct_items c i) \<noteq> x"
        using r(4) by (auto simp: unused_def)
      with k(1) show "x < ct_nattrs c1" "a_Path (ct_attrs c1 x) \<noteq> [slash]" by (auto simp: keeps_def)
      fix j assume j: "j < ct_nitems c1"
      show "ci_attr (ct_items c1 j) \<noteq> x"
      proof (cases "j < ct_nitems c")
        case True
        with u k(1) show ?thesis by (simp add: keeps_def)
      next
        case f: False
        with fr j u(1) i(3) x r(5) show ?thesis by (cases "j = i") (auto simp: not_less)
      qed
    qed (use r(4) in \<open>simp add: unused_def\<close>)
    with Cons.prems(3) Cons.IH [OF k(2)] i(1) show ?thesis by simp
  qed
qed simp

lemma unused_new_attrs:
  assumes "ct_inv c" "new_attrs as c = (rs, c')" "\<forall>a \<in> set as. a_Path a \<noteq> [slash]"
  shows "unused rs c'"
proof -
  note N = new_attrs_inv [OF assms(1,2)]
  then have "\<forall>r \<in> set rs. ct_attrs c' r \<in> set as" by (metis image_eqI image_set)
  then show ?thesis
    using N assms(3) ct_invD(6) [OF assms(1)] by (auto simp: unused_def) (metis less_le_not_le subset_eq atLeastLessThan_iff)
qed

lemma good_cacheListSegment: "ct_inv c \<Longrightarrow> ct_inv (cacheListSegment ac now rs p t t' c)"
  using same_shape_inv [OF same_shape_upd_item]
  by (auto simp: cacheListSegment_def split: option.split)

lemma good_markListingComplete: "ct_inv c \<Longrightarrow> ct_inv (markListingComplete p now c)"
  using same_shape_inv [OF same_shape_upd_item]
  by (auto simp: markListingComplete_def split: option.split)

lemma merge_listing_inv:
  assumes inv: "ct_inv c" and u: "unused rs c" and nm: "TruncateDirName (sd_Name options) \<noteq> [slash]"
    and r: "merge_listing ac now options cached rs token err c = Some (res, c')"
  shows "ct_inv c'"
proof (cases err)
  case None
  from r None obtain c1 where c1: "cacheAttributes ac now rs (sd_Name options) c = Some c1"
    and c2: "(if rs \<noteq> [] then markAncestorsInCloud (sd_Name options) now c1 else Some c1) = Some c'"
    by (auto simp: merge_listing_def Let_def split: bind_split_asm)
  have "ct_inv c1"
  proof (cases "ac_cacheOnList ac")
    case True
    with c1 obtain c0 where
      c0: "(if rs \<noteq> [] then markAncestorsInCloud (sd_Name options) now c else Some c) = Some c0"
      and f: "fold_opt (\<lambda>a c1. map_option snd (ct_insert a True now True now c1)) rs c0 = Some c1"
      by (auto simp: cacheAttributes_def split: bind_split_asm)
    have "good c c0" using c0 good_refl [OF inv] good_markAncestorsInCloud [OF inv nm] by (auto split: if_splits)
    then show ?thesis using fold_insert_inv [OF _ unused_good [OF u] f] by blast
  next
    case False
    with c1 inv show ?thesis by (simp add: cacheAttributes_def)
  qed
  with c2 good_markAncestorsInCloud [OF _ nm] show ?thesis by (auto split: if_splits)
next
  case (Some e)
  with r inv show ?thesis by (auto simp: merge_listing_def Let_def split: if_splits option.splits)
qed

lemma inv_StreamDir:
  assumes inv: "acc_inv ac" and nm: "TruncateDirName (sd_Name options) \<noteq> [slash]"
    and ans: "\<And>as t e n1. StreamDir nc now options n = Some ((as, t, e), n1) \<Longrightarrow> \<forall>a \<in> set as. a_Path a \<noteq> [slash]"
    and r: "ac_StreamDir nc now options (ac, n) = Some (res, (ac', n'))"
  shows "acc_inv ac'"
proof (cases "fetchCachedDirList ac now (sd_Name options) (sd_Token options)")
  case (Inr x)
  with r inv show ?thesis by (auto simp: ac_StreamDir_def split: prod.splits)
next
  case (Inl cached)
  with r obtain as token err n1 rs c pl nt er1 c1 where
    s: "StreamDir nc now options n = Some ((as, token, err), n1)"
    and rs: "new_attrs as (ac_cache ac) = (rs, c)"
    and m: "merge_listing ac now options cached rs token err c = Some ((pl, nt, er1), c1)"
    and ac': "ac_cache ac' = (if er1 = None
        then (let c2 = cacheListSegment ac now (compact_attrs c1 (sort_attrs c1 pl)) (sd_Name options)
                     (sd_Token options) nt c1
              in if nt = [] then markListingComplete (sd_Name options) now c2 else c2) else c1)"
    by (auto simp: ac_StreamDir_def Let_def split: bind_split_asm prod.splits)
  have "ct_inv c" using new_attrs_inv [OF inv rs] by blast
  from merge_listing_inv [OF this unused_new_attrs [OF inv rs ans [OF s]] nm m] have "ct_inv c1" .
  then show ?thesis
    unfolding ac' Let_def using good_cacheListSegment good_markListingComplete by simp
qed

text \<open>
  The remaining handlers have one shape: their tree part is a chain of steps that keep the invariant,
  which these rules follow forward.
\<close>

lemmas inv_markAncestors [dest] =
  good_inv [OF good_markAncestorsInCloud [OF _ sane_getParentDir], rotated]
lemmas inv_updateAncestors [dest] =
  good_inv [OF good_updateAncestorsInCloud [OF _ sane_getParentDir], rotated]
lemmas inv_touch [dest] = good_inv [OF good_touchParentDirTimes, rotated]
lemmas inv_setMode [intro] = same_shape_inv [OF same_shape_setMode]
lemmas inv_setSize [intro] = same_shape_inv [OF same_shape_setSize]
lemmas inv_forget [dest] = good_inv [OF good_forget_path, rotated]

lemma inv_markDeleted: "markDeleted i t c = Some c' \<Longrightarrow> ct_inv c \<Longrightarrow> i < ct_nitems c \<Longrightarrow> ct_inv c'"
  using good_markDeleted by blast

lemma inv_markDeleted_got [dest]:
  "markDeleted i t c = Some c' \<Longrightarrow> ct_get c p = Some i \<Longrightarrow> ct_inv c \<Longrightarrow> ct_inv c'"
  using good_markDeleted ct_get_less by blast

lemma inv_invalidate_got [dest]:
  "invalidate i c = Some c' \<Longrightarrow> ct_get c p = Some i \<Longrightarrow> ct_inv c \<Longrightarrow> ct_inv c'"
  using good_invalidate ct_get_less by blast

lemma inv_moveCachedItem [dest]:
  "moveCachedItem i src dst t c = Some c' \<Longrightarrow> ct_get c p = Some i \<Longrightarrow> ct_inv c \<Longrightarrow>
     \<exists>ch \<in> set dst. ch \<noteq> slash \<Longrightarrow> ct_inv c'"
  using good_moveCachedItem ct_get_less by blast

lemma inv_CreateObjAttr [dest]:
  "insert_attr (CreateObjAttr p sz t') ex t f now c = Some (it, c') \<Longrightarrow> ct_inv c \<Longrightarrow> p \<noteq> [slash] \<Longrightarrow> ct_inv c'"
  using good_insert_attr [of c "CreateObjAttr p sz t'" ex t f now it c'] by auto

lemma inv_entry_or_new [dest]:
  "entry_or_new p sz now c = Some (i, c') \<Longrightarrow> ct_inv c \<Longrightarrow> p \<noteq> [slash] \<Longrightarrow> ct_inv c'"
  using good_entry_or_new by blast

lemmas handler_splits = bind_split_asm if_splits option.splits

lemma inv_CreateFile:
  assumes inv: "acc_inv ac" and nm: "cf_Name options \<noteq> [slash]"
    and r: "ac_CreateFile nc now options (ac, n) = Some (res, (ac', n'))"
  shows "acc_inv ac'"
proof -
  let ?nm = "cf_Name options"
  from r obtain h err n1 where e: "CreateFile nc now options n = Some ((h, err), n1)"
    by (auto simp: ac_CreateFile_def split: bind_split_asm)
  show ?thesis
  proof (cases err)
    case (Some x)
    with r e inv show ?thesis by (auto simp: ac_CreateFile_def)
  next
    case None
    with r e obtain c1 it c2 c4 where c1: "markAncestorsInCloud (getParentDir ?nm) now (ac_cache ac) = Some c1"
      and c2: "insert_attr (CreateObjAttr ?nm 0 now) True now False now c1 = Some (it, c2)"
      and c4: "touchParentDirTimes ?nm now
        (case it of Some i \<Rightarrow> setMode i (cf_Mode options) now c2 | None \<Rightarrow> c2) = Some c4"
      and ac': "ac_cache ac' = c4"
      by (auto simp: ac_CreateFile_def Let_def split: bind_split_asm)
    have "ct_inv c2" using inv c1 c2 nm by blast
    then have "ct_inv (case it of Some i \<Rightarrow> setMode i (cf_Mode options) now c2 | None \<Rightarrow> c2)"
      by (auto split: option.split)
    with c4 ac' show ?thesis by blast
  qed
qed

lemma inv_OpenFile:
  assumes inv: "acc_inv ac" and r: "ac_OpenFile nc now options (ac, n) = Some (res, (ac', n'))"
  shows "acc_inv ac'"
proof -
  let ?nm = "of_Name options" and ?c = "ac_cache ac"
  from r obtain h err n1 where e: "OpenFile nc now options n = Some ((h, err), n1)"
    by (auto simp: ac_OpenFile_def split: bind_split_asm)
  show ?thesis
  proof (cases "is_not_exist err")
    case False
    with r e inv show ?thesis by (auto simp: ac_OpenFile_def)
  next
    case True
    with r e obtain c1 c2 where
      c1: "(case ct_get ?c ?nm of Some i \<Rightarrow> if it_exists ?c i then markDeleted i now ?c else Some ?c
            | None \<Rightarrow> Some ?c) = Some c1"
      and c2: "updateAncestorsInCloud (getParentDir ?nm) now c1 = Some c2" and ac': "ac_cache ac' = c2"
      by (auto simp: ac_OpenFile_def Let_def split: bind_split_asm)
    have "ct_inv c1" using c1 inv by (auto split: option.splits if_splits)
    with c2 ac' show ?thesis by blast
  qed
qed

lemma inv_DeleteFile:
  assumes inv: "acc_inv ac" and nm: "opt_Name options \<noteq> [slash]"
    and r: "ac_DeleteFile nc now options (ac, n) = Some (res, (ac', n'))"
  shows "acc_inv ac'"
proof -
  let ?nm = "opt_Name options" and ?c = "ac_cache ac"
  let ?make = "insert_attr (CreateObjAttr ?nm 0 now) True now False now ?c"
  from r obtain err n1 where e: "DeleteFile nc now options n = Some (err, n1)"
    by (auto simp: ac_DeleteFile_def split: bind_split_asm)
  show ?thesis
  proof (cases err)
    case (Some x)
    with r e inv show ?thesis by (auto simp: ac_DeleteFile_def)
  next
    case None
    with r e obtain i c1 c2 c3 c4 where
      c1: "(case ct_get ?c ?nm of
              Some i \<Rightarrow> if it_valid ?c i then Some (Some i, ?c) else ?make | None \<Rightarrow> ?make) = Some (Some i, c1)"
      and c2: "markDeleted i now c1 = Some c2" and c3: "updateAncestorsInCloud (getParentDir ?nm) now c2 = Some c3"
      and c4: "touchParentDirTimes ?nm now c3 = Some c4" and ac': "ac' = ac\<lparr>ac_cache := c4\<rparr>"
      by (auto simp: ac_DeleteFile_def Let_def split: bind_split_asm)
    have "ct_inv c1 \<and> i < ct_nitems c1"
      using c1 inv ct_get_less [OF inv] insert_attr_new_item [OF inv, of "CreateObjAttr ?nm 0 now"] nm
      by (auto split: option.splits if_splits)
    then have "ct_inv c2" using inv_markDeleted [OF c2] by blast
    with c3 c4 ac' show ?thesis by auto
  qed
qed

lemma inv_RenameDir:
  assumes inv: "acc_inv ac" and nm: "\<exists>ch \<in> set (TruncateDirName (rd_Dst options)). ch \<noteq> slash"
    and r: "ac_RenameDir nc now options (ac, n) = Some (res, (ac', n'))"
  shows "acc_inv ac'"
proof (cases "ac_cache ac' = ac_cache ac")
  case False
  with r obtain i c1 c2 c3 where "ct_get (ac_cache ac) (rd_Src options) = Some i"
    "moveCachedItem i (TruncateDirName (rd_Src options)) (TruncateDirName (rd_Dst options)) now (ac_cache ac) = Some c1"
    and c2: "touchParentDirTimes (rd_Src options) now c1 = Some c2"
    and c3: "(if getParentDir (rd_Src options) \<noteq> getParentDir (rd_Dst options)
              then touchParentDirTimes (rd_Dst options) now c2 else Some c2) = Some c3"
    and ac': "ac_cache ac' = c3"
    by (auto simp: ac_RenameDir_def Let_def split: bind_split_asm if_split_asm option.split_asm)
  with inv nm have "ct_inv c1" by blast
  with c2 have "ct_inv c2" by blast
  with c3 ac' show ?thesis by (auto split: if_splits)
qed (use inv in simp)

lemma inv_RenameFile:
  assumes inv: "acc_inv ac" and nm: "\<exists>ch \<in> set (rf_Dst options). ch \<noteq> slash"
    and r: "ac_RenameFile nc now options (ac, n) = Some (res, (ac', n'))"
  shows "acc_inv ac'"
proof (cases "ac_cache ac' = ac_cache ac")
  case False
  with r obtain i c1 c2 c3 c4 c5 where "ct_get (ac_cache ac) (rf_Src options) = Some i"
    "moveCachedItem i (rf_Src options) (rf_Dst options) now (ac_cache ac) = Some c1"
    and c2: "updateAncestorsInCloud (getParentDir (rf_Src options)) now c1 = Some c2"
    and c3: "markAncestorsInCloud (getParentDir (rf_Dst options)) now c2 = Some c3"
    and c4: "touchParentDirTimes (rf_Src options) now c3 = Some c4"
    and c5: "(if getParentDir (rf_Src options) \<noteq> getParentDir (rf_Dst options)
              then touchParentDirTimes (rf_Dst options) now c4 else Some c4) = Some c5"
    and ac': "ac_cache ac' = c5"
    by (auto simp: ac_RenameFile_def Let_def split: bind_split_asm if_split_asm option.split_asm)
  with inv nm have "ct_inv c1" by blast
  with c2 have "ct_inv c2" by blast
  with c3 have "ct_inv c3" by blast
  with c4 have "ct_inv c4" by blast
  with c5 ac' show ?thesis by (auto split: if_splits)
qed (use inv in simp)

lemma inv_WriteFile:
  assumes inv: "acc_inv ac" and nm: "h_Path (wf_Handle options) \<noteq> [slash]"
    and ans: "\<And>a e n1. GetAttr nc now \<lparr>ga_Name = h_Path (wf_Handle options), ga_RetrieveMetadata = True\<rparr> n =
       Some ((Some a, e), n1) \<Longrightarrow> a_Path a \<noteq> [slash]"
    and r: "ac_WriteFile nc now options (ac, n) = Some (res, (ac', n'))"
  shows "acc_inv ac'"
proof -
  let ?g = "\<lparr>ga_Name = h_Path (wf_Handle options), ga_RetrieveMetadata = True\<rparr>"
  from r obtain attr err ac1 n1 where g: "ac_GetAttr nc now ?g (ac, n) = Some ((attr, err), (ac1, n1))"
    by (auto simp: ac_WriteFile_def Let_def split: bind_split_asm)
  have "ga_Name ?g \<noteq> [slash]" using nm by simp
  have "safe ac ac1" by (rule safe_GetAttr [OF inv \<open>ga_Name ?g \<noteq> [slash]\<close> _ g]) (use ans in blast)
  then have inv1: "acc_inv ac1" unfolding safe_def by blast
  define options' where
    "options' = (case attr of Some a \<Rightarrow> options\<lparr>wf_Metadata := a_Metadata a\<rparr> | None \<Rightarrow> options)"
  show ?thesis
  proof (cases "err \<noteq> None \<and> \<not> is_not_exist err")
    case True
    with r g inv1 show ?thesis by (simp add: ac_WriteFile_def Let_def)
  next
    case False
    with r g obtain sz err2 n2 where w: "WriteFile nc now options' n1 = Some ((sz, err2), n2)"
      and r': "(if err2 = None then do {
           (i, c1) \<leftarrow> entry_or_new (h_Path (wf_Handle options))
              (wrap64 (wf_Offset options' + int (length (wf_Data options')))) now (ac_cache ac1);
           Some ((sz, None), (ac1\<lparr>ac_cache := upd_attr i (\<lambda>a. a\<lparr>a_Metadata := wf_Metadata options'\<rparr>)
             (setSize i (wrap64 (wf_Offset options' + int (length (wf_Data options')))) now c1)\<rparr>, n2))
         } else Some ((sz, err2), (ac1, n2))) = Some (res, (ac', n'))"
      unfolding options'_def ac_WriteFile_def Let_def by (auto split: bind_split_asm)
    show ?thesis
    proof (cases err2)
      case None
      with r' obtain i c1 where "entry_or_new (h_Path (wf_Handle options))
          (wrap64 (wf_Offset options' + int (length (wf_Data options')))) now (ac_cache ac1) = Some (i, c1)"
        and ac': "ac_cache ac' = upd_attr i (\<lambda>a. a\<lparr>a_Metadata := wf_Metadata options'\<rparr>)
          (setSize i (wrap64 (wf_Offset options' + int (length (wf_Data options')))) now c1)"
        by (auto split: bind_split_asm)
      with inv1 nm have "ct_inv c1" by blast
      then show ?thesis
        unfolding ac' by (intro same_shape_inv [OF same_shape_upd_attr]) auto
    qed (use r' inv1 in auto)
  qed
qed

lemma inv_TruncateFile:
  assumes inv: "acc_inv ac" and nm: "tf_Name options \<noteq> [slash]"
    and r: "ac_TruncateFile nc now options (ac, n) = Some (res, (ac', n'))"
  shows "acc_inv ac'"
  using r inv nm by (fastforce simp: ac_TruncateFile_def split: bind_split_asm if_splits)

lemma inv_CopyToFile:
  assumes inv: "acc_inv ac" and r: "ac_CopyToFile nc now options (ac, n) = Some (res, (ac', n'))"
  shows "acc_inv ac'"
  using r inv by (fastforce simp: ac_CopyToFile_def Let_def split: handler_splits)

lemma inv_CopyFromFile:
  assumes inv: "acc_inv ac" and nm: "cp_Name options \<noteq> [slash]"
    and ans: "\<And>a e n1. GetAttr nc now \<lparr>ga_Name = cp_Name options, ga_RetrieveMetadata = True\<rparr> n =
       Some ((Some a, e), n1) \<Longrightarrow> a_Path a \<noteq> [slash]"
    and r: "ac_CopyFromFile nc now options (ac, n) = Some (res, (ac', n'))"
  shows "acc_inv ac'"
proof -
  let ?nm = "cp_Name options"
  let ?g = "\<lparr>ga_Name = ?nm, ga_RetrieveMetadata = True\<rparr>"
  from r obtain attr err ac1 n1 where g: "ac_GetAttr nc now ?g (ac, n) = Some ((attr, err), (ac1, n1))"
    by (auto simp: ac_CopyFromFile_def Let_def split: bind_split_asm)
  have "ga_Name ?g \<noteq> [slash]" using nm by simp
  have "safe ac ac1" by (rule safe_GetAttr [OF inv \<open>ga_Name ?g \<noteq> [slash]\<close> _ g]) (use ans in blast)
  then have inv1: "acc_inv ac1" unfolding safe_def by blast
  show ?thesis
  proof (cases "err \<noteq> None \<and> \<not> is_not_exist err")
    case True
    with r g inv1 show ?thesis by (simp add: ac_CopyFromFile_def Let_def)
  next
    case False
    with r g obtain err2 n2 where
      w: "CopyFromFile nc now (options\<lparr>cp_Metadata := merged_metadata (cp_Metadata options) attr\<rparr>) n1 = Some (err2, n2)"
      unfolding ac_CopyFromFile_def Let_def by (auto split: bind_split_asm)
    from False r g w have
      r': "(if err2 = None then do {
         c1 \<leftarrow> markAncestorsInCloud (getParentDir ?nm) now (ac_cache ac1);
         (case lf_Stat (cp_File options) of
            Inl statErr \<Rightarrow> do {
              c2 \<leftarrow> forget_path ?nm c1;
              Some (None, (ac1\<lparr>ac_cache := c2\<rparr>, n2))
            }
          | Inr (sz, mtime, mode) \<Rightarrow> do {
              (it, c2) \<leftarrow> insert_attr (CreateObjAttr ?nm sz mtime) True now False now c1;
              i \<leftarrow> it;
              Some (None, (ac1\<lparr>ac_cache := setMode i mode now c2\<rparr>, n2))
            })
       } else Some (err2, (ac1, n2))) = Some (res, (ac', n'))"
      unfolding ac_CopyFromFile_def Let_def by (cases err; cases err2) auto
    show ?thesis
    proof (cases err2)
      case None
      with r' obtain c1 where c1: "markAncestorsInCloud (getParentDir ?nm) now (ac_cache ac1) = Some c1"
        by (auto split: bind_split_asm)
      with inv1 have i1: "ct_inv c1" by blast
      show ?thesis
      proof (cases "lf_Stat (cp_File options)")
        case (Inl e)
        with r' None c1 i1 show ?thesis by (auto split: bind_split_asm)
      next
        case (Inr st)
        with r' None c1 obtain i mode c2 sz mtime where
          "insert_attr (CreateObjAttr ?nm sz mtime) True now False now c1 = Some (Some i, c2)"
          and ac': "ac_cache ac' = setMode i mode now c2"
          by (auto split: bind_split_asm prod.split_asm)
        with i1 nm have "ct_inv c2" by blast
        then show ?thesis unfolding ac' by blast
      qed
    qed (use r' inv1 in auto)
  qed
qed

lemma inv_SyncFile:
  assumes inv: "acc_inv ac" and r: "ac_SyncFile nc now options (ac, n) = Some (res, (ac', n'))"
  shows "acc_inv ac'"
  using r inv by (fastforce simp: ac_SyncFile_def Let_def split: handler_splits)

lemma inv_SyncDir:
  assumes inv: "acc_inv ac" and r: "ac_SyncDir nc now options (ac, n) = Some (res, (ac', n'))"
  shows "acc_inv ac'"
  using r inv good_invalidateDirectory
  by (fastforce simp: ac_SyncDir_def split: bind_split_asm if_splits)

lemma inv_CreateLink:
  assumes inv: "acc_inv ac" and nm: "cl_Name options \<noteq> [slash]"
    and r: "ac_CreateLink nc now options (ac, n) = Some (res, (ac', n'))"
  shows "acc_inv ac'"
proof (cases "ac' = ac")
  case False
  let ?nm = "cl_Name options"
  from r False obtain attr it c1 c2 where
    c1: "insert_attr attr True now False now (ac_cache ac) = Some (it, c1)" and p: "a_Path attr = ?nm"
    and c2: "markAncestorsInCloud (getParentDir ?nm) now c1 = Some c2"
    and c3: "touchParentDirTimes ?nm now c2 = Some (ac_cache ac')"
    by (auto simp: ac_CreateLink_def Let_def split: bind_split_asm if_split_asm)
  have "ct_inv c1" using good_insert_attr [OF inv c1] p nm by auto
  with c2 have "ct_inv c2" by blast
  with c3 show ?thesis by blast
qed (use inv in simp)

lemma inv_FlushFile:
  assumes inv: "acc_inv ac" and r: "ac_FlushFile nc now options (ac, n) = Some (res, (ac', n'))"
  shows "acc_inv ac'"
  using r inv by (fastforce simp: ac_FlushFile_def Let_def split: bind_split_asm if_splits)

lemma inv_CommitData:
  assumes inv: "acc_inv ac" and r: "ac_CommitData nc now options (ac, n) = Some (res, (ac', n'))"
  shows "acc_inv ac'"
  using r inv by (fastforce simp: ac_CommitData_def Let_def split: bind_split_asm if_splits)

lemma inv_Chmod:
  assumes inv: "acc_inv ac" and r: "ac_Chmod nc now options (ac, n) = Some (res, (ac', n'))"
  shows "acc_inv ac'"
  using r inv by (fastforce simp: ac_Chmod_def Let_def split: handler_splits)

lemma inv_IsDirEmpty:
  assumes inv: "acc_inv ac" and r: "ac_IsDirEmpty nc now options (ac, n) = Some (res, (ac', n'))"
  shows "acc_inv ac'"
  using r inv by (auto simp: ac_IsDirEmpty_def Let_def split: if_splits option.splits)

lemma set_insert_desc: "set (insert_desc s xs) = insert s (set xs)"
  by (induction s xs rule: insert_desc.induct) auto

lemma set_sort_desc: "set (sort_desc xs) = set xs"
  unfolding sort_desc_def by (induction xs) (auto simp: set_insert_desc)

lemma inv_cleanup:
  assumes inv: "acc_inv ac" and r: "cleanupExpiredEntries nc now (ac, n) = Some (ac', n')"
  shows "acc_inv ac'"
proof -
  from r obtain online n1 where o: "CloudConnected nc now () n = Some (online, n1)"
    by (auto simp: cleanupExpiredEntries_def split: option.splits)
  show ?thesis
  proof (cases online)
    case True
    with r o obtain c where c: "fold_opt (cleanup_key ac now) (keysToDelete ac now) (ac_cache ac) = Some c"
      "ac_cache ac' = c"
      by (auto simp: cleanupExpiredEntries_def with_cache_def)
    have "good (ac_cache ac) c"
    proof (rule good_fold_opt [OF c(1) inv])
      fix x c1 c2 assume "x \<in> set (keysToDelete ac now)" "good (ac_cache ac) c1" "cleanup_key ac now x c1 = Some c2"
      then show "good c1 c2"
        using good_cleanup_key [of c1 x ac now c2] by (auto simp: keysToDelete_def Let_def set_sort_desc)
    qed
    with c(2) show ?thesis by blast
  qed (use r o inv in \<open>simp add: cleanupExpiredEntries_def\<close>)
qed

end
