(* ===== verification/Attr_Cache_Runs.thy ===== *)
theory Attr_Cache_Runs
  imports Attr_Cache_Safety
begin

text \<open>
  Runs of the attribute cache: any sequence of requests and background cleanups over any component
  below. The tree's invariant holds in every state a run reaches, so that every walk over the tree
  returns there.
\<close>

section \<open>Requests\<close>

datatype ac_request =
    ACreateDir CreateDirOptions | ADeleteDir NameOptions | AStreamDir StreamDirOptions
  | AIsDirEmpty NameOptions | ARenameDir RenameDirOptions | ACreateFile CreateFileOptions
  | AOpenFile OpenFileOptions | ADeleteFile NameOptions | ARenameFile RenameFileOptions
  | AWriteFile WriteFileOptions | ATruncateFile TruncateFileOptions | ACopyToFile CopyToFileOptions
  | ACopyFromFile CopyFromFileOptions | ASyncFile SyncFileOptions | ASyncDir NameOptions
  | AFlushFile FlushFileOptions | ACreateLink CreateLinkOptions | AGetAttr GetAttrOptions
  | AChmod ChmodOptions | ACommitData CommitDataOptions | ACleanup

fun ac_serve :: "'n component \<Rightarrow> int \<Rightarrow> ac_request \<Rightarrow> AttrCache \<times> 'n \<Rightarrow> (AttrCache \<times> 'n) option" where
  "ac_serve nc now (ACreateDir o1) s = map_option snd (ac_CreateDir nc now o1 s)"
| "ac_serve nc now (ADeleteDir o1) s = map_option snd (ac_DeleteDir nc now o1 s)"
| "ac_serve nc now (AStreamDir o1) s = map_option snd (ac_StreamDir nc now o1 s)"
| "ac_serve nc now (AIsDirEmpty o1) s = map_option snd (ac_IsDirEmpty nc now o1 s)"
| "ac_serve nc now (ARenameDir o1) s = map_option snd (ac_RenameDir nc now o1 s)"
| "ac_serve nc now (ACreateFile o1) s = map_option snd (ac_CreateFile nc now o1 s)"
| "ac_serve nc now (AOpenFile o1) s = map_option snd (ac_OpenFile nc now o1 s)"
| "ac_serve nc now (ADeleteFile o1) s = map_option snd (ac_DeleteFile nc now o1 s)"
| "ac_serve nc now (ARenameFile o1) s = map_option snd (ac_RenameFile nc now o1 s)"
| "ac_serve nc now (AWriteFile o1) s = map_option snd (ac_WriteFile nc now o1 s)"
| "ac_serve nc now (ATruncateFile o1) s = map_option snd (ac_TruncateFile nc now o1 s)"
| "ac_serve nc now (ACopyToFile o1) s = map_option snd (ac_CopyToFile nc now o1 s)"
| "ac_serve nc now (ACopyFromFile o1) s = map_option snd (ac_CopyFromFile nc now o1 s)"
| "ac_serve nc now (ASyncFile o1) s = map_option snd (ac_SyncFile nc now o1 s)"
| "ac_serve nc now (ASyncDir o1) s = map_option snd (ac_SyncDir nc now o1 s)"
| "ac_serve nc now (AFlushFile o1) s = map_option snd (ac_FlushFile nc now o1 s)"
| "ac_serve nc now (ACreateLink o1) s = map_option snd (ac_CreateLink nc now o1 s)"
| "ac_serve nc now (AGetAttr o1) s = map_option snd (ac_GetAttr nc now o1 s)"
| "ac_serve nc now (AChmod o1) s = map_option snd (ac_Chmod nc now o1 s)"
| "ac_serve nc now (ACommitData o1) s = map_option snd (ac_CommitData nc now o1 s)"
| "ac_serve nc now ACleanup s = cleanupExpiredEntries nc now s"

text \<open>
  The path \<open>/\<close>, which the cache takes for the root, must not be given to it as a file: not by a
  request, and not by an attribute the storage answers with.
\<close>

definition plain_attr_answer :: "'n component \<Rightarrow> int \<Rightarrow> GetAttrOptions \<Rightarrow> 'n \<Rightarrow> bool" where
  "plain_attr_answer nc now o1 n =
     (case GetAttr nc now o1 n of Some ((Some a, e), n1) \<Rightarrow> a_Path a \<noteq> [slash] | _ \<Rightarrow> True)"

definition plain_list_answer :: "'n component \<Rightarrow> int \<Rightarrow> StreamDirOptions \<Rightarrow> 'n \<Rightarrow> bool" where
  "plain_list_answer nc now o1 n =
     (case StreamDir nc now o1 n of
        Some ((as, t, e), n1) \<Rightarrow> list_all (\<lambda>a. a_Path a \<noteq> [slash]) as | None \<Rightarrow> True)"

fun plain_request :: "'n component \<Rightarrow> int \<Rightarrow> ac_request \<Rightarrow> 'n \<Rightarrow> bool" where
  "plain_request nc now (ACreateDir o1) n \<longleftrightarrow> TruncateDirName (cd_Name o1) \<noteq> [slash]"
| "plain_request nc now (AStreamDir o1) n \<longleftrightarrow>
     TruncateDirName (sd_Name o1) \<noteq> [slash] \<and> plain_list_answer nc now o1 n"
| "plain_request nc now (ARenameDir o1) n \<longleftrightarrow> list_ex (\<lambda>ch. ch \<noteq> slash) (TruncateDirName (rd_Dst o1))"
| "plain_request nc now (ACreateFile o1) n \<longleftrightarrow> cf_Name o1 \<noteq> [slash]"
| "plain_request nc now (ADeleteFile o1) n \<longleftrightarrow> opt_Name o1 \<noteq> [slash]"
| "plain_request nc now (ARenameFile o1) n \<longleftrightarrow> list_ex (\<lambda>ch. ch \<noteq> slash) (rf_Dst o1)"
| "plain_request nc now (AWriteFile o1) n \<longleftrightarrow> h_Path (wf_Handle o1) \<noteq> [slash] \<and>
     plain_attr_answer nc now \<lparr>ga_Name = h_Path (wf_Handle o1), ga_RetrieveMetadata = True\<rparr> n"
| "plain_request nc now (ATruncateFile o1) n \<longleftrightarrow> tf_Name o1 \<noteq> [slash]"
| "plain_request nc now (ACopyFromFile o1) n \<longleftrightarrow> cp_Name o1 \<noteq> [slash] \<and>
     plain_attr_answer nc now \<lparr>ga_Name = cp_Name o1, ga_RetrieveMetadata = True\<rparr> n"
| "plain_request nc now (ACreateLink o1) n \<longleftrightarrow> cl_Name o1 \<noteq> [slash]"
| "plain_request nc now (AGetAttr o1) n \<longleftrightarrow> ga_Name o1 \<noteq> [slash] \<and> plain_attr_answer nc now o1 n"
| "plain_request nc now _ n \<longleftrightarrow> True"

fun ac_run :: "'n component \<Rightarrow> (int \<times> ac_request) list \<Rightarrow> AttrCache \<times> 'n \<Rightarrow> (AttrCache \<times> 'n) option" where
  "ac_run nc [] s = Some s"
| "ac_run nc ((now, r) # rs) s =
     (case ac_serve nc now r s of None \<Rightarrow> None | Some s' \<Rightarrow> ac_run nc rs s')"

fun plain_run :: "'n component \<Rightarrow> (int \<times> ac_request) list \<Rightarrow> AttrCache \<times> 'n \<Rightarrow> bool" where
  "plain_run nc [] s = True"
| "plain_run nc ((now, r) # rs) s =
     (plain_request nc now r (snd s) \<and>
      (case ac_serve nc now r s of None \<Rightarrow> True | Some s' \<Rightarrow> plain_run nc rs s'))"

section \<open>The invariant along a run\<close>

lemma plain_attr_answerD:
  "plain_attr_answer nc now o1 n \<Longrightarrow> GetAttr nc now o1 n = Some ((Some a, e), n1) \<Longrightarrow> a_Path a \<noteq> [slash]"
  by (simp add: plain_attr_answer_def)

lemma plain_list_answerD:
  "plain_list_answer nc now o1 n \<Longrightarrow> StreamDir nc now o1 n = Some ((as, t, e), n1) \<Longrightarrow>
     \<forall>a \<in> set as. a_Path a \<noteq> [slash]"
  by (simp add: plain_list_answer_def list_all_iff)

lemma ac_serve_inv:
  assumes inv: "acc_inv ac" and pl: "plain_request nc now r n" and s: "ac_serve nc now r (ac, n) = Some (ac', n')"
  shows "acc_inv ac'"
proof (cases r)
  case (ACreateDir o1)
  with assms safe_CreateDir [OF inv, of o1 nc now n] show ?thesis by (fastforce simp: safe_def)
next
  case (ADeleteDir o1)
  with assms safe_DeleteDir [OF inv, of nc now o1 n] show ?thesis by (fastforce simp: safe_def)
next
  case (AGetAttr o1)
  from s AGetAttr obtain res where g: "ac_GetAttr nc now o1 (ac, n) = Some (res, (ac', n'))" by auto
  have "safe ac ac'"
    by (rule safe_GetAttr [OF inv _ _ g]) (use pl AGetAttr in \<open>auto dest: plain_attr_answerD\<close>)
  then show ?thesis unfolding safe_def by blast
next
  case (AStreamDir o1)
  from s AStreamDir obtain res where g: "ac_StreamDir nc now o1 (ac, n) = Some (res, (ac', n'))" by auto
  show ?thesis
    by (rule inv_StreamDir [OF inv _ _ g]) (use pl AStreamDir in \<open>auto dest: plain_list_answerD\<close>)
next
  case (AWriteFile o1)
  from s AWriteFile obtain res where g: "ac_WriteFile nc now o1 (ac, n) = Some (res, (ac', n'))" by auto
  show ?thesis
    by (rule inv_WriteFile [OF inv _ _ g]) (use pl AWriteFile in \<open>auto dest: plain_attr_answerD\<close>)
next
  case (ACopyFromFile o1)
  from s ACopyFromFile obtain res where g: "ac_CopyFromFile nc now o1 (ac, n) = Some (res, (ac', n'))" by auto
  show ?thesis
    by (rule inv_CopyFromFile [OF inv _ _ g]) (use pl ACopyFromFile in \<open>auto dest: plain_attr_answerD\<close>)
next
  case (ARenameDir o1)
  with pl have nz: "\<exists>ch \<in> set (TruncateDirName (rd_Dst o1)). ch \<noteq> slash" by (simp add: list_ex_iff)
  from s ARenameDir obtain res where g: "ac_RenameDir nc now o1 (ac, n) = Some (res, (ac', n'))" by auto
  with nz show ?thesis by (rule inv_RenameDir [OF inv])
next
  case (ARenameFile o1)
  with pl have nz: "\<exists>ch \<in> set (rf_Dst o1). ch \<noteq> slash" by (simp add: list_ex_iff)
  from s ARenameFile obtain res where g: "ac_RenameFile nc now o1 (ac, n) = Some (res, (ac', n'))" by auto
  with nz show ?thesis by (rule inv_RenameFile [OF inv])
next
  case ACleanup
  with s inv_cleanup [OF inv] show ?thesis by auto
qed (use s pl inv_IsDirEmpty [OF inv] inv_CreateFile [OF inv] inv_OpenFile [OF inv] inv_DeleteFile [OF inv]
      inv_TruncateFile [OF inv] inv_CopyToFile [OF inv] inv_SyncFile [OF inv] inv_SyncDir [OF inv]
      inv_FlushFile [OF inv] inv_CreateLink [OF inv] inv_Chmod [OF inv] inv_CommitData [OF inv] in auto)

lemma ac_run_inv:
  "acc_inv (fst s) \<Longrightarrow> plain_run nc rs s \<Longrightarrow> ac_run nc rs s = Some s' \<Longrightarrow> acc_inv (fst s')"
proof (induction rs arbitrary: s)
  case (Cons q rs)
  obtain now r where q: "q = (now, r)" by (cases q)
  from Cons.prems(3) q obtain s1 where s1: "ac_serve nc now r s = Some s1" "ac_run nc rs s1 = Some s'"
    by (auto split: option.splits)
  with Cons.prems q have "acc_inv (fst s1)"
    using ac_serve_inv [of "fst s" nc now r "snd s" "fst s1" "snd s1"] by simp
  with Cons.IH [of s1] Cons.prems(2) q s1 show ?case by simp
qed simp

lemma newCacheTreeMap_inv: "ct_inv (newCacheTreeMap mx now)"
proof -
  have p: "a_Path (CreateObjAttrDir now []) = []" by simp
  show ?thesis
    by (rule ct_invI) (auto simp: newCacheTreeMap_def ct_attr_def it_exists_def it_valid_def p split: if_splits)
qed

lemma ac_Start_inv: "acc_inv (ac_Start now ac)"
  by (simp add: ac_Start_def newCacheTreeMap_inv)

section \<open>Properties\<close>

text \<open>A run over the loopback storage: it makes a directory and asks for its attributes.\<close>

definition ac_disk :: loopback where
  "ac_disk =
     \<lparr>lb_fs = \<lparr>dents = [(''/d'', 0)], inodes = (\<lambda>i. DirNode 0 0),
        next_ino = 1, open_fds = [], next_fd = 0\<rparr>,
      lb_table = \<lparr>handles = [], nextHandleID = 0\<rparr>, lb_path = ''/d'', lb_consistency = False\<rparr>"

definition ac_fresh :: AttrCache where
  "ac_fresh = \<lparr>ac_cacheTimeout = 120, ac_cacheOnList = True, ac_enableSymlinks = False, ac_maxFiles = 10,
     ac_cache = newCacheTreeMap 10 0\<rparr>"

definition ac_story :: "(int \<times> ac_request) list" where
  "ac_story =
     [(1, ACreateDir \<lparr>cd_Name = ''x'', cd_Mode = 0\<rparr>),
      (2, AGetAttr \<lparr>ga_Name = ''x'', ga_RetrieveMetadata = False\<rparr>)]"

lemma ac_story_runs:
  shows "plain_run (loopback_component id) ac_story (ac_Start 0 ac_fresh, ac_disk)"
    and "\<exists>ac' n' i. ac_run (loopback_component id) ac_story (ac_Start 0 ac_fresh, ac_disk) = Some (ac', n') \<and>
      ct_get (ac_cache ac') ''x'' = Some i"
proof -
  show "plain_run (loopback_component id) ac_story (ac_Start 0 ac_fresh, ac_disk)" by code_simp
  have "case ac_run (loopback_component id) ac_story (ac_Start 0 ac_fresh, ac_disk) of
      None \<Rightarrow> False | Some s \<Rightarrow> ct_get (ac_cache (fst s)) ''x'' \<noteq> None" by code_simp
  then show "\<exists>ac' n' i. ac_run (loopback_component id) ac_story (ac_Start 0 ac_fresh, ac_disk) = Some (ac', n') \<and>
      ct_get (ac_cache ac') ''x'' = Some i"
    by (auto split: option.splits)
qed

text \<open>
  C12. The tree stays well formed: from the start of the component, after any sequence of requests and
  cleanups over any component below that does not involve the path \<open>/\<close> as a file, the cache tree
  keeps its shape: keys are the entries' paths, children point back to their parents and lie strictly
  deeper, and no two entries share an attribute.
\<close>

theorem attr_cache_stays_consistent:
  assumes "plain_run nc rs (ac_Start t ac, n)" and "ac_run nc rs (ac_Start t ac, n) = Some (ac', n')"
  shows "ct_inv (ac_cache ac')"
  using ac_run_inv [OF _ assms] ac_Start_inv by simp

theorem attr_cache_stays_consistent_witness:
  "\<exists>ac' n'. ac_run (loopback_component id) ac_story (ac_Start 0 ac_fresh, ac_disk) = Some (ac', n') \<and>
     ct_inv (ac_cache ac')"
  using ac_story_runs attr_cache_stays_consistent [OF ac_story_runs(1)] by blast

text \<open>
  C15. The walks over the tree return: in every state such a run reaches, marking any cached entry as
  deleted, or invalidating it, finishes, although the walk follows the links of the tree through
  shared mutable items.
\<close>

theorem attr_cache_walks_return:
  assumes "plain_run nc rs (ac_Start t ac, n)" and "ac_run nc rs (ac_Start t ac, n) = Some (ac', n')"
    and "ct_get (ac_cache ac') path = Some i"
  shows "(\<exists>c. markDeleted i now (ac_cache ac') = Some c) \<and> (\<exists>c. invalidate i (ac_cache ac') = Some c)"
proof -
  have inv: "ct_inv (ac_cache ac')" using ac_run_inv [OF _ assms(1,2)] ac_Start_inv by simp
  then have "i < ct_nitems (ac_cache ac')" using assms(3) ct_get_less by blast
  with inv show ?thesis using markDeleted_returns invalidate_returns by blast
qed

theorem attr_cache_walks_return_witness:
  "\<exists>ac' n' i c. ac_run (loopback_component id) ac_story (ac_Start 0 ac_fresh, ac_disk) = Some (ac', n') \<and>
     ct_get (ac_cache ac') ''x'' = Some i \<and> markDeleted i 3 (ac_cache ac') = Some c"
  using ac_story_runs attr_cache_walks_return [OF ac_story_runs(1)] by blast

end
