(* ===== verification/Attr_Cache_Correct.thy ===== *)
theory Attr_Cache_Correct
  imports Attr_Cache_Runs
begin

text \<open>
  What the attribute cache answers: a created file is served from the cache, a deleted one is known to
  be gone, deleting marks exactly the subtree; and two cases where the answer is wrong or there is none.
\<close>

section \<open>The cache as a map of entries\<close>

text \<open>
  What a lookup reads of the entry under a key: whether it is valid and exists, when it was cached, and
  the size and path of its attribute.
\<close>

definition entry :: "cacheTreeMap \<Rightarrow> string \<Rightarrow> (nat \<times> bool \<times> bool \<times> int \<times> int \<times> string) option" where
  "entry c k = map_option
     (\<lambda>i. (i, it_valid c i, it_exists c i, ci_cachedAt (ct_items c i), a_Size (ct_attr c i), ct_path c i))
     (map_of (cacheMap c) k)"

lemma entry_keeps:
  assumes "ct_inv c" "keeps c c'" "map_of (cacheMap c') k = map_of (cacheMap c) k"
  shows "entry c' k = entry c k"
proof (cases "map_of (cacheMap c) k")
  case (Some i)
  note i = ct_invD(4) [OF assms(1) Some]
  show ?thesis
    using assms(3) keeps_simps [OF assms(2) i] ct_invD(6) [OF assms(1) i] by (simp add: entry_def Some)
qed (use assms(3) in \<open>simp add: entry_def\<close>)

lemma entry_markInCloud: "entry (markInCloud i b c) k = entry c k"
proof -
  have "IsSet (ci_attrFlag (ct_items (markInCloud i b c) j)) f = IsSet (ci_attrFlag (ct_items c j)) f"
    if "f = AttrFlagExists \<or> f = AttrFlagValid" for j f
    using that by (auto simp: markInCloud_def IsSet_bit bit_ClearBit bit_SetBit AttrFlagExists_def
        AttrFlagValid_def AttrFlagNotInCloud_def)
  moreover have "ct_attr (markInCloud i b c) j = ct_attr c j"
    "ci_cachedAt (ct_items (markInCloud i b c) j) = ci_cachedAt (ct_items c j)"
    "cacheMap (markInCloud i b c) = cacheMap c" for j
    by (auto simp: markInCloud_def ct_attr_def)
  ultimately show ?thesis by (simp add: entry_def it_exists_def it_valid_def)
qed

lemma other_attr:
  assumes "ct_inv c" "map_of (cacheMap c) k = Some i" "j < ct_nitems c" "TruncateDirName (ct_path c j) \<noteq> k"
  shows "i \<noteq> j" "ci_attr (ct_items c i) \<noteq> ci_attr (ct_items c j)"
  using ct_invD(4,5) [OF assms(1,2)] ct_invD(7) [OF assms(1) _ assms(3)] assms(4) by auto

lemma entry_touch:
  assumes "ct_inv c" "\<And>j. it = Some j \<Longrightarrow> j < ct_nitems c \<and> TruncateDirName (ct_path c j) \<noteq> k"
  shows "entry (touchModifyAndChangeTimes it t c) k = entry c k"
proof (cases it)
  case (Some j)
  show ?thesis
  proof (cases "map_of (cacheMap c) k")
    case k: (Some i)
    with assms(2) [OF Some] other_attr [OF assms(1) k, of j] Some show ?thesis
      by (simp add: touchModifyAndChangeTimes_def entry_def it_valid_def it_exists_def ct_attr_def)
  qed (simp add: Some touchModifyAndChangeTimes_def entry_def)
qed (simp add: touchModifyAndChangeTimes_def)

section \<open>Insertions at shorter keys\<close>

lemma insertItem_long:
  "insertItem p new f now c = Some c' \<Longrightarrow> length p < length k \<Longrightarrow> map_of (cacheMap c') k = map_of (cacheMap c) k"
proof (induction p new f now c arbitrary: c' rule: insertItem.induct)
  case (1 p new f now c)
  let ?q = "TruncateDirName (TruncateDirName (getParentDir p))"
  show ?case
  proof (cases "lacks_parent c (getParentDir p) new")
    case True
    with 1(2) have p: "p \<noteq> []" by (subst (asm) insertItem.simps) (auto simp: Let_def)
    obtain par c1 where n: "new_parent now (getParentDir p) new c = (par, c1)" by fastforce
    with 1(2) p True obtain c2 where c2: "insertItem ?q par f now c1 = Some c2" "c' = link_item p new par f c2"
      by (subst (asm) insertItem.simps) (auto simp: Let_def)
    have "cacheMap c1 = cacheMap c"
      using n by (auto simp: new_parent_def new_attr_def new_item_def split: prod.splits)
    with 1(1) [OF refl refl True p n [symmetric] c2(1)] 1(3) parent_key_shorter(1) [OF p] c2(2)
    show ?thesis by (auto simp del: map_of_eq_Some_iff)
  next
    case False
    with 1(2,3) show ?thesis by (subst (asm) insertItem.simps) (auto simp: Let_def simp del: map_of_eq_Some_iff)
  qed
qed

lemma insert_attr_long:
  assumes "insert_attr attr ex t f now c = Some (it, c')" "length (TruncateDirName (a_Path attr)) < length k"
  shows "map_of (cacheMap c') k = map_of (cacheMap c) k"
proof -
  obtain a c1 where n: "new_attr attr c = (a, c1)" "cacheMap c1 = cacheMap c" "ct_attrs c1 a = attr"
      "maxFiles c1 = maxFiles c"
    by (auto simp: new_attr_def)
  obtain i c2 where i: "new_item (newAttrCacheItem a ex t) c1 = (i, c2)" "cacheMap c2 = cacheMap c1"
    by (auto simp: new_item_def)
  show ?thesis
  proof (cases "int (length (cacheMap c)) \<ge> maxFiles c \<or> a_Path attr = []")
    case True
    with assms(1) insert_attr_full [OF True, of ex t f now] n show ?thesis by auto
  next
    case False
    then have "ct_insert a ex t f now c1 = map_option (\<lambda>c2. (Some i, c2))
        (insertItem (TruncateDirName (a_Path attr)) i f now c2)"
      using n i by (auto simp: ct_insert_def new_attr_def)
    with assms n(1) obtain c3 where "insertItem (TruncateDirName (a_Path attr)) i f now c2 = Some c3" "c' = c3"
      by (auto simp: insert_attr_def)
    with insertItem_long assms(2) n(2) i(2) show ?thesis by metis
  qed
qed

lemma entry_insert_attr:
  assumes "ct_inv c" "insert_attr attr ex t f now c = Some (it, c')" "a_Path attr \<noteq> [slash]"
    and "length (TruncateDirName (a_Path attr)) < length k"
  shows "ct_inv c'" "entry c' k = entry c k"
proof -
  from insert_attr_inv [OF assms(1,3), of ex t f now] assms(2) have "ct_inv c'" "keeps c c'" by auto
  with entry_keeps [OF assms(1) _ insert_attr_long [OF assms(2,4)]] show "ct_inv c'" "entry c' k = entry c k" by auto
qed

lemma dir_item_result:
  assumes "ct_inv c" "dir_item d now c = Some (i, c')" "TruncateDirName d \<noteq> [slash]"
    and "length (TruncateDirName (TruncateDirName d)) < length k" "length (TruncateDirName d) < length k"
  shows "ct_inv c'" "entry c' k = entry c k"
proof -
  have "ct_inv c' \<and> entry c' k = entry c k"
    if "insert_attr (CreateObjAttrDir now d) True now False now c = Some (Some j, c')" for j
    using entry_insert_attr [OF assms(1) that] assms(3,4) by simp
  with assms(1,2) show "ct_inv c'" "entry c' k = entry c k"
    by (auto simp: dir_item_def Let_def split: option.splits if_splits)
qed

lemma shorter_parent:
  "length (TruncateDirName d) < length k \<Longrightarrow> d \<noteq> [] \<Longrightarrow> length (TruncateDirName (getParentDir d)) < length k"
proof -
  assume a: "length (TruncateDirName d) < length k" "d \<noteq> []"
  have "length (TruncateDirName (getParentDir d)) \<le> length (getParentDir d)" by (rule length_TruncateDirName)
  also have "\<dots> < length d" by (rule getParentDir_shorter [OF a(2)])
  also have "length d \<le> Suc (length (TruncateDirName d))"
    by (auto simp: TruncateDirName_def trim_suffix_def suffix_def)
  finally show ?thesis using a(1) by linarith
qed

lemma length_Truncate_twice:
  "length (TruncateDirName d) < n \<Longrightarrow> length (TruncateDirName (TruncateDirName d)) < n"
  using length_TruncateDirName [of "TruncateDirName d"] by linarith

lemma entry_updateAncestors:
  "ct_inv c \<Longrightarrow> TruncateDirName d \<noteq> [slash] \<Longrightarrow> length (TruncateDirName d) < length k \<Longrightarrow>
     updateAncestorsInCloud d now c = Some c' \<Longrightarrow> ct_inv c' \<and> entry c' k = entry c k"
proof (induction d now c arbitrary: c' rule: updateAncestorsInCloud.induct)
  case (1 d now c)
  show ?case
  proof (cases "d = []")
    case True
    with 1(2,5) show ?thesis by (subst (asm) updateAncestorsInCloud.simps) simp
  next
    case False
    with 1(5) obtain i c1 where i: "dir_item d now c = Some (i, c1)"
      by (subst (asm) updateAncestorsInCloud.simps) (auto split: option.splits)
    note D = dir_item_result [OF 1(2) i 1(3) length_Truncate_twice [OF 1(4)] 1(4)]
    let ?c2 = "markInCloud i (anyChildrenInCloud c1 i) c1"
    have i2: "ct_inv ?c2" by (rule same_shape_inv [OF same_shape_markInCloud D(1)])
    show ?thesis
    proof (cases "isInCloud c1 i \<noteq> anyChildrenInCloud c1 i")
      case True
      with 1(5) i False have "updateAncestorsInCloud (getParentDir d) now ?c2 = Some c'"
        by (subst (asm) updateAncestorsInCloud.simps) simp
      from 1(1) [OF False i refl True i2 Truncate_parent_no_slash shorter_parent [OF 1(4) False] this]
      show ?thesis by (simp add: entry_markInCloud D(2))
    next
      case f: False
      with 1(5) i False D show ?thesis by (subst (asm) updateAncestorsInCloud.simps) simp
    qed
  qed
qed

lemma entry_touchParent:
  assumes "ct_inv c" "touchParentDirTimes p t c = Some c'" "length (TruncateDirName (getParentDir p)) < length k"
  shows "ct_inv c'" "entry c' k = entry c k"
proof -
  let ?pp = "getParentDir p" and ?a = "(CreateObjAttrDir t (getParentDir p))\<lparr>a_Ctime := t, a_Mtime := t\<rparr>"
  have len: "length (TruncateDirName (a_Path ?a)) < length k" using length_Truncate_twice [OF assms(3)] by simp
  have ns: "a_Path ?a \<noteq> [slash]" using Truncate_parent_no_slash by simp
  have new: "ct_inv c' \<and> entry c' k = entry c k"
    if i: "insert_attr ?a True t False t c = Some (it, c1)" and c': "c' = touchModifyAndChangeTimes it t c1" for it c1
  proof -
    note I = entry_insert_attr [OF assms(1) i ns len]
    have "j < ct_nitems c1 \<and> TruncateDirName (ct_path c1 j) \<noteq> k" if "it = Some j" for j
    proof -
      have room: "int (length (cacheMap c)) < maxFiles c" "a_Path ?a \<noteq> []"
        using i that insert_attr_full [of c ?a True t False t] by (force simp: not_less [symmetric])+
      from insert_attr_result [OF assms(1) ns room(2,1), of True t False t] i that
      have "insert_result ?a True t False c j c1" by auto
      then have "j < ct_nitems c1" "ct_attr c1 j = ?a" unfolding insert_result_def by blast+
      with len show ?thesis by auto
    qed
    with entry_touch [OF I(1)] I(2) same_shape_inv [OF same_shape_touch I(1)] show ?thesis unfolding c' by metis
  qed
  have old: "ct_inv c' \<and> entry c' k = entry c k"
    if "ct_get c ?pp = Some i" "c' = touchModifyAndChangeTimes (Some i) t c" for i
  proof -
    have "i < ct_nitems c" "TruncateDirName (ct_path c i) \<noteq> k"
      using ct_get_less [OF assms(1) that(1)] ct_get_key [OF assms(1) that(1)] assms(3) by auto
    with entry_touch [OF assms(1), of "Some i"] same_shape_inv [OF same_shape_touch assms(1)] that(2)
    show ?thesis by simp
  qed
  show "ct_inv c'" "entry c' k = entry c k"
    using assms(2) new old by (auto simp: touchParentDirTimes_def Let_def split: option.splits if_splits)
qed

lemma touchParentDirTimes_returns: "ct_inv c \<Longrightarrow> \<exists>c'. touchParentDirTimes p t c = Some c'"
  using insert_attr_inv [of c "(CreateObjAttrDir t (getParentDir p))\<lparr>a_Ctime := t, a_Mtime := t\<rparr>" True t False t]
    Truncate_parent_no_slash [of p]
  by (auto simp: touchParentDirTimes_def Let_def split: option.split)

section \<open>Deletion marks exactly the subtree\<close>

text \<open>The existing items reached from an existing item through existing children.\<close>

inductive live_below :: "cacheTreeMap \<Rightarrow> nat \<Rightarrow> nat \<Rightarrow> bool" for c where
  live_self: "it_exists c i \<Longrightarrow> live_below c i i"
| live_child: "live_below c i j \<Longrightarrow> l \<in> set (child_items c j) \<Longrightarrow> it_exists c l \<Longrightarrow> live_below c i l"

inductive_cases live_belowE: "live_below c i l"

lemma live_below_ends: "live_below c i l \<Longrightarrow> it_exists c i \<and> it_exists c l"
  by (induction rule: live_below.induct) auto

lemma live_below_trans: "live_below c j l \<Longrightarrow> live_below c i j \<Longrightarrow> live_below c i l"
  by (induction rule: live_below.induct) (blast intro: live_below.intros)+

lemma live_below_unfold:
  "live_below c i l \<longleftrightarrow> it_exists c i \<and> (l = i \<or> (\<exists>j \<in> set (child_items c i). live_below c j l))"
proof
  assume "live_below c i l"
  then show "it_exists c i \<and> (l = i \<or> (\<exists>j \<in> set (child_items c i). live_below c j l))"
  proof (induction rule: live_below.induct)
    case (live_child i j l)
    then show ?case using live_below.live_child [of c _ j l] live_below.live_self [of c l] by blast
  qed simp
next
  assume r: "it_exists c i \<and> (l = i \<or> (\<exists>j \<in> set (child_items c i). live_below c j l))"
  show "live_below c i l"
  proof (cases "l = i")
    case False
    with r obtain j where "j \<in> set (child_items c i)" "live_below c j l" by blast
    moreover have "live_below c i j"
      using r calculation live_below_ends by (blast intro: live_below.intros)
    ultimately show ?thesis using live_below_trans by blast
  qed (use r in \<open>auto intro: live_self\<close>)
qed

text \<open>Removing a set of items closed under live children cuts the live trees down by that set.\<close>

lemma live_below_without:
  assumes ex: "\<And>l. it_exists s l \<longleftrightarrow> it_exists c l \<and> \<not> D l"
    and ch: "\<And>i. child_items s i = child_items c i"
    and closed: "\<And>m l. D m \<Longrightarrow> l \<in> set (child_items c m) \<Longrightarrow> it_exists c l \<Longrightarrow> D l"
  shows "live_below s j l \<longleftrightarrow> live_below c j l \<and> \<not> D l"
proof
  show "live_below s j l \<Longrightarrow> live_below c j l \<and> \<not> D l"
  proof (induction rule: live_below.induct)
    case (live_child i j l)
    then show ?case using live_below.live_child [of c i j l] by (simp add: ex ch)
  qed (simp add: ex live_self)
next
  have "live_below c j l \<Longrightarrow> \<not> D l \<longrightarrow> live_below s j l"
  proof (induction rule: live_below.induct)
    case (live_child i j l)
    with closed [of j l] live_below.live_child [of s i j l] show ?case by (auto simp: ex ch simp del: set_map)
  qed (auto simp: ex intro: live_self)
  then show "live_below c j l \<and> \<not> D l \<Longrightarrow> live_below s j l" by blast
qed

lemma drop_parent_listing_exists [simp]:
  "it_exists (drop_parent_listing i c) l = it_exists c l"
  by (auto simp: drop_parent_listing_def it_exists_def it_valid_def split: option.split)

lemma set_deleted_exists: "it_exists (set_deleted t i c) l \<longleftrightarrow> it_exists c l \<and> l \<noteq> i"
proof -
  have "it_exists (set_deleted t i c) l \<longleftrightarrow> it_exists (drop_parent_listing i c) l \<and> l \<noteq> i"
    by (auto simp: set_deleted_def it_exists_def it_valid_def IsSet_bit bit_SetBit bit_ClearBit
        AttrFlagExists_def AttrFlagValid_def)
  then show ?thesis by simp
qed

lemma child_not_root:
  assumes "ct_inv c" "i < ct_nitems c" "j \<in> set (child_items c i)"
  shows "\<not> isRoot c j"
  using ct_invD(9) [OF assms] by (auto simp: rank_def isRoot_def)

lemma mark_deleted_exact:
  "ct_inv c \<Longrightarrow> fuelled k i c \<Longrightarrow> \<not> isRoot c i \<Longrightarrow> mark_deleted k t i c = Some c' \<Longrightarrow>
     it_exists c' l \<longleftrightarrow> it_exists c l \<and> \<not> live_below c i l"
proof (induction k arbitrary: i c c' l)
  case (Suc k)
  note inv = Suc.prems(1) and fu = Suc.prems(2)
  show ?case
  proof (cases "it_exists c i")
    case False
    with Suc.prems show ?thesis using live_below_ends by auto
  next
    case True
    with Suc.prems(3,4) obtain c1 where
      c1: "fold_opt (mark_deleted k t) (child_items c i) c = Some c1" "c' = set_deleted t i c1" by auto
    have fold: "\<forall>l. it_exists s' l \<longleftrightarrow> it_exists c l \<and> \<not> (D l \<or> (\<exists>j \<in> set js. live_below c j l))"
      if "fold_opt (mark_deleted k t) js s = Some s'" "set js \<subseteq> set (child_items c i)" "same_shape c s"
        "\<forall>l. it_exists s l \<longleftrightarrow> it_exists c l \<and> \<not> D l"
        "\<forall>m l. D m \<longrightarrow> l \<in> set (child_items c m) \<longrightarrow> it_exists c l \<longrightarrow> D l" for js s s' D
      using that
    proof (induction js arbitrary: s D)
      case (Cons x js)
      from Cons.prems(1) obtain s1 where s1: "mark_deleted k t x s = Some s1" "fold_opt (mark_deleted k t) js s1 = Some s'"
        by (auto split: option.splits)
      from Cons.prems(2) have x: "x \<in> set (child_items c i)" by simp
      have f: "fuelled k x s" using fuelled_child [OF inv fu x] fuelled_shape [OF Cons.prems(3)] by simp
      have nr: "\<not> isRoot s x"
        using child_not_root [OF inv _ x] fu same_shape_simps(2) [OF Cons.prems(3)] by (simp add: fuelled_def)
      note si = same_shape_inv [OF Cons.prems(3) inv]
      from mark_deleted_returns [OF si f, of t] s1(1) have sh: "same_shape s s1" by fastforce
      have lb: "live_below s x l \<longleftrightarrow> live_below c x l \<and> \<not> D l" for l
        by (rule live_below_without) (use Cons.prems(4,5) same_shape_simps(3) [OF Cons.prems(3)] in auto)
      let ?D = "\<lambda>l. D l \<or> live_below c x l"
      have e1: "\<forall>l. it_exists s1 l \<longleftrightarrow> it_exists c l \<and> \<not> ?D l"
        using Suc.IH [OF si f nr s1(1)] lb Cons.prems(4) by blast
      have "\<forall>l. it_exists s' l \<longleftrightarrow> it_exists c l \<and> \<not> (?D l \<or> (\<exists>j \<in> set js. live_below c j l))"
      proof (rule Cons.IH [OF s1(2) _ same_shape_trans [OF Cons.prems(3) sh] e1])
        show "set js \<subseteq> set (child_items c i)" using Cons.prems(2) by simp
        show "\<forall>m l. ?D m \<longrightarrow> l \<in> set (child_items c m) \<longrightarrow> it_exists c l \<longrightarrow> ?D l"
          using Cons.prems(5) live_below.live_child [of c x] by blast
      qed
      then show ?case by auto
    qed simp
    have "\<forall>l. it_exists c1 l \<longleftrightarrow> it_exists c l \<and> \<not> (False \<or> (\<exists>j \<in> set (child_items c i). live_below c j l))"
      by (rule fold [OF c1(1)]) simp_all
    then show ?thesis using True live_below_unfold [of c i l] by (auto simp: c1(2) set_deleted_exists)
  qed
qed simp

lemma markDeleted_entry:
  assumes "ct_inv c" "map_of (cacheMap c) k = Some i" "k \<noteq> []" "it_exists c i" "markDeleted i t c = Some c'"
  shows "ct_inv c'" "\<exists>sz p. entry c' k = Some (i, True, False, t, sz, p)"
proof -
  note i = ct_invD(4,5) [OF assms(1,2)]
  have nr: "\<not> isRoot c i" using i(2) assms(3) by (auto simp: isRoot_def)
  from assms(5) markDeleted_returns [OF assms(1) i(1), of t] have sh: "same_shape c c'" by fastforce
  then show "ct_inv c'" using same_shape_inv assms(1) by blast
  from assms(4,5) nr obtain c1 where c': "c' = set_deleted t i c1"
    by (auto simp: markDeleted_def tree_fuel_def)
  have m: "map_of (cacheMap c') k = Some i" using same_shape_simps(8) [OF sh] assms(2) by simp
  have "it_valid c' i" "ci_cachedAt (ct_items c' i) = t"
    by (auto simp: c' set_deleted_def it_valid_def IsSet_bit bit_SetBit AttrFlagValid_def)
  moreover have "\<not> it_exists c' i" by (simp add: c' set_deleted_exists)
  ultimately show "\<exists>sz p. entry c' k = Some (i, True, False, t, sz, p)" using m by (simp add: entry_def)
qed

section \<open>Lookups\<close>

lemma GetAttr_served:
  assumes "entry (ac_cache ac) (TruncateDirName (ga_Name options)) = Some (i, True, True, t, sz, p)"
    and "\<not> expired ac now t"
  shows "ac_GetAttr nc now options (ac, n) = Some ((Some (ct_attr (ac_cache ac) i), None), (ac, n))"
  using assms by (auto simp: entry_def ac_GetAttr_def cached_answer_def ct_get_def simp del: map_of_eq_Some_iff)

lemma GetAttr_gone:
  assumes "entry (ac_cache ac) (TruncateDirName (ga_Name options)) = Some (i, True, False, t, sz, p)"
    and "\<not> expired ac now t"
  shows "ac_GetAttr nc now options (ac, n) = Some ((None, Some (Errno ENOENT)), (ac, n))"
  using assms by (auto simp: entry_def ac_GetAttr_def cached_answer_def ct_get_def simp del: map_of_eq_Some_iff)

lemma expired_update [simp]: "expired (ac\<lparr>ac_cache := c\<rparr>) now t = expired ac now t"
  by (simp add: expired_def)

lemma entry_setMode:
  assumes "entry c k = Some (i, True, True, t, sz, p)"
  shows "entry (setMode i m now c) k = Some (i, True, True, now, sz, p)"
  using assms by (auto simp: entry_def setMode_def Let_def it_valid_def it_exists_def ct_attr_def
      simp del: map_of_eq_Some_iff)

lemma no_slash_key:
  assumes "TruncateDirName name = name" "name \<noteq> []"
  shows "name \<noteq> [slash]" "length (TruncateDirName (getParentDir name)) < length name"
  using assms TruncateDirName_eq_Nil [of name] parent_key_shorter(2) [OF assms(2)] by auto

section \<open>Properties\<close>

text \<open>
  C22. A created file is served from the cache: after a successful \<open>CreateFile\<close> under a directory known
  to exist, with room in the cache, \<open>GetAttr\<close> answers with an attribute of that path and size 0 until the
  timeout, whatever the storage is, which it does not ask.
\<close>

theorem created_file_is_served:
  assumes inv: "ct_inv (ac_cache ac)" and nm: "TruncateDirName (cf_Name options) = cf_Name options" "cf_Name options \<noteq> []"
    and room: "int (length (cacheMap (ac_cache ac))) < maxFiles (ac_cache ac)"
    and par: "getParentDir (cf_Name options) = [] \<or> known_in_cloud (getParentDir (cf_Name options)) (ac_cache ac)"
    and ok: "CreateFile nc now options n = Some ((h, None), n1)"
  shows "\<exists>ac' a. ac_CreateFile nc now options (ac, n) = Some ((h, None), (ac', n1)) \<and>
    a_Path a = cf_Name options \<and> a_Size a = 0 \<and>
    (\<forall>nc' later m. later - now < ac_cacheTimeout ac * 1000000000 \<longrightarrow>
      ac_GetAttr nc' later \<lparr>ga_Name = cf_Name options, ga_RetrieveMetadata = b\<rparr> (ac', m) =
        Some ((Some a, None), (ac', m)))"
proof -
  let ?nm = "cf_Name options" and ?c = "ac_cache ac"
  note k = no_slash_key [OF nm]
  have m: "markAncestorsInCloud (getParentDir ?nm) now ?c = Some ?c"
    using par by (subst markAncestorsInCloud.simps) auto
  from insert_attr_result [OF inv, of "CreateObjAttr ?nm 0 now" True now False now] k(1) nm(2) room obtain i c2 where
    i: "insert_attr (CreateObjAttr ?nm 0 now) True now False now ?c = Some (Some i, c2)"
    and r: "insert_result (CreateObjAttr ?nm 0 now) True now False ?c i c2" by auto
  from r have inv2: "ct_inv c2" and "ct_attr c2 i = CreateObjAttr ?nm 0 now" "it_valid c2 i" "it_exists c2 i"
    "ci_cachedAt (ct_items c2 i) = now" "ct_get c2 ?nm = Some i" by (auto simp: insert_result_def)
  then have "entry c2 ?nm = Some (i, True, True, now, 0, ?nm)" by (simp add: entry_def ct_get_def nm(1))
  from entry_setMode [OF this] have e3: "entry (setMode i (cf_Mode options) now c2) ?nm = Some (i, True, True, now, 0, ?nm)" .
  have inv3: "ct_inv (setMode i (cf_Mode options) now c2)" using inv2 by blast
  from touchParentDirTimes_returns [OF inv3] obtain c4 where
    c4: "touchParentDirTimes ?nm now (setMode i (cf_Mode options) now c2) = Some c4" by blast
  with entry_touchParent [OF inv3 c4 k(2)] e3 have e4: "entry c4 ?nm = Some (i, True, True, now, 0, ?nm)" by simp
  then have a: "a_Path (ct_attr c4 i) = ?nm" "a_Size (ct_attr c4 i) = 0" by (auto simp: entry_def)
  have made: "ac_CreateFile nc now options (ac, n) = Some ((h, None), (ac\<lparr>ac_cache := c4\<rparr>, n1))"
    using ok m i c4 by (simp add: ac_CreateFile_def Let_def)
  have served: "ac_GetAttr nc' later \<lparr>ga_Name = ?nm, ga_RetrieveMetadata = b\<rparr> (ac\<lparr>ac_cache := c4\<rparr>, m) =
      Some ((Some (ct_attr c4 i), None), (ac\<lparr>ac_cache := c4\<rparr>, m))"
    if "later - now < ac_cacheTimeout ac * 1000000000" for nc' later m
    using GetAttr_served [of "ac\<lparr>ac_cache := c4\<rparr>" "\<lparr>ga_Name = ?nm, ga_RetrieveMetadata = b\<rparr>" i now 0 ?nm later nc' m]
      e4 nm(1) that by (simp add: expired_def)
  from a made show ?thesis
    by (intro exI [of _ "ac\<lparr>ac_cache := c4\<rparr>"] exI [of _ "ct_attr c4 i"]) (simp add: served)
qed

definition new_file :: CreateFileOptions where
  "new_file = \<lparr>cf_Name = ''g'', cf_Mode = 0\<rparr>"

theorem created_file_is_served_witness:
  "\<exists>h n1 ac' a. ac_CreateFile (loopback_component id) 7 new_file (ac_fresh, ac_disk) = Some ((h, None), (ac', n1)) \<and>
    a_Path a = ''g'' \<and>
    ac_GetAttr (loopback_component id) 9 \<lparr>ga_Name = ''g'', ga_RetrieveMetadata = False\<rparr> (ac', n1) =
      Some ((Some a, None), (ac', n1))"
proof -
  have "case CreateFile (loopback_component id) 7 new_file ac_disk of Some ((h, None), n1) \<Rightarrow> True | _ \<Rightarrow> False"
    by code_simp
  then obtain h n1 where ok: "CreateFile (loopback_component id) 7 new_file ac_disk = Some ((h, None), n1)"
    by (auto split: option.splits prod.splits)
  have "TruncateDirName (cf_Name new_file) = cf_Name new_file" "cf_Name new_file \<noteq> []"
    "int (length (cacheMap (ac_cache ac_fresh))) < maxFiles (ac_cache ac_fresh)"
    "getParentDir (cf_Name new_file) = []" "(9::int) - 7 < ac_cacheTimeout ac_fresh * 1000000000" by code_simp+
  note facts = this
  have "ct_inv (ac_cache ac_fresh)" by (simp add: ac_fresh_def newCacheTreeMap_inv)
  from created_file_is_served [OF this facts(1-3) disjI1 [OF facts(4)] ok] facts(5) show ?thesis
    by (fastforce simp: new_file_def)
qed

text \<open>
  C23. A deleted file is known to be gone: after a successful \<open>DeleteFile\<close> of a file that the cache did
  not already hold as deleted, \<open>GetAttr\<close> answers \<open>ENOENT\<close> until the timeout without asking the storage.
\<close>

theorem deleted_file_is_gone:
  assumes inv: "ct_inv (ac_cache ac)" and nm: "TruncateDirName (opt_Name options) = opt_Name options" "opt_Name options \<noteq> []"
    and known: "\<forall>j. ct_get (ac_cache ac) (opt_Name options) = Some j \<longrightarrow>
      it_valid (ac_cache ac) j \<longrightarrow> it_exists (ac_cache ac) j"
    and r: "ac_DeleteFile nc now options (ac, n) = Some (None, (ac', n1))"
    and fresh: "later - now < ac_cacheTimeout ac * 1000000000"
  shows "ac_GetAttr nc' later \<lparr>ga_Name = opt_Name options, ga_RetrieveMetadata = b\<rparr> (ac', m) =
    Some ((None, Some (Errno ENOENT)), (ac', m))"
proof -
  let ?nm = "opt_Name options" and ?c = "ac_cache ac"
  note k = no_slash_key [OF nm]
  from r obtain err n2 where e: "DeleteFile nc now options n = Some (err, n2)"
    by (auto simp: ac_DeleteFile_def split: bind_split_asm)
  with r have "err = None" by (cases err) (auto simp: ac_DeleteFile_def)
  with r e obtain i c1 c2 c3 c4 where
    i: "(case ct_get ?c ?nm of
          Some i \<Rightarrow> if it_valid ?c i then Some (Some i, ?c)
                    else insert_attr (CreateObjAttr ?nm 0 now) True now False now ?c
        | None \<Rightarrow> insert_attr (CreateObjAttr ?nm 0 now) True now False now ?c) = Some (Some i, c1)"
    and c2: "markDeleted i now c1 = Some c2"
    and c3: "updateAncestorsInCloud (getParentDir ?nm) now c2 = Some c3"
    and c4: "touchParentDirTimes ?nm now c3 = Some c4" and ac': "ac' = ac\<lparr>ac_cache := c4\<rparr>"
    by (auto simp: ac_DeleteFile_def Let_def split: bind_split_asm)
  have new: "ct_inv c1 \<and> map_of (cacheMap c1) ?nm = Some i \<and> it_exists c1 i"
    if "insert_attr (CreateObjAttr ?nm 0 now) True now False now ?c = Some (Some i, c1)"
  proof -
    have "int (length (cacheMap ?c)) < maxFiles ?c"
      using that insert_attr_full [of ?c "CreateObjAttr ?nm 0 now" True now False now] by (force simp: not_less [symmetric])
    from insert_attr_result [OF inv _ _ this, of "CreateObjAttr ?nm 0 now" True now False now] that k(1) nm
    show ?thesis by (auto simp: insert_result_def ct_get_def)
  qed
  have "ct_inv c1 \<and> map_of (cacheMap c1) ?nm = Some i \<and> it_exists c1 i"
  proof (cases "\<exists>j. ct_get ?c ?nm = Some j \<and> it_valid ?c j")
    case True
    with i known inv nm(1) show ?thesis by (auto simp: ct_get_def)
  next
    case False
    with i new show ?thesis by (auto split: option.splits)
  qed
  then have c1: "ct_inv c1" "map_of (cacheMap c1) ?nm = Some i" "it_exists c1 i" by auto
  note D = markDeleted_entry [OF c1(1,2) nm(2) c1(3) c2]
  then obtain sz p where e2: "entry c2 ?nm = Some (i, True, False, now, sz, p)" by blast
  note U = entry_updateAncestors [OF D(1) Truncate_parent_no_slash k(2) c3]
  with entry_touchParent [OF _ c4 k(2)] e2 have "entry c4 ?nm = Some (i, True, False, now, sz, p)" by simp
  then show ?thesis
    unfolding ac' by (intro GetAttr_gone [of _ _ i now sz p]) (use fresh nm(1) in \<open>simp_all add: expired_def\<close>)
qed

definition one_file_disk :: loopback where
  "one_file_disk = ac_disk\<lparr>lb_fs := \<lparr>dents = [(''/d'', 0), (''/d/g'', 1)],
     inodes = (\<lambda>i. if i = 0 then DirNode 0 0 else FileNode ''abc'' 0 0), next_ino = 2, open_fds = [], next_fd = 0\<rparr>\<rparr>"

theorem deleted_file_is_gone_witness:
  "\<exists>ac' n1. ac_DeleteFile (loopback_component id) 7 \<lparr>opt_Name = ''g''\<rparr> (ac_fresh, one_file_disk) = Some (None, (ac', n1)) \<and>
    ac_GetAttr (loopback_component id) 9 \<lparr>ga_Name = ''g'', ga_RetrieveMetadata = False\<rparr> (ac', n1) =
      Some ((None, Some (Errno ENOENT)), (ac', n1))"
proof -
  let ?o = "\<lparr>opt_Name = ''g''\<rparr>"
  have "case ac_DeleteFile (loopback_component id) 7 ?o (ac_fresh, one_file_disk) of
      Some (None, s) \<Rightarrow> True | _ \<Rightarrow> False" by code_simp
  then obtain ac' n1 where
    ok: "ac_DeleteFile (loopback_component id) 7 ?o (ac_fresh, one_file_disk) = Some (None, (ac', n1))"
    by (auto split: option.splits prod.splits)
  have "TruncateDirName (opt_Name ?o) = opt_Name ?o" "opt_Name ?o \<noteq> []" "ct_get (ac_cache ac_fresh) (opt_Name ?o) = None"
    "(9::int) - 7 < ac_cacheTimeout ac_fresh * 1000000000" by code_simp+
  note facts = this
  have "ct_inv (ac_cache ac_fresh)" by (simp add: ac_fresh_def newCacheTreeMap_inv)
  from deleted_file_is_gone [OF this facts(1,2) _ ok facts(4)] facts(3) ok show ?thesis by force
qed

text \<open>
  C24. Deletion takes exactly the subtree: marking an entry as deleted returns, and afterwards exactly
  those entries exist that did before and are not reached from it through existing children.
\<close>

theorem deletion_takes_the_subtree:
  assumes "ct_inv c" and "i < ct_nitems c" and "\<not> isRoot c i"
  shows "\<exists>c'. markDeleted i t c = Some c' \<and> (\<forall>j. it_exists c' j \<longleftrightarrow> it_exists c j \<and> \<not> live_below c i j)"
  using mark_deleted_exact [OF assms(1) fuelled_start [OF assms(2)] assms(3)] markDeleted_returns [OF assms(1,2), of t]
  unfolding markDeleted_def by blast

theorem deletion_takes_the_subtree_witness:
  "\<exists>c i c'. insert_attr (CreateObjAttr ''x'' 3 0) True 0 False 0 (newCacheTreeMap 10 0) = Some (Some i, c) \<and>
     markDeleted i 5 c = Some c' \<and> it_exists c i \<and> \<not> it_exists c' i"
proof -
  have "a_Path (CreateObjAttr ''x'' 3 0) \<noteq> [slash]" by code_simp
  from insert_attr_result [OF newCacheTreeMap_inv this, of 10 0 True 0 False 0] obtain i c where
    i: "insert_attr (CreateObjAttr ''x'' 3 0) True 0 False 0 (newCacheTreeMap 10 0) = Some (Some i, c)"
      "insert_result (CreateObjAttr ''x'' 3 0) True 0 False (newCacheTreeMap 10 0) i c"
    by (auto simp: newCacheTreeMap_def)
  then have c: "ct_inv c" "i < ct_nitems c" "\<not> isRoot c i" "it_exists c i"
    by (auto simp: insert_result_def isRoot_def)
  from deletion_takes_the_subtree [OF c(1-3), of 5] i(1) c(4) live_self [OF c(4)] show ?thesis by blast
qed

text \<open>
  C37. An expired entry can be hidden by its directory: when the entry of a path exists but has expired
  while the nearest cached directory is fresh and its listing complete, \<open>GetAttr\<close> answers the cached
  attribute together with \<open>ENOENT\<close>, without asking the storage whether the file exists.
\<close>

theorem expired_entry_hidden:
  assumes "ct_get (ac_cache ac) (ga_Name options) = Some i" and "it_exists (ac_cache ac) i"
    and "expired ac now (ci_cachedAt (ct_items (ac_cache ac) i))"
    and "getCachedParent (ac_cache ac) (ga_Name options) = Some par"
    and "ci_listingComplete (ct_items (ac_cache ac) par)"
    and "\<not> expired ac now (ci_cachedAt (ct_items (ac_cache ac) par))"
  shows "ac_GetAttr nc now options (ac, n) = Some ((Some (ct_attr (ac_cache ac) i), Some (Errno ENOENT)), (ac, n))"
  using assms by (simp add: ac_GetAttr_def cached_answer_def Let_def it_exists_def)

text \<open>
  A directory \<open>x\<close>, completely listed and touched at 100 s, with the file \<open>x/f\<close> cached at 1 s: what creating
  the directory, the file, and a second file at 100 s leaves of it. The lookup is at 130 s.
\<close>

definition stale_cache :: AttrCache where
  "stale_cache = ac_fresh\<lparr>ac_cache :=
     \<lparr>cacheMap = [([], 0), (''x'', 1), (''x/f'', 2)], cacheTree = 0, maxFiles = 10,
      ct_items = (\<lambda>i. if i = 0 then (newAttrCacheItem 0 True 0)\<lparr>ci_children := [(''x'', 1)]\<rparr>
                   else if i = 1 then (newAttrCacheItem 1 True 100000000000)
                     \<lparr>ci_children := [(''f'', 2)], ci_parent := Some 0, ci_listingComplete := True\<rparr>
                   else (newAttrCacheItem 2 True 1000000000)\<lparr>ci_parent := Some 1\<rparr>),
      ct_nitems = 3,
      ct_attrs = (\<lambda>i. if i = 0 then CreateObjAttrDir 0 [] else if i = 1 then CreateObjAttrDir 0 ''x''
                   else CreateObjAttr ''x/f'' 0 1000000000), ct_nattrs = 3\<rparr>\<rparr>"

theorem expired_entry_hidden_witness:
  "ac_GetAttr (loopback_component id) 130000000000 \<lparr>ga_Name = ''x/f'', ga_RetrieveMetadata = False\<rparr> (stale_cache, ac_disk) =
     Some ((Some (ct_attr (ac_cache stale_cache) 2), Some (Errno ENOENT)), (stale_cache, ac_disk))"
  by (rule expired_entry_hidden [where par = 1]) code_simp+

text \<open>
  C38. A full cache can crash the process: when there is no room for another entry, the parent directory
  of the path is not cached, and the storage finds the path, \<open>GetAttr\<close> dereferences the nil item of the
  parent that could not be inserted.
\<close>

theorem full_cache_crashes:
  assumes "int (length (cacheMap (ac_cache ac))) \<ge> maxFiles (ac_cache ac)"
    and "getParentDir (ga_Name options) \<noteq> []" and "ct_get (ac_cache ac) (getParentDir (ga_Name options)) = None"
    and "\<not> snd (cached_answer ac now (ga_Name options))"
    and "GetAttr nc now options n = Some ((Some a, None), n1)"
  shows "ac_GetAttr nc now options (ac, n) = None"
proof -
  let ?c = "ac_cache ac" and ?p = "getParentDir (ga_Name options)"
  let ?c1 = "snd (new_attr a ?c)"
  have ins: "insert_attr a True now False now ?c = Some (None, ?c1)" using assms(1) by (intro insert_attr_full) simp
  have "int (length (cacheMap ?c1)) \<ge> maxFiles ?c1" "ct_get ?c1 ?p = None"
    using assms(1,3) by (simp_all add: new_attr_def ct_get_def)
  then have "markAncestorsInCloud ?p now ?c1 = None"
    using insert_attr_full [of ?c1 "CreateObjAttrDir now ?p" True now False now] assms(2)
    by (subst markAncestorsInCloud.simps) (simp add: known_in_cloud_def dir_item_def)
  moreover obtain x where "cached_answer ac now (ga_Name options) = (x, False)"
    using assms(4) by (cases "cached_answer ac now (ga_Name options)") auto
  ultimately show ?thesis using ins assms(5) by (cases x) (simp add: ac_GetAttr_def)
qed

definition deep_disk :: loopback where
  "deep_disk = ac_disk\<lparr>lb_fs := \<lparr>dents = [(''/d'', 0), (''/d/x'', 1), (''/d/x/f'', 2)],
     inodes = (\<lambda>i. if i < 2 then DirNode 0 0 else FileNode ''abc'' 0 0), next_ino = 3, open_fds = [], next_fd = 0\<rparr>\<rparr>"

theorem full_cache_crashes_witness:
  "ac_GetAttr (loopback_component id) 7 \<lparr>ga_Name = ''x/f'', ga_RetrieveMetadata = False\<rparr>
     (ac_Start 0 (ac_fresh\<lparr>ac_maxFiles := 1\<rparr>), deep_disk) = None"
proof -
  have "case GetAttr (loopback_component id) 7 \<lparr>ga_Name = ''x/f'', ga_RetrieveMetadata = False\<rparr> deep_disk of
      Some ((Some a, None), n1) \<Rightarrow> True | _ \<Rightarrow> False" by code_simp
  then obtain a n1 where
    "GetAttr (loopback_component id) 7 \<lparr>ga_Name = ''x/f'', ga_RetrieveMetadata = False\<rparr> deep_disk = Some ((Some a, None), n1)"
    by (auto split: option.splits prod.splits)
  then show ?thesis by (rule full_cache_crashes [rotated 4]) code_simp+
qed

end
