(* ===== verification/Os_More.thy ===== *)
theory Os_More
  imports Os_Files Component
begin

text \<open>
  More of package \<open>os\<close>, for the components that keep files of their own next to the storage: following
  \<open>Stat\<close>, directories made with their ancestors, and operations on open files.
\<close>

section \<open>Open flags\<close>

text \<open>The flags of \<open>open(2)\<close> that the components look at.\<close>

definition has_O_TRUNC :: "int \<Rightarrow> bool" where "has_O_TRUNC f = odd (f div 512)"
definition has_O_CREATE :: "int \<Rightarrow> bool" where "has_O_CREATE f = odd (f div 64)"
definition has_O_APPEND :: "int \<Rightarrow> bool" where "has_O_APPEND f = odd (f div 1024)"
definition has_O_WRONLY :: "int \<Rightarrow> bool" where "has_O_WRONLY f = odd f"
definition has_O_RDWR :: "int \<Rightarrow> bool" where "has_O_RDWR f = odd (f div 2)"

section \<open>Stat and MkdirAll\<close>

definition os_Stat :: "os_fs \<Rightarrow> string \<Rightarrow> error + node" where
  "os_Stat fs p =
     (case resolve 40 fs p of
        None \<Rightarrow> Inl (path_err EIO)
      | Some q \<Rightarrow> (case node_at fs q of Some nd \<Rightarrow> Inr nd | None \<Rightarrow> Inl (path_err ENOENT)))"

text \<open>\<open>os.MkdirAll\<close>, with fuel for the ancestors: a path has fewer of them than characters.\<close>

fun mkdir_all :: "nat \<Rightarrow> int \<Rightarrow> string \<Rightarrow> file_mode \<Rightarrow> os_fs \<Rightarrow> err \<times> os_fs" where
  "mkdir_all 0 now p mode fs = (Some (path_err ENOENT), fs)"
| "mkdir_all (Suc k) now p mode fs =
     (case os_Stat fs p of
        Inr nd \<Rightarrow> (if is_dir_node nd then None else Some (path_err ENOTDIR), fs)
      | Inl _ \<Rightarrow>
          (case (if path_dir p = p then (None, fs) else mkdir_all k now (path_dir p) mode fs) of
             (Some e, fs1) \<Rightarrow> (Some e, fs1)
           | (None, fs1) \<Rightarrow>
               (case os_Mkdir now p mode fs1 of
                  (None, fs2) \<Rightarrow> (None, fs2)
                | (Some e, fs2) \<Rightarrow>
                    (case os_Lstat fs2 p of
                       Inr nd \<Rightarrow> (if is_dir_node nd then None else Some e, fs2)
                     | Inl _ \<Rightarrow> (Some e, fs2)))))"

definition os_MkdirAll :: "int \<Rightarrow> string \<Rightarrow> file_mode \<Rightarrow> os_fs \<Rightarrow> err \<times> os_fs" where
  "os_MkdirAll now p = mkdir_all (Suc (length p)) now p"

text \<open>\<open>f.Stat\<close>, \<open>f.Truncate\<close> and an appending \<open>f.Write\<close>; a file's access time is not modelled.\<close>

definition fd_node :: "os_fs \<Rightarrow> nat \<Rightarrow> node option" where
  "fd_node fs fd = map_option (inodes fs) (map_of (open_fds fs) fd)"

definition os_Ftruncate :: "int \<Rightarrow> nat \<Rightarrow> int \<Rightarrow> os_fs \<Rightarrow> err \<times> os_fs" where
  "os_Ftruncate now fd n fs =
     (case map_of (open_fds fs) fd of
        None \<Rightarrow> (Some (PathError ErrClosed), fs)
      | Some i \<Rightarrow>
          (case inodes fs i of
             FileNode c m t \<Rightarrow>
               if n < 0 then (Some (path_err EINVAL), fs)
               else (None, set_inode i (FileNode (take (nat n) (c @ replicate (nat n - length c) (CHR 0x00))) m now) fs)
           | _ \<Rightarrow> (Some (path_err EINVAL), fs)))"

definition os_Append :: "int \<Rightarrow> nat \<Rightarrow> string \<Rightarrow> os_fs \<Rightarrow> (int \<times> err) \<times> os_fs" where
  "os_Append now fd data fs =
     os_WriteAt now fd data (case fd_node fs fd of Some (FileNode c m t) \<Rightarrow> int (length c) | _ \<Rightarrow> 0) fs"

definition os_Chtimes :: "string \<Rightarrow> int \<Rightarrow> os_fs \<Rightarrow> err \<times> os_fs" where
  "os_Chtimes p0 mtime fs =
     (case resolve 40 fs p0 of
        None \<Rightarrow> (Some (path_err EIO), fs)
      | Some p \<Rightarrow>
          (case map_of (dents fs) p of
             None \<Rightarrow> (Some (path_err ENOENT), fs)
           | Some i \<Rightarrow>
               (None, set_inode i (case inodes fs i of
                  FileNode c m t \<Rightarrow> FileNode c m mtime
                | DirNode m t \<Rightarrow> DirNode m mtime
                | LinkNode l t \<Rightarrow> LinkNode l mtime) fs)))"

text \<open>What the SDK is given of an open file.\<close>

definition local_file :: "os_fs \<Rightarrow> nat \<Rightarrow> LocalFile" where
  "local_file fs fd =
     (case fd_node fs fd of
        None \<Rightarrow> \<lparr>lf_Stat = Inl ErrClosed, lf_Content = []\<rparr>
      | Some nd \<Rightarrow> \<lparr>lf_Stat = Inr (node_stat_size nd, node_mtime nd, node_stat_mode nd),
                   lf_Content = (case nd of FileNode c m t \<Rightarrow> c | _ \<Rightarrow> [])\<rparr>)"

section \<open>Directories\<close>

text \<open>\<open>os.RemoveAll\<close>, and what \<open>common/util.go\<close> has on directories.\<close>

definition os_RemoveAll :: "string \<Rightarrow> os_fs \<Rightarrow> err \<times> os_fs" where
  "os_RemoveAll p fs = (None, fs\<lparr>dents := [(q, i) \<leftarrow> dents fs. q \<noteq> p \<and> \<not> prefix (p @ [slash]) q]\<rparr>)"

text \<open>An opened directory whose \<open>Readdirnames(1)\<close> is at the end.\<close>

definition nothing_in_dir :: "os_fs \<Rightarrow> string \<Rightarrow> bool" where
  "nothing_in_dir fs p =
     (case os_ReadDir fs p of Inl e \<Rightarrow> False | Inr es \<Rightarrow> es = [])"

definition DirectoryExists :: "os_fs \<Rightarrow> string \<Rightarrow> bool" where
  "DirectoryExists fs p = (case os_Stat fs p of Inl e \<Rightarrow> False | Inr nd \<Rightarrow> True)"

definition IsDirectoryEmpty :: "os_fs \<Rightarrow> string \<Rightarrow> bool" where
  "IsDirectoryEmpty fs p = (if \<not> DirectoryExists fs p then True else nothing_in_dir fs p)"

fun remove_all :: "string list \<Rightarrow> os_fs \<Rightarrow> os_fs" where
  "remove_all [] fs = fs"
| "remove_all (p # ps) fs = remove_all ps (snd (os_RemoveAll p fs))"

definition TempCacheCleanup :: "string \<Rightarrow> os_fs \<Rightarrow> err \<times> os_fs" where
  "TempCacheCleanup p fs =
     (if IsDirectoryEmpty fs p then (None, fs)
      else case os_ReadDir fs p of
        Inl e \<Rightarrow> (Some (Errorf ''failed to list directory contents''), fs)
      | Inr es \<Rightarrow> (None, remove_all (map (\<lambda>e. path_join [p, fst e]) es) fs))"

section \<open>Strings\<close>

text \<open>\<open>strings.EqualFold\<close> of ASCII strings.\<close>

definition ascii_lower :: "char \<Rightarrow> char" where
  "ascii_lower c = (if 65 \<le> (of_char c :: nat) \<and> (of_char c :: nat) \<le> 90 then char_of ((of_char c :: nat) + 32) else c)"

definition equal_fold :: "string \<Rightarrow> string \<Rightarrow> bool" where
  "equal_fold a b \<longleftrightarrow> map ascii_lower a = map ascii_lower b"

end
