(* ===== verification/File_Lru.thy ===== *)
theory File_Lru
  imports Size_Tracker Os_More
begin

text \<open>
  The eviction policy of the file cache (\<open>component/file_cache/lru_policy.go\<close>, \<open>cache_policy.go\<close>): the
  cached files in a doubly linked list, most recently used first, with two marker nodes in it. Every
  timeout the marker behind moves to the front, and what then lies behind the other one has not been
  used for a whole period and may be evicted.

  Nodes are cells of a store, linked by references. \<open>None\<close> is a crash (a nil pointer or a slice out of
  range) or, from the walks along the list, a walk that does not end. The channel of names to validate
  is a queue; taking the next name from it is a step of its own. The usage that \<open>du\<close> reports and the
  snapshot read back from its file are arguments.
\<close>

section \<open>State\<close>

record lruNode =
  ln_next :: "nat option"
  ln_prev :: "nat option"
  ln_usage :: int
  ln_deleted :: bool
  ln_name :: string

record pendingFlags =
  pf_isDir :: bool
  pf_isDeletion :: bool

record cachePolicyConfig =
  pc_tmpPath :: string
  pc_cacheTimeout :: int
  pc_maxEviction :: int
  pc_maxSizeMB :: rat
  pc_highThreshold :: rat
  pc_lowThreshold :: rat
  pc_fileLocks :: LockMap
  pc_pendingOps :: "(string \<times> pendingFlags) list"
  pc_policyTrace :: bool

record lruPolicy =
  lp_cfg :: cachePolicyConfig
  lp_nodeMap :: "(string \<times> nat) list"
  lp_nodes :: "nat \<Rightarrow> lruNode"
  lp_fresh :: nat
  lp_head :: "nat option"
  lp_currMarker :: nat
  lp_lastMarker :: nat
  lp_validateChan :: "string list"

definition new_node :: "int \<Rightarrow> string \<Rightarrow> lruNode" where
  "new_node usage name = \<lparr>ln_next = None, ln_prev = None, ln_usage = usage, ln_deleted = False, ln_name = name\<rparr>"

definition upd_node :: "nat \<Rightarrow> (lruNode \<Rightarrow> lruNode) \<Rightarrow> lruPolicy \<Rightarrow> lruPolicy" where
  "upd_node i f p = p\<lparr>lp_nodes := (lp_nodes p)(i := f (lp_nodes p i))\<rparr>"

abbreviation node_next :: "lruPolicy \<Rightarrow> nat \<Rightarrow> nat option" where
  "node_next p i \<equiv> ln_next (lp_nodes p i)"

abbreviation node_prev :: "lruPolicy \<Rightarrow> nat \<Rightarrow> nat option" where
  "node_prev p i \<equiv> ln_prev (lp_nodes p i)"

abbreviation node_name :: "lruPolicy \<Rightarrow> nat \<Rightarrow> string" where
  "node_name p i \<equiv> ln_name (lp_nodes p i)"

text \<open>The markers are the first two cells.\<close>

definition NewLRUPolicy :: "cachePolicyConfig \<Rightarrow> lruPolicy" where
  "NewLRUPolicy cfg =
     \<lparr>lp_cfg = cfg, lp_nodeMap = [],
      lp_nodes = (\<lambda>i. if i = 0 then new_node (- 1) ''__'' else new_node (- 1) ''##''),
      lp_fresh = 2, lp_head = None, lp_currMarker = 0, lp_lastMarker = 1, lp_validateChan = []\<rparr>"

definition UpdateConfig :: "cachePolicyConfig \<Rightarrow> lruPolicy \<Rightarrow> lruPolicy" where
  "UpdateConfig c p = p\<lparr>lp_cfg := (lp_cfg p)\<lparr>pc_maxSizeMB := pc_maxSizeMB c, pc_highThreshold := pc_highThreshold c,
     pc_lowThreshold := pc_lowThreshold c, pc_maxEviction := pc_maxEviction c, pc_policyTrace := pc_policyTrace c\<rparr>\<rparr>"

section \<open>The linked list\<close>

definition extractNode :: "nat \<Rightarrow> lruPolicy \<Rightarrow> lruPolicy" where
  "extractNode i p =
     (let p1 = (if lp_head p = Some i then p\<lparr>lp_head := node_next p i\<rparr> else p);
          p2 = (case node_next p1 i of
                  Some x \<Rightarrow> upd_node x (\<lambda>n. n\<lparr>ln_prev := node_prev p1 i\<rparr>) p1 | None \<Rightarrow> p1);
          p3 = (case node_prev p2 i of
                  Some y \<Rightarrow> upd_node y (\<lambda>n. n\<lparr>ln_next := node_next p2 i\<rparr>) p2 | None \<Rightarrow> p2)
      in upd_node i (\<lambda>n. n\<lparr>ln_prev := None, ln_next := None\<rparr>) p3)"

definition setHead :: "nat \<Rightarrow> lruPolicy \<Rightarrow> lruPolicy option" where
  "setHead i p =
     (case lp_head p of
        None \<Rightarrow> None
      | Some h \<Rightarrow>
          Some ((upd_node h (\<lambda>n. n\<lparr>ln_prev := Some i\<rparr>)
                   (upd_node i (\<lambda>n. n\<lparr>ln_prev := None, ln_next := Some h\<rparr>) p))\<lparr>lp_head := Some i\<rparr>))"

definition updateMarker :: "lruPolicy \<Rightarrow> lruPolicy option" where
  "updateMarker p =
     map_option (\<lambda>p1. p1\<lparr>lp_lastMarker := lp_currMarker p1, lp_currMarker := lp_lastMarker p1\<rparr>)
       (setHead (lp_lastMarker p) (extractNode (lp_lastMarker p) p))"

text \<open>The nodes from a reference on.\<close>

partial_function (option) node_chain :: "lruPolicy \<Rightarrow> nat option \<Rightarrow> nat list option" where
  "node_chain p r =
     (case r of
        None \<Rightarrow> Some []
      | Some i \<Rightarrow> do { ns \<leftarrow> node_chain p (node_next p i); Some (i # ns) })"

declare node_chain.simps [code]

section \<open>Hits, removals, lookups\<close>

definition cacheValidate :: "string \<Rightarrow> bool \<Rightarrow> lruPolicy \<Rightarrow> lruPolicy option" where
  "cacheValidate name create p =
     (let found = map_of (lp_nodeMap p) name;
          use = (\<lambda>i p. let p1 = upd_node i (\<lambda>n. n\<lparr>ln_deleted := False, ln_usage := wrap64 (ln_usage n + 1)\<rparr>) p
                       in if lp_head p1 = Some i then Some p1 else setHead i (extractNode i p1))
      in case found of
           Some i \<Rightarrow> use i p
         | None \<Rightarrow>
             if create
             then use (lp_fresh p)
               (p\<lparr>lp_nodes := (lp_nodes p)(lp_fresh p := new_node 0 name), lp_fresh := Suc (lp_fresh p),
                  lp_nodeMap := map_store name (lp_fresh p) (lp_nodeMap p)\<rparr>)
             else Some p)"

definition CacheValid :: "string \<Rightarrow> lruPolicy \<Rightarrow> lruPolicy option" where
  "CacheValid name p =
     (if map_of (lp_nodeMap p) name = None then cacheValidate name True p
      else Some (p\<lparr>lp_validateChan := lp_validateChan p @ [name]\<rparr>))"

text \<open>One turn of the loop that validates the queued names.\<close>

definition asyncCacheValid :: "lruPolicy \<Rightarrow> lruPolicy option" where
  "asyncCacheValid p =
     (case lp_validateChan p of
        [] \<Rightarrow> Some p
      | name # rest \<Rightarrow> cacheValidate name False (p\<lparr>lp_validateChan := rest\<rparr>))"

definition IsCached :: "string \<Rightarrow> lruPolicy \<Rightarrow> bool" where
  "IsCached name p =
     (case map_of (lp_nodeMap p) name of Some i \<Rightarrow> \<not> ln_deleted (lp_nodes p i) | None \<Rightarrow> False)"

definition removeNode :: "string \<Rightarrow> lruPolicy \<Rightarrow> lruPolicy" where
  "removeNode name p =
     (case map_of (lp_nodeMap p) name of
        None \<Rightarrow> p
      | Some i \<Rightarrow>
          extractNode i (upd_node i (\<lambda>n. n\<lparr>ln_deleted := True\<rparr>)
            (p\<lparr>lp_nodeMap := map_remove name (lp_nodeMap p)\<rparr>)))"

definition is_permission :: "error option \<Rightarrow> bool" where
  "is_permission e = (case e of None \<Rightarrow> False | Some x \<Rightarrow> underlying_error x \<in> {Errno EACCES, Errno EPERM})"

definition deleteFile :: "string \<Rightarrow> os_fs \<Rightarrow> err \<times> os_fs" where
  "deleteFile name fs =
     (case os_Remove name fs of
        (e, fs1) \<Rightarrow>
          if is_permission e
          then (case os_Chmod name 420 fs1 of
                  (Some e2, fs2) \<Rightarrow> (Some e2, fs2)
                | (None, fs2) \<Rightarrow> os_Remove name fs2)
          else if is_not_exist e then (None, fs1)
          else (e, fs1))"

definition CachePurge :: "string \<Rightarrow> lruPolicy \<times> os_fs \<Rightarrow> lruPolicy \<times> os_fs" where
  "CachePurge name = (\<lambda>(p, fs). (removeNode name p, snd (deleteFile name fs)))"

section \<open>Eviction\<close>

text \<open>The object name of a cached file; an empty name is out of range.\<close>

definition expire_name :: "lruPolicy \<Rightarrow> nat \<Rightarrow> string option" where
  "expire_name p i =
     (case NormalizeObjectName (trim_prefix (node_name p i) (pc_tmpPath (lp_cfg p))) of
        [] \<Rightarrow> None
      | c # cs \<Rightarrow> Some (if c = slash then cs else c # cs))"

abbreviation sync_pending :: "lruPolicy \<Rightarrow> string \<Rightarrow> bool" where
  "sync_pending p obj \<equiv> map_of (pc_pendingOps (lp_cfg p)) obj \<noteq> None"

partial_function (option) expire_walk ::
  "lruPolicy \<Rightarrow> nat option \<Rightarrow> int \<Rightarrow> (nat list \<times> nat option \<times> lruPolicy) option" where
  "expire_walk p r count =
     (case r of
        None \<Rightarrow> Some ([], None, p)
      | Some i \<Rightarrow>
          if count \<ge> pc_maxEviction (lp_cfg p) then Some ([], Some i, p)
          else do {
            obj \<leftarrow> expire_name p i;
            if sync_pending p obj then expire_walk p (node_next p i) count
            else do {
              (ds, rest, p1) \<leftarrow> expire_walk (upd_node i (\<lambda>n. n\<lparr>ln_deleted := True\<rparr>) p) (node_next p i) (count + 1);
              Some (i # ds, rest, p1)
            }
          })"

declare expire_walk.simps [code]

text \<open>The part of \<open>deleteExpiredNodes\<close> under the policy's lock: it unlinks the expired nodes.\<close>

definition collect_expired :: "lruPolicy \<Rightarrow> (nat list \<times> lruPolicy) option" where
  "collect_expired p =
     (let lm = lp_lastMarker p in
      case node_next p lm of
        None \<Rightarrow> Some ([], p)
      | Some i \<Rightarrow> do {
          let p1 = upd_node i (\<lambda>n. n\<lparr>ln_prev := None\<rparr>) (upd_node lm (\<lambda>n. n\<lparr>ln_next := None\<rparr>) p);
          (ds, rest, p2) \<leftarrow> expire_walk p1 (Some i) 0;
          let p3 = upd_node lm (\<lambda>n. n\<lparr>ln_next := rest\<rparr>) p2;
          Some (ds, (case rest of Some j \<Rightarrow> upd_node j (\<lambda>n. n\<lparr>ln_prev := Some lm\<rparr>) p3 | None \<Rightarrow> p3))
        })"

text \<open>\<open>os.Stat\<close> says that the file does not exist.\<close>

definition stat_missing :: "os_fs \<Rightarrow> string \<Rightarrow> bool" where
  "stat_missing fs name = (case os_Stat fs name of Inl e \<Rightarrow> is_not_exist (Some e) | Inr nd \<Rightarrow> False)"

definition deleteItem :: "string \<Rightarrow> lruPolicy \<times> os_fs \<Rightarrow> (lruPolicy \<times> os_fs) option" where
  "deleteItem name = (\<lambda>(p, fs).
     case NormalizeObjectName (trim_prefix name (pc_tmpPath (lp_cfg p))) of
       [] \<Rightarrow> Some (p, fs)
     | c # cs \<Rightarrow>
         let objName = (if c = slash then cs else c # cs);
             (fl, ls) = lm_Get (pc_fileLocks (lp_cfg p)) objName;
             p1 = p\<lparr>lp_cfg := (lp_cfg p)\<lparr>pc_fileLocks := ls\<rparr>\<rparr>
         in if map_of (lp_nodeMap p1) name \<noteq> None then Some (p1, fs)
            else if handleCount (lock_items ls fl) > 0 then map_option (\<lambda>p2. (p2, fs)) (CacheValid name p1)
            else if sync_pending p1 objName then map_option (\<lambda>p2. (p2, fs)) (CacheValid name p1)
            else if stat_missing fs name then Some (p1, fs)
            else Some (p1, snd (deleteFile name fs)))"

text \<open>The part for one collected node, under the node's lock: a node used in between is left alone.\<close>

definition delete_collected :: "nat \<Rightarrow> lruPolicy \<times> os_fs \<Rightarrow> (lruPolicy \<times> os_fs) option" where
  "delete_collected i = (\<lambda>(p, fs).
     if ln_deleted (lp_nodes p i)
     then deleteItem (node_name p i) (p\<lparr>lp_nodeMap := map_remove (node_name p i) (lp_nodeMap p)\<rparr>, fs)
     else Some (p, fs))"

fun delete_all :: "nat list \<Rightarrow> lruPolicy \<times> os_fs \<Rightarrow> (lruPolicy \<times> os_fs) option" where
  "delete_all [] s = Some s"
| "delete_all (i # is) s = Option.bind (delete_collected i s) (delete_all is)"

definition deleteExpiredNodes :: "lruPolicy \<times> os_fs \<Rightarrow> (lruPolicy \<times> os_fs) option" where
  "deleteExpiredNodes = (\<lambda>(p, fs). do {
     (ds, p1) \<leftarrow> collect_expired p;
     delete_all ds (p1, fs)
   })"

text \<open>
  A round by itself, when nothing else runs between its parts; the steps below interleave them with the
  other operations.
\<close>

definition expire_round :: "lruPolicy \<times> os_fs \<Rightarrow> (lruPolicy \<times> os_fs) option" where
  "expire_round = (\<lambda>(p, fs). do { p1 \<leftarrow> updateMarker p; deleteExpiredNodes (p1, fs) })"

text \<open>
  \<open>getUsagePercentage\<close>, from the bytes \<open>du\<close> counts (zero when it fails), and the turns of \<open>clearCache\<close>:
  a timeout runs one round; a disk check above the high threshold runs up to three, until the usage
  read after a round is below the low threshold.
\<close>

definition getUsagePercentage :: "rat \<Rightarrow> rat \<Rightarrow> rat" where
  "getUsagePercentage curSize maxSizeMB =
     (if maxSizeMB \<le> 0 then 0 else curSize / (maxSizeMB * 1048576) * 100)"

function cleanup_rounds :: "nat \<Rightarrow> (nat \<Rightarrow> rat) \<Rightarrow> lruPolicy \<times> os_fs \<Rightarrow> (lruPolicy \<times> os_fs) option" where
  "cleanup_rounds cleanupCount curSize s =
     (case expire_round s of
        None \<Rightarrow> None
      | Some s1 \<Rightarrow>
          if getUsagePercentage (curSize (Suc cleanupCount)) (pc_maxSizeMB (lp_cfg (fst s1)))
               < pc_lowThreshold (lp_cfg (fst s1)) \<or> Suc cleanupCount \<ge> 3
          then Some s1 else cleanup_rounds (Suc cleanupCount) curSize s1)"
  by pat_completeness auto
termination by (relation "measure (\<lambda>(n, _). 3 - n)") auto

declare cleanup_rounds.simps [simp del]

definition disk_check :: "(nat \<Rightarrow> rat) \<Rightarrow> lruPolicy \<times> os_fs \<Rightarrow> (lruPolicy \<times> os_fs) option" where
  "disk_check curSize s =
     (if getUsagePercentage (curSize 0) (pc_maxSizeMB (lp_cfg (fst s))) > pc_highThreshold (lp_cfg (fst s))
      then cleanup_rounds 0 curSize s else Some s)"

section \<open>Steps\<close>

text \<open>
  What the goroutines that share the policy do, cut where they release its lock: a round is the moving of
  the marker, the collecting of the expired nodes, and one deletion for each node collected, under that
  node's lock; anything may come in between. The second component of the state is what the round has
  collected and not deleted yet. Only \<open>clearCache\<close> runs rounds, so the next one moves the marker and collects
  when the list is empty. \<open>Share\<close> is the file cache at work on the maps it shares with the policy.
\<close>

type_synonym lru_state = "lruPolicy \<times> nat list \<times> os_fs"

datatype lru_event =
    Hit string
  | Validate
  | Purge string
  | Share LockMap "(string \<times> pendingFlags) list"
  | Reconfigure cachePolicyConfig
  | Mark
  | Collect
  | Delete

fun lru_event_step :: "lru_event \<Rightarrow> lru_state \<Rightarrow> lru_state option" where
  "lru_event_step (Hit name) (p, ds, fs) = map_option (\<lambda>p1. (p1, ds, fs)) (CacheValid name p)"
| "lru_event_step Validate (p, ds, fs) = map_option (\<lambda>p1. (p1, ds, fs)) (asyncCacheValid p)"
| "lru_event_step (Purge name) (p, ds, fs) = (case CachePurge name (p, fs) of (p1, fs1) \<Rightarrow> Some (p1, ds, fs1))"
| "lru_event_step (Share ls pend) (p, ds, fs) =
     Some (p\<lparr>lp_cfg := (lp_cfg p)\<lparr>pc_fileLocks := ls, pc_pendingOps := pend\<rparr>\<rparr>, ds, fs)"
| "lru_event_step (Reconfigure c) (p, ds, fs) = Some (UpdateConfig c p, ds, fs)"
| "lru_event_step Mark (p, ds, fs) =
     (if ds \<noteq> [] then Some (p, ds, fs) else map_option (\<lambda>p1. (p1, ds, fs)) (updateMarker p))"
| "lru_event_step Collect (p, ds, fs) =
     (if ds \<noteq> [] then Some (p, ds, fs) else map_option (\<lambda>(ds1, p1). (p1, ds1, fs)) (collect_expired p))"
| "lru_event_step Delete (p, ds, fs) =
     (case ds of
        [] \<Rightarrow> Some (p, ds, fs)
      | i # is \<Rightarrow> map_option (\<lambda>(p1, fs1). (p1, is, fs1)) (delete_collected i (p, fs)))"

fun lru_run :: "lru_event list \<Rightarrow> lru_state \<Rightarrow> lru_state option" where
  "lru_run [] s = Some s"
| "lru_run (e # es) s = Option.bind (lru_event_step e s) (lru_run es)"

text \<open>
  A step that leaves alone what the round has collected: it neither moves such a node to the front nor
  purges it. (A hit of its name is only queued.) \<open>undisturbed_run\<close> follows a run.
\<close>

fun undisturbed :: "lru_event \<Rightarrow> lru_state \<Rightarrow> bool" where
  "undisturbed Validate (p, ds, fs) \<longleftrightarrow>
     (case lp_validateChan p of [] \<Rightarrow> True | name # rest \<Rightarrow> name \<notin> set (map (node_name p) ds))"
| "undisturbed (Purge name) (p, ds, fs) \<longleftrightarrow> name \<notin> set (map (node_name p) ds)"
| "undisturbed _ _ \<longleftrightarrow> True"

fun undisturbed_run :: "lru_event list \<Rightarrow> lru_state \<Rightarrow> bool" where
  "undisturbed_run [] s \<longleftrightarrow> True"
| "undisturbed_run (e # es) s \<longleftrightarrow> undisturbed e s \<and>
     (case lru_event_step e s of None \<Rightarrow> True | Some s1 \<Rightarrow> undisturbed_run es s1)"

section \<open>The snapshot\<close>

record pendingOpSnapshot =
  ps_IsDir :: bool
  ps_IsDeletion :: bool

record lruPolicySnapshot =
  NodeList :: "string list"
  SyncPendingFlags :: "bool list"
  CurrMarkerPosition :: int
  LastMarkerPosition :: int
  ss_PendingOps :: "(string \<times> pendingOpSnapshot) list"

text \<open>The walk of \<open>createSnapshot\<close> over the nodes of the list, from an index on.\<close>

fun snap_walk :: "lruPolicy \<Rightarrow> int \<Rightarrow> nat list \<Rightarrow> lruPolicySnapshot \<Rightarrow> lruPolicySnapshot option" where
  "snap_walk p index [] ss = Some ss"
| "snap_walk p index (i # is) ss =
     (let tmp = pc_tmpPath (lp_cfg p); name = node_name p i in
      if i = lp_currMarker p then snap_walk p (index + 1) is (ss\<lparr>CurrMarkerPosition := index\<rparr>)
      else if i = lp_lastMarker p then snap_walk p (index + 1) is (ss\<lparr>LastMarkerPosition := index\<rparr>)
      else if prefix tmp name
      then (case drop (length tmp) name of
              [] \<Rightarrow> None
            | c # cs \<Rightarrow>
                snap_walk p (index + 1) is
                  (ss\<lparr>NodeList := NodeList ss @ [c # cs],
                      SyncPendingFlags := SyncPendingFlags ss @ [sync_pending p (NormalizeObjectName cs)]\<rparr>))
      else snap_walk p (index + 1) is ss)"

definition createSnapshot :: "lruPolicy \<Rightarrow> lruPolicySnapshot option" where
  "createSnapshot p = do {
     ns \<leftarrow> node_chain p (lp_head p);
     ss \<leftarrow> snap_walk p 0 ns
       \<lparr>NodeList = [], SyncPendingFlags = [], CurrMarkerPosition = 0, LastMarkerPosition = 0, ss_PendingOps = []\<rparr>;
     Some (ss\<lparr>ss_PendingOps :=
       map (\<lambda>(k, f). (k, \<lparr>ps_IsDir = pf_isDir f, ps_IsDeletion = pf_isDeletion f\<rparr>)) (pc_pendingOps (lp_cfg p))\<rparr>)
   }"

definition store_pending :: "string \<Rightarrow> pendingFlags \<Rightarrow> lruPolicy \<Rightarrow> lruPolicy" where
  "store_pending k f p = p\<lparr>lp_cfg := (lp_cfg p)\<lparr>pc_pendingOps := map_store k f (pc_pendingOps (lp_cfg p))\<rparr>\<rparr>"

text \<open>
  One turn of the loop of \<open>loadSnapshot\<close>: the index of the next node, the node the new one goes before,
  the tail and the policy.
\<close>

definition pass_marker :: "int \<Rightarrow> lruPolicy \<Rightarrow> int \<times> nat option \<Rightarrow> (int \<times> nat option) option" where
  "pass_marker pos p = (\<lambda>(idx, nxt).
     if idx = pos then (case nxt of None \<Rightarrow> None | Some x \<Rightarrow> Some (idx + 1, node_next p x)) else Some (idx, nxt))"

definition insert_before :: "nat \<Rightarrow> nat option \<Rightarrow> nat \<times> lruPolicy \<Rightarrow> nat \<times> lruPolicy" where
  "insert_before new nxt = (\<lambda>(tl, p).
     let prv = (case nxt of Some x \<Rightarrow> node_prev p x | None \<Rightarrow> Some tl);
         p1 = upd_node new (\<lambda>n. n\<lparr>ln_prev := prv, ln_next := nxt\<rparr>) p;
         p2 = (case nxt of Some x \<Rightarrow> upd_node x (\<lambda>n. n\<lparr>ln_prev := Some new\<rparr>) p1 | None \<Rightarrow> p1);
         p3 = (case prv of Some y \<Rightarrow> upd_node y (\<lambda>n. n\<lparr>ln_next := Some new\<rparr>) p2 | None \<Rightarrow> p2);
         p4 = (if lp_head p3 = nxt then p3\<lparr>lp_head := Some new\<rparr> else p3)
     in (if prv = Some tl then new else tl, p4))"

definition load_one ::
  "lruPolicySnapshot \<Rightarrow> string \<times> bool \<Rightarrow> int \<times> nat option \<times> nat \<times> lruPolicy \<Rightarrow>
     (int \<times> nat option \<times> nat \<times> lruPolicy) option" where
  "load_one ss = (\<lambda>(v, pending) (idx, nxt, tl, p). do {
     let fullPath = path_join [pc_tmpPath (lp_cfg p), v];
     p1 \<leftarrow> (if \<not> pending then Some p
           else case v of [] \<Rightarrow> None | c # cs \<Rightarrow> Some (store_pending cs \<lparr>pf_isDir = False, pf_isDeletion = False\<rparr> p));
     let new = lp_fresh p1;
     let p2 = p1\<lparr>lp_nodes := (lp_nodes p1)(new := new_node 0 fullPath), lp_fresh := Suc new,
                 lp_nodeMap := map_store fullPath new (lp_nodeMap p1)\<rparr>;
     s1 \<leftarrow> pass_marker (CurrMarkerPosition ss) p2 (idx, nxt);
     (idx2, nxt2) \<leftarrow> pass_marker (LastMarkerPosition ss) p2 s1;
     let (tl2, p3) = insert_before new nxt2 (tl, p2);
     Some (idx2 + 1, nxt2, tl2, p3)
   })"

fun load_nodes ::
  "lruPolicySnapshot \<Rightarrow> (string \<times> bool) list \<Rightarrow> int \<times> nat option \<times> nat \<times> lruPolicy \<Rightarrow>
     (int \<times> nat option \<times> nat \<times> lruPolicy) option" where
  "load_nodes ss [] s = Some s"
| "load_nodes ss (x # xs) s = Option.bind (load_one ss x s) (load_nodes ss xs)"

definition loadSnapshot :: "lruPolicySnapshot option \<Rightarrow> lruPolicy \<Rightarrow> lruPolicy option" where
  "loadSnapshot snapshot p =
     (case snapshot of
        None \<Rightarrow> Some p
      | Some ss \<Rightarrow>
          let loadPendingOps = (ss_PendingOps ss = [] \<and> length (NodeList ss) = length (SyncPendingFlags ss));
              p1 = fold (\<lambda>(k, f). store_pending k \<lparr>pf_isDir = ps_IsDir f, pf_isDeletion = ps_IsDeletion f\<rparr>)
                     (ss_PendingOps ss) p;
              flags = (if loadPendingOps then SyncPendingFlags ss else replicate (length (NodeList ss)) False)
          in map_option (\<lambda>(_, _, _, p2). p2)
               (load_nodes ss (zip (NodeList ss) flags) (0, lp_head p1, lp_lastMarker p1, p1)))"

definition StartPolicy :: "lruPolicySnapshot option \<Rightarrow> lruPolicy \<Rightarrow> lruPolicy option" where
  "StartPolicy snapshot p =
     (let c = lp_currMarker p; l = lp_lastMarker p;
          p1 = upd_node l (\<lambda>n. n\<lparr>ln_prev := Some c, ln_next := None\<rparr>)
                 (upd_node c (\<lambda>n. n\<lparr>ln_prev := None, ln_next := Some l\<rparr>) p)
      in loadSnapshot snapshot (p1\<lparr>lp_head := Some c, lp_validateChan := []\<rparr>))"

end
