(* ===== verification/File_Lru_Correct.thy ===== *)
theory File_Lru_Correct
  imports File_Lru
begin

text \<open>
  The eviction policy as a list: every operation on the linked nodes does what its name says to the list
  of entries, in which two markers delimit the files that were not used for a period.
\<close>

section \<open>Doubly linked segments\<close>

fun seg :: "lruPolicy \<Rightarrow> nat option \<Rightarrow> nat list \<Rightarrow> nat option \<Rightarrow> bool" where
  "seg p prv [] nxt = True"
| "seg p prv (i # is) nxt \<longleftrightarrow>
     node_prev p i = prv \<and> node_next p i = (if is = [] then nxt else Some (hd is)) \<and> seg p (Some i) is nxt"

definition first_of :: "nat list \<Rightarrow> nat option \<Rightarrow> nat option" where
  "first_of ns nxt = (if ns = [] then nxt else Some (hd ns))"

definition last_of :: "nat option \<Rightarrow> nat list \<Rightarrow> nat option" where
  "last_of prv ns = (if ns = [] then prv else Some (last ns))"

lemma first_of_simps [simp]: "first_of [] nxt = nxt" "first_of (i # is) nxt = Some i"
  by (simp_all add: first_of_def)

lemma last_of_simps [simp]: "last_of prv [] = prv" "last_of prv (i # is) = last_of (Some i) is"
  by (simp_all add: last_of_def)

lemma last_of_snoc [simp]: "last_of prv (is @ [i]) = Some i"
  by (simp add: last_of_def)

lemma seg_append:
  "seg p prv (xs @ ys) nxt \<longleftrightarrow> seg p prv xs (first_of ys nxt) \<and> seg p (last_of prv xs) ys nxt"
  by (induction xs arbitrary: prv) (auto simp: first_of_def)

lemma seg_cong:
  "(\<And>i. i \<in> set ns \<Longrightarrow> node_next q i = node_next p i \<and> node_prev q i = node_prev p i) \<Longrightarrow>
     seg q prv ns nxt = seg p prv ns nxt"
  by (induction ns arbitrary: prv) auto

definition linked :: "lruPolicy \<Rightarrow> nat list \<Rightarrow> bool" where
  "linked p ns \<longleftrightarrow> distinct ns \<and> lp_head p = first_of ns None \<and> seg p None ns None"

lemma upd_node_simps [simp]:
  "lp_nodes (upd_node i f p) = (lp_nodes p)(i := f (lp_nodes p i))" "lp_cfg (upd_node i f p) = lp_cfg p"
  "lp_nodeMap (upd_node i f p) = lp_nodeMap p" "lp_fresh (upd_node i f p) = lp_fresh p"
  "lp_head (upd_node i f p) = lp_head p" "lp_currMarker (upd_node i f p) = lp_currMarker p"
  "lp_lastMarker (upd_node i f p) = lp_lastMarker p" "lp_validateChan (upd_node i f p) = lp_validateChan p"
  by (simp_all add: upd_node_def)

text \<open>The pointers after \<open>extractNode\<close>, and what it leaves alone.\<close>

lemma extractNode_nodes:
  "lp_nodes (extractNode i p) j =
    (if j = i then (lp_nodes p i)\<lparr>ln_prev := None, ln_next := None\<rparr>
     else (lp_nodes p j)
       \<lparr>ln_prev := (if node_next p i = Some j then node_prev p i else node_prev p j),
        ln_next := (if node_prev p i = Some j then node_next p i else node_next p j)\<rparr>)"
  by (auto simp: extractNode_def Let_def split: option.split)

lemma extractNode_simps [simp]:
  "lp_cfg (extractNode i p) = lp_cfg p" "lp_nodeMap (extractNode i p) = lp_nodeMap p"
  "lp_fresh (extractNode i p) = lp_fresh p" "lp_currMarker (extractNode i p) = lp_currMarker p"
  "lp_lastMarker (extractNode i p) = lp_lastMarker p" "lp_validateChan (extractNode i p) = lp_validateChan p"
  "lp_head (extractNode i p) = (if lp_head p = Some i then node_next p i else lp_head p)"
  by (auto simp: extractNode_def Let_def split: option.split)

lemma extractNode_names [simp]:
  "node_name (extractNode i p) j = node_name p j"
  "ln_deleted (lp_nodes (extractNode i p) j) = ln_deleted (lp_nodes p j)"
  by (auto simp: extractNode_def Let_def split: option.split)

lemma seg_ends:
  "seg p prv (xs @ i # ys) nxt \<Longrightarrow> node_prev p i = last_of prv xs \<and> node_next p i = first_of ys nxt"
  by (simp add: seg_append first_of_def)

lemma last_of_in: "last_of None xs = Some j \<Longrightarrow> j \<in> set xs"
  by (auto simp: last_of_def split: if_splits)

lemma first_of_in: "first_of xs None = Some j \<Longrightarrow> j \<in> set xs"
  by (auto simp: first_of_def split: if_splits)

lemma seg_change_next:
  assumes "seg p prv xs nxt" "distinct xs"
    and "\<And>j. j \<in> set xs \<Longrightarrow> node_prev q j = node_prev p j"
    and "\<And>j. j \<in> set xs \<Longrightarrow> node_next q j = (if last_of None xs = Some j then nxt' else node_next p j)"
  shows "seg q prv xs nxt'"
  using assms
proof (induction xs arbitrary: prv)
  case (Cons x xs)
  show ?case
  proof (cases "xs = []")
    case False
    have "last_of None (x # xs) = last_of None xs" using False by (simp add: last_of_def)
    moreover from this False have "last_of None (x # xs) \<noteq> Some x"
      using last_of_in [of xs x] Cons.prems(2) by auto
    ultimately show ?thesis
      using Cons.prems Cons.IH [of "Some x"] False by auto
  qed (use Cons.prems in auto)
qed simp

lemma seg_change_prev:
  assumes "seg p prv xs nxt" "distinct xs"
    and "\<And>j. j \<in> set xs \<Longrightarrow> node_next q j = node_next p j"
    and "\<And>j. j \<in> set xs \<Longrightarrow> node_prev q j = (if first_of xs None = Some j then prv' else node_prev p j)"
  shows "seg q prv' xs nxt"
proof (cases xs)
  case (Cons x ys)
  with assms have "seg q (Some x) ys nxt" by (subst seg_cong [of _ q p]) auto
  with Cons assms show ?thesis by auto
qed simp

lemma extract_linked:
  assumes "linked p (xs @ i # ys)"
  shows "linked (extractNode i p) (xs @ ys)"
proof -
  have d: "distinct (xs @ i # ys)" and h: "lp_head p = first_of (xs @ i # ys) None"
    and s: "seg p None (xs @ i # ys) None" using assms by (simp_all add: linked_def)
  have e: "node_prev p i = last_of None xs" "node_next p i = first_of ys None" using seg_ends [OF s] by simp_all
  note n = extractNode_nodes [of i p]
  have sx: "seg p None xs (Some i)" and sy: "seg p (Some i) ys None" using s by (simp_all add: seg_append)
  have "seg (extractNode i p) None xs (first_of ys None)"
    using d e first_of_in [of ys] by (intro seg_change_next [OF sx]) (auto simp: n)
  moreover have "seg (extractNode i p) (last_of None xs) ys None"
    using d e last_of_in [of xs] by (intro seg_change_prev [OF sy]) (auto simp: n)
  moreover have "lp_head (extractNode i p) = first_of (xs @ ys) None"
    using h e d by (cases xs) (auto simp: first_of_def)
  ultimately show ?thesis using d by (simp add: linked_def seg_append)
qed

lemma extract_detached:
  assumes "linked p ns" "i \<notin> set ns"
    and "\<And>j. node_next p i = Some j \<Longrightarrow> j \<notin> set ns" "\<And>j. node_prev p i = Some j \<Longrightarrow> j \<notin> set ns"
  shows "linked (extractNode i p) ns"
proof -
  have "seg (extractNode i p) None ns None = seg p None ns None"
    by (rule seg_cong) (use assms in \<open>auto simp: extractNode_nodes\<close>)
  moreover have "lp_head p \<noteq> Some i" using assms(1,2) first_of_in by (auto simp: linked_def)
  ultimately show ?thesis using assms(1) by (simp add: linked_def)
qed

text \<open>\<open>setHead\<close> on a node outside of a nonempty list.\<close>

lemma setHead_linked:
  assumes "linked p ns" "ns \<noteq> []" "i \<notin> set ns"
  shows "\<exists>p'. setHead i p = Some p' \<and> linked p' (i # ns) \<and>
    lp_cfg p' = lp_cfg p \<and> lp_nodeMap p' = lp_nodeMap p \<and> lp_fresh p' = lp_fresh p \<and>
    lp_currMarker p' = lp_currMarker p \<and> lp_lastMarker p' = lp_lastMarker p \<and>
    lp_validateChan p' = lp_validateChan p \<and>
    (\<forall>j. node_name p' j = node_name p j \<and> ln_deleted (lp_nodes p' j) = ln_deleted (lp_nodes p j)) \<and>
    (\<forall>j. j \<noteq> i \<longrightarrow> node_next p' j = node_next p j \<and> (j \<notin> set ns \<longrightarrow> node_prev p' j = node_prev p j))"
proof -
  obtain h t where ns: "ns = h # t" using assms(2) by (cases ns) auto
  let ?p = "(upd_node h (\<lambda>n. n\<lparr>ln_prev := Some i\<rparr>)
    (upd_node i (\<lambda>n. n\<lparr>ln_prev := None, ln_next := Some h\<rparr>) p))\<lparr>lp_head := Some i\<rparr>"
  have "setHead i p = Some ?p" using assms(1) ns by (simp add: setHead_def linked_def)
  moreover have "linked ?p (i # ns)"
  proof -
    have s: "seg p None ns None" "distinct ns" using assms(1) by (simp_all add: linked_def)
    have "seg ?p (Some i) ns None"
      by (rule seg_change_prev [OF s]) (use assms(3) ns in auto)
    then show ?thesis using assms(3) s(2) ns by (auto simp: linked_def)
  qed
  ultimately show ?thesis using ns by fastforce
qed

lemma node_chain_seg: "seg p prv ns None \<Longrightarrow> node_chain p (first_of ns None) = Some ns"
proof (induction ns arbitrary: prv)
  case Nil
  then show ?case by (subst node_chain.simps) simp
next
  case (Cons i "is")
  have "node_next p i = first_of is None" using Cons.prems by (simp add: first_of_def)
  with Cons show ?case by (subst node_chain.simps) auto
qed

lemma node_chain_linked: "linked p ns \<Longrightarrow> node_chain p (lp_head p) = Some ns"
  using node_chain_seg by (auto simp: linked_def)

section \<open>The invariant\<close>

text \<open>
  A node of the map that is not in the list: its pointers do not lead into the list and are matched by
  those they lead to, so that extracting it leaves the list alone.
\<close>

definition stray :: "lruPolicy \<Rightarrow> nat list \<Rightarrow> nat \<Rightarrow> bool" where
  "stray p ns i \<longleftrightarrow>
     (\<forall>x. node_next p i = Some x \<longrightarrow> x < lp_fresh p \<and> x \<notin> set ns \<and> node_prev p x = Some i) \<and>
     (\<forall>y. node_prev p i = Some y \<longrightarrow> y < lp_fresh p \<and> y \<notin> set ns \<and> node_next p y = Some i)"

definition markers_in :: "lruPolicy \<Rightarrow> nat list \<Rightarrow> bool" where
  "markers_in p ns \<longleftrightarrow> (\<exists>xs ys zs. ns = xs @ lp_currMarker p # ys @ lp_lastMarker p # zs)"

abbreviation proper_name :: "lruPolicy \<Rightarrow> string \<Rightarrow> bool" where
  "proper_name p name \<equiv> trim_prefix name (pc_tmpPath (lp_cfg p)) \<noteq> []"

text \<open>
  The nodes of \<open>D\<close> are about to be deleted: in the map, marked, and no longer in the list.
\<close>

definition pol_inv :: "nat set \<Rightarrow> lruPolicy \<Rightarrow> nat list \<Rightarrow> bool" where
  "pol_inv D p ns \<longleftrightarrow>
     linked p ns \<and> markers_in p ns \<and> (\<forall>i \<in> set ns. i < lp_fresh p) \<and>
     (\<forall>name i. map_of (lp_nodeMap p) name = Some i \<longrightarrow>
        i < lp_fresh p \<and> node_name p i = name \<and> i \<noteq> lp_currMarker p \<and> i \<noteq> lp_lastMarker p \<and> proper_name p name) \<and>
     (\<forall>i \<in> set ns. i = lp_currMarker p \<or> i = lp_lastMarker p \<or> map_of (lp_nodeMap p) (node_name p i) = Some i) \<and>
     (\<forall>name i. map_of (lp_nodeMap p) name = Some i \<longrightarrow> i \<notin> set ns \<longrightarrow> i \<notin> D \<longrightarrow> stray p ns i) \<and>
     (\<forall>i \<in> D. i \<notin> set ns \<and> map_of (lp_nodeMap p) (node_name p i) = Some i \<and> ln_deleted (lp_nodes p i))"

lemma pol_invD:
  assumes "pol_inv D p ns"
  shows "linked p ns" "markers_in p ns" "i \<in> set ns \<Longrightarrow> i < lp_fresh p" "distinct ns"
    "map_of (lp_nodeMap p) name = Some i \<Longrightarrow> i < lp_fresh p"
    "map_of (lp_nodeMap p) name = Some i \<Longrightarrow> node_name p i = name"
    "map_of (lp_nodeMap p) name = Some i \<Longrightarrow> i \<noteq> lp_currMarker p"
    "map_of (lp_nodeMap p) name = Some i \<Longrightarrow> i \<noteq> lp_lastMarker p"
    "map_of (lp_nodeMap p) name = Some i \<Longrightarrow> proper_name p name"
    "i \<in> set ns \<Longrightarrow> i \<noteq> lp_currMarker p \<Longrightarrow> i \<noteq> lp_lastMarker p \<Longrightarrow> map_of (lp_nodeMap p) (node_name p i) = Some i"
    "map_of (lp_nodeMap p) name = Some i \<Longrightarrow> i \<notin> set ns \<Longrightarrow> i \<notin> D \<Longrightarrow> stray p ns i"
    "i \<in> D \<Longrightarrow> i \<notin> set ns" "i \<in> D \<Longrightarrow> map_of (lp_nodeMap p) (node_name p i) = Some i"
    "i \<in> D \<Longrightarrow> ln_deleted (lp_nodes p i)"
  using assms unfolding pol_inv_def linked_def by blast+

lemma pol_invI:
  assumes "linked p ns" "markers_in p ns" "\<And>i. i \<in> set ns \<Longrightarrow> i < lp_fresh p"
    "\<And>name i. map_of (lp_nodeMap p) name = Some i \<Longrightarrow>
      i < lp_fresh p \<and> node_name p i = name \<and> i \<noteq> lp_currMarker p \<and> i \<noteq> lp_lastMarker p \<and> proper_name p name"
    "\<And>i. i \<in> set ns \<Longrightarrow> i \<noteq> lp_currMarker p \<Longrightarrow> i \<noteq> lp_lastMarker p \<Longrightarrow>
      map_of (lp_nodeMap p) (node_name p i) = Some i"
    "\<And>name i. map_of (lp_nodeMap p) name = Some i \<Longrightarrow> i \<notin> set ns \<Longrightarrow> i \<notin> D \<Longrightarrow> stray p ns i"
    "\<And>i. i \<in> D \<Longrightarrow> i \<notin> set ns \<and> map_of (lp_nodeMap p) (node_name p i) = Some i \<and> ln_deleted (lp_nodes p i)"
  shows "pol_inv D p ns"
  using assms unfolding pol_inv_def by blast

lemma strayD:
  assumes "stray p ns i"
  shows "node_next p i = Some x \<Longrightarrow> x < lp_fresh p" "node_next p i = Some x \<Longrightarrow> x \<notin> set ns"
    "node_next p i = Some x \<Longrightarrow> node_prev p x = Some i"
    "node_prev p i = Some y \<Longrightarrow> y < lp_fresh p" "node_prev p i = Some y \<Longrightarrow> y \<notin> set ns"
    "node_prev p i = Some y \<Longrightarrow> node_next p y = Some i"
  using assms unfolding stray_def by blast+

lemma stray_cong:
  assumes "stray p ns i" "lp_fresh p \<le> lp_fresh q" "set ns' \<inter> {j. j < lp_fresh p} \<subseteq> set ns"
    and "\<And>j. j < lp_fresh p \<Longrightarrow> j \<notin> set ns \<Longrightarrow> node_next q j = node_next p j \<and> node_prev q j = node_prev p j"
    and "i < lp_fresh p" "i \<notin> set ns"
  shows "stray q ns' i"
  unfolding stray_def using strayD [OF assms(1)] assms(2-) by fastforce

lemma linked_next_in: "linked p ns \<Longrightarrow> i \<in> set ns \<Longrightarrow> node_next p i = Some j \<Longrightarrow> j \<in> set ns"
proof -
  assume a: "linked p ns" "i \<in> set ns" "node_next p i = Some j"
  then obtain xs ys where "ns = xs @ i # ys" by (meson split_list)
  with a seg_ends [of p None xs i ys None] first_of_in [of ys j] show ?thesis by (auto simp: linked_def)
qed

lemma linked_prev_in: "linked p ns \<Longrightarrow> i \<in> set ns \<Longrightarrow> node_prev p i = Some j \<Longrightarrow> j \<in> set ns"
proof -
  assume a: "linked p ns" "i \<in> set ns" "node_prev p i = Some j"
  then obtain xs ys where "ns = xs @ i # ys" by (meson split_list)
  with a seg_ends [of p None xs i ys None] last_of_in [of xs j] show ?thesis by (auto simp: linked_def)
qed

text \<open>Extracting a node of the map, in the list or stray.\<close>

lemma stray_extract:
  assumes "stray p ns j" "j \<noteq> i" "j \<notin> set ns" "linked p ns" "i \<in> set ns \<or> stray p ns i"
  shows "stray (extractNode i p) (i # ns) j"
proof -
  note n = extractNode_nodes [of i p]
  note J = strayD [OF assms(1)]
  show ?thesis
  proof (cases "i \<in> set ns")
    case True
    have "node_next p i \<noteq> Some x" "node_prev p i \<noteq> Some x" if "x \<notin> set ns" for x
      using that linked_next_in [OF assms(4) True] linked_prev_in [OF assms(4) True] by auto
    then have same: "node_next (extractNode i p) x = node_next p x" "node_prev (extractNode i p) x = node_prev p x"
      if "x \<notin> set ns" for x using that True by (auto simp: n)
    have sub: "set (i # ns) = set ns" using True by auto
    show ?thesis
      unfolding stray_def sub extractNode_simps using J same assms(3) by simp
  next
    case False
    with assms(5) have si: "stray p ns i" by blast
    note I = strayD [OF si]
    show ?thesis
      unfolding stray_def
    proof (intro conjI allI impI)
      fix x assume x: "node_next (extractNode i p) j = Some x"
      show "x < lp_fresh (extractNode i p)" "x \<notin> set (i # ns)" "node_prev (extractNode i p) x = Some j"
      proof -
        consider (a) "node_prev p i = Some j" "node_next p i = Some x" | (b) "node_prev p i \<noteq> Some j" "node_next p j = Some x"
          using x assms(2) by (cases "node_prev p i = Some j") (simp_all add: n)
        then have "x < lp_fresh p \<and> x \<noteq> i \<and> x \<notin> set ns \<and> node_prev (extractNode i p) x = Some j"
        proof cases
          case a
          then have "x \<noteq> i" using I(3) assms(2) by auto
          with a I(1,2) show ?thesis by (simp add: n)
        next
          case b
          then have "x \<noteq> i" using J(3) by auto
          moreover have "node_next p i \<noteq> Some x" using I(3) J(3) [OF b(2)] assms(2) by auto
          ultimately show ?thesis using J(1-3) [OF b(2)] by (simp add: n)
        qed
        then show "x < lp_fresh (extractNode i p)" "x \<notin> set (i # ns)" "node_prev (extractNode i p) x = Some j"
          by simp_all
      qed
    next
      fix y assume y: "node_prev (extractNode i p) j = Some y"
      show "y < lp_fresh (extractNode i p)" "y \<notin> set (i # ns)" "node_next (extractNode i p) y = Some j"
      proof -
        consider (a) "node_next p i = Some j" "node_prev p i = Some y" | (b) "node_next p i \<noteq> Some j" "node_prev p j = Some y"
          using y assms(2) by (cases "node_next p i = Some j") (simp_all add: n)
        then have "y < lp_fresh p \<and> y \<noteq> i \<and> y \<notin> set ns \<and> node_next (extractNode i p) y = Some j"
        proof cases
          case a
          then have "y \<noteq> i" using I(6) assms(2) by auto
          with a I(4,5) show ?thesis by (simp add: n)
        next
          case b
          then have "y \<noteq> i" using J(6) by auto
          moreover have "node_prev p i \<noteq> Some y" using I(6) J(6) [OF b(2)] assms(2) by auto
          ultimately show ?thesis using J(4-6) [OF b(2)] by (simp add: n)
        qed
        then show "y < lp_fresh (extractNode i p)" "y \<notin> set (i # ns)" "node_next (extractNode i p) y = Some j"
          by simp_all
      qed
    qed
  qed
qed

text \<open>Moving a node of the map, in the list or stray, to the front of the list.\<close>

lemma remove1_split: "distinct (xs @ i # ys) \<Longrightarrow> remove1 i (xs @ i # ys) = xs @ ys"
  by (simp add: remove1_append)

lemma extract_any:
  assumes "linked p ns" "i \<in> set ns \<or> stray p ns i"
  shows "linked (extractNode i p) (remove1 i ns)"
proof (cases "i \<in> set ns")
  case True
  then obtain xs ys where ns: "ns = xs @ i # ys" by (meson split_list)
  with assms(1) have "remove1 i ns = xs @ ys" using remove1_split [of xs i ys] by (simp add: linked_def)
  with extract_linked assms(1) ns show ?thesis by simp
next
  case False
  with assms strayD(2,5) [of p ns i] have "linked (extractNode i p) ns" by (intro extract_detached) auto
  with False show ?thesis by (simp add: remove1_idem)
qed

lemma markers_remove1:
  assumes "markers_in p ns" "i \<noteq> lp_currMarker p" "i \<noteq> lp_lastMarker p"
  shows "\<exists>xs ys zs. remove1 i ns = xs @ lp_currMarker p # ys @ lp_lastMarker p # zs"
proof -
  obtain xs ys zs where ns: "ns = xs @ lp_currMarker p # ys @ lp_lastMarker p # zs"
    using assms(1) by (auto simp: markers_in_def)
  show ?thesis
    unfolding ns using assms(2,3)
    by (auto simp: remove1_append)
qed

lemma extract_set_head:
  assumes inv: "pol_inv D p ns" and ist: "i \<in> set ns \<or> stray p ns i" and ne: "remove1 i ns \<noteq> []"
  shows "\<exists>p'. setHead i (extractNode i p) = Some p' \<and> linked p' (i # remove1 i ns) \<and>
    lp_cfg p' = lp_cfg p \<and> lp_nodeMap p' = lp_nodeMap p \<and> lp_currMarker p' = lp_currMarker p \<and>
    lp_lastMarker p' = lp_lastMarker p \<and> lp_validateChan p' = lp_validateChan p \<and> lp_fresh p' = lp_fresh p \<and>
    (\<forall>j. node_name p' j = node_name p j \<and> ln_deleted (lp_nodes p' j) = ln_deleted (lp_nodes p j)) \<and>
    (\<forall>j. stray p ns j \<longrightarrow> j \<noteq> i \<longrightarrow> j \<notin> set ns \<longrightarrow> stray p' (i # remove1 i ns) j)"
proof -
  note I = pol_invD [OF inv]
  have l: "linked (extractNode i p) (remove1 i ns)" by (rule extract_any [OF I(1) ist])
  have ni: "i \<notin> set (remove1 i ns)" using I(4) by simp
  from setHead_linked [OF l ne ni] obtain p' where p': "setHead i (extractNode i p) = Some p'" "linked p' (i # remove1 i ns)"
    and f: "lp_cfg p' = lp_cfg p" "lp_nodeMap p' = lp_nodeMap p" "lp_fresh p' = lp_fresh p"
      "lp_currMarker p' = lp_currMarker p" "lp_lastMarker p' = lp_lastMarker p" "lp_validateChan p' = lp_validateChan p"
    and nd: "\<forall>j. node_name p' j = node_name p j \<and> ln_deleted (lp_nodes p' j) = ln_deleted (lp_nodes p j)"
    and nx: "\<forall>j. j \<noteq> i \<longrightarrow> node_next p' j = node_next (extractNode i p) j \<and>
        (j \<notin> set (remove1 i ns) \<longrightarrow> node_prev p' j = node_prev (extractNode i p) j)" by auto
  have sub: "set (i # remove1 i ns) = insert i (set ns)" using I(4) by auto
  have "stray p' (i # remove1 i ns) j" if j: "stray p ns j" "j \<noteq> i" "j \<notin> set ns" for j
  proof -
    from stray_extract [OF j I(1) ist] have st: "stray (extractNode i p) (i # ns) j" .
    have "node_next p' x = node_next (extractNode i p) x \<and> node_prev p' x = node_prev (extractNode i p) x"
      if "x \<notin> set (i # ns)" for x using that nx by (metis list.set_intros notin_set_remove1 set_ConsD)
    with st j(2,3) strayD [OF st] f(3) sub show ?thesis
      unfolding stray_def by simp
  qed
  with p' f nd show ?thesis by blast
qed

lemma move_to_front:
  assumes inv: "pol_inv D p ns" and i: "map_of (lp_nodeMap p) name = Some i" "i \<notin> D"
  shows "\<exists>p'. setHead i (extractNode i p) = Some p' \<and> pol_inv D p' (i # remove1 i ns) \<and>
    lp_cfg p' = lp_cfg p \<and> lp_nodeMap p' = lp_nodeMap p \<and> lp_currMarker p' = lp_currMarker p \<and>
    lp_lastMarker p' = lp_lastMarker p \<and> lp_validateChan p' = lp_validateChan p \<and> lp_fresh p' = lp_fresh p \<and>
    (\<forall>j. node_name p' j = node_name p j \<and> ln_deleted (lp_nodes p' j) = ln_deleted (lp_nodes p j))"
proof -
  note I = pol_invD [OF inv]
  have ist: "i \<in> set ns \<or> stray p ns i" using I(11) [OF i(1)] i(2) by blast
  obtain xs ys zs where m: "remove1 i ns = xs @ lp_currMarker p # ys @ lp_lastMarker p # zs"
    using markers_remove1 [OF I(2) I(7,8) [OF i(1)]] by blast
  then have ne: "remove1 i ns \<noteq> []" by simp
  from extract_set_head [OF inv ist ne] obtain p' where p': "setHead i (extractNode i p) = Some p'" "linked p' (i # remove1 i ns)"
    and f: "lp_cfg p' = lp_cfg p" "lp_nodeMap p' = lp_nodeMap p" "lp_fresh p' = lp_fresh p"
      "lp_currMarker p' = lp_currMarker p" "lp_lastMarker p' = lp_lastMarker p" "lp_validateChan p' = lp_validateChan p"
    and nd: "\<forall>j. node_name p' j = node_name p j \<and> ln_deleted (lp_nodes p' j) = ln_deleted (lp_nodes p j)"
    and st: "\<forall>j. stray p ns j \<longrightarrow> j \<noteq> i \<longrightarrow> j \<notin> set ns \<longrightarrow> stray p' (i # remove1 i ns) j" by blast
  have "pol_inv D p' (i # remove1 i ns)"
  proof (rule pol_invI [OF p'(2)])
    show "markers_in p' (i # remove1 i ns)"
      unfolding markers_in_def using m f by (metis append_Cons)
    show "j < lp_fresh p'" if "j \<in> set (i # remove1 i ns)" for j
      using that I(3,5) i(1) f(3) set_remove1_subset [of i ns] by auto
    show "j < lp_fresh p' \<and> node_name p' j = nm \<and> j \<noteq> lp_currMarker p' \<and> j \<noteq> lp_lastMarker p' \<and> proper_name p' nm"
      if "map_of (lp_nodeMap p') nm = Some j" for nm j
      using that I(5-9) [of nm j] f nd by auto
    show "map_of (lp_nodeMap p') (node_name p' j) = Some j"
      if "j \<in> set (i # remove1 i ns)" "j \<noteq> lp_currMarker p'" "j \<noteq> lp_lastMarker p'" for j
      using that I(10) [of j] I(6) [OF i(1)] i(1) f nd set_remove1_subset [of i ns] by auto
    show "stray p' (i # remove1 i ns) j"
      if j: "map_of (lp_nodeMap p') nm = Some j" "j \<notin> set (i # remove1 i ns)" "j \<notin> D" for nm j
    proof -
      from j I(4) have "j \<noteq> i" "j \<notin> set ns" by auto
      with st I(11) j(1,3) f(2) show ?thesis by simp
    qed
    show "j \<notin> set (i # remove1 i ns) \<and> map_of (lp_nodeMap p') (node_name p' j) = Some j \<and> ln_deleted (lp_nodes p' j)"
      if "j \<in> D" for j
      using that I(12-14) [of j] i(2) f nd notin_set_remove1 [of j ns i] by auto
  qed
  with p'(1) f nd show ?thesis by blast
qed

section \<open>The list of entries\<close>

datatype lru_entry = CurrMark | LastMark | FileEntry string

definition label :: "lruPolicy \<Rightarrow> nat \<Rightarrow> lru_entry" where
  "label p i = (if i = lp_currMarker p then CurrMark else if i = lp_lastMarker p then LastMark
     else FileEntry (node_name p i))"

definition entries :: "lruPolicy \<Rightarrow> nat list \<Rightarrow> lru_entry list" where
  "entries p ns = map (label p) ns"

lemma markers_ne: "pol_inv D p ns \<Longrightarrow> lp_currMarker p \<noteq> lp_lastMarker p"
  using pol_invD(2,4) [of D p ns] by (auto simp: markers_in_def)

lemma label_eq:
  assumes "pol_inv D p ns" "i \<in> set ns" "map_of (lp_nodeMap p) name = Some j"
  shows "label p i = FileEntry name \<longleftrightarrow> i = j"
proof (cases "i = lp_currMarker p \<or> i = lp_lastMarker p")
  case True
  then show ?thesis using pol_invD(7,8) [OF assms(1,3)] by (auto simp: label_def)
next
  case False
  then have "map_of (lp_nodeMap p) (node_name p i) = Some i" using pol_invD(10) [OF assms(1,2)] by simp
  with False assms(3) pol_invD(6) [OF assms(1,3)] show ?thesis
    by (cases "node_name p i = name") (auto simp: label_def simp del: map_of_eq_Some_iff)
qed

lemma label_new:
  assumes "pol_inv D p ns" "i \<in> set ns" "map_of (lp_nodeMap p) name = None"
  shows "label p i \<noteq> FileEntry name"
  using pol_invD(10) [OF assms(1,2)] assms(3) by (auto simp: label_def)

lemma entries_remove1:
  assumes "pol_inv D p ns" "map_of (lp_nodeMap p) name = Some j"
  shows "map (label p) (remove1 j ns) = removeAll (FileEntry name) (entries p ns)"
proof -
  have "remove1 j ns = filter (\<lambda>i. label p i \<noteq> FileEntry name) ns"
    using label_eq [OF assms(1) _ assms(2)] pol_invD(4) [OF assms(1)]
    by (simp add: distinct_remove1_removeAll removeAll_filter_not_eq cong: filter_cong) (rule filter_cong, auto)
  then show ?thesis by (simp add: entries_def removeAll_filter_not_eq filter_map o_def) (simp add: eq_commute)
qed

lemma entries_cong:
  "lp_currMarker q = lp_currMarker p \<Longrightarrow> lp_lastMarker q = lp_lastMarker p \<Longrightarrow>
     (\<And>i. i \<in> set ns \<Longrightarrow> node_name q i = node_name p i) \<Longrightarrow> entries q ns = entries p ns"
  by (simp add: entries_def label_def)

section \<open>Hits\<close>

text \<open>A change of the counters of one node.\<close>

lemma pol_inv_mark:
  assumes "pol_inv D p ns" "i \<notin> D" "\<And>n. ln_next (f n) = ln_next n \<and> ln_prev (f n) = ln_prev n \<and> ln_name (f n) = ln_name n"
  shows "pol_inv D (upd_node i f p) ns"
proof (rule pol_invI)
  note I = pol_invD [OF assms(1)]
  show "linked (upd_node i f p) ns"
    using I(1) seg_cong [of ns "upd_node i f p" p] assms(3) by (auto simp: linked_def)
  show "markers_in (upd_node i f p) ns" using I(2) by (simp add: markers_in_def)
  show "stray (upd_node i f p) ns j" if "map_of (lp_nodeMap (upd_node i f p)) nm = Some j" "j \<notin> set ns" "j \<notin> D" for nm j
    using I(11) [of nm j] that assms(3) by (simp add: stray_def)
qed (use pol_invD [OF assms(1)] assms(2,3) in auto)

text \<open>A new cell for a name that is not in the map.\<close>

definition with_new :: "string \<Rightarrow> lruPolicy \<Rightarrow> lruPolicy" where
  "with_new name p = p\<lparr>lp_nodes := (lp_nodes p)(lp_fresh p := new_node 0 name), lp_fresh := Suc (lp_fresh p),
     lp_nodeMap := map_store name (lp_fresh p) (lp_nodeMap p)\<rparr>"

lemma with_new_simps [simp]:
  "lp_nodes (with_new name p) = (lp_nodes p)(lp_fresh p := new_node 0 name)"
  "lp_fresh (with_new name p) = Suc (lp_fresh p)" "lp_cfg (with_new name p) = lp_cfg p"
  "lp_nodeMap (with_new name p) = map_store name (lp_fresh p) (lp_nodeMap p)"
  "lp_head (with_new name p) = lp_head p" "lp_currMarker (with_new name p) = lp_currMarker p"
  "lp_lastMarker (with_new name p) = lp_lastMarker p" "lp_validateChan (with_new name p) = lp_validateChan p"
  by (simp_all add: with_new_def)

lemma marker_in_list: "markers_in p ns \<Longrightarrow> lp_currMarker p \<in> set ns \<and> lp_lastMarker p \<in> set ns"
  by (auto simp: markers_in_def)

lemma pol_inv_new:
  assumes inv: "pol_inv D p ns" and nm: "map_of (lp_nodeMap p) name = None" "proper_name p name"
  shows "pol_inv D (with_new name p) ns"
proof (rule pol_invI)
  note I = pol_invD [OF inv]
  have fr: "j \<in> set ns \<Longrightarrow> j \<noteq> lp_fresh p" for j using I(3) by blast
  show "linked (with_new name p) ns"
    using I(1) seg_cong [of ns "with_new name p" p] fr by (auto simp: linked_def)
  show "markers_in (with_new name p) ns" using I(2) by (simp add: markers_in_def)
  show "j < lp_fresh (with_new name p)" if "j \<in> set ns" for j using I(3) that by (simp add: less_Suc_eq)
  have mk: "lp_currMarker p < lp_fresh p" "lp_lastMarker p < lp_fresh p"
    using marker_in_list [OF I(2)] I(3) by auto
  show "j < lp_fresh (with_new name p) \<and> node_name (with_new name p) j = n2 \<and>
      j \<noteq> lp_currMarker (with_new name p) \<and> j \<noteq> lp_lastMarker (with_new name p) \<and> proper_name (with_new name p) n2"
    if "map_of (lp_nodeMap (with_new name p)) n2 = Some j" for n2 j
    using that I(5-9) [of n2 j] mk nm(2) by (auto simp: new_node_def less_Suc_eq split: if_splits)
  show "map_of (lp_nodeMap (with_new name p)) (node_name (with_new name p) j) = Some j"
    if "j \<in> set ns" "j \<noteq> lp_currMarker (with_new name p)" "j \<noteq> lp_lastMarker (with_new name p)" for j
    using that I(10) [of j] fr nm(1) by auto
  show "stray (with_new name p) ns j"
    if j: "map_of (lp_nodeMap (with_new name p)) n2 = Some j" "j \<notin> set ns" "j \<notin> D" for n2 j
  proof (cases "n2 = name")
    case True
    with j(1) have "j = lp_fresh p" by simp
    then show ?thesis by (simp add: stray_def new_node_def)
  next
    case False
    with j(1) have "map_of (lp_nodeMap p) n2 = Some j" by simp
    then have "stray p ns j" "j < lp_fresh p" using I(5,11) j(2,3) by simp_all
    from stray_cong [OF this(1) _ _ _ this(2) j(2)] show ?thesis by simp
  qed
  show "j \<notin> set ns \<and> map_of (lp_nodeMap (with_new name p)) (node_name (with_new name p) j) = Some j \<and>
      ln_deleted (lp_nodes (with_new name p) j)" if "j \<in> D" for j
  proof -
    have "j < lp_fresh p" "node_name p j \<noteq> name" using I(5) [OF I(13) [OF that]] I(13) [OF that] nm(1) by auto
    then show ?thesis using I(12-14) [OF that] by simp
  qed
qed

text \<open>
  A hit on a name: the file's entry is in front of the others, which keep their order. On a name that is
  not cached this makes a new entry or, without \<open>create\<close>, does nothing.
\<close>

lemma use_node:
  assumes inv: "pol_inv D p ns" and i: "map_of (lp_nodeMap p) name = Some i" "i \<notin> D"
  defines "p1 \<equiv> upd_node i (\<lambda>n. n\<lparr>ln_deleted := False, ln_usage := wrap64 (ln_usage n + 1)\<rparr>) p"
  shows "\<exists>p'. (if lp_head p1 = Some i then Some p1 else setHead i (extractNode i p1)) = Some p' \<and>
    pol_inv D p' (i # remove1 i ns) \<and>
    entries p' (i # remove1 i ns) = FileEntry name # removeAll (FileEntry name) (entries p ns) \<and>
    lp_cfg p' = lp_cfg p \<and> lp_nodeMap p' = lp_nodeMap p \<and> lp_validateChan p' = lp_validateChan p \<and>
    lp_fresh p' = lp_fresh p \<and>
    (\<forall>j. node_name p' j = node_name p j \<and> (j \<noteq> i \<longrightarrow> ln_deleted (lp_nodes p' j) = ln_deleted (lp_nodes p j)))"
proof -
  have inv1: "pol_inv D p1 ns" unfolding p1_def by (rule pol_inv_mark [OF inv i(2)]) simp
  have i1: "map_of (lp_nodeMap p1) name = Some i" using i(1) by (simp add: p1_def)
  have nm: "node_name p1 j = node_name p j" for j by (simp add: p1_def)
  have lab: "label p1 = label p" by (simp add: p1_def label_def fun_eq_iff)
  note I = pol_invD [OF inv1]
  have lab_i: "label p i = FileEntry name"
    using pol_invD(6-8) [OF inv i(1)] by (simp add: label_def)
  have ent: "entries q (i # remove1 i ns) = FileEntry name # removeAll (FileEntry name) (entries p ns)"
    if "lp_currMarker q = lp_currMarker p" "lp_lastMarker q = lp_lastMarker p" "\<And>j. node_name q j = node_name p j" for q
  proof -
    have "label q = label p" using that by (simp add: label_def fun_eq_iff)
    with lab_i entries_remove1 [OF inv i(1)] show ?thesis by (simp add: entries_def)
  qed
  show ?thesis
  proof (cases "lp_head p1 = Some i")
    case True
    then obtain t where "ns = i # t" using I(1) by (cases ns) (auto simp: linked_def)
    then have "i # remove1 i ns = ns" by simp
    with True inv1 ent [of p1] show ?thesis by (intro exI [of _ p1]) (simp add: p1_def)
  next
    case False
    from move_to_front [OF inv1 i1 i(2)] obtain p' where
      p': "setHead i (extractNode i p1) = Some p'" "pol_inv D p' (i # remove1 i ns)"
      "lp_cfg p' = lp_cfg p1" "lp_nodeMap p' = lp_nodeMap p1" "lp_currMarker p' = lp_currMarker p1"
      "lp_lastMarker p' = lp_lastMarker p1" "lp_validateChan p' = lp_validateChan p1" "lp_fresh p' = lp_fresh p1"
      "\<forall>j. node_name p' j = node_name p1 j \<and> ln_deleted (lp_nodes p' j) = ln_deleted (lp_nodes p1 j)" by blast
    with False ent [of p'] show ?thesis by (intro exI [of _ p']) (simp add: p1_def)
  qed
qed

lemma cacheValidate_found:
  "map_of (lp_nodeMap p) name = Some i \<Longrightarrow> cacheValidate name create p =
     (let p1 = upd_node i (\<lambda>n. n\<lparr>ln_deleted := False, ln_usage := wrap64 (ln_usage n + 1)\<rparr>) p
      in if lp_head p1 = Some i then Some p1 else setHead i (extractNode i p1))"
  by (simp add: cacheValidate_def Let_def)

lemma cacheValidate_new:
  "map_of (lp_nodeMap p) name = None \<Longrightarrow> cacheValidate name True p = cacheValidate name True (with_new name p)"
  by (simp add: cacheValidate_def Let_def with_new_def)

lemma cacheValidate_absent:
  "map_of (lp_nodeMap p) name = None \<Longrightarrow> cacheValidate name False p = Some p"
  by (simp add: cacheValidate_def Let_def)

lemma cacheValidate_result:
  assumes inv: "pol_inv D p ns" and nm: "proper_name p name" "\<forall>i. map_of (lp_nodeMap p) name = Some i \<longrightarrow> i \<notin> D"
    and c: "create \<or> map_of (lp_nodeMap p) name \<noteq> None"
  shows "\<exists>p' ns'. cacheValidate name create p = Some p' \<and> pol_inv D p' ns' \<and>
    entries p' ns' = FileEntry name # removeAll (FileEntry name) (entries p ns) \<and>
    lp_cfg p' = lp_cfg p \<and> lp_validateChan p' = lp_validateChan p \<and>
    (\<forall>j < lp_fresh p. node_name p' j = node_name p j) \<and>
    dom (map_of (lp_nodeMap p')) = insert name (dom (map_of (lp_nodeMap p)))"
proof (cases "map_of (lp_nodeMap p) name")
  case (Some j)
  with nm(2) have "j \<notin> D" by simp
  from use_node [OF inv Some this] show ?thesis
    unfolding cacheValidate_found [OF Some] Let_def using Some by (fastforce simp: dom_def)
next
  case None
  with c have cr: "create" by simp
  let ?p = "with_new name p"
  have inv': "pol_inv D ?p ns" by (rule pol_inv_new [OF inv None nm(1)])
  have m: "map_of (lp_nodeMap ?p) name = Some (lp_fresh p)" by simp
  have nD: "lp_fresh p \<notin> D"
    using pol_invD(5,13) [OF inv] by (metis less_irrefl)
  have "entries ?p ns = entries p ns"
    using pol_invD(3) [OF inv] by (intro entries_cong) auto
  moreover obtain p' where
    "(let p1 = upd_node (lp_fresh p) (\<lambda>n. n\<lparr>ln_deleted := False, ln_usage := wrap64 (ln_usage n + 1)\<rparr>) ?p
      in if lp_head p1 = Some (lp_fresh p) then Some p1 else setHead (lp_fresh p) (extractNode (lp_fresh p) p1)) = Some p'"
    "pol_inv D p' (lp_fresh p # remove1 (lp_fresh p) ns)"
    "entries p' (lp_fresh p # remove1 (lp_fresh p) ns) = FileEntry name # removeAll (FileEntry name) (entries ?p ns)"
    "lp_cfg p' = lp_cfg ?p" "lp_nodeMap p' = lp_nodeMap ?p" "lp_validateChan p' = lp_validateChan ?p"
    "\<forall>j. node_name p' j = node_name ?p j"
    using use_node [OF inv' m nD] unfolding Let_def by blast
  moreover from this(1) have "cacheValidate name create p = Some p'"
    using cacheValidate_new [OF None] cacheValidate_found [OF m] cr by simp
  ultimately show ?thesis
    by (intro exI [of _ p'] exI [of _ "lp_fresh p # remove1 (lp_fresh p) ns"]) simp
qed

section \<open>Removal and the markers\<close>

lemma stray_subset: "stray p ns i \<Longrightarrow> set ns' \<subseteq> set ns \<Longrightarrow> stray p ns' i"
  unfolding stray_def by blast

lemma removeNode_result:
  assumes inv: "pol_inv D p ns" and nD: "\<And>i. map_of (lp_nodeMap p) name = Some i \<Longrightarrow> i \<notin> D"
  shows "\<exists>ns'. pol_inv D (removeNode name p) ns' \<and>
    entries (removeNode name p) ns' = removeAll (FileEntry name) (entries p ns) \<and>
    lp_cfg (removeNode name p) = lp_cfg p \<and> lp_validateChan (removeNode name p) = lp_validateChan p \<and>
    map_of (lp_nodeMap (removeNode name p)) = (map_of (lp_nodeMap p))(name := None)"
proof (cases "map_of (lp_nodeMap p) name")
  case None
  moreover have "FileEntry name \<notin> set (entries p ns)"
  proof
    assume "FileEntry name \<in> set (entries p ns)"
    then obtain i where "i \<in> set ns" "label p i = FileEntry name" by (auto simp: entries_def)
    with label_new [OF inv _ None] show False by blast
  qed
  ultimately show ?thesis using inv by (auto simp: removeNode_def removeAll_id intro!: exI [of _ ns])
next
  case (Some i)
  note I = pol_invD [OF inv]
  let ?m = "\<lambda>p. upd_node i (\<lambda>n. n\<lparr>ln_deleted := True\<rparr>) p"
  let ?q = "?m p"
  let ?p = "removeNode name p"
  have q: "pol_inv D ?q ns" by (rule pol_inv_mark [OF inv nD [OF Some]]) simp
  have ist: "i \<in> set ns \<or> stray ?q ns i" using pol_invD(11) [OF q, of name i] nD [OF Some] Some by auto
  have p: "?p = (extractNode i ?q)\<lparr>lp_nodeMap := map_remove name (lp_nodeMap p)\<rparr>"
    using Some by (simp add: removeNode_def extractNode_def Let_def upd_node_def split: option.split)
  have lab: "label ?p = label p" by (auto simp: p label_def fun_eq_iff)
  note Q = pol_invD [OF q]
  have nodes: "lp_nodes ?p = lp_nodes (extractNode i ?q)" by (simp add: p)
  obtain xs ys zs where m: "remove1 i ns = xs @ lp_currMarker p # ys @ lp_lastMarker p # zs"
    using markers_remove1 [OF I(2) I(7,8) [OF Some]] by blast
  have "pol_inv D ?p (remove1 i ns)"
  proof (rule pol_invI)
    show "linked ?p (remove1 i ns)"
      using extract_any [OF Q(1) ist] seg_cong [of "remove1 i ns" ?p "extractNode i ?q"] nodes
      by (simp add: linked_def p)
    show "markers_in ?p (remove1 i ns)" using m by (auto simp: markers_in_def p)
    show "j < lp_fresh ?p" if "j \<in> set (remove1 i ns)" for j
      using that I(3) set_remove1_subset [of i ns] by (auto simp: p)
    show "j < lp_fresh ?p \<and> node_name ?p j = n2 \<and> j \<noteq> lp_currMarker ?p \<and> j \<noteq> lp_lastMarker ?p \<and> proper_name ?p n2"
      if "map_of (lp_nodeMap ?p) n2 = Some j" for n2 j
      using that I(5-9) [of n2 j] by (auto simp: p split: if_splits)
    show "map_of (lp_nodeMap ?p) (node_name ?p j) = Some j"
      if "j \<in> set (remove1 i ns)" "j \<noteq> lp_currMarker ?p" "j \<noteq> lp_lastMarker ?p" for j
      using that I(10) [of j] I(4) Some set_remove1_subset [of i ns] by (auto simp: p)
    show "stray ?p (remove1 i ns) j" if j: "map_of (lp_nodeMap ?p) n2 = Some j" "j \<notin> set (remove1 i ns)" "j \<notin> D" for n2 j
    proof -
      have "map_of (lp_nodeMap p) n2 = Some j" "n2 \<noteq> name" using j(1) by (auto simp: p split: if_splits)
      then have ji: "j \<noteq> i" "map_of (lp_nodeMap ?q) n2 = Some j" using I(6) Some by auto
      then have jn: "j \<notin> set ns" using j(2) by simp
      have "stray ?q ns j" using Q(11) [OF ji(2) jn] j(3) by simp
      from stray_extract [OF this ji(1) jn Q(1) ist] have "stray (extractNode i ?q) (i # ns) j" .
      from stray_subset [OF this, of "remove1 i ns"] set_remove1_subset [of i ns] show ?thesis
        unfolding stray_def nodes by (auto simp: p)
    qed
    show "j \<notin> set (remove1 i ns) \<and> map_of (lp_nodeMap ?p) (node_name ?p j) = Some j \<and> ln_deleted (lp_nodes ?p j)"
      if "j \<in> D" for j
    proof -
      have mj: "map_of (lp_nodeMap p) (node_name p j) = Some j" "j \<noteq> i" using I(13) [OF that] nD [OF Some] that by auto
      then have "node_name p j \<noteq> name" using Some by auto
      with mj Q(12,14) [OF that] show ?thesis using set_remove1_subset [of i ns] by (auto simp: p)
    qed
  qed
  moreover have "entries ?p (remove1 i ns) = removeAll (FileEntry name) (entries p ns)"
    using entries_remove1 [OF inv Some] by (simp add: entries_def lab)
  ultimately show ?thesis by (intro exI [of _ "remove1 i ns"]) (simp add: p)
qed

fun aged :: "lru_entry \<Rightarrow> lru_entry" where
  "aged CurrMark = LastMark"
| "aged e = e"

lemma updateMarker_result:
  assumes inv: "pol_inv D p ns"
  shows "\<exists>p' ns'. updateMarker p = Some p' \<and> pol_inv D p' ns' \<and>
    entries p' ns' = CurrMark # map aged (removeAll LastMark (entries p ns)) \<and>
    lp_cfg p' = lp_cfg p \<and> lp_validateChan p' = lp_validateChan p \<and> lp_nodeMap p' = lp_nodeMap p"
proof -
  note I = pol_invD [OF inv]
  let ?l = "lp_lastMarker p" and ?c = "lp_currMarker p"
  obtain xs ys zs where ns: "ns = xs @ ?c # ys @ ?l # zs" using I(2) by (auto simp: markers_in_def)
  have r: "remove1 ?l ns = xs @ ?c # ys @ zs"
    using I(4) remove1_split [of "xs @ ?c # ys" ?l zs] by (simp add: ns)
  from extract_set_head [OF inv, of ?l] r ns obtain p1 where
    p1: "setHead ?l (extractNode ?l p) = Some p1" "linked p1 (?l # remove1 ?l ns)"
    and f: "lp_cfg p1 = lp_cfg p" "lp_nodeMap p1 = lp_nodeMap p" "lp_fresh p1 = lp_fresh p"
      "lp_currMarker p1 = ?c" "lp_lastMarker p1 = ?l" "lp_validateChan p1 = lp_validateChan p"
    and nd: "\<forall>j. node_name p1 j = node_name p j \<and> ln_deleted (lp_nodes p1 j) = ln_deleted (lp_nodes p j)"
    and st: "\<forall>j. stray p ns j \<longrightarrow> j \<noteq> ?l \<longrightarrow> j \<notin> set ns \<longrightarrow> stray p1 (?l # remove1 ?l ns) j" by auto
  let ?p = "p1\<lparr>lp_lastMarker := ?c, lp_currMarker := ?l\<rparr>" and ?ns = "?l # remove1 ?l ns"
  have sub: "set ?ns = set ns" using ns r by auto
  have "pol_inv D ?p ?ns"
  proof (rule pol_invI)
    have "linked ?p ?ns = linked p1 ?ns" unfolding linked_def by (subst seg_cong [of ?ns ?p p1]) auto
    with p1(2) show "linked ?p ?ns" by simp
    show "markers_in ?p ?ns" unfolding markers_in_def r by (simp, rule exI [of _ "[]"]) auto
    show "j < lp_fresh ?p" if "j \<in> set ?ns" for j using that I(3) unfolding sub by (simp add: f)
    show "j < lp_fresh ?p \<and> node_name ?p j = nm \<and> j \<noteq> lp_currMarker ?p \<and> j \<noteq> lp_lastMarker ?p \<and> proper_name ?p nm"
      if "map_of (lp_nodeMap ?p) nm = Some j" for nm j
      using that I(5-9) [of nm j] f nd by auto
    show "map_of (lp_nodeMap ?p) (node_name ?p j) = Some j"
      if "j \<in> set ?ns" "j \<noteq> lp_currMarker ?p" "j \<noteq> lp_lastMarker ?p" for j
      using that I(10) [of j] f nd unfolding sub by auto
    show "stray ?p ?ns j" if j: "map_of (lp_nodeMap ?p) nm = Some j" "j \<notin> set ?ns" "j \<notin> D" for nm j
    proof -
      from j f have m: "map_of (lp_nodeMap p) nm = Some j" "j \<notin> set ns" unfolding sub by auto
      with I(8,11) j(3) st have "stray p1 ?ns j" by blast
      moreover have "stray ?p ?ns j = stray p1 ?ns j" unfolding stray_def by simp
      ultimately show ?thesis by simp
    qed
    show "j \<notin> set ?ns \<and> map_of (lp_nodeMap ?p) (node_name ?p j) = Some j \<and> ln_deleted (lp_nodes ?p j)"
      if "j \<in> D" for j using that I(12-14) [of j] f nd unfolding sub by auto
  qed
  moreover have "updateMarker p = Some ?p" using p1(1) f by (simp add: updateMarker_def)
  moreover have "entries ?p ?ns = CurrMark # map aged (removeAll LastMark (entries p ns))"
  proof -
    have ne: "?c \<noteq> ?l" by (rule markers_ne [OF inv])
    have d: "?c \<notin> set xs \<union> set ys \<union> set zs" "?l \<notin> set xs \<union> set ys \<union> set zs" using I(4) ns by auto
    have lab: "label p j = FileEntry (node_name p j)" "label ?p j = FileEntry (node_name p j)"
      if "j \<notin> {?c, ?l}" for j using that nd by (auto simp: label_def)
    have part: "map (label ?p) ws = map aged (removeAll LastMark (map (label p) ws))" if "set ws \<inter> {?c, ?l} = {}" for ws
      using that by (induction ws) (auto simp: lab)
    have "label ?p ?l = CurrMark" "label ?p ?c = LastMark" "label p ?c = CurrMark" "label p ?l = LastMark"
      using ne by (simp_all add: label_def)
    with part [of xs] part [of ys] part [of zs] d show ?thesis by (simp add: entries_def ns r [unfolded ns])
  qed
  ultimately show ?thesis using f by (intro exI [of _ ?p] exI [of _ ?ns]) simp
qed

section \<open>Eviction\<close>

definition mark_all :: "nat list \<Rightarrow> lruPolicy \<Rightarrow> lruPolicy" where
  "mark_all ds p = fold (\<lambda>i. upd_node i (\<lambda>n. n\<lparr>ln_deleted := True\<rparr>)) ds p"

lemma mark_all_Cons [simp]:
  "mark_all [] p = p" "mark_all (i # ds) p = mark_all ds (upd_node i (\<lambda>n. n\<lparr>ln_deleted := True\<rparr>) p)"
  by (simp_all add: mark_all_def)

lemma mark_all_simps [simp]:
  "lp_cfg (mark_all ds p) = lp_cfg p" "lp_nodeMap (mark_all ds p) = lp_nodeMap p" "lp_fresh (mark_all ds p) = lp_fresh p"
  "lp_head (mark_all ds p) = lp_head p" "lp_currMarker (mark_all ds p) = lp_currMarker p"
  "lp_lastMarker (mark_all ds p) = lp_lastMarker p" "lp_validateChan (mark_all ds p) = lp_validateChan p"
  by (induction ds arbitrary: p) simp_all

lemma mark_all_nodes [simp]:
  "node_next (mark_all ds p) j = node_next p j" "node_prev (mark_all ds p) j = node_prev p j"
  "node_name (mark_all ds p) j = node_name p j"
  "ln_deleted (lp_nodes (mark_all ds p) j) = (j \<in> set ds \<or> ln_deleted (lp_nodes p j))"
  by (induction ds arbitrary: p) auto

abbreviation awaits_sync :: "lruPolicy \<Rightarrow> nat \<Rightarrow> bool" where
  "awaits_sync p i \<equiv> sync_pending p (the (expire_name p i))"

text \<open>
  The walk over the nodes behind the last marker: it stops after \<open>maxEviction\<close> nodes are collected, and
  collects those it passes that have no operation pending.
\<close>

definition collected :: "lruPolicy \<Rightarrow> int \<Rightarrow> nat list \<Rightarrow> nat list \<Rightarrow> nat list \<Rightarrow> nat list \<Rightarrow> bool" where
  "collected p count zs ds ex rest \<longleftrightarrow> zs = ex @ rest \<and> ds = filter (\<lambda>i. \<not> awaits_sync p i) ex \<and>
     (rest \<noteq> [] \<longrightarrow> pc_maxEviction (lp_cfg p) \<le> count + int (length ds)) \<and>
     (rest \<noteq> [] \<longrightarrow> ex \<noteq> [] \<longrightarrow> last ex \<in> set ds) \<and>
     count + int (length ds) \<le> max count (pc_maxEviction (lp_cfg p))"

lemma expire_walk_collects:
  "seg p prv zs None \<Longrightarrow> distinct zs \<Longrightarrow> \<forall>i \<in> set zs. expire_name p i \<noteq> None \<Longrightarrow>
     \<exists>ds ex rest. expire_walk p (first_of zs None) count = Some (ds, first_of rest None, mark_all ds p) \<and>
       collected p count zs ds ex rest"
proof (induction zs arbitrary: p prv count)
  case Nil
  have "collected p count [] [] [] []" by (simp add: collected_def)
  moreover have "expire_walk p (first_of [] None) count = Some ([], first_of [] None, mark_all [] p)"
    by (subst expire_walk.simps) simp
  ultimately show ?case by blast
next
  case (Cons i zs)
  have nx: "node_next p i = first_of zs None" and sg: "seg p (Some i) zs None" and d: "distinct zs" "i \<notin> set zs"
    using Cons.prems(1,2) by (simp_all add: first_of_def)
  obtain obj where obj: "expire_name p i = Some obj" using Cons.prems(3) by auto
  show ?case
  proof (cases "count \<ge> pc_maxEviction (lp_cfg p)")
    case True
    then have "expire_walk p (first_of (i # zs) None) count = Some ([], first_of (i # zs) None, mark_all [] p)"
      by (subst expire_walk.simps) simp
    moreover have "collected p count (i # zs) [] [] (i # zs)" using True by (simp add: collected_def)
    ultimately show ?thesis by blast
  next
    case more: False
    show ?thesis
    proof (cases "sync_pending p obj")
      case True
      from Cons.IH [OF sg d(1)] Cons.prems(3) obtain ds ex rest where
        w: "expire_walk p (first_of zs None) count = Some (ds, first_of rest None, mark_all ds p)"
        "collected p count zs ds ex rest" by (metis list.set_intros(2))
      from w(1) have "expire_walk p (first_of (i # zs) None) count = Some (ds, first_of rest None, mark_all ds p)"
        using more obj True nx by (subst expire_walk.simps) simp
      moreover have "collected p count (i # zs) ds (i # ex) rest"
        using w(2) obj True more unfolding collected_def by (cases ex) auto
      ultimately show ?thesis by blast
    next
      case False
      let ?p = "upd_node i (\<lambda>n. n\<lparr>ln_deleted := True\<rparr>) p"
      have en: "expire_name ?p j = expire_name p j" for j by (simp add: expire_name_def)
      have "seg ?p (Some i) zs None" using sg d(2) by (subst seg_cong [of zs ?p p]) auto
      from Cons.IH [OF this d(1)] Cons.prems(3) en obtain ds ex rest where
        w: "expire_walk ?p (first_of zs None) (count + 1) = Some (ds, first_of rest None, mark_all ds ?p)"
        "collected ?p (count + 1) zs ds ex rest" by (metis list.set_intros(2))
      from w(1) have "expire_walk p (first_of (i # zs) None) count = Some (i # ds, first_of rest None, mark_all (i # ds) p)"
        using more obj False nx by (subst expire_walk.simps) simp
      moreover have "collected p count (i # zs) (i # ds) (i # ex) rest"
        using w(2) obj False more unfolding collected_def en by (cases ex) auto
      ultimately show ?thesis by blast
    qed
  qed
qed

text \<open>The list before the last marker, and what lies behind it.\<close>

definition behind :: "lruPolicy \<Rightarrow> nat list \<Rightarrow> nat list \<Rightarrow> nat list \<Rightarrow> bool" where
  "behind p ns xs zs \<longleftrightarrow> ns = xs @ lp_lastMarker p # zs \<and> lp_currMarker p \<in> set xs"

lemma behind_ex: "pol_inv D p ns \<Longrightarrow> \<exists>xs zs. behind p ns xs zs"
proof -
  assume "pol_inv D p ns"
  then obtain xs ys zs where "ns = xs @ lp_currMarker p # ys @ lp_lastMarker p # zs"
    using pol_invD(2) by (force simp: markers_in_def)
  then have "behind p ns (xs @ lp_currMarker p # ys) zs" by (simp add: behind_def)
  then show ?thesis by blast
qed

lemma behind_markers: "behind p ns xs zs \<Longrightarrow> lp_currMarker q = lp_currMarker p \<Longrightarrow>
    lp_lastMarker q = lp_lastMarker p \<Longrightarrow> markers_in q (xs @ lp_lastMarker p # rest)"
  unfolding behind_def markers_in_def by (metis append_Cons append_assoc split_list)

lemma expire_name_proper: "proper_name p (node_name p i) \<Longrightarrow> expire_name p i \<noteq> None"
  by (auto simp: expire_name_def NormalizeObjectName_def replace_char_def split: list.split)

lemma collect_expired_result:
  assumes inv: "pol_inv {} p ns" and b: "behind p ns xs zs"
  shows "\<exists>ds ex rest p'. collect_expired p = Some (ds, p') \<and> collected p 0 zs ds ex rest \<and>
    pol_inv (set ds) p' (xs @ lp_lastMarker p # rest) \<and> lp_cfg p' = lp_cfg p \<and> lp_nodeMap p' = lp_nodeMap p \<and>
    lp_validateChan p' = lp_validateChan p \<and> lp_currMarker p' = lp_currMarker p \<and>
    lp_lastMarker p' = lp_lastMarker p \<and> (\<forall>j. node_name p' j = node_name p j)"
proof (cases zs)
  case Nil
  note I = pol_invD [OF inv]
  have ns: "ns = xs @ lp_lastMarker p # []" using b Nil by (simp add: behind_def)
  have "node_next p (lp_lastMarker p) = None"
    using I(1) seg_ends [of p None xs _ "[]" None] ns by (simp add: linked_def)
  then have "collect_expired p = Some ([], p)" by (simp add: collect_expired_def)
  moreover have "collected p 0 zs [] [] []" using Nil by (simp add: collected_def)
  moreover have "pol_inv (set []) p (xs @ lp_lastMarker p # [])" using inv ns by simp
  ultimately show ?thesis by blast
next
  case (Cons z zt)
  note I = pol_invD [OF inv]
  let ?l = "lp_lastMarker p"
  have ns: "ns = xs @ ?l # zs" using b by (simp add: behind_def)
  have sp: "seg p None xs (Some ?l)" "seg p (Some ?l) zs None" "node_next p ?l = Some z"
    "node_prev p ?l = last_of None xs"
    using I(1) ns Cons by (auto simp: linked_def seg_append)
  have d: "distinct xs" "distinct zs" "set xs \<inter> set zs = {}" "?l \<notin> set xs" "?l \<notin> set zs" using I(4) ns by auto
  have nm: "expire_name q i \<noteq> None"
    if "i \<in> set zs" "lp_cfg q = lp_cfg p" "node_name q i = node_name p i" for i q
  proof -
    have "i \<noteq> lp_currMarker p" using b that(1) d by (auto simp: behind_def)
    then have "map_of (lp_nodeMap p) (node_name p i) = Some i" using I(10) that(1) d ns by auto
    from I(9) [OF this] that show ?thesis by (intro expire_name_proper) simp
  qed
  let ?p1 = "upd_node z (\<lambda>n. n\<lparr>ln_prev := None\<rparr>) (upd_node ?l (\<lambda>n. n\<lparr>ln_next := None\<rparr>) p)"
  have "seg ?p1 None zs None" by (rule seg_change_prev [OF sp(2) d(2)]) (use Cons d in auto)
  moreover have "expire_name ?p1 i = expire_name p i" for i by (auto simp: expire_name_def)
  ultimately obtain ds ex rest where
    w: "expire_walk ?p1 (Some z) 0 = Some (ds, first_of rest None, mark_all ds ?p1)"
    and col: "collected p 0 zs ds ex rest"
    using expire_walk_collects [of ?p1 None zs 0] nm d(2) Cons by (fastforce simp: collected_def)
  let ?p2 = "mark_all ds ?p1"
  let ?p3 = "upd_node ?l (\<lambda>n. n\<lparr>ln_next := first_of rest None\<rparr>) ?p2"
  define q where "q = (case first_of rest None of Some j \<Rightarrow> upd_node j (\<lambda>n. n\<lparr>ln_prev := Some ?l\<rparr>) ?p3 | None \<Rightarrow> ?p3)"
  have ce: "collect_expired p = Some (ds, q)" using w sp(3) by (simp add: collect_expired_def q_def Let_def)
  have zs: "zs = ex @ rest" and dsx: "set ds \<subseteq> set ex" using col by (auto simp: collected_def)
  have zin: "z \<in> set zs" using Cons by simp
  have rz: "set rest \<subseteq> set zs" by (simp add: zs)
  have fr: "first_of rest None \<noteq> Some ?l" using zs d(5) first_of_in [of rest] by auto
  have zl: "z \<noteq> ?l" using Cons d(5) by auto
  have frame: "lp_cfg q = lp_cfg p" "lp_nodeMap q = lp_nodeMap p" "lp_fresh q = lp_fresh p" "lp_head q = lp_head p"
    "lp_currMarker q = lp_currMarker p" "lp_lastMarker q = ?l" "lp_validateChan q = lp_validateChan p"
    by (simp_all add: q_def split: option.split)
  have nx: "node_next q j = (if j = ?l then first_of rest None else node_next p j)" for j
    using zl by (simp add: q_def split: option.split)
  have pv: "node_prev q j = (if first_of rest None = Some j then Some ?l else if j = z then None else node_prev p j)" for j
    using zl fr by (auto simp: q_def split: option.split)
  have nmq: "node_name q j = node_name p j" for j using zl by (simp add: q_def split: option.split)
  have dl: "ln_deleted (lp_nodes q j) = (j \<in> set ds \<or> ln_deleted (lp_nodes p j))" for j
    using zl by (simp add: q_def split: option.split)
  let ?ns = "xs @ ?l # rest"
  have sub: "set ?ns \<subseteq> set ns" using ns zs by auto
  have lk: "linked q ?ns"
  proof -
    have lr: "first_of rest None \<noteq> Some j" "j \<noteq> z" if "j \<in> insert ?l (set xs)" for j
      using that d zin rz first_of_in [of rest j] by (auto simp del: distinct_append)
    have sx: "seg q None xs (Some ?l)"
      using sp(1) lr d(4) by (subst seg_cong [of xs q p]) (auto simp: nx pv)
    have "seg p (last_of (Some ?l) ex) rest None" using sp(2) zs by (simp add: seg_append)
    moreover have "rest \<noteq> [] \<and> hd rest = z" if "z \<in> set rest"
      using that d(2) zs Cons by (cases ex) auto
    ultimately have "seg q (Some ?l) rest None"
      using d zs by (elim seg_change_prev) (auto simp: nx pv first_of_def)
    moreover have "node_prev q ?l = last_of None xs" using sp(4) fr zl by (simp add: pv)
    ultimately show ?thesis
      using sx I(1) d zs ns by (cases xs) (auto simp: linked_def seg_append nx first_of_def frame)
  qed
  have "pol_inv (set ds) q ?ns"
  proof (rule pol_invI [OF lk])
    show "markers_in q ?ns" using behind_markers [OF b, of q rest] frame by simp
    show "j < lp_fresh q" if "j \<in> set ?ns" for j using I(3) that sub frame by auto
    show "j < lp_fresh q \<and> node_name q j = n2 \<and> j \<noteq> lp_currMarker q \<and> j \<noteq> lp_lastMarker q \<and> proper_name q n2"
      if "map_of (lp_nodeMap q) n2 = Some j" for n2 j using that I(5-9) [of n2 j] by (simp add: frame nmq)
    show "map_of (lp_nodeMap q) (node_name q j) = Some j"
      if "j \<in> set ?ns" "j \<noteq> lp_currMarker q" "j \<noteq> lp_lastMarker q" for j
      using that I(10) [of j] sub unfolding frame nmq by blast
    show "stray q ?ns j" if j: "map_of (lp_nodeMap q) n2 = Some j" "j \<notin> set ?ns" "j \<notin> set ds" for n2 j
    proof (cases "j \<in> set ns")
      case False
      then have st: "stray p ns j" using I(11) [of n2 j] j(1) frame by simp
      have out: "x \<noteq> z \<and> first_of rest None \<noteq> Some x \<and> x \<noteq> ?l" if "x \<notin> set ns" for x
        using that ns zin rz first_of_in [of rest x] by auto
      show ?thesis
        unfolding stray_def
        using strayD [OF st] out sub j(2) False by (auto simp: nx pv frame)
    next
      case True
      then obtain e1 e2 where e: "ex = e1 @ j # e2" using j(2) ns zs by (auto dest: split_list)
      have sj: "node_prev p j = last_of (Some ?l) e1" "node_next p j = first_of (e2 @ rest) None"
        using sp(2) seg_ends [of p "Some ?l" e1 j "e2 @ rest" None] zs e by simp_all
      have jl: "j \<noteq> ?l" "first_of rest None \<noteq> Some j" using j(2) first_of_in [of rest j] by auto
      have e2: "rest \<noteq> [] \<longrightarrow> e2 \<noteq> []" using col j(3) e by (auto simp: collected_def)
      show ?thesis
        unfolding stray_def
      proof (intro conjI allI impI)
        fix x assume "node_next q j = Some x"
        with sj(2) jl(1) have "first_of (e2 @ rest) None = Some x" by (simp add: nx)
        with e2 obtain e3 where e3: "e2 = x # e3" by (cases e2) auto
        have "node_prev p x = Some j"
          using sp(2) zs e e3 by (simp add: seg_append)
        moreover have "x \<noteq> z" using Cons d(2) zs e e3 by (cases e1) auto
        moreover have "first_of rest None \<noteq> Some x" using d(2) zs e e3 first_of_in [of rest x] by auto
        ultimately show "node_prev q x = Some j" by (simp add: pv)
        have "x \<in> set ex" using e e3 by simp
        then show "x \<notin> set ?ns" "x < lp_fresh q" using d zs ns I(3) [of x] frame by auto
      next
        fix y assume y: "node_prev q j = Some y"
        with jl have jz: "j \<noteq> z" "node_prev p j = Some y" by (simp_all add: pv split: if_splits)
        have "e1 \<noteq> []" using jz(1) Cons zs e by (cases e1) auto
        then obtain e0 w where e0: "e1 = e0 @ [w]" by (metis rev_exhaust)
        with sj(1) jz(2) have w: "w = y" by simp
        have "node_next p y = Some j" using sp(2) zs e e0 w by (simp add: seg_append)
        moreover have "y \<in> set ex" using e e0 w by simp
        ultimately show "node_next q y = Some j" "y \<notin> set ?ns" "y < lp_fresh q"
          using d zs ns I(3) [of y] frame by (auto simp: nx)
      qed
    qed
    show "j \<notin> set ?ns \<and> map_of (lp_nodeMap q) (node_name q j) = Some j \<and> ln_deleted (lp_nodes q j)"
      if "j \<in> set ds" for j
    proof -
      have "j \<in> set ex" using that dsx by auto
      then have "j \<in> set ns" "j \<notin> set ?ns" "j \<noteq> lp_currMarker p" "j \<noteq> ?l"
        using d zs ns b by (auto simp: behind_def)
      with I(10) that show ?thesis by (simp add: frame nmq dl)
    qed
  qed
  with ce col frame nmq show ?thesis by blast
qed

text \<open>Deleting the collected nodes: the list only grows, by the files that turn out to be in use.\<close>

lemma pol_inv_frame:
  assumes inv: "pol_inv D p ns"
    and f: "lp_nodes q = lp_nodes p" "lp_nodeMap q = lp_nodeMap p" "lp_head q = lp_head p" "lp_fresh q = lp_fresh p"
      "lp_currMarker q = lp_currMarker p" "lp_lastMarker q = lp_lastMarker p"
      "pc_tmpPath (lp_cfg q) = pc_tmpPath (lp_cfg p)"
  shows "pol_inv D q ns"
proof -
  have sq: "seg q prv xs nxt = seg p prv xs nxt" for prv xs nxt by (rule seg_cong) (simp add: f)
  have "pol_inv D q ns = pol_inv D p ns"
    by (simp only: pol_inv_def linked_def markers_in_def stray_def f sq)
  with inv show ?thesis by simp
qed

lemma pol_inv_unmap:
  assumes inv: "pol_inv (insert i D) p ns" and i: "i \<notin> D"
  shows "pol_inv D (p\<lparr>lp_nodeMap := map_remove (node_name p i) (lp_nodeMap p)\<rparr>) ns" (is "pol_inv D ?q ns")
proof (rule pol_invI)
  note I = pol_invD [OF inv]
  have m: "map_of (lp_nodeMap p) (node_name p i) = Some i" and ni: "i \<notin> set ns" using I(12,13) [of i] by auto
  have "seg ?q prv xs nxt = seg p prv xs nxt" for prv xs nxt by (rule seg_cong) simp
  with I(1) show "linked ?q ns" by (simp add: linked_def)
  show "markers_in ?q ns" using I(2) by (simp add: markers_in_def)
  show "j < lp_fresh ?q" if "j \<in> set ns" for j using I(3) that by simp
  show "j < lp_fresh ?q \<and> node_name ?q j = n2 \<and> j \<noteq> lp_currMarker ?q \<and> j \<noteq> lp_lastMarker ?q \<and> proper_name ?q n2"
    if "map_of (lp_nodeMap ?q) n2 = Some j" for n2 j
    using that I(5-9) [of n2 j] by (auto split: if_splits)
  show "map_of (lp_nodeMap ?q) (node_name ?q j) = Some j"
    if "j \<in> set ns" "j \<noteq> lp_currMarker ?q" "j \<noteq> lp_lastMarker ?q" for j
  proof -
    have mj: "map_of (lp_nodeMap p) (node_name p j) = Some j" "j \<noteq> i" using that I(10) [of j] ni by auto
    then have "node_name p j \<noteq> node_name p i" using m by auto
    with mj(1) show ?thesis by simp
  qed
  show "stray ?q ns j" if j: "map_of (lp_nodeMap ?q) n2 = Some j" "j \<notin> set ns" "j \<notin> D" for n2 j
  proof -
    have mj: "map_of (lp_nodeMap p) n2 = Some j" "n2 \<noteq> node_name p i" using j(1) by (simp_all split: if_splits)
    have "j \<noteq> i" using I(6) [OF mj(1)] mj(2) by auto
    with I(11) [OF mj(1) j(2)] j(3) have "stray p ns j" by simp
    then show ?thesis by (simp add: stray_def)
  qed
  show "j \<notin> set ns \<and> map_of (lp_nodeMap ?q) (node_name ?q j) = Some j \<and> ln_deleted (lp_nodes ?q j)" if "j \<in> D" for j
  proof -
    have dj: "j \<in> insert i D" "j \<noteq> i" using that i by auto
    have "node_name p j \<noteq> node_name p i" using I(13) [OF dj(1)] m dj(2) by auto
    with I(12-14) [OF dj(1)] show ?thesis by simp
  qed
qed

definition same_but_locks :: "cachePolicyConfig \<Rightarrow> cachePolicyConfig \<Rightarrow> bool" where
  "same_but_locks c c' \<longleftrightarrow> c' = c\<lparr>pc_fileLocks := pc_fileLocks c'\<rparr>"

lemma same_but_locksD:
  assumes "same_but_locks c c'"
  shows "pc_tmpPath c' = pc_tmpPath c" "pc_pendingOps c' = pc_pendingOps c" "pc_maxEviction c' = pc_maxEviction c"
proof -
  note e = assms [unfolded same_but_locks_def]
  show "pc_tmpPath c' = pc_tmpPath c" by (subst e) simp
  show "pc_pendingOps c' = pc_pendingOps c" by (subst e) simp
  show "pc_maxEviction c' = pc_maxEviction c" by (subst e) simp
qed

lemma same_but_locks_trans: "same_but_locks c c1 \<Longrightarrow> same_but_locks c1 c2 \<Longrightarrow> same_but_locks c c2"
  by (cases c; cases c1; cases c2) (simp add: same_but_locks_def)

lemma CacheValid_new:
  assumes inv: "pol_inv D p ns" and nm: "proper_name p name" "map_of (lp_nodeMap p) name = None"
  shows "\<exists>p' ns'. CacheValid name p = Some p' \<and> pol_inv D p' ns' \<and>
    entries p' ns' = FileEntry name # entries p ns \<and> lp_cfg p' = lp_cfg p \<and> lp_validateChan p' = lp_validateChan p \<and>
    (\<forall>j < lp_fresh p. node_name p' j = node_name p j)"
proof -
  have "FileEntry name \<notin> set (entries p ns)"
  proof
    assume "FileEntry name \<in> set (entries p ns)"
    then obtain i where "i \<in> set ns" "label p i = FileEntry name" by (auto simp: entries_def)
    with label_new [OF inv _ nm(2)] show False by blast
  qed
  with cacheValidate_result [OF inv nm(1), of True] nm(2) show ?thesis
    by (simp add: CacheValid_def removeAll_id) blast
qed

lemma delete_collected_result:
  assumes inv: "pol_inv (insert i D) p ns" and i: "i \<notin> D"
  shows "\<exists>p' fs' ns' added. delete_collected i (p, fs) = Some (p', fs') \<and> pol_inv D p' ns' \<and>
    entries p' ns' = map FileEntry added @ entries p ns \<and> set added \<subseteq> {node_name p i} \<and>
    same_but_locks (lp_cfg p) (lp_cfg p') \<and> lp_validateChan p' = lp_validateChan p \<and>
    (\<forall>j < lp_fresh p. node_name p' j = node_name p j)"
proof -
  note I = pol_invD [OF inv]
  let ?name = "node_name p i"
  let ?q = "p\<lparr>lp_nodeMap := map_remove ?name (lp_nodeMap p)\<rparr>"
  have m: "map_of (lp_nodeMap p) ?name = Some i" and dl: "ln_deleted (lp_nodes p i)" using I(13,14) [of i] by auto
  have q: "pol_inv D ?q ns" by (rule pol_inv_unmap [OF inv i])
  have pn: "proper_name p ?name" by (rule I(9) [OF m])
  then obtain c cs where obj: "NormalizeObjectName (trim_prefix ?name (pc_tmpPath (lp_cfg p))) = c # cs"
    by (cases "NormalizeObjectName (trim_prefix ?name (pc_tmpPath (lp_cfg p)))")
      (auto simp: NormalizeObjectName_def replace_char_def)
  let ?o = "if c = slash then cs else c # cs"
  obtain fl ls where g: "lm_Get (pc_fileLocks (lp_cfg p)) ?o = (fl, ls)" by fastforce
  let ?r = "?q\<lparr>lp_cfg := (lp_cfg p)\<lparr>pc_fileLocks := ls\<rparr>\<rparr>"
  have r: "pol_inv D ?r ns" by (rule pol_inv_frame [OF q]) simp_all
  have lk: "same_but_locks (lp_cfg p) (lp_cfg ?r)" by (simp add: same_but_locks_def)
  have er: "entries ?r ns = entries p ns" by (rule entries_cong) simp_all
  have dc: "delete_collected i (p, fs) =
      (if handleCount (lock_items ls fl) > 0 \<or> sync_pending ?r ?o then map_option (\<lambda>p2. (p2, fs)) (CacheValid ?name ?r)
       else if stat_missing fs ?name then Some (?r, fs) else Some (?r, snd (deleteFile ?name fs)))"
    using dl obj g by (simp add: delete_collected_def deleteItem_def Let_def)
  have "\<exists>p' ns'. CacheValid ?name ?r = Some p' \<and> pol_inv D p' ns' \<and>
      entries p' ns' = FileEntry ?name # entries ?r ns \<and> lp_cfg p' = lp_cfg ?r \<and> lp_validateChan p' = lp_validateChan ?r \<and>
      (\<forall>j < lp_fresh ?r. node_name p' j = node_name ?r j)"
    by (rule CacheValid_new [OF r]) (use pn in simp_all)
  then obtain p' ns' where v: "CacheValid ?name ?r = Some p'" "pol_inv D p' ns'"
      "entries p' ns' = FileEntry ?name # entries ?r ns" "lp_cfg p' = lp_cfg ?r" "lp_validateChan p' = lp_validateChan p"
      "\<forall>j < lp_fresh p. node_name p' j = node_name p j"
    by auto
  show ?thesis
  proof (cases "handleCount (lock_items ls fl) > 0 \<or> sync_pending ?r ?o")
    case True
    with v er lk dc show ?thesis by (intro exI [of _ p'] exI [of _ fs] exI [of _ ns'] exI [of _ "[?name]"]) simp
  next
    case False
    with r er lk dc show ?thesis by (intro exI [of _ ?r] exI [of _ "if stat_missing fs ?name then fs else snd (deleteFile ?name fs)"] exI [of _ ns] exI [of _ "[]"]) simp
  qed
qed

lemma delete_all_result:
  assumes "pol_inv (set ds) p ns" and "distinct ds"
  shows "\<exists>p' fs' ns' added. delete_all ds (p, fs) = Some (p', fs') \<and> pol_inv {} p' ns' \<and>
    entries p' ns' = map FileEntry added @ entries p ns \<and> set added \<subseteq> node_name p ` set ds \<and>
    same_but_locks (lp_cfg p) (lp_cfg p') \<and> lp_validateChan p' = lp_validateChan p"
  using assms
proof (induction ds arbitrary: p ns fs)
  case Nil
  then show ?case by (intro exI [of _ p] exI [of _ fs] exI [of _ ns] exI [of _ "[]"]) (simp add: same_but_locks_def)
next
  case (Cons i ds)
  then have "pol_inv (insert i (set ds)) p ns" "i \<notin> set ds" "distinct ds" by simp_all
  from delete_collected_result [OF this(1,2), of fs] obtain p1 fs1 ns1 a1 where
    s: "delete_collected i (p, fs) = Some (p1, fs1)" "pol_inv (set ds) p1 ns1"
      "entries p1 ns1 = map FileEntry a1 @ entries p ns" "set a1 \<subseteq> {node_name p i}"
      "same_but_locks (lp_cfg p) (lp_cfg p1)" "lp_validateChan p1 = lp_validateChan p"
      "\<forall>j < lp_fresh p. node_name p1 j = node_name p j" by blast
  have nm: "node_name p1 j = node_name p j" if "j \<in> set ds" for j
    using s(7) pol_invD(5) [OF Cons.prems(1) pol_invD(13) [OF Cons.prems(1)]] that by simp
  from Cons.IH [OF s(2) \<open>distinct ds\<close>, of fs1] obtain p' fs' ns' a2 where
    "delete_all ds (p1, fs1) = Some (p', fs')" "pol_inv {} p' ns'" "entries p' ns' = map FileEntry a2 @ entries p1 ns1"
      "set a2 \<subseteq> node_name p1 ` set ds" "same_but_locks (lp_cfg p1) (lp_cfg p')" "lp_validateChan p' = lp_validateChan p1"
    by blast
  with s nm same_but_locks_trans show ?case
    by (intro exI [of _ p'] exI [of _ fs'] exI [of _ ns'] exI [of _ "a2 @ a1"]) auto
qed

end
