(* ===== verification/File_Lru_Props.thy ===== *)
theory File_Lru_Props
  imports File_Lru_Correct
begin

text \<open>
  What the file cache's eviction policy promises: its runs never lose the list unless a file is used in the middle of
  its eviction, a hit moves a file to the front, an eviction round leaves recently used, open and pending files alone, and the snapshot restores
  the list. Two theorems show where the code falls short.
\<close>

section \<open>What an operation leaves alone\<close>

lemma setHead_frame:
  "setHead i p = Some p' \<Longrightarrow> lp_cfg p' = lp_cfg p \<and> lp_nodeMap p' = lp_nodeMap p \<and> lp_fresh p' = lp_fresh p \<and>
     (\<forall>j. node_name p' j = node_name p j)"
  by (auto simp: setHead_def split: option.splits)

lemma cacheValidate_frame:
  assumes "cacheValidate name create p = Some p'"
  shows "lp_cfg p' = lp_cfg p" "lp_fresh p \<le> lp_fresh p'" "j < lp_fresh p \<Longrightarrow> node_name p' j = node_name p j"
    "m \<noteq> name \<Longrightarrow> map_of (lp_nodeMap p') m = map_of (lp_nodeMap p) m"
  using assms by (auto simp: cacheValidate_def Let_def split: option.splits if_splits dest!: setHead_frame)

lemma CacheValid_frame:
  assumes "CacheValid name p = Some p'"
  shows "lp_cfg p' = lp_cfg p" "lp_fresh p \<le> lp_fresh p'" "j < lp_fresh p \<Longrightarrow> node_name p' j = node_name p j"
    "m \<noteq> name \<Longrightarrow> map_of (lp_nodeMap p') m = map_of (lp_nodeMap p) m"
  using assms cacheValidate_frame [of name True p p'] by (auto simp: CacheValid_def split: if_splits)

lemma os_Remove_frame:
  "node_at (snd (os_Remove n fs)) m = (if m = n \<and> fst (os_Remove n fs) = None then None else node_at fs m)"
  by (auto simp: os_Remove_def node_at_def split: option.split)

lemma os_Remove_permission: "\<not> is_permission (fst (os_Remove n fs))"
  by (auto simp: os_Remove_def is_permission_def path_err_def split: option.split)

lemma deleteFile_frame: "m \<noteq> n \<Longrightarrow> node_at (snd (deleteFile n fs)) m = node_at fs m"
  using os_Remove_frame [of n fs m] os_Remove_permission [of n fs]
  by (auto simp: deleteFile_def split: prod.split)

section \<open>Files in use\<close>

definition lock_count :: "LockMap \<Rightarrow> string \<Rightarrow> int" where
  "lock_count l name = (case map_of (locks l) name of None \<Rightarrow> 0 | Some i \<Rightarrow> handleCount (lock_items l i))"

lemma lm_Get_count:
  assumes "lock_map_inv l" "lm_Get l n = (i, l')"
  shows "lock_count l' m = lock_count l m" "handleCount (lock_items l' i) = lock_count l n" "lock_map_inv l'"
proof -
  show "lock_map_inv l'" by (rule lm_Get_inv [OF assms])
  have "lock_count l' m = lock_count l m \<and> handleCount (lock_items l' i) = lock_count l n"
  proof (cases "map_of (locks l) n")
    case (Some j)
    with assms(2) show ?thesis by (simp add: lm_Get_def lock_count_def)
  next
    case None
    have "map_of (locks l) m \<noteq> Some (lock_fresh l)" using assms(1) unfolding lock_map_inv_def by (metis less_irrefl)
    then have "map_of (locks l) m = None \<or> (\<exists>j. map_of (locks l) m = Some j \<and> j \<noteq> lock_fresh l)"
      by (cases "map_of (locks l) m") (simp_all del: map_of_eq_None_iff map_of_eq_Some_iff)
    with None assms(2) show ?thesis
      by (cases "m = n"; elim disjE exE conjE)
        (auto simp: lm_Get_def lock_count_def new_lock_item_def simp del: map_of_eq_None_iff map_of_eq_Some_iff)
  qed
  then show "lock_count l' m = lock_count l m" "handleCount (lock_items l' i) = lock_count l n" by simp_all
qed

definition obj_name :: "string \<Rightarrow> string \<Rightarrow> string option" where
  "obj_name tmp name =
     (case NormalizeObjectName (trim_prefix name tmp) of
        [] \<Rightarrow> None | c # cs \<Rightarrow> Some (if c = slash then cs else c # cs))"

text \<open>A local file that is open, or whose object awaits synchronization.\<close>

definition busy :: "cachePolicyConfig \<Rightarrow> string \<Rightarrow> bool" where
  "busy c name =
     (case obj_name (pc_tmpPath c) name of
        None \<Rightarrow> True
      | Some obj \<Rightarrow> lock_count (pc_fileLocks c) obj > 0 \<or> map_of (pc_pendingOps c) obj \<noteq> None)"

definition same_use :: "cachePolicyConfig \<Rightarrow> cachePolicyConfig \<Rightarrow> bool" where
  "same_use c c' \<longleftrightarrow> pc_tmpPath c' = pc_tmpPath c \<and> pc_pendingOps c' = pc_pendingOps c \<and>
     lock_map_inv (pc_fileLocks c') \<and> (\<forall>obj. lock_count (pc_fileLocks c') obj = lock_count (pc_fileLocks c) obj)"

lemma same_use_busy: "same_use c c' \<Longrightarrow> busy c' name = busy c name"
  by (auto simp: same_use_def busy_def split: option.split)

lemma deleteItem_frame:
  assumes "deleteItem name (p, fs) = Some (p', fs')" "lock_map_inv (pc_fileLocks (lp_cfg p))"
  shows "same_use (lp_cfg p) (lp_cfg p')" "m \<noteq> name \<or> busy (lp_cfg p) m \<Longrightarrow> node_at fs' m = node_at fs m"
    "lp_fresh p \<le> lp_fresh p'" "j < lp_fresh p \<Longrightarrow> node_name p' j = node_name p j"
    "m \<noteq> name \<Longrightarrow> map_of (lp_nodeMap p') m = map_of (lp_nodeMap p) m"
proof -
  have "same_use (lp_cfg p) (lp_cfg p') \<and> (m \<noteq> name \<or> busy (lp_cfg p) m \<longrightarrow> node_at fs' m = node_at fs m) \<and>
    lp_fresh p \<le> lp_fresh p' \<and> (j < lp_fresh p \<longrightarrow> node_name p' j = node_name p j) \<and>
    (m \<noteq> name \<longrightarrow> map_of (lp_nodeMap p') m = map_of (lp_nodeMap p) m)"
  proof (cases "NormalizeObjectName (trim_prefix name (pc_tmpPath (lp_cfg p)))")
    case Nil
    with assms show ?thesis by (auto simp: deleteItem_def same_use_def)
  next
    case (Cons c cs)
    let ?o = "if c = slash then cs else c # cs"
    have o: "obj_name (pc_tmpPath (lp_cfg p)) name = Some ?o" using Cons by (simp add: obj_name_def)
    obtain fl ls where g: "lm_Get (pc_fileLocks (lp_cfg p)) ?o = (fl, ls)" by fastforce
    note L = lm_Get_count [OF assms(2) g]
    let ?p = "p\<lparr>lp_cfg := (lp_cfg p)\<lparr>pc_fileLocks := ls\<rparr>\<rparr>"
    have su: "same_use (lp_cfg p) (lp_cfg ?p)" using L by (simp add: same_use_def)
    have b: "busy (lp_cfg p) name \<longleftrightarrow> handleCount (lock_items ls fl) > 0 \<or> sync_pending ?p ?o"
      using o L(2) by (simp add: busy_def)
    have "deleteItem name (p, fs) = (if map_of (lp_nodeMap ?p) name \<noteq> None then Some (?p, fs)
        else if busy (lp_cfg p) name then map_option (\<lambda>p2. (p2, fs)) (CacheValid name ?p)
        else if stat_missing fs name then Some (?p, fs) else Some (?p, snd (deleteFile name fs)))"
      using Cons g unfolding b by (simp add: deleteItem_def Let_def)
    note r = this [symmetric, unfolded assms(1)]
    show ?thesis
    proof (cases "map_of (lp_nodeMap ?p) name = None \<and> busy (lp_cfg p) name")
      case True
      with r have "CacheValid name ?p = Some p'" "fs' = fs" by (auto split: option.splits)
      with CacheValid_frame [OF this(1)] su show ?thesis by simp
    next
      case False
      then have "p' = ?p" using r by (auto split: if_splits)
      moreover have "m \<noteq> name \<or> busy (lp_cfg p) m \<longrightarrow> node_at fs' m = node_at fs m"
        using r False deleteFile_frame [of m name fs] by (auto split: if_splits)
      ultimately show ?thesis using su by simp
    qed
  qed
  then show "same_use (lp_cfg p) (lp_cfg p')" "m \<noteq> name \<or> busy (lp_cfg p) m \<Longrightarrow> node_at fs' m = node_at fs m"
    "lp_fresh p \<le> lp_fresh p'" "j < lp_fresh p \<Longrightarrow> node_name p' j = node_name p j"
    "m \<noteq> name \<Longrightarrow> map_of (lp_nodeMap p') m = map_of (lp_nodeMap p) m" by auto
qed

lemma same_use_trans: "same_use c c1 \<Longrightarrow> same_use c1 c2 \<Longrightarrow> same_use c c2"
  by (simp add: same_use_def)

lemma delete_collected_frame:
  assumes "delete_collected i (p, fs) = Some (p', fs')" "lock_map_inv (pc_fileLocks (lp_cfg p))"
  shows "same_use (lp_cfg p) (lp_cfg p') \<and> (m \<noteq> node_name p i \<or> busy (lp_cfg p) m \<longrightarrow> node_at fs' m = node_at fs m) \<and>
    lp_fresh p \<le> lp_fresh p' \<and> (\<forall>j < lp_fresh p. node_name p' j = node_name p j) \<and>
    (m \<noteq> node_name p i \<longrightarrow> map_of (lp_nodeMap p') m = map_of (lp_nodeMap p) m)"
proof (cases "ln_deleted (lp_nodes p i)")
  case True
  with assms(1) have "deleteItem (node_name p i) (p\<lparr>lp_nodeMap := map_remove (node_name p i) (lp_nodeMap p)\<rparr>, fs) = Some (p', fs')"
    by (simp add: delete_collected_def)
  from deleteItem_frame [OF this] assms(2) show ?thesis by simp
next
  case False
  with assms show ?thesis by (auto simp: delete_collected_def same_use_def)
qed

lemma delete_all_frame:
  assumes "delete_all ds (p, fs) = Some (p', fs')" "lock_map_inv (pc_fileLocks (lp_cfg p))" "\<forall>i \<in> set ds. i < lp_fresh p"
  shows "same_use (lp_cfg p) (lp_cfg p') \<and>
    (m \<notin> node_name p ` set ds \<or> busy (lp_cfg p) m \<longrightarrow> node_at fs' m = node_at fs m) \<and>
    (m \<notin> node_name p ` set ds \<longrightarrow> map_of (lp_nodeMap p') m = map_of (lp_nodeMap p) m)"
  using assms
proof (induction ds arbitrary: p fs)
  case Nil
  then show ?case by (simp add: same_use_def)
next
  case (Cons i ds)
  from Cons.prems(1) obtain p1 fs1 where d: "delete_collected i (p, fs) = Some (p1, fs1)" "delete_all ds (p1, fs1) = Some (p', fs')"
    by (cases "delete_collected i (p, fs)") auto
  note s = delete_collected_frame [OF d(1) Cons.prems(2), of m]
  then have nm: "node_name p1 ` set ds = node_name p ` set ds" using Cons.prems(3) by auto
  have "lock_map_inv (pc_fileLocks (lp_cfg p1))" "\<forall>i \<in> set ds. i < lp_fresh p1"
    using s Cons.prems(3) by (auto simp: same_use_def)
  from Cons.IH [OF d(2) this] s nm same_use_busy [of "lp_cfg p" "lp_cfg p1" m] same_use_trans [of "lp_cfg p" "lp_cfg p1"]
  show ?case by auto
qed

section \<open>Rounds\<close>

text \<open>
  A round of eviction in terms of the list: the files behind the last marker are passed in order; those
  neither busy nor beyond the limit go, those that turn out to be in use come back to the front.
\<close>

lemma deleteExpired_result:
  assumes inv: "pol_inv {} p ns" and b: "behind p ns xs zs" and lk: "lock_map_inv (pc_fileLocks (lp_cfg p))"
  shows "\<exists>p' fs' ns' added ds ex rest. deleteExpiredNodes (p, fs) = Some (p', fs') \<and> pol_inv {} p' ns' \<and>
    collected p 0 zs ds ex rest \<and>
    entries p' ns' = map FileEntry added @ entries p (xs @ lp_lastMarker p # rest) \<and>
    set added \<subseteq> node_name p ` set ds \<and> same_use (lp_cfg p) (lp_cfg p') \<and> lp_validateChan p' = lp_validateChan p \<and>
    (\<forall>m. m \<notin> node_name p ` set ds \<or> busy (lp_cfg p) m \<longrightarrow> node_at fs' m = node_at fs m) \<and>
    (\<forall>m. m \<notin> node_name p ` set ds \<longrightarrow> map_of (lp_nodeMap p') m = map_of (lp_nodeMap p) m)"
proof -
  from collect_expired_result [OF inv b] obtain ds ex rest p1 where
    c: "collect_expired p = Some (ds, p1)" "collected p 0 zs ds ex rest"
      "pol_inv (set ds) p1 (xs @ lp_lastMarker p # rest)"
    and f: "lp_cfg p1 = lp_cfg p" "lp_nodeMap p1 = lp_nodeMap p" "lp_validateChan p1 = lp_validateChan p"
      "lp_currMarker p1 = lp_currMarker p" "lp_lastMarker p1 = lp_lastMarker p" "\<forall>j. node_name p1 j = node_name p j"
    by blast
  have "distinct zs" using pol_invD(4) [OF inv] b by (simp add: behind_def)
  then have d: "distinct ds" using c(2) by (auto simp: collected_def)
  from delete_all_result [OF c(3) d, of fs] obtain p' fs' ns' added where
    a: "delete_all ds (p1, fs) = Some (p', fs')" "pol_inv {} p' ns'"
      "entries p' ns' = map FileEntry added @ entries p1 (xs @ lp_lastMarker p # rest)"
      "set added \<subseteq> node_name p1 ` set ds" "lp_validateChan p' = lp_validateChan p1" by blast
  have "\<forall>i \<in> set ds. i < lp_fresh p1" using pol_invD(5,13) [OF c(3)] by blast
  from delete_all_frame [OF a(1) _ this] lk f(1) have
    fr: "same_use (lp_cfg p) (lp_cfg p') \<and>
      (m \<notin> node_name p1 ` set ds \<or> busy (lp_cfg p) m \<longrightarrow> node_at fs' m = node_at fs m) \<and>
      (m \<notin> node_name p1 ` set ds \<longrightarrow> map_of (lp_nodeMap p') m = map_of (lp_nodeMap p1) m)" for m by simp
  have im: "node_name p1 ` set ds = node_name p ` set ds" using f(6) by auto
  have e: "entries p1 (xs @ lp_lastMarker p # rest) = entries p (xs @ lp_lastMarker p # rest)"
    by (rule entries_cong) (simp_all add: f)
  have "deleteExpiredNodes (p, fs) = Some (p', fs')" using c(1) a(1) by (simp add: deleteExpiredNodes_def)
  moreover have "lp_validateChan p' = lp_validateChan p" using a(5) f(3) by simp
  ultimately show ?thesis using a(2-4) c(2) fr [unfolded im f(2)] unfolding im e by blast
qed

section \<open>Runs of steps\<close>

text \<open>File names lie below the cache directory, and the file cache keeps its lock map in order.\<close>

fun proper_event :: "string \<Rightarrow> lru_event \<Rightarrow> bool" where
  "proper_event tmp (Hit name) \<longleftrightarrow> trim_prefix name tmp \<noteq> []"
| "proper_event tmp (Share ls pend) \<longleftrightarrow> lock_map_inv ls"
| "proper_event tmp _ \<longleftrightarrow> True"

definition pol_ok :: "string \<Rightarrow> lruPolicy \<Rightarrow> bool" where
  "pol_ok tmp p \<longleftrightarrow> pc_tmpPath (lp_cfg p) = tmp \<and> lock_map_inv (pc_fileLocks (lp_cfg p)) \<and> (\<exists>ns. pol_inv {} p ns)"

lemma CacheValid_ok:
  assumes "pol_inv D p ns" "proper_name p name"
  shows "\<exists>p' ns'. CacheValid name p = Some p' \<and> pol_inv D p' ns' \<and> lp_cfg p' = lp_cfg p"
proof (cases "map_of (lp_nodeMap p) name")
  case None
  with CacheValid_new [OF assms None] show ?thesis by blast
next
  case (Some i)
  have "pol_inv D (p\<lparr>lp_validateChan := lp_validateChan p @ [name]\<rparr>) ns"
    by (rule pol_inv_frame [OF assms(1)]) simp_all
  with Some show ?thesis by (auto simp: CacheValid_def)
qed

text \<open>A name of the map is in the list or not yet deleted; the latter are known by their names.\<close>

lemma collected_by_name:
  assumes "pol_inv (set ds) p ns" "name \<notin> set (map (node_name p) ds)" "map_of (lp_nodeMap p) name = Some i"
  shows "i \<notin> set ds"
  using pol_invD(6) [OF assms(1,3)] assms(2) by auto

lemma asyncCacheValid_ok:
  assumes inv: "pol_inv (set ds) p ns" and u: "undisturbed Validate (p, ds, fs)"
  shows "\<exists>p' ns'. asyncCacheValid p = Some p' \<and> pol_inv (set ds) p' ns' \<and> lp_cfg p' = lp_cfg p"
proof (cases "lp_validateChan p")
  case Nil
  with inv show ?thesis by (auto simp: asyncCacheValid_def)
next
  case (Cons name rest)
  let ?q = "p\<lparr>lp_validateChan := rest\<rparr>"
  have q: "pol_inv (set ds) ?q ns" by (rule pol_inv_frame [OF inv]) simp_all
  show ?thesis
  proof (cases "map_of (lp_nodeMap ?q) name")
    case None
    with Cons q cacheValidate_absent [OF None] show ?thesis by (auto simp: asyncCacheValid_def)
  next
    case (Some i)
    have pn: "proper_name ?q name" by (rule pol_invD(9) [OF q Some])
    have "i \<notin> set ds" by (rule collected_by_name [OF q _ Some]) (use u Cons in simp)
    then have "\<exists>p' ns'. cacheValidate name False ?q = Some p' \<and> pol_inv (set ds) p' ns' \<and> lp_cfg p' = lp_cfg ?q"
      using cacheValidate_result [OF q pn, of False] Some by auto
    with Cons show ?thesis by (simp add: asyncCacheValid_def)
  qed
qed

text \<open>The state between two steps: the nodes that the round has collected are out of the list.\<close>

definition round_ok :: "string \<Rightarrow> lru_state \<Rightarrow> bool" where
  "round_ok tmp = (\<lambda>(p, ds, fs). pc_tmpPath (lp_cfg p) = tmp \<and> lock_map_inv (pc_fileLocks (lp_cfg p)) \<and> distinct ds \<and>
     (\<exists>ns. pol_inv (set ds) p ns))"

lemma collect_expired_ok:
  assumes inv: "pol_inv {} p ns"
  shows "\<exists>ds p' ns'. collect_expired p = Some (ds, p') \<and> distinct ds \<and> pol_inv (set ds) p' ns' \<and> lp_cfg p' = lp_cfg p"
proof -
  obtain xs zs where b: "behind p ns xs zs" using behind_ex [OF inv] by blast
  from collect_expired_result [OF inv b] obtain ds ex rest p' where
    "collect_expired p = Some (ds, p')" "collected p 0 zs ds ex rest" "pol_inv (set ds) p' (xs @ lp_lastMarker p # rest)"
    "lp_cfg p' = lp_cfg p" by blast
  moreover have "distinct zs" using pol_invD(4) [OF inv] b by (simp add: behind_def)
  ultimately show ?thesis by (auto simp: collected_def)
qed

lemma delete_step_ok:
  assumes "round_ok tmp (p, i # ds, fs)"
  shows "\<exists>p' fs'. delete_collected i (p, fs) = Some (p', fs') \<and> round_ok tmp (p', ds, fs')"
proof -
  from assms obtain ns where inv: "pol_inv (insert i (set ds)) p ns" "i \<notin> set ds" "distinct ds"
    and c: "pc_tmpPath (lp_cfg p) = tmp" "lock_map_inv (pc_fileLocks (lp_cfg p))" by (auto simp: round_ok_def)
  from delete_collected_result [OF inv(1,2), of fs] obtain p' fs' ns' where
    d: "delete_collected i (p, fs) = Some (p', fs')" "pol_inv (set ds) p' ns'" by blast
  have "same_use (lp_cfg p) (lp_cfg p')" using delete_collected_frame [OF d(1) c(2)] by blast
  with d inv(3) c show ?thesis by (auto simp: round_ok_def same_use_def)
qed

lemma lru_event_step_ok:
  assumes "round_ok tmp s" "proper_event tmp e" "undisturbed e s"
  shows "\<exists>s'. lru_event_step e s = Some s' \<and> round_ok tmp s'"
proof -
  obtain p ds fs where s: "s = (p, ds, fs)" by (cases s)
  with assms(1) obtain ns where inv: "pol_inv (set ds) p ns" and c: "pc_tmpPath (lp_cfg p) = tmp"
    "lock_map_inv (pc_fileLocks (lp_cfg p))" "distinct ds" by (auto simp: round_ok_def)
  show ?thesis
  proof (cases e)
    case (Hit name)
    with CacheValid_ok [OF inv, of name] assms(2) c s show ?thesis by (auto simp: round_ok_def)
  next
    case Validate
    with asyncCacheValid_ok [OF inv, of fs] assms(3) c s show ?thesis by (auto simp: round_ok_def)
  next
    case (Purge name)
    with assms(3) s have "i \<notin> set ds" if "map_of (lp_nodeMap p) name = Some i" for i
      using collected_by_name [OF inv _ that] by simp
    then obtain ns' where "pol_inv (set ds) (removeNode name p) ns'" "lp_cfg (removeNode name p) = lp_cfg p"
      using removeNode_result [OF inv, of name] by blast
    with Purge c s show ?thesis by (auto simp: round_ok_def CachePurge_def)
  next
    case (Share ls pend)
    have "pol_inv (set ds) (p\<lparr>lp_cfg := (lp_cfg p)\<lparr>pc_fileLocks := ls, pc_pendingOps := pend\<rparr>\<rparr>) ns"
      by (rule pol_inv_frame [OF inv]) simp_all
    with Share assms(2) c s show ?thesis by (auto simp: round_ok_def)
  next
    case (Reconfigure cfg)
    have "pol_inv (set ds) (UpdateConfig cfg p) ns"
      by (rule pol_inv_frame [OF inv]) (simp_all add: UpdateConfig_def)
    with Reconfigure c s show ?thesis by (auto simp: round_ok_def UpdateConfig_def)
  next
    case Mark
    with updateMarker_result [OF inv] assms(1) c s show ?thesis by (auto simp: round_ok_def)
  next
    case Collect
    show ?thesis
    proof (cases ds)
      case Nil
      with inv have "pol_inv {} p ns" by simp
      from collect_expired_ok [OF this] Nil Collect c s show ?thesis by (auto simp: round_ok_def)
    qed (use Collect assms(1) s in simp)
  next
    case Delete
    show ?thesis
    proof (cases ds)
      case (Cons i "is")
      with delete_step_ok [of tmp p i "is" fs] Delete assms(1) s show ?thesis by auto
    qed (use Delete assms(1) s in simp)
  qed
qed

lemma lru_run_ok:
  "round_ok tmp s \<Longrightarrow> list_all (proper_event tmp) es \<Longrightarrow> undisturbed_run es s \<Longrightarrow>
     \<exists>s'. lru_run es s = Some s' \<and> round_ok tmp s'"
proof (induction es arbitrary: s)
  case (Cons e es)
  from lru_event_step_ok [OF Cons.prems(1), of e] Cons.prems(2,3) obtain s1 where
    "lru_event_step e s = Some s1" "round_ok tmp s1" by auto
  with Cons.IH [of s1] Cons.prems(2,3) show ?case by simp
qed simp

text \<open>A round by itself is its steps.\<close>

lemma delete_all_is_its_steps:
  "delete_all ds (p, fs) = Some (p', fs') \<Longrightarrow> lru_run (replicate (length ds) Delete) (p, ds, fs) = Some (p', [], fs')"
proof (induction ds arbitrary: p fs)
  case (Cons i ds)
  then obtain p1 fs1 where "delete_collected i (p, fs) = Some (p1, fs1)" "delete_all ds (p1, fs1) = Some (p', fs')"
    by (cases "delete_collected i (p, fs)") auto
  with Cons.IH show ?case by simp
qed simp

lemma round_is_its_steps:
  assumes "expire_round (p, fs) = Some (p', fs')"
  shows "\<exists>n. lru_run (Mark # Collect # replicate n Delete) (p, [], fs) = Some (p', [], fs')"
proof -
  from assms obtain p1 ds p2 where r: "updateMarker p = Some p1" "collect_expired p1 = Some (ds, p2)"
    "delete_all ds (p2, fs) = Some (p', fs')"
    by (auto simp: expire_round_def deleteExpiredNodes_def split: bind_splits)
  from delete_all_is_its_steps [OF r(3)] r(1,2) show ?thesis by (intro exI [of _ "length ds"]) simp
qed

lemma StartPolicy_ok:
  assumes "lock_map_inv (pc_fileLocks cfg)"
  shows "\<exists>p. StartPolicy None (NewLRUPolicy cfg) = Some p \<and> pol_inv {} p [0, 1] \<and> pol_ok (pc_tmpPath cfg) p \<and> lp_cfg p = cfg"
proof -
  obtain p where p: "StartPolicy None (NewLRUPolicy cfg) = Some p"
    by (cases "StartPolicy None (NewLRUPolicy cfg)") (simp_all add: StartPolicy_def loadSnapshot_def Let_def)
  have f: "lp_cfg p = cfg" "lp_nodeMap p = []" "lp_fresh p = 2" "lp_head p = Some 0" "lp_currMarker p = 0"
    "lp_lastMarker p = 1" "node_next p 0 = Some 1" "node_next p (Suc 0) = None" "node_prev p 0 = None" "node_prev p (Suc 0) = Some 0"
    using p by (auto simp: StartPolicy_def loadSnapshot_def NewLRUPolicy_def Let_def new_node_def)
  have "pol_inv {} p [0, 1]"
    by (rule pol_invI) (auto simp: f linked_def markers_in_def intro!: exI [of _ "[]"])
  with p f(1) assms show ?thesis by (auto simp: pol_ok_def)
qed

section \<open>The list as the policy sees it\<close>

definition listing :: "lruPolicy \<Rightarrow> lru_entry list option" where
  "listing p = map_option (entries p) (node_chain p (lp_head p))"

lemma listing_inv: "pol_inv D p ns \<Longrightarrow> listing p = Some (entries p ns)"
  using node_chain_linked pol_invD(1) by (fastforce simp: listing_def)

lemma pol_ok_listing: "pol_ok tmp p \<Longrightarrow> listing p = Some es \<Longrightarrow> \<exists>ns. pol_inv {} p ns \<and> es = entries p ns"
  using listing_inv unfolding pol_ok_def by fastforce

lemma label_marks [simp]: "label p i = CurrMark \<longleftrightarrow> i = lp_currMarker p" "CurrMark = label p i \<longleftrightarrow> i = lp_currMarker p"
  "lp_currMarker p \<noteq> lp_lastMarker p \<Longrightarrow> label p i = LastMark \<longleftrightarrow> i = lp_lastMarker p"
  by (auto simp: label_def)

lemma label_file: "label p i = FileEntry m \<Longrightarrow> i \<noteq> lp_currMarker p \<and> i \<noteq> lp_lastMarker p \<and> node_name p i = m"
  by (auto simp: label_def split: if_splits)

text \<open>The marks occur once.\<close>

lemma entries_once: "pol_inv D p ns \<Longrightarrow> distinct (entries p ns)"
proof -
  assume inv: "pol_inv D p ns"
  note I = pol_invD [OF inv]
  have "inj_on (label p) (set ns)"
  proof (rule inj_onI)
    fix i j assume ij: "i \<in> set ns" "j \<in> set ns" "label p i = label p j"
    show "i = j"
    proof (cases "label p j")
      case CurrMark
      with ij(3) show ?thesis by simp
    next
      case LastMark
      with ij(3) markers_ne [OF inv] show ?thesis by simp
    next
      case (FileEntry m)
      with ij(3) label_file [of p i m] label_file [of p j m] I(10) [OF ij(1)] I(10) [OF ij(2)] show ?thesis by simp
    qed
  qed
  then show ?thesis using I(4) by (simp add: entries_def distinct_map)
qed

lemma entries_behind:
  assumes inv: "pol_inv D p ns" and e: "entries p ns = xs @ LastMark # zs" "CurrMark \<in> set xs"
  shows "\<exists>us vs. behind p ns us vs \<and> xs = entries p us \<and> zs = entries p vs"
proof -
  from e(1) obtain us r where r: "ns = us @ r" "entries p us = xs" "map (label p) r = LastMark # zs"
    by (auto simp: entries_def map_eq_append_conv)
  then obtain l vs where l: "r = l # vs" "label p l = LastMark" "entries p vs = zs" by (auto simp: entries_def)
  with markers_ne [OF inv] have "l = lp_lastMarker p" by simp
  moreover have "lp_currMarker p \<in> set us" using e(2) r(2) by (auto simp: entries_def)
  ultimately show ?thesis using r l by (auto simp: behind_def)
qed

text \<open>
  A whole round on the list: what is in front of the marker ahead keeps its place, what is behind it is up
  for eviction.
\<close>

lemma expire_round_result:
  assumes ok: "pol_ok tmp p" and l: "listing p = Some (a @ CurrMark # b @ LastMark # c)"
  shows "\<exists>p1 us vs p' fs' added ds ex rest. expire_round (p, fs) = Some (p', fs') \<and> pol_ok tmp p' \<and>
    listing p' = Some (map FileEntry added @ CurrMark # a @ LastMark # entries p1 rest) \<and>
    entries p1 vs = b @ c \<and> collected p1 0 vs ds ex rest \<and> lp_cfg p1 = lp_cfg p \<and> lp_nodeMap p1 = lp_nodeMap p \<and>
    pol_inv {} p1 (us @ lp_lastMarker p1 # vs) \<and> entries p1 us = CurrMark # a \<and>
    set added \<subseteq> node_name p1 ` set ds \<and>
    (\<forall>m. m \<notin> node_name p1 ` set ds \<or> busy (lp_cfg p) m \<longrightarrow> node_at fs' m = node_at fs m) \<and>
    (\<forall>m. m \<notin> node_name p1 ` set ds \<longrightarrow> map_of (lp_nodeMap p') m = map_of (lp_nodeMap p) m)"
proof -
  obtain ns where inv: "pol_inv {} p ns" and e: "entries p ns = a @ CurrMark # b @ LastMark # c"
    using pol_ok_listing [OF ok l] by metis
  from updateMarker_result [OF inv] obtain p1 ns1 where
    u: "updateMarker p = Some p1" "pol_inv {} p1 ns1" "entries p1 ns1 = CurrMark # map aged (removeAll LastMark (entries p ns))"
      "lp_cfg p1 = lp_cfg p" "lp_nodeMap p1 = lp_nodeMap p" by blast
  have ne: "LastMark \<notin> set (a @ b @ c)" "CurrMark \<notin> set (a @ b @ c)" using entries_once [OF inv] unfolding e by auto
  have ag: "map aged xs = xs" if "CurrMark \<notin> set xs" for xs
    using that by (intro map_idI) (metis aged.simps(2,3) lru_entry.exhaust)
  have "entries p1 ns1 = (CurrMark # a) @ LastMark # (b @ c)"
    unfolding u(3) e using ne ag [of a] ag [of b] ag [of c] by (simp add: removeAll_id)
  from entries_behind [OF u(2) this] obtain us vs where
    b: "behind p1 ns1 us vs" "entries p1 us = CurrMark # a" "entries p1 vs = b @ c" by auto
  have lk: "lock_map_inv (pc_fileLocks (lp_cfg p1))" using ok u(4) by (simp add: pol_ok_def)
  from deleteExpired_result [OF u(2) b(1) lk, of fs] obtain p' fs' ns' added ds ex rest where
    d: "deleteExpiredNodes (p1, fs) = Some (p', fs')" "pol_inv {} p' ns'" "collected p1 0 vs ds ex rest"
      "entries p' ns' = map FileEntry added @ entries p1 (us @ lp_lastMarker p1 # rest)"
      "set added \<subseteq> node_name p1 ` set ds" "same_use (lp_cfg p1) (lp_cfg p')"
      "\<forall>m. m \<notin> node_name p1 ` set ds \<or> busy (lp_cfg p1) m \<longrightarrow> node_at fs' m = node_at fs m"
      "\<forall>m. m \<notin> node_name p1 ` set ds \<longrightarrow> map_of (lp_nodeMap p') m = map_of (lp_nodeMap p1) m" by blast
  have "expire_round (p, fs) = Some (p', fs')" using u(1) d(1) by (simp add: expire_round_def)
  moreover have "pol_ok tmp p'" using ok d(2,6) u(4) by (auto simp: pol_ok_def same_use_def)
  moreover have "listing p' = Some (map FileEntry added @ CurrMark # a @ LastMark # entries p1 rest)"
    using listing_inv [OF d(2)] d(4) b(2) markers_ne [OF u(2)] by (simp add: entries_def)
  moreover have "pol_inv {} p1 (us @ lp_lastMarker p1 # vs)" using u(2) b(1) by (simp add: behind_def)
  ultimately show ?thesis using d(3,5,7,8) b(2,3) u(4,5) by metis
qed

lemma collected_names: "collected p n vs ds ex rest \<Longrightarrow> pol_inv {} p (us @ lp_lastMarker p # vs) \<Longrightarrow>
    m \<in> node_name p ` set ds \<Longrightarrow> entries p us = CurrMark # a \<Longrightarrow> FileEntry m \<in> set (entries p vs)"
proof -
  assume c: "collected p n vs ds ex rest" and inv: "pol_inv {} p (us @ lp_lastMarker p # vs)"
    and m: "m \<in> node_name p ` set ds" and cu: "entries p us = CurrMark # a"
  from m obtain i where i: "i \<in> set vs" "node_name p i = m" using c by (auto simp: collected_def)
  have "lp_currMarker p \<in> set us" using cu by (auto simp: entries_def Cons_eq_map_conv)
  with pol_invD(4) [OF inv] i(1) have "i \<noteq> lp_currMarker p" "i \<noteq> lp_lastMarker p" by auto
  with i show ?thesis by (auto simp: entries_def label_def intro!: image_eqI [of _ _ i])
qed


section \<open>Properties\<close>

text \<open>The policy of a cache below \<open>/t\<close> with one object awaiting synchronization, and a short story of it.\<close>

definition lru_cfg :: cachePolicyConfig where
  "lru_cfg = \<lparr>pc_tmpPath = ''/t'', pc_cacheTimeout = 1, pc_maxEviction = 10, pc_maxSizeMB = 1, pc_highThreshold = 80,
     pc_lowThreshold = 60, pc_fileLocks = NewLockMap,
     pc_pendingOps = [(''b'', \<lparr>pf_isDir = False, pf_isDeletion = False\<rparr>)], pc_policyTrace = False\<rparr>"

definition lru_files :: os_fs where
  "lru_files = \<lparr>dents = [(''/t/c'', 3), (''/t/b'', 2), (''/t/a'', 1)], inodes = (\<lambda>_. FileNode ''x'' 420 0),
     next_ino = 4, open_fds = [], next_fd = 3\<rparr>"

text \<open>A policy that holds three files, \<open>a\<close> used since the last round; the markers are the cells 0 and 1.\<close>

definition lru_pol :: lruPolicy where
  "lru_pol = \<lparr>lp_cfg = lru_cfg, lp_nodeMap = [(''/t/a'', 2), (''/t/c'', 4), (''/t/b'', 3)],
     lp_nodes = (\<lambda>_. new_node 0 [])
       (0 := \<lparr>ln_next = Some 4, ln_prev = Some 2, ln_usage = - 1, ln_deleted = False, ln_name = ''__''\<rparr>,
        1 := \<lparr>ln_next = None, ln_prev = Some 3, ln_usage = - 1, ln_deleted = False, ln_name = ''##''\<rparr>,
        2 := \<lparr>ln_next = Some 0, ln_prev = None, ln_usage = 2, ln_deleted = False, ln_name = ''/t/a''\<rparr>,
        3 := \<lparr>ln_next = Some 1, ln_prev = Some 4, ln_usage = 1, ln_deleted = False, ln_name = ''/t/b''\<rparr>,
        4 := \<lparr>ln_next = Some 3, ln_prev = Some 0, ln_usage = 1, ln_deleted = False, ln_name = ''/t/c''\<rparr>),
     lp_fresh = 5, lp_head = Some 2, lp_currMarker = 0, lp_lastMarker = 1, lp_validateChan = []\<rparr>"

lemma lru_cfg_locks: "lock_map_inv (pc_fileLocks lru_cfg)"
  by (simp add: lru_cfg_def lock_map_inv_new)

lemma lru_pol_inv: "pol_inv {} lru_pol [2, 0, 4, 3, 1]"
proof (rule pol_invI)
  show "linked lru_pol [2, 0, 4, 3, 1]" by (simp add: linked_def lru_pol_def)
  show "markers_in lru_pol [2, 0, 4, 3, 1]"
    unfolding markers_in_def by (rule exI [of _ "[2]"], rule exI [of _ "[4, 3]"], rule exI [of _ "[]"]) (simp add: lru_pol_def)
  show "i < lp_fresh lru_pol \<and> node_name lru_pol i = name \<and> i \<noteq> lp_currMarker lru_pol \<and> i \<noteq> lp_lastMarker lru_pol \<and>
      proper_name lru_pol name" if "map_of (lp_nodeMap lru_pol) name = Some i" for name i
    using that by (auto simp: lru_pol_def lru_cfg_def trim_prefix_def split: if_splits)
  show "map_of (lp_nodeMap lru_pol) (node_name lru_pol i) = Some i"
    if "i \<in> set [2, 0, 4, 3, 1]" "i \<noteq> lp_currMarker lru_pol" "i \<noteq> lp_lastMarker lru_pol" for i
    using that by (auto simp: lru_pol_def)
qed (auto simp: lru_pol_def split: if_splits)

lemma lru_pol_ok: "pol_ok ''/t'' lru_pol"
  using lru_pol_inv lru_cfg_locks by (auto simp: pol_ok_def lru_pol_def lru_cfg_def)

lemma lru_pol_listing:
  "listing lru_pol = Some ([FileEntry ''/t/a''] @ CurrMark # [FileEntry ''/t/c'', FileEntry ''/t/b''] @ LastMark # [])"
  using listing_inv [OF lru_pol_inv] by (simp add: entries_def label_def lru_pol_def)

text \<open>
  C16. The eviction policy keeps its list: from \<open>StartPolicy\<close> on, with files used, purged and validated,
  the shared maps changed and the configuration reloaded between any two parts of an eviction round, every
  step returns without a nil dereference and without looping, and leaves a proper doubly linked list with both
  markers in it, in which every node but the markers is the map's node for its name; what the round still
  has to delete is out of the list, marked, and in the map. This holds as long as no file is validated or purged
  after the round has collected it and before it has deleted it: the code does not rule that out, and C40 shows
  what happens then.
\<close>
theorem lru_policy_runs:
  assumes "lock_map_inv (pc_fileLocks cfg)" "list_all (proper_event (pc_tmpPath cfg)) es"
  shows "\<exists>p0. StartPolicy None (NewLRUPolicy cfg) = Some p0 \<and>
    (undisturbed_run es (p0, [], fs) \<longrightarrow>
      (\<exists>p ds fs' ns. lru_run es (p0, [], fs) = Some (p, ds, fs') \<and> pol_inv (set ds) p ns \<and> node_chain p (lp_head p) = Some ns))"
proof -
  from StartPolicy_ok [OF assms(1)] obtain p0 where p0: "StartPolicy None (NewLRUPolicy cfg) = Some p0"
    "round_ok (pc_tmpPath cfg) (p0, [], fs)" using assms(1) by (auto simp: round_ok_def)
  have "\<exists>p ds fs' ns. lru_run es (p0, [], fs) = Some (p, ds, fs') \<and> pol_inv (set ds) p ns \<and> node_chain p (lp_head p) = Some ns"
    if u: "undisturbed_run es (p0, [], fs)"
  proof -
    from lru_run_ok [OF p0(2) assms(2) u] obtain p ds fs' ns where
      "lru_run es (p0, [], fs) = Some (p, ds, fs')" "pol_inv (set ds) p ns" by (auto simp: round_ok_def)
    with node_chain_linked pol_invD(1) show ?thesis by blast
  qed
  with p0(1) show ?thesis by blast
qed

text \<open>A round whose parts are interleaved with a hit, a reload of the configuration and a change of the locks.\<close>

definition lru_story :: "lru_event list" where
  "lru_story = [Hit ''/t/a'', Hit ''/t/b'', Mark, Collect, Mark, Collect, Hit ''/t/c'', Hit ''/t/a'', Share NewLockMap [],
     Reconfigure lru_cfg, Delete, Validate, Purge ''/t/c'', Hit ''/t/a'']"

definition lru_started :: lruPolicy where
  "lru_started = the (StartPolicy None (NewLRUPolicy lru_cfg))"

lemmas eval_story = lru_started_def lru_cfg_def lru_files_def StartPolicy_def NewLRUPolicy_def loadSnapshot_def Let_def upd_node_def
  new_node_def CacheValid_def asyncCacheValid_def cacheValidate_def extractNode_def setHead_def updateMarker_def
  collect_expired_def expire_walk.simps [of _ "Some 2"] expire_walk.simps [of _ "Some 3"] expire_walk.simps [of _ None] expire_name_def
  delete_collected_def deleteItem_def stat_missing_def os_Stat_def node_at_def CachePurge_def removeNode_def UpdateConfig_def
  lm_Get_def NewLockMap_def new_lock_item_def map_remove_def wrap64_def
  NormalizeObjectName_def trim_prefix_def replace_char_def

lemma lru_story_undisturbed: "undisturbed_run lru_story (lru_started, [], lru_files)"
  by (simp add: lru_story_def eval_story)

lemma lru_policy_runs_witness:
  "\<exists>p ds fs' ns. lru_run lru_story (lru_started, [], lru_files) = Some (p, ds, fs') \<and> pol_inv (set ds) p ns \<and>
    node_chain p (lp_head p) = Some ns"
proof -
  have "list_all (proper_event (pc_tmpPath lru_cfg)) lru_story"
    by (simp add: lru_story_def lru_cfg_def trim_prefix_def lock_map_inv_new)
  from lru_policy_runs [OF lru_cfg_locks this, of lru_files] lru_story_undisturbed show ?thesis
    by (auto simp: lru_started_def)
qed

text \<open>
  Using a file puts it in front and keeps the order of everything else, markers included.
\<close>
theorem hit_moves_to_front:
  assumes "pol_ok tmp p" "listing p = Some es" "trim_prefix name tmp \<noteq> []"
  shows "\<exists>p'. cacheValidate name True p = Some p' \<and> pol_ok tmp p' \<and>
    listing p' = Some (FileEntry name # removeAll (FileEntry name) es)"
proof -
  obtain ns where inv: "pol_inv {} p ns" and es: "es = entries p ns" using pol_ok_listing [OF assms(1,2)] by blast
  have "proper_name p name" using assms(1,3) by (simp add: pol_ok_def)
  from cacheValidate_result [OF inv this, of True] obtain p' ns' where r: "cacheValidate name True p = Some p'"
    "pol_inv {} p' ns'" "entries p' ns' = FileEntry name # removeAll (FileEntry name) (entries p ns)"
    "lp_cfg p' = lp_cfg p" by auto
  have "pol_ok tmp p'" using r(2,4) assms(1) by (auto simp: pol_ok_def)
  with r(1,3) listing_inv [OF r(2)] es show ?thesis by auto
qed

lemma hit_moves_to_front_witness:
  "\<exists>p'. cacheValidate ''/t/b'' True lru_pol = Some p' \<and> pol_ok ''/t'' p' \<and>
    listing p' = Some [FileEntry ''/t/b'', FileEntry ''/t/a'', CurrMark, FileEntry ''/t/c'', LastMark]"
  using hit_moves_to_front [OF lru_pol_ok lru_pol_listing, of "''/t/b''"] by (simp add: trim_prefix_def)

text \<open>
  C18. An eviction round that no other operation comes into the middle of keeps what was used since the round before, in order, and evicts from the disk
  only files that were not, that no handle has open, and that have nothing pending; what it finds in use
  comes back in front. At most \<open>maxEviction\<close> files leave the disk.
\<close>
theorem eviction_round:
  assumes "pol_ok tmp p" "listing p = Some (a @ CurrMark # b @ LastMark # c)"
  shows "\<exists>p' fs' front rest gone. expire_round (p, fs) = Some (p', fs') \<and> pol_ok tmp p' \<and>
    listing p' = Some (map FileEntry front @ CurrMark # a @ LastMark # rest) \<and> suffix rest (b @ c) \<and>
    FileEntry ` (set front \<union> set gone) \<subseteq> set (b @ c) \<and> int (length gone) \<le> max 0 (pc_maxEviction (lp_cfg p)) \<and>
    (\<forall>m. node_at fs' m \<noteq> node_at fs m \<longrightarrow> m \<in> set gone \<and> \<not> busy (lp_cfg p) m)"
proof -
  from expire_round_result [OF assms, of fs] obtain p1 us vs p' fs' added ds ex rest where
    r: "expire_round (p, fs) = Some (p', fs')" "pol_ok tmp p'"
      "listing p' = Some (map FileEntry added @ CurrMark # a @ LastMark # entries p1 rest)"
    and c: "entries p1 vs = b @ c" "collected p1 0 vs ds ex rest" "lp_cfg p1 = lp_cfg p"
      "pol_inv {} p1 (us @ lp_lastMarker p1 # vs)" "entries p1 us = CurrMark # a"
    and o: "set added \<subseteq> node_name p1 ` set ds"
      "\<forall>m. m \<notin> node_name p1 ` set ds \<or> busy (lp_cfg p) m \<longrightarrow> node_at fs' m = node_at fs m" by blast
  let ?gone = "map (node_name p1) ds"
  have "FileEntry m \<in> set (b @ c)" if "m \<in> set ?gone" for m
    using collected_names [OF c(2,4) _ c(5), of m] that c(1) by simp
  moreover have "set added \<union> set ?gone \<subseteq> set ?gone" using o(1) by simp
  ultimately have "FileEntry ` (set added \<union> set ?gone) \<subseteq> set (b @ c)" by blast
  moreover have "suffix (entries p1 rest) (b @ c)"
    using c(2) unfolding c(1) [symmetric] by (auto simp: collected_def entries_def suffix_def)
  moreover have "int (length ?gone) \<le> max 0 (pc_maxEviction (lp_cfg p))"
  proof -
    have "0 + int (length ds) \<le> max 0 (pc_maxEviction (lp_cfg p1))" using c(2) unfolding collected_def by (elim conjE)
    then show ?thesis by (simp add: c(3))
  qed
  moreover have "\<forall>m. node_at fs' m \<noteq> node_at fs m \<longrightarrow> m \<in> set ?gone \<and> \<not> busy (lp_cfg p) m"
    using o(2) by auto
  ultimately show ?thesis using r by blast
qed

lemma eviction_round_witness:
  "\<exists>p' fs' front rest gone. expire_round (lru_pol, lru_files) = Some (p', fs') \<and> pol_ok ''/t'' p' \<and>
    listing p' = Some (map FileEntry front @ CurrMark # [FileEntry ''/t/a''] @ LastMark # rest) \<and>
    suffix rest ([FileEntry ''/t/c'', FileEntry ''/t/b''] @ []) \<and>
    FileEntry ` (set front \<union> set gone) \<subseteq> set ([FileEntry ''/t/c'', FileEntry ''/t/b''] @ []) \<and>
    int (length gone) \<le> max 0 (pc_maxEviction (lp_cfg lru_pol)) \<and>
    (\<forall>m. node_at fs' m \<noteq> node_at lru_files m \<longrightarrow> m \<in> set gone \<and> \<not> busy (lp_cfg lru_pol) m)"
  by (rule eviction_round [OF lru_pol_ok lru_pol_listing])

text \<open>
  C39. A file with an operation pending that a round passes falls out of the list: it stays on the disk and
  in the map, but no later round looks at it again, unless it is used in between.
\<close>
theorem pending_file_leaves_the_list:
  assumes ok: "pol_ok tmp p" and l: "listing p = Some (a @ CurrMark # b @ LastMark # c)"
    and m: "FileEntry m \<in> set (b @ c)" "obj_name tmp m = Some obj" "map_of (pc_pendingOps (lp_cfg p)) obj \<noteq> None"
    and "int (length (b @ c)) < pc_maxEviction (lp_cfg p)"
  shows "\<exists>p' fs' es. expire_round (p, fs) = Some (p', fs') \<and> listing p' = Some es \<and> FileEntry m \<notin> set es \<and>
    map_of (lp_nodeMap p') m = map_of (lp_nodeMap p) m \<and> map_of (lp_nodeMap p) m \<noteq> None \<and> node_at fs' m = node_at fs m"
proof -
  from expire_round_result [OF ok l, of fs] obtain p1 us vs p' fs' added ds ex rest where
    r: "expire_round (p, fs) = Some (p', fs')"
      "listing p' = Some (map FileEntry added @ CurrMark # a @ LastMark # entries p1 rest)"
    and c: "entries p1 vs = b @ c" "collected p1 0 vs ds ex rest" "lp_cfg p1 = lp_cfg p" "lp_nodeMap p1 = lp_nodeMap p"
      "pol_inv {} p1 (us @ lp_lastMarker p1 # vs)" "entries p1 us = CurrMark # a"
    and o: "set added \<subseteq> node_name p1 ` set ds"
      "\<forall>m. m \<notin> node_name p1 ` set ds \<or> busy (lp_cfg p) m \<longrightarrow> node_at fs' m = node_at fs m"
      "\<forall>m. m \<notin> node_name p1 ` set ds \<longrightarrow> map_of (lp_nodeMap p') m = map_of (lp_nodeMap p) m" by blast
  have lv: "length vs = length (b @ c)" using arg_cong [OF c(1), of length] by (simp add: entries_def)
  have "length ds \<le> length vs" using c(2) by (auto simp: collected_def intro: le_trans [OF length_filter_le])
  then have rest: "rest = []" using c(2,3) assms(6) lv by (auto simp: collected_def)
  have tmp: "pc_tmpPath (lp_cfg p1) = tmp" using ok c(3) by (simp add: pol_ok_def)
  have nd: "m \<notin> node_name p1 ` set ds"
  proof
    assume "m \<in> node_name p1 ` set ds"
    then obtain i where i: "i \<in> set ds" "node_name p1 i = m" by blast
    then have "expire_name p1 i = Some obj" using m(2) tmp by (simp add: expire_name_def obj_name_def)
    with i(1) c(2,3) m(3) show False by (auto simp: collected_def)
  qed
  have inv: "distinct (entries p1 (us @ lp_lastMarker p1 # vs))" by (rule entries_once [OF c(5)])
  have "entries p1 (us @ lp_lastMarker p1 # vs) = (CurrMark # a) @ label p1 (lp_lastMarker p1) # (b @ c)"
    using c(1,6) by (simp add: entries_def)
  then have "FileEntry m \<notin> set a" using inv m(1) by auto
  moreover obtain i where "i \<in> set vs" "label p1 i = FileEntry m" using m(1) unfolding c(1) [symmetric] by (auto simp: entries_def)
  then have "map_of (lp_nodeMap p) m = Some i"
    using pol_invD(10) [OF c(5), of i] label_file [of p1 i m] c(4) by auto
  ultimately show ?thesis using r rest o nd by (fastforce simp: entries_def)
qed

lemma pending_file_leaves_the_list_witness:
  "\<exists>p' fs' es. expire_round (lru_pol, lru_files) = Some (p', fs') \<and> listing p' = Some es \<and> FileEntry ''/t/b'' \<notin> set es \<and>
    map_of (lp_nodeMap p') ''/t/b'' = map_of (lp_nodeMap lru_pol) ''/t/b'' \<and> map_of (lp_nodeMap lru_pol) ''/t/b'' \<noteq> None \<and>
    node_at fs' ''/t/b'' = node_at lru_files ''/t/b''"
proof (rule pending_file_leaves_the_list [OF lru_pol_ok lru_pol_listing, of _ "''b''"])
  show "obj_name ''/t'' ''/t/b'' = Some ''b''" by code_simp
qed (simp_all add: lru_pol_def lru_cfg_def)

lemma chain_leaves_cycles:
  assumes "\<forall>i \<in> S. \<exists>j \<in> S. node_next p i = Some j" "i \<in> S"
  shows "node_chain p (Some i) = None"
proof -
  have "node_chain p (Some i) = Some ns \<Longrightarrow> i \<in> S \<Longrightarrow> False" for i ns
  proof (induction ns arbitrary: i)
    case (Cons a ns)
    from assms(1) Cons.prems(2) obtain j where j: "j \<in> S" "node_next p i = Some j" by blast
    from Cons.prems(1) j(2) have "node_chain p (Some j) = Some ns"
      by (subst (asm) node_chain.simps) (auto split: bind_splits)
    with Cons.IH j(1) show ?case by blast
  qed (subst (asm) node_chain.simps, auto split: bind_splits)
  with assms(2) show ?thesis by (cases "node_chain p (Some i)") auto
qed

text \<open>
  Two files behind both markers and room for one eviction: the round collects the first; before the round
  comes to delete it, both files are used.
\<close>

definition race_pol :: lruPolicy where
  "race_pol = \<lparr>lp_cfg = lru_cfg\<lparr>pc_maxEviction := 1\<rparr>, lp_nodeMap = [(''/t/x'', 2), (''/t/z'', 3)],
     lp_nodes = (\<lambda>_. new_node 0 [])
       (0 := \<lparr>ln_next = Some 1, ln_prev = None, ln_usage = - 1, ln_deleted = False, ln_name = ''__''\<rparr>,
        1 := \<lparr>ln_next = Some 2, ln_prev = Some 0, ln_usage = - 1, ln_deleted = False, ln_name = ''##''\<rparr>,
        2 := \<lparr>ln_next = Some 3, ln_prev = Some 1, ln_usage = 1, ln_deleted = False, ln_name = ''/t/x''\<rparr>,
        3 := \<lparr>ln_next = None, ln_prev = Some 2, ln_usage = 1, ln_deleted = False, ln_name = ''/t/z''\<rparr>),
     lp_fresh = 4, lp_head = Some 0, lp_currMarker = 0, lp_lastMarker = 1, lp_validateChan = []\<rparr>"

definition use_between :: "lruPolicy \<Rightarrow> lruPolicy option" where
  "use_between p = do {
     (ds, p1) \<leftarrow> collect_expired p;
     p2 \<leftarrow> cacheValidate ''/t/x'' False p1;
     cacheValidate ''/t/z'' False p2
   }"

lemma race_pol_ok: "pol_inv {} race_pol [0, 1, 2, 3]"
proof (rule pol_invI)
  show "linked race_pol [0, 1, 2, 3]" by (simp add: linked_def race_pol_def)
  show "markers_in race_pol [0, 1, 2, 3]"
    unfolding markers_in_def by (rule exI [of _ "[]"], rule exI [of _ "[]"], rule exI [of _ "[2, 3]"]) (simp add: race_pol_def)
  show "i < lp_fresh race_pol \<and> node_name race_pol i = name \<and> i \<noteq> lp_currMarker race_pol \<and>
      i \<noteq> lp_lastMarker race_pol \<and> proper_name race_pol name" if "map_of (lp_nodeMap race_pol) name = Some i" for name i
    using that by (auto simp: race_pol_def lru_cfg_def trim_prefix_def split: if_splits)
  show "map_of (lp_nodeMap race_pol) (node_name race_pol i) = Some i"
    if "i \<in> set [0, 1, 2, 3]" "i \<noteq> lp_currMarker race_pol" "i \<noteq> lp_lastMarker race_pol" for i
    using that by (auto simp: race_pol_def)
qed (auto simp: race_pol_def split: if_splits)

lemma race_walk:
  assumes "pc_maxEviction (lp_cfg p) = 1" "expire_name p i = Some obj" "map_of (pc_pendingOps (lp_cfg p)) obj = None"
    "node_next p i = Some j"
  shows "expire_walk p (Some i) 0 = Some ([i], Some j, upd_node i (\<lambda>n. n\<lparr>ln_deleted := True\<rparr>) p)"
  using assms by (subst expire_walk.simps, simp, subst expire_walk.simps) simp

lemma race_collects:
  "\<exists>p. collect_expired race_pol = Some ([2], p) \<and> lp_head p = Some 0 \<and> lp_nodeMap p = [(''/t/x'', 2), (''/t/z'', 3)] \<and>
     node_next p 0 = Some 1 \<and> node_next p 1 = Some 3 \<and> node_next p 2 = Some 3 \<and> node_next p 3 = None \<and>
     node_prev p 0 = None \<and> node_prev p 1 = Some 0 \<and> node_prev p 2 = None \<and> node_prev p 3 = Some 1"
proof -
  let ?p = "upd_node 2 (\<lambda>n. n\<lparr>ln_prev := None\<rparr>) (upd_node 1 (\<lambda>n. n\<lparr>ln_next := None\<rparr>) race_pol)"
  have "expire_name ?p 2 = Some ''x''"
    by (simp add: expire_name_def race_pol_def lru_cfg_def NormalizeObjectName_def replace_char_def trim_prefix_def)
  then have "expire_walk ?p (Some 2) 0 = Some ([2], Some 3, upd_node 2 (\<lambda>n. n\<lparr>ln_deleted := True\<rparr>) ?p)"
    by (rule race_walk [rotated]) (simp_all add: race_pol_def lru_cfg_def)
  moreover have "lp_lastMarker race_pol = 1" "node_next race_pol 1 = Some 2" by (simp_all add: race_pol_def)
  ultimately show ?thesis by (simp add: collect_expired_def Let_def) (simp add: race_pol_def)
qed

lemma use_between_nodes:
  "\<exists>p. use_between race_pol = Some p \<and> lp_head p = Some 3 \<and>
     (\<forall>i \<in> {0, 1, 2, 3}. \<exists>j \<in> {0, 1, 2, 3}. node_next p i = Some j)"
proof -
  from race_collects obtain p where c: "collect_expired race_pol = Some ([2], p)" "lp_head p = Some 0"
    "lp_nodeMap p = [(''/t/x'', 2), (''/t/z'', 3)]"
    and n: "node_next p 0 = Some 1" "node_next p 1 = Some 3" "node_next p 2 = Some 3" "node_next p 3 = None"
      "node_prev p 0 = None" "node_prev p 1 = Some 0" "node_prev p 2 = None" "node_prev p 3 = Some 1" by blast
  have "\<exists>q. cacheValidate ''/t/x'' False p = Some q \<and> lp_head q = Some 2 \<and> lp_nodeMap q = lp_nodeMap p \<and>
      node_next q 0 = Some 1 \<and> node_next q 1 = Some 3 \<and> node_next q 2 = Some 0 \<and> node_next q 3 = None \<and> node_prev q 3 = None"
    using c(2,3) n by (simp add: cacheValidate_def Let_def extractNode_nodes setHead_def)
  then obtain q where q: "cacheValidate ''/t/x'' False p = Some q" "lp_head q = Some 2" "lp_nodeMap q = lp_nodeMap p"
    and m: "node_next q 0 = Some 1" "node_next q 1 = Some 3" "node_next q 2 = Some 0" "node_next q 3 = None" "node_prev q 3 = None" by blast
  have "\<exists>r. cacheValidate ''/t/z'' False q = Some r \<and> lp_head r = Some 3 \<and>
      node_next r 0 = Some 1 \<and> node_next r 1 = Some 3 \<and> node_next r 2 = Some 0 \<and> node_next r 3 = Some 2"
    using q(2,3) c(3) m by (simp add: cacheValidate_def Let_def extractNode_nodes setHead_def)
  with c(1) q(1) show ?thesis by (auto simp: use_between_def)
qed

text \<open>
  C40. The list does not survive a use in the middle of a round: from a good state, when the round has
  collected its files and released the policy's lock, two files used before it deletes the first tie the
  list into a ring, and the walk of the next snapshot, which holds the lock, never ends.
\<close>
theorem restored_file_ties_a_ring:
  "\<exists>p. pol_inv {} race_pol [0, 1, 2, 3] \<and> use_between race_pol = Some p \<and> createSnapshot p = None"
proof -
  from use_between_nodes obtain p where p: "use_between race_pol = Some p" "lp_head p = Some 3"
    "\<forall>i \<in> {0, 1, 2, 3}. \<exists>j \<in> {0, 1, 2, 3}. node_next p i = Some j" by blast
  from chain_leaves_cycles [OF p(3), of 3] have "createSnapshot p = None" by (simp add: createSnapshot_def p(2))
  with p(1) race_pol_ok show ?thesis by blast
qed

end
