(* ===== verification/File_Lru_Snapshot.thy ===== *)
theory File_Lru_Snapshot
  imports File_Lru_Props
begin

text \<open>
  The snapshot of the eviction policy: a policy started from the snapshot of another has the other's
  list, markers included, and its pending operations.
\<close>

section \<open>Writing\<close>

text \<open>The file names a cache below a clean path holds.\<close>

definition cache_name :: "string \<Rightarrow> string \<Rightarrow> bool" where
  "cache_name tmp name \<longleftrightarrow> prefix tmp name \<and> drop (length tmp) name \<noteq> [] \<and> path_join [tmp, drop (length tmp) name] = name"

definition rel_name :: "lruPolicy \<Rightarrow> nat \<Rightarrow> string" where
  "rel_name p i = drop (length (pc_tmpPath (lp_cfg p))) (node_name p i)"

definition snap_flag :: "lruPolicy \<Rightarrow> nat \<Rightarrow> bool" where
  "snap_flag p i = sync_pending p (NormalizeObjectName (tl (rel_name p i)))"

lemma snap_walk_files:
  "\<forall>i \<in> set ns. i \<noteq> lp_currMarker p \<and> i \<noteq> lp_lastMarker p \<and> cache_name (pc_tmpPath (lp_cfg p)) (node_name p i) \<Longrightarrow>
     snap_walk p idx (ns @ ms) ss = snap_walk p (idx + int (length ns)) ms
       (ss\<lparr>NodeList := NodeList ss @ map (rel_name p) ns, SyncPendingFlags := SyncPendingFlags ss @ map (snap_flag p) ns\<rparr>)"
proof (induction ns arbitrary: idx ss)
  case (Cons i ns)
  then obtain c cs where "rel_name p i = c # cs" by (cases "rel_name p i") (auto simp: cache_name_def rel_name_def)
  with Cons show ?case
    by (simp add: Let_def cache_name_def rel_name_def snap_flag_def algebra_simps)
qed simp

lemma createSnapshot_result:
  assumes inv: "pol_inv {} p ns" and ns: "ns = a @ lp_currMarker p # b @ lp_lastMarker p # c"
    and nm: "\<forall>m. FileEntry m \<in> set (entries p ns) \<longrightarrow> cache_name (pc_tmpPath (lp_cfg p)) m"
  shows "createSnapshot p = Some
    \<lparr>NodeList = map (rel_name p) (a @ b @ c), SyncPendingFlags = map (snap_flag p) (a @ b @ c),
     CurrMarkerPosition = int (length a), LastMarkerPosition = int (length a + 1 + length b),
     ss_PendingOps = map (\<lambda>(k, f). (k, \<lparr>ps_IsDir = pf_isDir f, ps_IsDeletion = pf_isDeletion f\<rparr>)) (pc_pendingOps (lp_cfg p))\<rparr>"
proof -
  have ne: "lp_lastMarker p \<noteq> lp_currMarker p" using markers_ne [OF inv] by simp
  have d: "distinct ns" by (rule pol_invD(4) [OF inv])
  have f: "i \<noteq> lp_currMarker p \<and> i \<noteq> lp_lastMarker p \<and> cache_name (pc_tmpPath (lp_cfg p)) (node_name p i)"
    if i: "i \<in> set (a @ b @ c)" for i
  proof -
    have m: "i \<noteq> lp_currMarker p" "i \<noteq> lp_lastMarker p" using i d ns by auto
    then have "FileEntry (node_name p i) \<in> set (entries p ns)"
      using i ns by (auto simp: entries_def label_def intro!: image_eqI [of _ _ i])
    with nm m show ?thesis by blast
  qed
  have "node_chain p (lp_head p) = Some ns" by (rule node_chain_linked [OF pol_invD(1) [OF inv]])
  moreover have "snap_walk p 0 ns ss = Some (ss\<lparr>NodeList := NodeList ss @ map (rel_name p) (a @ b @ c),
      SyncPendingFlags := SyncPendingFlags ss @ map (snap_flag p) (a @ b @ c),
      CurrMarkerPosition := int (length a), LastMarkerPosition := int (length a + 1 + length b)\<rparr>)" for ss
    using snap_walk_files [of a p] snap_walk_files [of b p] snap_walk_files [of c p _ "[]"] f ne
    by (simp add: ns Let_def algebra_simps)
  ultimately show ?thesis by (simp add: createSnapshot_def)
qed

section \<open>Reading\<close>

definition loading :: "lruPolicy \<Rightarrow> nat list \<Rightarrow> nat list \<Rightarrow> nat option \<Rightarrow> nat \<Rightarrow> bool" where
  "loading p dn todo nxt tn \<longleftrightarrow> pol_inv {} p (dn @ todo) \<and> nxt = first_of todo None \<and>
     (if todo = [] then last_of None dn = Some tn else tn = lp_lastMarker p \<and> tn \<in> set todo) \<and>
     (\<forall>name i. map_of (lp_nodeMap p) name = Some i \<longrightarrow> i \<in> set (dn @ todo))"

text \<open>Putting a node that is in the map, and in no list, before another one or at the end.\<close>

lemma insert_before_nodes:
  assumes "linked p (xs @ ys)" "i \<notin> set (xs @ ys)" "xs @ ys \<noteq> []"
    "if ys = [] then last_of None xs = Some tn else tn \<notin> set xs"
  shows "\<exists>p'. insert_before i (first_of ys None) (tn, p) = (if ys = [] then i else tn, p') \<and> linked p' (xs @ i # ys) \<and>
    lp_cfg p' = lp_cfg p \<and> lp_nodeMap p' = lp_nodeMap p \<and> lp_fresh p' = lp_fresh p \<and>
    lp_currMarker p' = lp_currMarker p \<and> lp_lastMarker p' = lp_lastMarker p \<and> lp_validateChan p' = lp_validateChan p \<and>
    (\<forall>j. node_name p' j = node_name p j \<and> ln_deleted (lp_nodes p' j) = ln_deleted (lp_nodes p j))"
proof -
  have d: "distinct (xs @ ys)" and h: "lp_head p = first_of (xs @ ys) None"
    and s: "seg p None xs (first_of ys None)" "seg p (last_of None xs) ys None"
    using assms(1) by (simp_all add: linked_def seg_append)
  let ?nxt = "first_of ys None" and ?prv = "last_of None xs"
  let ?p1 = "upd_node i (\<lambda>n. n\<lparr>ln_prev := ?prv, ln_next := ?nxt\<rparr>) p"
  let ?p2 = "case ?nxt of Some x \<Rightarrow> upd_node x (\<lambda>n. n\<lparr>ln_prev := Some i\<rparr>) ?p1 | None \<Rightarrow> ?p1"
  let ?p3 = "case ?prv of Some y \<Rightarrow> upd_node y (\<lambda>n. n\<lparr>ln_next := Some i\<rparr>) ?p2 | None \<Rightarrow> ?p2"
  let ?p4 = "if lp_head ?p3 = ?nxt then ?p3\<lparr>lp_head := Some i\<rparr> else ?p3"
  have prv: "(case ?nxt of Some x \<Rightarrow> node_prev p x | None \<Rightarrow> Some tn) = ?prv"
  proof (cases ys)
    case Nil
    with assms(4) show ?thesis by simp
  next
    case (Cons y ys')
    with s(2) show ?thesis by simp
  qed
  have tn: "?prv = Some tn \<longleftrightarrow> ys = []" using assms(4) last_of_in [of xs tn] by (auto split: if_splits)
  have nodes: "node_name ?p4 j = node_name p j" "ln_deleted (lp_nodes ?p4 j) = ln_deleted (lp_nodes p j)"
    "node_prev ?p4 j = (if ?nxt = Some j then Some i else if j = i then ?prv else node_prev p j)"
    "node_next ?p4 j = (if ?prv = Some j then Some i else if j = i then ?nxt else node_next p j)" for j
    using assms(2) first_of_in [of ys i] last_of_in [of xs i] by (auto split: option.split)
  have flds: "lp_cfg ?p4 = lp_cfg p" "lp_nodeMap ?p4 = lp_nodeMap p" "lp_fresh ?p4 = lp_fresh p"
    "lp_currMarker ?p4 = lp_currMarker p" "lp_lastMarker ?p4 = lp_lastMarker p" "lp_validateChan ?p4 = lp_validateChan p"
    "lp_head ?p3 = lp_head p"
    by (auto split: option.split)
  have "insert_before i ?nxt (tn, p) = (if ys = [] then i else tn, ?p4)"
    unfolding insert_before_def Let_def prod.case prv tn ..
  moreover have "linked ?p4 (xs @ i # ys)"
  proof -
    have "seg ?p4 None xs (Some i)"
      using d assms(2) first_of_in [of ys] by (intro seg_change_next [OF s(1)]) (auto simp: nodes)
    moreover have "seg ?p4 (Some i) ys None"
      using d assms(2) last_of_in [of xs] by (intro seg_change_prev [OF s(2)]) (auto simp: nodes)
    moreover have "node_prev ?p4 i = ?prv" "node_next ?p4 i = ?nxt"
      using assms(2) first_of_in [of ys i] last_of_in [of xs i] by (auto simp: nodes)
    moreover have "lp_head ?p4 = first_of (xs @ i # ys) None"
      using h flds(7) assms(2,3) d by (cases xs; cases ys) (auto simp: first_of_def split: if_splits)
    ultimately show ?thesis using d assms(2) by (auto simp: linked_def seg_append first_of_def)
  qed
  ultimately show ?thesis using nodes(1,2) flds(1-6) by blast
qed

lemma markers_subseq: "markers_in p ns \<longleftrightarrow> subseq [lp_currMarker p, lp_lastMarker p] ns"
proof
  assume "subseq [lp_currMarker p, lp_lastMarker p] ns"
  then obtain xs r where r: "ns = xs @ lp_currMarker p # r" "subseq [lp_lastMarker p] r"
    by (auto dest: list_emb_ConsD)
  from r(2) obtain ys zs where "r = ys @ lp_lastMarker p # zs" by (auto dest: list_emb_ConsD)
  with r(1) show "markers_in p ns" by (auto simp: markers_in_def)
qed (auto simp: markers_in_def intro!: subseq_drop_many)

lemma load_step:
  assumes L: "loading p dn todo nxt tn" and nm: "map_of (lp_nodeMap p) name = None" "proper_name p name"
  shows "\<exists>p' tn'. insert_before (lp_fresh p) nxt (tn, with_new name p) = (tn', p') \<and>
    loading p' (dn @ [lp_fresh p]) todo nxt tn' \<and> entries p' (dn @ [lp_fresh p]) = entries p dn @ [FileEntry name] \<and>
    entries p' todo = entries p todo \<and> lp_cfg p' = lp_cfg p \<and> lp_currMarker p' = lp_currMarker p \<and>
    lp_lastMarker p' = lp_lastMarker p \<and> map_of (lp_nodeMap p') = (map_of (lp_nodeMap p))(name \<mapsto> lp_fresh p)"
proof -
  let ?i = "lp_fresh p" and ?q = "with_new name p"
  have inv: "pol_inv {} p (dn @ todo)" and nx: "nxt = first_of todo None"
    and tn: "if todo = [] then last_of None dn = Some tn else tn = lp_lastMarker p \<and> tn \<in> set todo"
    and al: "\<forall>name i. map_of (lp_nodeMap p) name = Some i \<longrightarrow> i \<in> set (dn @ todo)"
    using L unfolding loading_def by blast+
  note I = pol_invD [OF inv]
  have q: "pol_inv {} ?q (dn @ todo)" by (rule pol_inv_new [OF inv nm])
  note Q = pol_invD [OF q]
  have ni: "?i \<notin> set (dn @ todo)" using I(3) by blast
  have ne: "dn @ todo \<noteq> []" using I(2) by (auto simp: markers_in_def)
  have "if todo = [] then last_of None dn = Some tn else tn \<notin> set dn" using tn I(4) by auto
  from insert_before_nodes [OF Q(1) ni ne this] obtain p' where
    r: "insert_before ?i nxt (tn, ?q) = (if todo = [] then ?i else tn, p')" "linked p' (dn @ ?i # todo)"
    and f: "lp_cfg p' = lp_cfg p" "lp_nodeMap p' = map_store name ?i (lp_nodeMap p)" "lp_fresh p' = Suc ?i"
      "lp_currMarker p' = lp_currMarker p" "lp_lastMarker p' = lp_lastMarker p"
      "\<And>j. node_name p' j = (if j = ?i then name else node_name p j)"
    unfolding nx by (auto simp: new_node_def)
  have mk: "lp_currMarker p \<noteq> ?i" "lp_lastMarker p \<noteq> ?i" using marker_in_list [OF I(2)] ni by auto
  have e: "entries p' ns = entries p ns" if "set ns \<subseteq> set (dn @ todo)" for ns
    using that ni f(4-6) by (auto simp: entries_def label_def)
  have "pol_inv {} p' (dn @ ?i # todo)"
  proof (rule pol_invI)
    show "linked p' (dn @ ?i # todo)" by (rule r(2))
    have "subseq (dn @ todo) (dn @ ?i # todo)" by (intro list_emb_append_mono) auto
    then show "markers_in p' (dn @ ?i # todo)"
      using I(2) subseq_order.trans unfolding markers_subseq f(4,5) by blast
    show "j < lp_fresh p'" if "j \<in> set (dn @ ?i # todo)" for j using that I(3) [of j] by (auto simp: f(3))
    show "j < lp_fresh p' \<and> node_name p' j = n2 \<and> j \<noteq> lp_currMarker p' \<and> j \<noteq> lp_lastMarker p' \<and> proper_name p' n2"
      if "map_of (lp_nodeMap p') n2 = Some j" for n2 j
      using that I(5-9) [of n2 j] mk nm(2) by (auto simp: f less_Suc_eq split: if_splits)
    show "map_of (lp_nodeMap p') (node_name p' j) = Some j"
      if "j \<in> set (dn @ ?i # todo)" "j \<noteq> lp_currMarker p'" "j \<noteq> lp_lastMarker p'" for j
      using that I(10) [of j] ni nm(1) by (auto simp: f)
    show "stray p' (dn @ ?i # todo) j" if "map_of (lp_nodeMap p') n2 = Some j" "j \<notin> set (dn @ ?i # todo)" "j \<notin> {}" for n2 j
      using that al by (auto simp: f split: if_splits)
  qed simp
  moreover have "\<forall>n2 j. map_of (lp_nodeMap p') n2 = Some j \<longrightarrow> j \<in> set (dn @ ?i # todo)"
    using al by (auto simp: f(2))
  ultimately have "loading p' (dn @ [?i]) todo nxt (if todo = [] then ?i else tn)"
    using tn nx f(5) by (cases "todo = []") (auto simp: loading_def)
  moreover have "entries p' (dn @ [?i]) = entries p dn @ [FileEntry name]"
    using e [of dn] f(4-6) mk by (simp add: entries_def label_def)
  ultimately show ?thesis using r(1) e [of todo] f by simp
qed

lemma load_one_here:
  assumes "idx \<noteq> CurrMarkerPosition ss" "idx \<noteq> LastMarkerPosition ss"
  shows "load_one ss (v, False) (idx, nxt, tn, p) =
    (case insert_before (lp_fresh p) nxt (tn, with_new (path_join [pc_tmpPath (lp_cfg p), v]) p) of
       (tn', p') \<Rightarrow> Some (idx + 1, nxt, tn', p'))"
  using assms by (simp add: load_one_def pass_marker_def with_new_def Let_def)

abbreviation load_list :: "string list \<Rightarrow> (string \<times> bool) list" where
  "load_list vs \<equiv> map (\<lambda>v. (v, False)) vs"

lemma load_files:
  assumes "loading p dn todo nxt tn" "\<forall>k < length vs. idx + int k \<noteq> CurrMarkerPosition ss \<and> idx + int k \<noteq> LastMarkerPosition ss"
    "distinct (map (\<lambda>v. path_join [pc_tmpPath (lp_cfg p), v]) vs)"
    "\<forall>v \<in> set vs. map_of (lp_nodeMap p) (path_join [pc_tmpPath (lp_cfg p), v]) = None \<and>
       proper_name p (path_join [pc_tmpPath (lp_cfg p), v])"
  shows "\<exists>p' dn' tn'. load_nodes ss (load_list vs) (idx, nxt, tn, p) = Some (idx + int (length vs), nxt, tn', p') \<and>
    loading p' dn' todo nxt tn' \<and>
    entries p' dn' = entries p dn @ map (\<lambda>v. FileEntry (path_join [pc_tmpPath (lp_cfg p), v])) vs \<and>
    entries p' todo = entries p todo \<and> lp_cfg p' = lp_cfg p \<and> lp_currMarker p' = lp_currMarker p \<and>
    lp_lastMarker p' = lp_lastMarker p \<and>
    (\<forall>m. m \<notin> (\<lambda>v. path_join [pc_tmpPath (lp_cfg p), v]) ` set vs \<longrightarrow> map_of (lp_nodeMap p') m = map_of (lp_nodeMap p) m)"
  using assms
proof (induction vs arbitrary: p dn tn idx)
  case (Cons v vs)
  let ?n = "\<lambda>v. path_join [pc_tmpPath (lp_cfg p), v]"
  from Cons.prems(4) have "map_of (lp_nodeMap p) (?n v) = None" "proper_name p (?n v)" by simp_all
  from load_step [OF Cons.prems(1) this] obtain p1 tn1 where
    s: "insert_before (lp_fresh p) nxt (tn, with_new (?n v) p) = (tn1, p1)" "loading p1 (dn @ [lp_fresh p]) todo nxt tn1"
      "entries p1 (dn @ [lp_fresh p]) = entries p dn @ [FileEntry (?n v)]" "entries p1 todo = entries p todo"
      "lp_cfg p1 = lp_cfg p" "lp_currMarker p1 = lp_currMarker p" "lp_lastMarker p1 = lp_lastMarker p"
      "map_of (lp_nodeMap p1) = (map_of (lp_nodeMap p))(?n v \<mapsto> lp_fresh p)" by blast
  have 1: "load_one ss (v, False) (idx, nxt, tn, p) = Some (idx + 1, nxt, tn1, p1)"
    using Cons.prems(2) s(1) load_one_here [of idx ss v nxt tn p] by force
  have "\<forall>k < length vs. idx + 1 + int k \<noteq> CurrMarkerPosition ss \<and> idx + 1 + int k \<noteq> LastMarkerPosition ss"
  proof (intro allI impI)
    fix k assume "k < length vs"
    with Cons.prems(2) [rule_format, of "Suc k"] show "idx + 1 + int k \<noteq> CurrMarkerPosition ss \<and> idx + 1 + int k \<noteq> LastMarkerPosition ss"
      by (simp add: algebra_simps)
  qed
  moreover have "\<forall>w \<in> set vs. map_of (lp_nodeMap p1) (?n w) = None \<and> proper_name p1 (?n w)"
    using Cons.prems(3,4) by (auto simp: s(5,8)) (metis image_eqI)
  ultimately obtain p' dn' tn' where
    "load_nodes ss (load_list vs) (idx + 1, nxt, tn1, p1) = Some (idx + 1 + int (length vs), nxt, tn', p')"
    "loading p' dn' todo nxt tn'" "entries p' dn' = entries p1 (dn @ [lp_fresh p]) @ map (\<lambda>v. FileEntry (?n v)) vs"
    "entries p' todo = entries p1 todo" "lp_cfg p' = lp_cfg p1" "lp_currMarker p' = lp_currMarker p1"
    "lp_lastMarker p' = lp_lastMarker p1" "\<forall>m. m \<notin> ?n ` set vs \<longrightarrow> map_of (lp_nodeMap p') m = map_of (lp_nodeMap p1) m"
    using Cons.IH [OF s(2), of "idx + 1"] Cons.prems(3) by (auto simp: s(5))
  with 1 s show ?case by (fastforce simp: algebra_simps)
qed (auto simp: entries_def)

text \<open>Only the policy the loop ends with counts, so a marker may be passed before the next file is read.\<close>

abbreviation loaded :: "lruPolicySnapshot \<Rightarrow> (string \<times> bool) list \<Rightarrow> int \<times> nat option \<times> nat \<times> lruPolicy \<Rightarrow> lruPolicy option" where
  "loaded ss vs s \<equiv> map_option (\<lambda>(_, _, _, p). p) (load_nodes ss vs s)"

lemma loaded_append: "load_nodes ss xs s = Some s1 \<Longrightarrow> loaded ss (xs @ ys) s = loaded ss ys s1"
proof (induction xs arbitrary: s)
  case (Cons x xs)
  then show ?case by (cases "load_one ss x s") auto
qed simp

lemma pass_curr:
  assumes "idx = CurrMarkerPosition ss" "x < lp_fresh p"
  shows "loaded ss (load_list vs) (idx, Some x, tn, p) = loaded ss (load_list vs) (idx + 1, node_next p x, tn, p)"
  using assms by (cases vs) (simp_all add: load_one_def pass_marker_def Let_def)

lemma pass_last:
  assumes "idx = LastMarkerPosition ss" "CurrMarkerPosition ss < LastMarkerPosition ss" "x < lp_fresh p"
  shows "loaded ss (load_list vs) (idx, Some x, tn, p) = loaded ss (load_list vs) (idx + 1, node_next p x, tn, p)"
  using assms by (cases vs) (simp_all add: load_one_def pass_marker_def Let_def)

lemma loading_pass:
  assumes "loading p dn (x # todo) nxt tn" "x = lp_lastMarker p \<longleftrightarrow> todo = []"
  shows "loading p (dn @ [x]) todo (node_next p x) tn" "x < lp_fresh p" "nxt = Some x"
proof -
  have inv: "pol_inv {} p (dn @ x # todo)" and "nxt = first_of (x # todo) None" using assms(1) by (simp_all add: loading_def)
  then show "x < lp_fresh p" "nxt = Some x" using pol_invD(3) [OF inv] by simp_all
  have "node_next p x = first_of todo None"
    using pol_invD(1) [OF inv] seg_ends by (auto simp: linked_def)
  then show "loading p (dn @ [x]) todo (node_next p x) tn"
    using assms by (auto simp: loading_def)
qed

lemma load_phase:
  assumes "loading p dn todo nxt tn" "\<forall>k < length vs. idx + int k \<noteq> CurrMarkerPosition ss \<and> idx + int k \<noteq> LastMarkerPosition ss"
    "distinct ns" "ns = map (\<lambda>v. path_join [pc_tmpPath (lp_cfg p), v]) vs"
    "\<forall>n \<in> set (ns @ ms). map_of (lp_nodeMap p) n = None \<and> proper_name p n" "set ns \<inter> set ms = {}"
  shows "\<exists>p' dn' tn'. (\<forall>ws. loaded ss (load_list (vs @ ws)) (idx, nxt, tn, p) =
        loaded ss (load_list ws) (idx + int (length vs), nxt, tn', p')) \<and>
    loading p' dn' todo nxt tn' \<and> entries p' dn' = entries p dn @ map FileEntry ns \<and>
    lp_cfg p' = lp_cfg p \<and> lp_currMarker p' = lp_currMarker p \<and> lp_lastMarker p' = lp_lastMarker p \<and>
    (\<forall>n \<in> set ms. map_of (lp_nodeMap p') n = None \<and> proper_name p' n)"
proof -
  have "\<forall>v \<in> set vs. map_of (lp_nodeMap p) (path_join [pc_tmpPath (lp_cfg p), v]) = None \<and>
      proper_name p (path_join [pc_tmpPath (lp_cfg p), v])" using assms(4,5) by auto
  from load_files [OF assms(1,2) assms(3) [unfolded assms(4)] this] obtain p' dn' tn' where
    l: "load_nodes ss (load_list vs) (idx, nxt, tn, p) = Some (idx + int (length vs), nxt, tn', p')"
    "loading p' dn' todo nxt tn'" "entries p' dn' = entries p dn @ map (\<lambda>v. FileEntry (path_join [pc_tmpPath (lp_cfg p), v])) vs"
    "lp_cfg p' = lp_cfg p" "lp_currMarker p' = lp_currMarker p" "lp_lastMarker p' = lp_lastMarker p"
    "\<forall>m. m \<notin> (\<lambda>v. path_join [pc_tmpPath (lp_cfg p), v]) ` set vs \<longrightarrow> map_of (lp_nodeMap p') m = map_of (lp_nodeMap p) m"
    by blast
  have "entries p' dn' = entries p dn @ map FileEntry ns" using l(3) assms(4) by simp
  moreover have "\<forall>n \<in> set ms. map_of (lp_nodeMap p') n = None \<and> proper_name p' n"
  proof
    fix n assume n: "n \<in> set ms"
    then have "n \<notin> (\<lambda>v. path_join [pc_tmpPath (lp_cfg p), v]) ` set vs" using assms(4,6) by auto
    with l(4,7) assms(5) n show "map_of (lp_nodeMap p') n = None \<and> proper_name p' n" by simp
  qed
  moreover have "loaded ss (load_list (vs @ ws)) (idx, nxt, tn, p) = loaded ss (load_list ws) (idx + int (length vs), nxt, tn', p')" for ws
    using loaded_append [OF l(1), of "load_list ws"] by simp
  ultimately show ?thesis using l(2,4-6) by blast
qed

text \<open>The whole loop, from a list of the two markers.\<close>

lemma load_all:
  assumes L: "loading p [] [lp_currMarker p, lp_lastMarker p] nxt (lp_lastMarker p)"
    and pos: "CurrMarkerPosition ss = int (length a)" "LastMarkerPosition ss = int (length a + 1 + length b)"
    and nm: "map (\<lambda>v. path_join [pc_tmpPath (lp_cfg p), v]) (a @ b @ c) = na @ nb @ nc"
      "length na = length a" "length nb = length b" "distinct (na @ nb @ nc)"
      "\<forall>n \<in> set (na @ nb @ nc). map_of (lp_nodeMap p) n = None \<and> proper_name p n"
  shows "\<exists>q ns. loaded ss (load_list (a @ b @ c)) (0, nxt, lp_lastMarker p, p) = Some q \<and> pol_inv {} q ns \<and>
    entries q ns = map FileEntry na @ CurrMark # map FileEntry nb @ LastMark # map FileEntry nc \<and> lp_cfg q = lp_cfg p"
proof -
  let ?c = "lp_currMarker p" and ?l = "lp_lastMarker p" and ?f = "\<lambda>v. path_join [pc_tmpPath (lp_cfg p), v]"
  have n: "na = map ?f a" "nb = map ?f b" "nc = map ?f c" using nm(1-3) by (simp_all add: append_eq_append_conv)
  have ne: "?c \<noteq> ?l" using L markers_ne unfolding loading_def by blast
  from load_phase [OF L _ _ n(1), of 0 ss "nb @ nc"] nm(4,5) obtain p1 dn1 tn1 where
    1: "\<And>ws. loaded ss (load_list (a @ ws)) (0, nxt, ?l, p) = loaded ss (load_list ws) (int (length a), nxt, tn1, p1)"
      "loading p1 dn1 [?c, ?l] nxt tn1" "entries p1 dn1 = map FileEntry na" "lp_cfg p1 = lp_cfg p"
      "lp_currMarker p1 = ?c" "lp_lastMarker p1 = ?l" "\<forall>n \<in> set (nb @ nc). map_of (lp_nodeMap p1) n = None \<and> proper_name p1 n"
    by (auto simp: pos entries_def)
  have 2: "loading p1 (dn1 @ [?c]) [?l] (node_next p1 ?c) tn1" "?c < lp_fresh p1" "nxt = Some ?c"
    using loading_pass [OF 1(2)] 1(6) ne by simp_all
  have nb: "nb = map (\<lambda>v. path_join [pc_tmpPath (lp_cfg p1), v]) b" using n(2) 1(4) by simp
  from load_phase [OF 2(1) _ _ nb, of "int (length a) + 1" ss nc] nm(4) 1(7) obtain p2 dn2 tn2 where
    3: "\<And>ws. loaded ss (load_list (b @ ws)) (int (length a) + 1, node_next p1 ?c, tn1, p1) =
          loaded ss (load_list ws) (int (length a) + 1 + int (length b), node_next p1 ?c, tn2, p2)"
      "loading p2 dn2 [?l] (node_next p1 ?c) tn2" "entries p2 dn2 = entries p1 (dn1 @ [?c]) @ map FileEntry nb"
      "lp_cfg p2 = lp_cfg p" "lp_currMarker p2 = ?c" "lp_lastMarker p2 = ?l"
      "\<forall>n \<in> set nc. map_of (lp_nodeMap p2) n = None \<and> proper_name p2 n"
    using 1(4-6) by (auto simp: pos)
  have 4: "loading p2 (dn2 @ [?l]) [] (node_next p2 ?l) tn2" "?l < lp_fresh p2" "node_next p1 ?c = Some ?l"
    using loading_pass [OF 3(2)] 3(6) by simp_all
  have nc: "nc = map (\<lambda>v. path_join [pc_tmpPath (lp_cfg p2), v]) c" using n(3) 3(4) by simp
  from load_phase [OF 4(1) _ _ nc, of "int (length a) + 1 + int (length b) + 1" ss "[]"] nm(4) 3(7) obtain p3 dn3 tn3 where
    5: "\<And>ws. loaded ss (load_list (c @ ws)) (int (length a) + 1 + int (length b) + 1, node_next p2 ?l, tn2, p2) =
          loaded ss (load_list ws) (int (length a) + 1 + int (length b) + 1 + int (length c), node_next p2 ?l, tn3, p3)"
      "loading p3 dn3 [] (node_next p2 ?l) tn3" "entries p3 dn3 = entries p2 (dn2 @ [?l]) @ map FileEntry nc" "lp_cfg p3 = lp_cfg p"
    using 3(4-6) by (auto simp: pos)
  have "loaded ss (load_list (a @ b @ c)) (0, nxt, ?l, p) = loaded ss (load_list (b @ c)) (int (length a) + 1, node_next p1 ?c, tn1, p1)"
    unfolding 1(1) unfolding 2(3) by (rule pass_curr) (use pos 2(2) in simp_all)
  also have "\<dots> = loaded ss (load_list c) (int (length a) + 1 + int (length b) + 1, node_next p2 ?l, tn2, p2)"
    unfolding 3(1) unfolding 4(3) by (rule pass_last) (use pos 4(2) in simp_all)
  also have "\<dots> = Some p3" using 5(1) [of "[]"] by simp
  finally have "loaded ss (load_list (a @ b @ c)) (0, nxt, ?l, p) = Some p3" .
  moreover have "entries p3 dn3 = map FileEntry na @ CurrMark # map FileEntry nb @ LastMark # map FileEntry nc"
    using 5(3) 3(3) 1(3) 1(5) 3(5,6) ne by (simp add: entries_def label_def)
  moreover have "pol_inv {} p3 dn3" using 5(2) by (simp add: loading_def)
  ultimately show ?thesis using 5(4) by blast
qed

section \<open>Round trip\<close>

lemma store_pending_simps [simp]:
  "lp_nodes (store_pending k f p) = lp_nodes p" "lp_nodeMap (store_pending k f p) = lp_nodeMap p"
  "lp_head (store_pending k f p) = lp_head p" "lp_fresh (store_pending k f p) = lp_fresh p"
  "lp_currMarker (store_pending k f p) = lp_currMarker p" "lp_lastMarker (store_pending k f p) = lp_lastMarker p"
  "pc_tmpPath (lp_cfg (store_pending k f p)) = pc_tmpPath (lp_cfg p)"
  "pc_fileLocks (lp_cfg (store_pending k f p)) = pc_fileLocks (lp_cfg p)"
  "pc_pendingOps (lp_cfg (store_pending k f p)) = map_store k f (pc_pendingOps (lp_cfg p))"
  by (simp_all add: store_pending_def)

lemma fold_pending:
  "distinct (map fst ops) \<Longrightarrow>
     (let q = fold (\<lambda>(k, f). store_pending k (g f)) ops p in
        lp_nodes q = lp_nodes p \<and> lp_nodeMap q = lp_nodeMap p \<and> lp_head q = lp_head p \<and> lp_fresh q = lp_fresh p \<and>
        lp_currMarker q = lp_currMarker p \<and> lp_lastMarker q = lp_lastMarker p \<and>
        pc_tmpPath (lp_cfg q) = pc_tmpPath (lp_cfg p) \<and> pc_fileLocks (lp_cfg q) = pc_fileLocks (lp_cfg p) \<and>
        map_of (pc_pendingOps (lp_cfg q)) = map_of (pc_pendingOps (lp_cfg p)) ++ map_of (map (\<lambda>(k, f). (k, g f)) ops))"
proof (induction ops arbitrary: p)
  case (Cons x ops)
  obtain k f where x: "x = (k, f)" by fastforce
  have "fst ` set (map (\<lambda>(k, f). (k, g f)) ops) = fst ` set ops" by force
  then have k: "map_of (map (\<lambda>(k, f). (k, g f)) ops) k = None"
    using Cons.prems x unfolding map_of_eq_None_iff by simp
  have "(m(k \<mapsto> v)) ++ map_of (map (\<lambda>(k, f). (k, g f)) ops) = m ++ (map_of (map (\<lambda>(k, f). (k, g f)) ops))(k \<mapsto> v)" for m v
    using k by (auto simp: map_add_def fun_eq_iff split: option.split)
  with Cons.IH [of "store_pending k (g f) p"] Cons.prems x show ?case by (simp add: Let_def del: fun_upd_apply)
qed simp

lemma entries_split:
  assumes inv: "pol_inv {} p ns"
  shows "\<exists>a b c. ns = a @ lp_currMarker p # b @ lp_lastMarker p # c \<and>
    entries p ns = map FileEntry (map (node_name p) a) @ CurrMark # map FileEntry (map (node_name p) b) @
      LastMark # map FileEntry (map (node_name p) c) \<and>
    distinct (map (node_name p) (a @ b @ c)) \<and> (\<forall>i \<in> set (a @ b @ c). proper_name p (node_name p i))"
proof -
  note I = pol_invD [OF inv]
  obtain a b c where ns: "ns = a @ lp_currMarker p # b @ lp_lastMarker p # c" using I(2) by (auto simp: markers_in_def)
  have f: "i \<noteq> lp_currMarker p \<and> i \<noteq> lp_lastMarker p \<and> map_of (lp_nodeMap p) (node_name p i) = Some i" if "i \<in> set (a @ b @ c)" for i
    using that I(4) I(10) [of i] by (auto simp: ns)
  have e: "map (label p) xs = map FileEntry (map (node_name p) xs)" if "set xs \<subseteq> set (a @ b @ c)" for xs
    using that f by (auto simp: label_def)
  have "inj_on (node_name p) (set (a @ b @ c))" using f by (metis (no_types, lifting) inj_onI option.inject)
  then have "distinct (map (node_name p) (a @ b @ c))" using I(4) by (simp only: distinct_map) (auto simp: ns)
  moreover have a: "set a \<subseteq> set (a @ b @ c)" and b: "set b \<subseteq> set (a @ b @ c)" and c: "set c \<subseteq> set (a @ b @ c)" by auto
  have "entries p ns = map FileEntry (map (node_name p) a) @ CurrMark # map FileEntry (map (node_name p) b) @
      LastMark # map FileEntry (map (node_name p) c)"
    using markers_ne [OF inv] e [of a, OF a] e [of b, OF b] e [of c, OF c] by (simp add: entries_def ns del: map_map)
  ultimately show ?thesis using ns f I(9) by blast
qed

text \<open>
  C17. Restarting the policy from the snapshot its predecessor took at shutdown restores the list with the
  markers where they were, and the pending operations.
\<close>
theorem snapshot_roundtrip:
  assumes ok: "pol_ok tmp p" and l: "listing p = Some es" and nm: "\<forall>m. FileEntry m \<in> set es \<longrightarrow> cache_name tmp m"
    and pd: "distinct (map fst (pc_pendingOps (lp_cfg p)))"
    and cfg: "pc_tmpPath cfg = tmp" "pc_pendingOps cfg = []" "lock_map_inv (pc_fileLocks cfg)"
  shows "\<exists>ss q. createSnapshot p = Some ss \<and> StartPolicy (Some ss) (NewLRUPolicy cfg) = Some q \<and> pol_ok tmp q \<and>
    listing q = Some es \<and> map_of (pc_pendingOps (lp_cfg q)) = map_of (pc_pendingOps (lp_cfg p))"
proof -
  obtain ns where inv: "pol_inv {} p ns" and es: "es = entries p ns" using pol_ok_listing [OF ok l] by blast
  have tmp: "pc_tmpPath (lp_cfg p) = tmp" using ok by (simp add: pol_ok_def)
  obtain a b c where ns: "ns = a @ lp_currMarker p # b @ lp_lastMarker p # c"
    and e: "entries p ns = map FileEntry (map (node_name p) a) @ CurrMark # map FileEntry (map (node_name p) b) @
      LastMark # map FileEntry (map (node_name p) c)"
    and d: "distinct (map (node_name p) (a @ b @ c))" "\<forall>i \<in> set (a @ b @ c). proper_name p (node_name p i)"
    using entries_split [OF inv] by blast
  define ops where "ops = map (\<lambda>(k, f). (k, \<lparr>ps_IsDir = pf_isDir f, ps_IsDeletion = pf_isDeletion f\<rparr>)) (pc_pendingOps (lp_cfg p))"
  define g :: "pendingOpSnapshot \<Rightarrow> pendingFlags" where "g = (\<lambda>f. \<lparr>pf_isDir = ps_IsDir f, pf_isDeletion = ps_IsDeletion f\<rparr>)"
  have eta: "\<lparr>pf_isDir = pf_isDir f, pf_isDeletion = pf_isDeletion f\<rparr> = f" for f :: pendingFlags by (cases f) simp
  have gops: "map (\<lambda>(k, f). (k, g f)) ops = pc_pendingOps (lp_cfg p)" "distinct (map fst ops)"
    using pd by (simp_all add: ops_def g_def case_prod_beta comp_def eta)
  have cn: "\<forall>m. FileEntry m \<in> set (entries p ns) \<longrightarrow> cache_name (pc_tmpPath (lp_cfg p)) m" using nm es tmp by simp
  obtain ss where ss: "createSnapshot p = Some ss"
    "NodeList ss = map (rel_name p) a @ map (rel_name p) b @ map (rel_name p) c" "SyncPendingFlags ss = map (snap_flag p) (a @ b @ c)"
    "CurrMarkerPosition ss = int (length (map (rel_name p) a))"
    "LastMarkerPosition ss = int (length (map (rel_name p) a) + 1 + length (map (rel_name p) b))" "ss_PendingOps ss = ops"
    using that [OF createSnapshot_result [OF inv ns cn]] by (simp add: ops_def)
  define p0 where "p0 = (let c = 0; l = 1; p1 = upd_node l (\<lambda>n. n\<lparr>ln_prev := Some c, ln_next := None\<rparr>)
    (upd_node c (\<lambda>n. n\<lparr>ln_prev := None, ln_next := Some l\<rparr>) (NewLRUPolicy cfg)) in p1\<lparr>lp_head := Some c, lp_validateChan := []\<rparr>)"
  define p1 where "p1 = fold (\<lambda>(k, f). store_pending k (g f)) ops p0"
  have flags: "zip (NodeList ss) (if ops = [] \<and> length (NodeList ss) = length (SyncPendingFlags ss)
      then SyncPendingFlags ss else replicate (length (NodeList ss)) False) = load_list (NodeList ss)"
  proof -
    have "ops = [] \<Longrightarrow> map (snap_flag p) xs = replicate (length xs) False" for xs
      by (induction xs) (auto simp: ops_def snap_flag_def)
    from this [of "a @ b @ c"] have "ops = [] \<Longrightarrow> SyncPendingFlags ss = replicate (length (NodeList ss)) False"
      unfolding ss(2,3) by simp
    then have "(if ops = [] \<and> length (NodeList ss) = length (SyncPendingFlags ss) then SyncPendingFlags ss
        else replicate (length (NodeList ss)) False) = replicate (length (NodeList ss)) False" by presburger
    then show ?thesis by (simp only: zip_replicate2 take_all order_refl)
  qed
  have st: "StartPolicy (Some ss) (NewLRUPolicy cfg) = loaded ss (load_list (NodeList ss)) (0, lp_head p1, lp_lastMarker p1, p1)"
  proof -
    have "StartPolicy (Some ss) (NewLRUPolicy cfg) = loadSnapshot (Some ss) p0"
      by (simp add: StartPolicy_def p0_def NewLRUPolicy_def Let_def)
    also have "\<dots> = loaded ss (load_list (NodeList ss)) (0, lp_head p1, lp_lastMarker p1, p1)"
      unfolding loadSnapshot_def option.case Let_def ss(6) flags p1_def g_def ..
    finally show ?thesis .
  qed
  have f: "lp_nodes p1 = lp_nodes p0" "lp_nodeMap p1 = []" "lp_head p1 = Some 0" "lp_fresh p1 = 2" "lp_currMarker p1 = 0"
    "lp_lastMarker p1 = 1" "pc_tmpPath (lp_cfg p1) = tmp" "pc_fileLocks (lp_cfg p1) = pc_fileLocks cfg"
    "map_of (pc_pendingOps (lp_cfg p1)) = map_of (pc_pendingOps (lp_cfg p))"
    using fold_pending [OF gops(2), of g p0] cfg
    by (simp_all add: Let_def p1_def [symmetric] gops(1)) (simp_all add: p0_def NewLRUPolicy_def Let_def)
  have n0: "node_next p1 0 = Some 1" "node_next p1 1 = None" "node_prev p1 0 = None" "node_prev p1 1 = Some 0"
    by (simp_all add: f(1) p0_def Let_def)
  have i1: "pol_inv {} p1 [0, 1]"
    by (rule pol_invI) (use n0 in \<open>auto simp: f(2-6) linked_def markers_in_def intro!: exI [of _ "[]"]\<close>)
  have L: "loading p1 [] [lp_currMarker p1, lp_lastMarker p1] (lp_head p1) (lp_lastMarker p1)"
    using i1 by (simp add: loading_def f)
  have nm2: "path_join [tmp, rel_name p i] = node_name p i" if "i \<in> set (a @ b @ c)" for i
  proof -
    have "FileEntry (node_name p i) \<in> set es" using that unfolding es e by auto
    with nm tmp show ?thesis by (simp add: cache_name_def rel_name_def)
  qed
  have 1: "map (\<lambda>v. path_join [pc_tmpPath (lp_cfg p1), v]) (map (rel_name p) a @ map (rel_name p) b @ map (rel_name p) c) =
      map (node_name p) a @ map (node_name p) b @ map (node_name p) c" using nm2 by (simp add: f(7))
  have 2: "\<forall>n \<in> set (map (node_name p) a @ map (node_name p) b @ map (node_name p) c).
      map_of (lp_nodeMap p1) n = None \<and> proper_name p1 n" using d(2) by (auto simp: f tmp)
  from load_all [OF L ss(4,5) 1 _ _ _ 2] d(1) obtain q qs where
    q: "loaded ss (load_list (NodeList ss)) (0, lp_head p1, lp_lastMarker p1, p1) = Some q" "pol_inv {} q qs"
      "entries q qs = es" "lp_cfg q = lp_cfg p1" by (auto simp: es e ss(2))
  have "pol_ok tmp q" using q(2,4) f(7,8) cfg(3) by (auto simp: pol_ok_def)
  with ss(1) st q listing_inv [OF q(2)] f(9) show ?thesis by simp
qed

lemma snapshot_roundtrip_witness:
  "\<exists>ss q. createSnapshot lru_pol = Some ss \<and> StartPolicy (Some ss) (NewLRUPolicy (lru_cfg\<lparr>pc_pendingOps := []\<rparr>)) = Some q \<and>
    pol_ok ''/t'' q \<and> listing q = Some ([FileEntry ''/t/a''] @ CurrMark # [FileEntry ''/t/c'', FileEntry ''/t/b''] @ LastMark # []) \<and>
    map_of (pc_pendingOps (lp_cfg q)) = map_of (pc_pendingOps (lp_cfg lru_pol))"
proof (rule snapshot_roundtrip [OF lru_pol_ok lru_pol_listing])
  have "cache_name ''/t'' ''/t/a''" "cache_name ''/t'' ''/t/b''" "cache_name ''/t'' ''/t/c''" by code_simp+
  then show "\<forall>m. FileEntry m \<in> set ([FileEntry ''/t/a''] @ CurrMark # [FileEntry ''/t/c'', FileEntry ''/t/b''] @ LastMark # []) \<longrightarrow>
      cache_name ''/t'' m" by auto
qed (simp_all add: lru_pol_def lru_cfg_def lock_map_inv_new)

end
