(* ===== verification/File_Cache.thy ===== *)
theory File_Cache
  imports File_Lru Os_More
begin

text \<open>
  The file cache component (\<open>component/file_cache/file_cache.go\<close>, \<open>async.go\<close>): whole files are downloaded
  into a local directory, read and written there, and uploaded when they are flushed or closed. When
  the cloud is unreachable it serves what is cached and queues the changes.

  The state is the component's and that of the next component. The local files are files of the
  operating system, which the storage component writes downloads to as well, so they are part of the
  state below: the environment says how to reach them, what \<open>du\<close> reports, and what the disk has free.
  \<open>pendingOps\<close> and the lock map are shared by pointer with the eviction policy, and kept there.

  Handles are cells of a heap. A handle is in the process's handle table from its creation until it is
  released: libfuse adds it as soon as it is returned. A file's lock is not part of the state: what the
  code does under it is one step.
\<close>

section \<open>State\<close>

record openFileOptions =
  oo_flags :: int
  oo_fMode :: file_mode

record FcHandle = Handle +
  fh_openFileOptions :: "openFileOptions option"

record FileCache =
  fc_tmpPath :: string
  fc_policy :: lruPolicy
  fc_createEmptyFile :: bool
  fc_allowNonEmpty :: bool
  fc_cacheTimeout :: int
  fc_policyTrace :: bool
  fc_missedChmodList :: "string list"
  fc_mountPath :: string
  fc_allowOther :: bool
  fc_offloadIO :: bool
  fc_offlineAccess :: bool
  fc_maxCacheSizeMB :: rat
  fc_defaultPermission :: file_mode
  fc_refreshSec :: int
  fc_hardLimit :: bool
  fc_diskHighWaterMark :: rat
  fc_lazyWrite :: bool
  fc_schedule :: "string list"
  fc_activeWindows :: int
  fc_windowOpen :: bool
  fc_heap :: "nat \<Rightarrow> FcHandle"
  fc_table :: "nat list"
  fc_fresh :: nat

record 'n fc_env =
  e_next :: "'n component"
  e_fs :: "'n \<Rightarrow> os_fs"
  e_set_fs :: "os_fs \<Rightarrow> 'n \<Rightarrow> 'n"
  e_usage :: "os_fs \<Rightarrow> string \<Rightarrow> rat option"
  e_avail :: "os_fs \<Rightarrow> error + int"

type_synonym 'n fc_state = "FileCache \<times> 'n"

definition DefaultFilePermissionBits :: file_mode where "DefaultFilePermissionBits = 0x1ED"

abbreviation no_cause :: error where "no_cause \<equiv> Joined []"

section \<open>Steps of the parts\<close>

definition local_path :: "FileCache \<Rightarrow> string \<Rightarrow> string" where
  "local_path fc name = path_join [fc_tmpPath fc, name]"

abbreviation fc_fs :: "'n fc_env \<Rightarrow> 'n fc_state \<Rightarrow> os_fs" where
  "fc_fs E s \<equiv> e_fs E (snd s)"

definition fc_os :: "'n fc_env \<Rightarrow> (os_fs \<Rightarrow> 'r \<times> os_fs) \<Rightarrow> 'n fc_state \<Rightarrow> 'r \<times> 'n fc_state" where
  "fc_os E f s = (case f (fc_fs E s) of (r, fs) \<Rightarrow> (r, (fst s, e_set_fs E fs (snd s))))"

definition fc_CacheValid :: "string \<Rightarrow> 'n fc_state \<Rightarrow> 'n fc_state option" where
  "fc_CacheValid path = (\<lambda>(fc, n). map_option (\<lambda>p. (fc\<lparr>fc_policy := p\<rparr>, n)) (CacheValid path (fc_policy fc)))"

definition fc_CachePurge :: "'n fc_env \<Rightarrow> string \<Rightarrow> 'n fc_state \<Rightarrow> 'n fc_state" where
  "fc_CachePurge E path = (\<lambda>(fc, n).
     case CachePurge path (fc_policy fc, e_fs E n) of (p, fs) \<Rightarrow> (fc\<lparr>fc_policy := p\<rparr>, e_set_fs E fs n))"

text \<open>\<open>FileUsed\<close>: \<open>CacheValid\<close> for the name of an object. Its error is always nil.\<close>

definition fc_FileUsed :: "string \<Rightarrow> 'n fc_state \<Rightarrow> 'n fc_state option" where
  "fc_FileUsed name s = fc_CacheValid (local_path (fst s) name) s"

abbreviation fc_locks :: "FileCache \<Rightarrow> LockMap" where
  "fc_locks fc \<equiv> pc_fileLocks (lp_cfg (fc_policy fc))"

definition set_locks :: "LockMap \<Rightarrow> FileCache \<Rightarrow> FileCache" where
  "set_locks ls fc = fc\<lparr>fc_policy := (fc_policy fc)\<lparr>lp_cfg := (lp_cfg (fc_policy fc))\<lparr>pc_fileLocks := ls\<rparr>\<rparr>\<rparr>"

definition get_flock :: "string \<Rightarrow> 'n fc_state \<Rightarrow> nat \<times> 'n fc_state" where
  "get_flock name = (\<lambda>(fc, n). case lm_Get (fc_locks fc) name of (i, ls) \<Rightarrow> (i, (set_locks ls fc, n)))"

abbreviation flock_at :: "nat \<Rightarrow> 'n fc_state \<Rightarrow> LockMapItem" where
  "flock_at i s \<equiv> lock_items (fc_locks (fst s)) i"

definition upd_flock :: "nat \<Rightarrow> (LockMapItem \<Rightarrow> LockMapItem) \<Rightarrow> 'n fc_state \<Rightarrow> 'n fc_state" where
  "upd_flock i f = (\<lambda>(fc, n).
     (set_locks ((fc_locks fc)\<lparr>lock_items := (lock_items (fc_locks fc))(i := f (lock_items (fc_locks fc) i))\<rparr>) fc, n))"

abbreviation fc_pendingOps :: "FileCache \<Rightarrow> (string \<times> pendingFlags) list" where
  "fc_pendingOps fc \<equiv> pc_pendingOps (lp_cfg (fc_policy fc))"

abbreviation is_pending :: "string \<Rightarrow> 'n fc_state \<Rightarrow> bool" where
  "is_pending name s \<equiv> map_of (fc_pendingOps (fst s)) name \<noteq> None"

text \<open>The channel that wakes the upload thread carries no data.\<close>

definition addPendingOp :: "string \<Rightarrow> pendingFlags \<Rightarrow> 'n fc_state \<Rightarrow> 'n fc_state" where
  "addPendingOp name flags = (\<lambda>(fc, n). (fc\<lparr>fc_policy := store_pending name flags (fc_policy fc)\<rparr>, n))"

definition deletePendingOp :: "string \<Rightarrow> 'n fc_state \<Rightarrow> 'n fc_state" where
  "deletePendingOp name = (\<lambda>(fc, n).
     (fc\<lparr>fc_policy := (fc_policy fc)\<lparr>lp_cfg := (lp_cfg (fc_policy fc))\<lparr>pc_pendingOps :=
        map_remove name (fc_pendingOps fc)\<rparr>\<rparr>\<rparr>, n))"

abbreviation upload_op :: pendingFlags where
  "upload_op \<equiv> \<lparr>pf_isDir = False, pf_isDeletion = False\<rparr>"

definition upd_handle :: "nat \<Rightarrow> (FcHandle \<Rightarrow> FcHandle) \<Rightarrow> 'n fc_state \<Rightarrow> 'n fc_state" where
  "upd_handle r f = (\<lambda>(fc, n). (fc\<lparr>fc_heap := (fc_heap fc)(r := f (fc_heap fc r))\<rparr>, n))"

abbreviation handle_at :: "nat \<Rightarrow> 'n fc_state \<Rightarrow> FcHandle" where
  "handle_at r s \<equiv> fc_heap (fst s) r"

definition new_handle :: "string \<Rightarrow> openFileOptions option \<Rightarrow> FcHandle" where
  "new_handle path oo = Handle.extend (NewHandle path) \<lparr>fh_openFileOptions = oo\<rparr>"

definition alloc_handle :: "FcHandle \<Rightarrow> 'n fc_state \<Rightarrow> nat \<times> 'n fc_state" where
  "alloc_handle h = (\<lambda>(fc, n).
     (fc_fresh fc, (fc\<lparr>fc_heap := (fc_heap fc)(fc_fresh fc := h), fc_fresh := Suc (fc_fresh fc)\<rparr>, n)))"

abbreviation fh_Dirty :: "FcHandle \<Rightarrow> bool" where
  "fh_Dirty h \<equiv> IsSet (h_Flags h) HandleFlagDirty"

definition handle_flag :: "nat \<Rightarrow> FcHandle \<Rightarrow> FcHandle" where
  "handle_flag f h = h\<lparr>h_Flags := set_flag f (h_Flags h)\<rparr>"

definition setHandleDirty :: "nat \<Rightarrow> 'n fc_state \<Rightarrow> 'n fc_state" where
  "setHandleDirty r s =
     (if fh_Dirty (handle_at r s) then s
      else let s1 = upd_handle r (handle_flag HandleFlagDirty) s;
               (i, s2) = get_flock (h_Path (handle_at r s1)) s1
           in upd_flock i lm_IncDirty s2)"

definition clearHandleDirty :: "nat \<Rightarrow> 'n fc_state \<Rightarrow> 'n fc_state" where
  "clearHandleDirty r s =
     (if \<not> fh_Dirty (handle_at r s) then s
      else let s1 = upd_handle r (\<lambda>h. h\<lparr>h_Flags := clear_flag HandleFlagDirty (h_Flags h)\<rparr>) s;
               (i, s2) = get_flock (h_Path (handle_at r s1)) s1
           in upd_flock i lm_DecDirty s2)"

end
