(* ===== verification/File_Cache_Files.thy ===== *)
theory File_Cache_Files
  imports File_Cache
begin

text \<open>
  The file operations of the file cache (\<open>component/file_cache/file_cache.go\<close>): create, open, read,
  write, flush, release, truncate, rename, delete, attributes, and the checks they share.

  An operation takes the environment, the clock and the state; \<open>None\<close> is a crash (or a walk of the
  eviction policy that does not end). A handle is passed as its reference.
\<close>

section \<open>Shared checks\<close>

definition isOffline :: "err \<Rightarrow> bool" where
  "isOffline e = (case e of None \<Rightarrow> False | Some x \<Rightarrow> is_cloud_unreachable x)"

definition isNotExist :: "err \<Rightarrow> bool" where
  "isNotExist e = (case e of None \<Rightarrow> False | Some x \<Rightarrow> is_err_not_exist x)"

definition cachedData :: "err \<Rightarrow> bool" where
  "cachedData e = (\<not> (isOffline e \<and> (case e of None \<Rightarrow> False | Some x \<Rightarrow> is_no_cached_data x)))"

definition offlineDataAvailable :: "err \<Rightarrow> bool" where
  "offlineDataAvailable e = (isOffline e \<and> cachedData e)"

abbreviation attr_of :: "string \<Rightarrow> GetAttrOptions" where
  "attr_of name \<equiv> \<lparr>ga_Name = name, ga_RetrieveMetadata = False\<rparr>"

definition checkCloud :: "'n fc_env \<Rightarrow> ('n fc_state, string, bool \<times> bool \<times> err) handler" where
  "checkCloud E now name s = do {
     ((a, e), s1) \<leftarrow> below (GetAttr (e_next E)) now (attr_of name) s;
     Some ((cachedData e, \<not> isNotExist e, e), s1)
   }"

definition notInCloud :: "'n fc_env \<Rightarrow> ('n fc_state, string, bool) handler" where
  "notInCloud E now name s = do {
     ((known, inCloud, e), s1) \<leftarrow> checkCloud E now name s;
     Some (known \<and> \<not> inCloud, s1)
   }"

abbreviation stat_local :: "'n fc_env \<Rightarrow> string \<Rightarrow> 'n fc_state \<Rightarrow> error + node" where
  "stat_local E name s \<equiv> os_Stat (fc_fs E s) (local_path (fst s) name)"

definition resolveCloudNotFoundError :: "'n fc_env \<Rightarrow> string \<Rightarrow> err \<Rightarrow> bool \<Rightarrow> 'n fc_state \<Rightarrow> err" where
  "resolveCloudNotFoundError E path e canRetryOnClose s =
     (if isOffline e \<or> \<not> isNotExist e then e
      else if fc_createEmptyFile (fst s) then e
      else if (case stat_local E path s of Inl x \<Rightarrow> is_err_not_exist x | Inr _ \<Rightarrow> False) then Some (Errno ENOENT)
      else if canRetryOnClose then None
      else Some (Errno EIO))"

definition exceedsHardLimit :: "'n fc_env \<Rightarrow> int \<Rightarrow> string \<Rightarrow> 'n fc_state \<Rightarrow> bool" where
  "exceedsHardLimit E newSize name s =
     (let existingSize = (case stat_local E name s of Inr nd \<Rightarrow> node_stat_size nd | Inl _ \<Rightarrow> 0);
          additionalSpace = wrap64 (newSize - existingSize)
      in fc_diskHighWaterMark (fst s) \<noteq> 0 \<and> additionalSpace > 0 \<and>
         (case e_usage E (fc_fs E s) (fc_tmpPath (fst s)) of
            None \<Rightarrow> False
          | Some currSize \<Rightarrow> currSize + of_int additionalSpace > fc_diskHighWaterMark (fst s) + 4096))"

text \<open>
  Whether a cached file that is due for a refresh is downloaded again. When it is not, the timer is reset.
\<close>

definition refresh_check ::
  "'n fc_env \<Rightarrow> int \<Rightarrow> nat \<Rightarrow> ObjAttr \<Rightarrow> node \<Rightarrow> 'n fc_state \<Rightarrow> (bool \<times> 'n fc_state) option" where
  "refresh_check E now i a nd s =
     (if \<not> a_Mtime a > node_mtime nd \<and> node_stat_size nd = a_Size a
         \<or> handleCount (flock_at i s) > 0 \<and> \<not> LazyOpen (flock_at i s)
      then Some (False, upd_flock i (lm_SetDownloadTime now) s)
      else do {
        (connected, s1) \<leftarrow> below (CloudConnected (e_next E)) now () s;
        Some (if connected then (True, s1) else (False, upd_flock i (lm_SetDownloadTime now) s1))
      })"

definition isDownloadRequired ::
  "'n fc_env \<Rightarrow> int \<Rightarrow> string \<Rightarrow> string \<Rightarrow> nat \<Rightarrow> 'n fc_state \<Rightarrow>
     ((bool \<times> bool \<times> ObjAttr option \<times> err) \<times> 'n fc_state) option" where
  "isDownloadRequired E now localPath objectPath i s =
     (let info = os_Stat (fc_fs E s) localPath;
          cached = (case info of Inr _ \<Rightarrow> IsCached localPath (fc_policy (fst s)) | Inl _ \<Rightarrow> False);
          refreshTimerExpired = (fc_refreshSec (fst s) \<noteq> 0 \<and>
            now - downloadTime (flock_at i s) > fc_refreshSec (fst s) * 1000000000)
      in do {
        ((cloudAttr, e), s1) \<leftarrow> below (GetAttr (e_next E)) now (attr_of objectPath) s;
        case (cached \<and> refreshTimerExpired, cloudAttr, info) of
          (True, Some a, Inr nd) \<Rightarrow> do {
            (download, s2) \<leftarrow> refresh_check E now i a nd s1;
            Some ((download, cached, cloudAttr, e), s2)
          }
        | _ \<Rightarrow> Some ((\<not> cached \<and> \<not> isNotExist e, cached, cloudAttr, e), s1)
      })"

section \<open>Opening\<close>

text \<open>
  The download of \<open>openFileInternal\<close>: the directories, the local file, its content from the cloud, mode
  and times.
\<close>

definition set_mode_times ::
  "'n fc_env \<Rightarrow> string \<Rightarrow> bool \<Rightarrow> ObjAttr option \<Rightarrow> 'n fc_state \<Rightarrow> 'n fc_state" where
  "set_mode_times E localPath create attr s =
     (let fileMode = (case attr of Some a \<Rightarrow> if \<not> IsModeDefault a then a_Mode a else fc_defaultPermission (fst s)
                      | None \<Rightarrow> fc_defaultPermission (fst s));
          s1 = (if create then snd (fc_os E (os_Chmod localPath fileMode) s) else s)
      in case attr of Some a \<Rightarrow> snd (fc_os E (os_Chtimes localPath (a_Mtime a)) s1) | None \<Rightarrow> s1)"

definition fetch_content ::
  "'n fc_env \<Rightarrow> int \<Rightarrow> string \<Rightarrow> string \<Rightarrow> nat \<Rightarrow> nat \<Rightarrow> bool \<Rightarrow> bool \<Rightarrow> ObjAttr option \<Rightarrow> 'n fc_state \<Rightarrow> (err \<times> 'n fc_state) option" where
  "fetch_content E now localPath path i fd overwrite create attr s = do {
     (dlErr, s1) \<leftarrow> (if attr \<noteq> None \<and> \<not> overwrite
       then below (CopyToFile (e_next E)) now \<lparr>ct_Name = path, ct_Offset = 0, ct_Count = 0, ct_File = fd\<rparr> s
       else Some (None, s));
     case dlErr of
       Some e \<Rightarrow> Some (Some e, snd (fc_os E (os_Remove localPath) (snd (fc_os E (os_Close fd) s1))))
     | None \<Rightarrow>
         let s2 = upd_flock i (lm_SetDownloadTime now) s1;
             s3 = snd (fc_os E (os_Close fd) s2)
         in Some (None, set_mode_times E localPath create attr s3)
   }"

definition download_file ::
  "'n fc_env \<Rightarrow> int \<Rightarrow> string \<Rightarrow> string \<Rightarrow> nat \<Rightarrow> openFileOptions \<Rightarrow> ObjAttr option \<Rightarrow> 'n fc_state \<Rightarrow> (err \<times> 'n fc_state) option" where
  "download_file E now localPath path i oo attr s =
     (case fc_os E (os_MkdirAll now (path_dir localPath) (fc_defaultPermission (fst s))) s of
        (Some e, s1) \<Rightarrow> Some (Some e, s1)
      | (None, s1) \<Rightarrow>
          (case fc_os E (os_OpenFile now localPath create_trunc (oo_fMode oo)) s1 of
             (Inl e, s2) \<Rightarrow> Some (Some e, s2)
           | (Inr fd, s2) \<Rightarrow>
               fetch_content E now localPath path i fd (has_O_TRUNC (oo_flags oo)) (has_O_CREATE (oo_flags oo)) attr s2))"

text \<open>The local file is opened for the handle.\<close>

definition open_local ::
  "'n fc_env \<Rightarrow> int \<Rightarrow> string \<Rightarrow> nat \<Rightarrow> nat \<Rightarrow> openFileOptions \<Rightarrow> 'n fc_state \<Rightarrow> err \<times> 'n fc_state" where
  "open_local E now localPath r i oo s =
     (case fc_os E (os_OpenFile now localPath (flags_of_int (oo_flags oo)) (oo_fMode oo)) s of
        (Inl e, s1) \<Rightarrow> (Some e, s1)
      | (Inr fd, s1) \<Rightarrow>
          let s2 = (if has_O_TRUNC (oo_flags oo) then setHandleDirty r s1 else s1);
              s3 = (case fd_node (fc_fs E s2) fd of
                      Some nd \<Rightarrow> upd_handle r (\<lambda>h. h\<lparr>h_Size := node_stat_size nd\<rparr>) s2 | None \<Rightarrow> s2);
              s4 = (if fc_offloadIO (fst s3) then s3 else upd_handle r (handle_flag HandleFlagCached) s3);
              s5 = upd_handle r (\<lambda>h. h\<lparr>h_UnixFD := int fd, h_FObj := Some fd, fh_openFileOptions := None\<rparr>) s4
          in (None, upd_flock i (\<lambda>l. l\<lparr>LazyOpen := False\<rparr>) s5))"

definition openFileInternal ::
  "'n fc_env \<Rightarrow> int \<Rightarrow> nat \<Rightarrow> nat \<Rightarrow> 'n fc_state \<Rightarrow> (err \<times> 'n fc_state) option" where
  "openFileInternal E now r i s =
     (case fh_openFileOptions (handle_at r s) of
        None \<Rightarrow> Some (None, s)
      | Some oo \<Rightarrow> do {
          let overwrite = has_O_TRUNC (oo_flags oo);
          let path = h_Path (handle_at r s);
          let localPath = local_path (fst s) path;
          s1 \<leftarrow> fc_CacheValid localPath s;
          ((download, exists, attr, e), s2) \<leftarrow> isDownloadRequired E now localPath path i s1;
          (connected, s3) \<leftarrow> below (CloudConnected (e_next E)) now () s2;
          if \<not> connected \<and> (if \<not> fc_offlineAccess (fst s3) then \<not> overwrite \<and> download else \<not> exists \<and> \<not> overwrite)
          then Some (Some (CloudUnreachable no_cause), s3)
          else do {
            (e1, s4) \<leftarrow> (if download \<or> overwrite then download_file E now localPath path i oo attr s3 else Some (None, s3));
            case e1 of
              Some x \<Rightarrow> Some (Some x, s4)
            | None \<Rightarrow> Some (open_local E now localPath r i oo s4)
          }
        })"

definition fc_OpenFile :: "'n fc_env \<Rightarrow> ('n fc_state, OpenFileOptions, nat option \<times> err) handler" where
  "fc_OpenFile E now options s0 = do {
     let name = of_Name options;
     let (i, s) = get_flock name s0;
     ((download, exists, attr, e), s1) \<leftarrow> isDownloadRequired E now (local_path (fst s) name) name i s;
     (connected, s2) \<leftarrow> below (CloudConnected (e_next E)) now () s1;
     if \<not> connected \<and> \<not> fc_offlineAccess (fst s2) then Some ((None, Some (CloudUnreachable no_cause)), s2)
     else if e = Some (Errno EACCES) then Some ((None, e), s2)
     else if (case attr of Some a \<Rightarrow> exceedsHardLimit E (a_Size a) name s2 | None \<Rightarrow> False)
     then Some ((None, Some (Errno ENOSPC)), s2)
     else do {
       let h = new_handle name (Some \<lparr>oo_flags = of_Flags options, oo_fMode = of_Mode options\<rparr>);
       let (r, s3) = alloc_handle (if has_O_APPEND (of_Flags options) then handle_flag HandleOpenedAppend h else h) s2;
       (e1, s4) \<leftarrow> (if \<not> download \<or> has_O_TRUNC (of_Flags options) \<or> \<not> connected
         then openFileInternal E now r i s3
         else Some (None, upd_flock i (\<lambda>l. l\<lparr>LazyOpen := True\<rparr>) s3));
       case e1 of
         Some x \<Rightarrow> Some ((None, Some x), s4)
       | None \<Rightarrow> Some ((Some r, None), upd_flock i lm_Inc s4)
     }
   }"

text \<open>A read, write or truncation through a handle whose open was put off completes it first.\<close>

definition completeOpen :: "'n fc_env \<Rightarrow> int \<Rightarrow> nat \<Rightarrow> string \<Rightarrow> 'n fc_state \<Rightarrow> (err \<times> 'n fc_state) option" where
  "completeOpen E now r lockName s =
     (if fh_openFileOptions (handle_at r s) = None then Some (None, s)
      else let (i, s1) = get_flock lockName s in openFileInternal E now r i s1)"

section \<open>Creating and deleting\<close>

text \<open>An empty object is created in the cloud first, when configured; the result says whether this found us offline.\<close>

definition create_empty ::
  "'n fc_env \<Rightarrow> int \<Rightarrow> CreateFileOptions \<Rightarrow> 'n fc_state \<Rightarrow> ((bool \<times> err) \<times> 'n fc_state) option" where
  "create_empty E now options s =
     (if \<not> fc_createEmptyFile (fst s) then Some ((False, None), s)
      else do {
        ((newF, e), s1) \<leftarrow> below (CreateFile (e_next E)) now options s;
        s2 \<leftarrow> (if e \<noteq> None then Some s1
          else case newF of
            None \<Rightarrow> None
          | Some h \<Rightarrow> Some (case h_FObj h of None \<Rightarrow> s1 | Some fd \<Rightarrow> snd (fc_os E (os_Close fd) s1)));
        Some (if isOffline e \<and> fc_offlineAccess (fst s2) then (True, None) else (False, e), s2)
      })"

text \<open>Without a connection a file may be created when it is cached, or the cloud's state is known.\<close>

definition create_allowed ::
  "'n fc_env \<Rightarrow> int \<Rightarrow> string \<Rightarrow> 'n fc_state \<Rightarrow> ((bool \<times> err) \<times> 'n fc_state) option" where
  "create_allowed E now name s = do {
     (connected, s1) \<leftarrow> below (CloudConnected (e_next E)) now () s;
     if connected then Some ((False, None), s1)
     else if \<not> fc_offlineAccess (fst s1) then Some ((True, Some (CloudUnreachable no_cause)), s1)
     else (case stat_local E name s1 of
             Inr _ \<Rightarrow> Some ((True, None), s1)
           | Inl _ \<Rightarrow> do {
               ((known, inCloud, e), s2) \<leftarrow> checkCloud E now name s1;
               Some ((True, if known then None else Some (NoCachedData (CloudUnreachable no_cause))), s2)
             })
   }"

definition create_local ::
  "'n fc_env \<Rightarrow> int \<Rightarrow> CreateFileOptions \<Rightarrow> nat \<Rightarrow> bool \<Rightarrow> 'n fc_state \<Rightarrow> ((nat option \<times> err) \<times> 'n fc_state) option" where
  "create_local E now options i offline s = do {
     let name = cf_Name options;
     let localPath = local_path (fst s) name;
     s1 \<leftarrow> fc_CacheValid localPath s;
     case fc_os E (os_MkdirAll now (path_dir localPath) (fc_defaultPermission (fst s1))) s1 of
       (Some e, s2) \<Rightarrow> Some ((None, Some e), s2)
     | (None, s2) \<Rightarrow>
         (case fc_os E (os_OpenFile now localPath create_trunc (cf_Mode options)) s2 of
            (Inl e, s3) \<Rightarrow> Some ((None, Some e), s3)
          | (Inr fd, s3) \<Rightarrow>
              let s4 = (if cf_Mode options \<noteq> DefaultFilePermissionBits \<and> name \<notin> set (fc_missedChmodList (fst s3))
                        then ((fst s3)\<lparr>fc_missedChmodList := name # fc_missedChmodList (fst s3)\<rparr>, snd s3) else s3);
                  s5 = upd_flock i lm_Inc s4;
                  h = (new_handle name None)\<lparr>h_UnixFD := int fd, h_FObj := Some fd\<rparr>;
                  (r, s6) = alloc_handle (if fc_offloadIO (fst s5) then h else handle_flag HandleFlagCached h) s5;
                  s7 = (if fc_createEmptyFile (fst s6) then s6 else setHandleDirty r s6);
                  s8 = upd_flock i (\<lambda>l. l\<lparr>LazyOpen := False\<rparr>) s7;
                  s9 = (if offline then addPendingOp name upload_op s8 else s8)
              in Some ((Some r, None), s9))
   }"

definition fc_CreateFile :: "'n fc_env \<Rightarrow> ('n fc_state, CreateFileOptions, nat option \<times> err) handler" where
  "fc_CreateFile E now options s0 = do {
     let (i, s) = get_flock (cf_Name options) s0;
     ((offline1, e1), s1) \<leftarrow> create_empty E now options s;
     if e1 \<noteq> None then Some ((None, e1), s1)
     else do {
       ((offline2, e2), s2) \<leftarrow> create_allowed E now (cf_Name options) s1;
       if e2 \<noteq> None then Some ((None, e2), s2)
       else create_local E now options i (offline1 \<or> offline2) s2
     }
   }"

definition fc_DeleteFile :: "'n fc_env \<Rightarrow> ('n fc_state, NameOptions, err) handler" where
  "fc_DeleteFile E now options s0 = do {
     let name = opt_Name options;
     let hadPendingOp = is_pending name s0;
     let (i, s) = get_flock name s0;
     (e, s1) \<leftarrow> below (DeleteFile (e_next E)) now options s;
     let e1 = resolveCloudNotFoundError E name e True s1;
     let offlineOkay = (isOffline e1 \<and> fc_offlineAccess (fst s1));
     if e1 \<noteq> None \<and> \<not> offlineOkay then Some (e1, s1)
     else let s2 = fc_CachePurge E (local_path (fst s1) name) s1;
              s3 = upd_flock i (\<lambda>l. l\<lparr>LazyOpen := False\<rparr>) s2
          in Some (None, if offlineOkay \<or> hadPendingOp
                         then addPendingOp name \<lparr>pf_isDir = False, pf_isDeletion = True\<rparr> s3 else s3)
   }"

section \<open>Modes and owners\<close>

text \<open>Both end alike: with no local file the cloud must have the object.\<close>

definition not_cached_result :: "'n fc_env \<Rightarrow> int \<Rightarrow> string \<Rightarrow> error \<Rightarrow> 'n fc_state \<Rightarrow> (err \<times> 'n fc_state) option" where
  "not_cached_result E now name localErr s = do {
     ((known, inCloud, e), s1) \<leftarrow> checkCloud E now name s;
     Some (if known \<and> inCloud then None else Some localErr, s1)
   }"

definition chmodInternal :: "'n fc_env \<Rightarrow> ('n fc_state, ChmodOptions, err) handler" where
  "chmodInternal E now options s = do {
     let name = cm_Name options;
     let info = stat_local E name s;
     (e, s1) \<leftarrow> below (Chmod (e_next E)) now options s;
     let cloudErr = resolveCloudNotFoundError E name e False s1;
     let offlineOkay = (isOffline cloudErr \<and> fc_offlineAccess (fst s1) \<and> (case info of Inr _ \<Rightarrow> True | Inl _ \<Rightarrow> False));
     if \<not> offlineOkay \<and> cloudErr \<noteq> Some (Errno EIO) \<and> cloudErr \<noteq> None then Some (cloudErr, s1)
     else (case info of
             Inl localErr \<Rightarrow> not_cached_result E now name localErr s1
           | Inr nd \<Rightarrow> do {
               s2 \<leftarrow> fc_FileUsed name s1;
               if node_stat_mode nd = cm_Mode options then Some (None, s2)
               else (case fc_os E (os_Chmod (local_path (fst s2) name) (cm_Mode options)) s2 of
                       (Some x, s3) \<Rightarrow> Some (Some x, s3)
                     | (None, s3) \<Rightarrow>
                         let s4 = (if name \<in> set (fc_missedChmodList (fst s3)) then s3
                                   else ((fst s3)\<lparr>fc_missedChmodList := name # fc_missedChmodList (fst s3)\<rparr>, snd s3))
                         in Some (None, if offlineOkay then addPendingOp name upload_op s4 else s4))
             })
   }"

definition fc_Chmod :: "'n fc_env \<Rightarrow> ('n fc_state, ChmodOptions, err) handler" where
  "fc_Chmod E now options s = chmodInternal E now options (snd (get_flock (cm_Name options) s))"

text \<open>Owners are not part of the modelled file system: a local change of owner needs the file to exist.\<close>

definition os_Chown :: "string \<Rightarrow> os_fs \<Rightarrow> err \<times> os_fs" where
  "os_Chown p fs = (case os_Stat fs p of Inl e \<Rightarrow> (Some e, fs) | Inr _ \<Rightarrow> (None, fs))"

definition fc_Chown :: "'n fc_env \<Rightarrow> ('n fc_state, ChownOptions, err) handler" where
  "fc_Chown E now options s0 = do {
     let name = co_Name options;
     let s = snd (get_flock name s0);
     let info = stat_local E name s;
     (e0, s1) \<leftarrow> below (Chown (e_next E)) now options s;
     let e = resolveCloudNotFoundError E name e0 False s1;
     let offlineOkay = (isOffline e \<and> fc_offlineAccess (fst s1) \<and> (case info of Inr _ \<Rightarrow> True | Inl _ \<Rightarrow> False));
     if \<not> offlineOkay \<and> e \<noteq> None then Some (e, s1)
     else (case info of
             Inl localErr \<Rightarrow> not_cached_result E now name localErr s1
           | Inr nd \<Rightarrow> do {
               s2 \<leftarrow> fc_FileUsed name s1;
               Some (fc_os E (os_Chown (local_path (fst s2) name)) s2)
             })
   }"

section \<open>Uploading\<close>

text \<open>Opening the local file for the upload, after adding the permission to read it when that is missing.\<close>

definition open_upload :: "'n fc_env \<Rightarrow> int \<Rightarrow> string \<Rightarrow> file_mode \<Rightarrow> 'n fc_state \<Rightarrow> ((error + nat) \<times> bool) \<times> 'n fc_state" where
  "open_upload E now localPath origMode s =
     (case fc_os E (os_OpenFile now localPath no_flags 0) s of
        (f, s1) \<Rightarrow>
          if (case f of Inl e \<Rightarrow> is_permission (Some e) | Inr _ \<Rightarrow> False)
          then (case fc_os E (os_Chmod localPath (origMode OR 0x124)) s1 of
                  (Some _, s2) \<Rightarrow> ((f, False), s2)
                | (None, s2) \<Rightarrow>
                    (case fc_os E (os_OpenFile now localPath no_flags 0) s2 of (f2, s3) \<Rightarrow> ((f2, True), s3)))
          else ((f, False), s1))"

text \<open>A mode that the cloud has missed is set after the upload.\<close>

definition upload_missed_mode :: "'n fc_env \<Rightarrow> int \<Rightarrow> string \<Rightarrow> file_mode \<Rightarrow> 'n fc_state \<Rightarrow> 'n fc_state option" where
  "upload_missed_mode E now name origMode s =
     (if name \<notin> set (fc_missedChmodList (fst s)) then Some s
      else do {
        let s1 = ((fst s)\<lparr>fc_missedChmodList := removeAll name (fc_missedChmodList (fst s))\<rparr>, snd s);
        (e, s2) \<leftarrow> chmodInternal E now \<lparr>cm_Name = name, cm_Mode = origMode\<rparr> s1;
        Some (if e \<noteq> None \<and> name \<notin> set (fc_missedChmodList (fst s2))
              then ((fst s2)\<lparr>fc_missedChmodList := name # fc_missedChmodList (fst s2)\<rparr>, snd s2) else s2)
      })"

definition uploadFile :: "'n fc_env \<Rightarrow> ('n fc_state, string, err) handler" where
  "uploadFile E now name s =
     (case stat_local E name s of
        Inl e \<Rightarrow> Some (Some e, s)
      | Inr nd \<Rightarrow>
          let localPath = local_path (fst s) name; origMode = node_stat_mode nd in
          (case open_upload E now localPath origMode s of
             ((Inl e, modeChanged), s1) \<Rightarrow> Some (Some e, s1)
           | ((Inr fd, modeChanged), s1) \<Rightarrow> do {
               (uploadErr, s2) \<leftarrow> below (CopyFromFile (e_next E)) now
                 \<lparr>cp_Name = name, cp_File = local_file (fc_fs E s1) fd, cp_Metadata = None\<rparr> s1;
               let s3 = snd (fc_os E (os_Close fd) s2);
               let s4 = (if modeChanged then snd (fc_os E (os_Chmod localPath origMode) s3) else s3);
               s5 \<leftarrow> (if uploadErr = None then upload_missed_mode E now name origMode s4 else Some s4);
               Some (uploadErr, s5)
             }))"

text \<open>\<open>syncFile\<close> duplicates and closes the descriptor, which fails only when it is not open.\<close>

definition flushFileLocal :: "'n fc_env \<Rightarrow> nat \<Rightarrow> 'n fc_state \<Rightarrow> err" where
  "flushFileLocal E r s =
     (if \<not> fh_Dirty (handle_at r s) then None
      else case h_FObj (handle_at r s) of
        None \<Rightarrow> Some (Errno EBADF)
      | Some fd \<Rightarrow> if map_of (open_fds (fc_fs E s)) fd = None then Some (Errno EIO) else None)"

definition flushFileCloud :: "'n fc_env \<Rightarrow> int \<Rightarrow> nat \<Rightarrow> bool \<Rightarrow> 'n fc_state \<Rightarrow> (err \<times> 'n fc_state) option" where
  "flushFileCloud E now r closeInProgress s =
     (let path = h_Path (handle_at r s) in
      if \<not> fh_Dirty (handle_at r s) then Some (None, s)
      else if fc_lazyWrite (fst s) \<and> \<not> closeInProgress then Some (None, s)
      else if \<not> fc_windowOpen (fst s) then Some (None, clearHandleDirty r (addPendingOp path upload_op s))
      else do {
        (e, s1) \<leftarrow> uploadFile E now path s;
        if e = None then Some (None, deletePendingOp path (clearHandleDirty r s1))
        else if isOffline e \<and> fc_offlineAccess (fst s1) then Some (None, addPendingOp path upload_op s1)
        else Some (e, s1)
      })"

definition fc_FlushFile :: "'n fc_env \<Rightarrow> int \<Rightarrow> nat \<Rightarrow> bool \<Rightarrow> 'n fc_state \<Rightarrow> (err \<times> 'n fc_state) option" where
  "fc_FlushFile E now r closeInProgress s = do {
     s1 \<leftarrow> fc_FileUsed (h_Path (handle_at r s)) s;
     if \<not> fh_Dirty (handle_at r s1) then Some (None, s1)
     else case flushFileLocal E r s1 of
       Some e \<Rightarrow> Some (Some e, s1)
     | None \<Rightarrow>
         if fc_lazyWrite (fst s1) \<and> \<not> closeInProgress then Some (None, s1)
         else flushFileCloud E now r closeInProgress (snd (get_flock (h_Path (handle_at r s1)) s1))
   }"

definition fc_SyncFile :: "'n fc_env \<Rightarrow> int \<Rightarrow> nat \<Rightarrow> 'n fc_state \<Rightarrow> (err \<times> 'n fc_state) option" where
  "fc_SyncFile E now r s = do {
     (e, s1) \<leftarrow> below (SyncFile (e_next E)) now \<lparr>sf_Handle = Handle.truncate (handle_at r s)\<rparr> s;
     if e = None then fc_FlushFile E now r True s1 else Some (e, s1)
   }"

text \<open>
  With lazy writes the release runs in a goroutine and its error is dropped; it holds the file's lock to
  its end, so it is done here at once.
\<close>

definition releaseFileInternal :: "'n fc_env \<Rightarrow> int \<Rightarrow> nat \<Rightarrow> nat \<Rightarrow> 'n fc_state \<Rightarrow> (err \<times> 'n fc_state) option" where
  "releaseFileInternal E now r i s =
     (let dec = (\<lambda>s. upd_flock i lm_Dec s) in
      if fh_openFileOptions (handle_at r s) \<noteq> None
      then let s1 = dec s in
           Some (None, if handleCount (flock_at i s1) = 0 then upd_flock i (\<lambda>l. l\<lparr>LazyOpen := False\<rparr>) s1 else s1)
      else do {
        s1 \<leftarrow> fc_FileUsed (h_Path (handle_at r s)) s;
        (e, s2) \<leftarrow> (if \<not> fh_Dirty (handle_at r s1) then Some (None, s1)
          else case flushFileLocal E r s1 of
            Some x \<Rightarrow> Some (Some x, s1)
          | None \<Rightarrow> flushFileCloud E now r True s1);
        if e \<noteq> None then Some (e, s2)
        else case h_FObj (handle_at r s2) of
          None \<Rightarrow> Some (Some (Errno EBADF), s2)
        | Some fd \<Rightarrow>
            (case fc_os E (os_Close fd) s2 of
               (Some x, s3) \<Rightarrow> Some (Some x, s3)
             | (None, s3) \<Rightarrow> Some (None, dec s3))
      })"

definition fc_ReleaseFile :: "'n fc_env \<Rightarrow> int \<Rightarrow> nat \<Rightarrow> 'n fc_state \<Rightarrow> (err \<times> 'n fc_state) option" where
  "fc_ReleaseFile E now r s0 = do {
     let (i, s) = get_flock (h_Path (handle_at r s0)) s0;
     (e, s1) \<leftarrow> releaseFileInternal E now r i s;
     Some (if fc_lazyWrite (fst s) then None else e, s1)
   }"

section \<open>Reading, writing, truncating\<close>

definition defaultCacheUpdateCount :: int where "defaultCacheUpdateCount = 100"

text \<open>The eviction policy hears of every hundredth read or write of a handle.\<close>

definition count_operation :: "nat \<Rightarrow> 'n fc_state \<Rightarrow> 'n fc_state option" where
  "count_operation r s =
     (let s1 = upd_handle r (\<lambda>h. h\<lparr>h_OptCnt := wrap64 (h_OptCnt h + 1)\<rparr>) s in
      if h_OptCnt (handle_at r s1) mod defaultCacheUpdateCount = 0 then fc_FileUsed (h_Path (handle_at r s1)) s1 else Some s1)"

text \<open>
  The buffer's length and the offset; the bytes read and the error. A read that fails for another reason
  than the end of the file (closed, a directory, a negative offset) comes with no bytes.
\<close>

definition fc_ReadInBuffer ::
  "'n fc_env \<Rightarrow> int \<Rightarrow> nat \<Rightarrow> nat \<Rightarrow> int \<Rightarrow> 'n fc_state \<Rightarrow> ((string \<times> err) \<times> 'n fc_state) option" where
  "fc_ReadInBuffer E now r len off s = do {
     (e, s1) \<leftarrow> completeOpen E now r (h_Path (handle_at r s)) s;
     if e \<noteq> None then Some (([], Some (Errorf ''error downloading file'')), s1)
     else case h_FObj (handle_at r s1) of
       None \<Rightarrow> Some (([], Some (Errno EBADF)), s1)
     | Some fd \<Rightarrow> do {
         s2 \<leftarrow> count_operation r s1;
         Some (case os_ReadAt (fc_fs E s2) fd len off of
                 Inl (bs, eof) \<Rightarrow> (bs, None)
               | Inr x \<Rightarrow> ([], Some x), s2)
       }
   }"

definition fc_WriteFile ::
  "'n fc_env \<Rightarrow> int \<Rightarrow> nat \<Rightarrow> string \<Rightarrow> int \<Rightarrow> 'n fc_state \<Rightarrow> ((int \<times> err) \<times> 'n fc_state) option" where
  "fc_WriteFile E now r data off s = do {
     (e, s1) \<leftarrow> completeOpen E now r (h_Path (handle_at r s)) s;
     if e \<noteq> None then Some ((0, Some (Errorf ''error downloading file'')), s1)
     else case h_FObj (handle_at r s1) of
       None \<Rightarrow> Some ((0, Some (Errno EBADF)), s1)
     | Some fd \<Rightarrow>
         if exceedsHardLimit E (wrap64 (off + int (length data))) (h_Path (handle_at r s1)) s1
         then Some ((0, Some (Errno ENOSPC)), s1)
         else do {
           s2 \<leftarrow> count_operation r s1;
           let (res, s3) = fc_os E (if IsSet (h_Flags (handle_at r s2)) HandleOpenedAppend
                                    then os_Append now fd data else os_WriteAt now fd data off) s2;
           Some (res, if snd res = None then setHandleDirty r s3 else s3)
         }
   }"

text \<open>
  A truncation through a handle: the file object to use, reopened from the path when the handle has none.
\<close>

definition handle_file :: "'n fc_env \<Rightarrow> int \<Rightarrow> nat \<Rightarrow> string \<Rightarrow> 'n fc_state \<Rightarrow> nat option \<times> 'n fc_state" where
  "handle_file E now r name s =
     (case h_FObj (handle_at r s) of
        Some fd \<Rightarrow> (Some fd, s)
      | None \<Rightarrow>
          (case fc_os E (os_OpenFile now (local_path (fst s) name) no_flags (fc_defaultPermission (fst s))) s of
             (Inl _, s1) \<Rightarrow> (None, s1)
           | (Inr fd, s1) \<Rightarrow> (Some fd, upd_handle r (\<lambda>h. h\<lparr>h_UnixFD := int fd, h_FObj := Some fd\<rparr>) s1)))"

definition truncate_handle :: "'n fc_env \<Rightarrow> int \<Rightarrow> nat \<Rightarrow> nat \<Rightarrow> int \<Rightarrow> 'n fc_state \<Rightarrow> err \<times> 'n fc_state" where
  "truncate_handle E now r fd newSize s =
     (if (case fd_node (fc_fs E s) fd of Some nd \<Rightarrow> node_stat_size nd = newSize | None \<Rightarrow> False) then (None, s)
      else case fc_os E (os_Ftruncate now fd newSize) s of
        (Some e, s1) \<Rightarrow> (Some e, s1)
      | (None, s1) \<Rightarrow> (None, setHandleDirty r s1))"

text \<open>
  Offline: whether the truncation may go ahead on the local file, with the size that file then has. A
  file that is not cached is created when \<open>NewSize\<close> is not zero.
\<close>

definition truncate_offline ::
  "'n fc_env \<Rightarrow> int \<Rightarrow> TruncateFileOptions \<Rightarrow> error + node \<Rightarrow> 'n fc_state \<Rightarrow> (bool \<times> (error + node)) \<times> 'n fc_state" where
  "truncate_offline E now options info s =
     (let needData = (tf_NewSize options = 0); localPath = local_path (fst s) (tf_Name options) in
      case info of
        Inr nd \<Rightarrow> ((True, info), s)
      | Inl _ \<Rightarrow>
          if \<not> needData
          then (case fc_os E (os_OpenFile now localPath create_trunc (fc_defaultPermission (fst s))) s of
                  (Inl e, s1) \<Rightarrow> ((False, info), s1)
                | (Inr fd, s1) \<Rightarrow>
                    ((True, case fd_node (fc_fs E s1) fd of Some nd \<Rightarrow> Inr nd | None \<Rightarrow> Inl ErrClosed),
                     snd (fc_os E (os_Close fd) s1)))
          else ((False, info), s))"

definition truncate_path :: "'n fc_env \<Rightarrow> ('n fc_state, TruncateFileOptions, err) handler" where
  "truncate_path E now options s0 = do {
     let name = tf_Name options;
     let s = snd (get_flock name s0);
     let info = stat_local E name s;
     (e, s1) \<leftarrow> below (TruncateFile (e_next E)) now (options\<lparr>tf_Handle := None\<rparr>) s;
     let cloudErr = resolveCloudNotFoundError E name e True s1;
     let ((offlineOkay, info2), s2) =
       (if isOffline cloudErr \<and> fc_offlineAccess (fst s1) then truncate_offline E now options info s1
        else ((False, info), s1));
     if cloudErr \<noteq> None \<and> \<not> offlineOkay then Some (cloudErr, s2)
     else case info2 of
       Inl _ \<Rightarrow> Some (None, s2)
     | Inr nd \<Rightarrow> do {
         s3 \<leftarrow> fc_FileUsed name s2;
         if node_stat_size nd = tf_NewSize options then Some (None, s3)
         else (case fc_os E (os_Truncate now (local_path (fst s3) name) (tf_NewSize options)) s3 of
                 (Some x, s4) \<Rightarrow> Some (Some x, s4)
               | (None, s4) \<Rightarrow> Some (None, if offlineOkay then addPendingOp name upload_op s4 else s4))
       }
   }"

definition fc_TruncateFile ::
  "'n fc_env \<Rightarrow> int \<Rightarrow> nat option \<Rightarrow> TruncateFileOptions \<Rightarrow> 'n fc_state \<Rightarrow> (err \<times> 'n fc_state) option" where
  "fc_TruncateFile E now href options s =
     (if exceedsHardLimit E (tf_NewSize options) (tf_Name options) s then Some (Some (Errno ENOSPC), s)
      else case href of
        None \<Rightarrow> truncate_path E now options s
      | Some r \<Rightarrow> do {
          (e, s1) \<leftarrow> completeOpen E now r (tf_Name options) s;
          case e of
            Some x \<Rightarrow> Some (Some (Wrapped ''error downloading file'' x), s1)
          | None \<Rightarrow>
              (case handle_file E now r (tf_Name options) s1 of
                 (None, s2) \<Rightarrow> truncate_path E now options s2
               | (Some fd, s2) \<Rightarrow> Some (truncate_handle E now r fd (tf_NewSize options) s2))
        })"

section \<open>Attributes\<close>

definition with_local :: "node \<Rightarrow> ObjAttr \<Rightarrow> ObjAttr" where
  "with_local nd a = a\<lparr>a_Mtime := node_mtime nd, a_Size := node_stat_size nd\<rparr>"

text \<open>The cloud's word on the object: whether it is there, or the error to report.\<close>

definition cloud_state ::
  "'n fc_env \<Rightarrow> int \<Rightarrow> string \<Rightarrow> bool \<Rightarrow> err \<Rightarrow> 'n fc_state \<Rightarrow> ((error + bool) \<times> 'n fc_state) option" where
  "cloud_state E now name localExists e s =
     (case e of
        None \<Rightarrow> Some (Inr True, s)
      | Some x \<Rightarrow>
          if \<not> isOffline e \<and> isNotExist e then Some (Inr False, s)
          else if fc_offlineAccess (fst s) \<and> isOffline e
          then (if cachedData e then Some (Inr (\<not> isNotExist e), s)
                else do {
                  (absent, s1) \<leftarrow> notInCloud E now name s;
                  Some (if absent \<or> localExists then Inr False else Inl x, s1)
                })
          else Some (Inl x, s))"

definition fc_GetAttr :: "'n fc_env \<Rightarrow> ('n fc_state, GetAttrOptions, ObjAttr option \<times> err) handler" where
  "fc_GetAttr E now options s0 = do {
     let name = ga_Name options;
     let (i, s) = get_flock name s0;
     let info = stat_local E name s;
     let localAttr = (\<lambda>nd. node_attr name (path_base (local_path (fst s) name)) nd);
     if handleCount (flock_at i s) > 0 \<and> dirtyCount (flock_at i s) > 0 \<and>
        (case info of Inr nd \<Rightarrow> \<not> is_dir_node nd | Inl _ \<Rightarrow> False)
     then Some ((case info of Inr nd \<Rightarrow> Some (localAttr nd) | Inl _ \<Rightarrow> None, None), s)
     else do {
       ((attrs, e), s1) \<leftarrow> below (GetAttr (e_next E)) now options s;
       (known, s2) \<leftarrow> cloud_state E now name (case info of Inr _ \<Rightarrow> True | Inl _ \<Rightarrow> False) e s1;
       case known of
         Inl x \<Rightarrow> Some ((None, Some x), s2)
       | Inr inCloud \<Rightarrow>
           (case info of
              Inl _ \<Rightarrow> Some (if inCloud then (attrs, None) else (None, Some (Errno ENOENT)), s2)
            | Inr nd \<Rightarrow>
                if \<not> inCloud then Some ((Some (localAttr nd), None), s2)
                else if is_dir_node nd then Some ((attrs, None), s2)
                else (case attrs of None \<Rightarrow> None | Some a \<Rightarrow> Some ((Some (with_local nd a), None), s2)))
     }
   }"

section \<open>Renaming\<close>

text \<open>Requires the locks of both names.\<close>

definition renamePendingOp :: "string \<Rightarrow> string \<Rightarrow> 'n fc_state \<Rightarrow> 'n fc_state" where
  "renamePendingOp srcName dstName s =
     (case map_of (fc_pendingOps (fst s)) srcName of
        None \<Rightarrow> s
      | Some opFlags \<Rightarrow>
          addPendingOp dstName opFlags
            (addPendingOp srcName \<lparr>pf_isDir = pf_isDir opFlags, pf_isDeletion = True\<rparr> (deletePendingOp srcName s)))"

definition rename_paths :: "string \<Rightarrow> string \<Rightarrow> 'n fc_state \<Rightarrow> 'n fc_state" where
  "rename_paths srcName dstName = (\<lambda>(fc, n).
     (fc\<lparr>fc_heap := (\<lambda>r. if r \<in> set (fc_table fc) \<and> h_Path (fc_heap fc r) = srcName
                         then (fc_heap fc r)\<lparr>h_Path := dstName\<rparr> else fc_heap fc r)\<rparr>, n))"

definition move_one :: "nat \<Rightarrow> nat \<Rightarrow> 'n fc_state \<Rightarrow> 'n fc_state" where
  "move_one si di s = upd_flock di lm_Inc (upd_flock si lm_Dec s)"

definition renameOpenHandles :: "string \<Rightarrow> string \<Rightarrow> nat \<Rightarrow> nat \<Rightarrow> 'n fc_state \<Rightarrow> 'n fc_state" where
  "renameOpenHandles srcName dstName si di s =
     (if handleCount (flock_at si s) > 0
      then let s1 = rename_paths srcName dstName s;
               s2 = (move_one si di ^^ nat (handleCount (flock_at si s1))) s1
           in upd_flock di (\<lambda>l. l\<lparr>LazyOpen := LazyOpen (flock_at si s2)\<rparr>) s2
      else s)"

text \<open>The object name of the cache directory or of a local path below it: \<open>filepath.Rel\<close> on clean paths.\<close>

definition getObjectName :: "FileCache \<Rightarrow> string \<Rightarrow> string" where
  "getObjectName fc localPath =
     NormalizeObjectName (if localPath = fc_tmpPath fc then ''.'' else trim_prefix localPath (fc_tmpPath fc @ [slash]))"

definition renameLocalFile ::
  "'n fc_env \<Rightarrow> string \<Rightarrow> string \<Rightarrow> nat \<Rightarrow> nat \<Rightarrow> bool \<Rightarrow> 'n fc_state \<Rightarrow> (err \<times> 'n fc_state) option" where
  "renameLocalFile E srcName dstName si di localOnly s = do {
     let localSrcPath = local_path (fst s) srcName;
     let localDstPath = local_path (fst s) dstName;
     let (e, s1) = fc_os E (os_Rename localSrcPath localDstPath) s;
     if e \<noteq> None \<and> isNotExist e \<and> localOnly then Some (Some (Errno ENOENT), s1)
     else do {
       s2 \<leftarrow> (if e = None then fc_CacheValid localDstPath s1 else Some s1);
       let s3 = fc_CachePurge E localSrcPath s2;
       let s4 = renameOpenHandles srcName dstName si di s3;
       Some (None, renamePendingOp (getObjectName (fst s4) localSrcPath) (getObjectName (fst s4) localDstPath) s4)
     }
   }"

text \<open>\<open>None\<close> for a rename onto the same name: the file's lock is taken twice.\<close>

definition fc_RenameFile :: "'n fc_env \<Rightarrow> ('n fc_state, RenameFileOptions, err) handler" where
  "fc_RenameFile E now options s0 =
     (if rf_Src options = rf_Dst options then None
      else do {
        let src = rf_Src options;
        let (si, sa) = get_flock src s0;
        let (di, s) = get_flock (rf_Dst options) sa;
        (e, s1) \<leftarrow> below (RenameFile (e_next E)) now options s;
        let e1 = resolveCloudNotFoundError E src e True s1;
        let offline = (fc_offlineAccess (fst s1) \<and> isOffline e1);
        let cached = (case stat_local E src s1 of Inr _ \<Rightarrow> True | Inl _ \<Rightarrow> False);
        let s2 = (if offline \<and> cached \<and> \<not> is_pending src s1 then addPendingOp src upload_op s1 else s1);
        if e1 \<noteq> None \<and> \<not> (offline \<and> cached) then Some (e1, s2)
        else renameLocalFile E src (rf_Dst options) si di (isNotExist e) s2
      })"

section \<open>Registration\<close>

text \<open>What libfuse does with a returned handle, and after its release.\<close>

definition register_handle :: "nat \<Rightarrow> 'n fc_state \<Rightarrow> 'n fc_state" where
  "register_handle r = (\<lambda>(fc, n). (fc\<lparr>fc_table := fc_table fc @ [r]\<rparr>, n))"

definition unregister_handle :: "nat \<Rightarrow> 'n fc_state \<Rightarrow> 'n fc_state" where
  "unregister_handle r = (\<lambda>(fc, n). (fc\<lparr>fc_table := removeAll r (fc_table fc)\<rparr>, n))"

end
