(* ===== verification/File_Cache_Dirs.thy ===== *)
theory File_Cache_Dirs
  imports File_Cache_Files
begin

text \<open>
  The directory operations of the file cache (\<open>component/file_cache/file_cache.go\<close>), the file system
  statistics, and the upload of pending operations and its schedule (\<open>component/file_cache/async.go\<close>).
\<close>

section \<open>Lists of names\<close>

definition str_less :: "string \<Rightarrow> string \<Rightarrow> bool" where
  "str_less a b \<longleftrightarrow> a \<noteq> b \<and> lex_le (string_code a) (string_code b)"

definition sort_strings :: "string list \<Rightarrow> string list" where
  "sort_strings xs = map fst (sort_by_name (map (\<lambda>x. (x, ())) xs))"

text \<open>The double-indexed loops over two sorted lists.\<close>

fun combineLists :: "string list \<Rightarrow> string list \<Rightarrow> string list" where
  "combineLists (a # as) (b # bs) =
     (if str_less a b then a # combineLists as (b # bs)
      else if str_less b a then b # combineLists (a # as) bs
      else a # combineLists as bs)"
| "combineLists _ _ = []"

fun isSubset :: "string list \<Rightarrow> string list \<Rightarrow> bool" where
  "isSubset (a # as) (b # bs) =
     (if str_less a b then False
      else if str_less b a then isSubset (a # as) bs
      else isSubset as bs)"
| "isSubset _ _ = True"

section \<open>Walking the local directory\<close>

fun fold_entries :: "('e \<Rightarrow> 'a \<Rightarrow> 'a option) \<Rightarrow> 'e list \<Rightarrow> 'a \<Rightarrow> 'a option" where
  "fold_entries f [] x = Some x"
| "fold_entries f (e # es) x = Option.bind (f e x) (fold_entries f es)"

text \<open>
  \<open>filepath.WalkDir\<close> with a callback that never stops it: a directory before its entries, these in order of
  their names, each directory read after the callback on it. The callback on an error only logs. The
  fuel bounds the depth; a tree that grows below the walk would exhaust it.
\<close>

fun walk_dir :: "nat \<Rightarrow> (string \<Rightarrow> bool \<Rightarrow> 'a \<Rightarrow> 'a option) \<Rightarrow> ('a \<Rightarrow> os_fs) \<Rightarrow> string \<Rightarrow> bool \<Rightarrow> 'a \<Rightarrow> 'a option" where
  "walk_dir 0 f fs_of path isDir x = None"
| "walk_dir (Suc k) f fs_of path isDir x = do {
     x1 \<leftarrow> f path isDir x;
     if \<not> isDir then Some x1
     else case os_ReadDir (fs_of x1) path of
       Inl _ \<Rightarrow> Some x1
     | Inr es \<Rightarrow> fold_entries (\<lambda>(name, nd). walk_dir k f fs_of (path_join [path, name]) (is_dir_node nd)) es x1
   }"

definition WalkDir :: "(string \<Rightarrow> bool \<Rightarrow> 'a \<Rightarrow> 'a option) \<Rightarrow> ('a \<Rightarrow> os_fs) \<Rightarrow> string \<Rightarrow> 'a \<Rightarrow> 'a option" where
  "WalkDir f fs_of dir x =
     (case os_Lstat (fs_of x) dir of
        Inl _ \<Rightarrow> Some x
      | Inr nd \<Rightarrow> walk_dir (Suc (length (dents (fs_of x)))) f fs_of dir (is_dir_node nd) x)"

definition listCachedObjects :: "'n fc_env \<Rightarrow> string \<Rightarrow> 'n fc_state \<Rightarrow> string list option" where
  "listCachedObjects E directory s =
     map_option sort_strings
       (WalkDir (\<lambda>path isDir names. Some (if isDir then names else names @ [getObjectName (fst s) path]))
          (\<lambda>_. fc_fs E s) (local_path (fst s) directory) [])"

text \<open>
  The objects in the cloud below a directory, page by page and each directory in turn. The work left is a
  list: pages to ask for and attributes to look at. Nothing bounds the pages a storage may return.
\<close>

datatype list_work = Page string string | Listed ObjAttr

partial_function (option) list_cloud ::
  "'n fc_env \<Rightarrow> int \<Rightarrow> list_work list \<Rightarrow> string list \<Rightarrow> 'n fc_state \<Rightarrow> ((string list \<times> err) \<times> 'n fc_state) option" where
  "list_cloud E now ws acc s =
     (case ws of
        [] \<Rightarrow> Some ((acc, None), s)
      | Listed a # rest \<Rightarrow>
          if \<not> IsDir a then list_cloud E now rest (acc @ [a_Path a]) s
          else list_cloud E now (Page (a_Path a) [] # rest) acc s
      | Page p token # rest \<Rightarrow> do {
          ((attrs, token2, e), s1) \<leftarrow> below (StreamDir (e_next E)) now
            \<lparr>sd_Name = p, sd_Offset = 0, sd_Token = token, sd_Count = 0\<rparr> s;
          if e \<noteq> None \<and> \<not> (offlineDataAvailable e \<and> fc_offlineAccess (fst s1)) then Some ((acc, e), s1)
          else list_cloud E now (map Listed (rev attrs) @ (if token2 = [] then [] else [Page p token2]) @ rest) acc s1
        })"

declare list_cloud.simps [code]

definition listCloudObjects :: "'n fc_env \<Rightarrow> ('n fc_state, string, string list \<times> err) handler" where
  "listCloudObjects E now p s =
     map_option (\<lambda>((names, e), s1). ((sort_strings names, e), s1)) (list_cloud E now [Page p []] [] s)"

section \<open>Creating and deleting directories\<close>

definition create_dir_offline :: "'n fc_env \<Rightarrow> ('n fc_state, CreateDirOptions, err) handler" where
  "create_dir_offline E now options s = do {
     let name = cd_Name options;
     ((known, inCloud, e), s1) \<leftarrow> checkCloud E now name s;
     if known \<and> \<not> inCloud
     then (case fc_os E (os_Mkdir now (local_path (fst s1) name) (cd_Mode options AND ModePerm)) s1 of
             (Some x, s2) \<Rightarrow> Some (Some x, s2)
           | (None, s2) \<Rightarrow>
               Some (None, addPendingOp name \<lparr>pf_isDir = True, pf_isDeletion = False\<rparr> (snd (get_flock name s2))))
     else if e \<noteq> None \<and> \<not> isOffline e then Some (e, s1)
     else if (case e of None \<Rightarrow> False | Some x \<Rightarrow> is_no_cached_data x) then Some (e, s1)
     else Some (Some ErrExist, s1)
   }"

definition fc_CreateDir :: "'n fc_env \<Rightarrow> ('n fc_state, CreateDirOptions, err) handler" where
  "fc_CreateDir E now options s =
     (if \<not> fc_offlineAccess (fst s) then below (CreateDir (e_next E)) now options s
      else do {
        (connected, s1) \<leftarrow> below (CloudConnected (e_next E)) now () s;
        if connected then do {
          (e, s2) \<leftarrow> below (CreateDir (e_next E)) now options s1;
          Some (e, if e = None \<or> (case e of None \<Rightarrow> False | Some x \<Rightarrow> is_err_exist x)
                   then snd (fc_os E (os_MkdirAll now (local_path (fst s2) (cd_Name options)) (cd_Mode options AND ModePerm)) s2)
                   else s2)
        }
        else create_dir_offline E now options s1
      })"

definition fc_DeleteDir :: "'n fc_env \<Rightarrow> ('n fc_state, NameOptions, err) handler" where
  "fc_DeleteDir E now options s0 = do {
     let name = opt_Name options;
     let s = snd (get_flock (ExtendDirName name) s0);
     (e, s1) \<leftarrow> below (DeleteDir (e_next E)) now options s;
     (offlineOkay, s2) \<leftarrow> (if \<not> (isOffline e \<and> fc_offlineAccess (fst s1)) then Some (False, s1)
       else case stat_local E name s1 of
         Inr _ \<Rightarrow> Some (True, s1)
       | Inl _ \<Rightarrow> do {
           ((known, inCloud, e2), s2) \<leftarrow> checkCloud E now name s1;
           Some (known, s2)
         });
     let s3 = (if e = None \<or> offlineOkay then fc_CachePurge E (local_path (fst s2) name) s2 else s2);
     Some (if offlineOkay then (None, addPendingOp name \<lparr>pf_isDir = True, pf_isDeletion = True\<rparr> s3) else (e, s3))
   }"

section \<open>Listing\<close>

text \<open>Both lists are in order of names: entries in both get the size and time of the local file.\<close>

fun merge_local ::
  "'n fc_env \<Rightarrow> string \<Rightarrow> ObjAttr list \<Rightarrow> string list \<Rightarrow> 'n fc_state \<Rightarrow> ObjAttr list \<times> 'n fc_state" where
  "merge_local E localPath (a # as) (d # ds) s =
     (if str_less (a_Name a) d
      then (case merge_local E localPath as (d # ds) s of (r, s1) \<Rightarrow> (a # r, s1))
      else if str_less d (a_Name a) then merge_local E localPath (a # as) ds s
      else
        let s1 = (if IsDir a then s else snd (get_flock (a_Path a) s));
            a1 = (if IsDir a then a
                  else case os_Stat (fc_fs E s1) (path_join [localPath, d]) of
                    Inr nd \<Rightarrow> with_local nd a | Inl _ \<Rightarrow> a)
        in case merge_local E localPath as ds s1 of (r, s2) \<Rightarrow> (a1 # r, s2))"
| "merge_local E localPath as ds s = (as, s)"

text \<open>Whether an entry that only the local directory has belongs in the page.\<close>

definition belongs_in_page :: "string \<Rightarrow> ObjAttr list \<Rightarrow> bool \<Rightarrow> bool \<Rightarrow> bool" where
  "belongs_in_page name attrs isFirstPage isLastPage =
     (let firstInPage = (if attrs = [] then [] else a_Name (hd attrs));
          lastInPage = (if attrs = [] then [] else a_Name (last attrs))
      in str_less name firstInPage \<and> isFirstPage \<or> str_less firstInPage name \<and> str_less name lastInPage \<or>
         str_less lastInPage name \<and> isLastPage)"

definition JoinUnixFilepath :: "string list \<Rightarrow> string" where
  "JoinUnixFilepath es = NormalizeObjectName (path_join es)"

definition add_local_entry ::
  "'n fc_env \<Rightarrow> int \<Rightarrow> StreamDirOptions \<Rightarrow> string \<Rightarrow> ObjAttr list \<Rightarrow> string \<Rightarrow> ObjAttr list \<times> 'n fc_state \<Rightarrow>
     (ObjAttr list \<times> 'n fc_state) option" where
  "add_local_entry E now options token page name = (\<lambda>(attrs, s).
     if name \<in> a_Name ` set page then Some (attrs, s)
     else do {
       let entryPath = JoinUnixFilepath [sd_Name options, name];
       ((known, inCloud, e), s1) \<leftarrow> checkCloud E now entryPath s;
       let belongs = belongs_in_page name page (sd_Token options = []) (token = []);
       if known \<and> inCloud \<and> \<not> belongs then Some (attrs, s1)
       else if known \<and> inCloud \<or> token = [] then
         (let s2 = snd (get_flock entryPath s1); localPath = path_join [local_path (fst s2) (sd_Name options), name] in
          case os_Stat (fc_fs E s2) localPath of
            Inr nd \<Rightarrow> Some (attrs @ [node_attr entryPath (path_base localPath) nd], s2)
          | Inl _ \<Rightarrow> Some (attrs, s2))
       else Some (attrs, s1)
     })"

text \<open>Sorted by path, duplicates dropped.\<close>

fun insert_by_path :: "ObjAttr \<Rightarrow> ObjAttr list \<Rightarrow> ObjAttr list" where
  "insert_by_path a [] = [a]"
| "insert_by_path a (b # bs) =
     (if lex_le (string_code (a_Path a)) (string_code (a_Path b)) then a # b # bs else b # insert_by_path a bs)"

fun compact_paths :: "ObjAttr list \<Rightarrow> ObjAttr list" where
  "compact_paths (a # b # as) = (if a_Path a = a_Path b then compact_paths (a # as) else a # compact_paths (b # as))"
| "compact_paths as = as"

definition sort_paths :: "ObjAttr list \<Rightarrow> ObjAttr list" where
  "sort_paths as = compact_paths (foldr insert_by_path as [])"

definition fc_StreamDir :: "'n fc_env \<Rightarrow> ('n fc_state, StreamDirOptions, ObjAttr list \<times> string \<times> err) handler" where
  "fc_StreamDir E now options s = do {
     ((attrs, token, e), s1) \<leftarrow> below (StreamDir (e_next E)) now options s;
     if e \<noteq> None \<and> \<not> (isOffline e \<and> fc_offlineAccess (fst s1) \<and> cachedData e) then Some ((attrs, token, e), s1)
     else do {
       let localPath = local_path (fst s1) (sd_Name options);
       let dirents = (case os_ReadDir (fc_fs E s1) localPath of Inl _ \<Rightarrow> [] | Inr es \<Rightarrow> map fst es);
       let (page, s2) = merge_local E localPath attrs dirents s1;
       (all, s3) \<leftarrow> fold_entries (add_local_entry E now options token page) dirents (page, s2);
       Some ((sort_paths all, token, None), s3)
     }
   }"

section \<open>Empty directories\<close>

definition str_contains :: "string \<Rightarrow> string \<Rightarrow> bool" where
  "str_contains s sub = list_ex (prefix sub) (suffixes s)"

text \<open>The entries of a directory, up to the first that is not, or does not become, empty.\<close>

fun empty_entries ::
  "(string \<Rightarrow> os_fs \<Rightarrow> (bool \<times> err) \<times> os_fs) \<Rightarrow> string \<Rightarrow> (string \<times> node) list \<Rightarrow> os_fs \<Rightarrow>
     (bool \<times> err) option \<times> os_fs" where
  "empty_entries del localPath [] fs = (None, fs)"
| "empty_entries del localPath ((name, nd) # es) fs =
     (if is_dir_node nd
      then (case del (path_join [localPath, name]) fs of
              ((val, Some e), fs1) \<Rightarrow> (Some (val, Some e), fs1)
            | ((val, None), fs1) \<Rightarrow> empty_entries del localPath es fs1)
      else (Some (False, Some (Errorf ''unable to delete directory, contains file'')), fs))"

fun delete_empty :: "nat \<Rightarrow> string \<Rightarrow> string \<Rightarrow> os_fs \<Rightarrow> (bool \<times> err) \<times> os_fs" where
  "delete_empty 0 tmp name fs = ((False, Some (path_err EIO)), fs)"
| "delete_empty (Suc k) tmp name fs =
     (let localPath = (if str_contains name tmp then name else path_join [tmp, name]) in
      case os_ReadDir fs localPath of
        Inl e \<Rightarrow> (if is_err_not_exist e then ((True, None), fs) else ((False, Some e), fs))
      | Inr es \<Rightarrow>
          (case empty_entries (delete_empty k tmp) localPath es fs of
             (Some r, fs1) \<Rightarrow> (r, fs1)
           | (None, fs1) \<Rightarrow>
               if equal_fold tmp localPath then ((True, None), fs1)
               else (case os_Remove localPath fs1 of
                       (Some e, fs2) \<Rightarrow> ((False, Some e), fs2)
                     | (None, fs2) \<Rightarrow> ((True, None), fs2))))"

text \<open>Directories nest less deeply than there are entries.\<close>

definition deleteEmptyDirs :: "'n fc_env \<Rightarrow> string \<Rightarrow> 'n fc_state \<Rightarrow> (bool \<times> err) \<times> 'n fc_state" where
  "deleteEmptyDirs E name s = fc_os E (\<lambda>fs. delete_empty (Suc (length (dents fs))) (fc_tmpPath (fst s)) name fs) s"

text \<open>The random name that no object has is an argument.\<close>

definition fc_IsDirEmpty :: "'n fc_env \<Rightarrow> string \<Rightarrow> ('n fc_state, NameOptions, bool) handler" where
  "fc_IsDirEmpty E bogus now options s = do {
     let name = opt_Name options;
     (emptyAtRemote, s1) \<leftarrow> below (IsDirEmpty (e_next E)) now options s;
     (connected, s2) \<leftarrow> below (CloudConnected (e_next E)) now () s1;
     if \<not> emptyAtRemote \<and> connected then Some (False, s2)
     else case deleteEmptyDirs E name s2 of
       ((emptyAfter, Some e), s3) \<Rightarrow> Some (False, s3)
     | ((emptyAfter, None), s3) \<Rightarrow>
         if \<not> emptyAfter \<or> connected then Some (emptyAfter \<and> emptyAtRemote, s3)
         else if \<not> fc_offlineAccess (fst s3) then Some (False, s3)
         else do {
           ((attrs, token, e), s4) \<leftarrow> below (StreamDir (e_next E)) now
             \<lparr>sd_Name = name, sd_Offset = 0, sd_Token = [], sd_Count = 1\<rparr> s3;
           if \<not> cachedData e \<or> attrs \<noteq> [] then Some (False, s4)
           else do {
             ((a, e2), s5) \<leftarrow> below (GetAttr (e_next E)) now (attr_of (JoinUnixFilepath [name, bogus])) s4;
             Some (isOffline e2 \<and> isNotExist e2, s5)
           }
         }
   }"

section \<open>Renaming directories\<close>

text \<open>The callback on the walk over the local source: files move, directories are made and remembered.\<close>

definition rename_visit ::
  "'n fc_env \<Rightarrow> int \<Rightarrow> string \<Rightarrow> string \<Rightarrow> string \<Rightarrow> bool \<Rightarrow> string list \<times> 'n fc_state \<Rightarrow> (string list \<times> 'n fc_state) option" where
  "rename_visit E now localSrc localDst path isDir = (\<lambda>(purge, s).
     (let newPath = replace_first localSrc localDst path; srcName = getObjectName (fst s) path;
          dstName = getObjectName (fst s) newPath in
      if \<not> isDir then
        (let (si, s1) = get_flock srcName s; (di, s2) = get_flock dstName s1 in
         map_option (\<lambda>(_, s3). (purge, s3)) (renameLocalFile E srcName dstName si di False s2))
      else
        let s1 = snd (fc_os E (os_MkdirAll now newPath (fc_defaultPermission (fst s))) s)
        in Some (purge @ [path], renamePendingOp srcName dstName s1)))"

definition rename_lazy :: "string \<Rightarrow> string \<Rightarrow> string \<Rightarrow> 'n fc_state \<Rightarrow> 'n fc_state" where
  "rename_lazy src dst srcName s0 =
     (let dstName = replace_first src dst srcName; (si, s1) = get_flock srcName s0; (di, s) = get_flock dstName s1
      in renameOpenHandles srcName dstName si di s)"

text \<open>\<open>None\<close> also when a lock would be taken twice: a name twice in the combined list.\<close>

definition fc_RenameDir :: "'n fc_env \<Rightarrow> ('n fc_state, RenameDirOptions, err) handler" where
  "fc_RenameDir E now options s0 = do {
     let src = rd_Src options;
     let dst = rd_Dst options;
     ((cloudObjects, e0), s1) \<leftarrow> listCloudObjects E now src s0;
     if e0 \<noteq> None then Some (e0, s1)
     else do {
       localObjects \<leftarrow> listCachedObjects E src s1;
       let srcObjects = combineLists cloudObjects localObjects;
       let objectNames = combineLists srcObjects (map (replace_first src dst) srcObjects);
       if \<not> distinct objectNames then None
       else do {
         let s2 = fold (\<lambda>name s. snd (get_flock name s)) objectNames s1;
         (e, s3) \<leftarrow> below (RenameDir (e_next E)) now options s2;
         if e \<noteq> None \<and> \<not> (isOffline e \<and> fc_offlineAccess (fst s3) \<and> isSubset cloudObjects localObjects) then Some (e, s3)
         else do {
           let localSrc = local_path (fst s3) src;
           let localDst = local_path (fst s3) dst;
           (purge, s4) \<leftarrow> WalkDir (rename_visit E now localSrc localDst) (\<lambda>(_, s). fc_fs E s) localSrc ([], s3);
           let s5 = fold (fc_CachePurge E) (rev purge) s4;
           Some (None, fold (rename_lazy src dst) cloudObjects s5)
         }
       }
     }
   }"

section \<open>Statistics of the file system\<close>

definition fc_StatFs :: "'n fc_env \<Rightarrow> ('n fc_state, unit, Statfs_t option \<times> bool \<times> err) handler" where
  "fc_StatFs E now options s = do {
     ((statfs, populated, e), s1) \<leftarrow> below (StatFs (e_next E)) now options s;
     let maxCacheSize = fc_maxCacheSizeMB (fst s1) * 1048576;
     let usage = (case e_usage E (fc_fs E s1) (fc_tmpPath (fst s1)) of Some u \<Rightarrow> u | None \<Rightarrow> 0);
     Some (if populated then (statfs, populated, e)
           else if maxCacheSize = 0 then (None, False, None)
           else case e_avail E (fc_fs E s1) of
             Inl x \<Rightarrow> (None, False, Some x)
           | Inr availableOnCacheFS \<Rightarrow>
               (Some \<lparr>st_Bsize = 4096, st_Blocks = floor maxCacheSize div 4096, st_Bfree = availableOnCacheFS div 4096,
                      st_Bavail = floor (max 0 (maxCacheSize - usage)) div 4096, st_Files = 1000000000,
                      st_Ffree = 1000000000, st_Frsize = 4096, st_Flags = 0, st_Namemax = 255\<rparr>, True, None), s1)
   }"

section \<open>Pending operations\<close>

text \<open>One operation brought to the cloud, under the object's lock.\<close>

definition push_object :: "'n fc_env \<Rightarrow> int \<Rightarrow> string \<Rightarrow> pendingFlags \<Rightarrow> node option \<Rightarrow> 'n fc_state \<Rightarrow> (err \<times> 'n fc_state) option" where
  "push_object E now name flags info s =
     (case info of
        None \<Rightarrow>
          if pf_isDir flags then below (DeleteDir (e_next E)) now \<lparr>opt_Name = name\<rparr> s
          else below (DeleteFile (e_next E)) now \<lparr>opt_Name = name\<rparr> s
      | Some nd \<Rightarrow>
          if is_dir_node nd then below (CreateDir (e_next E)) now \<lparr>cd_Name = name, cd_Mode = node_stat_mode nd\<rparr> s
          else uploadFile E now name s)"

text \<open>A local error other than that the file is missing leaves \<open>info\<close> nil, which is then dereferenced.\<close>

definition updateObject :: "'n fc_env \<Rightarrow> int \<Rightarrow> string \<Rightarrow> pendingFlags \<Rightarrow> 'n fc_state \<Rightarrow> (err \<times> 'n fc_state) option" where
  "updateObject E now name flags s0 =
     (let s = snd (get_flock name s0); localInfo = stat_local E name s;
          localMissing = (case localInfo of Inl e \<Rightarrow> is_not_exist (Some e) | Inr _ \<Rightarrow> False) in
      if \<not> is_pending name s then Some (None, s)
      else case localInfo of
        Inl e \<Rightarrow>
          if \<not> pf_isDeletion flags then Some (Some e, deletePendingOp name s)
          else if \<not> localMissing then None
          else do {
            (absent, s1) \<leftarrow> notInCloud E now name s;
            if absent then Some (None, deletePendingOp name s1)
            else do {
              (ce, s2) \<leftarrow> push_object E now name flags None s1;
              Some (ce, if ce = None then deletePendingOp name s2 else s2)
            }
          }
      | Inr nd \<Rightarrow> do {
          (ce, s1) \<leftarrow> push_object E now name flags (Some nd) s;
          Some (ce, if ce = None then deletePendingOp name s1 else s1)
        })"

text \<open>
  One pass of the upload thread over the map: an entry deleted meanwhile is skipped, the end of the
  upload window or the loss of the connection ends the pass.
\<close>

fun service_ops :: "'n fc_env \<Rightarrow> int \<Rightarrow> string list \<Rightarrow> 'n fc_state \<Rightarrow> 'n fc_state option" where
  "service_ops E now [] s = Some s"
| "service_ops E now (name # names) s =
     (case map_of (fc_pendingOps (fst s)) name of
        None \<Rightarrow> service_ops E now names s
      | Some flags \<Rightarrow>
          if \<not> fc_windowOpen (fst s) then Some s
          else (case updateObject E now name flags s of
                  None \<Rightarrow> None
                | Some (e, s1) \<Rightarrow> if isOffline e then Some s1 else service_ops E now names s1))"

definition servicePendingOps :: "'n fc_env \<Rightarrow> int \<Rightarrow> 'n fc_state \<Rightarrow> 'n fc_state option" where
  "servicePendingOps E now s =
     (if \<not> fc_windowOpen (fst s) then Some s
      else do {
        (connected, s1) \<leftarrow> below (CloudConnected (e_next E)) now () s;
        if \<not> connected then Some s1 else service_ops E now (map fst (fc_pendingOps (fst s1))) s1
      })"

text \<open>An upload window begins and ends: uploads are on while any is open.\<close>

definition window_begins :: "'n fc_state \<Rightarrow> 'n fc_state" where
  "window_begins = (\<lambda>(fc, n).
     (fc\<lparr>fc_activeWindows := fc_activeWindows fc + 1,
         fc_windowOpen := (if fc_activeWindows fc + 1 = 1 then True else fc_windowOpen fc)\<rparr>, n))"

definition window_ends :: "'n fc_state \<Rightarrow> 'n fc_state" where
  "window_ends = (\<lambda>(fc, n).
     (fc\<lparr>fc_activeWindows := fc_activeWindows fc - 1,
         fc_windowOpen := (if fc_activeWindows fc - 1 = 0 then False else fc_windowOpen fc)\<rparr>, n))"

end
