(* ===== verification/File_Cache_Handles.thy ===== *)
theory File_Cache_Handles
  imports File_Cache_Dirs File_Lru_Props "HOL-Library.Multiset"
begin

text \<open>
  What the file cache's handlers do to the open handles and their counts. Most leave them alone: \<open>keeps\<close>
  says how, and a small calculus of rules proves it along the code. Opening, creating and releasing a
  file and renaming change the counts; the accounting of \<open>acct\<close> is kept by all of them.
\<close>

section \<open>Leaving the handles alone\<close>

text \<open>A handle that is open on a local file, or still to be.\<close>

definition usable :: "FcHandle \<Rightarrow> bool" where
  "usable h \<longleftrightarrow> fh_openFileOptions h \<noteq> None \<or> h_FObj h \<noteq> None"

abbreviation flock_id :: "FileCache \<Rightarrow> string \<Rightarrow> nat option" where
  "flock_id c name \<equiv> map_of (locks (fc_locks c)) name"

definition fc_keeps :: "FileCache \<Rightarrow> FileCache \<Rightarrow> bool" where
  "fc_keeps c c' \<longleftrightarrow>
     fc_table c' = fc_table c \<and> fc_fresh c \<le> fc_fresh c' \<and>
     (\<forall>r < fc_fresh c. h_Path (fc_heap c' r) = h_Path (fc_heap c r) \<and> (usable (fc_heap c r) \<longrightarrow> usable (fc_heap c' r))) \<and>
     (lock_map_inv (fc_locks c) \<longrightarrow>
        lock_map_inv (fc_locks c') \<and> (\<forall>n. lock_count (fc_locks c') n = lock_count (fc_locks c) n)) \<and>
     (\<forall>n i. flock_id c n = Some i \<longrightarrow> flock_id c' n = Some i) \<and>
     fc_tmpPath c' = fc_tmpPath c \<and> pc_tmpPath (lp_cfg (fc_policy c')) = pc_tmpPath (lp_cfg (fc_policy c)) \<and>
     fc_lazyWrite c' = fc_lazyWrite c"

named_theorems step_keeps "what leaves the handles and their counts alone"

lemma fc_keeps_refl [step_keeps]: "fc_keeps c c"
  by (simp add: fc_keeps_def)

lemma fc_keeps_trans: "fc_keeps c c1 \<Longrightarrow> fc_keeps c1 c2 \<Longrightarrow> fc_keeps c c2"
  unfolding fc_keeps_def by (simp del: map_of_eq_Some_iff)

lemma keeps_same:
  assumes "fc_keeps c c1" "fc_table c2 = fc_table c1" "fc_fresh c2 = fc_fresh c1" "fc_heap c2 = fc_heap c1"
    "fc_locks c2 = fc_locks c1" "fc_tmpPath c2 = fc_tmpPath c1" "fc_lazyWrite c2 = fc_lazyWrite c1"
    "pc_tmpPath (lp_cfg (fc_policy c2)) = pc_tmpPath (lp_cfg (fc_policy c1))"
  shows "fc_keeps c c2"
  by (rule fc_keeps_trans [OF assms(1)]) (simp add: fc_keeps_def assms)

lemma keeps_missed [step_keeps]: "fc_keeps c c1 \<Longrightarrow> fc_keeps c (c1\<lparr>fc_missedChmodList := x\<rparr>)"
  by (erule keeps_same) simp_all

lemma keeps_policy:
  assumes "fc_keeps c c1" "pc_fileLocks (lp_cfg p) = fc_locks c1" "pc_tmpPath (lp_cfg p) = pc_tmpPath (lp_cfg (fc_policy c1))"
  shows "fc_keeps c (c1\<lparr>fc_policy := p\<rparr>)"
  by (rule keeps_same [OF assms(1)]) (simp_all add: assms)

lemma keeps_if [step_keeps]:
  "(b \<Longrightarrow> fc_keeps c (fst x)) \<Longrightarrow> (\<not> b \<Longrightarrow> fc_keeps c (fst y)) \<Longrightarrow> fc_keeps c (fst (if b then x else y))" by simp

lemma keeps_case_option [step_keeps]:
  "fc_keeps c (fst x) \<Longrightarrow> (\<And>a. fc_keeps c (fst (f a))) \<Longrightarrow> fc_keeps c (fst (case_option x f m))" by (simp split: option.split)

lemma keeps_pair [step_keeps]: "fc_keeps c a \<Longrightarrow> fc_keeps c (fst (a, b))" by simp

text \<open>The same for steps with a result.\<close>

lemma keeps_res [step_keeps]:
  "(b \<Longrightarrow> fc_keeps c (fst (snd x))) \<Longrightarrow> (\<not> b \<Longrightarrow> fc_keeps c (fst (snd y))) \<Longrightarrow> fc_keeps c (fst (snd (if b then x else y)))"
  "fc_keeps c (fst (snd x)) \<Longrightarrow> (\<And>a. fc_keeps c (fst (snd (f a)))) \<Longrightarrow> fc_keeps c (fst (snd (case_option x f m)))"
  "(\<And>a. fc_keeps c (fst (snd (f a)))) \<Longrightarrow> (\<And>a. fc_keeps c (fst (snd (g a)))) \<Longrightarrow> fc_keeps c (fst (snd (case_sum f g k)))"
  "fc_keeps c (fst s) \<Longrightarrow> fc_keeps c (fst (snd (r, s)))"
  by (simp_all split: option.split sum.split)

section \<open>The steps\<close>

lemma keeps_os [step_keeps]: "fc_keeps c (fst s) \<Longrightarrow> fc_keeps c (fst (snd (fc_os E f s)))"
  by (simp add: fc_os_def split: prod.split)

lemma keeps_purge [step_keeps]: "fc_keeps c (fst s) \<Longrightarrow> fc_keeps c (fst (fc_CachePurge E p s))"
  by (cases s) (auto simp: fc_CachePurge_def CachePurge_def removeNode_def extractNode_def upd_node_def Let_def
    split: option.split intro!: keeps_policy)

lemma keeps_addPending [step_keeps]: "fc_keeps c (fst s) \<Longrightarrow> fc_keeps c (fst (addPendingOp n f s))"
  by (cases s) (auto simp: addPendingOp_def store_pending_def intro!: keeps_policy)

lemma keeps_deletePending [step_keeps]: "fc_keeps c (fst s) \<Longrightarrow> fc_keeps c (fst (deletePendingOp n s))"
  by (cases s) (auto simp: deletePendingOp_def intro!: keeps_policy)

lemma set_locks_simps [simp]:
  "fc_locks (set_locks ls c) = ls" "fc_table (set_locks ls c) = fc_table c" "fc_fresh (set_locks ls c) = fc_fresh c"
  "fc_heap (set_locks ls c) = fc_heap c" "fc_tmpPath (set_locks ls c) = fc_tmpPath c"
  "fc_lazyWrite (set_locks ls c) = fc_lazyWrite c"
  "pc_tmpPath (lp_cfg (fc_policy (set_locks ls c))) = pc_tmpPath (lp_cfg (fc_policy c))"
  by (simp_all add: set_locks_def)

lemma keeps_locks:
  assumes "lock_map_inv (fc_locks c) \<Longrightarrow> lock_map_inv ls \<and> (\<forall>n. lock_count ls n = lock_count (fc_locks c) n)"
    "\<And>n i. flock_id c n = Some i \<Longrightarrow> map_of (locks ls) n = Some i"
  shows "fc_keeps c (set_locks ls c)"
  using assms by (simp add: fc_keeps_def del: map_of_eq_Some_iff)

lemma get_flock_id: "get_flock n s = (i, s1) \<Longrightarrow> flock_id (fst s1) n = Some i"
  by (cases s) (auto simp: get_flock_def lm_Get_def split: option.splits prod.splits simp del: map_of_eq_Some_iff)

lemma lm_Get_keeps: "lm_Get l n = (i, l') \<Longrightarrow> map_of (locks l) m = Some j \<Longrightarrow> map_of (locks l') m = Some j"
  by (auto simp: lm_Get_def split: option.splits simp del: map_of_eq_Some_iff)

lemma keeps_get_flock [step_keeps]:
  assumes "fc_keeps c (fst s)"
  shows "fc_keeps c (fst (snd (get_flock n s)))"
proof -
  obtain fc m where s: "s = (fc, m)" by fastforce
  obtain i ls where g: "lm_Get (fc_locks fc) n = (i, ls)" by fastforce
  have "fc_keeps fc (set_locks ls fc)"
    by (rule keeps_locks) (use lm_Get_count [OF _ g] lm_Get_keeps [OF g] in blast)+
  then show ?thesis using assms g s by (auto simp: get_flock_def intro: fc_keeps_trans)
qed

lemma keeps_upd_flock [step_keeps]:
  assumes "fc_keeps c (fst s)" "\<And>l. handleCount (f l) = handleCount l"
  shows "fc_keeps c (fst (upd_flock i f s))"
proof -
  obtain fc m where s: "s = (fc, m)" by fastforce
  let ?ls = "(fc_locks fc)\<lparr>lock_items := (lock_items (fc_locks fc))(i := f (lock_items (fc_locks fc) i))\<rparr>"
  have "fc_keeps fc (set_locks ?ls fc)"
    by (rule keeps_locks) (auto simp: assms(2) lock_map_inv_def lock_count_def split: option.split simp del: map_of_eq_Some_iff)
  then show ?thesis using assms(1) s by (auto simp: upd_flock_def intro: fc_keeps_trans)
qed

lemma keeps_upd_handle [step_keeps]:
  assumes "fc_keeps c (fst s)" "\<And>h. h_Path (f h) = h_Path h" "\<And>h. usable h \<Longrightarrow> usable (f h)"
  shows "fc_keeps c (fst (upd_handle r f s))"
proof -
  have "fc_keeps (fst s) (fst (upd_handle r f s))"
    using assms(2,3) by (cases s) (simp add: upd_handle_def fc_keeps_def)
  with assms(1) show ?thesis by (rule fc_keeps_trans)
qed

lemma keeps_alloc [step_keeps]:
  assumes "fc_keeps c (fst s)" shows "fc_keeps c (fst (snd (alloc_handle h s)))"
  by (rule fc_keeps_trans [OF assms]) (cases s; simp add: alloc_handle_def fc_keeps_def)

lemma CacheValid_keeps: "fc_keeps c (fst s) \<Longrightarrow> fc_CacheValid p s = Some s1 \<Longrightarrow> fc_keeps c (fst s1)"
  by (cases s) (auto simp: fc_CacheValid_def dest!: CacheValid_frame(1) intro!: keeps_policy)

lemma FileUsed_keeps: "fc_keeps c (fst s) \<Longrightarrow> fc_FileUsed p s = Some s1 \<Longrightarrow> fc_keeps c (fst s1)"
  unfolding fc_FileUsed_def by (rule CacheValid_keeps)

lemma below_keeps: "fc_keeps c (fst s) \<Longrightarrow> below h now q s = Some (r, s1) \<Longrightarrow> fc_keeps c (fst s1)"
  by (cases s; cases s1) simp

lemma lm_same_count [simp]:
  "handleCount (lm_IncDirty l) = handleCount l" "handleCount (lm_DecDirty l) = handleCount l"
  "handleCount (lm_SetDownloadTime t l) = handleCount l"
  by (simp_all add: lm_IncDirty_def lm_DecDirty_def lm_SetDownloadTime_def Let_def)

lemma handle_flag_simps [simp]: "h_Path (handle_flag f h) = h_Path h" "usable (handle_flag f h) = usable h"
  by (simp_all add: handle_flag_def usable_def)

lemma keeps_setDirty [step_keeps]: "fc_keeps c (fst s) \<Longrightarrow> fc_keeps c (fst (setHandleDirty r s))"
  unfolding setHandleDirty_def Let_def case_prod_unfold by (intro step_keeps) simp_all

lemma keeps_clearDirty [step_keeps]: "fc_keeps c (fst s) \<Longrightarrow> fc_keeps c (fst (clearHandleDirty r s))"
  unfolding clearHandleDirty_def Let_def case_prod_unfold by (intro step_keeps) (simp_all add: usable_def)

section \<open>A calculus for handlers\<close>

text \<open>
  \<open>post m Q\<close>: if the step \<open>m\<close> returns, its result and state are in \<open>Q\<close>. \<open>kept\<close> and \<open>kept_st\<close> are the
  cases of a handler and of a step without a result that leave the handles alone.
\<close>

definition post :: "('r \<times> 's) option \<Rightarrow> ('r \<Rightarrow> 's \<Rightarrow> bool) \<Rightarrow> bool" where
  "post m Q \<longleftrightarrow> (\<forall>r s. m = Some (r, s) \<longrightarrow> Q r s)"

abbreviation kept :: "FileCache \<Rightarrow> ('r \<times> 'n fc_state) option \<Rightarrow> bool" where
  "kept c m \<equiv> post m (\<lambda>_ s. fc_keeps c (fst s))"

definition kept_st :: "FileCache \<Rightarrow> 'n fc_state option \<Rightarrow> bool" where
  "kept_st c m \<longleftrightarrow> (\<forall>s. m = Some s \<longrightarrow> fc_keeps c (fst s))"

named_theorems handler_keeps "handlers that leave the handles alone"

lemma post_weaken: "post m Q \<Longrightarrow> (\<And>r s. Q r s \<Longrightarrow> R r s) \<Longrightarrow> post m R"
  by (simp add: post_def)

lemma post_Some: "Q r s \<Longrightarrow> post (Some (r, s)) Q"
  by (simp add: post_def)

lemma post_Some_any: "Q (fst x) (snd x) \<Longrightarrow> post (Some x) Q"
  by (auto simp: post_def)

lemma post_Some_if: "post (if b then Some x else Some y) Q \<Longrightarrow> post (Some (if b then x else y)) Q"
  by (simp split: if_splits)

lemma post_bool: "(m \<Longrightarrow> post x Q) \<Longrightarrow> (\<not> m \<Longrightarrow> post y Q) \<Longrightarrow> post (case_bool x y m) Q"
  by (simp split: bool.split)

lemma post_None: "post None Q"
  by (simp add: post_def)

lemma post_bind: "post m P \<Longrightarrow> (\<And>r s. P r s \<Longrightarrow> post (f (r, s)) Q) \<Longrightarrow> post (Option.bind m f) Q"
  by (auto simp: post_def split: bind_splits)

lemma kept_bind: "kept c m \<Longrightarrow> (\<And>r s. fc_keeps c (fst s) \<Longrightarrow> post (f r s) Q) \<Longrightarrow> post (Option.bind m (case_prod f)) Q"
  by (erule post_bind) simp

lemma kept_bind_st: "kept_st c m \<Longrightarrow> (\<And>s. fc_keeps c (fst s) \<Longrightarrow> post (f s) Q) \<Longrightarrow> post (Option.bind m f) Q"
  by (auto simp: post_def kept_st_def split: bind_splits)

lemma post_step: "fc_keeps c (fst (snd p)) \<Longrightarrow> (\<And>r s. p = (r, s) \<Longrightarrow> fc_keeps c (fst s) \<Longrightarrow> post (f r s) Q) \<Longrightarrow> post (case_prod f p) Q"
  by (cases p) simp

lemma post_prod: "(\<And>a b. post (f a b) Q) \<Longrightarrow> post (case_prod f p) Q"
  by (cases p) simp

lemma post_prod_app: "(\<And>a b. p = (a, b) \<Longrightarrow> post (f a b s) Q) \<Longrightarrow> post (case_prod f p s) Q"
  by (cases p) simp

lemma post_if: "(b \<Longrightarrow> post x Q) \<Longrightarrow> (\<not> b \<Longrightarrow> post y Q) \<Longrightarrow> post (if b then x else y) Q"
  by simp

lemma post_option: "(m = None \<Longrightarrow> post x Q) \<Longrightarrow> (\<And>a. m = Some a \<Longrightarrow> post (f a) Q) \<Longrightarrow> post (case_option x f m) Q"
  by (simp split: option.split)

lemma post_sum: "(\<And>a. m = Inl a \<Longrightarrow> post (f a) Q) \<Longrightarrow> (\<And>a. m = Inr a \<Longrightarrow> post (g a) Q) \<Longrightarrow> post (case_sum f g m) Q"
  by (simp split: sum.split)

lemma post_option_app:
  "(m = None \<Longrightarrow> post (x s) Q) \<Longrightarrow> (\<And>a. m = Some a \<Longrightarrow> post (f a s) Q) \<Longrightarrow> post (case_option x f m s) Q"
  by (simp split: option.split)

lemma post_sum_app:
  "(\<And>a. m = Inl a \<Longrightarrow> post (f a s) Q) \<Longrightarrow> (\<And>a. m = Inr a \<Longrightarrow> post (g a s) Q) \<Longrightarrow> post (case_sum f g m s) Q"
  by (simp split: sum.split)

lemma kept_below [handler_keeps]: "fc_keeps c (fst s) \<Longrightarrow> kept c (below h now q s)"
  by (cases s) (auto simp: post_def dest: below_keeps)

lemma kept_CacheValid [handler_keeps]: "fc_keeps c (fst s) \<Longrightarrow> kept_st c (fc_CacheValid p s)"
  unfolding kept_st_def by (blast intro: CacheValid_keeps)

lemma kept_FileUsed [handler_keeps]: "fc_keeps c (fst s) \<Longrightarrow> kept_st c (fc_FileUsed p s)"
  unfolding kept_st_def by (blast intro: FileUsed_keeps)

lemma kept_st_Some [handler_keeps]: "fc_keeps c (fst s) \<Longrightarrow> kept_st c (Some s)"
  by (simp add: kept_st_def)

lemma kept_st_None [handler_keeps]: "kept_st c None"
  by (simp add: kept_st_def)

lemma kept_st_if [handler_keeps]: "(b \<Longrightarrow> kept_st c x) \<Longrightarrow> (\<not> b \<Longrightarrow> kept_st c y) \<Longrightarrow> kept_st c (if b then x else y)"
  by simp

lemma kept_st_option [handler_keeps]: "kept_st c x \<Longrightarrow> (\<And>a. kept_st c (f a)) \<Longrightarrow> kept_st c (case_option x f m)"
  by (simp split: option.split)

lemma kept_st_bind [handler_keeps]:
  "kept c m \<Longrightarrow> (\<And>r s. fc_keeps c (fst s) \<Longrightarrow> kept_st c (f r s)) \<Longrightarrow> kept_st c (Option.bind m (case_prod f))"
  unfolding post_def kept_st_def by (cases m) fastforce+

lemmas post_cases = post_None post_Some post_Some_if post_bool post_if post_option post_sum

lemmas post_calls = post_step kept_bind kept_bind_st

lemmas post_splits = post_prod post_prod_app post_option_app post_sum_app

lemmas post_rules = post_cases post_calls post_splits

section \<open>The handlers that leave the handles alone\<close>

lemma checkCloud_keeps [handler_keeps]: "fc_keeps c (fst s) \<Longrightarrow> kept c (checkCloud E now name s)"
  unfolding checkCloud_def by (intro post_rules handler_keeps step_keeps)

lemma notInCloud_keeps [handler_keeps]: "fc_keeps c (fst s) \<Longrightarrow> kept c (notInCloud E now name s)"
  unfolding notInCloud_def by (intro post_rules handler_keeps step_keeps)

lemma refresh_check_keeps [handler_keeps]: "fc_keeps c (fst s) \<Longrightarrow> kept c (refresh_check E now i a nd s)"
  unfolding refresh_check_def by (intro post_rules handler_keeps step_keeps) simp_all

lemma isDownloadRequired_keeps [handler_keeps]: "fc_keeps c (fst s) \<Longrightarrow> kept c (isDownloadRequired E now l p i s)"
  unfolding isDownloadRequired_def Let_def by (intro post_rules handler_keeps step_keeps) simp_all


lemma set_mode_times_keeps [step_keeps]: "fc_keeps c (fst s) \<Longrightarrow> fc_keeps c (fst (set_mode_times E l cr a s))"
  unfolding set_mode_times_def Let_def by (intro step_keeps)

lemma fetch_content_keeps [handler_keeps]:
  "fc_keeps c (fst s) \<Longrightarrow> kept c (fetch_content E now l p i fd ov cr a s)"
  unfolding fetch_content_def Let_def by (intro post_rules handler_keeps step_keeps) simp_all

lemma download_file_keeps [handler_keeps]: "fc_keeps c (fst s) \<Longrightarrow> kept c (download_file E now l p i oo a s)"
  unfolding download_file_def by (intro post_rules handler_keeps step_keeps)

lemma usable_simps [simp]:
  "usable (h\<lparr>h_Size := x\<rparr>) = usable h" "usable (h\<lparr>h_OptCnt := y\<rparr>) = usable h"
  "usable (h\<lparr>h_UnixFD := z, h_FObj := Some fd\<rparr>)"
  "usable (h\<lparr>h_UnixFD := z, h_FObj := Some fd, fh_openFileOptions := w\<rparr>)"
  by (simp_all add: usable_def)

lemma open_local_keeps [step_keeps]: "fc_keeps c (fst s) \<Longrightarrow> fc_keeps c (fst (snd (open_local E now l r i oo s)))"
proof -
  assume k: "fc_keeps c (fst s)"
  obtain x s1 where o: "fc_os E (os_OpenFile now l (flags_of_int (oo_flags oo)) (oo_fMode oo)) s = (x, s1)"
    by (meson surj_pair)
  with keeps_os [OF k] have k1: "fc_keeps c (fst s1)" by (metis snd_conv)
  show ?thesis
  proof (cases x)
    case (Inl a)
    with k1 o show ?thesis by (simp add: open_local_def)
  next
    case (Inr fd)
    from k1 show ?thesis unfolding open_local_def o Inr Let_def
      by (simp only: prod.case sum.case snd_conv, intro step_keeps) simp_all
  qed
qed

lemma openFileInternal_keeps [handler_keeps]: "fc_keeps c (fst s) \<Longrightarrow> kept c (openFileInternal E now r i s)"
  unfolding openFileInternal_def Let_def
  by (intro post_rules handler_keeps step_keeps post_Some_any)

lemma completeOpen_keeps [handler_keeps]: "fc_keeps c (fst s) \<Longrightarrow> kept c (completeOpen E now r n s)"
  unfolding completeOpen_def Let_def by (intro post_rules handler_keeps step_keeps)

lemma create_empty_keeps [handler_keeps]: "fc_keeps c (fst s) \<Longrightarrow> kept c (create_empty E now q s)"
  unfolding create_empty_def by (intro post_rules handler_keeps step_keeps)

lemma create_allowed_keeps [handler_keeps]: "fc_keeps c (fst s) \<Longrightarrow> kept c (create_allowed E now q s)"
  unfolding create_allowed_def by (intro post_rules handler_keeps step_keeps)

lemma DeleteFile_keeps [handler_keeps]: "fc_keeps c (fst s) \<Longrightarrow> kept c (fc_DeleteFile E now q s)"
  unfolding fc_DeleteFile_def Let_def by (intro post_rules handler_keeps step_keeps) simp_all

lemma not_cached_result_keeps [handler_keeps]: "fc_keeps c (fst s) \<Longrightarrow> kept c (not_cached_result E now n e s)"
  unfolding not_cached_result_def by (intro post_rules handler_keeps step_keeps)

lemma chmodInternal_keeps [handler_keeps]: "fc_keeps c (fst s) \<Longrightarrow> kept c (chmodInternal E now q s)"
  unfolding chmodInternal_def Let_def by (intro post_rules handler_keeps step_keeps)

lemma Chmod_keeps [handler_keeps]: "fc_keeps c (fst s) \<Longrightarrow> kept c (fc_Chmod E now q s)"
  unfolding fc_Chmod_def by (intro handler_keeps step_keeps)

lemma Chown_keeps [handler_keeps]: "fc_keeps c (fst s) \<Longrightarrow> kept c (fc_Chown E now q s)"
  unfolding fc_Chown_def Let_def by (intro post_rules handler_keeps step_keeps post_Some_any)

lemma open_upload_keeps [step_keeps]: "fc_keeps c (fst s) \<Longrightarrow> fc_keeps c (fst (snd (open_upload E now l m s)))"
  unfolding open_upload_def case_prod_unfold by (intro step_keeps)

lemma upload_missed_mode_keeps [handler_keeps]: "fc_keeps c (fst s) \<Longrightarrow> kept_st c (upload_missed_mode E now n m s)"
  unfolding upload_missed_mode_def Let_def by (intro post_rules handler_keeps step_keeps)

lemma uploadFile_keeps [handler_keeps]: "fc_keeps c (fst s) \<Longrightarrow> kept c (uploadFile E now n s)"
  unfolding uploadFile_def Let_def by (intro post_rules handler_keeps step_keeps)

lemma flushFileCloud_keeps [handler_keeps]: "fc_keeps c (fst s) \<Longrightarrow> kept c (flushFileCloud E now r cl s)"
  unfolding flushFileCloud_def Let_def by (intro post_rules handler_keeps step_keeps)

lemma FlushFile_keeps [handler_keeps]: "fc_keeps c (fst s) \<Longrightarrow> kept c (fc_FlushFile E now r cl s)"
  unfolding fc_FlushFile_def Let_def by (intro post_rules handler_keeps step_keeps)

lemma SyncFile_keeps [handler_keeps]: "fc_keeps c (fst s) \<Longrightarrow> kept c (fc_SyncFile E now r s)"
  unfolding fc_SyncFile_def by (intro post_rules handler_keeps step_keeps)

lemma count_operation_keeps [handler_keeps]: "fc_keeps c (fst s) \<Longrightarrow> kept_st c (count_operation r s)"
  unfolding count_operation_def Let_def by (intro handler_keeps step_keeps) simp_all

lemma ReadInBuffer_keeps [handler_keeps]: "fc_keeps c (fst s) \<Longrightarrow> kept c (fc_ReadInBuffer E now r n off s)"
  unfolding fc_ReadInBuffer_def by (intro post_rules handler_keeps step_keeps)

lemma WriteFile_keeps [handler_keeps]: "fc_keeps c (fst s) \<Longrightarrow> kept c (fc_WriteFile E now r data off s)"
  unfolding fc_WriteFile_def Let_def by (intro post_rules handler_keeps step_keeps)


lemma handle_file_keeps [step_keeps]: "fc_keeps c (fst s) \<Longrightarrow> fc_keeps c (fst (snd (handle_file E now r n s)))"
  unfolding handle_file_def case_prod_unfold by (intro step_keeps) simp_all

lemma truncate_handle_keeps [step_keeps]: "fc_keeps c (fst s) \<Longrightarrow> fc_keeps c (fst (snd (truncate_handle E now r fd n s)))"
  unfolding truncate_handle_def case_prod_unfold by (intro step_keeps)

lemma truncate_offline_keeps [step_keeps]: "fc_keeps c (fst s) \<Longrightarrow> fc_keeps c (fst (snd (truncate_offline E now q info s)))"
  unfolding truncate_offline_def case_prod_unfold Let_def by (intro step_keeps)

lemma truncate_path_keeps [handler_keeps]: "fc_keeps c (fst s) \<Longrightarrow> kept c (truncate_path E now q s)"
  unfolding truncate_path_def Let_def by (intro post_rules handler_keeps step_keeps)

lemma TruncateFile_keeps [handler_keeps]: "fc_keeps c (fst s) \<Longrightarrow> kept c (fc_TruncateFile E now h q s)"
  unfolding fc_TruncateFile_def by (intro post_rules handler_keeps step_keeps post_Some_any)

lemma cloud_state_keeps [handler_keeps]: "fc_keeps c (fst s) \<Longrightarrow> kept c (cloud_state E now n b e s)"
  unfolding cloud_state_def by (intro post_rules handler_keeps step_keeps)

lemma GetAttr_keeps [handler_keeps]: "fc_keeps c (fst s) \<Longrightarrow> kept c (fc_GetAttr E now q s)"
  unfolding fc_GetAttr_def Let_def by (intro post_rules handler_keeps step_keeps)

lemma renamePendingOp_keeps [step_keeps]: "fc_keeps c (fst s) \<Longrightarrow> fc_keeps c (fst (renamePendingOp a b s))"
  unfolding renamePendingOp_def by (intro step_keeps)

section \<open>Directories\<close>

lemma create_dir_offline_keeps [handler_keeps]: "fc_keeps c (fst s) \<Longrightarrow> kept c (create_dir_offline E now q s)"
  unfolding create_dir_offline_def Let_def by (intro post_rules handler_keeps step_keeps)

lemma CreateDir_keeps [handler_keeps]: "fc_keeps c (fst s) \<Longrightarrow> kept c (fc_CreateDir E now q s)"
  unfolding fc_CreateDir_def by (intro post_rules handler_keeps step_keeps)

lemma DeleteDir_keeps [handler_keeps]: "fc_keeps c (fst s) \<Longrightarrow> kept c (fc_DeleteDir E now q s)"
  unfolding fc_DeleteDir_def Let_def by (intro post_rules handler_keeps step_keeps post_Some_any)

lemma merge_local_keeps [step_keeps]: "fc_keeps c (fst s) \<Longrightarrow> fc_keeps c (fst (snd (merge_local E l as ds s)))"
proof (induction E l as ds s rule: merge_local.induct)
  case (1 E l a as d ds s)
  let ?s1 = "if IsDir a then s else snd (get_flock (a_Path a) s)"
  have k: "fc_keeps c (fst ?s1)" using 1(4) by (intro step_keeps)
  consider "str_less (a_Name a) d" | "\<not> str_less (a_Name a) d" "str_less d (a_Name a)"
    | "\<not> str_less (a_Name a) d" "\<not> str_less d (a_Name a)" by blast
  then show ?case
  proof cases
    case 1
    with "1.IH"(1) [OF 1 "1.prems"] show ?thesis by (simp add: case_prod_unfold)
  next
    case 2
    with "1.IH"(2) [OF 2 "1.prems"] show ?thesis by simp
  next
    case 3
    with "1.IH"(3) [OF 3 refl refl k] show ?thesis by (simp add: case_prod_unfold Let_def)
  qed
qed simp_all

lemma fold_entries_kept:
  assumes "\<And>e x y. P x \<Longrightarrow> f e x = Some y \<Longrightarrow> P y"
  shows "P x \<Longrightarrow> fold_entries f es x = Some y \<Longrightarrow> P y"
proof (induction es arbitrary: x)
  case (Cons e es)
  then show ?case using assms by (cases "f e x") auto
qed simp

text \<open>Whatever the callback keeps, a walk over the local directory keeps.\<close>

lemma walk_dir_kept:
  assumes "\<And>p d x y. P x \<Longrightarrow> f p d x = Some y \<Longrightarrow> P y"
  shows "P x \<Longrightarrow> walk_dir k f fs_of p d x = Some y \<Longrightarrow> P y"
proof (induction k arbitrary: p d x y)
  case (Suc k)
  from Suc.prems(2) obtain x1 where x1: "f p d x = Some x1" by (cases "f p d x") auto
  with assms Suc.prems(1) have P1: "P x1" by blast
  show ?case
  proof (cases "d \<and> (\<exists>es. os_ReadDir (fs_of x1) p = Inr es)")
    case True
    then obtain es where es: "os_ReadDir (fs_of x1) p = Inr es" by blast
    with Suc.prems(2) x1 True
    have "fold_entries (\<lambda>(name, nd). walk_dir k f fs_of (path_join [p, name]) (is_dir_node nd)) es x1 = Some y" by simp
    with P1 show ?thesis by (rule fold_entries_kept [rotated 1]) (auto dest: Suc.IH)
  next
    case False
    with Suc.prems(2) x1 P1 show ?thesis by (auto split: sum.splits if_splits)
  qed
qed simp

lemma WalkDir_kept:
  assumes f: "\<And>p d x y. P x \<Longrightarrow> f p d x = Some y \<Longrightarrow> P y" and x: "P x" and w: "WalkDir f fs_of dir x = Some y"
  shows "P y"
proof (cases "os_Lstat (fs_of x) dir")
  case (Inl e)
  with x w show ?thesis by (simp add: WalkDir_def)
next
  case (Inr nd)
  with w have "walk_dir (Suc (length (dents (fs_of x)))) f fs_of dir (is_dir_node nd) x = Some y"
    by (simp add: WalkDir_def del: walk_dir.simps)
  with f x show ?thesis by (rule walk_dir_kept [of P f])
qed

lemma kept_returns: "kept c m \<Longrightarrow> m = Some (r, s) \<Longrightarrow> fc_keeps c (fst s)"
  unfolding post_def by blast

lemma kept_I: "(\<And>r s. m = Some (r, s) \<Longrightarrow> fc_keeps c (fst s)) \<Longrightarrow> kept c m"
  unfolding post_def by blast

lemma add_local_entry_keeps [handler_keeps]:
  "fc_keeps c (fst (snd x)) \<Longrightarrow> kept c (add_local_entry E now q tok page n x)"
  by (cases x; simp only: add_local_entry_def Let_def prod.case snd_conv; intro post_rules handler_keeps step_keeps; simp)

lemma add_local_entries_keep [handler_keeps]:
  assumes "fc_keeps c (fst (snd x))" shows "kept c (fold_entries (add_local_entry E now q tok page) ds x)"
proof (rule kept_I)
  fix r s assume "fold_entries (add_local_entry E now q tok page) ds x = Some (r, s)"
  from fold_entries_kept [of "\<lambda>x. fc_keeps c (fst (snd x))", OF _ assms this]
  show "fc_keeps c (fst s)" using kept_returns [OF add_local_entry_keeps] by (metis prod.exhaust snd_conv)
qed

lemma StreamDir_keeps [handler_keeps]: "fc_keeps c (fst s) \<Longrightarrow> kept c (fc_StreamDir E now q s)"
  unfolding fc_StreamDir_def Let_def by (intro post_rules handler_keeps step_keeps)

lemma IsDirEmpty_keeps [handler_keeps]: "fc_keeps c (fst s) \<Longrightarrow> kept c (fc_IsDirEmpty E b now q s)"
  unfolding fc_IsDirEmpty_def deleteEmptyDirs_def Let_def by (intro post_rules handler_keeps step_keeps)

lemma StatFs_keeps [handler_keeps]: "fc_keeps c (fst s) \<Longrightarrow> kept c (fc_StatFs E now q s)"
  unfolding fc_StatFs_def Let_def by (intro post_rules handler_keeps step_keeps)

lemma list_cloud_keeps:
  assumes "list_cloud E now ws acc s = Some y"
  shows "fc_keeps c (fst s) \<longrightarrow> fc_keeps c (fst (snd y))"
proof (rule list_cloud.raw_induct [where P = "\<lambda>E now ws acc s y. fc_keeps c (fst s) \<longrightarrow> fc_keeps c (fst (snd y))", OF _ assms],
    rule impI, goal_cases)
  case (1 lc E now ws acc s y)
  have lc: "fc_keeps c (fst s) \<Longrightarrow> kept c (lc E now ws acc s)" for E now ws acc s
    using 1(1) [of E now ws acc s] unfolding post_def by (metis snd_conv)
  note kept = post_rules handler_keeps lc step_keeps
  have "kept c (Some y)"
  proof (cases ws)
    case Nil
    with 1(2) show ?thesis by (auto intro: kept 1(3))
  next
    case (Cons w rest)
    show ?thesis
    proof (cases w)
      case (Page p token)
      from 1(3) show ?thesis unfolding 1(2) [symmetric] Cons Page list.case list_work.case by (intro kept)
    next
      case (Listed a)
      from 1(3) show ?thesis unfolding 1(2) [symmetric] Cons Listed list.case list_work.case by (intro kept)
    qed
  qed
  then show ?case by (cases y) (auto dest: kept_returns)
qed

lemma listCloudObjects_keeps [handler_keeps]: "fc_keeps c (fst s) \<Longrightarrow> kept c (listCloudObjects E now p s)"
  by (rule kept_I) (auto simp: listCloudObjects_def dest: list_cloud_keeps)

section \<open>Pending operations\<close>

lemma push_object_keeps [handler_keeps]: "fc_keeps c (fst s) \<Longrightarrow> kept c (push_object E now n fl info s)"
  unfolding push_object_def by (intro post_rules handler_keeps step_keeps)

lemma updateObject_keeps [handler_keeps]: "fc_keeps c (fst s) \<Longrightarrow> kept c (updateObject E now n fl s)"
  unfolding updateObject_def Let_def by (intro post_rules handler_keeps step_keeps)

lemma service_ops_keeps [handler_keeps]: "fc_keeps c (fst s) \<Longrightarrow> kept_st c (service_ops E now ns s)"
proof (induction ns arbitrary: s)
  case (Cons n ns)
  show ?case
  proof (cases "map_of (fc_pendingOps (fst s)) n")
    case (Some fl)
    have "kept_st c (case updateObject E now n fl s of None \<Rightarrow> None
        | Some (e, s1) \<Rightarrow> if isOffline e then Some s1 else service_ops E now ns s1)"
    proof (cases "updateObject E now n fl s")
      case (Some x)
      obtain e s1 where x: "x = (e, s1)" by (cases x)
      with kept_returns [OF updateObject_keeps [OF Cons.prems]] Some have "fc_keeps c (fst s1)" by blast
      with Some x Cons.IH show ?thesis by (simp add: kept_st_Some)
    qed (simp add: kept_st_None)
    with Some kept_st_Some [OF Cons.prems] show ?thesis by simp
  qed (use Cons in simp)
qed (simp add: handler_keeps)

lemma servicePendingOps_keeps [handler_keeps]: "fc_keeps c (fst s) \<Longrightarrow> kept_st c (servicePendingOps E now s)"
  unfolding servicePendingOps_def by (intro post_rules handler_keeps step_keeps)

lemma keeps_window_begins [step_keeps]: "fc_keeps c (fst s) \<Longrightarrow> fc_keeps c (fst (window_begins s))"
  by (cases s) (auto simp: window_begins_def intro: keeps_same)

lemma keeps_window_ends [step_keeps]: "fc_keeps c (fst s) \<Longrightarrow> fc_keeps c (fst (window_ends s))"
  by (cases s) (auto simp: window_ends_def intro: keeps_same)

end
