(* ===== verification/File_Cache_Counts.thy ===== *)
theory File_Cache_Counts
  imports File_Cache_Handles
begin

text \<open>
  The counts of open handles. The lock item of a file counts its handles, and the eviction policy spares
  a file while that count is positive; \<open>open_counted\<close> says what the counts are worth.
\<close>

section \<open>The accounting\<close>

abbreviation open_paths :: "FileCache \<Rightarrow> string multiset" where
  "open_paths c \<equiv> mset (map (\<lambda>r. h_Path (fc_heap c r)) (fc_table c))"

text \<open>
  The counts are those of a multiset of at most \<open>N\<close> names: the registered handles', and those of \<open>extra\<close>,
  which are open_counted and not registered; no others when the accounting is \<open>exact\<close>.
\<close>

definition open_counted :: "bool \<Rightarrow> nat \<Rightarrow> string multiset \<Rightarrow> FileCache \<Rightarrow> bool" where
  "open_counted exact N extra c \<longleftrightarrow>
     lock_map_inv (fc_locks c) \<and> distinct (fc_table c) \<and>
     (\<forall>r \<in> set (fc_table c). r < fc_fresh c \<and> usable (fc_heap c r)) \<and>
     (\<exists>T. (\<forall>n. lock_count (fc_locks c) n = int (count T n)) \<and> size T \<le> N \<and>
        open_paths c + extra \<subseteq># T \<and> (exact \<longrightarrow> T = open_paths c + extra))"

lemma counted_cong:
  assumes "open_counted x N M c" "fc_table c' = fc_table c" "fc_fresh c \<le> fc_fresh c'"
    "\<forall>r < fc_fresh c. h_Path (fc_heap c' r) = h_Path (fc_heap c r) \<and> (usable (fc_heap c r) \<longrightarrow> usable (fc_heap c' r))"
    "lock_map_inv (fc_locks c')" "\<forall>n. lock_count (fc_locks c') n = lock_count (fc_locks c) n"
  shows "open_counted x N M c'"
proof -
  have r: "r < fc_fresh c" if "r \<in> set (fc_table c)" for r using assms(1) that by (simp add: open_counted_def)
  then have "open_paths c' = open_paths c" using assms(2,4) by (auto intro!: image_mset_cong)
  moreover have "\<forall>r \<in> set (fc_table c). r < fc_fresh c' \<and> usable (fc_heap c' r)"
    using assms(1,3,4) by (auto simp: open_counted_def intro: less_le_trans)
  ultimately show ?thesis using assms(1,2,5,6) unfolding open_counted_def by simp
qed

lemma counted_keeps: "open_counted x N M c \<Longrightarrow> fc_keeps c c' \<Longrightarrow> open_counted x N M c'"
  by (rule counted_cong [of x N M c]) (auto simp: fc_keeps_def open_counted_def)

lemma lock_count_upd:
  assumes "lock_map_inv ls" "map_of (locks ls) n = Some i"
  shows "lock_count (ls\<lparr>lock_items := (lock_items ls)(i := f (lock_items ls i))\<rparr>) m =
    (if m = n then handleCount (f (lock_items ls i)) else lock_count ls m)"
proof -
  have "map_of (locks ls) m = Some i \<Longrightarrow> m = n" using assms unfolding lock_map_inv_def by blast
  with assms(2) show ?thesis by (cases "map_of (locks ls) m") (auto simp: lock_count_def simp del: map_of_eq_Some_iff map_of_eq_None_iff)
qed

lemma upd_flock_simps [simp]:
  "fc_locks (fst (upd_flock i f s)) =
     (fc_locks (fst s))\<lparr>lock_items := (lock_items (fc_locks (fst s)))(i := f (lock_items (fc_locks (fst s)) i))\<rparr>"
  "fc_table (fst (upd_flock i f s)) = fc_table (fst s)" "fc_fresh (fst (upd_flock i f s)) = fc_fresh (fst s)"
  "fc_heap (fst (upd_flock i f s)) = fc_heap (fst s)" "snd (upd_flock i f s) = snd s"
  by (cases s; simp add: upd_flock_def)+

lemma counted_upd:
  assumes "open_counted x N M (fst s)" "flock_id (fst s) n = Some i"
  obtains T where "\<And>m. m \<noteq> n \<Longrightarrow> lock_count (fc_locks (fst (upd_flock i f s))) m = int (count T m)"
    "lock_count (fc_locks (fst (upd_flock i f s))) n = handleCount (f (flock_at i s))"
    "handleCount (flock_at i s) = int (count T n)" "size T \<le> N"
    "open_paths (fst s) + M \<subseteq># T" "x \<Longrightarrow> T = open_paths (fst s) + M"
proof -
  from assms(1) obtain T where T: "\<forall>n. lock_count (fc_locks (fst s)) n = int (count T n)" "size T \<le> N"
      "open_paths (fst s) + M \<subseteq># T" "x \<longrightarrow> T = open_paths (fst s) + M" and l: "lock_map_inv (fc_locks (fst s))"
    unfolding open_counted_def by blast
  note u = lock_count_upd [OF l assms(2), of f]
  have "handleCount (flock_at i s) = int (count T n)"
    using T(1)[rule_format, of n] assms(2) by (simp add: lock_count_def del: map_of_eq_Some_iff)
  with T u show thesis by (intro that [of T]) simp_all
qed

lemma counted_Inc:
  assumes "open_counted x N M (fst s)" "flock_id (fst s) n = Some i" "int N + 1 < 2 ^ 32"
  shows "open_counted x (Suc N) (add_mset n M) (fst (upd_flock i lm_Inc s))"
proof -
  from counted_upd [OF assms(1,2), of lm_Inc] obtain T where
    T: "\<And>m. m \<noteq> n \<Longrightarrow> lock_count (fc_locks (fst (upd_flock i lm_Inc s))) m = int (count T m)"
      "lock_count (fc_locks (fst (upd_flock i lm_Inc s))) n = handleCount (lm_Inc (flock_at i s))"
      "handleCount (flock_at i s) = int (count T n)" "size T \<le> N"
      "open_paths (fst s) + M \<subseteq># T" "x \<Longrightarrow> T = open_paths (fst s) + M" by blast
  have "count T n \<le> N" using count_le_size [of T n] T(4) by linarith
  with assms(3) have "int (count T n) + 1 < 2 ^ 32" by linarith
  then have "handleCount (lm_Inc (flock_at i s)) = int (count (add_mset n T) n)"
    using T(3) by (simp add: lm_Inc_def wrapu32_id)
  with T(1,2) have "\<forall>m. lock_count (fc_locks (fst (upd_flock i lm_Inc s))) m = int (count (add_mset n T) m)" by auto
  with T(4-6) assms(1) show ?thesis
    by (auto simp: open_counted_def lock_map_inv_def intro!: exI [of _ "add_mset n T"])
qed

lemma counted_Dec:
  assumes "open_counted x N (add_mset n M) (fst s)" "flock_id (fst s) n = Some i" "int N < 2 ^ 32"
  shows "open_counted x N M (fst (upd_flock i lm_Dec s))"
proof -
  from counted_upd [OF assms(1,2), of lm_Dec] obtain T where
    T: "\<And>m. m \<noteq> n \<Longrightarrow> lock_count (fc_locks (fst (upd_flock i lm_Dec s))) m = int (count T m)"
      "lock_count (fc_locks (fst (upd_flock i lm_Dec s))) n = handleCount (lm_Dec (flock_at i s))"
      "handleCount (flock_at i s) = int (count T n)" "size T \<le> N"
      "open_paths (fst s) + add_mset n M \<subseteq># T" "x \<Longrightarrow> T = open_paths (fst s) + add_mset n M" by blast
  have n: "n \<in># T" using T(5) by (auto dest: mset_subset_eqD)
  then obtain U where U: "T = add_mset n U" by (metis mset_add)
  have "count T n \<le> N" using count_le_size [of T n] T(4) by linarith
  with assms(3) have "int (count T n) < 2 ^ 32" by linarith
  then have "handleCount (lm_Dec (flock_at i s)) = int (count U n)"
    using T(3) U by (simp add: lm_Dec_def wrapu32_id)
  then have "lock_count (fc_locks (fst (upd_flock i lm_Dec s))) m = int (count U m)" for m
    using T(1) [of m] T(2) U by (cases "m = n") simp_all
  with T(4-6) U assms(1) show ?thesis
    by (auto simp: open_counted_def lock_map_inv_def intro!: exI [of _ U])
qed

lemma counted_register:
  assumes "open_counted x N (add_mset (h_Path (fc_heap (fst s) r)) M) (fst s)" "r \<notin> set (fc_table (fst s))"
    "r < fc_fresh (fst s)" "usable (fc_heap (fst s) r)"
  shows "open_counted x N M (fst (register_handle r s))"
  using assms by (cases s) (auto simp: register_handle_def open_counted_def)

lemma counted_unregister:
  assumes "open_counted x N M (fst s)" "r \<in> set (fc_table (fst s))"
  shows "open_counted x N (add_mset (h_Path (fc_heap (fst s) r)) M) (fst (unregister_handle r s))"
proof -
  obtain c n where s: "s = (c, n)" by (cases s)
  from assms s obtain us vs where t: "fc_table c = us @ r # vs" "r \<notin> set us" "r \<notin> set vs"
    by (auto simp: open_counted_def dest!: split_list)
  then have "removeAll r (fc_table c) = us @ vs" by simp
  with assms(1) s t show ?thesis by (auto simp: unregister_handle_def open_counted_def)
qed

lemma counted_drop: "open_counted x N (add_mset p M) c \<Longrightarrow> open_counted False N M c"
  unfolding open_counted_def
  by (auto simp del: map_of_eq_Some_iff) (metis mset_subset_eq_insertD subset_mset.less_imp_le union_mset_add_mset_right)+

text \<open>A name whose handle is gone but still open_counted.\<close>

lemma counted_mono: "open_counted x N M c \<Longrightarrow> N \<le> N' \<Longrightarrow> open_counted x N' M c"
  unfolding open_counted_def by (elim conjE exE, intro conjI) (auto intro: le_trans)

lemma unregister_commutes: "unregister_handle r (upd_flock i f s) = upd_flock i f (unregister_handle r s)"
  by (cases s) (simp add: unregister_handle_def upd_flock_def set_locks_def)

section \<open>Renaming\<close>

text \<open>What a step that may rename handles keeps, the accounting included.\<close>

definition moves :: "FileCache \<Rightarrow> FileCache \<Rightarrow> bool" where
  "moves c c' \<longleftrightarrow>
     (\<forall>n i. flock_id c n = Some i \<longrightarrow> flock_id c' n = Some i) \<and>
     fc_tmpPath c' = fc_tmpPath c \<and> pc_tmpPath (lp_cfg (fc_policy c')) = pc_tmpPath (lp_cfg (fc_policy c)) \<and>
     fc_lazyWrite c' = fc_lazyWrite c \<and>
     (\<forall>x N. int N < 2 ^ 32 \<longrightarrow> open_counted x N {#} c \<longrightarrow> open_counted x N {#} c')"

lemma keeps_moves: "fc_keeps c c' \<Longrightarrow> moves c c'"
  unfolding moves_def using counted_keeps by (auto simp: fc_keeps_def simp del: map_of_eq_Some_iff)

lemma moves_trans: "moves c c1 \<Longrightarrow> moves c1 c2 \<Longrightarrow> moves c c2"
  unfolding moves_def by (simp del: map_of_eq_Some_iff)

lemma moves_flock: "moves c c' \<Longrightarrow> flock_id c n = Some i \<Longrightarrow> flock_id c' n = Some i"
  unfolding moves_def by blast

definition rename_in :: "string \<Rightarrow> string \<Rightarrow> string \<Rightarrow> string" where
  "rename_in src dst n = (if n = src then dst else n)"

lemma move_many_counts:
  assumes "si \<noteq> di" "k \<le> a" "a + b < 2 ^ 32"
    "handleCount (flock_at si s) = int a" "handleCount (flock_at di s) = int b"
  shows "handleCount (flock_at si ((move_one si di ^^ k) s)) = int (a - k) \<and>
    handleCount (flock_at di ((move_one si di ^^ k) s)) = int (b + k) \<and>
    (\<forall>j. j \<noteq> si \<longrightarrow> j \<noteq> di \<longrightarrow> flock_at j ((move_one si di ^^ k) s) = flock_at j s)"
  using assms(2)
proof (induction k)
  case 0
  with assms show ?case by simp
next
  case (Suc k)
  let ?s = "(move_one si di ^^ k) s"
  from Suc have IH: "handleCount (flock_at si ?s) = int (a - k)" "handleCount (flock_at di ?s) = int (b + k)"
      "\<forall>j. j \<noteq> si \<longrightarrow> j \<noteq> di \<longrightarrow> flock_at j ?s = flock_at j s" by auto
  have "wrapu32 (int (a - k) - 1) = int (a - Suc k)" "wrapu32 (int (b + k) + 1) = int (b + Suc k)"
    using Suc.prems assms(3) by (subst wrapu32_id; simp)+
  with IH assms(1) show ?case
    unfolding funpow.simps o_apply move_one_def [of si di ?s] by (simp add: lm_Inc_def lm_Dec_def)
qed

lemma move_many_same:
  "locks (fc_locks (fst ((move_one si di ^^ k) s))) = locks (fc_locks (fst s))"
  "lock_fresh (fc_locks (fst ((move_one si di ^^ k) s))) = lock_fresh (fc_locks (fst s))"
  "fc_table (fst ((move_one si di ^^ k) s)) = fc_table (fst s)"
  "fc_fresh (fst ((move_one si di ^^ k) s)) = fc_fresh (fst s)"
  "fc_heap (fst ((move_one si di ^^ k) s)) = fc_heap (fst s)"
  by (induction k) (simp_all add: move_one_def)

lemma upd_flock_cfg [simp]:
  "fc_tmpPath (fst (upd_flock i f s)) = fc_tmpPath (fst s)" "fc_lazyWrite (fst (upd_flock i f s)) = fc_lazyWrite (fst s)"
  "pc_tmpPath (lp_cfg (fc_policy (fst (upd_flock i f s)))) = pc_tmpPath (lp_cfg (fc_policy (fst s)))"
  by (cases s; simp add: upd_flock_def)+

lemma move_many_cfg:
  "fc_tmpPath (fst ((move_one si di ^^ k) s)) = fc_tmpPath (fst s)"
  "fc_lazyWrite (fst ((move_one si di ^^ k) s)) = fc_lazyWrite (fst s)"
  "pc_tmpPath (lp_cfg (fc_policy (fst ((move_one si di ^^ k) s)))) = pc_tmpPath (lp_cfg (fc_policy (fst s)))"
  by (induction k) (simp_all add: move_one_def)

lemma rename_paths_simps [simp]:
  "fc_locks (fst (rename_paths a b s)) = fc_locks (fst s)" "fc_table (fst (rename_paths a b s)) = fc_table (fst s)"
  "fc_fresh (fst (rename_paths a b s)) = fc_fresh (fst s)" "fc_tmpPath (fst (rename_paths a b s)) = fc_tmpPath (fst s)"
  "fc_lazyWrite (fst (rename_paths a b s)) = fc_lazyWrite (fst s)"
  "pc_tmpPath (lp_cfg (fc_policy (fst (rename_paths a b s)))) = pc_tmpPath (lp_cfg (fc_policy (fst s)))"
  "usable (fc_heap (fst (rename_paths a b s)) r) = usable (fc_heap (fst s) r)"
  by (cases s; simp add: rename_paths_def usable_def)+

lemma open_paths_rename: "open_paths (fst (rename_paths a b s)) = image_mset (rename_in a b) (open_paths (fst s))"
  by (cases s) (auto simp: rename_paths_def rename_in_def multiset.map_comp intro!: image_mset_cong)

lemma count_rename:
  assumes "src \<noteq> dst"
  shows "count (image_mset (rename_in src dst) T) n =
    (if n = src then 0 else if n = dst then count T src + count T dst else count T n)"
  using assms by (induction T) (auto simp: rename_in_def)

lemma rename_in_id: "count T src = 0 \<Longrightarrow> image_mset (rename_in src dst) T = T"
  by (induction T) (auto simp: rename_in_def split: if_splits)

lemma renameOpenHandles_counted:
  assumes c: "open_counted x N {#} (fst s)" and N: "int N < 2 ^ 32"
    and si: "flock_id (fst s) src = Some si" and di: "flock_id (fst s) dst = Some di" and ne: "src \<noteq> dst"
  shows "open_counted x N {#} (fst (renameOpenHandles src dst si di s))"
proof -
  from c obtain T where T: "\<forall>n. lock_count (fc_locks (fst s)) n = int (count T n)" "size T \<le> N"
      "open_paths (fst s) \<subseteq># T" "x \<longrightarrow> T = open_paths (fst s)" and l: "lock_map_inv (fc_locks (fst s))"
    unfolding open_counted_def by auto
  have ij: "si \<noteq> di" using l si di ne unfolding lock_map_inv_def by blast
  have hs: "handleCount (flock_at si s) = int (count T src)" "handleCount (flock_at di s) = int (count T dst)"
    using T(1) [rule_format, of src] T(1) [rule_format, of dst] si di
    by (simp_all add: lock_count_def del: map_of_eq_Some_iff)
  show ?thesis
  proof (cases "count T src = 0")
    case True
    with hs c show ?thesis by (simp add: renameOpenHandles_def)
  next
    case False
    let ?s1 = "rename_paths src dst s" and ?k = "count T src"
    let ?s2 = "(move_one si di ^^ ?k) ?s1"
    let ?s3 = "upd_flock di (\<lambda>l. l\<lparr>LazyOpen := LazyOpen (flock_at si ?s2)\<rparr>) ?s2"
    let ?T = "image_mset (rename_in src dst) T"
    have r: "renameOpenHandles src dst si di s = ?s3"
      using hs False by (simp add: renameOpenHandles_def Let_def)
    have "count T src + count T dst \<le> size T"
    proof -
      have "count T src + count T dst = count ?T dst" using ne by (simp add: count_rename)
      also have "\<dots> \<le> size T" using count_le_size [of ?T dst] by simp
      finally show ?thesis .
    qed
    with T(2) N have "count T src + count T dst < 2 ^ 32" by (simp add: nat_less_iff)
    from move_many_counts [OF ij order_refl this, of ?s1] hs have
      m: "handleCount (flock_at si ?s2) = 0" "handleCount (flock_at di ?s2) = int (count T dst + count T src)"
        "\<And>j. j \<noteq> si \<Longrightarrow> j \<noteq> di \<Longrightarrow> flock_at j ?s2 = flock_at j ?s1" by simp_all
    have lc: "lock_count (fc_locks (fst ?s3)) n = int (count ?T n)" for n
    proof (cases "flock_id (fst s) n")
      case None
      then have "count T n = 0" using T(1) [rule_format, of n] by (simp add: lock_count_def del: map_of_eq_None_iff)
      moreover have "n \<noteq> src" "n \<noteq> dst" using None si di by auto
      ultimately show ?thesis using None ne
        by (simp add: lock_count_def move_many_same count_rename del: map_of_eq_None_iff)
    next
      case (Some j)
      then have j: "j = si \<longleftrightarrow> n = src" "j = di \<longleftrightarrow> n = dst" using l si di unfolding lock_map_inv_def by (metis option.inject)+
      have "handleCount (flock_at j s) = int (count T n)"
        using T(1) [rule_format, of n] Some by (simp add: lock_count_def del: map_of_eq_Some_iff)
      with Some j m ij ne show ?thesis
        by (cases "n = src"; cases "n = dst")
          (simp_all add: lock_count_def move_many_same count_rename del: map_of_eq_Some_iff)
    qed
    have "open_paths (fst ?s3) = image_mset (rename_in src dst) (open_paths (fst s))"
      using open_paths_rename [of src dst s] by (simp add: move_many_same)
    with T(2-4) lc c show ?thesis unfolding r
      by (auto simp: open_counted_def move_many_same lock_map_inv_def simp del: map_of_eq_Some_iff
        intro!: exI [of _ ?T] image_mset_subseteq_mono)
  qed
qed

lemma wrap_back: "wrapu32 (wrapu32 (x - 1) + 1) = wrapu32 x"
  unfolding wrapu32_def by (simp add: mod_simps)

lemma move_self_counts:
  assumes "handleCount (flock_at i s) = wrapu32 h"
  shows "handleCount (flock_at i ((move_one i i ^^ k) s)) = wrapu32 h \<and>
    (\<forall>j. j \<noteq> i \<longrightarrow> flock_at j ((move_one i i ^^ k) s) = flock_at j s)"
proof (induction k)
  case 0
  with assms show ?case by simp
next
  case (Suc k)
  then show ?case unfolding funpow.simps o_apply move_one_def [of i i "(move_one i i ^^ k) s"]
    by (simp add: lm_Inc_def lm_Dec_def wrap_back) (simp add: wrapu32_def)
qed

lemma renameOpenHandles_same_name:
  assumes c: "open_counted x N {#} (fst s)" and N: "int N < 2 ^ 32" and i: "flock_id (fst s) n = Some i"
  shows "open_counted x N {#} (fst (renameOpenHandles n n i i s))"
proof -
  from c obtain T where T: "\<forall>n. lock_count (fc_locks (fst s)) n = int (count T n)" "size T \<le> N"
      and l: "lock_map_inv (fc_locks (fst s))" unfolding open_counted_def by auto
  have "count T n \<le> N" using count_le_size [of T n] T(2) by linarith
  then have h: "handleCount (flock_at i (rename_paths n n s)) = wrapu32 (int (count T n))"
    using T(1) [rule_format, of n] i N by (simp add: lock_count_def wrapu32_id del: map_of_eq_Some_iff)
  let ?s2 = "(move_one i i ^^ nat (handleCount (flock_at i (rename_paths n n s)))) (rename_paths n n s)"
  let ?s3 = "upd_flock i (\<lambda>l. l\<lparr>LazyOpen := LazyOpen (flock_at i ?s2)\<rparr>) ?s2"
  from move_self_counts [OF h] h have
    m: "handleCount (flock_at j ?s2) = handleCount (flock_at j s)" for j by (cases "j = i") simp_all
  have lc: "lock_count (fc_locks (fst ?s3)) k = lock_count (fc_locks (fst s)) k" for k
    using m by (auto simp: lock_count_def move_many_same split: option.split simp del: map_of_eq_Some_iff)
  have "open_counted x N {#} (fst ?s3)"
    by (rule counted_cong [OF c])
      (use lc l in \<open>cases s; auto simp: move_many_same rename_paths_def usable_def lock_map_inv_def simp del: map_of_eq_Some_iff\<close>)+
  with c show ?thesis by (simp add: renameOpenHandles_def Let_def)
qed

lemma renameOpenHandles_moves:
  assumes "flock_id (fst s) src = Some si" "flock_id (fst s) dst = Some di"
  shows "moves (fst s) (fst (renameOpenHandles src dst si di s))"
proof -
  have "si = di" if "src = dst" using assms that by simp
  then have "open_counted x N {#} (fst s) \<Longrightarrow> int N < 2 ^ 32 \<Longrightarrow> open_counted x N {#} (fst (renameOpenHandles src dst si di s))" for x N
    using renameOpenHandles_counted [OF _ _ assms] renameOpenHandles_same_name [of x N s src si] assms(1) by blast
  then show ?thesis unfolding moves_def
    by (simp add: renameOpenHandles_def Let_def move_many_same move_many_cfg del: map_of_eq_Some_iff)
qed

lemma flock_keeps: "fc_keeps (fst s) c' \<Longrightarrow> flock_id (fst s) n = Some i \<Longrightarrow> flock_id c' n = Some i"
  unfolding fc_keeps_def by blast

lemma renameLocalFile_moves:
  fixes s :: "'n fc_state"
  assumes "flock_id (fst s) src = Some si" "flock_id (fst s) dst = Some di"
  shows "post (renameLocalFile E src dst si di lo s) (\<lambda>_ s'. moves (fst s) (fst s'))"
proof -
  have fin: "moves (fst s) (fst (renamePendingOp a b (renameOpenHandles src dst si di s3)))" if k: "fc_keeps (fst s) (fst s3)" for a b s3
  proof -
    have "moves (fst s3) (fst (renameOpenHandles src dst si di s3))"
      using flock_keeps [OF k] assms by (intro renameOpenHandles_moves) blast+
    then show ?thesis by (meson k keeps_moves moves_trans renamePendingOp_keeps fc_keeps_refl)
  qed
  have id: "fc_keeps (fst s) (fst s')  \<Longrightarrow> moves (fst s) (fst s')" for s' :: "'n fc_state" by (rule keeps_moves)
  show ?thesis unfolding renameLocalFile_def Let_def
    by (intro post_cases post_calls [where c = "fst s"] post_splits handler_keeps step_keeps fin id)
qed

lemma RenameFile_moves:
  fixes s0 :: "'n fc_state"
  shows "post (fc_RenameFile E now q s0) (\<lambda>_ s'. moves (fst s0) (fst s'))"
proof (cases "rf_Src q = rf_Dst q")
  case True
  then show ?thesis by (simp add: fc_RenameFile_def post_None)
next
  case False
  obtain si sa where a: "get_flock (rf_Src q) s0 = (si, sa)" by (meson surj_pair)
  obtain di s where b: "get_flock (rf_Dst q) sa = (di, s)" by (meson surj_pair)
  have ka: "fc_keeps (fst s0) (fst sa)" using keeps_get_flock [OF fc_keeps_refl, of s0 "rf_Src q"] a by simp
  have kb: "fc_keeps (fst sa) (fst s)" using keeps_get_flock [OF fc_keeps_refl, of sa "rf_Dst q"] b by simp
  have id: "flock_id (fst s) (rf_Src q) = Some si" "flock_id (fst s) (rf_Dst q) = Some di"
    using flock_keeps [OF kb] get_flock_id [OF a] get_flock_id [OF b] by simp_all
  have ren: "post (renameLocalFile E (rf_Src q) (rf_Dst q) si di lo s2) (\<lambda>_ s'. moves (fst s0) (fst s'))"
    if k: "fc_keeps (fst s) (fst s2)" for lo s2
  proof (rule post_weaken [OF renameLocalFile_moves])
    show "flock_id (fst s2) (rf_Src q) = Some si" "flock_id (fst s2) (rf_Dst q) = Some di"
      using flock_keeps [OF k] id by blast+
    fix s' assume "moves (fst s2) (fst s')"
    then show "moves (fst s0) (fst s')" by (meson k ka kb keeps_moves moves_trans)
  qed
  have done1: "fc_keeps (fst s) (fst s') \<Longrightarrow> moves (fst s0) (fst s')" for s' :: "'n fc_state"
    by (meson ka kb keeps_moves moves_trans)
  from False show ?thesis unfolding fc_RenameFile_def Let_def a b prod.case
    by (simp only: if_False) (intro ren done1 post_cases post_calls [where c = "fst s"] post_splits handler_keeps step_keeps)
qed

end
