(* ===== verification/File_Cache_Runs.thy ===== *)
theory File_Cache_Runs
  imports File_Cache_Counts
begin

text \<open>
  Runs of the file cache: any sequence of requests, uploads and turns of the eviction policy. The counts of
  the open handles stay right along a run, so that eviction never takes the file of an open handle.
\<close>

section \<open>Renaming a directory\<close>

lemma moves_keeps: "moves c c1 \<Longrightarrow> fc_keeps c1 c2 \<Longrightarrow> moves c c2"
  by (rule moves_trans [OF _ keeps_moves])

lemma two_locks:
  fixes s :: "'n fc_state"
  assumes "get_flock a s = (i, s1)" "get_flock b s1 = (j, s2)"
  shows "flock_id (fst s2) a = Some i" "flock_id (fst s2) b = Some j" "fc_keeps (fst s) (fst s2)"
proof -
  have k1: "fc_keeps (fst s) (fst s1)" and k2: "fc_keeps (fst s1) (fst s2)"
    using keeps_get_flock [OF fc_keeps_refl, of s a] keeps_get_flock [OF fc_keeps_refl, of s1 b] assms by simp_all
  then show "fc_keeps (fst s) (fst s2)" by (rule fc_keeps_trans)
  show "flock_id (fst s2) a = Some i" using flock_keeps [OF k2] get_flock_id [OF assms(1)] by blast
  show "flock_id (fst s2) b = Some j" by (rule get_flock_id [OF assms(2)])
qed

lemma rename_lazy_moves: "moves c (fst s) \<Longrightarrow> moves c (fst (rename_lazy src dst n s))"
proof -
  assume m: "moves c (fst s)"
  obtain si s1 where a: "get_flock n s = (si, s1)" by (meson surj_pair)
  obtain di s2 where b: "get_flock (replace_first src dst n) s1 = (di, s2)" by (meson surj_pair)
  note l = two_locks [OF a b]
  from renameOpenHandles_moves [OF l(1,2)] m keeps_moves [OF l(3)]
  have "moves c (fst (renameOpenHandles n (replace_first src dst n) si di s2))" by (blast intro: moves_trans)
  then show ?thesis by (simp add: rename_lazy_def a b)
qed

lemma rename_visit_moves:
  assumes "moves c (fst (snd x))" "rename_visit E now ls ld p d x = Some y"
  shows "moves c (fst (snd y))"
proof -
  obtain purge s where x: "x = (purge, s)" by (cases x)
  let ?a = "getObjectName (fst s) p" and ?b = "getObjectName (fst s) (replace_first ls ld p)"
  show ?thesis
  proof (cases d)
    case False
    obtain si s1 where a: "get_flock ?a s = (si, s1)" by (meson surj_pair)
    obtain di s2 where b: "get_flock ?b s1 = (di, s2)" by (meson surj_pair)
    note l = two_locks [OF a b]
    from assms(2) False x a b obtain r s3 where
      r: "renameLocalFile E ?a ?b si di False s2 = Some (r, s3)" "y = (purge, s3)"
      by (auto simp: rename_visit_def Let_def)
    with renameLocalFile_moves [OF l(1,2)] have "moves (fst s2) (fst s3)" unfolding post_def by blast
    with r(2) assms(1) x keeps_moves [OF l(3)] show ?thesis by (auto intro: moves_trans)
  next
    case True
    have "fc_keeps (fst s) (fst (renamePendingOp ?a ?b (snd (fc_os E (os_MkdirAll now (replace_first ls ld p) (fc_defaultPermission (fst s))) s))))"
      by (intro step_keeps)
    from moves_keeps [OF _ this] True assms x show ?thesis by (auto simp: rename_visit_def Let_def)
  qed
qed

lemma fold_moves:
  assumes "\<And>x s. moves c (fst s) \<Longrightarrow> moves c (fst (f x s))"
  shows "moves c (fst s) \<Longrightarrow> moves c (fst (fold f xs s))"
  using assms by (induction xs arbitrary: s) auto

lemma fold_keeps:
  assumes "\<And>x s. fc_keeps c (fst s) \<Longrightarrow> fc_keeps c (fst (f x s))"
  shows "fc_keeps c (fst s) \<Longrightarrow> fc_keeps c (fst (fold f xs s))"
  using assms by (induction xs arbitrary: s) auto

lemma RenameDir_moves:
  fixes s0 :: "'n fc_state"
  shows "post (fc_RenameDir E now q s0) (\<lambda>_ s'. moves (fst s0) (fst s'))"
proof -
  have locks: "fc_keeps c (fst s) \<Longrightarrow> fc_keeps c (fst (fold (\<lambda>name s. snd (get_flock name s)) ns s))" for c ns and s :: "'n fc_state"
    by (rule fold_keeps) (intro step_keeps)
  have fin: "moves (fst s0) (fst (fold (rename_lazy src dst) ns (fold (fc_CachePurge E) ps s4)))"
    if "moves (fst s0) (fst s4)" for src dst ns ps and s4 :: "'n fc_state"
    by (rule fold_moves, rule rename_lazy_moves, assumption, rule fold_moves, erule moves_keeps,
        rule keeps_purge [OF fc_keeps_refl], rule that)
  have walk: "post (Option.bind (WalkDir (rename_visit E now ls ld) (\<lambda>(_, s). fc_fs E s) ls ([], s3)) (case_prod f)) (\<lambda>_ s'. moves (fst s0) (fst s'))"
    if "fc_keeps (fst s0) (fst s3)" "\<And>p s4. moves (fst s0) (fst s4) \<Longrightarrow> post (f p s4) (\<lambda>_ s'. moves (fst s0) (fst s'))"
    for ls ld f s3
  proof (rule post_bind)
    show "post (WalkDir (rename_visit E now ls ld) (\<lambda>(_, s). fc_fs E s) ls ([], s3)) (\<lambda>_ s'. moves (fst s0) (fst s'))"
      unfolding post_def using that(1)
      by (auto dest!: WalkDir_kept [of "\<lambda>x. moves (fst s0) (fst (snd x))", rotated 2] intro: rename_visit_moves keeps_moves)
  qed (use that(2) in simp)
  have plain: "post (Option.bind m f) Q" if "\<And>x. post (f x) Q"
    for m :: "string list option" and f and Q :: "err \<Rightarrow> 'n fc_state \<Rightarrow> bool"
    using that by (cases m) (simp_all add: post_None)
  show ?thesis unfolding fc_RenameDir_def Let_def
    by (intro post_cases fin walk post_calls [where c = "fst s0"] plain post_splits handler_keeps locks step_keeps)
      (assumption | rule keeps_moves)+
qed

section \<open>Opening, creating and releasing\<close>

text \<open>
  What an open or a creation returns: no handle and the counts as they were, or a new handle for the name,
  which the name's lock item has been open_counted for.
\<close>

definition opened :: "FileCache \<Rightarrow> string \<Rightarrow> nat option \<times> err \<Rightarrow> 'n fc_state \<Rightarrow> bool" where
  "opened c name = (\<lambda>(h, e) s. case h of
     None \<Rightarrow> fc_keeps c (fst s)
   | Some r \<Rightarrow> e = None \<and> fc_fresh c \<le> r \<and> r < fc_fresh (fst s) \<and> h_Path (handle_at r s) = name \<and>
       usable (handle_at r s) \<and> (\<exists>i. \<exists>s1 :: 'n fc_state. fc_keeps c (fst s1) \<and> flock_id (fst s1) name = Some i \<and>
         fc_keeps (fst (upd_flock i lm_Inc s1)) (fst s)))"

lemma opened_None: "fc_keeps c (fst s) \<Longrightarrow> opened c name (None, e) s"
  by (simp add: opened_def)

lemma opened_weaken:
  assumes k: "fc_keeps c c1" and o: "opened c1 name x s" shows "opened c name x s"
proof -
  obtain h e where x: "x = (h, e)" by (cases x)
  have f: "fc_fresh c \<le> fc_fresh c1" using k by (simp add: fc_keeps_def)
  show ?thesis
  proof (cases h)
    case None
    with o x fc_keeps_trans [OF k] show ?thesis by (simp add: opened_def)
  next
    case (Some r)
    with o x f fc_keeps_trans [OF k] show ?thesis
      unfolding opened_def x Some prod.case option.case by (meson le_trans)
  qed
qed

lemma alloc_handle_new:
  "alloc_handle h s = (r, s1) \<Longrightarrow> r = fc_fresh (fst s) \<and> fc_fresh (fst s1) = Suc r \<and> handle_at r s1 = h \<and> fc_keeps (fst s) (fst s1)"
  using keeps_alloc [OF fc_keeps_refl, of s h] by (cases s) (auto simp: alloc_handle_def)

lemma keeps_handle:
  assumes "fc_keeps c c'" "r < fc_fresh c"
  shows "r < fc_fresh c'" "h_Path (fc_heap c' r) = h_Path (fc_heap c r)" "usable (fc_heap c r) \<Longrightarrow> usable (fc_heap c' r)"
  using assms by (auto simp: fc_keeps_def)

lemma opened_I:
  fixes s s1 :: "'n fc_state"
  assumes "fc_fresh c \<le> r" "r < fc_fresh (fst s)" "h_Path (handle_at r s) = name" "usable (handle_at r s)"
    "fc_keeps c (fst s1)" "flock_id c name = Some i" "fc_keeps (fst (upd_flock i lm_Inc s1)) (fst s)"
  shows "opened c name (Some r, None) s"
proof -
  have "flock_id (fst s1) name = Some i" using assms(5,6) unfolding fc_keeps_def by blast
  with assms(5,7) have "\<exists>i. \<exists>s1 :: 'n fc_state. fc_keeps c (fst s1) \<and> flock_id (fst s1) name = Some i \<and>
      fc_keeps (fst (upd_flock i lm_Inc s1)) (fst s)" by blast
  with assms(1-4) show ?thesis unfolding opened_def prod.case option.case by blast
qed

lemma opened_open:
  assumes "fc_keeps c (fst s2)" "flock_id c name = Some i" "h_Path h = name" "usable h"
  shows "post (case alloc_handle h s2 of (r, s3) \<Rightarrow> do {
      (e1, s4) \<leftarrow> (if b then openFileInternal E now r i s3 else Some (None, upd_flock i (\<lambda>l. l\<lparr>LazyOpen := True\<rparr>) s3));
      case e1 of Some x \<Rightarrow> Some ((None, Some x), s4) | None \<Rightarrow> Some ((Some r, None), upd_flock i lm_Inc s4)
    }) (opened c name)"
proof -
  obtain r s3 where al: "alloc_handle h s2 = (r, s3)" by (meson surj_pair)
  note a = alloc_handle_new [OF al]
  have "post (do {
      (e1, s4) \<leftarrow> (if b then openFileInternal E now r i s3 else Some (None, upd_flock i (\<lambda>l. l\<lparr>LazyOpen := True\<rparr>) s3));
      case e1 of Some x \<Rightarrow> Some ((None, Some x), s4) | None \<Rightarrow> Some ((Some r, None), upd_flock i lm_Inc s4)
    }) (opened c name)"
  proof (rule kept_bind [where c = "fst s3"])
    show "kept (fst s3) (if b then openFileInternal E now r i s3 else Some (None, upd_flock i (\<lambda>l. l\<lparr>LazyOpen := True\<rparr>) s3))"
      by (intro post_cases handler_keeps step_keeps) simp
    fix e1 s4 assume k: "fc_keeps (fst s3) (fst s4)"
    have c: "fc_keeps c (fst s4)" using assms(1) a k by (blast intro: fc_keeps_trans)
    have f: "fc_fresh c \<le> r" using assms(1) a by (simp add: fc_keeps_def)
    show "post (case e1 of Some x \<Rightarrow> Some ((None, Some x), s4) | None \<Rightarrow> Some ((Some r, None), upd_flock i lm_Inc s4)) (opened c name)"
    proof (cases e1)
      case None
      have "opened c name (Some r, None) (upd_flock i lm_Inc s4)"
        by (rule opened_I [OF f _ _ _ c assms(2) fc_keeps_refl]) (use keeps_handle [OF k, of r] a [THEN conjunct2] assms(3,4) in simp_all)
      with None show ?thesis by (simp add: post_Some)
    qed (simp add: post_Some opened_None c)
  qed
  with al show ?thesis by simp
qed

lemma OpenFile_opened: "post (fc_OpenFile E now q s0) (opened (fst s0) (of_Name q))"
proof -
  obtain i s where g: "get_flock (of_Name q) s0 = (i, s)" by (meson surj_pair)
  have k: "fc_keeps (fst s0) (fst s)" using keeps_get_flock [OF fc_keeps_refl, of s0 "of_Name q"] g by simp
  have u: "h_Path (if b then handle_flag f h else h) = h_Path h" "usable (if b then handle_flag f h else h) = usable h" for b f h
    by simp_all
  have nh: "h_Path (new_handle n oo) = n" "usable (new_handle n (Some x))" for n oo x
    by (simp_all add: new_handle_def NewHandle_def Handle.defs usable_def)
  have "post (fc_OpenFile E now q s0) (opened (fst s) (of_Name q))"
    unfolding fc_OpenFile_def Let_def g prod.case
    by (intro post_cases kept_bind [where c = "fst s"] opened_open [OF _ get_flock_id [OF g]] post_splits
        opened_None handler_keeps step_keeps)
      (assumption | simp add: nh)+
  then show ?thesis by (rule post_weaken) (rule opened_weaken [OF k])
qed

lemma opened_create:
  fixes s4 :: "'n fc_state" and g :: "nat \<Rightarrow> 'n fc_state \<Rightarrow> 'n fc_state"
  assumes "fc_keeps c (fst s4)" "flock_id c name = Some i" "h_Path h = name" "usable h"
    "\<And>r s6. fc_keeps (fst s6) (fst (g r s6))"
  shows "post (case alloc_handle h (upd_flock i lm_Inc s4) of (r, s6) \<Rightarrow> Some ((Some r, None), g r s6)) (opened c name)"
proof -
  obtain r s6 where a: "alloc_handle h (upd_flock i lm_Inc s4) = (r, s6)" by (meson surj_pair)
  note n = alloc_handle_new [OF a]
  have f: "fc_fresh c \<le> r" using assms(1) n by (simp add: fc_keeps_def)
  have k: "fc_keeps (fst (upd_flock i lm_Inc s4)) (fst (g r s6))" using n assms(5) by (blast intro: fc_keeps_trans)
  have p: "r < fc_fresh (fst s6)" "h_Path (handle_at r s6) = name" "usable (handle_at r s6)"
    using n [THEN conjunct2] assms(3,4) by simp_all
  note h = keeps_handle [OF assms(5) [of s6 r] p(1)]
  have "opened c name (Some r, None) (g r s6)"
    by (rule opened_I [OF f h(1) _ h(3) [OF p(3)] assms(1,2) k]) (use h(2) p(2) in simp)
  with a show ?thesis by (simp add: post_Some)
qed

lemma create_local_opened:
  assumes "flock_id (fst s) (cf_Name q) = Some i"
  shows "post (create_local E now q i off s) (opened (fst s) (cf_Name q))"
proof -
  have nh: "usable ((new_handle n None)\<lparr>h_UnixFD := z, h_FObj := Some fd\<rparr>)"
    "h_Path ((new_handle n None)\<lparr>h_UnixFD := z, h_FObj := Some fd\<rparr>) = n" for n z fd
    by (simp_all add: new_handle_def NewHandle_def Handle.defs usable_def)
  show ?thesis unfolding create_local_def Let_def
    by (intro post_cases opened_create [OF _ assms] post_calls [where c = "fst s"] post_splits opened_None handler_keeps step_keeps)
      (simp_all add: nh)
qed

lemma CreateFile_opened: "post (fc_CreateFile E now q s0) (opened (fst s0) (cf_Name q))"
proof -
  obtain i s where g: "get_flock (cf_Name q) s0 = (i, s)" by (meson surj_pair)
  have k: "fc_keeps (fst s0) (fst s)" using keeps_get_flock [OF fc_keeps_refl, of s0 "cf_Name q"] g by simp
  have loc: "post (create_local E now q i off s2) (opened (fst s) (cf_Name q))" if k2: "fc_keeps (fst s) (fst s2)" for off s2
    by (rule post_weaken [OF create_local_opened opened_weaken [OF k2]])
      (use k2 get_flock_id [OF g] in \<open>auto simp: fc_keeps_def simp del: map_of_eq_Some_iff\<close>)
  have "post (fc_CreateFile E now q s0) (opened (fst s) (cf_Name q))"
    unfolding fc_CreateFile_def Let_def g prod.case
    by (intro post_cases loc post_calls [where c = "fst s"] post_splits opened_None handler_keeps step_keeps)
  then show ?thesis by (rule post_weaken) (rule opened_weaken [OF k])
qed

text \<open>A release that succeeds takes the handle's path off the counts; one that fails does nothing to them.\<close>

definition released :: "FileCache \<Rightarrow> string \<Rightarrow> err \<Rightarrow> 'n fc_state \<Rightarrow> bool" where
  "released c name e s \<longleftrightarrow>
     (if e = None then \<exists>i. \<exists>s1 :: 'n fc_state. fc_keeps c (fst s1) \<and> flock_id (fst s1) name = Some i \<and>
        fc_keeps (fst (upd_flock i lm_Dec s1)) (fst s)
      else fc_keeps c (fst s))"

lemma released_Some: "fc_keeps c (fst s) \<Longrightarrow> released c name (Some e) s"
  by (simp add: released_def)

lemma released_None:
  fixes s s1 :: "'n fc_state"
  assumes "fc_keeps c (fst s1)" "flock_id c name = Some i" "fc_keeps (fst (upd_flock i lm_Dec s1)) (fst s)"
  shows "released c name None s"
proof -
  have "flock_id (fst s1) name = Some i" using assms(1,2) unfolding fc_keeps_def by blast
  with assms(1,3) have "\<exists>i. \<exists>s1 :: 'n fc_state. fc_keeps c (fst s1) \<and> flock_id (fst s1) name = Some i \<and>
      fc_keeps (fst (upd_flock i lm_Dec s1)) (fst s)" by blast
  then show ?thesis unfolding released_def by simp
qed

lemma releaseFileInternal_released:
  fixes s :: "'n fc_state"
  assumes i: "flock_id (fst s) name = Some i"
  shows "post (releaseFileInternal E now r i s) (released (fst s) name)"
proof -
  have dec: "released (fst s) name None (upd_flock i lm_Dec s1)" if "fc_keeps (fst s) (fst s1)" for s1 :: "'n fc_state"
    by (rule released_None [OF that i fc_keeps_refl])
  have lazy: "released (fst s) name None (if b then upd_flock i (\<lambda>l. l\<lparr>LazyOpen := False\<rparr>) (upd_flock i lm_Dec s) else upd_flock i lm_Dec s)" for b
    by (rule released_None [OF fc_keeps_refl i]) (intro step_keeps, simp)
  have fl: "kept (fst s) (if \<not> fh_Dirty (handle_at r s1) then Some (None, s1)
      else case flushFileLocal E r s1 of Some x \<Rightarrow> Some (Some x, s1) | None \<Rightarrow> flushFileCloud E now r True s1)"
    if "fc_keeps (fst s) (fst s1)" for s1 :: "'n fc_state"
    using that by (intro post_cases handler_keeps)
  have err: "released (fst s) name e s1" if "e \<noteq> None" "fc_keeps (fst s) (fst s1)" for e and s1 :: "'n fc_state"
    using that by (auto simp: released_def)
  show ?thesis unfolding releaseFileInternal_def Let_def
    by (intro post_cases kept_bind [where c = "fst s"] kept_bind_st [where c = "fst s"] post_step [where c = "fst s"] fl
      lazy dec released_Some err handler_keeps step_keeps)
qed

section \<open>Turns of the eviction policy\<close>

lemma expire_walk_cfg:
  assumes "expire_walk p r n = Some y" shows "lp_cfg (snd (snd y)) = lp_cfg p"
proof (rule expire_walk.raw_induct [where P = "\<lambda>p r n y. lp_cfg (snd (snd y)) = lp_cfg p", OF _ assms], goal_cases)
  case (1 ew p r n y)
  have ew: "ew p r n = Some z \<Longrightarrow> lp_cfg (snd (snd z)) = lp_cfg p" for p r n z by (rule 1(1))
  from 1(2) show ?case
    by (auto split: option.splits if_splits bind_splits dest!: ew simp: upd_node_def)
qed

lemma collect_expired_cfg: "collect_expired p = Some (ds, p1) \<Longrightarrow> lp_cfg p1 = lp_cfg p"
  by (auto simp: collect_expired_def Let_def upd_node_def split: option.splits bind_splits dest!: expire_walk_cfg)

lemma updateMarker_cfg: "updateMarker p = Some p1 \<Longrightarrow> lp_cfg p1 = lp_cfg p"
  by (auto simp: updateMarker_def extractNode_def upd_node_def Let_def setHead_def split: option.splits)

lemma delete_collected_busy:
  assumes "delete_collected i (p, fs) = Some (p', fs')" "lock_map_inv (pc_fileLocks (lp_cfg p))"
  shows "same_use (lp_cfg p) (lp_cfg p') \<and> (busy (lp_cfg p) m \<longrightarrow> node_at fs' m = node_at fs m)"
proof (cases "ln_deleted (lp_nodes p i)")
  case True
  with assms(1) have "deleteItem (node_name p i) (p\<lparr>lp_nodeMap := map_remove (node_name p i) (lp_nodeMap p)\<rparr>, fs) = Some (p', fs')"
    by (simp add: delete_collected_def)
  from deleteItem_frame(1) [OF this] deleteItem_frame(2) [OF this, of m] assms(2) show ?thesis by auto
next
  case False
  with assms show ?thesis by (auto simp: delete_collected_def same_use_def)
qed

lemma delete_all_busy:
  "delete_all ds (p, fs) = Some (p', fs') \<Longrightarrow> lock_map_inv (pc_fileLocks (lp_cfg p)) \<Longrightarrow>
     same_use (lp_cfg p) (lp_cfg p') \<and> (busy (lp_cfg p) m \<longrightarrow> node_at fs' m = node_at fs m)"
proof (induction ds arbitrary: p fs)
  case Nil
  then show ?case by (simp add: same_use_def)
next
  case (Cons i ds)
  from Cons.prems(1) obtain p1 fs1 where d: "delete_collected i (p, fs) = Some (p1, fs1)" "delete_all ds (p1, fs1) = Some (p', fs')"
    by (cases "delete_collected i (p, fs)") auto
  note s = delete_collected_busy [OF d(1) Cons.prems(2), of m]
  from s have "lock_map_inv (pc_fileLocks (lp_cfg p1))" by (simp add: same_use_def)
  from Cons.IH [OF d(2) this] s same_use_busy [of "lp_cfg p" "lp_cfg p1" m] show ?case
    by (auto intro: same_use_trans)
qed

lemma expire_round_busy:
  assumes "expire_round (p, fs) = Some (p', fs')" "lock_map_inv (pc_fileLocks (lp_cfg p))"
  shows "same_use (lp_cfg p) (lp_cfg p') \<and> (busy (lp_cfg p) m \<longrightarrow> node_at fs' m = node_at fs m)"
proof -
  from assms(1) obtain p1 where u: "updateMarker p = Some p1" "deleteExpiredNodes (p1, fs) = Some (p', fs')"
    by (auto simp: expire_round_def split: bind_splits)
  from u(2) obtain ds p2 where c: "collect_expired p1 = Some (ds, p2)" "delete_all ds (p2, fs) = Some (p', fs')"
    by (auto simp: deleteExpiredNodes_def split: bind_splits)
  from delete_all_busy [OF c(2)] collect_expired_cfg [OF c(1)] updateMarker_cfg [OF u(1)] assms(2) show ?thesis by simp
qed

lemma cleanup_rounds_busy:
  "cleanup_rounds n cur (p, fs) = Some (p', fs') \<Longrightarrow> lock_map_inv (pc_fileLocks (lp_cfg p)) \<Longrightarrow>
     same_use (lp_cfg p) (lp_cfg p') \<and> (busy (lp_cfg p) m \<longrightarrow> node_at fs' m = node_at fs m)"
proof (induction n cur "(p, fs)" arbitrary: p fs rule: cleanup_rounds.induct)
  case (1 n cur p fs)
  from 1(2) obtain p1 fs1 where e: "expire_round (p, fs) = Some (p1, fs1)"
    by (subst (asm) cleanup_rounds.simps) (auto split: option.splits)
  note r = expire_round_busy [OF e 1(3), of m]
  show ?case
  proof (cases "getUsagePercentage (cur (Suc n)) (pc_maxSizeMB (lp_cfg p1)) < pc_lowThreshold (lp_cfg p1) \<or> Suc n \<ge> 3")
    case True
    with 1(2) e have "p' = p1" "fs' = fs1" by (subst (asm) cleanup_rounds.simps; simp)+
    with r show ?thesis by simp
  next
    case False
    with 1(2) e have c: "cleanup_rounds (Suc n) cur (p1, fs1) = Some (p', fs')"
      by (subst (asm) cleanup_rounds.simps) simp
    have "lock_map_inv (pc_fileLocks (lp_cfg p1))" using r by (simp add: same_use_def)
    from 1(1) [OF e _ c this] False r same_use_busy [of "lp_cfg p" "lp_cfg p1" m] show ?thesis
      by (auto intro: same_use_trans)
  qed
qed

lemma disk_check_busy:
  assumes "disk_check cur (p, fs) = Some (p', fs')" "lock_map_inv (pc_fileLocks (lp_cfg p))"
  shows "same_use (lp_cfg p) (lp_cfg p') \<and> (busy (lp_cfg p) m \<longrightarrow> node_at fs' m = node_at fs m)"
  using assms cleanup_rounds_busy [of 0 cur p fs p' fs' m] by (auto simp: disk_check_def same_use_def split: if_splits)

end
