(* ===== verification/File_Cache_Safety.thy ===== *)
theory File_Cache_Safety
  imports File_Cache_Runs
begin

text \<open>
  Runs of the file cache over any next component, and what holds along them: the counts of open handles
  are exact, every handle can be used, and eviction never takes the file of an open handle.
\<close>

section \<open>Events\<close>

text \<open>
  The requests of libfuse, the turns of the upload thread and of its schedule, and those of the eviction
  policy. A request on a handle that is not in the table never reaches the component. A released handle
  leaves the table when the release reports no error.
\<close>

datatype fc_event =
    EvOpen OpenFileOptions
  | EvCreate CreateFileOptions
  | EvRelease nat
  | EvRead nat nat int
  | EvWrite nat string int
  | EvFlush nat
  | EvSync nat
  | EvTruncate "nat option" TruncateFileOptions
  | EvGetAttr GetAttrOptions
  | EvDelete NameOptions
  | EvRename RenameFileOptions
  | EvChmod ChmodOptions
  | EvChown ChownOptions
  | EvCreateDir CreateDirOptions
  | EvDeleteDir NameOptions
  | EvStreamDir StreamDirOptions
  | EvIsDirEmpty string NameOptions
  | EvRenameDir RenameDirOptions
  | EvStatFs
  | EvUpload
  | EvWindowBegins
  | EvWindowEnds
  | EvTimeout
  | EvDiskCheck "nat \<Rightarrow> rat"
  | EvValidate

definition on_handle :: "nat \<Rightarrow> ('n fc_state \<Rightarrow> 'n fc_state option) \<Rightarrow> 'n fc_state \<Rightarrow> 'n fc_state option" where
  "on_handle r f s = (if r \<in> set (fc_table (fst s)) then f s else Some s)"

definition opens :: "((nat option \<times> err) \<times> 'n fc_state) option \<Rightarrow> 'n fc_state option" where
  "opens m = map_option (\<lambda>((h, e), s). case h of None \<Rightarrow> s | Some r \<Rightarrow> register_handle r s) m"

definition releases :: "nat \<Rightarrow> (err \<times> 'n fc_state) option \<Rightarrow> 'n fc_state option" where
  "releases r m = map_option (\<lambda>(e, s). if e = None then unregister_handle r s else s) m"

definition policy_turn ::
  "'n fc_env \<Rightarrow> (lruPolicy \<times> os_fs \<Rightarrow> (lruPolicy \<times> os_fs) option) \<Rightarrow> 'n fc_state \<Rightarrow> 'n fc_state option" where
  "policy_turn E f = (\<lambda>(fc, n).
     map_option (\<lambda>(p, fs). (fc\<lparr>fc_policy := p\<rparr>, e_set_fs E fs n)) (f (fc_policy fc, e_fs E n)))"

fun fc_step :: "'n fc_env \<Rightarrow> int \<Rightarrow> fc_event \<Rightarrow> 'n fc_state \<Rightarrow> 'n fc_state option" where
  "fc_step E now (EvOpen q) s = opens (fc_OpenFile E now q s)"
| "fc_step E now (EvCreate q) s = opens (fc_CreateFile E now q s)"
| "fc_step E now (EvRelease r) s = on_handle r (\<lambda>s. releases r (fc_ReleaseFile E now r s)) s"
| "fc_step E now (EvRead r n off) s = on_handle r (\<lambda>s. map_option snd (fc_ReadInBuffer E now r n off s)) s"
| "fc_step E now (EvWrite r data off) s = on_handle r (\<lambda>s. map_option snd (fc_WriteFile E now r data off s)) s"
| "fc_step E now (EvFlush r) s = on_handle r (\<lambda>s. map_option snd (fc_FlushFile E now r False s)) s"
| "fc_step E now (EvSync r) s = on_handle r (\<lambda>s. map_option snd (fc_SyncFile E now r s)) s"
| "fc_step E now (EvTruncate h q) s =
     map_option snd (fc_TruncateFile E now (case h of Some r \<Rightarrow> if r \<in> set (fc_table (fst s)) then h else None | None \<Rightarrow> None) q s)"
| "fc_step E now (EvGetAttr q) s = map_option snd (fc_GetAttr E now q s)"
| "fc_step E now (EvDelete q) s = map_option snd (fc_DeleteFile E now q s)"
| "fc_step E now (EvRename q) s = map_option snd (fc_RenameFile E now q s)"
| "fc_step E now (EvChmod q) s = map_option snd (fc_Chmod E now q s)"
| "fc_step E now (EvChown q) s = map_option snd (fc_Chown E now q s)"
| "fc_step E now (EvCreateDir q) s = map_option snd (fc_CreateDir E now q s)"
| "fc_step E now (EvDeleteDir q) s = map_option snd (fc_DeleteDir E now q s)"
| "fc_step E now (EvStreamDir q) s = map_option snd (fc_StreamDir E now q s)"
| "fc_step E now (EvIsDirEmpty b q) s = map_option snd (fc_IsDirEmpty E b now q s)"
| "fc_step E now (EvRenameDir q) s = map_option snd (fc_RenameDir E now q s)"
| "fc_step E now EvStatFs s = map_option snd (fc_StatFs E now () s)"
| "fc_step E now EvUpload s = servicePendingOps E now s"
| "fc_step E now EvWindowBegins s = Some (window_begins s)"
| "fc_step E now EvWindowEnds s = Some (window_ends s)"
| "fc_step E now EvTimeout s = policy_turn E expire_round s"
| "fc_step E now (EvDiskCheck cur) s = policy_turn E (disk_check cur) s"
| "fc_step E now EvValidate s = policy_turn E (\<lambda>(p, fs). map_option (\<lambda>p. (p, fs)) (asyncCacheValid p)) s"

fun fc_run :: "'n fc_env \<Rightarrow> (int \<times> fc_event) list \<Rightarrow> 'n fc_state \<Rightarrow> 'n fc_state option" where
  "fc_run E [] s = Some s"
| "fc_run E ((now, ev) # evs) s = Option.bind (fc_step E now ev s) (fc_run E evs)"

text \<open>The component once started: no handles, and no locks yet.\<close>

definition fc_started :: "FileCache \<Rightarrow> bool" where
  "fc_started c \<longleftrightarrow> fc_table c = [] \<and> locks (fc_locks c) = [] \<and> fc_tmpPath c = pc_tmpPath (lp_cfg (fc_policy c))"

section \<open>The accounting along a run\<close>

lemma fc_started_counted: "fc_started c \<Longrightarrow> open_counted x 0 {#} c"
  by (auto simp: fc_started_def open_counted_def lock_map_inv_def lock_count_def intro: exI [of _ "{#}"])

text \<open>The configuration that the accounting needs.\<close>

definition same_cfg :: "FileCache \<Rightarrow> FileCache \<Rightarrow> bool" where
  "same_cfg c c' \<longleftrightarrow> fc_tmpPath c' = fc_tmpPath c \<and> fc_lazyWrite c' = fc_lazyWrite c \<and>
     pc_tmpPath (lp_cfg (fc_policy c')) = pc_tmpPath (lp_cfg (fc_policy c))"

lemma keeps_cfg: "fc_keeps c c' \<Longrightarrow> same_cfg c c'"
  by (simp add: fc_keeps_def same_cfg_def)

lemma same_cfg_trans: "same_cfg c c1 \<Longrightarrow> same_cfg c1 c2 \<Longrightarrow> same_cfg c c2"
  by (simp add: same_cfg_def)

definition good_step :: "bool \<Rightarrow> nat \<Rightarrow> 'n fc_state \<Rightarrow> 'n fc_state option \<Rightarrow> bool" where
  "good_step x N s m \<longleftrightarrow> (\<forall>s'. m = Some s' \<longrightarrow> open_counted x (Suc N) {#} (fst s') \<and> same_cfg (fst s) (fst s'))"

lemma good_keeps: "open_counted x N {#} (fst s) \<Longrightarrow> fc_keeps (fst s) (fst s') \<Longrightarrow> open_counted x (Suc N) {#} (fst s') \<and> same_cfg (fst s) (fst s')"
  using counted_mono [OF counted_keeps, of x N "{#}" "fst s" "fst s'" "Suc N"] keeps_cfg by simp

lemma map_snd_Some: "map_option snd m = Some s \<Longrightarrow> \<exists>r. m = Some (r, s)"
  by (cases m) auto

lemma post_snd: "post m (\<lambda>_. Q) \<Longrightarrow> map_option snd m = Some s \<Longrightarrow> Q s"
  unfolding post_def using map_snd_Some by metis

lemma good_kept:
  assumes "open_counted x N {#} (fst s)" "kept (fst s) m" shows "good_step x N s (map_option snd m)"
  unfolding good_step_def
proof (intro allI impI)
  fix s' assume "map_option snd m = Some s'"
  from good_keeps [OF assms(1) post_snd [OF assms(2) this]]
  show "open_counted x (Suc N) {#} (fst s') \<and> same_cfg (fst s) (fst s')" .
qed

lemma good_kept_st:
  assumes "open_counted x N {#} (fst s)" "kept_st (fst s) m" shows "good_step x N s m"
  unfolding good_step_def
proof (intro allI impI)
  fix s' assume "m = Some s'"
  with assms(2) have "fc_keeps (fst s) (fst s')" unfolding kept_st_def by (elim allE impE)
  from good_keeps [OF assms(1) this] show "open_counted x (Suc N) {#} (fst s') \<and> same_cfg (fst s) (fst s')" .
qed

lemma good_moves:
  fixes s :: "'n fc_state"
  assumes "open_counted x N {#} (fst s)" "int N + 1 < 2 ^ 32" "post m (\<lambda>_ s'. moves (fst s) (fst s'))"
  shows "good_step x N s (map_option snd m)"
proof -
  have "open_counted x (Suc N) {#} (fst s') \<and> same_cfg (fst s) (fst s')" if "moves (fst s) (fst s')" for s' :: "'n fc_state"
    using that assms(1,2) counted_mono [of x N "{#}" "fst s'" "Suc N"] by (simp add: moves_def same_cfg_def)
  with post_snd [OF assms(3)] show ?thesis unfolding good_step_def by metis
qed

lemma good_on_handle: "open_counted x N {#} (fst s) \<Longrightarrow> (r \<in> set (fc_table (fst s)) \<Longrightarrow> good_step x N s (f s)) \<Longrightarrow> good_step x N s (on_handle r f s)"
  using good_keeps [OF _ fc_keeps_refl, of x N s] by (auto simp: on_handle_def good_step_def)

lemma upd_flock_same_cfg: "same_cfg (fst s) (fst (upd_flock i f s))"
  by (simp add: same_cfg_def)

lemma good_opens:
  fixes s :: "'n fc_state"
  assumes c: "open_counted x N {#} (fst s)" and N: "int N + 1 < 2 ^ 32" and m: "post m (opened (fst s) name)"
  shows "good_step x N s (opens m)"
proof -
  have "open_counted x (Suc N) {#} (fst s2) \<and> same_cfg (fst s) (fst s2)"
    if o: "opened (fst s) name (h, e) s1" "s2 = (case h of None \<Rightarrow> s1 | Some r \<Rightarrow> register_handle r s1)" for h e and s1 s2 :: "'n fc_state"
  proof (cases h)
    case None
    with o c show ?thesis using good_keeps by (simp add: opened_def)
  next
    case (Some r)
    from o(1) obtain i and s0 :: "'n fc_state" where h: "fc_fresh (fst s) \<le> r" "r < fc_fresh (fst s1)" "h_Path (handle_at r s1) = name"
        "usable (handle_at r s1)" "fc_keeps (fst s) (fst s0)" "flock_id (fst s0) name = Some i"
        "fc_keeps (fst (upd_flock i lm_Inc s0)) (fst s1)" unfolding opened_def prod.case Some option.case by blast
    have "open_counted x (Suc N) {#name#} (fst s1)"
      using counted_keeps [OF counted_Inc [OF counted_keeps [OF c h(5)] h(6) N] h(7)] .
    moreover have "fc_table (fst s1) = fc_table (fst s)" using h(5,7) by (simp add: fc_keeps_def)
    then have "r \<notin> set (fc_table (fst s1))" using c h(1) by (auto simp: open_counted_def)
    ultimately have "open_counted x (Suc N) {#} (fst (register_handle r s1))"
      using h(2-4) by (intro counted_register) simp_all
    moreover have "same_cfg (fst s) (fst s1)"
      using keeps_cfg [OF h(5)] upd_flock_same_cfg [of s0 i lm_Inc] keeps_cfg [OF h(7)] by (blast intro: same_cfg_trans)
    then have "same_cfg (fst s) (fst (register_handle r s1))" by (cases s1) (simp add: register_handle_def same_cfg_def)
    ultimately show ?thesis using o(2) Some by simp
  qed
  note step = this
  show ?thesis
  proof (cases m)
    case None
    then show ?thesis by (simp add: good_step_def opens_def)
  next
    case (Some y)
    obtain h e s1 where y: "y = ((h, e), s1)" by (metis surj_pair)
    with m Some have "opened (fst s) name (h, e) s1" unfolding post_def by blast
    from step [OF this refl] Some y show ?thesis by (simp add: good_step_def opens_def)
  qed
qed

lemma unregister_cfg: "same_cfg (fst s) (fst s1) \<Longrightarrow> same_cfg (fst s) (fst (unregister_handle r s1))"
  by (cases s1) (simp add: unregister_handle_def same_cfg_def)

lemma unregister_released:
  fixes s s1 :: "'n fc_state"
  assumes c: "open_counted x N {#} (fst s)" and r: "r \<in> set (fc_table (fst s))" and N: "int N + 1 < 2 ^ 32"
    and rel: "released (fst s) (h_Path (handle_at r s)) None s1"
  shows "open_counted x N {#} (fst (unregister_handle r s1)) \<and> same_cfg (fst s) (fst s1)"
proof -
  let ?p = "h_Path (handle_at r s)"
  from rel obtain i and s0 :: "'n fc_state" where h: "fc_keeps (fst s) (fst s0)" "flock_id (fst s0) ?p = Some i"
      "fc_keeps (fst (upd_flock i lm_Dec s0)) (fst s1)" unfolding released_def if_True simp_thms by blast
  have rt: "r \<in> set (fc_table (fst s0))" "h_Path (handle_at r s0) = ?p" using h(1) r c by (auto simp: fc_keeps_def open_counted_def)
  from counted_unregister [OF counted_keeps [OF c h(1)] rt(1)] rt(2)
  have "open_counted x N {#?p#} (fst (unregister_handle r s0))" by simp
  moreover have "flock_id (fst (unregister_handle r s0)) ?p = Some i"
    using h(2) by (cases s0) (simp add: unregister_handle_def)
  ultimately have "open_counted x N {#} (fst (upd_flock i lm_Dec (unregister_handle r s0)))"
    using N by (intro counted_Dec) simp_all
  then have "open_counted x N {#} (fst (unregister_handle r (upd_flock i lm_Dec s0)))" by (simp add: unregister_commutes)
  moreover have "fc_keeps (fst (unregister_handle r (upd_flock i lm_Dec s0))) (fst (unregister_handle r s1))"
    using h(3) by (cases s0; cases s1) (simp add: unregister_handle_def upd_flock_def fc_keeps_def del: map_of_eq_Some_iff)
  ultimately have "open_counted x N {#} (fst (unregister_handle r s1))" by (rule counted_keeps)
  moreover have "same_cfg (fst s) (fst s1)"
    using keeps_cfg [OF h(1)] upd_flock_same_cfg [of s0 i lm_Dec] keeps_cfg [OF h(3)] by (blast intro: same_cfg_trans)
  ultimately show ?thesis by simp
qed

lemma unregister_leaks:
  assumes "open_counted False N {#} (fst s)" "r \<in> set (fc_table (fst s))"
  shows "open_counted False N {#} (fst (unregister_handle r s))"
  by (rule counted_drop [OF counted_unregister [OF assms]])

lemma good_releasing:
  fixes s :: "'n fc_state"
  assumes c: "open_counted x N {#} (fst s)" and N: "int N + 1 < 2 ^ 32" and x: "x \<longrightarrow> \<not> fc_lazyWrite (fst s)"
    and r: "r \<in> set (fc_table (fst s))"
  shows "good_step x N s (releases r (fc_ReleaseFile E now r s))"
proof -
  let ?p = "h_Path (handle_at r s)"
  obtain i s1 where g: "get_flock ?p s = (i, s1)" by (meson surj_pair)
  have k: "fc_keeps (fst s) (fst s1)" using keeps_get_flock [OF fc_keeps_refl, of s ?p] g by simp
  have c1: "open_counted x N {#} (fst s1)" by (rule counted_keeps [OF c k])
  have r1: "r \<in> set (fc_table (fst s1))" "h_Path (handle_at r s1) = ?p" "fc_lazyWrite (fst s1) = fc_lazyWrite (fst s)"
    using k r c by (auto simp: fc_keeps_def open_counted_def)
  have "open_counted x (Suc N) {#} (fst s2) \<and> same_cfg (fst s) (fst s2)"
    if i: "releaseFileInternal E now r i s1 = Some (e, s')"
      "s2 = (if fc_lazyWrite (fst s1) \<or> e = None then unregister_handle r s' else s')" for e and s' s2 :: "'n fc_state"
  proof -
    have rel: "released (fst s1) ?p e s'"
      using releaseFileInternal_released [OF get_flock_id [OF g]] i(1) unfolding post_def by blast
    show ?thesis
    proof (cases e)
      case None
      with rel r1(2) have "released (fst s1) (h_Path (handle_at r s1)) None s'" by simp
      from unregister_released [OF c1 r1(1) N this]
      have "open_counted x N {#} (fst (unregister_handle r s'))" "same_cfg (fst s1) (fst s')" by blast+
      then show ?thesis using i(2) None counted_mono [of x N "{#}" _ "Suc N"] keeps_cfg [OF k] unregister_cfg [of s s']
        by (auto intro: same_cfg_trans)
    next
      case (Some y)
      with rel have k2: "fc_keeps (fst s) (fst s')" using k by (auto simp: released_def intro: fc_keeps_trans)
      show ?thesis
      proof (cases "fc_lazyWrite (fst s)")
        case False
        with i(2) Some r1(3) good_keeps [OF c k2] show ?thesis by simp
      next
        case True
        with x have "\<not> x" by simp
        with counted_keeps [OF c k2] r k2 have "open_counted False N {#} (fst (unregister_handle r s'))"
          by (intro unregister_leaks) (simp_all add: fc_keeps_def)
        with True i(2) r1(3) \<open>\<not> x\<close> keeps_cfg [OF k2] unregister_cfg [of s s' r] show ?thesis
          using counted_mono [of False N "{#}" _ "Suc N"] by simp
      qed
    qed
  qed
  note step = this
  show ?thesis
  proof (cases "releaseFileInternal E now r i s1")
    case None
    then show ?thesis by (simp add: good_step_def releases_def fc_ReleaseFile_def g)
  next
    case (Some y)
    obtain e s' where "y = (e, s')" by (cases y)
    with step [OF _ refl, of e s'] Some show ?thesis
      by (cases "fc_lazyWrite (fst s1)"; cases e) (simp_all add: good_step_def releases_def fc_ReleaseFile_def g)
  qed
qed

lemma good_policy_turn:
  assumes c: "open_counted x N {#} (fst s)"
    and f: "\<And>p fs p' fs'. f (p, fs) = Some (p', fs') \<Longrightarrow> lock_map_inv (pc_fileLocks (lp_cfg p)) \<Longrightarrow> same_use (lp_cfg p) (lp_cfg p')"
  shows "good_step x N s (policy_turn E f s)"
proof -
  obtain fc n where s: "s = (fc, n)" by (cases s)
  have l: "lock_map_inv (fc_locks fc)" using c s by (simp add: open_counted_def)
  have "open_counted x (Suc N) {#} (fc\<lparr>fc_policy := p\<rparr>) \<and> same_cfg fc (fc\<lparr>fc_policy := p\<rparr>)"
    if "f (fc_policy fc, e_fs E n) = Some (p, fs)" for p fs
  proof -
    from f [OF that l] have u: "same_use (lp_cfg (fc_policy fc)) (lp_cfg p)" .
    have "open_counted x N {#} (fc\<lparr>fc_policy := p\<rparr>)"
      by (rule counted_cong [of x N "{#}" fc]) (use c s u in \<open>simp_all add: same_use_def\<close>)
    with u show ?thesis using counted_mono [of x N "{#}" _ "Suc N"] by (simp add: same_use_def same_cfg_def)
  qed
  with s show ?thesis by (auto simp: good_step_def policy_turn_def)
qed

lemma asyncCacheValid_cfg: "asyncCacheValid p = Some p' \<Longrightarrow> lp_cfg p' = lp_cfg p"
  by (auto simp: asyncCacheValid_def split: list.splits dest!: cacheValidate_frame(1))

lemma validate_turn_use:
  "map_option (\<lambda>p. (p, fs)) (asyncCacheValid p) = Some (p', fs') \<Longrightarrow> lock_map_inv (pc_fileLocks (lp_cfg p)) \<Longrightarrow>
     same_use (lp_cfg p) (lp_cfg p')"
  by (auto simp: same_use_def dest!: asyncCacheValid_cfg)

lemma fc_step_good:
  assumes c: "open_counted x N {#} (fst s)" and N: "int N + 1 < 2 ^ 32" and x: "x \<longrightarrow> \<not> fc_lazyWrite (fst s)"
  shows "good_step x N s (fc_step E now ev s)"
proof (cases ev)
  case (EvOpen q)
  then show ?thesis using good_opens [OF c N OpenFile_opened] by simp
next
  case (EvCreate q)
  then show ?thesis using good_opens [OF c N CreateFile_opened] by simp
next
  case (EvRelease r)
  then show ?thesis using good_on_handle [OF c] good_releasing [OF c N x] by simp
next
  case (EvRename q)
  then show ?thesis using good_moves [OF c N RenameFile_moves] by simp
next
  case (EvRenameDir q)
  then show ?thesis using good_moves [OF c N RenameDir_moves] by simp
next
  case EvTimeout
  show ?thesis unfolding EvTimeout fc_step.simps
    by (rule good_policy_turn [OF c]) (blast dest: expire_round_busy)
next
  case (EvDiskCheck cur)
  show ?thesis unfolding EvDiskCheck fc_step.simps
    by (rule good_policy_turn [OF c]) (blast dest: disk_check_busy)
next
  case EvValidate
  show ?thesis unfolding EvValidate fc_step.simps
    by (rule good_policy_turn [OF c]) (unfold prod.case, rule validate_turn_use)
qed (simp_all only: fc_step.simps, (intro good_on_handle [OF c] good_kept [OF c] good_kept_st [OF c] handler_keeps step_keeps)+)

lemma fc_run_counted:
  "open_counted x N {#} (fst s) \<Longrightarrow> int (N + length evs) < 2 ^ 32 \<Longrightarrow> (x \<longrightarrow> \<not> fc_lazyWrite (fst s)) \<Longrightarrow>
     fc_run E evs s = Some s' \<Longrightarrow> open_counted x (N + length evs) {#} (fst s') \<and> same_cfg (fst s) (fst s')"
proof (induction evs arbitrary: s N)
  case Nil
  then show ?case by (simp add: same_cfg_def)
next
  case (Cons e evs)
  obtain now ev where e: "e = (now, ev)" by (cases e)
  from Cons.prems(4) e obtain s1 where s1: "fc_step E now ev s = Some s1" "fc_run E evs s1 = Some s'"
    by (auto split: bind_splits)
  have "int N + 1 < 2 ^ 32" using Cons.prems(2) by simp
  from fc_step_good [OF Cons.prems(1) this Cons.prems(3), of E now ev] s1(1)
  have g: "open_counted x (Suc N) {#} (fst s1)" "same_cfg (fst s) (fst s1)" by (auto simp: good_step_def)
  from Cons.IH [OF g(1) _ _ s1(2)] Cons.prems(2,3) g(2) show ?case
    by (auto simp: same_cfg_def)
qed

end
