(* ===== verification/File_Cache_Props.thy ===== *)
theory File_Cache_Props
  imports File_Cache_Safety
begin

text \<open>
  The file cache over the loopback storage, and the properties of its runs: exact counts of open handles,
  usable handles, and eviction that spares open files.
\<close>

section \<open>Over the loopback storage\<close>

definition lb_env ::
  "(string \<Rightarrow> string) \<Rightarrow> (os_fs \<Rightarrow> string \<Rightarrow> rat option) \<Rightarrow> (os_fs \<Rightarrow> error + int) \<Rightarrow> loopback fc_env" where
  "lb_env md5 du free = \<lparr>e_next = loopback_component md5, e_fs = lb_fs, e_set_fs = (\<lambda>fs s. s\<lparr>lb_fs := fs\<rparr>),
     e_usage = du, e_avail = free\<rparr>"

text \<open>A started cache in \<open>/t\<close> over a storage in \<open>/s\<close> with one object.\<close>

definition demo_cfg :: cachePolicyConfig where
  "demo_cfg = \<lparr>pc_tmpPath = ''/t'', pc_cacheTimeout = 1, pc_maxEviction = 10, pc_maxSizeMB = 1, pc_highThreshold = 80,
     pc_lowThreshold = 60, pc_fileLocks = NewLockMap, pc_pendingOps = [], pc_policyTrace = False\<rparr>"

definition demo_cache :: FileCache where
  "demo_cache = \<lparr>fc_tmpPath = ''/t'', fc_policy = the (StartPolicy None (NewLRUPolicy demo_cfg)), fc_createEmptyFile = False,
     fc_allowNonEmpty = False, fc_cacheTimeout = 1, fc_policyTrace = False, fc_missedChmodList = [], fc_mountPath = ''/m'',
     fc_allowOther = False, fc_offloadIO = False, fc_offlineAccess = True, fc_maxCacheSizeMB = 1,
     fc_defaultPermission = 0x1FF, fc_refreshSec = 0, fc_hardLimit = False, fc_diskHighWaterMark = 0, fc_lazyWrite = False,
     fc_schedule = [], fc_activeWindows = 0, fc_windowOpen = True, fc_heap = (\<lambda>_. new_handle [] None), fc_table = [], fc_fresh = 0\<rparr>"

definition demo_fs :: os_fs where
  "demo_fs = \<lparr>dents = [(''/t'', 0), (''/s'', 1), (''/s/a'', 2)],
     inodes = (\<lambda>_. DirNode 0x1FF 0)(2 := FileNode ''xy'' 0x1FF 0), next_ino = 3, open_fds = [], next_fd = 3\<rparr>"

definition demo_store :: loopback where
  "demo_store = \<lparr>lb_fs = demo_fs, lb_table = \<lparr>handles = [], nextHandleID = 1\<rparr>, lb_path = ''/s'', lb_consistency = False\<rparr>"

abbreviation demo_env :: "loopback fc_env" where
  "demo_env \<equiv> lb_env (\<lambda>x. x) (\<lambda>_ _. None) (\<lambda>_. Inr 0)"

text \<open>How to evaluate steps over it: the state is kept in the form of a literal record.\<close>

lemma lb_env_simps [simp]:
  "e_fs (lb_env md5 du free) = lb_fs" "e_set_fs (lb_env md5 du free) fs n = n\<lparr>lb_fs := fs\<rparr>"
  "e_usage (lb_env md5 du free) = du" "e_avail (lb_env md5 du free) = free"
  "e_next (lb_env md5 du free) = loopback_component md5"
  by (simp_all add: lb_env_def)

lemma loopback_simps [simp]:
  "CloudConnected (loopback_component md5) = (\<lambda>now _ s. Some (True, s))"
  "GetAttr (loopback_component md5) = lb_GetAttr" "CopyToFile (loopback_component md5) = lb_CopyToFile"
  "CopyFromFile (loopback_component md5) = lb_CopyFromFile" "Chmod (loopback_component md5) = lb_Chmod"
  by (simp_all add: loopback_component_def)

lemma resolve_no_link: "(\<forall>l t. node_at fs p \<noteq> Some (LinkNode l t)) \<Longrightarrow> resolve 40 fs p = Some p"
proof -
  assume a: "\<forall>l t. node_at fs p \<noteq> Some (LinkNode l t)"
  have "resolve (Suc 39) fs p = Some p" using a by (auto simp del: Suc_numeral split: option.split node.split)
  then show ?thesis by simp
qed

lemmas eval_cache = Let_def fc_CreateFile_def create_empty_def create_allowed_def create_local_def get_flock_def lm_Get_def
  set_locks_def fc_CacheValid_def CacheValid_def cacheValidate_def upd_node_def new_node_def setHead_def extractNode_def
  fc_os_def upd_flock_def alloc_handle_def upd_handle_def handle_flag_def setHandleDirty_def new_handle_def NewHandle_def
  Handle.defs opens_def register_handle_def lm_Inc_def lm_IncDirty_def wrapu32_def new_lock_item_def local_path_def
  below_def wrap64_def InvalidHandleID_def DefaultFilePermissionBits_def

lemmas eval_os = os_MkdirAll_def os_Stat_def os_OpenFile_def node_at_def alloc_fd_def new_entry_def set_inode_def
  parent_is_dir_def resolve_no_link ModePerm_def

lemmas eval_start = demo_cfg_def demo_cache_def demo_fs_def demo_store_def StartPolicy_def NewLRUPolicy_def loadSnapshot_def
  NewLockMap_def

lemma demo_paths [simp]:
  "path_join [''/t'', ''a''] = ''/t/a''" "path_dir ''/t/a'' = ''/t''" "path_join [''/s'', ''a''] = ''/s/a''" "path_dir ''/s/a'' = ''/s''"
  by code_simp+

lemma demo_flags [simp]:
  "set_flag HandleFlagCached 0 = 8" "\<not> IsSet 8 HandleFlagDirty" "set_flag HandleFlagDirty 8 = 10" "IsSet 10 HandleFlagDirty"
  by code_simp+

text \<open>The state once a file \<open>a\<close> is created.\<close>

definition demo_created :: "loopback fc_state" where
  "demo_created =
     (demo_cache\<lparr>
        fc_policy := (fc_policy demo_cache)\<lparr>
          lp_cfg := demo_cfg\<lparr>pc_fileLocks := \<lparr>locks = [(''a'', 0)], lock_items = (\<lambda>_. new_lock_item)
            (0 := \<lparr>handleCount = 1, dirtyCount = 1, downloadTime = 0, LazyOpen = False\<rparr>), lock_fresh = 1\<rparr>\<rparr>,
          lp_nodeMap := [(''/t/a'', 2)],
          lp_nodes := (\<lambda>i. if i = 0 then new_node (- 1) ''__'' else new_node (- 1) ''##'')
            (1 := \<lparr>ln_next = None, ln_prev = Some 0, ln_usage = - 1, ln_deleted = False, ln_name = ''##''\<rparr>,
             2 := \<lparr>ln_next = Some 0, ln_prev = None, ln_usage = 1, ln_deleted = False, ln_name = ''/t/a''\<rparr>,
             0 := \<lparr>ln_next = Some 1, ln_prev = Some 2, ln_usage = - 1, ln_deleted = False, ln_name = ''__''\<rparr>),
          lp_fresh := 3, lp_head := Some 2\<rparr>,
        fc_heap := (\<lambda>_. new_handle [] None)
          (0 := (new_handle ''a'' None)\<lparr>h_FObj := Some 3, h_UnixFD := 3, h_Flags := 10\<rparr>),
        fc_table := [0], fc_fresh := 1\<rparr>,
      demo_store\<lparr>lb_fs := demo_fs\<lparr>
        dents := dents demo_fs @ [(''/t/a'', 3)], inodes := (inodes demo_fs)(3 := FileNode [] 0x1ED 1),
        next_ino := 4, open_fds := [(3, 3)], next_fd := 4\<rparr>\<rparr>)"

definition demo_create :: fc_event where
  "demo_create = EvCreate \<lparr>cf_Name = ''a'', cf_Mode = 0x1ED\<rparr>"

lemma demo_started: "fc_started (fst (demo_cache, demo_store)) \<and> \<not> fc_lazyWrite (fst (demo_cache, demo_store))"
  by code_simp

lemma demo_creates: "fc_step demo_env 1 demo_create (demo_cache, demo_store) = Some demo_created"
  by (simp add: demo_create_def demo_created_def eval_cache eval_os eval_start)

lemma demo_policy: "lp_currMarker (fc_policy (fst demo_created)) = 0" "lp_lastMarker (fc_policy (fst demo_created)) = 1"
  by (simp_all add: demo_created_def eval_start Let_def upd_node_def)

lemmas eval_round = expire_round_def updateMarker_def deleteExpiredNodes_def collect_expired_def
  expire_walk.simps [of _ "Some 2"] expire_walk.simps [of _ None] expire_name_def delete_collected_def deleteItem_def
  NormalizeObjectName_def trim_prefix_def replace_char_def

text \<open>A first timeout ages the file, a second one passes it.\<close>

definition demo_aged :: "loopback fc_state" where
  "demo_aged = the (fc_step demo_env 2 EvTimeout demo_created)"

lemma demo_ages: "fc_step demo_env 2 EvTimeout demo_created = Some demo_aged"
  by (simp add: demo_aged_def policy_turn_def demo_created_def eval_round eval_cache eval_start)

lemma demo_aged_facts:
  "fc_table (fst demo_aged) = [0]" "fh_openFileOptions (handle_at 0 demo_aged) = None" "h_Path (handle_at 0 demo_aged) = ''a''" "fc_tmpPath (fst demo_aged) = ''/t''"
  "expire_round (fc_policy (fst demo_aged), lb_fs (snd demo_aged)) \<noteq> None"
  by (simp_all add: demo_aged_def policy_turn_def demo_created_def eval_round eval_cache eval_start node_at_def)

lemma demo_runs: "fc_run demo_env [(1, demo_create), (2, EvTimeout)] (demo_cache, demo_store) = Some demo_aged"
  using demo_ages by (simp add: demo_creates)

section \<open>Exact counts\<close>

lemma count_names: "count (mset (map f rs)) name = length (filter (\<lambda>r. f r = name) rs)"
  by (induction rs) auto

lemma fc_run_accounted:
  assumes "fc_started (fst s0)" "int (length evs) < 2 ^ 32" "fc_run E evs s0 = Some s" "x \<longrightarrow> \<not> fc_lazyWrite (fst s0)"
  shows "open_counted x (length evs) {#} (fst s) \<and> same_cfg (fst s0) (fst s)"
  using fc_run_counted [OF fc_started_counted [OF assms(1)] _ assms(4,3)] assms(2) by simp

text \<open>
  C2. Without lazy writes, along any run of requests, uploads and evictions over any storage, the lock item
  of a file counts exactly the registered handles on it, renames included, as long as fewer than \<open>2 ^ 32\<close>
  events keep the counter from wrapping.
\<close>

theorem handle_counts_exact:
  assumes "fc_started (fst s0)" "\<not> fc_lazyWrite (fst s0)" "int (length evs) < 2 ^ 32" "fc_run E evs s0 = Some s"
  shows "lock_count (fc_locks (fst s)) name =
    int (length (filter (\<lambda>r. h_Path (handle_at r s) = name) (fc_table (fst s))))"
proof -
  from fc_run_accounted [OF assms(1,3,4), of True] assms(2)
  have "open_counted True (length evs) {#} (fst s)" by simp
  then have "lock_count (fc_locks (fst s)) name = int (count (open_paths (fst s)) name)" by (auto simp: open_counted_def)
  also have "count (open_paths (fst s)) name = length (filter (\<lambda>r. h_Path (handle_at r s) = name) (fc_table (fst s)))"
    by (rule count_names)
  finally show ?thesis .
qed

lemma handle_counts_exact_witness: "lock_count (fc_locks (fst demo_aged)) ''a'' = 1"
  using handle_counts_exact [OF _ _ _ demo_runs, of "''a''"] demo_started demo_aged_facts by simp

section \<open>Usable handles\<close>

text \<open>
  C21. Along any run, lazy writes or not, a handle in the table is a handle the component allocated, and it
  either still remembers how to open its file or has the file open: no request on it can fail for want of both.
\<close>

theorem open_handles_usable:
  assumes "fc_started (fst s0)" "int (length evs) < 2 ^ 32" "fc_run E evs s0 = Some s" "r \<in> set (fc_table (fst s))"
  shows "r < fc_fresh (fst s) \<and> (fh_openFileOptions (handle_at r s) \<noteq> None \<or> h_FObj (handle_at r s) \<noteq> None)"
  using fc_run_accounted [OF assms(1-3), of False] assms(4) by (auto simp: open_counted_def usable_def)

lemma open_handles_usable_witness: "0 < fc_fresh (fst demo_aged) \<and> (\<exists>fd. h_FObj (handle_at 0 demo_aged) = Some fd)"
  using open_handles_usable [OF _ _ demo_runs, of 0] demo_started demo_aged_facts by auto

section \<open>Eviction spares open files\<close>

text \<open>A name that needs no cleaning when it is joined to the cache directory.\<close>

definition clean_in :: "string \<Rightarrow> string \<Rightarrow> bool" where
  "clean_in tmp name \<longleftrightarrow> path_join [tmp, name] = tmp @ slash # name \<and> CHR 0x5C \<notin> set name"

lemma obj_name_clean: "clean_in tmp name \<Longrightarrow> obj_name tmp (path_join [tmp, name]) = Some name"
  by (auto simp: clean_in_def obj_name_def trim_prefix_def NormalizeObjectName_def replace_char_def intro: map_idI)

lemma open_file_busy:
  assumes "open_counted x N {#} c" "r \<in> set (fc_table c)" "clean_in (fc_tmpPath c) (h_Path (fc_heap c r))"
    "pc_tmpPath (lp_cfg (fc_policy c)) = fc_tmpPath c"
  shows "busy (lp_cfg (fc_policy c)) (local_path c (h_Path (fc_heap c r)))"
proof -
  let ?p = "h_Path (fc_heap c r)"
  from assms(1) obtain T where T: "\<forall>n. lock_count (fc_locks c) n = int (count T n)" "open_paths c \<subseteq># T"
    by (auto simp: open_counted_def)
  have "?p \<in># open_paths c" using assms(2) by auto
  then have "0 < count T ?p" using T(2) by (meson count_greater_zero_iff mset_subset_eqD)
  with T(1) have "lock_count (fc_locks c) ?p > 0" by simp
  with obj_name_clean [OF assms(3)] assms(4) show ?thesis by (simp add: busy_def local_path_def)
qed

text \<open>
  C3. After any run, no eviction takes the file of an open handle: neither the round that follows a timeout
  nor a disk check of up to three rounds, whatever usage it reads, changes what is at the local path of a
  registered handle. The counters may not wrap, and the handle's name needs no cleaning.
\<close>

theorem open_files_survive_eviction:
  assumes "fc_started (fst s0)" "int (length evs) < 2 ^ 32" "fc_run E evs s0 = Some s"
    and "r \<in> set (fc_table (fst s))" "clean_in (fc_tmpPath (fst s)) (h_Path (handle_at r s))"
    and "expire_round (fc_policy (fst s), fc_fs E s) = Some (p', fs') \<or>
      disk_check curSize (fc_policy (fst s), fc_fs E s) = Some (p', fs')"
  shows "node_at fs' (local_path (fst s) (h_Path (handle_at r s))) =
    node_at (fc_fs E s) (local_path (fst s) (h_Path (handle_at r s)))"
proof -
  from fc_run_accounted [OF assms(1-3), of False]
  have c: "open_counted False (length evs) {#} (fst s)" "same_cfg (fst s0) (fst s)" by simp_all
  have "busy (lp_cfg (fc_policy (fst s))) (local_path (fst s) (h_Path (handle_at r s)))"
    using open_file_busy [OF c(1) assms(4,5)] c(2) assms(1) by (simp add: same_cfg_def fc_started_def)
  moreover have "lock_map_inv (fc_locks (fst s))" using c(1) by (simp add: open_counted_def)
  ultimately show ?thesis using assms(6) expire_round_busy disk_check_busy by blast
qed

lemma open_files_survive_eviction_witness:
  "\<exists>p' fs'. expire_round (fc_policy (fst demo_aged), lb_fs (snd demo_aged)) = Some (p', fs') \<and>
     node_at fs' ''/t/a'' = node_at (lb_fs (snd demo_aged)) ''/t/a''"
proof -
  obtain p' fs' where e: "expire_round (fc_policy (fst demo_aged), lb_fs (snd demo_aged)) = Some (p', fs')"
    using demo_aged_facts(5) by auto
  have "clean_in (fc_tmpPath (fst demo_aged)) (h_Path (handle_at 0 demo_aged))"
    unfolding demo_aged_facts by (simp add: clean_in_def)
  from open_files_survive_eviction [OF _ _ demo_runs _ this, of p' fs'] demo_started demo_aged_facts(1-4) e
  show ?thesis by (simp add: local_path_def)
qed

end
