(* ===== verification/File_Cache_Storage.thy ===== *)
theory File_Cache_Storage
  imports File_Cache_Props Loopback_Sizes
begin

text \<open>
  The file cache and the storage below it. \<open>object_store\<close> is what the cache needs of a storage: that a
  copied file is stored, and that neither side touches the other's files. Over it, an upload puts the
  local content into the storage. The loopback storage meets the contract.
\<close>

section \<open>File systems without links\<close>

definition fs_ok :: "os_fs \<Rightarrow> bool" where
  "fs_ok fs \<longleftrightarrow> fs_inv fs \<and> (\<forall>p l t. node_at fs p \<noteq> Some (LinkNode l t))"

lemma fs_ok_resolve: "fs_ok fs \<Longrightarrow> resolve 40 fs p = Some p"
  by (intro resolve_no_link) (simp add: fs_ok_def)

lemma fs_inv_other:
  assumes "fs_inv fs" "map_of (dents fs) p = Some i" "map_of (dents fs) q = Some i"
  shows "q = p"
proof -
  have "(p, i) \<in> set (dents fs)" "(q, i) \<in> set (dents fs)" using assms(2,3) by (auto dest: map_of_SomeD)
  with assms(1) show ?thesis unfolding fs_inv_def distinct_map inj_on_def by fastforce
qed

lemma node_at_set_inode:
  assumes "fs_inv fs" "map_of (dents fs) p = Some i"
  shows "node_at (set_inode i nd fs) q = (if q = p then Some nd else node_at fs q)"
proof (cases "map_of (dents fs) q")
  case None
  with assms(2) show ?thesis by (auto simp: node_at_def set_inode_def)
next
  case (Some j)
  have "j = i \<longleftrightarrow> q = p" using Some assms(2) fs_inv_other [OF assms(1,2), of q] by auto
  with Some show ?thesis by (auto simp: node_at_def set_inode_def simp del: map_of_eq_Some_iff)
qed

lemma node_at_new_entry:
  assumes "fs_inv fs" "map_of (dents fs) p = None"
  shows "node_at (new_entry p nd fs) q = (if q = p then Some nd else node_at fs q)"
proof (cases "q = p")
  case True
  then show ?thesis by (simp add: node_at_def new_entry_def del: map_of_eq_Some_iff)
next
  case False
  have "map_of (dents fs) q \<noteq> Some (next_ino fs)" using assms(1) unfolding fs_inv_def
    by (metis image_eqI less_irrefl map_of_SomeD snd_conv)
  with False show ?thesis
    by (cases "map_of (dents fs) q") (auto simp: node_at_def new_entry_def simp del: map_of_eq_Some_iff map_of_eq_None_iff)
qed

lemma node_at_alloc_fd [simp]: "node_at (snd (alloc_fd i fs)) q = node_at fs q"
  by (simp add: alloc_fd_def node_at_def)

lemma node_at_Close [simp]: "node_at (snd (os_Close fd fs)) q = node_at fs q"
  by (simp add: os_Close_def node_at_def)

lemma fs_ok_Close [simp]: "fs_ok (snd (os_Close fd fs)) = fs_ok fs"
  by (simp add: fs_ok_def os_Close_def fs_inv_def node_at_def)

text \<open>Opening for reading, and for replacing the content.\<close>

lemma open_read_file:
  assumes "fs_ok fs" "node_at fs p = Some (FileNode c m t)"
  obtains fd fs' i where "os_OpenFile now p no_flags md fs = (Inr fd, fs')" "fs_ok fs'" "\<And>q. node_at fs' q = node_at fs q"
    "map_of (open_fds fs') fd = Some i" "inodes fs' i = FileNode c m t"
proof -
  from assms(2) obtain i where i: "map_of (dents fs) p = Some i" "inodes fs i = FileNode c m t"
    by (auto simp: node_at_def)
  show thesis
  proof (rule that)
    show "os_OpenFile now p no_flags md fs = (Inr (next_fd fs), snd (alloc_fd i fs))"
      using i by (simp add: os_OpenFile_def fs_ok_resolve [OF assms(1)] alloc_fd_def)
    show "fs_ok (snd (alloc_fd i fs))" using assms(1) by (simp add: fs_ok_def)
    show "map_of (open_fds (snd (alloc_fd i fs))) (next_fd fs) = Some i" by simp
  qed (use i in simp_all)
qed

lemma open_replace:
  assumes "fs_ok fs" "os_OpenFile now p create_trunc md fs = (r, fs')"
  shows "fs_ok fs' \<and> (\<forall>q. q \<noteq> p \<longrightarrow> node_at fs' q = node_at fs q) \<and>
    (\<forall>fd. r = Inr fd \<longrightarrow> (\<exists>i m t. map_of (open_fds fs') fd = Some i \<and> map_of (dents fs') p = Some i \<and> inodes fs' i = FileNode [] m t)) \<and>
    (\<forall>e. r = Inl e \<longrightarrow> fs' = fs)"
proof (cases "map_of (dents fs) p")
  case None
  have inv: "fs_inv fs" using assms(1) by (simp add: fs_ok_def)
  show ?thesis
  proof (cases "parent_is_dir fs p")
    case False
    with None assms show ?thesis by (auto simp: os_OpenFile_def fs_ok_resolve)
  next
    case True
    let ?f = "new_entry p (FileNode [] (md AND ModePerm) now) fs"
    have "fs' = snd (alloc_fd (next_ino fs) ?f)" "r = Inr (next_fd ?f)"
      using None True assms(2) by (auto simp: os_OpenFile_def fs_ok_resolve [OF assms(1)] alloc_fd_def Let_def new_entry_def)
    moreover have "fs_inv ?f" by (rule fs_inv_new_entry [OF inv None])
    moreover note node_at_new_entry [OF inv None, of "FileNode [] (md AND ModePerm) now"]
    moreover have "map_of (dents ?f) p = Some (next_ino fs)" "inodes ?f (next_ino fs) = FileNode [] (md AND ModePerm) now"
      by (simp_all add: new_entry_def del: map_of_eq_Some_iff)
    ultimately show ?thesis using assms(1) by (auto simp: fs_ok_def simp del: map_of_eq_Some_iff)
  qed
next
  case (Some i)
  have inv: "fs_inv fs" using assms(1) by (simp add: fs_ok_def)
  show ?thesis
  proof (cases "inodes fs i")
    case (FileNode c m t)
    let ?f = "set_inode i (FileNode [] m now) fs"
    have "fs' = snd (alloc_fd i ?f)" "r = Inr (next_fd ?f)"
      using Some FileNode assms(2) by (auto simp: os_OpenFile_def fs_ok_resolve [OF assms(1)] alloc_fd_def Let_def)
    moreover note node_at_set_inode [OF inv Some, of "FileNode [] m now"]
    moreover have "map_of (dents ?f) p = Some i" "inodes ?f i = FileNode [] m now"
      using Some by (simp_all add: set_inode_def del: map_of_eq_Some_iff)
    ultimately show ?thesis using assms(1) by (auto simp: fs_ok_def simp del: map_of_eq_Some_iff)
  qed (use Some assms in \<open>auto simp: os_OpenFile_def fs_ok_resolve [OF assms(1)]\<close>)
qed

lemma chmod_at:
  assumes "fs_ok fs" "os_Chmod p md fs = (e, fs')"
  shows "fs_ok fs' \<and> (\<forall>q. q \<noteq> p \<longrightarrow> node_at fs' q = node_at fs q) \<and>
    (\<forall>c m t. node_at fs p = Some (FileNode c m t) \<longrightarrow> (\<exists>m'. node_at fs' p = Some (FileNode c m' t))) \<and>
    (\<forall>m t. node_at fs p = Some (DirNode m t) \<longrightarrow> (\<exists>m'. node_at fs' p = Some (DirNode m' t)))"
proof (cases "map_of (dents fs) p")
  case None
  with assms show ?thesis by (auto simp: os_Chmod_def fs_ok_resolve node_at_def)
next
  case (Some i)
  have inv: "fs_inv fs" using assms(1) by (simp add: fs_ok_def)
  note n = node_at_set_inode [OF inv Some]
  from assms(1) Some have nl: "\<forall>l t. inodes fs i \<noteq> LinkNode l t" by (auto simp: fs_ok_def node_at_def)
  then obtain nd where nd: "fs' = set_inode i nd fs" "\<forall>l t. nd \<noteq> LinkNode l t"
      "\<forall>c m t. inodes fs i = FileNode c m t \<longrightarrow> (\<exists>m'. nd = FileNode c m' t)"
      "\<forall>m t. inodes fs i = DirNode m t \<longrightarrow> (\<exists>m'. nd = DirNode m' t)"
    using assms(2) Some by (cases "inodes fs i") (auto simp: os_Chmod_def fs_ok_resolve [OF assms(1)])
  have "node_at fs p = Some (inodes fs i)" using Some by (simp add: node_at_def)
  with nd n assms(1) show ?thesis by (auto simp: fs_ok_def)
qed

section \<open>Steps that stay inside the cache\<close>

lemma FileUsed_frame:
  assumes "fc_FileUsed n s = Some s'"
  shows "snd s' = snd s" "fc_tmpPath (fst s') = fc_tmpPath (fst s)" "fc_heap (fst s') = fc_heap (fst s)"
    "fc_pendingOps (fst s') = fc_pendingOps (fst s)" "fc_windowOpen (fst s') = fc_windowOpen (fst s)"
    "fc_missedChmodList (fst s') = fc_missedChmodList (fst s)" "fc_lazyWrite (fst s') = fc_lazyWrite (fst s)"
  using assms by (cases s; auto simp: fc_FileUsed_def fc_CacheValid_def dest!: CacheValid_frame(1))+

lemma addPendingOp_frame [simp]:
  "snd (addPendingOp n f s) = snd s" "fc_tmpPath (fst (addPendingOp n f s)) = fc_tmpPath (fst s)"
  "fc_heap (fst (addPendingOp n f s)) = fc_heap (fst s)"
  "map_of (fc_pendingOps (fst (addPendingOp n f s))) = (map_of (fc_pendingOps (fst s)))(n \<mapsto> f)"
  by (cases s; simp add: addPendingOp_def store_pending_def)+

lemma deletePendingOp_frame [simp]:
  "snd (deletePendingOp n s) = snd s" "fc_tmpPath (fst (deletePendingOp n s)) = fc_tmpPath (fst s)"
  "fc_pendingOps (fst (deletePendingOp n s)) = map_remove n (fc_pendingOps (fst s))"
  "fc_heap (fst (deletePendingOp n s)) = fc_heap (fst s)" "fc_windowOpen (fst (deletePendingOp n s)) = fc_windowOpen (fst s)"
  "fc_missedChmodList (fst (deletePendingOp n s)) = fc_missedChmodList (fst s)"
  by (cases s; simp add: deletePendingOp_def)+

lemma get_flock_frame [simp]:
  "snd (snd (get_flock n s)) = snd s" "fc_tmpPath (fst (snd (get_flock n s))) = fc_tmpPath (fst s)"
  "fc_heap (fst (snd (get_flock n s))) = fc_heap (fst s)" "fc_pendingOps (fst (snd (get_flock n s))) = fc_pendingOps (fst s)"
  "fc_windowOpen (fst (snd (get_flock n s))) = fc_windowOpen (fst s)"
  "fc_missedChmodList (fst (snd (get_flock n s))) = fc_missedChmodList (fst s)"
  by (cases s; auto simp: get_flock_def set_locks_def split: prod.split)+

lemma upd_flock_frame [simp]:
  "fc_pendingOps (fst (upd_flock i f s)) = fc_pendingOps (fst s)" "fc_windowOpen (fst (upd_flock i f s)) = fc_windowOpen (fst s)"
  by (cases s; simp add: upd_flock_def set_locks_def)+

lemma clearHandleDirty_frame [simp]:
  "snd (clearHandleDirty r s) = snd s" "fc_tmpPath (fst (clearHandleDirty r s)) = fc_tmpPath (fst s)"
  "fc_pendingOps (fst (clearHandleDirty r s)) = fc_pendingOps (fst s)"
  by (cases s; simp add: clearHandleDirty_def upd_handle_def Let_def case_prod_unfold)+

lemma fc_os_fst [simp]: "fst (snd (fc_os E f s)) = fst s" "fst (fc_os E f s) = fst (f (fc_fs E s))"
  by (simp_all add: fc_os_def split: prod.split)

lemma chmodInternal_cases:
  assumes r: "chmodInternal E now q s = Some (e, s')" and st: "stat_local E (cm_Name q) s = Inr nd"
    and b: "below (Chmod (e_next E)) now q s = Some (e1, s1)"
  obtains "s' = s1"
  | s2 x s3 where "fc_FileUsed (cm_Name q) s1 = Some s2" "fc_os E (os_Chmod (local_path (fst s2) (cm_Name q)) (cm_Mode q)) s2 = (x, s3)"
      "s' = s2 \<or> snd s' = snd s3 \<and> fc_tmpPath (fst s') = fc_tmpPath (fst s3)"
proof (cases "s' = s1")
  case False
  show ?thesis
  proof (cases "fc_FileUsed (cm_Name q) s1")
    case None
    with False r st b show ?thesis by (simp add: chmodInternal_def Let_def split: if_splits)
  next
    case (Some s2)
    obtain x s3 where c: "fc_os E (os_Chmod (local_path (fst s2) (cm_Name q)) (cm_Mode q)) s2 = (x, s3)" by (meson surj_pair)
    have "s' = s2 \<or> snd s' = snd s3 \<and> fc_tmpPath (fst s') = fc_tmpPath (fst s3)"
      using False r st b Some c by (simp add: chmodInternal_def Let_def split: if_splits option.splits; auto)
    with Some c that(2) show ?thesis by blast
  qed
qed (use that(1) in blast)

text \<open>A successful release of a modified file has flushed it and closed it.\<close>

lemma closing_flush:
  assumes r: "releaseFileInternal E now r i s1 = Some (None, s')" and o: "fh_openFileOptions (handle_at r s1) = None"
    and p: "h_Path (handle_at r s1) = p" and s2: "fc_FileUsed p s1 = Some s2" and d: "fh_Dirty (handle_at r s2)"
  obtains s3 fd where "flushFileCloud E now r True s2 = Some (None, s3)"
    "s' = upd_flock i lm_Dec (snd (fc_os E (os_Close fd) s3))"
proof -
  have l: "flushFileLocal E r s2 = None"
    using r o p s2 d by (cases "flushFileLocal E r s2") (simp_all add: releaseFileInternal_def Let_def)
  show thesis
  proof (cases "flushFileCloud E now r True s2")
    case None
    with r o p s2 d l show ?thesis by (simp add: releaseFileInternal_def Let_def)
  next
    case (Some x)
    obtain e s3 where x: "x = (e, s3)" by (cases x)
    with Some r o p s2 d l have e: "e = None" by (cases e) (simp_all add: releaseFileInternal_def Let_def)
    with Some x r o p s2 d l obtain fd where f: "h_FObj (handle_at r s3) = Some fd"
      by (cases "h_FObj (handle_at r s3)") (simp_all add: releaseFileInternal_def Let_def)
    obtain ce s4 where c: "fc_os E (os_Close fd) s3 = (ce, s4)" by (meson surj_pair)
    with Some x e f r o p s2 d l have "s' = upd_flock i lm_Dec s4"
      by (cases ce) (simp_all add: releaseFileInternal_def Let_def)
    with Some x e c show ?thesis by (intro that [of s3 fd]) simp_all
  qed
qed

section \<open>The contract\<close>

text \<open>The local file of a name, with its content.\<close>

definition held :: "'n fc_env \<Rightarrow> 'n fc_state \<Rightarrow> string \<Rightarrow> string \<Rightarrow> bool" where
  "held E s name c \<longleftrightarrow> (\<exists>m t. node_at (fc_fs E s) (local_path (fst s) name) = Some (FileNode c m t))"

text \<open>
  A storage in a good state: \<open>stored\<close> is the content of its objects, \<open>mine\<close> the paths of the cache's files,
  \<open>named\<close> the names both agree on, and \<open>ready\<close> says that the storage can take an object of that name.
\<close>

locale object_store =
  fixes E :: "'n fc_env" and good :: "'n \<Rightarrow> bool" and stored :: "'n \<Rightarrow> string \<Rightarrow> string option"
    and ready :: "'n \<Rightarrow> string \<Rightarrow> bool" and mine :: "string \<Rightarrow> bool" and named :: "string \<Rightarrow> bool" and tmp :: string
  assumes get_set: "e_fs E (e_set_fs E fs n) = fs"
    and good_fs: "good n \<Longrightarrow> fs_ok (e_fs E n)"
    and names: "named name \<Longrightarrow> mine (path_join [tmp, name])"
    and local_step: "good n \<Longrightarrow> fs_ok fs \<Longrightarrow> (\<And>p. \<not> mine p \<Longrightarrow> node_at fs p = node_at (e_fs E n) p) \<Longrightarrow>
      good (e_set_fs E fs n) \<and> stored (e_set_fs E fs n) = stored n \<and> ready (e_set_fs E fs n) = ready n"
    and copy: "good n \<Longrightarrow> named (cp_Name q) \<Longrightarrow> CopyFromFile (e_next E) now q n = Some (e, n') \<Longrightarrow>
      good n' \<and> (\<forall>p. mine p \<longrightarrow> node_at (e_fs E n') p = node_at (e_fs E n) p) \<and>
      (\<forall>m. named m \<longrightarrow> m \<noteq> cp_Name q \<longrightarrow> stored n' m = stored n m) \<and> (\<forall>m. named m \<longrightarrow> ready n m \<longrightarrow> ready n' m) \<and>
      (e = None \<longrightarrow> stored n' (cp_Name q) = Some (lf_Content (cp_File q)))"
    and chmod: "good n \<Longrightarrow> named (cm_Name r) \<Longrightarrow> Chmod (e_next E) now r n = Some (e, n') \<Longrightarrow>
      good n' \<and> (\<forall>p. mine p \<longrightarrow> node_at (e_fs E n') p = node_at (e_fs E n) p) \<and>
      (\<forall>m. named m \<longrightarrow> stored n' m = stored n m) \<and> (\<forall>m. named m \<longrightarrow> ready n m \<longrightarrow> ready n' m)"

context object_store
begin

text \<open>
  From one state to the next the cache's files keep their content and the storage its objects, but for
  the names in \<open>X\<close>.
\<close>

definition calm :: "string set \<Rightarrow> 'n fc_state \<Rightarrow> 'n fc_state \<Rightarrow> bool" where
  "calm X s s' \<longleftrightarrow> fc_tmpPath (fst s') = fc_tmpPath (fst s) \<and> good (snd s') \<and>
     (\<forall>m d. named m \<longrightarrow> held E s m d \<longrightarrow> held E s' m d) \<and>
     (\<forall>m. named m \<longrightarrow> ready (snd s) m \<longrightarrow> ready (snd s') m) \<and>
     (\<forall>m. named m \<longrightarrow> m \<notin> X \<longrightarrow> stored (snd s') m = stored (snd s) m)"

lemma calm_trans: "calm X s s1 \<Longrightarrow> calm Y s1 s2 \<Longrightarrow> calm (X \<union> Y) s s2"
  unfolding calm_def by auto

lemma calm_then: "calm X s s1 \<Longrightarrow> calm {} s1 s2 \<Longrightarrow> calm X s s2"
  using calm_trans [of X s s1 "{}" s2] by simp

lemma calm_good: "calm X s s' \<Longrightarrow> good (snd s')"
  by (simp add: calm_def)

lemma calm_fst: "good (snd s) \<Longrightarrow> snd s' = snd s \<Longrightarrow> fc_tmpPath (fst s') = fc_tmpPath (fst s) \<Longrightarrow> calm X s s'"
  by (simp add: calm_def held_def local_path_def)

lemma calm_os:
  assumes "good (snd s)" "fc_tmpPath (fst s) = tmp" "f (fc_fs E s) = (r, fs')" "fs_ok fs'"
    and "\<And>p. \<not> mine p \<Longrightarrow> node_at fs' p = node_at (fc_fs E s) p"
    and "\<And>p c m t. node_at (fc_fs E s) p = Some (FileNode c m t) \<Longrightarrow> \<exists>m' t'. node_at fs' p = Some (FileNode c m' t')"
  shows "calm X s (snd (fc_os E f s))"
  using local_step [OF assms(1,4,5)] assms(2,3,6)
  by (auto simp: calm_def held_def local_path_def fc_os_def get_set)

lemma calm_below:
  assumes "good (snd s)" "fc_tmpPath (fst s) = tmp" "below h now q s = Some (e, s')"
    and "\<And>n'. h now q (snd s) = Some (e, n') \<Longrightarrow> good n' \<and> (\<forall>p. mine p \<longrightarrow> node_at (e_fs E n') p = node_at (e_fs E (snd s)) p) \<and>
      (\<forall>m. named m \<longrightarrow> m \<notin> X \<longrightarrow> stored n' m = stored (snd s) m) \<and> (\<forall>m. named m \<longrightarrow> ready (snd s) m \<longrightarrow> ready n' m)"
  shows "calm X s s'"
proof -
  obtain c n where s: "s = (c, n)" by (cases s)
  with assms(3) obtain n' where n': "h now q n = Some (e, n')" "s' = (c, n')" by (cases s') auto
  from assms(4) [of n'] n' s names assms(2) show ?thesis by (auto simp: calm_def held_def local_path_def)
qed

lemma calm_close: "good (snd s) \<Longrightarrow> fc_tmpPath (fst s) = tmp \<Longrightarrow> calm X s (snd (fc_os E (os_Close fd) s))"
  by (rule calm_os [where fs' = "snd (os_Close fd (fc_fs E s))" and r = "fst (os_Close fd (fc_fs E s))"])
    (simp_all add: good_fs)

lemma calm_chmod_local:
  assumes "good (snd s)" "fc_tmpPath (fst s) = tmp" "mine p"
  shows "calm X s (snd (fc_os E (os_Chmod p md) s))"
proof -
  obtain e fs' where c: "os_Chmod p md (fc_fs E s) = (e, fs')" by (meson surj_pair)
  from chmod_at [OF good_fs [OF assms(1)] c] assms(3) show ?thesis
    by (intro calm_os [where f = "os_Chmod p md", OF assms(1,2) c]) (auto, metis)
qed

text \<open>Setting a mode and uploading, for a file that the cache holds.\<close>

lemma held_stat: "good (snd s) \<Longrightarrow> held E s name c \<Longrightarrow> \<exists>m t. stat_local E name s = Inr (FileNode c m t)"
  using good_fs [of "snd s"] by (auto simp: held_def os_Stat_def fs_ok_resolve)

lemma calm_chmodInternal:
  assumes g: "good (snd s)" "fc_tmpPath (fst s) = tmp" and n: "named (cm_Name q)" and h: "held E s (cm_Name q) c"
    and r: "chmodInternal E now q s = Some (e, s')"
  shows "calm {} s s'"
proof -
  let ?n = "cm_Name q"
  obtain m t where st: "stat_local E ?n s = Inr (FileNode c m t)" using held_stat [OF g(1) h] by blast
  from r obtain e1 s1 where b: "below (Chmod (e_next E)) now q s = Some (e1, s1)"
    unfolding chmodInternal_def Let_def by (cases "below (Chmod (e_next E)) now q s") auto
  have k: "calm {} s s1"
    by (rule calm_below [OF g b]) (use chmod [OF g(1) n] in auto)
  then have g1: "good (snd s1)" "fc_tmpPath (fst s1) = tmp" using g(2) by (simp_all add: calm_def)
  from chmodInternal_cases [OF r st b] show ?thesis
  proof cases
    case 1
    with k show ?thesis by simp
  next
    case (2 s2 x s3)
    have k2: "calm {} s1 s2" using FileUsed_frame [OF 2(1)] g1 by (intro calm_fst) simp_all
    then have g2: "good (snd s2)" "fc_tmpPath (fst s2) = tmp" using g1(2) by (simp_all add: calm_def)
    have k3: "calm {} s2 s3"
      using calm_chmod_local [OF g2, of "local_path (fst s2) ?n" "{}" "cm_Mode q"] names [OF n] g2(2) 2(2)
      by (simp add: local_path_def)
    have "calm {} s2 s'"
    proof (cases "s' = s2")
      case True
      with calm_fst [OF g2(1), of s2] show ?thesis by simp
    next
      case False
      with 2(3) have "calm {} s3 s'" by (intro calm_fst [OF calm_good [OF k3]]) simp_all
      with k3 show ?thesis by (rule calm_then)
    qed
    with k k2 show ?thesis by (blast intro: calm_then)
  qed
qed

lemma upload_missed_calm:
  assumes g: "good (snd s)" "fc_tmpPath (fst s) = tmp" and n: "named name" and h: "held E s name c"
    and r: "upload_missed_mode E now name md s = Some s'"
  shows "calm {} s s'"
proof (cases "name \<in> set (fc_missedChmodList (fst s))")
  case False
  with r g calm_fst [of s s] show ?thesis by (simp add: upload_missed_mode_def)
next
  case True
  let ?s1 = "((fst s)\<lparr>fc_missedChmodList := removeAll name (fc_missedChmodList (fst s))\<rparr>, snd s)"
  from r True obtain e s2 where c: "chmodInternal E now \<lparr>cm_Name = name, cm_Mode = md\<rparr> ?s1 = Some (e, s2)"
      "snd s' = snd s2 \<and> fc_tmpPath (fst s') = fc_tmpPath (fst s2)"
    by (auto simp: upload_missed_mode_def Let_def split: bind_splits if_splits)
  have k1: "calm {} s ?s1" by (rule calm_fst [OF g(1)]) simp_all
  have "held E ?s1 name c" using h by (simp add: held_def local_path_def)
  from calm_chmodInternal [OF _ _ _ _ c(1), of c] this n g have k2: "calm {} ?s1 s2" by simp
  have k3: "calm {} s2 s'" by (rule calm_fst [OF calm_good [OF k2]]) (use c(2) in simp_all)
  from calm_then [OF calm_then [OF k1 k2] k3] show ?thesis .
qed

lemma calm_held: "calm X s s' \<Longrightarrow> named m \<Longrightarrow> held E s m d \<Longrightarrow> held E s' m d"
  by (simp add: calm_def)

lemma open_upload_held:
  assumes g: "good (snd s)" "fc_tmpPath (fst s) = tmp" and h: "held E s name c"
  obtains fd s1 where "open_upload E now (local_path (fst s) name) md s = ((Inr fd, False), s1)" "calm {} s s1"
    "lf_Content (local_file (fc_fs E s1) fd) = c"
proof -
  let ?lp = "local_path (fst s) name"
  from h obtain m t where nd: "node_at (fc_fs E s) ?lp = Some (FileNode c m t)" by (auto simp: held_def)
  obtain fd fs1 i where o: "os_OpenFile now ?lp no_flags 0 (fc_fs E s) = (Inr fd, fs1)" "fs_ok fs1"
      "\<And>q. node_at fs1 q = node_at (fc_fs E s) q" "map_of (open_fds fs1) fd = Some i" "inodes fs1 i = FileNode c m t"
    using open_read_file [OF good_fs [OF g(1)] nd, of now 0] by blast
  obtain s1 where os: "fc_os E (os_OpenFile now ?lp no_flags 0) s = (Inr fd, s1)" "fc_fs E s1 = fs1"
    using o(1) by (simp add: fc_os_def get_set)
  have "open_upload E now ?lp md s = ((Inr fd, False), s1)"
    unfolding open_upload_def os(1) by simp
  moreover have "calm {} s s1"
    using calm_os [where f = "os_OpenFile now ?lp no_flags 0", OF g o(1,2), of "{}"] os(1) by (simp add: o(3))
  moreover have "lf_Content (local_file (fc_fs E s1) fd) = c"
    using o(4,5) by (simp add: os(2) local_file_def fd_node_def del: map_of_eq_Some_iff)
  ultimately show thesis by (rule that)
qed

lemma uploadFile_stores:
  assumes g: "good (snd s)" "fc_tmpPath (fst s) = tmp" and n: "named name" and h: "held E s name c"
    and r: "uploadFile E now name s = Some (e, s')"
  shows "calm {name} s s' \<and> (e = None \<longrightarrow> stored (snd s') name = Some c)"
proof -
  obtain m t where st: "stat_local E name s = Inr (FileNode c m t)" using held_stat [OF g(1) h] by blast
  obtain fd s1 where o: "open_upload E now (local_path (fst s) name) m s = ((Inr fd, False), s1)" "calm {} s s1"
      "lf_Content (local_file (fc_fs E s1) fd) = c"
    by (rule open_upload_held [OF g h, of now m])
  have g1: "good (snd s1)" "fc_tmpPath (fst s1) = tmp" using o(2) g(2) by (simp_all add: calm_def)
  let ?q = "\<lparr>cp_Name = name, cp_File = local_file (fc_fs E s1) fd, cp_Metadata = None\<rparr>"
  from r st o(1) obtain s2 where b: "below (CopyFromFile (e_next E)) now ?q s1 = Some (e, s2)"
      "(if e = None then upload_missed_mode E now name m (snd (fc_os E (os_Close fd) s2)) else Some (snd (fc_os E (os_Close fd) s2))) = Some s'"
    by (cases "below (CopyFromFile (e_next E)) now ?q s1") (auto simp: uploadFile_def Let_def split: bind_splits if_splits)
  have k2: "calm {name} s1 s2" by (rule calm_below [OF g1 b(1)]) (use copy [OF g1(1), of ?q] n in auto)
  have st2: "e = None \<Longrightarrow> stored (snd s2) name = Some c"
    using b(1) copy [OF g1(1), of ?q now e "snd s2"] n o(3) by (cases s1; cases s2) auto
  let ?s3 = "snd (fc_os E (os_Close fd) s2)"
  have k3: "calm {} s2 ?s3" by (rule calm_close) (use k2 g1(2) in \<open>auto simp: calm_def\<close>)
  have k: "calm {name} s ?s3" using calm_then [OF calm_trans [OF o(2) k2] k3] by simp
  show ?thesis
  proof (cases "e = None")
    case False
    with b(2) k show ?thesis using False by auto
  next
    case True
    with b(2) have u: "upload_missed_mode E now name m ?s3 = Some s'" by simp
    have g3: "good (snd ?s3)" "fc_tmpPath (fst ?s3) = tmp" using k g(2) by (simp_all add: calm_def)
    have k4: "calm {} ?s3 s'" by (rule upload_missed_calm [OF g3 n calm_held [OF k n h] u])
    have "stored (snd s') name = Some c" using k3 k4 n st2 [OF True] by (simp add: calm_def)
    with calm_then [OF k k4] show ?thesis by simp
  qed
qed

text \<open>Flushing and closing a modified file.\<close>

lemma flushFileCloud_durable:
  assumes g: "good (snd s)" "fc_tmpPath (fst s) = tmp" and n: "named (h_Path (handle_at r s))"
    and h: "held E s (h_Path (handle_at r s)) c" and d: "fh_Dirty (handle_at r s)"
    and f: "flushFileCloud E now r True s = Some (None, s')"
  shows "calm {h_Path (handle_at r s)} s s' \<and>
    (stored (snd s') (h_Path (handle_at r s)) = Some c \<or> is_pending (h_Path (handle_at r s)) s')"
proof (cases "fc_windowOpen (fst s)")
  case False
  with f d have "s' = clearHandleDirty r (addPendingOp (h_Path (handle_at r s)) upload_op s)"
    by (simp add: flushFileCloud_def)
  then show ?thesis using calm_fst [OF g(1), of s'] by simp
next
  case True
  let ?p = "h_Path (handle_at r s)"
  obtain e s1 where u: "uploadFile E now ?p s = Some (e, s1)"
  proof (cases "uploadFile E now ?p s")
    case None
    with f d True show ?thesis by (simp add: flushFileCloud_def Let_def)
  next
    case (Some x)
    then show ?thesis by (cases x) (rule that, simp)
  qed
  with f d True have s': "e = None \<and> s' = deletePendingOp ?p (clearHandleDirty r s1) \<or> s' = addPendingOp ?p upload_op s1"
    by (simp add: flushFileCloud_def Let_def split: if_splits)
  note k = uploadFile_stores [OF g n h u]
  have f': "snd s' = snd s1" "fc_tmpPath (fst s') = fc_tmpPath (fst s1)" using s' by auto
  have "calm {} s1 s'" by (rule calm_fst [OF calm_good]) (use k f' in auto)
  with k s' f' show ?thesis by (auto intro: calm_then)
qed

lemma close_durable:
  assumes g: "good (snd s)" "fc_tmpPath (fst s) = tmp" and n: "named (h_Path (handle_at r s))"
    and h: "held E s (h_Path (handle_at r s)) c" and d: "fh_Dirty (handle_at r s)"
    and o: "fh_openFileOptions (handle_at r s) = None" and l: "\<not> fc_lazyWrite (fst s)"
    and f: "fc_ReleaseFile E now r s = Some (None, s')"
  shows "held E s' (h_Path (handle_at r s)) c \<and>
    (stored (snd s') (h_Path (handle_at r s)) = Some c \<or> is_pending (h_Path (handle_at r s)) s')"
proof -
  let ?p = "h_Path (handle_at r s)"
  obtain i s1 where gf: "get_flock ?p s = (i, s1)" by (meson surj_pair)
  have s1: "snd s1 = snd s" "fc_tmpPath (fst s1) = fc_tmpPath (fst s)" "fc_heap (fst s1) = fc_heap (fst s)"
      "fc_lazyWrite (fst s1) = fc_lazyWrite (fst s)"
    using get_flock_frame [of ?p s] keeps_get_flock [OF fc_keeps_refl, of s ?p] gf by (auto simp: fc_keeps_def)
  from f gf l s1 have r: "releaseFileInternal E now r i s1 = Some (None, s')"
    by (auto simp: fc_ReleaseFile_def split: bind_splits if_splits)
  from r o s1 obtain s2 where s2: "fc_FileUsed ?p s1 = Some s2" by (auto simp: releaseFileInternal_def Let_def split: bind_splits)
  note fu = FileUsed_frame [OF s2]
  have hd: "handle_at r s2 = handle_at r s" using fu(3) s1(3) by simp
  obtain s3 fd where s3: "flushFileCloud E now r True s2 = Some (None, s3)"
    and fd: "s' = upd_flock i lm_Dec (snd (fc_os E (os_Close fd) s3))"
  proof (rule closing_flush [OF r _ _ s2])
    show "fh_openFileOptions (handle_at r s1) = None" "h_Path (handle_at r s1) = ?p" "fh_Dirty (handle_at r s2)"
      using o d s1(3) hd by simp_all
  qed (rule that)
  have k0: "calm {} s s2" by (rule calm_fst [OF g(1)]) (use fu(1,2) s1 in simp_all)
  then have g2: "good (snd s2)" "fc_tmpPath (fst s2) = tmp" using g(2) by (simp_all add: calm_def)
  have h2: "held E s2 (h_Path (handle_at r s2)) c" using calm_held [OF k0 n h] hd by simp
  from flushFileCloud_durable [OF g2 _ h2 _ s3(1)] n d hd
  have k1: "calm {?p} s2 s3" "stored (snd s3) ?p = Some c \<or> is_pending ?p s3" by auto
  have k2: "calm {} s3 (snd (fc_os E (os_Close fd) s3))"
    by (rule calm_close) (use k1(1) g2(2) in \<open>auto simp: calm_def\<close>)
  have k3: "calm {} (snd (fc_os E (os_Close fd) s3)) s'"
    by (rule calm_fst [OF calm_good [OF k2]]) (simp_all add: fd)
  have k23: "calm {} s3 s'" by (rule calm_then [OF k2 k3])
  have "held E s' ?p c" using calm_held [OF k23 n calm_held [OF k1(1) n calm_held [OF k0 n h]]] .
  moreover have "stored (snd s') ?p = stored (snd s3) ?p" using k23 n by (simp add: calm_def)
  moreover have "is_pending ?p s' = is_pending ?p s3" by (simp add: fd)
  ultimately show ?thesis using k1(2) by simp
qed

end

text \<open>A storage that can be reached and takes every object it is ready for.\<close>

locale reliable_store = object_store +
  assumes connected: "good n \<Longrightarrow> CloudConnected (e_next E) now () n = Some (True, n)"
    and accepts: "good n \<Longrightarrow> named (cp_Name q) \<Longrightarrow> ready n (cp_Name q) \<Longrightarrow>
      \<exists>n'. CopyFromFile (e_next E) now q n = Some (None, n')"

context reliable_store
begin

lemma uploadFile_succeeds:
  assumes g: "good (snd s)" "fc_tmpPath (fst s) = tmp" and n: "named name" and h: "held E s name c"
    and y: "ready (snd s) name" and m: "name \<notin> set (fc_missedChmodList (fst s))"
  shows "\<exists>s'. uploadFile E now name s = Some (None, s') \<and> fst s' = fst s"
proof -
  obtain md t where st: "stat_local E name s = Inr (FileNode c md t)" using held_stat [OF g(1) h] by blast
  obtain fd s1 where o: "open_upload E now (local_path (fst s) name) md s = ((Inr fd, False), s1)" "calm {} s s1"
    by (rule open_upload_held [OF g h, of now md])
  have f1: "fst s1 = fst s"
  proof -
    have "fst (snd (open_upload E now (local_path (fst s) name) md s)) = fst s"
      by (simp add: open_upload_def case_prod_unfold split: option.split)
    then show ?thesis using o(1) by simp
  qed
  let ?q = "\<lparr>cp_Name = name, cp_File = local_file (fc_fs E s1) fd, cp_Metadata = None\<rparr>"
  from o(2) y n have "good (snd s1)" "ready (snd s1) name" by (simp_all add: calm_def)
  with accepts [of "snd s1" ?q now] n obtain n' where c: "CopyFromFile (e_next E) now ?q (snd s1) = Some (None, n')" by auto
  then have "below (CopyFromFile (e_next E)) now ?q s1 = Some (None, (fst s1, n'))" by (cases s1) simp
  with st o(1) f1 m show ?thesis by (simp add: uploadFile_def Let_def upload_missed_mode_def)
qed

lemma updateObject_uploads:
  assumes g: "good (snd s)" "fc_tmpPath (fst s) = tmp" and n: "named name" and h: "held E s name c"
    and y: "ready (snd s) name" and m: "fc_missedChmodList (fst s) = []" and p: "is_pending name s"
  shows "\<exists>s'. updateObject E now name fl s = Some (None, s') \<and> calm {name} s s' \<and> stored (snd s') name = Some c \<and>
    fc_pendingOps (fst s') = map_remove name (fc_pendingOps (fst s)) \<and> fc_windowOpen (fst s') = fc_windowOpen (fst s) \<and>
    fc_missedChmodList (fst s') = []"
proof -
  let ?s = "snd (get_flock name s)"
  have k0: "calm {} s ?s" by (rule calm_fst [OF g(1)]) simp_all
  then have g1: "good (snd ?s)" "fc_tmpPath (fst ?s) = tmp" using g(2) by (simp_all add: calm_def)
  have h1: "held E ?s name c" by (rule calm_held [OF k0 n h])
  obtain md t where st: "stat_local E name ?s = Inr (FileNode c md t)" using held_stat [OF g1(1) h1] by blast
  obtain s1 where u: "uploadFile E now name ?s = Some (None, s1)" "fst s1 = fst ?s"
    using uploadFile_succeeds [OF g1 n h1, of now] y m by auto
  note k = uploadFile_stores [OF g1 n h1 u(1)]
  let ?s' = "deletePendingOp name s1"
  have "calm {} s1 ?s'" by (rule calm_fst [OF calm_good]) (use k in auto)
  with k k0 have k2: "calm {name} s ?s'" using calm_then [of "{name}" ?s s1 ?s'] calm_trans [of "{}" s ?s "{name}" ?s'] by simp
  have "updateObject E now name fl s = Some (None, ?s')"
    using st u(1) p by (auto simp: updateObject_def Let_def push_object_def)
  with k2 k u(2) m show ?thesis by simp
qed

lemma service_ops_drains:
  assumes "good (snd s)" "fc_tmpPath (fst s) = tmp" "fc_windowOpen (fst s)" "fc_missedChmodList (fst s) = []"
    and "distinct names" "fst ` set (fc_pendingOps (fst s)) = set names"
    and "\<And>m. m \<in> set names \<Longrightarrow> named m \<and> held E s m (c m) \<and> ready (snd s) m"
  shows "\<exists>s'. service_ops E now names s = Some s' \<and> fc_pendingOps (fst s') = [] \<and> calm (set names) s s' \<and>
    (\<forall>m \<in> set names. stored (snd s') m = Some (c m))"
  using assms
proof (induction names arbitrary: s)
  case Nil
  then show ?case using calm_fst [of s s] by simp
next
  case (Cons name names)
  have pend: "is_pending name s" using Cons.prems(6) by (auto simp: map_of_None_keys)
  then obtain fl where fl: "map_of (fc_pendingOps (fst s)) name = Some fl" by (metis option.exhaust)
  from Cons.prems(7) [of name] have a: "named name" "held E s name (c name)" "ready (snd s) name" by simp_all
  from updateObject_uploads [OF Cons.prems(1,2) a Cons.prems(4) pend, of now fl] obtain s1 where
    u: "updateObject E now name fl s = Some (None, s1)" "calm {name} s s1" "stored (snd s1) name = Some (c name)"
      "fc_pendingOps (fst s1) = map_remove name (fc_pendingOps (fst s))" "fc_windowOpen (fst s1)"
      "fc_missedChmodList (fst s1) = []" using Cons.prems(3) by auto
  have "\<exists>s'. service_ops E now names s1 = Some s' \<and> fc_pendingOps (fst s') = [] \<and> calm (set names) s1 s' \<and>
      (\<forall>m \<in> set names. stored (snd s') m = Some (c m))"
  proof (rule Cons.IH)
    show "good (snd s1)" "fc_tmpPath (fst s1) = tmp" using u(2) Cons.prems(2) by (simp_all add: calm_def)
    show "fst ` set (fc_pendingOps (fst s1)) = set names" using u(4) Cons.prems(5,6) by auto
    show "distinct names" using Cons.prems(5) by simp
    fix m assume "m \<in> set names"
    with Cons.prems(7) [of m] u(2) show "named m \<and> held E s1 m (c m) \<and> ready (snd s1) m" by (simp add: calm_def)
  qed (use u in simp_all)
  then obtain s' where s': "service_ops E now names s1 = Some s'" "fc_pendingOps (fst s') = []" "calm (set names) s1 s'"
      "\<forall>m \<in> set names. stored (snd s') m = Some (c m)" by blast
  have "service_ops E now (name # names) s = Some s'" using fl u(1) Cons.prems(3) s'(1) by (simp add: isOffline_def)
  moreover have "calm (set (name # names)) s s'" using calm_trans [OF u(2) s'(3)] by simp
  moreover have "stored (snd s') name = Some (c name)" using s'(3) u(3) a(1) Cons.prems(5) by (simp add: calm_def)
  ultimately show ?case using s'(2,4) by auto
qed

lemma servicePendingOps_drains:
  assumes "good (snd s)" "fc_tmpPath (fst s) = tmp" "fc_windowOpen (fst s)" "fc_missedChmodList (fst s) = []"
    and "distinct (map fst (fc_pendingOps (fst s)))"
    and "\<And>m. is_pending m s \<Longrightarrow> named m \<and> held E s m (c m) \<and> ready (snd s) m"
  shows "\<exists>s'. servicePendingOps E now s = Some s' \<and> fc_pendingOps (fst s') = [] \<and>
    (\<forall>m. is_pending m s \<longrightarrow> stored (snd s') m = Some (c m))"
proof -
  have "below (CloudConnected (e_next E)) now () s = Some (True, s)" using connected [OF assms(1)] by (cases s) simp
  moreover have "\<exists>s'. service_ops E now (map fst (fc_pendingOps (fst s))) s = Some s' \<and> fc_pendingOps (fst s') = [] \<and>
      calm (set (map fst (fc_pendingOps (fst s)))) s s' \<and> (\<forall>m \<in> set (map fst (fc_pendingOps (fst s))). stored (snd s') m = Some (c m))"
    by (rule service_ops_drains [OF assms(1-5)]) (simp, rule assms(6), simp add: map_of_None_keys)
  ultimately show ?thesis using assms(3) by (auto simp: servicePendingOps_def map_of_None_keys)
qed

end

section \<open>The loopback storage meets the contract\<close>

definition lb_good :: "string \<Rightarrow> loopback \<Rightarrow> bool" where
  "lb_good sdir n \<longleftrightarrow> fs_ok (lb_fs n) \<and> lb_path n = sdir"

definition lb_stored :: "string \<Rightarrow> loopback \<Rightarrow> string \<Rightarrow> string option" where
  "lb_stored sdir n name =
     (case node_at (lb_fs n) (path_join [sdir, name]) of Some (FileNode c m t) \<Rightarrow> Some c | _ \<Rightarrow> None)"

definition lb_ready :: "string \<Rightarrow> loopback \<Rightarrow> string \<Rightarrow> bool" where
  "lb_ready sdir n name \<longleftrightarrow> parent_is_dir (lb_fs n) (path_join [sdir, name]) \<and>
     (case node_at (lb_fs n) (path_join [sdir, name]) of Some nd \<Rightarrow> \<not> is_dir_node nd | None \<Rightarrow> True)"

definition in_tmp :: "string \<Rightarrow> string \<Rightarrow> bool" where
  "in_tmp tmp p \<longleftrightarrow> prefix (tmp @ [slash]) p"

definition lb_named :: "string \<Rightarrow> string \<Rightarrow> string \<Rightarrow> bool" where
  "lb_named sdir tmp name \<longleftrightarrow> clean_in tmp name \<and> clean_in sdir name \<and> \<not> in_tmp tmp (sdir @ slash # name) \<and>
     \<not> in_tmp tmp (path_dir (sdir @ slash # name))"

lemma lb_named_path: "lb_named sdir tmp name \<Longrightarrow> path_join [sdir, name] = sdir @ slash # name"
  by (simp add: lb_named_def clean_in_def)

lemma write_at_empty: "write_at [] 0 data = data"
  by (simp add: write_at_def)

lemma lb_CopyFromFile_effect:
  assumes g: "lb_good sdir n" and c: "lb_CopyFromFile now q n = Some (e, n')"
  defines "p \<equiv> path_join [sdir, cp_Name q]"
  shows "lb_good sdir n' \<and> (\<forall>x. x \<noteq> p \<longrightarrow> node_at (lb_fs n') x = node_at (lb_fs n) x) \<and>
    (e = None \<longrightarrow> (\<exists>m t. node_at (lb_fs n') p = Some (FileNode (lf_Content (cp_File q)) m t))) \<and>
    (\<forall>m t. node_at (lb_fs n) p = Some (DirNode m t) \<longrightarrow> lb_fs n' = lb_fs n) \<and>
    (lb_ready sdir n (cp_Name q) \<longrightarrow> e = None)"
proof -
  have ok: "fs_ok (lb_fs n)" "lb_path n = sdir" using g by (simp_all add: lb_good_def)
  obtain r fs1 where o: "os_OpenFile now p create_trunc 0x1B6 (lb_fs n) = (r, fs1)" by (meson surj_pair)
  note op = open_replace [OF ok(1) o]
  have p: "lb_full n (cp_Name q) = p" using ok(2) by (simp add: lb_full_def p_def)
  have dir: "r = Inl (path_err EISDIR)" if "node_at (lb_fs n) p = Some (DirNode m t)" for m t
    using that o by (auto simp: os_OpenFile_def fs_ok_resolve [OF ok(1)] node_at_def)
  have rdy: "\<exists>fd. r = Inr fd" if "lb_ready sdir n (cp_Name q)"
  proof (cases "map_of (dents (lb_fs n)) p")
    case None
    with that o show ?thesis by (auto simp: lb_ready_def p_def os_OpenFile_def fs_ok_resolve [OF ok(1)] alloc_fd_def Let_def)
  next
    case (Some i)
    then have nd: "node_at (lb_fs n) p = Some (inodes (lb_fs n) i)" by (simp add: node_at_def)
    with ok(1) that obtain c m t where "inodes (lb_fs n) i = FileNode c m t"
      by (cases "inodes (lb_fs n) i") (auto simp: fs_ok_def lb_ready_def p_def)
    with Some o show ?thesis by (auto simp: os_OpenFile_def fs_ok_resolve [OF ok(1)] alloc_fd_def Let_def)
  qed
  show ?thesis
  proof (cases r)
    case (Inl x)
    with c o p have "n' = n\<lparr>lb_fs := fs1\<rparr>" "e = Some x" by (simp_all add: lb_CopyFromFile_def)
    with op Inl ok rdy show ?thesis by (auto simp: lb_good_def)
  next
    case (Inr fd)
    with op obtain i m t where i: "map_of (open_fds fs1) fd = Some i" "map_of (dents fs1) p = Some i" "inodes fs1 i = FileNode [] m t"
      and fs1: "fs_ok fs1" "\<forall>q. q \<noteq> p \<longrightarrow> node_at fs1 q = node_at (lb_fs n) q" by blast
    define t' where "t' = (if lf_Content (cp_File q) = [] then t else now)"
    define fs2 where "fs2 = set_inode i (FileNode (lf_Content (cp_File q)) m t') fs1"
    have w: "os_WriteAt now fd (lf_Content (cp_File q)) 0 fs1 = ((int (length (lf_Content (cp_File q))), None), fs2)"
      using i by (simp add: os_WriteAt_def write_at_empty fs2_def t'_def del: map_of_eq_Some_iff)
    have inv: "fs_inv fs1" using fs1(1) by (simp add: fs_ok_def)
    note n2 = node_at_set_inode [OF inv i(2), of "FileNode (lf_Content (cp_File q)) m t'"]
    have ok2: "fs_ok fs2" using fs1(1) n2 by (simp add: fs_ok_def fs2_def)
    have "open_fds fs2 = open_fds fs1" by (simp add: fs2_def set_inode_def)
    then have cl: "fst (os_Close fd fs2) = None" using i(1) by (simp add: os_Close_def del: map_of_eq_Some_iff)
    have "e = None" "n' = n\<lparr>lb_fs := snd (os_Close fd fs2)\<rparr>"
      using c o p Inr w cl by (auto simp: lb_CopyFromFile_def lb_os_def split: prod.splits)
    with ok ok2 n2 fs1(2) dir Inr show ?thesis by (auto simp: lb_good_def fs2_def)
  qed
qed

lemma lb_CopyFromFile_returns: "\<exists>e n'. lb_CopyFromFile now q n = Some (e, n')"
  by (auto simp: lb_CopyFromFile_def lb_os_def split: prod.split sum.split option.split)

lemma lb_Chmod_effect:
  assumes g: "lb_good sdir n" and c: "lb_Chmod now q n = Some (e, n')"
  defines "p \<equiv> path_join [sdir, cm_Name q]"
  shows "lb_good sdir n' \<and> (\<forall>x. x \<noteq> p \<longrightarrow> node_at (lb_fs n') x = node_at (lb_fs n) x) \<and>
    (\<forall>c m t. node_at (lb_fs n) p = Some (FileNode c m t) \<longrightarrow> (\<exists>m'. node_at (lb_fs n') p = Some (FileNode c m' t))) \<and>
    (\<forall>m t. node_at (lb_fs n) p = Some (DirNode m t) \<longrightarrow> (\<exists>m'. node_at (lb_fs n') p = Some (DirNode m' t))) \<and>
    (node_at (lb_fs n) p = None \<longrightarrow> node_at (lb_fs n') p = None)"
proof -
  have ok: "fs_ok (lb_fs n)" "lb_path n = sdir" using g by (simp_all add: lb_good_def)
  obtain fs' where o: "os_Chmod p (cm_Mode q) (lb_fs n) = (e, fs')" "n' = n\<lparr>lb_fs := fs'\<rparr>"
    using c ok(2) by (auto simp: lb_Chmod_def lb_os_def lb_full_def p_def split: prod.splits)
  have "node_at (lb_fs n) p = None \<Longrightarrow> fs' = lb_fs n"
    using o(1) by (auto simp: os_Chmod_def fs_ok_resolve [OF ok(1)] node_at_def)
  with chmod_at [OF ok(1) o(1)] ok(2) o(2) show ?thesis by (auto simp: lb_good_def)
qed

lemma lb_other_path: "lb_named sdir tmp a \<Longrightarrow> lb_named sdir tmp b \<Longrightarrow> a \<noteq> b \<Longrightarrow> path_join [sdir, a] \<noteq> path_join [sdir, b]"
  by (simp add: lb_named_path)

lemma lb_outside: "lb_named sdir tmp a \<Longrightarrow> in_tmp tmp p \<Longrightarrow> p \<noteq> path_join [sdir, a]"
  by (auto simp: lb_named_path lb_named_def)

lemma lb_local_step:
  assumes "lb_good sdir n" "fs_ok fs" "\<And>p. \<not> in_tmp tmp p \<Longrightarrow> node_at fs p = node_at (lb_fs n) p"
    "lb_named sdir tmp name"
  shows "lb_stored sdir (n\<lparr>lb_fs := fs\<rparr>) name = lb_stored sdir n name \<and> lb_ready sdir (n\<lparr>lb_fs := fs\<rparr>) name = lb_ready sdir n name"
proof -
  from assms(4) have "\<not> in_tmp tmp (path_join [sdir, name])" "\<not> in_tmp tmp (path_dir (path_join [sdir, name]))"
    unfolding lb_named_path [OF assms(4)] by (simp_all add: lb_named_def)
  then have "node_at fs (path_join [sdir, name]) = node_at (lb_fs n) (path_join [sdir, name])"
    "node_at fs (path_dir (path_join [sdir, name])) = node_at (lb_fs n) (path_dir (path_join [sdir, name]))"
    using assms(3) by blast+
  then show ?thesis by (simp add: lb_stored_def lb_ready_def parent_is_dir_def)
qed

text \<open>Objects that the two sides do not agree on the name of are no concern of the contract.\<close>

definition lb_object :: "string \<Rightarrow> string \<Rightarrow> loopback \<Rightarrow> string \<Rightarrow> string option" where
  "lb_object sdir tmp n name = (if lb_named sdir tmp name then lb_stored sdir n name else None)"

definition lb_takes :: "string \<Rightarrow> string \<Rightarrow> loopback \<Rightarrow> string \<Rightarrow> bool" where
  "lb_takes sdir tmp n name \<longleftrightarrow> lb_named sdir tmp name \<and> lb_ready sdir n name"

lemma lb_copy_ready:
  assumes g: "lb_good sdir n" and n: "lb_named sdir tmp (cp_Name q)" and c: "lb_CopyFromFile now q n = Some (e, n')"
    and m: "lb_named sdir tmp m" "lb_ready sdir n m"
  shows "lb_ready sdir n' m"
proof -
  let ?p = "path_join [sdir, cp_Name q]" and ?m = "path_join [sdir, m]"
  note ef = lb_CopyFromFile_effect [OF g c]
  from m(2) obtain nd where d: "node_at (lb_fs n) (path_dir ?m) = Some nd" "is_dir_node nd"
    by (auto simp: lb_ready_def parent_is_dir_def split: option.splits)
  then obtain md t where nd: "nd = DirNode md t" by (cases nd) auto
  show ?thesis
  proof (cases "path_dir ?m = ?p")
    case True
    with d nd ef have "lb_fs n' = lb_fs n" by auto
    with m(2) show ?thesis by (simp add: lb_ready_def)
  next
    case False
    with d ef have d': "node_at (lb_fs n') (path_dir ?m) = Some nd" by auto
    show ?thesis
    proof (cases "m = cp_Name q")
      case True
      with m(2) ef obtain md' t' where "node_at (lb_fs n') ?m = Some (FileNode (lf_Content (cp_File q)) md' t')" by auto
      with d' d(2) show ?thesis by (simp add: lb_ready_def parent_is_dir_def)
    next
      case False
      with lb_other_path [OF m(1) n False] ef d' d m(2) show ?thesis by (simp add: lb_ready_def parent_is_dir_def)
    qed
  qed
qed

lemma lb_chmod_same:
  assumes g: "lb_good sdir n" and c: "lb_Chmod now q n = Some (e, n')"
  shows "lb_stored sdir n' m = lb_stored sdir n m \<and> (lb_ready sdir n m \<longrightarrow> lb_ready sdir n' m)"
proof -
  let ?p = "path_join [sdir, cm_Name q]"
  note ef = lb_Chmod_effect [OF g c]
  have nl: "\<forall>l t. node_at (lb_fs n) x \<noteq> Some (LinkNode l t)" for x using g by (simp add: lb_good_def fs_ok_def)
  have same: "(case node_at (lb_fs n') x of Some (FileNode c m t) \<Rightarrow> Some c | _ \<Rightarrow> None) =
      (case node_at (lb_fs n) x of Some (FileNode c m t) \<Rightarrow> Some c | _ \<Rightarrow> None) \<and>
      (case node_at (lb_fs n') x of Some nd \<Rightarrow> is_dir_node nd | None \<Rightarrow> False) =
      (case node_at (lb_fs n) x of Some nd \<Rightarrow> is_dir_node nd | None \<Rightarrow> False)" for x
  proof (cases "x = ?p")
    case True
    show ?thesis
    proof (cases "node_at (lb_fs n) ?p")
      case (Some nd)
      with ef nl [of ?p] True show ?thesis by (cases nd) auto
    qed (use ef True in simp)
  qed (use ef in simp)
  have not_dir: "(case nx of Some nd \<Rightarrow> \<not> is_dir_node nd | None \<Rightarrow> True) = (\<not> (case nx of Some nd \<Rightarrow> is_dir_node nd | None \<Rightarrow> False))"
    for nx by (simp split: option.split)
  show ?thesis unfolding lb_stored_def lb_ready_def parent_is_dir_def not_dir using same by auto
qed

interpretation lb_below: reliable_store "lb_env md5 du free" "lb_good sdir" "lb_object sdir tmp" "lb_takes sdir tmp" "in_tmp tmp"
  "lb_named sdir tmp" tmp for md5 du free sdir tmp
proof
  fix n fs assume g: "lb_good sdir n" "fs_ok fs" "\<And>p. \<not> in_tmp tmp p \<Longrightarrow> node_at fs p = node_at (e_fs (lb_env md5 du free) n) p"
  show "lb_good sdir (e_set_fs (lb_env md5 du free) fs n) \<and>
      lb_object sdir tmp (e_set_fs (lb_env md5 du free) fs n) = lb_object sdir tmp n \<and>
      lb_takes sdir tmp (e_set_fs (lb_env md5 du free) fs n) = lb_takes sdir tmp n"
    using g lb_local_step [OF g(1,2)] by (auto simp: lb_good_def lb_object_def lb_takes_def fun_eq_iff)
next
  fix n and q :: CopyFromFileOptions and now e n'
  assume g: "lb_good sdir n" "lb_named sdir tmp (cp_Name q)" and "CopyFromFile (e_next (lb_env md5 du free)) now q n = Some (e, n')"
  then have c: "lb_CopyFromFile now q n = Some (e, n')" by simp
  note ef = lb_CopyFromFile_effect [OF g(1) c]
  have "lb_stored sdir n' m = lb_stored sdir n m" if "lb_named sdir tmp m" "m \<noteq> cp_Name q" for m
    using ef lb_other_path [OF that(1) g(2) that(2)] by (simp add: lb_stored_def)
  moreover have "e = None \<Longrightarrow> lb_stored sdir n' (cp_Name q) = Some (lf_Content (cp_File q))"
    using ef by (auto simp: lb_stored_def)
  ultimately show "lb_good sdir n' \<and>
      (\<forall>p. in_tmp tmp p \<longrightarrow> node_at (e_fs (lb_env md5 du free) n') p = node_at (e_fs (lb_env md5 du free) n) p) \<and>
      (\<forall>m. lb_named sdir tmp m \<longrightarrow> m \<noteq> cp_Name q \<longrightarrow> lb_object sdir tmp n' m = lb_object sdir tmp n m) \<and>
      (\<forall>m. lb_named sdir tmp m \<longrightarrow> lb_takes sdir tmp n m \<longrightarrow> lb_takes sdir tmp n' m) \<and>
      (e = None \<longrightarrow> lb_object sdir tmp n' (cp_Name q) = Some (lf_Content (cp_File q)))"
    using ef lb_outside [OF g(2)] g(2) lb_copy_ready [OF g c] by (simp add: lb_object_def lb_takes_def)
next
  fix n and r :: ChmodOptions and now e n'
  assume g: "lb_good sdir n" "lb_named sdir tmp (cm_Name r)" and "Chmod (e_next (lb_env md5 du free)) now r n = Some (e, n')"
  then have c: "lb_Chmod now r n = Some (e, n')" by simp
  show "lb_good sdir n' \<and>
      (\<forall>p. in_tmp tmp p \<longrightarrow> node_at (e_fs (lb_env md5 du free) n') p = node_at (e_fs (lb_env md5 du free) n) p) \<and>
      (\<forall>m. lb_named sdir tmp m \<longrightarrow> lb_object sdir tmp n' m = lb_object sdir tmp n m) \<and>
      (\<forall>m. lb_named sdir tmp m \<longrightarrow> lb_takes sdir tmp n m \<longrightarrow> lb_takes sdir tmp n' m)"
    using lb_Chmod_effect [OF g(1) c] lb_outside [OF g(2)] lb_chmod_same [OF g(1) c]
    by (simp add: lb_object_def lb_takes_def)
next
  fix n and q :: CopyFromFileOptions and now assume g: "lb_good sdir n" and r: "lb_takes sdir tmp n (cp_Name q)"
  have "\<exists>e n'. lb_CopyFromFile now q n = Some (e, n')" by (rule lb_CopyFromFile_returns)
  then obtain e n' where c: "lb_CopyFromFile now q n = Some (e, n')" by blast
  with lb_CopyFromFile_effect [OF g c] r
  show "\<exists>n'. CopyFromFile (e_next (lb_env md5 du free)) now q n = Some (None, n')" by (auto simp: lb_takes_def)
qed (simp_all add: lb_good_def lb_named_def clean_in_def in_tmp_def)

end
