(* ===== verification/File_Cache_Results.thy ===== *)
theory File_Cache_Results
  imports File_Cache_Storage
begin

text \<open>
  What the file cache's operations give their callers: the data that was written, within the limit of the
  disk, durable once the file is closed or a pass of the upload thread is over; and two checks that do not
  do what they are for.
\<close>

section \<open>The comparison of sorted names\<close>

lemma lex_le_refl [simp]: "lex_le xs xs"
  by (induction xs) auto

lemma lex_le_trans: "lex_le xs ys \<Longrightarrow> lex_le ys zs \<Longrightarrow> lex_le xs zs"
proof (induction xs ys arbitrary: zs rule: lex_le.induct)
  case (3 x xs y ys)
  then show ?case by (cases zs) auto
qed simp_all

lemma lex_le_antisym: "lex_le xs ys \<Longrightarrow> lex_le ys xs \<Longrightarrow> xs = ys"
proof (induction xs ys rule: lex_le.induct)
  case (1 ys)
  then show ?case by (cases ys) auto
qed auto

lemma lex_le_total: "lex_le xs ys \<or> lex_le ys xs"
  by (induction xs ys rule: lex_le.induct) auto

lemma string_code_inj: "string_code a = string_code b \<longleftrightarrow> a = b"
  unfolding string_code_def by (auto intro: map_injective simp: inj_on_def)

lemma str_less_total: "\<not> str_less a b \<Longrightarrow> \<not> str_less b a \<Longrightarrow> a = b"
  using lex_le_total by (auto simp: str_less_def)

lemma str_less_asym: "str_less a b \<Longrightarrow> \<not> str_less b a"
  using lex_le_antisym string_code_inj by (auto simp: str_less_def)

lemma str_less_trans: "str_less a b \<Longrightarrow> str_less b c \<Longrightarrow> str_less a c"
  unfolding str_less_def using lex_le_trans lex_le_antisym string_code_inj by metis

lemma str_less_irrefl [simp]: "\<not> str_less a a"
  by (simp add: str_less_def)

text \<open>
  C34. The check that every object of a directory is cached, before the directory may be renamed offline, only
  looks at names up to the last cached one: an object with a later name passes unseen, and with nothing
  cached every directory passes.
\<close>

theorem isSubset_stops_early:
  assumes "sorted_wrt str_less sub" "sorted_wrt str_less super"
  shows "isSubset sub super \<longleftrightarrow> (\<forall>a \<in> set sub. a \<in> set super \<or> (\<forall>b \<in> set super. str_less b a))"
  using assms
proof (induction sub super rule: isSubset.induct)
  case (1 a as b bs)
  have ab: "\<forall>x \<in> set as. str_less a x" "\<forall>y \<in> set bs. str_less b y" using 1(3,4) by simp_all
  consider (lt) "str_less a b" | (gt) "str_less b a" | (eq) "a = b" using str_less_total by blast
  then show ?case
  proof cases
    case lt
    then have "\<forall>y \<in> set bs. str_less a y" using ab(2) str_less_trans by blast
    with lt show ?thesis using str_less_asym by fastforce
  next
    case gt
    then have "\<forall>x \<in> set (a # as). str_less b x" using ab(1) str_less_trans by auto
    with gt str_less_asym 1(1) 1(3,4) show ?thesis by fastforce
  next
    case eq
    with ab(1) have b: "\<forall>x \<in> set as. x \<noteq> b \<and> str_less b x" by auto
    have "isSubset (a # as) (b # bs) = isSubset as bs" using eq by simp
    also have "\<dots> \<longleftrightarrow> (\<forall>x \<in> set as. x \<in> set bs \<or> (\<forall>y \<in> set bs. str_less y x))"
      using 1(2-4) eq by simp
    finally show ?thesis using b eq by auto
  qed
qed auto

lemma isSubset_stops_early_witness:
  "isSubset [''b'', ''z''] [''b''] \<and> \<not> isSubset [''a''] [''b'']"
proof -
  have s: "sorted_wrt str_less [''b'', ''z'']" "str_less ''b'' ''z''" "\<not> str_less ''b'' ''a''" by code_simp+
  with isSubset_stops_early [of "[''b'', ''z'']" "[''b'']"] isSubset_stops_early [of "[''a'']" "[''b'']"]
  show ?thesis by simp
qed

section \<open>Reads and writes\<close>

lemma CacheValid_returns: "lp_head p \<noteq> None \<Longrightarrow> \<exists>p'. CacheValid name p = Some p'"
  by (auto simp: CacheValid_def cacheValidate_def setHead_def extractNode_def upd_node_def Let_def split: option.split)

lemma FileUsed_returns: "lp_head (fc_policy (fst s)) \<noteq> None \<Longrightarrow> \<exists>s'. fc_FileUsed name s = Some s'"
  using CacheValid_returns [of "fc_policy (fst s)" "local_path (fst s) name"]
  by (cases s) (auto simp: fc_FileUsed_def fc_CacheValid_def)

lemma upd_handle_frame [simp]:
  "snd (upd_handle r f s) = snd s" "fc_policy (fst (upd_handle r f s)) = fc_policy (fst s)"
  "fc_tmpPath (fst (upd_handle r f s)) = fc_tmpPath (fst s)" "handle_at r (upd_handle r f s) = f (handle_at r s)"
  by (cases s; simp add: upd_handle_def)+

text \<open>What stays of a handle: how it is open, on what, and whether it appends.\<close>

definition same_open :: "FcHandle \<Rightarrow> FcHandle \<Rightarrow> bool" where
  "same_open h h' \<longleftrightarrow> h_Path h' = h_Path h \<and> h_FObj h' = h_FObj h \<and> fh_openFileOptions h' = fh_openFileOptions h \<and>
     IsSet (h_Flags h') HandleOpenedAppend = IsSet (h_Flags h) HandleOpenedAppend"

lemma same_open_refl [simp]: "same_open h h"
  by (simp add: same_open_def)

lemma count_operation_frame:
  assumes "count_operation r s = Some s'"
  shows "snd s' = snd s \<and> fc_tmpPath (fst s') = fc_tmpPath (fst s) \<and> same_open (handle_at r s) (handle_at r s')"
proof -
  let ?s1 = "upd_handle r (\<lambda>h. h\<lparr>h_OptCnt := wrap64 (h_OptCnt h + 1)\<rparr>) s"
  from assms have "s' = ?s1 \<or> (\<exists>p. fc_FileUsed p ?s1 = Some s')" by (auto simp: count_operation_def Let_def split: if_splits)
  then have "snd s' = snd ?s1 \<and> fc_tmpPath (fst s') = fc_tmpPath (fst ?s1) \<and> fc_heap (fst s') = fc_heap (fst ?s1)"
    using FileUsed_frame(1-3) by blast
  then show ?thesis by (simp add: same_open_def)
qed

lemma count_operation_returns:
  "lp_head (fc_policy (fst s)) \<noteq> None \<Longrightarrow> \<exists>s'. count_operation r s = Some s'"
  using FileUsed_returns [of "upd_handle r (\<lambda>h. h\<lparr>h_OptCnt := wrap64 (h_OptCnt h + 1)\<rparr>) s"]
  by (simp add: count_operation_def Let_def)

lemma setHandleDirty_frame [simp]:
  "snd (setHandleDirty r s) = snd s" "fc_tmpPath (fst (setHandleDirty r s)) = fc_tmpPath (fst s)"
  "same_open (handle_at r s) (handle_at r (setHandleDirty r s))"
  by (simp_all add: setHandleDirty_def Let_def same_open_def handle_flag_def case_prod_unfold HandleFlagDirty_def HandleOpenedAppend_def)

lemma post_any: "(\<And>r s. post (f (r, s)) Q) \<Longrightarrow> post (Option.bind m f) Q"
  by (rule post_bind [where P = "\<lambda>_ _. True"]) (simp_all add: post_def)

lemma open_local_opened: "open_local E now p r i oo s = (None, s1) \<Longrightarrow> fh_openFileOptions (handle_at r s1) = None"
  by (auto simp: open_local_def Let_def split: sum.splits prod.splits)

lemma openFileInternal_opened:
  "post (openFileInternal E now r i s) (\<lambda>e s'. e = None \<longrightarrow> fh_openFileOptions (handle_at r s') = None)"
  unfolding openFileInternal_def Let_def
  by (intro post_cases post_splits post_any) (auto intro!: post_any post_if post_option post_Some_any post_splits post_Some
      simp: open_local_opened prod_eq_iff)

lemma completeOpen_opened:
  assumes "completeOpen E now r name s = Some (None, s')" shows "fh_openFileOptions (handle_at r s') = None"
proof (cases "fh_openFileOptions (handle_at r s) = None")
  case False
  obtain i s1 where "get_flock name s = (i, s1)" by (meson surj_pair)
  with False assms have "openFileInternal E now r i s1 = Some (None, s')" by (auto simp: completeOpen_def)
  with openFileInternal_opened [of E now r i s1] show ?thesis unfolding post_def by blast
qed (use assms in \<open>simp add: completeOpen_def\<close>)

lemma completeOpen_done [simp]: "fh_openFileOptions (handle_at r s) = None \<Longrightarrow> completeOpen E now r name s = Some (None, s)"
  by (simp add: completeOpen_def)

text \<open>Bytes read back from the range just written.\<close>

lemma read_written: "take (length data) (drop off (write_at c off data)) = data"
proof (cases "data = []")
  case False
  have "length (take off (c @ replicate (off - length c) (CHR 0x00))) = off" by simp
  then show ?thesis using False by (simp add: write_at_def)
qed simp

lemma WriteFile_done:
  assumes w: "fc_WriteFile E now r data off s = Some ((n, None), s')"
    and a: "\<not> IsSet (h_Flags (handle_at r s')) HandleOpenedAppend"
  obtains s1 s2 s3 fd where "completeOpen E now r (h_Path (handle_at r s)) s = Some (None, s1)"
    "\<not> exceedsHardLimit E (wrap64 (off + int (length data))) (h_Path (handle_at r s1)) s1"
    "snd s2 = snd s1" "fc_tmpPath (fst s2) = fc_tmpPath (fst s1)" "fc_os E (os_WriteAt now fd data off) s2 = ((n, None), s3)"
    "s' = setHandleDirty r s3" "h_FObj (handle_at r s1) = Some fd" "same_open (handle_at r s1) (handle_at r s')"
proof -
  obtain e s1 where c: "completeOpen E now r (h_Path (handle_at r s)) s = Some (e, s1)"
    using w by (cases "completeOpen E now r (h_Path (handle_at r s)) s") (auto simp: fc_WriteFile_def)
  with w obtain fd where e: "e = None" "h_FObj (handle_at r s1) = Some fd"
      "\<not> exceedsHardLimit E (wrap64 (off + int (length data))) (h_Path (handle_at r s1)) s1"
    by (auto simp: fc_WriteFile_def split: if_splits option.splits)
  with w c obtain s2 where s2: "count_operation r s1 = Some s2"
    by (cases "count_operation r s1") (auto simp: fc_WriteFile_def)
  note f = count_operation_frame [OF s2]
  let ?w = "if IsSet (h_Flags (handle_at r s2)) HandleOpenedAppend then os_Append now fd data else os_WriteAt now fd data off"
  obtain res s3 where o: "fc_os E ?w s2 = (res, s3)" by (meson surj_pair)
  with w c e s2 have "res = (n, None)" "s' = setHandleDirty r s3" by (auto simp: fc_WriteFile_def split: if_splits)
  moreover have "fst s3 = fst s2" using fc_os_fst(1) [of E ?w s2] o by simp
  then have so: "same_open (handle_at r s1) (handle_at r s')"
    using f setHandleDirty_frame(3) [where r = r and s = s3] \<open>s' = _\<close> by (simp add: same_open_def)
  moreover have "\<not> IsSet (h_Flags (handle_at r s2)) HandleOpenedAppend" using a so f by (simp add: same_open_def)
  ultimately show thesis using that [of s1 s2 fd s3] c e f o by simp
qed

text \<open>
  C19. What is written through an open file is read back: after a write that reports success, through a handle
  that does not append, a read of the same range through it returns exactly the data, whatever the state of
  the file was and whether or not its download had been put off.
\<close>

theorem write_then_read:
  fixes s s1 :: "'n fc_state"
  assumes "\<And>fs n. e_fs E (e_set_fs E fs n) = fs"
    and "fc_WriteFile E now r data off s = Some ((n, None), s1)" "\<not> IsSet (h_Flags (handle_at r s1)) HandleOpenedAppend"
    and "lp_head (fc_policy (fst s1)) \<noteq> None"
  shows "n = int (length data) \<and> (\<exists>s2. fc_ReadInBuffer E now2 r (length data) off s1 = Some ((data, None), s2))"
proof -
  obtain sa sb sc fd where
    d: "completeOpen E now r (h_Path (handle_at r s)) s = Some (None, sa)" "fc_os E (os_WriteAt now fd data off) sb = ((n, None), sc)"
      "s1 = setHandleDirty r sc" "h_FObj (handle_at r sa) = Some fd" "same_open (handle_at r sa) (handle_at r s1)"
    by (rule WriteFile_done [OF assms(2,3)])
  have h: "fh_openFileOptions (handle_at r s1) = None" "h_FObj (handle_at r s1) = Some fd"
    using completeOpen_opened [OF d(1)] d(4,5) by (simp_all add: same_open_def)
  obtain fs' where w: "os_WriteAt now fd data off (fc_fs E sb) = ((n, None), fs')" "sc = (fst sb, e_set_fs E fs' (snd sb))"
    using d(2) by (auto simp: fc_os_def split: prod.splits)
  then have f: "fc_fs E s1 = fs'" using d(3) assms(1) by simp
  from w(1) have n: "n = int (length data)" and rd: "\<exists>eof. os_ReadAt fs' fd (length data) off = Inl (data, eof)"
    by (auto simp: os_WriteAt_def os_ReadAt_def set_inode_def read_written Let_def split: option.splits if_splits node.splits)
  obtain s2 where s2: "count_operation r s1 = Some s2" using count_operation_returns assms(4) by blast
  then have "fc_fs E s2 = fs'" using count_operation_frame [OF s2] f by simp
  with h s2 rd have "fc_ReadInBuffer E now2 r (length data) off s1 = Some ((data, None), s2)"
    by (auto simp: fc_ReadInBuffer_def)
  with n show ?thesis by blast
qed

text \<open>A write to the file of the example.\<close>

lemma demo_append [simp]: "\<not> IsSet 10 HandleOpenedAppend"
  by code_simp

definition demo_written :: "loopback fc_state" where
  "demo_written =
     ((fst demo_created)\<lparr>fc_heap := (\<lambda>_. new_handle [] None)
        (0 := (new_handle ''a'' None)\<lparr>h_FObj := Some 3, h_UnixFD := 3, h_OptCnt := 1, h_Flags := 10\<rparr>)\<rparr>,
      (snd demo_created)\<lparr>lb_fs := (lb_fs (snd demo_created))\<lparr>
        inodes := (inodes demo_fs)(3 := FileNode ''hey'' 0x1ED 2)\<rparr>\<rparr>)"

lemmas eval_write = fc_WriteFile_def exceedsHardLimit_def count_operation_def defaultCacheUpdateCount_def os_WriteAt_def
  write_at_def

lemma demo_writes: "fc_WriteFile demo_env 2 0 ''hey'' 0 demo_created = Some ((3, None), demo_written)"
  by (simp add: demo_written_def demo_created_def eval_write eval_cache eval_os eval_start)

lemma demo_written_facts [simp]:
  "handle_at 0 demo_written = (new_handle ''a'' None)\<lparr>h_FObj := Some 3, h_UnixFD := 3, h_OptCnt := 1, h_Flags := 10\<rparr>"
  "lp_head (fc_policy (fst demo_written)) = Some 2" "fc_tmpPath (fst demo_written) = ''/t''" "fc_lazyWrite (fst demo_written) = False"
  "lb_path (snd demo_written) = ''/s''"
  by (simp_all add: demo_written_def demo_created_def demo_cache_def demo_store_def)

lemma write_then_read_witness: "\<exists>s2. fc_ReadInBuffer demo_env 3 0 3 0 demo_written = Some ((''hey'', None), s2)"
  using write_then_read [OF _ demo_writes, of 3] by (simp add: numeral_3_eq_3)

section \<open>The limit of the disk\<close>

lemma written_length: "length (write_at c off data) = (if data = [] then length c else max (length c) (off + length data))"
  by (auto simp: write_at_def)

lemma fc_os_lens:
  assumes "\<And>fs n. e_fs E (e_set_fs E fs n) = fs" shows "fc_fs E (snd (fc_os E f s)) = snd (f (fc_fs E s))"
  using assms by (simp add: fc_os_def case_prod_unfold)

text \<open>
  C20. With a limit on the disk, a write through an open handle that does not append is carried out only when the file
  does not grow, or when what it grows by fits: the usage read before it and the growth stay within the
  limit and the 4096 the check allows on top.
\<close>

theorem write_within_limit:
  fixes s s' :: "'n fc_state"
  assumes "\<And>fs n. e_fs E (e_set_fs E fs n) = fs"
    and "fc_WriteFile E now r data off s = Some ((n, None), s')" "\<not> IsSet (h_Flags (handle_at r s')) HandleOpenedAppend"
    and "fh_openFileOptions (handle_at r s) = None" "h_FObj (handle_at r s) = Some fd" "map_of (open_fds (fc_fs E s)) fd = Some i"
    and "map_of (dents (fc_fs E s)) (local_path (fst s) (h_Path (handle_at r s))) = Some i" "inodes (fc_fs E s) i = FileNode c m t"
    and "e_usage E (fc_fs E s) (fc_tmpPath (fst s)) = Some u" "fc_diskHighWaterMark (fst s) \<noteq> 0"
    and "off + int (length data) < 2 ^ 63" "int (length c) < 2 ^ 63"
  shows "\<exists>c' t'. inodes (fc_fs E s') i = FileNode c' m t' \<and>
    (length c' \<le> length c \<or> u + of_int (int (length c') - int (length c)) \<le> fc_diskHighWaterMark (fst s) + 4096)"
proof -
  let ?p = "local_path (fst s) (h_Path (handle_at r s))"
  obtain sa sb sc fd' where
    d: "completeOpen E now r (h_Path (handle_at r s)) s = Some (None, sa)"
      "\<not> exceedsHardLimit E (wrap64 (off + int (length data))) (h_Path (handle_at r sa)) sa"
      "snd sb = snd sa" "fc_os E (os_WriteAt now fd' data off) sb = ((n, None), sc)" "s' = setHandleDirty r sc" "h_FObj (handle_at r sa) = Some fd'"
    by (rule WriteFile_done [OF assms(2,3)])
  have sa: "sa = s" "fd' = fd" using d(1,6) assms(4,5) by simp_all
  have "fc_fs E sc = snd (os_WriteAt now fd data off (fc_fs E s))" "fst (os_WriteAt now fd data off (fc_fs E s)) = (n, None)"
    using fc_os_lens [OF assms(1), where f = "os_WriteAt now fd data off" and s = sb] arg_cong [OF d(4), of fst] d(3,4) sa by simp_all
  then have w: "0 \<le> off" "inodes (fc_fs E s') i = FileNode (write_at c (nat off) data) m (if data = [] then t else now)"
    using assms(6,8) d(5) by (auto simp: os_WriteAt_def set_inode_def split: if_splits)
  have st: "stat_local E (h_Path (handle_at r s)) s = Inr (FileNode c m t)"
    using assms(7,8) by (simp add: os_Stat_def resolve_no_link node_at_def)
  have "length (write_at c (nat off) data) \<le> length c \<or>
      u + of_int (int (length (write_at c (nat off) data)) - int (length c)) \<le> fc_diskHighWaterMark (fst s) + 4096"
  proof (cases "length (write_at c (nat off) data) \<le> length c")
    case False
    then have g: "int (length (write_at c (nat off) data)) = off + int (length data)" "off + int (length data) > int (length c)"
      using w(1) by (auto simp: written_length split: if_splits)
    then have "wrap64 (off + int (length data)) = off + int (length data)"
        "wrap64 (off + int (length data) - int (length c)) = off + int (length data) - int (length c)"
      using assms(11,12) w(1) by (simp_all add: wrap64_def)
    with d(2) sa st assms(9,10) g show ?thesis by (simp add: exceedsHardLimit_def)
  qed simp
  with w(2) show ?thesis by blast
qed

lemma write_within_limit_witness: "\<exists>c' t'. inodes (lb_fs (snd demo_written)) 3 = FileNode c' 0x1ED t' \<and>
    (length c' \<le> 0 \<or> 8 + of_int (int (length c') - 0) \<le> (10 :: rat) + 4096)"
proof -
  let ?E = "lb_env (\<lambda>x. x) (\<lambda>_ _. Some 8) (\<lambda>_. Inr 0)" and ?lim = "\<lambda>s :: loopback fc_state. ((fst s)\<lparr>fc_diskHighWaterMark := 10\<rparr>, snd s)"
  have w: "fc_WriteFile ?E 2 0 ''hey'' 0 (?lim demo_created) = Some ((3, None), ?lim demo_written)"
    by (simp add: demo_written_def demo_created_def eval_write eval_cache eval_os eval_start)
  show ?thesis
    using write_within_limit [OF _ w, of 3 3 "[]" "0x1ED" 1 8]
    by (simp add: demo_created_def demo_written_def demo_store_def demo_cache_def demo_fs_def new_handle_def NewHandle_def
        Handle.defs local_path_def)
qed

section \<open>Closed files are durable\<close>

text \<open>
  C1. Without lazy writes and over the loopback storage, closing a modified file loses nothing: when the release of
  a dirty handle whose open was not put off reports success, the local file still has the content it had, and the
  object in the storage has it too, or the name is queued for the upload thread. The name is a clean path
  below the cache directory and the storage's root, which lie apart. (With lazy writes the release reports success
  before it has done its work, and what its goroutine returns is lost: then success promises nothing.)
\<close>

theorem closed_file_is_durable:
  assumes "lb_good sdir (snd s)" "lb_named sdir (fc_tmpPath (fst s)) name" "\<not> fc_lazyWrite (fst s)"
    and "h_Path (handle_at r s) = name" "fh_Dirty (handle_at r s)" "fh_openFileOptions (handle_at r s) = None"
    and "held (lb_env md5 du free) s name c" "fc_ReleaseFile (lb_env md5 du free) now r s = Some (None, s')"
  shows "held (lb_env md5 du free) s' name c \<and> (lb_stored sdir (snd s') name = Some c \<or> is_pending name s')"
proof -
  have "held (lb_env md5 du free) s' (h_Path (handle_at r s)) c \<and>
      (lb_object sdir (fc_tmpPath (fst s)) (snd s') (h_Path (handle_at r s)) = Some c \<or> is_pending (h_Path (handle_at r s)) s')"
    by (rule lb_below.close_durable [OF assms(1) refl _ _ assms(5,6,3,8)]) (use assms in simp_all)
  with assms(2,4) show ?thesis by (simp add: lb_object_def)
qed

text \<open>The example meets the hypotheses.\<close>

lemma demo_good [simp]: "lb_good ''/s'' (snd demo_written)"
  by (auto simp: lb_good_def fs_ok_def fs_inv_def demo_written_def demo_created_def demo_store_def demo_fs_def node_at_def
      split: if_splits)

lemma demo_named [simp]: "lb_named ''/s'' ''/t'' ''a''"
  by (simp add: lb_named_def clean_in_def in_tmp_def)

lemma demo_held [simp]: "held (lb_env md5 du free) demo_written ''a'' ''hey''"
  by (simp add: held_def demo_written_def demo_created_def demo_store_def demo_fs_def demo_cache_def local_path_def node_at_def)

lemmas eval_release = fc_ReleaseFile_def releaseFileInternal_def fc_FileUsed_def flushFileLocal_def flushFileCloud_def
  uploadFile_def open_upload_def upload_missed_mode_def lb_CopyFromFile_def lb_os_def lb_full_def local_file_def fd_node_def
  os_Close_def clearHandleDirty_def deletePendingOp_def lm_Dec_def lm_DecDirty_def os_WriteAt_def write_at_def

lemma demo_releases:
  "\<exists>s'. fc_ReleaseFile (lb_env md5 du free) 3 0 demo_written = Some (None, s') \<and> fc_pendingOps (fst s') = []"
  by (simp add: demo_written_def demo_created_def eval_release eval_cache eval_os eval_start map_remove_def)

lemma closed_file_is_durable_witness:
  "\<exists>s'. fc_ReleaseFile demo_env 3 0 demo_written = Some (None, s') \<and> held demo_env s' ''a'' ''hey'' \<and>
    lb_stored ''/s'' (snd s') ''a'' = Some ''hey''"
proof -
  obtain s' where r: "fc_ReleaseFile demo_env 3 0 demo_written = Some (None, s')" "fc_pendingOps (fst s') = []"
    using demo_releases by blast
  from closed_file_is_durable [OF demo_good _ _ _ _ _ _ r(1), of "''a''" "''hey''"] r show ?thesis
    by (simp add: new_handle_def NewHandle_def Handle.defs)
qed

text \<open>
  C4. Over the loopback storage, one pass of the upload thread over a queue of file uploads empties it: the pass returns,
  nothing is left pending, and every file that was queued is stored with its local content. Every name in the
  queue is that of a file in the cache (no directories and no deletions, whose entries stay when the storage refuses
  them), the upload window is open, no mode change is owed from a time without connection, and the storage
  has the directories of the files.
\<close>

theorem upload_pass_drains:
  assumes "lb_good sdir (snd s)" "fc_windowOpen (fst s)" "fc_missedChmodList (fst s) = []"
    and "distinct (map fst (fc_pendingOps (fst s)))"
    and "\<And>m. is_pending m s \<Longrightarrow> lb_named sdir (fc_tmpPath (fst s)) m \<and> held (lb_env md5 du free) s m (c m) \<and> lb_ready sdir (snd s) m"
  shows "\<exists>s'. servicePendingOps (lb_env md5 du free) now s = Some s' \<and> fc_pendingOps (fst s') = [] \<and>
    (\<forall>m. is_pending m s \<longrightarrow> lb_stored sdir (snd s') m = Some (c m))"
proof -
  have "\<exists>s'. servicePendingOps (lb_env md5 du free) now s = Some s' \<and> fc_pendingOps (fst s') = [] \<and>
      (\<forall>m. is_pending m s \<longrightarrow> lb_object sdir (fc_tmpPath (fst s)) (snd s') m = Some (c m))"
  proof (rule lb_below.servicePendingOps_drains [OF assms(1) refl assms(2-4)])
    fix m assume "is_pending m s"
    from assms(5) [OF this] show "lb_named sdir (fc_tmpPath (fst s)) m \<and> held (lb_env md5 du free) s m (c m) \<and>
        lb_takes sdir (fc_tmpPath (fst s)) (snd s) m" by (simp add: lb_takes_def)
  qed
  with assms(5) show ?thesis by (auto simp: lb_object_def)
qed

definition demo_queued :: "loopback fc_state" where
  "demo_queued = addPendingOp ''a'' upload_op demo_written"

lemma upload_pass_drains_witness:
  "\<exists>s'. servicePendingOps demo_env 3 demo_queued = Some s' \<and> fc_pendingOps (fst s') = [] \<and>
    lb_stored ''/s'' (snd s') ''a'' = Some ''hey''"
proof -
  have q: "snd demo_queued = snd demo_written" "fc_tmpPath (fst demo_queued) = ''/t''" "fc_windowOpen (fst demo_queued)"
      "fc_missedChmodList (fst demo_queued) = []" "fc_pendingOps (fst demo_queued) = [(''a'', upload_op)]"
    by (simp_all add: demo_queued_def addPendingOp_def store_pending_def demo_written_def demo_created_def demo_cache_def demo_cfg_def)
  have h: "held demo_env demo_queued ''a'' ''hey''" using demo_held [of "\<lambda>x. x"] q(1,2) by (simp add: held_def local_path_def)
  have y: "lb_ready ''/s'' (snd demo_queued) ''a''" unfolding q(1)
    by (simp add: lb_ready_def parent_is_dir_def node_at_def demo_written_def demo_created_def demo_store_def demo_fs_def)
  have p: "is_pending m demo_queued \<longleftrightarrow> m = ''a''" for m by (simp add: q(5))
  have "\<exists>s'. servicePendingOps demo_env 3 demo_queued = Some s' \<and> fc_pendingOps (fst s') = [] \<and>
      (\<forall>m. is_pending m demo_queued \<longrightarrow> lb_stored ''/s'' (snd s') m = Some ''hey'')"
    by (rule upload_pass_drains) (use q h y p in \<open>simp_all\<close>)
  with p show ?thesis by auto
qed

section \<open>Truncating without a connection\<close>

lemma os_Stat_missing: "node_at fs p = None \<Longrightarrow> os_Stat fs p = Inl (path_err ENOENT)"
  by (simp add: os_Stat_def resolve_no_link)

text \<open>Creating the local file and then setting its size.\<close>

lemma create_then_truncate:
  assumes "fs_inv fs" "node_at fs p = None" "parent_is_dir fs p" "0 < k"
  obtains fd fs1 fs2 where "os_OpenFile now p create_trunc md fs = (Inr fd, fs1)" "fd_node fs1 fd = Some (FileNode [] (md AND ModePerm) now)"
    "os_Truncate now2 p k (snd (os_Close fd fs1)) = (None, fs2)"
    "node_at fs2 p = Some (FileNode (replicate (nat k) (CHR 0x00)) (md AND ModePerm) now2)"
    "node_at (snd (os_Close fd fs1)) p = Some (FileNode [] (md AND ModePerm) now)"
proof -
  have m: "map_of (dents fs) p = None" using assms(2) by (simp add: node_at_def)
  let ?n = "FileNode [] (md AND ModePerm) now" and ?i = "next_ino fs"
  let ?f = "new_entry p ?n fs"
  let ?f1 = "snd (alloc_fd ?i ?f)" and ?fd = "next_fd ?f"
  have r: "resolve 40 fs p = Some p" using assms(2) by (simp add: resolve_no_link)
  have o: "os_OpenFile now p create_trunc md fs = (Inr ?fd, ?f1)"
    using m assms(3) by (simp add: os_OpenFile_def r alloc_fd_def Let_def)
  have inv: "fs_inv ?f" by (rule fs_inv_new_entry [OF assms(1) m])
  have d: "map_of (dents ?f) p = Some ?i" "inodes ?f ?i = ?n" by (simp_all add: new_entry_def del: map_of_eq_Some_iff)
  let ?c = "snd (os_Close ?fd ?f1)"
  have c: "dents ?c = dents ?f" "inodes ?c = inodes ?f" "fs_inv ?c" "map_of (open_fds ?f1) ?fd = Some ?i"
    using inv by (simp_all add: os_Close_def alloc_fd_def fs_inv_def)
  then have n: "node_at ?c p = Some ?n" using d by (simp add: node_at_def)
  let ?g = "set_inode ?i (FileNode (replicate (nat k) (CHR 0x00)) (md AND ModePerm) now2) ?c"
  have t: "os_Truncate now2 p k ?c = (None, ?g)"
    using assms(4) c d n by (simp add: os_Truncate_def resolve_no_link del: map_of_eq_Some_iff)
  have "node_at ?g p = Some (FileNode (replicate (nat k) (CHR 0x00)) (md AND ModePerm) now2)"
    using node_at_set_inode [OF c(3), of p ?i] c(1) d(1) by simp
  with o t n c(4) d(2) show thesis by (intro that [of ?fd ?f1 ?g]) (simp_all add: fd_node_def alloc_fd_def)
qed

text \<open>
  C33. Without a connection, truncating a file that is not cached does the reverse of what it should: cutting it to
  nothing, which needs none of its data, is refused, and cutting it to any other size succeeds and leaves a
  local file of zero bytes of that size, queued to replace the object and the data that was never fetched.
\<close>

theorem truncate_offline_reversed:
  fixes s :: "'n fc_state"
  assumes "\<And>fs n. e_fs E (e_set_fs E fs n) = fs"
    and "TruncateFile (e_next E) now (q\<lparr>tf_Handle := None\<rparr>) (snd s) = Some (Some (CloudUnreachable e), snd s)"
    and "fc_offlineAccess (fst s)" "lp_head (fc_policy (fst s)) \<noteq> None"
    and "fs_inv (fc_fs E s)" "node_at (fc_fs E s) (local_path (fst s) (tf_Name q)) = None"
      "parent_is_dir (fc_fs E s) (local_path (fst s) (tf_Name q))"
    and "\<not> exceedsHardLimit E (tf_NewSize q) (tf_Name q) s"
  shows "(tf_NewSize q = 0 \<longrightarrow> (\<exists>s'. fc_TruncateFile E now None q s = Some (Some (CloudUnreachable e), s') \<and> snd s' = snd s)) \<and>
    (0 < tf_NewSize q \<longrightarrow> (\<exists>s' m t. fc_TruncateFile E now None q s = Some (None, s') \<and>
       node_at (fc_fs E s') (local_path (fst s) (tf_Name q)) = Some (FileNode (replicate (nat (tf_NewSize q)) (CHR 0x00)) m t) \<and>
       is_pending (tf_Name q) s'))"
proof -
  let ?n = "tf_Name q" and ?k = "tf_NewSize q"
  let ?p = "local_path (fst s) ?n" and ?s = "snd (get_flock ?n s)"
  have s: "snd ?s = snd s" "local_path (fst ?s) ?n = ?p" "fc_offlineAccess (fst ?s)" "lp_head (fc_policy (fst ?s)) \<noteq> None"
    using assms(3,4) by (simp_all add: local_path_def get_flock_def set_locks_def case_prod_unfold)
  have st: "stat_local E ?n ?s = Inl (path_err ENOENT)" using assms(6) s by (simp add: os_Stat_missing)
  have b: "below (TruncateFile (e_next E)) now (q\<lparr>tf_Handle := None\<rparr>) ?s = Some (Some (CloudUnreachable e), ?s)"
    using assms(2) s(1) by (cases ?s) (simp add: below_def)
  have off: "isOffline (Some (CloudUnreachable e))" by (simp add: isOffline_def)
  then have r: "resolveCloudNotFoundError E ?n (Some (CloudUnreachable e)) True ?s = Some (CloudUnreachable e)"
    by (simp add: resolveCloudNotFoundError_def)
  have "\<exists>s' m t. truncate_path E now q s = Some (None, s') \<and>
       node_at (fc_fs E s') ?p = Some (FileNode (replicate (nat ?k) (CHR 0x00)) m t) \<and> is_pending ?n s'" if k: "0 < ?k"
  proof -
    let ?md = "fc_defaultPermission (fst ?s)"
    obtain fd fs1 fs2 where f: "os_OpenFile now ?p create_trunc ?md (fc_fs E s) = (Inr fd, fs1)"
        "fd_node fs1 fd = Some (FileNode [] (?md AND ModePerm) now)" "os_Truncate now ?p ?k (snd (os_Close fd fs1)) = (None, fs2)"
        "node_at fs2 ?p = Some (FileNode (replicate (nat ?k) (CHR 0x00)) (?md AND ModePerm) now)"
      by (rule create_then_truncate [OF assms(5-7) k])
    let ?s2 = "snd (fc_os E (os_Close fd) (fst ?s, e_set_fs E fs1 (snd s)))"
    have t: "truncate_offline E now q (Inl (path_err ENOENT)) ?s = ((True, Inr (FileNode [] (?md AND ModePerm) now)), ?s2)"
      using k f(1,2) s assms(1) by (simp add: truncate_offline_def fc_os_def Let_def)
    have s2: "fst ?s2 = fst ?s" "fc_fs E ?s2 = snd (os_Close fd fs1)" using fc_os_lens [OF assms(1), where f = "os_Close fd"] assms(1) by simp_all
    obtain s3 where u: "fc_FileUsed ?n ?s2 = Some s3" using FileUsed_returns [of ?s2 ?n] s(4) s2(1) by metis
    have s3: "snd s3 = snd ?s2" "local_path (fst s3) ?n = ?p" using FileUsed_frame [OF u] s(2) s2(1) by (simp_all add: local_path_def)
    let ?s4 = "(fst s3, e_set_fs E fs2 (snd s3))"
    have "fc_os E (os_Truncate now ?p ?k) s3 = (None, ?s4)" using f(3) s2(2) s3(1) by (simp add: fc_os_def)
    with b r st off t u s(3) s3(2) k have "truncate_path E now q s = Some (None, addPendingOp ?n upload_op ?s4)"
      by (simp add: truncate_path_def Let_def)
    with f(4) assms(1) show ?thesis by auto
  qed
  moreover have "truncate_path E now q s = Some (Some (CloudUnreachable e), ?s)" if "?k = 0"
    using b r st off s(3) that by (simp add: truncate_path_def Let_def truncate_offline_def)
  moreover have "fc_TruncateFile E now None q s = truncate_path E now q s" using assms(8) by (simp add: fc_TruncateFile_def)
  ultimately show ?thesis using s(1) by metis
qed

text \<open>A storage that cannot be reached.\<close>

definition demo_offline :: "loopback fc_env" where
  "demo_offline = demo_env\<lparr>e_next := (loopback_component (\<lambda>x. x))\<lparr>
     TruncateFile := (\<lambda>now q n. Some (Some (CloudUnreachable no_cause), n))\<rparr>\<rparr>"

lemma truncate_offline_reversed_witness:
  "\<exists>s' m t. fc_TruncateFile demo_offline 5 None
      \<lparr>tf_Handle = None, tf_Name = ''a'', tf_OldSize = 2, tf_NewSize = 1, tf_BlockSize = 0\<rparr> (demo_cache, demo_store) = Some (None, s') \<and>
    node_at (lb_fs (snd s')) ''/t/a'' = Some (FileNode [CHR 0x00] m t) \<and> is_pending ''a'' s'"
proof -
  have "fs_inv demo_fs" by code_simp
  then show ?thesis
    using truncate_offline_reversed [where E = demo_offline and now = 5 and s = "(demo_cache, demo_store)" and e = no_cause and
        q = "\<lparr>tf_Handle = None, tf_Name = ''a'', tf_OldSize = 2, tf_NewSize = 1, tf_BlockSize = 0\<rparr>"]
    by (simp add: demo_offline_def demo_cache_def demo_store_def demo_fs_def demo_cfg_def local_path_def node_at_def
        parent_is_dir_def exceedsHardLimit_def StartPolicy_def NewLRUPolicy_def loadSnapshot_def)
qed

end
