(* ===== verification/File_Cache_Config.thy ===== *)
theory File_Cache_Config
  imports File_Cache_Props
begin

text \<open>
  Configuring, starting, reconfiguring and stopping the file cache (\<open>component/file_cache/file_cache.go\<close>). The
  values of the configuration file are arguments, a key that is not set is \<open>None\<close>; so is what the parser of
  schedules makes of its section.
\<close>

section \<open>Configuration\<close>

record FileCacheOptions =
  fo_TmpPath :: string
  fo_Timeout :: "int option"
  fo_MaxEviction :: int
  fo_MaxSizeMB :: "rat option"
  fo_HighThreshold :: int
  fo_LowThreshold :: int
  fo_CreateEmptyFile :: bool
  fo_AllowNonEmpty :: bool
  fo_BlockOfflineAccess :: bool
  fo_EnablePolicyTrace :: bool
  fo_OffloadIO :: bool
  fo_RefreshSec :: int
  fo_HardLimit :: bool

definition zero_options :: FileCacheOptions where
  "zero_options = \<lparr>fo_TmpPath = [], fo_Timeout = None, fo_MaxEviction = 0, fo_MaxSizeMB = None, fo_HighThreshold = 0,
     fo_LowThreshold = 0, fo_CreateEmptyFile = False, fo_AllowNonEmpty = False, fo_BlockOfflineAccess = False,
     fo_EnablePolicyTrace = False, fo_OffloadIO = False, fo_RefreshSec = 0, fo_HardLimit = False\<rparr>"

text \<open>
  The section of the component, the other keys it reads, \<open>common.ExpandPath\<close>, the home directory (empty when
  there is none), and the windows of the schedule, when that key is set.
\<close>

record fc_config =
  ff_section :: "error + FileCacheOptions"
  ff_directIO :: bool
  ff_lazyWrite :: "error + bool"
  ff_expand :: "string \<Rightarrow> string"
  ff_home :: string
  ff_mountPath :: "error + string"
  ff_allowOther :: "error + bool"
  ff_schedule :: "(error + string list) option"

definition defaultMaxEviction :: int where "defaultMaxEviction = 5000"
definition defaultMaxThreshold :: int where "defaultMaxThreshold = 80"
definition defaultMinThreshold :: int where "defaultMinThreshold = 60"
definition defaultFileCacheTimeout :: int where "defaultFileCacheTimeout = 216000"
definition minimumFileCacheTimeout :: int where "minimumFileCacheTimeout = 1"

definition DefaultAllowOtherPermissionBits :: file_mode where "DefaultAllowOtherPermissionBits = 0x1FF"

definition isLocalDirEmpty :: "os_fs \<Rightarrow> string \<Rightarrow> bool" where
  "isLocalDirEmpty fs p = nothing_in_dir fs p"

definition GetPolicyConfig :: "FileCacheOptions \<Rightarrow> FileCache \<Rightarrow> cachePolicyConfig" where
  "GetPolicyConfig conf c =
     \<lparr>pc_tmpPath = fc_tmpPath c, pc_cacheTimeout = wrapu32 (fc_cacheTimeout c),
      pc_maxEviction = (if fo_MaxEviction conf = 0 then defaultMaxEviction else fo_MaxEviction conf),
      pc_maxSizeMB = fc_maxCacheSizeMB c,
      pc_highThreshold = of_int (if fo_HighThreshold conf = 0 then defaultMaxThreshold else fo_HighThreshold conf),
      pc_lowThreshold = of_int (if fo_LowThreshold conf = 0 then defaultMinThreshold else fo_LowThreshold conf),
      pc_fileLocks = fc_locks c, pc_pendingOps = pc_pendingOps (lp_cfg (fc_policy c)),
      pc_policyTrace = fo_EnablePolicyTrace conf\<rparr>"

definition fc_config_error :: "error \<Rightarrow> err" where
  "fc_config_error e = Some (Wrapped ''config error in file_cache'' e)"

text \<open>The values that cannot be wrong.\<close>

definition fc_configure_flags :: "fc_config \<Rightarrow> FileCacheOptions \<Rightarrow> FileCache \<Rightarrow> FileCache" where
  "fc_configure_flags cfg conf c =
     c\<lparr>fc_createEmptyFile := fo_CreateEmptyFile conf,
       fc_cacheTimeout := (if ff_directIO cfg then 0
         else case fo_Timeout conf of Some t \<Rightarrow> max t minimumFileCacheTimeout | None \<Rightarrow> defaultFileCacheTimeout),
       fc_allowNonEmpty := fo_AllowNonEmpty conf, fc_policyTrace := fo_EnablePolicyTrace conf,
       fc_offloadIO := fo_OffloadIO conf, fc_offlineAccess := \<not> fo_BlockOfflineAccess conf,
       fc_refreshSec := fo_RefreshSec conf, fc_hardLimit := fo_HardLimit conf\<rparr>"

text \<open>The local directory: not the mount point, and made if it is missing.\<close>

definition fc_configure_path :: "fc_config \<Rightarrow> FileCacheOptions \<Rightarrow> 'n fc_env \<Rightarrow> int \<Rightarrow> 'n fc_state \<Rightarrow> err \<times> 'n fc_state" where
  "fc_configure_path cfg conf E now = (\<lambda>(c, n).
     let p = path_clean (ff_expand cfg (fo_TmpPath conf));
         tmp = (if p = [] \<or> p = ''.'' then path_join [ff_home cfg, ''.cloudfuse'', ''file_cache''] else p);
         c1 = c\<lparr>fc_tmpPath := tmp\<rparr> in
     case ff_mountPath cfg of
       Inl e \<Rightarrow> (fc_config_error e, (c1, n))
     | Inr mnt \<Rightarrow>
         let s = (c1\<lparr>fc_mountPath := mnt\<rparr>, n) in
         if path_clean mnt = path_clean tmp
         then (Some (Errorf ''config error in file_cache error [tmp-path is same as mount path]''), s)
         else if (case os_Stat (fc_fs E s) tmp of Inl e \<Rightarrow> is_not_exist (Some e) | Inr nd \<Rightarrow> False)
         then (case fc_os E (os_MkdirAll now tmp 0x1ED) s of
                 (Some e, s1) \<Rightarrow> (fc_config_error e, s1)
               | (None, s1) \<Rightarrow> (None, s1))
         else (None, s))"

text \<open>The capacity, and that the directory is empty.\<close>

definition fc_configure_size :: "FileCacheOptions \<Rightarrow> 'n fc_env \<Rightarrow> 'n fc_state \<Rightarrow> err \<times> 'n fc_state" where
  "fc_configure_size conf E = (\<lambda>(c, n).
     let avail = (case e_avail E (e_fs E n) of Inl e \<Rightarrow> 4192 | Inr b \<Rightarrow> of_int (floor (8 / 10 * of_int b / 1048576 :: rat)));
         mb = (case fo_MaxSizeMB conf of Some m \<Rightarrow> if m \<noteq> 0 then m else avail | None \<Rightarrow> avail);
         s = (c\<lparr>fc_maxCacheSizeMB := mb\<rparr>, n) in
     if mb \<le> 0 then (Some (Errorf ''config error in file_cache error [max-size-mb must be greater than 0]''), s)
     else if \<not> isLocalDirEmpty (e_fs E n) (fc_tmpPath c) \<and> \<not> fc_allowNonEmpty c
     then (Some (Errorf ''config error in file_cache [temp directory not empty]''), s)
     else (None, s))"

text \<open>The permissions, the eviction policy, the hard limit and the schedule.\<close>

definition fc_configure_policy :: "fc_config \<Rightarrow> FileCacheOptions \<Rightarrow> FileCache \<Rightarrow> err \<times> FileCache" where
  "fc_configure_policy cfg conf c =
     (case ff_allowOther cfg of
        Inl e \<Rightarrow> (Some (Errorf ''config error in file_cache [allow-other]''), c)
      | Inr other \<Rightarrow>
          let c1 = c\<lparr>fc_allowOther := other,
                fc_defaultPermission := (if other then DefaultAllowOtherPermissionBits else DefaultFilePermissionBits)\<rparr>;
              c2 = c1\<lparr>fc_policy := NewLRUPolicy (GetPolicyConfig conf c1),
                fc_diskHighWaterMark := (if fc_hardLimit c1 \<and> fc_maxCacheSizeMB c1 \<noteq> 0 then fc_maxCacheSizeMB c1 * 1048576 else 0)\<rparr>
          in case ff_schedule cfg of
               None \<Rightarrow> (None, c2)
             | Some (Inl e) \<Rightarrow> (fc_config_error e, c2)
             | Some (Inr windows) \<Rightarrow> (None, c2\<lparr>fc_schedule := windows\<rparr>))"

definition fc_Configure :: "fc_config \<Rightarrow> 'n fc_env \<Rightarrow> int \<Rightarrow> 'n fc_state \<Rightarrow> err \<times> 'n fc_state" where
  "fc_Configure cfg E now = (\<lambda>(c, n).
     case ff_section cfg of
       Inl e \<Rightarrow> (fc_config_error e, (c, n))
     | Inr conf \<Rightarrow>
         let c1 = fc_configure_flags cfg conf c in
         (case ff_lazyWrite cfg of
            Inl e \<Rightarrow> (fc_config_error e, (c1, n))
          | Inr lazy \<Rightarrow>
              (case fc_configure_path cfg conf E now (c1\<lparr>fc_lazyWrite := lazy\<rparr>, n) of
                 (Some e, s) \<Rightarrow> (Some e, s)
               | (None, s) \<Rightarrow>
                   (case fc_configure_size conf E s of
                      (Some e, s1) \<Rightarrow> (Some e, s1)
                    | (None, s1) \<Rightarrow>
                        (case fc_configure_policy cfg conf (fst s1) of (e, c2) \<Rightarrow> (e, (c2, snd s1)))))))"

text \<open>A change of the configuration file while the component runs; a section that cannot be read counts as empty.\<close>

definition fc_OnConfigChange :: "fc_config \<Rightarrow> FileCache \<Rightarrow> FileCache" where
  "fc_OnConfigChange cfg c =
     (let conf = (case ff_section cfg of Inl e \<Rightarrow> zero_options | Inr conf \<Rightarrow> conf);
          mb = (case fo_MaxSizeMB conf of Some m \<Rightarrow> m | None \<Rightarrow> 0);
          c1 = c\<lparr>fc_createEmptyFile := fo_CreateEmptyFile conf,
            fc_cacheTimeout := max (case fo_Timeout conf of Some t \<Rightarrow> t | None \<Rightarrow> 0) minimumFileCacheTimeout,
            fc_policyTrace := fo_EnablePolicyTrace conf, fc_offloadIO := fo_OffloadIO conf,
            fc_maxCacheSizeMB := (if mb > 0 then mb else fc_maxCacheSizeMB c)\<rparr>
      in c1\<lparr>fc_policy := UpdateConfig (GetPolicyConfig conf c1) (fc_policy c1)\<rparr>)"

section \<open>Start and stop\<close>

text \<open>
  \<open>Start\<close> with the snapshot found in the local directory, if any: without a schedule uploads may begin at once,
  with one they wait for the first window.
\<close>

definition fc_Start :: "lruPolicySnapshot option \<Rightarrow> 'n fc_state \<Rightarrow> (err \<times> 'n fc_state) option" where
  "fc_Start snapshot = (\<lambda>(c, n).
     map_option (\<lambda>p. (None, (c\<lparr>fc_policy := p, fc_windowOpen := (fc_schedule c = [])\<rparr>, n))) (StartPolicy snapshot (fc_policy c)))"

text \<open>\<open>Stop\<close>: the snapshot of the policy is kept in the local directory, unless that is emptied.\<close>

definition fc_Stop :: "'n fc_env \<Rightarrow> 'n fc_state \<Rightarrow> ((err \<times> lruPolicySnapshot option) \<times> 'n fc_state) option" where
  "fc_Stop E s = map_option (\<lambda>ss.
     if fc_allowNonEmpty (fst s) then ((None, Some ss), s)
     else ((None, None), snd (fc_os E (TempCacheCleanup (fc_tmpPath (fst s))) s))) (createSnapshot (fc_policy (fst s)))"

section \<open>From the configuration to the first request\<close>

text \<open>Loading a snapshot touches neither the lock map nor the directory of the policy.\<close>

definition same_dir :: "lruPolicy \<Rightarrow> lruPolicy \<Rightarrow> bool" where
  "same_dir p p' \<longleftrightarrow> pc_fileLocks (lp_cfg p') = pc_fileLocks (lp_cfg p) \<and> pc_tmpPath (lp_cfg p') = pc_tmpPath (lp_cfg p)"

lemma same_dir_refl: "same_dir p p"
  by (simp add: same_dir_def)

lemma same_dir_trans: "same_dir p q \<Longrightarrow> same_dir q r \<Longrightarrow> same_dir p r"
  by (simp add: same_dir_def)

lemma upd_node_cfg [simp]: "lp_cfg (upd_node i f p) = lp_cfg p"
  by (simp add: upd_node_def)

lemma insert_before_cfg: "insert_before new nxt (z, p) = (z', p') \<Longrightarrow> lp_cfg p' = lp_cfg p"
  by (auto simp: insert_before_def Let_def split: option.splits if_splits)

lemma load_one_same_dir: "load_one ss x (idx, nxt, z, p) = Some (idx', nxt', z', p') \<Longrightarrow> same_dir p p'"
  by (cases x)
    (auto simp: load_one_def same_dir_def store_pending_def Let_def dest!: insert_before_cfg split: Option.bind_splits if_splits list.splits prod.splits)

lemma load_nodes_same_dir: "load_nodes ss xs (idx, nxt, z, p) = Some (idx', nxt', z', p') \<Longrightarrow> same_dir p p'"
proof (induction xs arbitrary: idx nxt z p)
  case Nil
  then show ?case by (simp add: same_dir_refl)
next
  case (Cons x xs)
  then obtain i n t q where q: "load_one ss x (idx, nxt, z, p) = Some (i, n, t, q)" "load_nodes ss xs (i, n, t, q) = Some (idx', nxt', z', p')"
    by (auto split: Option.bind_splits)
  show ?case by (rule same_dir_trans [OF load_one_same_dir [OF q(1)] Cons.IH [OF q(2)]])
qed

lemma fold_pending_same_dir: "same_dir p (fold (\<lambda>(k, f). store_pending k (g f)) ops p)"
proof (induction ops arbitrary: p)
  case Nil
  then show ?case by (simp add: same_dir_refl)
next
  case (Cons x ops)
  obtain k f where x: "x = (k, f)" by (cases x)
  have "same_dir p (store_pending k (g f) p)" by (simp add: same_dir_def store_pending_def)
  then show ?case using same_dir_trans [OF _ Cons.IH] x by simp
qed

lemma StartPolicy_same_dir: "StartPolicy snapshot p = Some p' \<Longrightarrow> same_dir p p'"
proof -
  assume s: "StartPolicy snapshot p = Some p'"
  define q where "q = (upd_node (lp_lastMarker p) (\<lambda>n. n\<lparr>ln_prev := Some (lp_currMarker p), ln_next := None\<rparr>)
    (upd_node (lp_currMarker p) (\<lambda>n. n\<lparr>ln_prev := None, ln_next := Some (lp_lastMarker p)\<rparr>) p))\<lparr>lp_head := Some (lp_currMarker p), lp_validateChan := []\<rparr>"
  have q: "same_dir p q" by (simp add: same_dir_def q_def)
  have l: "loadSnapshot snapshot q = Some p'" using s by (simp add: StartPolicy_def q_def Let_def)
  show ?thesis
  proof (cases snapshot)
    case None
    then show ?thesis using q l by (simp add: loadSnapshot_def)
  next
    case (Some ss)
    let ?g = "\<lambda>f. \<lparr>pf_isDir = ps_IsDir f, pf_isDeletion = ps_IsDeletion f\<rparr>"
    let ?p1 = "fold (\<lambda>(k, f). store_pending k (?g f)) (ss_PendingOps ss) q"
    obtain xs i n t where "load_nodes ss xs (0, lp_head ?p1, lp_lastMarker ?p1, ?p1) = Some (i, n, t, p')"
      using l Some by (auto simp: loadSnapshot_def Let_def split: if_splits)
    from load_nodes_same_dir [OF this] have "same_dir ?p1 p'" .
    then show ?thesis by (rule same_dir_trans [OF q same_dir_trans [OF fold_pending_same_dir]])
  qed
qed

lemma fc_configure_path_done:
  assumes "fc_configure_path cfg conf E now (c, n) = (None, s)"
  shows "\<exists>tmp mnt n'. s = (c\<lparr>fc_tmpPath := tmp, fc_mountPath := mnt\<rparr>, n') \<and> path_clean mnt \<noteq> path_clean tmp"
  using assms by (auto simp: fc_configure_path_def Let_def fc_os_def fc_config_error_def split: sum.splits if_splits prod.splits option.splits)

lemma fc_configure_size_done:
  assumes "fc_configure_size conf E (c, n) = (None, s)"
  shows "\<exists>mb. s = (c\<lparr>fc_maxCacheSizeMB := mb\<rparr>, n) \<and> 0 < mb \<and> (nothing_in_dir (e_fs E n) (fc_tmpPath c) \<or> fc_allowNonEmpty c)"
  using assms by (auto simp: fc_configure_size_def Let_def isLocalDirEmpty_def split: if_splits)

text \<open>
  C28. A file cache that configured itself without an error and was started, from whatever snapshot, is in a
  state that runs begin in: no handles, no locks, and its policy works on its directory. The directory is
  not the mount point and, unless leftovers are allowed, was empty; the capacity is positive and, with the
  hard limit on, it is the mark that writes are checked against.
\<close>

theorem configured_file_cache_starts:
  assumes conf: "fc_Configure cfg E now (c, n) = (None, s1)" and new: "fc_table c = []" "locks (fc_locks c) = []"
    and start: "fc_Start snapshot s1 = Some (e, s2)"
  shows "e = None \<and> fc_started (fst s2) \<and> path_clean (fc_mountPath (fst s2)) \<noteq> path_clean (fc_tmpPath (fst s2)) \<and>
    (fc_allowNonEmpty (fst s2) \<or> nothing_in_dir (fc_fs E s2) (fc_tmpPath (fst s2))) \<and> 0 < fc_maxCacheSizeMB (fst s2) \<and>
    (fc_hardLimit (fst s2) \<longleftrightarrow> 0 < fc_diskHighWaterMark (fst s2))"
proof -
  obtain opts lazy where o: "ff_section cfg = Inr opts" "ff_lazyWrite cfg = Inr lazy"
    using conf by (auto simp: fc_Configure_def fc_config_error_def Let_def split: sum.splits)
  define c1 where "c1 = (fc_configure_flags cfg opts c)\<lparr>fc_lazyWrite := lazy\<rparr>"
  obtain sp where sp: "fc_configure_path cfg opts E now (c1, n) = (None, sp)"
    using conf o by (auto simp: fc_Configure_def Let_def c1_def split: prod.splits option.splits)
  obtain tmp mnt n' where p: "sp = (c1\<lparr>fc_tmpPath := tmp, fc_mountPath := mnt\<rparr>, n')" "path_clean mnt \<noteq> path_clean tmp"
    using fc_configure_path_done [OF sp] by blast
  obtain ss where ss: "fc_configure_size opts E sp = (None, ss)"
    using conf o sp by (auto simp: fc_Configure_def Let_def c1_def split: prod.splits option.splits)
  obtain mb where z: "ss = (c1\<lparr>fc_tmpPath := tmp, fc_mountPath := mnt, fc_maxCacheSizeMB := mb\<rparr>, n')" "0 < mb"
    "nothing_in_dir (e_fs E n') tmp \<or> fc_allowNonEmpty c1"
    using fc_configure_size_done [OF ss [unfolded p(1)]] by auto
  obtain c2 where c2: "fc_configure_policy cfg opts (fst ss) = (None, c2)" "s1 = (c2, n')"
    using conf o sp ss z(1) by (auto simp: fc_Configure_def Let_def c1_def split: prod.splits)
  have c1: "fc_table c1 = []" "locks (fc_locks c1) = []" using new by (simp_all add: c1_def fc_configure_flags_def)
  have f: "fc_table c2 = []" "locks (fc_locks c2) = []" "fc_tmpPath c2 = tmp" "pc_tmpPath (lp_cfg (fc_policy c2)) = tmp" "fc_mountPath c2 = mnt"
    "fc_maxCacheSizeMB c2 = mb" "fc_allowNonEmpty c2 = fc_allowNonEmpty c1" "fc_diskHighWaterMark c2 = (if fc_hardLimit c2 then mb * 1048576 else 0)"
    using c2(1) c1 z(1,2)
    by (auto simp: fc_configure_policy_def Let_def GetPolicyConfig_def NewLRUPolicy_def fc_config_error_def split: sum.splits option.splits)
  obtain p' where p': "StartPolicy snapshot (fc_policy c2) = Some p'" "e = None"
    "s2 = (c2\<lparr>fc_policy := p', fc_windowOpen := (fc_schedule c2 = [])\<rparr>, n')"
    using start c2(2) by (auto simp: fc_Start_def)
  have "pc_fileLocks (lp_cfg p') = fc_locks c2" "pc_tmpPath (lp_cfg p') = tmp"
    using StartPolicy_same_dir [OF p'(1)] f(4) by (simp_all add: same_dir_def)
  then show ?thesis using p' f p(2) z(2,3) by (auto simp: fc_started_def)
qed

definition demo_section :: FileCacheOptions where
  "demo_section = zero_options\<lparr>fo_TmpPath := ''/t/c'', fo_MaxSizeMB := Some 100, fo_HardLimit := True\<rparr>"

definition demo_config :: fc_config where
  "demo_config = \<lparr>ff_section = Inr demo_section, ff_directIO = False, ff_lazyWrite = Inr False, ff_expand = (\<lambda>p. p), ff_home = ''/root'',
     ff_mountPath = Inr ''/mnt'', ff_allowOther = Inr False, ff_schedule = None\<rparr>"

definition demo_configured :: "loopback fc_state" where
  "demo_configured = snd (fc_Configure demo_config demo_env 5 (demo_cache, demo_store))"

lemma demo_configures: "fc_Configure demo_config demo_env 5 (demo_cache, demo_store) = (None, demo_configured)"
proof -
  have "fst (fc_Configure demo_config demo_env 5 (demo_cache, demo_store)) = None" by code_simp
  then show ?thesis by (simp add: demo_configured_def prod_eq_iff)
qed

lemma demo_starts: "\<exists>s. fc_Start None demo_configured = Some (None, s)"
  by (auto simp: fc_Start_def StartPolicy_def loadSnapshot_def Let_def split: prod.splits)

theorem configured_file_cache_starts_witness:
  "\<exists>s. fc_Start None demo_configured = Some (None, s) \<and> fc_started (fst s) \<and> 0 < fc_maxCacheSizeMB (fst s)"
proof -
  obtain s where s: "fc_Start None demo_configured = Some (None, s)" using demo_starts by blast
  have new: "fc_table demo_cache = []" "locks (fc_locks demo_cache) = []" using demo_started by (simp_all add: fc_started_def)
  show ?thesis using configured_file_cache_starts [OF demo_configures new s] s by blast
qed

end
