(* ===== verification/Libfuse.thy ===== *)
theory Libfuse
  imports Component
begin

text \<open>
  The FUSE component (\<open>component/libfuse/libfuse.go\<close>, \<open>libfuse2_handler.go\<close>): the top of the pipeline. It turns the
  kernel's calls into calls of the next component, errors into negative error numbers, and serves listings page
  by page.

  The handles it gave to the kernel are entries of a table: a directory handle holds a window of the listing,
  a file handle is one of the component below, whose operations on handles are arguments (\<open>fe_Open\<close> and the
  others), in the form the block cache has them. Statistics and logging are left out, and the branches for
  Windows. \<open>None\<close> is a crash, or a call the kernel does not make: a file operation on the number of a directory.
\<close>

section \<open>State\<close>

record dirChildCache =
  dc_sIndex :: int
  dc_eIndex :: int
  dc_length :: int
  dc_token :: string
  dc_children :: "ObjAttr list"
  dc_lastPage :: bool

datatype fuse_handle = DirHandle string dirChildCache | FileHandle nat

record Libfuse =
  lf_mountPath :: string
  lf_dirPermission :: "32 word"
  lf_filePermission :: "32 word"
  lf_readOnly :: bool
  lf_attributeExpiration :: int
  lf_entryExpiration :: int
  lf_negativeTimeout :: int
  lf_allowOther :: bool
  lf_allowRoot :: bool
  lf_ownerUID :: int
  lf_ownerGID :: int
  lf_traceEnable :: bool
  lf_extensionPath :: string
  lf_disableWritebackCache :: bool
  lf_ignoreOpenFlags :: bool
  lf_nonEmptyMount :: bool
  lf_networkShare :: bool
  lf_maxFuseThreads :: int
  lf_directIO :: bool
  lf_umask :: int
  lf_displayCapacityMb :: int
  lf_windowsSDDL :: string
  lf_disableKernelCache :: bool
  lf_table :: "(int \<times> fuse_handle) list"
  lf_nextHandleID :: int

record 'n fuse_env =
  fe_next :: "'n component"
  fe_Create :: "int \<Rightarrow> CreateFileOptions \<Rightarrow> 'n \<Rightarrow> ((nat option \<times> err) \<times> 'n) option"
  fe_Open :: "int \<Rightarrow> OpenFileOptions \<Rightarrow> 'n \<Rightarrow> ((nat option \<times> err) \<times> 'n) option"
  fe_Read :: "int \<Rightarrow> nat \<Rightarrow> nat \<Rightarrow> int \<Rightarrow> 'n \<Rightarrow> ((string \<times> err) \<times> 'n) option"
  fe_Cached :: "nat \<Rightarrow> 'n \<Rightarrow> bool"
  fe_ReadAt :: "nat \<Rightarrow> nat \<Rightarrow> int \<Rightarrow> 'n \<Rightarrow> string \<times> err"
  fe_Write :: "int \<Rightarrow> nat \<Rightarrow> string \<Rightarrow> int \<Rightarrow> 'n \<Rightarrow> ((int \<times> err) \<times> 'n) option"
  fe_Dirty :: "nat \<Rightarrow> 'n \<Rightarrow> bool"
  fe_Flush :: "int \<Rightarrow> nat \<Rightarrow> 'n \<Rightarrow> (err \<times> 'n) option"
  fe_Sync :: "int \<Rightarrow> nat \<Rightarrow> 'n \<Rightarrow> (err \<times> 'n) option"
  fe_Release :: "int \<Rightarrow> nat \<Rightarrow> 'n \<Rightarrow> (err \<times> 'n) option"
  fe_Truncate :: "int \<Rightarrow> nat option \<Rightarrow> string \<Rightarrow> int \<Rightarrow> 'n \<Rightarrow> (err \<times> 'n) option"

type_synonym 'n fuse_state = "Libfuse \<times> 'n"

text \<open>A call of the next component, and of one of its operations on handles.\<close>

definition fe_call :: "('n \<Rightarrow> ('r \<times> 'n) option) \<Rightarrow> 'n fuse_state \<Rightarrow> ('r \<times> 'n fuse_state) option" where
  "fe_call f = (\<lambda>(lf, n). map_option (\<lambda>(r, n'). (r, (lf, n'))) (f n))"

section \<open>Errors\<close>

text \<open>The numbers of the errors on Linux.\<close>

fun fuse_errno :: "errno \<Rightarrow> int" where
  "fuse_errno EPERM = 1"
| "fuse_errno ENOENT = 2"
| "fuse_errno EIO = 5"
| "fuse_errno ENXIO = 6"
| "fuse_errno EBADF = 9"
| "fuse_errno EACCES = 13"
| "fuse_errno EBUSY = 16"
| "fuse_errno EEXIST = 17"
| "fuse_errno EXDEV = 18"
| "fuse_errno ENOTDIR = 20"
| "fuse_errno EISDIR = 21"
| "fuse_errno EINVAL = 22"
| "fuse_errno ETXTBSY = 26"
| "fuse_errno ENOSPC = 28"
| "fuse_errno EROFS = 30"
| "fuse_errno ENAMETOOLONG = 36"
| "fuse_errno ENOSYS = 38"
| "fuse_errno ENOTEMPTY = 39"
| "fuse_errno ELOOP = 40"
| "fuse_errno ENOTSUP = 95"

text \<open>The errors that keep their number, in the order they are looked for.\<close>

definition kept_errnos :: "errno list" where
  "kept_errnos = [ENOTEMPTY, ENAMETOOLONG, ENOTDIR, EISDIR, EINVAL, ENXIO, ELOOP, EXDEV, EBUSY, EROFS, ETXTBSY, ENOSYS, ENOTSUP, EPERM]"

definition fuseErrnoFromError :: "err \<Rightarrow> int" where
  "fuseErrnoFromError err =
     (case err of
        None \<Rightarrow> 0
      | Some e \<Rightarrow>
          (case find (\<lambda>n. errors_is_errno n e) kept_errnos of
             Some n \<Rightarrow> - fuse_errno n
           | None \<Rightarrow>
               if is_err_not_exist e then - fuse_errno ENOENT
               else if is_err_permission e then - fuse_errno EACCES
               else if is_err_exist e then - fuse_errno EEXIST
               else - fuse_errno EIO))"

section \<open>Names and modes\<close>

definition maxPathSize :: nat where "maxPathSize = 4096"
definition maxNameSize :: nat where "maxNameSize = 255"
definition fuse_blockSize :: int where "fuse_blockSize = 4096"

fun trimFusePath :: "string \<Rightarrow> string" where
  "trimFusePath [] = []"
| "trimFusePath (c # cs) = (if c = slash then cs else c # cs)"

fun component_too_long :: "nat \<Rightarrow> string \<Rightarrow> bool" where
  "component_too_long k [] = False"
| "component_too_long k (c # cs) =
     (if c = slash then component_too_long 0 cs
      else if Suc k > maxNameSize then True else component_too_long (Suc k) cs)"

definition validateObjectPathLength :: "string \<Rightarrow> err" where
  "validateObjectPathLength name =
     (if length name > maxPathSize then Some (Errno ENAMETOOLONG)
      else if component_too_long 0 name then Some (Errno ENAMETOOLONG) else None)"

definition normalizeFusePath :: "string \<Rightarrow> string \<times> int" where
  "normalizeFusePath path =
     (let name = NormalizeObjectName (trimFusePath path) in
      case validateObjectPathLength name of
        Some e \<Rightarrow> (name, fuseErrnoFromError (Some e))
      | None \<Rightarrow> (name, 0))"

text \<open>The type bits of \<open>st_mode\<close>, and of \<open>os.FileMode\<close> what \<open>Component\<close> does not have.\<close>

definition S_IFMT :: "32 word" where "S_IFMT = 0xF000"
definition S_IFIFO :: "32 word" where "S_IFIFO = 0x1000"
definition S_IFCHR :: "32 word" where "S_IFCHR = 0x2000"
definition S_IFDIR :: "32 word" where "S_IFDIR = 0x4000"
definition S_IFBLK :: "32 word" where "S_IFBLK = 0x6000"
definition S_IFREG :: "32 word" where "S_IFREG = 0x8000"
definition S_IFLNK :: "32 word" where "S_IFLNK = 0xA000"
definition S_IFSOCK :: "32 word" where "S_IFSOCK = 0xC000"

definition ModeDevice :: file_mode where "ModeDevice = push_bit 26 1"
definition ModeNamedPipe :: file_mode where "ModeNamedPipe = push_bit 25 1"
definition ModeSocket :: file_mode where "ModeSocket = push_bit 24 1"
definition ModeCharDevice :: file_mode where "ModeCharDevice = push_bit 21 1"

definition fileModeFromFuse :: "32 word \<Rightarrow> file_mode" where
  "fileModeFromFuse mode =
     (mode AND 0x1FF) OR (if mode AND 0x800 \<noteq> 0 then ModeSetuid else 0) OR
     (if mode AND 0x400 \<noteq> 0 then ModeSetgid else 0) OR (if mode AND 0x200 \<noteq> 0 then ModeSticky else 0) OR
     (let t = mode AND S_IFMT in
      if t = S_IFDIR then ModeDir else if t = S_IFLNK then ModeSymlink else if t = S_IFIFO then ModeNamedPipe
      else if t = S_IFSOCK then ModeSocket else if t = S_IFBLK then ModeDevice
      else if t = S_IFCHR then ModeDevice OR ModeCharDevice else 0)"

definition modePermBits :: "file_mode \<Rightarrow> 32 word" where
  "modePermBits mode =
     (mode AND ModePerm) OR (if mode AND ModeSetuid \<noteq> 0 then 0x800 else 0) OR
     (if mode AND ModeSetgid \<noteq> 0 then 0x400 else 0) OR (if mode AND ModeSticky \<noteq> 0 then 0x200 else 0)"

definition fileTypeBits :: "ObjAttr \<Rightarrow> 32 word" where
  "fileTypeBits attr =
     (if IsDir attr \<or> a_Mode attr AND ModeDir \<noteq> 0 then S_IFDIR
      else if IsSymlink attr \<or> a_Mode attr AND ModeSymlink \<noteq> 0 then S_IFLNK
      else if a_Mode attr AND ModeNamedPipe \<noteq> 0 then S_IFIFO
      else if a_Mode attr AND ModeSocket \<noteq> 0 then S_IFSOCK
      else if a_Mode attr AND ModeDevice \<noteq> 0 then (if a_Mode attr AND ModeCharDevice \<noteq> 0 then S_IFCHR else S_IFBLK)
      else S_IFREG)"

section \<open>Attributes\<close>

record Stat_t =
  sb_Ino :: "64 word"
  sb_Mode :: "32 word"
  sb_Nlink :: int
  sb_Uid :: int
  sb_Gid :: int
  sb_Size :: int
  sb_Atim :: int
  sb_Mtim :: int
  sb_Ctim :: int
  sb_Birthtim :: int
  sb_Blksize :: int
  sb_Blocks :: int

text \<open>The 64-bit FNV-1a hash of the bytes of a path.\<close>

definition inodeForPath :: "string \<Rightarrow> 64 word" where
  "inodeForPath p = fold (\<lambda>c h. (h XOR of_nat (of_char c)) * 0x100000001B3) p 0xCBF29CE484222325"

definition inodeForAttr :: "ObjAttr \<Rightarrow> 64 word" where
  "inodeForAttr attr = (if a_Path attr \<noteq> [] then inodeForPath (a_Path attr) else inodeForPath (a_Name attr))"

text \<open>Go's division cuts towards zero.\<close>

definition blocks_of :: "int \<Rightarrow> int" where
  "blocks_of sz = (let x = wrap64 (sz + 511) in if x < 0 then - ((- x) div 512) else x div 512)"

definition fillStat :: "Libfuse \<Rightarrow> ObjAttr \<Rightarrow> Stat_t \<Rightarrow> Stat_t" where
  "fillStat lf attr stbuf =
     (let typeBits = fileTypeBits attr;
          permBits = (if IsModeDefault attr
                      then (if typeBits = S_IFDIR then lf_dirPermission lf else lf_filePermission lf)
                      else modePermBits (a_Mode attr));
          sz = (if typeBits = S_IFDIR then 4096 else a_Size attr) in
      stbuf\<lparr>sb_Uid := lf_ownerUID lf, sb_Gid := lf_ownerGID lf, sb_Nlink := (if typeBits = S_IFDIR then 2 else 1),
        sb_Size := sz, sb_Ino := inodeForAttr attr, sb_Mode := permBits OR typeBits, sb_Atim := a_Atime attr,
        sb_Ctim := a_Ctime attr, sb_Mtim := a_Mtime attr, sb_Birthtim := a_Mtime attr, sb_Blksize := fuse_blockSize,
        sb_Blocks := blocks_of sz\<rparr>)"

definition zero_stat :: Stat_t where
  "zero_stat = \<lparr>sb_Ino = 0, sb_Mode = 0, sb_Nlink = 0, sb_Uid = 0, sb_Gid = 0, sb_Size = 0, sb_Atim = 0, sb_Mtim = 0,
     sb_Ctim = 0, sb_Birthtim = 0, sb_Blksize = 0, sb_Blocks = 0\<rparr>"

definition ignoreFiles :: "string list" where
  "ignoreFiles = [''.Trash'', ''.Trash-1000'', ''.xdg-volume-info'', ''autorun.inf'']"

abbreviation attr_options :: "string \<Rightarrow> GetAttrOptions" where
  "attr_options name \<equiv> \<lparr>ga_Name = name, ga_RetrieveMetadata = False\<rparr>"

text \<open>The user and group are those the mount was made for, which are those of the component.\<close>

definition fuse_Getattr :: "'n fuse_env \<Rightarrow> int \<Rightarrow> string \<Rightarrow> Stat_t \<Rightarrow> 'n fuse_state \<Rightarrow> ((int \<times> Stat_t) \<times> 'n fuse_state) option" where
  "fuse_Getattr E now path stat s =
     (let (name, errno) = normalizeFusePath path; lf = fst s in
      if errno \<noteq> 0 then Some ((errno, stat), s)
      else if name = [] \<or> name = ''.'' \<or> name = ''..''
      then Some ((0, stat\<lparr>sb_Mode := S_IFDIR OR 0x1FF, sb_Uid := lf_ownerUID lf, sb_Gid := lf_ownerGID lf, sb_Nlink := 2,
             sb_Size := 4096, sb_Mtim := now, sb_Atim := now, sb_Ctim := now, sb_Ino := inodeForPath name\<rparr>), s)
      else if name \<in> set ignoreFiles then Some ((- fuse_errno ENOENT, stat), s)
      else do {
        ((attr, e), s1) \<leftarrow> fe_call (GetAttr (fe_next E) now (attr_options name)) s;
        if e \<noteq> None then Some ((fuseErrnoFromError e, stat), s1)
        else map_option (\<lambda>a. ((0, fillStat lf a stat), s1)) attr
      })"

record fuse_Statfs =
  fs_Bsize :: int
  fs_Frsize :: int
  fs_Blocks :: int
  fs_Bavail :: int
  fs_Bfree :: int
  fs_Files :: int
  fs_Ffree :: int
  fs_Namemax :: int

definition fuse_MbToBytes :: int where "fuse_MbToBytes = 1048576"

text \<open>
  The used and the unavailable blocks are kept while the capacity shown is raised to the one of the
  configuration, when the numbers come from a cloud storage.
\<close>

definition shown_stats :: "Libfuse \<Rightarrow> Statfs_t \<Rightarrow> fuse_Statfs option" where
  "shown_stats lf attr =
     (let fromCloud = (st_Bfree attr = 0 \<and> st_Bavail attr = 0);
          unavailable = wrapu64 (st_Blocks attr - st_Bavail attr); used = wrapu64 (st_Blocks attr - st_Bfree attr) in
      if fromCloud \<and> wrapu64 (st_Bsize attr) = 0 then None
      else let blocks = (if fromCloud
                         then max (wrapu64 (lf_displayCapacityMb lf * fuse_MbToBytes) div wrapu64 (st_Bsize attr)) unavailable
                         else st_Blocks attr) in
        Some \<lparr>fs_Bsize = wrapu64 (st_Bsize attr), fs_Frsize = wrapu64 (st_Frsize attr), fs_Blocks = blocks,
          fs_Bavail = wrapu64 (blocks - unavailable), fs_Bfree = wrapu64 (blocks - used), fs_Files = st_Files attr,
          fs_Ffree = st_Ffree attr, fs_Namemax = st_Namemax attr\<rparr>)"

definition fuse_Statfs :: "'n fuse_env \<Rightarrow> int \<Rightarrow> string \<Rightarrow> fuse_Statfs \<Rightarrow> 'n fuse_state \<Rightarrow> ((int \<times> fuse_Statfs) \<times> 'n fuse_state) option" where
  "fuse_Statfs E now path stat s =
     (let (name, errno) = normalizeFusePath path; lf = fst s in
      if errno \<noteq> 0 then Some ((errno, stat), s)
      else do {
        ((attr, populated, e), s1) \<leftarrow> fe_call (StatFs (fe_next E) now ()) s;
        if e \<noteq> None then Some ((- fuse_errno EIO, stat), s1)
        else if populated then do { a \<leftarrow> attr; st \<leftarrow> shown_stats lf a; Some ((0, st), s1) }
        else let blocks = wrapu64 (lf_displayCapacityMb lf * fuse_MbToBytes) div fuse_blockSize in
          Some ((0, \<lparr>fs_Bsize = fuse_blockSize, fs_Frsize = fuse_blockSize, fs_Blocks = blocks, fs_Bavail = blocks, fs_Bfree = blocks,
            fs_Files = 1000000000, fs_Ffree = 1000000000, fs_Namemax = int maxNameSize\<rparr>), s1)
      })"

section \<open>The handle table\<close>

text \<open>\<open>handlemap.Add\<close>, \<open>Load\<close> and \<open>Delete\<close> on the entries of the component.\<close>

definition fuse_Add :: "fuse_handle \<Rightarrow> Libfuse \<Rightarrow> (int \<times> Libfuse) option" where
  "fuse_Add x lf = do {
     key \<leftarrow> alloc_id (lf_table lf) (lf_nextHandleID lf);
     Some (key, lf\<lparr>lf_table := map_store key x (lf_table lf), lf_nextHandleID := key\<rparr>)
   }"

definition fuse_Load :: "int \<Rightarrow> Libfuse \<Rightarrow> fuse_handle option" where
  "fuse_Load fh lf = map_of (lf_table lf) fh"

definition fuse_Delete :: "int \<Rightarrow> Libfuse \<Rightarrow> Libfuse" where
  "fuse_Delete fh lf = lf\<lparr>lf_table := map_remove fh (lf_table lf)\<rparr>"

text \<open>An operation on an open file: the error when the number is not known.\<close>

definition with_file :: "int \<Rightarrow> 'n fuse_state \<Rightarrow> (nat \<Rightarrow> (int \<times> 'n fuse_state) option) \<Rightarrow> (int \<times> 'n fuse_state) option" where
  "with_file fh s f =
     (case fuse_Load fh (fst s) of
        None \<Rightarrow> Some (- fuse_errno EBADF, s)
      | Some (DirHandle p c) \<Rightarrow> None
      | Some (FileHandle h) \<Rightarrow> f h)"

section \<open>Listings\<close>

definition MaxDirListCount :: int where "MaxDirListCount = 5000"

definition empty_window :: dirChildCache where
  "empty_window = \<lparr>dc_sIndex = 0, dc_eIndex = 0, dc_length = 0, dc_token = [], dc_children = [], dc_lastPage = False\<rparr>"

definition fuse_Opendir :: "string \<Rightarrow> 'n fuse_state \<Rightarrow> ((int \<times> int) \<times> 'n fuse_state) option" where
  "fuse_Opendir path s =
     (let (name, errno) = normalizeFusePath path in
      if errno \<noteq> 0 then Some ((errno, 0), s)
      else map_option (\<lambda>(fh, lf). ((0, fh), (lf, snd s)))
             (fuse_Add (DirHandle (if name \<noteq> [] then name @ [slash] else name) empty_window) (fst s)))"

definition fuse_Releasedir :: "int \<Rightarrow> 'n fuse_state \<Rightarrow> int \<times> 'n fuse_state" where
  "fuse_Releasedir fh s =
     (case fuse_Load fh (fst s) of
        None \<Rightarrow> (- fuse_errno EBADF, s)
      | Some x \<Rightarrow> (0, (fuse_Delete fh (fst s), snd s)))"

text \<open>The window is started with the directory itself and its parent.\<close>

definition cacheDots :: "int \<Rightarrow> string \<Rightarrow> dirChildCache \<Rightarrow> dirChildCache" where
  "cacheDots now dirPath c =
     c\<lparr>dc_sIndex := 0, dc_eIndex := 2, dc_length := 2, dc_token := [], dc_lastPage := False,
       dc_children := [(CreateObjAttrDir now dirPath)\<lparr>a_Name := ''.''\<rparr>,
         (CreateObjAttrDir now (path_dir (trim_suffix dirPath [slash])))\<lparr>a_Name := ''..''\<rparr>]\<rparr>"

text \<open>The next page goes to the end of the window, or replaces it when the window gets too large.\<close>

definition add_page :: "int \<Rightarrow> ObjAttr list \<Rightarrow> string \<Rightarrow> dirChildCache \<Rightarrow> dirChildCache" where
  "add_page offset attrs token c =
     (let k = int (length attrs);
          c1 = (if wrapu64 (dc_length c + k) > MaxDirListCount
                then c\<lparr>dc_sIndex := offset, dc_eIndex := offset, dc_children := [], dc_length := 0\<rparr> else c)
      in c1\<lparr>dc_eIndex := wrapu64 (dc_eIndex c1 + k), dc_children := dc_children c1 @ attrs,
            dc_length := wrapu64 (dc_length c1 + k), dc_token := token, dc_lastPage := (token = [])\<rparr>)"

definition populateDirChildCache ::
  "'n fuse_env \<Rightarrow> int \<Rightarrow> string \<Rightarrow> int \<Rightarrow> dirChildCache \<Rightarrow> 'n \<Rightarrow> ((int \<times> dirChildCache) \<times> 'n) option" where
  "populateDirChildCache E now dirPath offset c n =
     (if dc_lastPage c then Some ((0, c), n)
      else do {
        ((attrs, token, e), n1) \<leftarrow>
          StreamDir (fe_next E) now \<lparr>sd_Name = dirPath, sd_Offset = 0, sd_Token = dc_token c, sd_Count = 0\<rparr> n;
        if e \<noteq> None then Some ((fuseErrnoFromError e, c), n1)
        else Some ((0, add_page offset attrs token c), n1)
      })"

text \<open>
  The callback of the kernel takes a name, attributes and the offset of the entry behind, and says whether it
  had room. The entry that has been offered counts as served either way.
\<close>

type_synonym 'f filler = "string \<Rightarrow> Stat_t \<Rightarrow> int \<Rightarrow> 'f \<Rightarrow> bool \<times> 'f"

fun serve_entries :: "Libfuse \<Rightarrow> 'f filler \<Rightarrow> ObjAttr list \<Rightarrow> Stat_t \<Rightarrow> int \<Rightarrow> 'f \<Rightarrow> (int \<times> bool) \<times> 'f" where
  "serve_entries lf fill [] stbuf nextOffset f = ((nextOffset, False), f)"
| "serve_entries lf fill (a # as) stbuf nextOffset f =
     (let st = fillStat lf a stbuf; nx = wrapu64 (nextOffset + 1); (ok, f1) = fill (a_Name a) st (wrap64 nx) f in
      if ok then serve_entries lf fill as st nx f1 else ((nx, True), f1))"

definition serveCachedEntries :: "Libfuse \<Rightarrow> 'f filler \<Rightarrow> dirChildCache \<Rightarrow> int \<Rightarrow> 'f \<Rightarrow> (int \<times> bool) \<times> 'f" where
  "serveCachedEntries lf fill c startOffset f =
     (case serve_entries lf fill (drop (nat (wrapu64 (startOffset - dc_sIndex c))) (dc_children c)) zero_stat startOffset f of
        ((nx, dn), f1) \<Rightarrow> ((nx, dn \<or> dc_lastPage c), f1))"

partial_function (option) readdir_loop ::
  "'n fuse_env \<Rightarrow> Libfuse \<Rightarrow> int \<Rightarrow> string \<Rightarrow> 'f filler \<Rightarrow> int \<Rightarrow> dirChildCache \<Rightarrow> 'f \<Rightarrow> 'n \<Rightarrow> ((int \<times> dirChildCache \<times> 'f) \<times> 'n) option" where
  "readdir_loop E lf now dirPath fill startOffset c f n =
     (if dc_lastPage c \<and> startOffset \<ge> dc_eIndex c then Some ((0, c, f), n)
      else Option.bind
        (if startOffset \<ge> dc_sIndex c \<and> startOffset < dc_eIndex c then Some ((0, c), n)
         else populateDirChildCache E now dirPath startOffset c n)
        (\<lambda>((code, c1), n1).
           if code \<noteq> 0 then Some ((code, c1, f), n1)
           else if startOffset \<ge> dc_eIndex c1 then Some ((0, c1, f), n1)
           else case serveCachedEntries lf fill c1 startOffset f of
             ((nx, dn), f1) \<Rightarrow>
               if dn then Some ((0, c1, f1), n1) else readdir_loop E lf now dirPath fill nx c1 f1 n1))"

declare readdir_loop.simps [code]

definition fuse_Readdir ::
  "'n fuse_env \<Rightarrow> int \<Rightarrow> 'f filler \<Rightarrow> int \<Rightarrow> int \<Rightarrow> 'f \<Rightarrow> 'n fuse_state \<Rightarrow> ((int \<times> 'f) \<times> 'n fuse_state) option" where
  "fuse_Readdir E now fill ofst fh f s =
     (let lf = fst s in
      case fuse_Load fh lf of
        None \<Rightarrow> Some ((- fuse_errno EBADF, f), s)
      | Some (FileHandle h) \<Rightarrow> Some ((- fuse_errno EIO, f), s)
      | Some (DirHandle dirPath c) \<Rightarrow>
          let offset = wrapu64 ofst; c1 = (if offset = 0 then cacheDots now dirPath c else c) in
          map_option (\<lambda>((code, c2, f1), n1). ((code, f1), (lf\<lparr>lf_table := map_store fh (DirHandle dirPath c2) (lf_table lf)\<rparr>, n1)))
            (readdir_loop E lf now dirPath fill offset c1 f (snd s)))"

section \<open>Directories\<close>

text \<open>The result of a call that only reports an error.\<close>

definition fuse_result :: "(err \<times> 'n fuse_state) option \<Rightarrow> (int \<times> 'n fuse_state) option" where
  "fuse_result r = map_option (\<lambda>(e, s). (fuseErrnoFromError e, s)) r"

text \<open>An operation on a name.\<close>

definition with_name :: "string \<Rightarrow> 'n fuse_state \<Rightarrow> (string \<Rightarrow> (int \<times> 'n fuse_state) option) \<Rightarrow> (int \<times> 'n fuse_state) option" where
  "with_name path s f = (let (name, errno) = normalizeFusePath path in if errno \<noteq> 0 then Some (errno, s) else f name)"

definition fuse_Mkdir :: "'n fuse_env \<Rightarrow> int \<Rightarrow> string \<Rightarrow> 32 word \<Rightarrow> 'n fuse_state \<Rightarrow> (int \<times> 'n fuse_state) option" where
  "fuse_Mkdir E now path mode s = with_name path s (\<lambda>name.
     fuse_result (fe_call (CreateDir (fe_next E) now \<lparr>cd_Name = name, cd_Mode = fileModeFromFuse mode\<rparr>) s))"

definition fuse_Rmdir :: "'n fuse_env \<Rightarrow> int \<Rightarrow> string \<Rightarrow> 'n fuse_state \<Rightarrow> (int \<times> 'n fuse_state) option" where
  "fuse_Rmdir E now path s = with_name path s (\<lambda>name. do {
     (is_empty, s1) \<leftarrow> fe_call (IsDirEmpty (fe_next E) now \<lparr>opt_Name = name\<rparr>) s;
     if \<not> is_empty then Some (- fuse_errno ENOTEMPTY, s1)
     else fuse_result (fe_call (DeleteDir (fe_next E) now \<lparr>opt_Name = name\<rparr>) s1)
   })"

definition fuse_Fsyncdir :: "'n fuse_env \<Rightarrow> int \<Rightarrow> string \<Rightarrow> 'n fuse_state \<Rightarrow> (int \<times> 'n fuse_state) option" where
  "fuse_Fsyncdir E now path s = with_name path s (\<lambda>name. fuse_result (fe_call (SyncDir (fe_next E) now \<lparr>opt_Name = name\<rparr>) s))"

section \<open>Files\<close>

definition fuse_opened :: "((nat option \<times> err) \<times> 'n fuse_state) option \<Rightarrow> ((int \<times> int) \<times> 'n fuse_state) option" where
  "fuse_opened r = do {
     ((h, e), s) \<leftarrow> r;
     if e \<noteq> None then Some ((fuseErrnoFromError e, 0), s)
     else do { x \<leftarrow> h; (fh, lf) \<leftarrow> fuse_Add (FileHandle x) (fst s); Some ((0, fh), (lf, snd s)) }
   }"

definition fuse_Create :: "'n fuse_env \<Rightarrow> int \<Rightarrow> string \<Rightarrow> 32 word \<Rightarrow> 'n fuse_state \<Rightarrow> ((int \<times> int) \<times> 'n fuse_state) option" where
  "fuse_Create E now path mode s =
     (let (name, errno) = normalizeFusePath path in
      if errno \<noteq> 0 then Some ((errno, 0), s)
      else fuse_opened (fe_call (fe_Create E now \<lparr>cf_Name = name, cf_Mode = fileModeFromFuse mode\<rparr>) s))"

definition fuse_Open :: "'n fuse_env \<Rightarrow> int \<Rightarrow> string \<Rightarrow> int \<Rightarrow> 'n fuse_state \<Rightarrow> ((int \<times> int) \<times> 'n fuse_state) option" where
  "fuse_Open E now path flags s =
     (let (name, errno) = normalizeFusePath path in
      if errno \<noteq> 0 then Some ((errno, 0), s)
      else fuse_opened (fe_call (fe_Open E now \<lparr>of_Name = name, of_Flags = flags, of_Mode = lf_filePermission (fst s)\<rparr>) s))"

text \<open>
  The bytes read come with the number of them or the error. A handle that is cached in a local file is read
  there. The error \<open>io.EOF\<close> is none.
\<close>

definition fuse_Read :: "'n fuse_env \<Rightarrow> int \<Rightarrow> nat \<Rightarrow> int \<Rightarrow> int \<Rightarrow> 'n fuse_state \<Rightarrow> ((int \<times> string) \<times> 'n fuse_state) option" where
  "fuse_Read E now len ofst fh s =
     (case fuse_Load fh (fst s) of
        None \<Rightarrow> Some ((- fuse_errno EBADF, []), s)
      | Some (DirHandle p c) \<Rightarrow> None
      | Some (FileHandle h) \<Rightarrow> do {
          ((bs, e), s1) \<leftarrow> (if fe_Cached E h (snd s) then Some (fe_ReadAt E h len ofst (snd s), s)
                            else fe_call (fe_Read E now h len ofst) s);
          Some (if e \<noteq> None \<and> e \<noteq> Some (Errorf ''EOF'') then (fuseErrnoFromError e, bs) else (int (length bs), bs), s1)
        })"

definition fuse_Write :: "'n fuse_env \<Rightarrow> int \<Rightarrow> string \<Rightarrow> int \<Rightarrow> int \<Rightarrow> 'n fuse_state \<Rightarrow> (int \<times> 'n fuse_state) option" where
  "fuse_Write E now data ofst fh s = with_file fh s (\<lambda>h. do {
     ((k, e), s1) \<leftarrow> fe_call (fe_Write E now h data ofst) s;
     Some (if e \<noteq> None then fuseErrnoFromError e else k, s1)
   })"

definition fuse_Flush :: "'n fuse_env \<Rightarrow> int \<Rightarrow> int \<Rightarrow> 'n fuse_state \<Rightarrow> (int \<times> 'n fuse_state) option" where
  "fuse_Flush E now fh s = with_file fh s (\<lambda>h.
     if \<not> fe_Dirty E h (snd s) then Some (0, s) else fuse_result (fe_call (fe_Flush E now h) s))"

definition fuse_Truncate :: "'n fuse_env \<Rightarrow> int \<Rightarrow> string \<Rightarrow> int \<Rightarrow> int \<Rightarrow> 'n fuse_state \<Rightarrow> (int \<times> 'n fuse_state) option" where
  "fuse_Truncate E now path sz fh s = with_name path s (\<lambda>name.
     let h = (case fuse_Load fh (fst s) of Some (FileHandle h) \<Rightarrow> Some h | _ \<Rightarrow> None) in
     fuse_result (fe_call (fe_Truncate E now h name sz) s))"

text \<open>The number of a handle whose release fails stays in the table.\<close>

definition fuse_Release :: "'n fuse_env \<Rightarrow> int \<Rightarrow> int \<Rightarrow> 'n fuse_state \<Rightarrow> (int \<times> 'n fuse_state) option" where
  "fuse_Release E now fh s = with_file fh s (\<lambda>h. do {
     (e, s1) \<leftarrow> fe_call (fe_Release E now h) s;
     Some (if e \<noteq> None then (fuseErrnoFromError e, s1) else (0, (fuse_Delete fh (fst s1), snd s1)))
   })"

definition fuse_Fsync :: "'n fuse_env \<Rightarrow> int \<Rightarrow> int \<Rightarrow> 'n fuse_state \<Rightarrow> (int \<times> 'n fuse_state) option" where
  "fuse_Fsync E now fh s =
     (if fh = 0 then Some (- fuse_errno EIO, s)
      else with_file fh s (\<lambda>h. fuse_result (fe_call (fe_Sync E now h) s)))"

definition fuse_Unlink :: "'n fuse_env \<Rightarrow> int \<Rightarrow> string \<Rightarrow> 'n fuse_state \<Rightarrow> (int \<times> 'n fuse_state) option" where
  "fuse_Unlink E now path s = with_name path s (\<lambda>name. fuse_result (fe_call (DeleteFile (fe_next E) now \<lparr>opt_Name = name\<rparr>) s))"

text \<open>Renaming a directory looks at the destination first, renaming a file only when it failed.\<close>

definition rename_dir :: "'n fuse_env \<Rightarrow> int \<Rightarrow> string \<Rightarrow> string \<Rightarrow> 'n fuse_state \<Rightarrow> (int \<times> 'n fuse_state) option" where
  "rename_dir E now src dst s = do {
     ((dstAttr, dstErr), s1) \<leftarrow> fe_call (GetAttr (fe_next E) now (attr_options dst)) s;
     case dstErr of
       Some e \<Rightarrow>
         if is_err_permission e then Some (- fuse_errno EACCES, s1)
         else fuse_result (fe_call (RenameDir (fe_next E) now \<lparr>rd_Src = src, rd_Dst = dst\<rparr>) s1)
     | None \<Rightarrow> do {
         a \<leftarrow> dstAttr;
         if \<not> IsDir a then Some (- fuse_errno ENOTDIR, s1)
         else do {
           (is_empty, s2) \<leftarrow> fe_call (IsDirEmpty (fe_next E) now \<lparr>opt_Name = dst\<rparr>) s1;
           if \<not> is_empty then Some (- fuse_errno ENOTEMPTY, s2)
           else fuse_result (fe_call (RenameDir (fe_next E) now \<lparr>rd_Src = src, rd_Dst = dst\<rparr>) s2)
         }
       }
   }"

definition rename_file :: "'n fuse_env \<Rightarrow> int \<Rightarrow> string \<Rightarrow> string \<Rightarrow> ObjAttr \<Rightarrow> 'n fuse_state \<Rightarrow> (int \<times> 'n fuse_state) option" where
  "rename_file E now src dst srcAttr s = do {
     (e, s1) \<leftarrow> fe_call (RenameFile (fe_next E) now \<lparr>rf_Src = src, rf_Dst = dst, rf_SrcAttr = Some srcAttr, rf_DstAttr = None\<rparr>) s;
     case e of
       None \<Rightarrow> Some (0, s1)
     | Some err \<Rightarrow> do {
         ((dstAttr, dstErr), s2) \<leftarrow> fe_call (GetAttr (fe_next E) now (attr_options dst)) s1;
         isDir \<leftarrow> (if dstErr = None then map_option IsDir dstAttr else Some False);
         Some (if isDir then - fuse_errno EISDIR
               else if is_err_permission err \<or> (\<exists>d \<in> set_option dstErr. is_err_permission d) then - fuse_errno EACCES
               else fuseErrnoFromError (Some err), s2)
       }
   }"

definition fuse_Rename :: "'n fuse_env \<Rightarrow> int \<Rightarrow> string \<Rightarrow> string \<Rightarrow> 'n fuse_state \<Rightarrow> (int \<times> 'n fuse_state) option" where
  "fuse_Rename E now oldpath newpath s = with_name oldpath s (\<lambda>src. with_name newpath s (\<lambda>dst.
     if src = [] \<or> dst = [] then Some (- fuse_errno ENOENT, s)
     else do {
       ((srcAttr, srcErr), s1) \<leftarrow> fe_call (GetAttr (fe_next E) now (attr_options src)) s;
       if srcErr \<noteq> None then Some (fuseErrnoFromError srcErr, s1)
       else do {
         a \<leftarrow> srcAttr;
         if IsDir a then rename_dir E now src dst s1 else rename_file E now src dst a s1
       }
     }))"

section \<open>Links and modes\<close>

definition fuse_Symlink :: "'n fuse_env \<Rightarrow> int \<Rightarrow> string \<Rightarrow> string \<Rightarrow> 'n fuse_state \<Rightarrow> (int \<times> 'n fuse_state) option" where
  "fuse_Symlink E now target newpath s = with_name newpath s (\<lambda>name.
     fuse_result (fe_call (CreateLink (fe_next E) now \<lparr>cl_Name = name, cl_Target = NormalizeObjectName target\<rparr>) s))"

definition fuse_Readlink :: "'n fuse_env \<Rightarrow> int \<Rightarrow> string \<Rightarrow> 'n fuse_state \<Rightarrow> ((int \<times> string) \<times> 'n fuse_state) option" where
  "fuse_Readlink E now path s =
     (let (name, errno) = normalizeFusePath path in
      if errno \<noteq> 0 then Some ((errno, []), s)
      else do {
        ((attr, e), s1) \<leftarrow> fe_call (GetAttr (fe_next E) now (attr_options name)) s;
        let linkSize = (case (e, attr) of (None, Some a) \<Rightarrow> a_Size a | _ \<Rightarrow> 0);
        ((target, e1), s2) \<leftarrow> fe_call (ReadLink (fe_next E) now \<lparr>rk_Name = name, rk_Size = linkSize\<rparr>) s1;
        Some ((fuseErrnoFromError e1, target), s2)
      })"

definition fuse_Chmod :: "'n fuse_env \<Rightarrow> int \<Rightarrow> string \<Rightarrow> 32 word \<Rightarrow> 'n fuse_state \<Rightarrow> (int \<times> 'n fuse_state) option" where
  "fuse_Chmod E now path mode s = with_name path s (\<lambda>name.
     fuse_result (fe_call (Chmod (fe_next E) now \<lparr>cm_Name = name, cm_Mode = fileModeFromFuse mode\<rparr>) s))"

text \<open>Owners and times are not changed, and the rest is not implemented.\<close>

definition fuse_Chown :: "string \<Rightarrow> 'n fuse_state \<Rightarrow> (int \<times> 'n fuse_state) option" where
  "fuse_Chown path s = with_name path s (\<lambda>name. Some (0, s))"

definition fuse_Utimens :: "string \<Rightarrow> 'n fuse_state \<Rightarrow> (int \<times> 'n fuse_state) option" where
  "fuse_Utimens path s = with_name path s (\<lambda>name. Some (0, s))"

definition fuse_unsupported :: "'n fuse_state \<Rightarrow> int \<times> 'n fuse_state" where
  "fuse_unsupported s = (- fuse_errno ENOSYS, s)"

section \<open>Configuration\<close>

text \<open>A key that is not set is \<open>None\<close>; the current user and group are what the operating system says, if it does.\<close>

record LibfuseOptions =
  lo_mountPath :: string
  lo_DefaultPermission :: "32 word"
  lo_AttributeExpiration :: "int option"
  lo_EntryExpiration :: "int option"
  lo_NegativeEntryExpiration :: "int option"
  lo_EnableFuseTrace :: bool
  lo_allowOther :: bool
  lo_allowRoot :: bool
  lo_readOnly :: bool
  lo_ExtensionPath :: string
  lo_DisableWritebackCache :: bool
  lo_IgnoreOpenFlags :: bool
  lo_nonEmptyMount :: bool
  lo_NetworkShare :: bool
  lo_Uid :: "int option"
  lo_Gid :: "int option"
  lo_MaxFuseThreads :: "int option"
  lo_DirectIO :: bool
  lo_Umask :: int
  lo_DisplayCapacityMb :: "int option"
  lo_WindowsSSDL :: string

definition fuse_defaultExpiration :: int where "fuse_defaultExpiration = 120"
definition defaultMaxFuseThreads :: int where "defaultMaxFuseThreads = 128"
definition DefaultCapacityMb :: int where "DefaultCapacityMb = 1073741824"

text \<open>When the current user cannot be found the ids are whatever was returned: zero.\<close>

definition fuse_Validate :: "(int \<times> int) option \<Rightarrow> LibfuseOptions \<Rightarrow> Libfuse \<Rightarrow> Libfuse" where
  "fuse_Validate user opt lf =
     (let directIO = (lo_DirectIO opt \<or> lf_disableKernelCache lf);
          perm = (\<lambda>def. if lo_allowOther opt then 0x1FF else if lo_DefaultPermission opt \<noteq> 0 then lo_DefaultPermission opt else def);
          expire = (\<lambda>v. if directIO then 0 else case v of Some t \<Rightarrow> t | None \<Rightarrow> fuse_defaultExpiration);
          set_ids = (lo_Uid opt \<noteq> None \<or> lo_Gid opt \<noteq> None);
          id_of = (\<lambda>v current. if set_ids then (case v of Some i \<Rightarrow> i | None \<Rightarrow> 0)
                     else case user of Some u \<Rightarrow> current u | None \<Rightarrow> 0) in
      lf\<lparr>lf_mountPath := lo_mountPath opt, lf_readOnly := lo_readOnly opt, lf_traceEnable := lo_EnableFuseTrace opt,
        lf_allowOther := lo_allowOther opt, lf_allowRoot := lo_allowRoot opt, lf_extensionPath := lo_ExtensionPath opt,
        lf_disableWritebackCache := lo_DisableWritebackCache opt, lf_ignoreOpenFlags := lo_IgnoreOpenFlags opt,
        lf_nonEmptyMount := lo_nonEmptyMount opt, lf_directIO := directIO, lf_networkShare := lo_NetworkShare opt,
        lf_ownerGID := id_of (lo_Gid opt) snd, lf_ownerUID := id_of (lo_Uid opt) fst, lf_umask := lo_Umask opt,
        lf_windowsSDDL := lo_WindowsSSDL opt, lf_dirPermission := perm 0x1FD, lf_filePermission := perm 0x1ED,
        lf_entryExpiration := expire (lo_EntryExpiration opt), lf_attributeExpiration := expire (lo_AttributeExpiration opt),
        lf_negativeTimeout := expire (lo_NegativeEntryExpiration opt),
        lf_maxFuseThreads := (case lo_MaxFuseThreads opt of Some t \<Rightarrow> t | None \<Rightarrow> defaultMaxFuseThreads),
        lf_displayCapacityMb := (case lo_DisplayCapacityMb opt of
           Some m \<Rightarrow> if m > 0 then m else DefaultCapacityMb | None \<Rightarrow> DefaultCapacityMb)\<rparr>)"

text \<open>
  \<open>Configure\<close>: the sections \<open>libfuse\<close> and \<open>lfuse\<close> together, the other keys in the order they are read (mount
  path, read only, allow other, allow root, nonempty), and whether the kernel's cache is switched off. The
  trace is only kept for a mount in the foreground.
\<close>

record fuse_config =
  uc_libfuse :: "error + LibfuseOptions"
  uc_lfuse :: "error + LibfuseOptions"
  uc_mount :: "error + string"
  uc_readonly :: "error + bool"
  uc_allow_other :: "error + bool"
  uc_allow_root :: "error + bool"
  uc_nonempty :: "error + bool"
  uc_no_kernel_cache :: "bool option"
  uc_user :: "(int \<times> int) option"
  uc_foreground :: bool

fun first_error :: "(error + bool) list \<Rightarrow> err" where
  "first_error [] = None"
| "first_error (Inl e # rs) = Some e"
| "first_error (Inr b # rs) = first_error rs"

definition fuse_Configure :: "fuse_config \<Rightarrow> Libfuse \<Rightarrow> err \<times> Libfuse" where
  "fuse_Configure cfg lf =
     (case uc_libfuse cfg of
        Inl e \<Rightarrow> (Some (Errorf ''config error in libfuse [invalid config attributes]''), lf)
      | Inr c0 \<Rightarrow>
     (case uc_lfuse cfg of
        Inl e \<Rightarrow> (Some (Errorf ''config error in lfuse [invalid config attributes]''), lf)
      | Inr conf \<Rightarrow>
     (case uc_mount cfg of
        Inl e \<Rightarrow> (Some e, lf)
      | Inr mnt \<Rightarrow>
     (case first_error [uc_readonly cfg, uc_allow_other cfg, uc_allow_root cfg, uc_nonempty cfg] of
        Some e \<Rightarrow> (Some e, lf)
      | None \<Rightarrow>
          let opt = conf\<lparr>lo_mountPath := mnt, lo_readOnly := projr (uc_readonly cfg), lo_allowOther := projr (uc_allow_other cfg),
                lo_allowRoot := projr (uc_allow_root cfg), lo_nonEmptyMount := projr (uc_nonempty cfg)\<rparr>;
              lf1 = fuse_Validate (uc_user cfg) opt
                (case uc_no_kernel_cache cfg of Some b \<Rightarrow> lf\<lparr>lf_disableKernelCache := b\<rparr> | None \<Rightarrow> lf)
          in (None, if uc_foreground cfg then lf1 else lf1\<lparr>lf_traceEnable := False\<rparr>)))))"

end
