(* ===== verification/Libfuse_Listing.thy ===== *)
theory Libfuse_Listing
  imports Libfuse Entry_Cache
begin

text \<open>
  Listings through FUSE: over a storage whose listing does not change, the kernel gets every entry once and in
  order, however small its buffers are, as long as no page but the last is empty.
\<close>

section \<open>What the kernel collects\<close>

text \<open>A buffer with room for some entries.\<close>

type_synonym dir_entry = "string \<times> Stat_t \<times> int"

definition buffer :: "nat \<Rightarrow> dir_entry list filler" where
  "buffer cap = (\<lambda>name st ofst acc. if length acc < cap then (True, acc @ [(name, st, ofst)]) else (False, acc))"

text \<open>The entry of a listing at an index.\<close>

definition entry_at :: "Libfuse \<Rightarrow> ObjAttr list \<Rightarrow> nat \<Rightarrow> dir_entry" where
  "entry_at lf xs i = (a_Name (xs ! i), fillStat lf (xs ! i) zero_stat, int (Suc i))"

definition entries :: "Libfuse \<Rightarrow> ObjAttr list \<Rightarrow> nat \<Rightarrow> nat \<Rightarrow> dir_entry list" where
  "entries lf xs i j = map (entry_at lf xs) [i ..< j]"

lemma length_entries [simp]: "length (entries lf xs i j) = j - i"
  by (simp add: entries_def)

lemma entries_append: "i \<le> j \<Longrightarrow> j \<le> k \<Longrightarrow> entries lf xs i j @ entries lf xs j k = entries lf xs i k"
  using upt_add_eq_append [of i j "k - j"] by (simp add: entries_def flip: map_append)

lemma fillStat_over: "fillStat lf a (fillStat lf b st) = fillStat lf a zero_stat"
  by (simp add: fillStat_def Let_def zero_stat_def)

lemma fillStat_zero: "fillStat lf a st = fillStat lf a zero_stat"
  by (cases st) (simp add: fillStat_def Let_def zero_stat_def)

text \<open>Serving a part of the listing that lies in the window, until the buffer is full.\<close>

lemma serve_entries_range:
  assumes "i \<le> j" "j \<le> length xs" "int (length xs) < 2 ^ 63" "length acc \<le> cap"
  shows "\<exists>nx dn. serve_entries lf (buffer cap) (drop i (take j xs)) st (int i) acc =
      ((nx, dn), acc @ entries lf xs i (min j (i + (cap - length acc)))) \<and>
    (dn \<longleftrightarrow> i + (cap - length acc) < j) \<and> (\<not> dn \<longrightarrow> nx = int j)"
  using assms
proof (induction "j - i" arbitrary: i st acc)
  case 0
  then show ?case by (simp add: entries_def)
next
  case (Suc d)
  then have ij: "i < j" by simp
  then have cons: "drop i (take j xs) = xs ! i # drop (Suc i) (take j xs)"
    using Suc.prems(2) by (simp add: Cons_nth_drop_Suc [symmetric])
  have w: "wrapu64 (int i + 1) = int (Suc i)" "wrap64 (int (Suc i)) = int (Suc i)"
    using ij Suc.prems(2,3) by (simp_all add: wrapu64_def wrap64_def)
  show ?case
  proof (cases "length acc < cap")
    case False
    then have "cap - length acc = 0" by simp
    moreover have "buffer cap (a_Name (xs ! i)) st' k acc = (False, acc)" for st' k using False by (simp add: buffer_def)
    ultimately show ?thesis using ij by (intro exI [of _ "wrapu64 (int i + 1)"] exI [of _ True]) (simp add: cons Let_def entries_def)
  next
    case True
    let ?acc = "acc @ [entry_at lf xs i]"
    have f: "buffer cap (a_Name (xs ! i)) (fillStat lf (xs ! i) st) (int (Suc i)) acc = (True, ?acc)"
      using True by (simp add: buffer_def entry_at_def fillStat_zero [of lf "xs ! i" st])
    have m: "Suc i + (cap - length ?acc) = i + (cap - length acc)" using True by simp
    have "serve_entries lf (buffer cap) (drop i (take j xs)) st (int i) acc =
        serve_entries lf (buffer cap) (drop (Suc i) (take j xs)) (fillStat lf (xs ! i) st) (int (Suc i)) ?acc"
      by (simp only: cons serve_entries.simps Let_def w f split_conv if_True)
    moreover have "?acc @ entries lf xs (Suc i) (min j (i + (cap - length acc))) = acc @ entries lf xs i (min j (i + (cap - length acc)))"
      using True ij by (simp add: entries_def upt_conv_Cons)
    ultimately show ?thesis
      using Suc.hyps(1) [of "Suc i" ?acc "fillStat lf (xs ! i) st"] Suc.hyps(2) Suc.prems True ij unfolding m by simp
  qed
qed

section \<open>The window\<close>

text \<open>What is still to come from a token: pages, of which only the last may be empty.\<close>

fun pages_from :: "(string \<Rightarrow> ObjAttr list \<times> string \<times> err) \<Rightarrow> string \<Rightarrow> ObjAttr list list \<Rightarrow> bool" where
  "pages_from ans t [] = False"
| "pages_from ans t [p] = (ans t = (p, [], None))"
| "pages_from ans t (p # q # ps) = (\<exists>t'. t' \<noteq> [] \<and> p \<noteq> [] \<and> ans t = (p, t', None) \<and> pages_from ans t' (q # ps))"

text \<open>A window of a listing, with the pages behind it.\<close>

definition window :: "(string \<Rightarrow> ObjAttr list \<times> string \<times> err) \<Rightarrow> ObjAttr list \<Rightarrow> ObjAttr list list \<Rightarrow> nat \<Rightarrow> nat \<Rightarrow> dirChildCache \<Rightarrow> bool" where
  "window ans xs rest a b c \<longleftrightarrow> a \<le> b \<and> b \<le> length xs \<and> drop b xs = concat rest \<and> dc_sIndex c = int a \<and> dc_eIndex c = int b \<and>
     dc_length c = int (b - a) \<and> dc_children c = drop a (take b xs) \<and> (dc_lastPage c \<longleftrightarrow> rest = []) \<and>
     (rest \<noteq> [] \<longrightarrow> pages_from ans (dc_token c) rest)"

lemma window_serves:
  assumes w: "window ans xs rest a b c" and i: "a \<le> i" "i \<le> b" and fit: "int (length xs) < 2 ^ 63" "length acc \<le> cap"
  shows "\<exists>nx dn. serveCachedEntries lf (buffer cap) c (int i) acc = ((nx, dn), acc @ entries lf xs i (min b (i + (cap - length acc)))) \<and>
    (dn \<longleftrightarrow> i + (cap - length acc) < b \<or> rest = []) \<and> (\<not> dn \<longrightarrow> nx = int b)"
proof -
  have b: "b \<le> length xs" using w by (simp add: window_def)
  have "wrapu64 (int i - int a) = int (i - a)" using i b fit(1) by (simp add: wrapu64_def of_nat_diff)
  then have "drop (nat (wrapu64 (int i - dc_sIndex c))) (dc_children c) = drop i (take b xs)"
    using w i by (auto simp: window_def nat_diff_distrib)
  then show ?thesis
    using serve_entries_range [OF i(2) b fit, of lf zero_stat] w unfolding serveCachedEntries_def by (auto simp: window_def)
qed

context fixed_listing
begin

text \<open>The next page goes into the window, or starts a new one at the offset that was asked for.\<close>

lemma populate_window:
  assumes w: "window (answer dirPath) xs (p # ps) a b c" and fe: "fe_next E = nc" and fit: "int (length xs) < 2 ^ 63"
  shows "\<exists>a' c'. populateDirChildCache E now dirPath (int b) c n0 = Some ((0, c'), n0) \<and> a' \<le> b \<and>
    window (answer dirPath) xs ps a' (b + length p) c' \<and> (ps \<noteq> [] \<longrightarrow> p \<noteq> [])"
proof -
  have c: "a \<le> b" "b \<le> length xs" "drop b xs = p @ concat ps" "dc_sIndex c = int a" "dc_eIndex c = int b" "dc_length c = int (b - a)"
    "dc_children c = drop a (take b xs)" "\<not> dc_lastPage c" "pages_from (answer dirPath) (dc_token c) (p # ps)"
    using w by (simp_all add: window_def)
  obtain t where t: "answer dirPath (dc_token c) = (p, t, None)" "t = [] \<longleftrightarrow> ps = []" "ps \<noteq> [] \<longrightarrow> p \<noteq> [] \<and> pages_from (answer dirPath) t ps"
    using c(9) by (cases ps) auto
  have len: "length xs - b = length p + length (concat ps)" using arg_cong [OF c(3), of length] by simp
  then have bound: "b + length p \<le> length xs" using c(2) by linarith
  have ext: "take (b + length p) xs = take b xs @ p" "drop (b + length p) xs = concat ps"
    using c(3) by (simp_all add: take_add) (metis add.commute append_eq_conv_conj drop_drop)
  have sums: "wrapu64 (int b + int (length p)) = int (b + length p)" "wrapu64 (int (b - a) + int (length p)) = int (b - a + length p)"
    "wrapu64 (int (length p)) = int (length p)"
    using bound fit c(1) by (simp_all add: wrapu64_def)
  let ?c = "add_page (int b) p t c"
  have pop: "populateDirChildCache E now dirPath (int b) c n0 = Some ((0, ?c), n0)"
    using c(8) t(1) by (simp add: populateDirChildCache_def fe listing)
  show ?thesis
  proof (cases "wrapu64 (dc_length c + int (length p)) > MaxDirListCount")
    case True
    then have "window (answer dirPath) xs ps b (b + length p) ?c"
      using t(2,3) bound ext sums by (simp add: window_def add_page_def Let_def)
    then show ?thesis using pop t(3) by (intro exI [of _ b] exI [of _ ?c]) auto
  next
    case False
    then have "window (answer dirPath) xs ps a (b + length p) ?c"
      using c t(2,3) bound ext sums by (simp add: window_def add_page_def Let_def)
    then show ?thesis using pop t(3) c(1) by (intro exI [of _ a] exI [of _ ?c]) auto
  qed
qed

text \<open>One call: from an offset in the window it fills the buffer, or gives all there is.\<close>

lemma readdir_loop_serves:
  assumes "window (answer dirPath) xs rest a b c" "a \<le> i" "i \<le> b" "fe_next E = nc" "int (length xs) < 2 ^ 63" "length acc \<le> cap"
  shows "\<exists>c' rest' a' b' j. readdir_loop E lf now dirPath (buffer cap) (int i) c acc n0 = Some ((0, c', acc @ entries lf xs i j), n0) \<and>
    j = min (length xs) (i + (cap - length acc)) \<and> window (answer dirPath) xs rest' a' b' c' \<and> a' \<le> j \<and> j \<le> b'"
  using assms
proof (induction "2 * length rest + (if i < b then 1 else 0 :: nat)" arbitrary: rest a b c i acc rule: less_induct)
  case less
  have w: "b \<le> length xs" "dc_sIndex c = int a" "dc_eIndex c = int b" "dc_lastPage c \<longleftrightarrow> rest = []" "drop b xs = concat rest"
    using less.prems(1) by (simp_all add: window_def)
  \<comment> \<open>serving from a window that holds the offset\<close>
  have serve: ?case if window: "window (answer dirPath) xs rest1 a1 b1 c1" and i1: "a1 \<le> i" "i < b1" and
    loop: "readdir_loop E lf now dirPath (buffer cap) (int i) c acc n0 =
      (case serveCachedEntries lf (buffer cap) c1 (int i) acc of ((nx, dn), f1) \<Rightarrow>
         if dn then Some ((0, c1, f1), n0) else readdir_loop E lf now dirPath (buffer cap) nx c1 f1 n0)" and
    smaller: "2 * length rest1 < 2 * length rest + (if i < b then 1 else 0)"
    for rest1 a1 b1 c1
  proof -
    have b1: "b1 \<le> length xs" "rest1 = [] \<Longrightarrow> b1 = length xs" using window by (auto simp: window_def)
    obtain nx dn where s: "serveCachedEntries lf (buffer cap) c1 (int i) acc = ((nx, dn), acc @ entries lf xs i (min b1 (i + (cap - length acc))))"
      "dn \<longleftrightarrow> i + (cap - length acc) < b1 \<or> rest1 = []" "\<not> dn \<longrightarrow> nx = int b1"
      using window_serves [OF window i1(1) less_imp_le [OF i1(2)] less.prems(5,6)] by blast
    show ?thesis
    proof (cases dn)
      case True
      then have m: "min b1 (i + (cap - length acc)) = min (length xs) (i + (cap - length acc))" using s(2) b1 by auto
      have "readdir_loop E lf now dirPath (buffer cap) (int i) c acc n0 =
          Some ((0, c1, acc @ entries lf xs i (min (length xs) (i + (cap - length acc)))), n0)"
        using loop s(1) True m by simp
      moreover have "a1 \<le> min (length xs) (i + (cap - length acc))" "min (length xs) (i + (cap - length acc)) \<le> b1"
        using i1 b1 m by linarith+
      ultimately show ?thesis using window by blast
    next
      case False
      then have n: "i + (cap - length acc) \<ge> b1" "rest1 \<noteq> []" "nx = int b1" using s(2,3) by auto
      let ?acc = "acc @ entries lf xs i b1"
      have room: "length ?acc \<le> cap" using i1(2) less.prems(6) n(1) by simp
      have ab: "a1 \<le> b1" using i1 by simp
      have sm: "2 * length rest1 + (if b1 < b1 then 1 else 0) < 2 * length rest + (if i < b then 1 else 0)" using smaller by simp
      obtain c' rest' a' b' j where r: "readdir_loop E lf now dirPath (buffer cap) (int b1) c1 ?acc n0 = Some ((0, c', ?acc @ entries lf xs b1 j), n0)"
        "j = min (length xs) (b1 + (cap - length ?acc))" "window (answer dirPath) xs rest' a' b' c'" "a' \<le> j" "j \<le> b'"
        using less.hyps [OF sm window ab order_refl less.prems(4,5) room] by blast
      have j: "j = min (length xs) (i + (cap - length acc))" using r(2) i1(2) n(1) by simp
      then have "b1 \<le> j" using n(1) b1 by simp
      then have "entries lf xs i b1 @ entries lf xs b1 j = entries lf xs i j" using i1(2) by (intro entries_append) simp_all
      then have "readdir_loop E lf now dirPath (buffer cap) (int i) c acc n0 = Some ((0, c', acc @ entries lf xs i j), n0)"
        using loop s(1) False n r(1) by (simp add: min_absorb1)
      then show ?thesis using j r(3-5) by blast
    qed
  qed
  show ?case
  proof (cases "i < b")
    case True
    have loop: "readdir_loop E lf now dirPath (buffer cap) (int i) c acc n0 =
      (case serveCachedEntries lf (buffer cap) c (int i) acc of ((nx, dn), f1) \<Rightarrow>
         if dn then Some ((0, c, f1), n0) else readdir_loop E lf now dirPath (buffer cap) nx c f1 n0)"
      using True less.prems(2) w by (subst readdir_loop.simps) simp
    show ?thesis by (rule serve [OF less.prems(1,2) True loop]) (simp add: True)
  next
    case False
    then have ib: "i = b" using less.prems(3) by simp
    show ?thesis
    proof (cases rest)
      case Nil
      then have len: "length xs = b" using w(1,5) by simp
      have "readdir_loop E lf now dirPath (buffer cap) (int i) c acc n0 = Some ((0, c, acc), n0)"
        using Nil w ib by (subst readdir_loop.simps) simp
      then show ?thesis using less.prems(1,2) ib len
        by (intro exI [of _ c] exI [of _ rest] exI [of _ a] exI [of _ b] exI [of _ b]) (simp add: entries_def)
    next
      case (Cons p ps)
      obtain a' c' where p: "populateDirChildCache E now dirPath (int b) c n0 = Some ((0, c'), n0)" "a' \<le> b"
        "window (answer dirPath) xs ps a' (b + length p) c'" "ps \<noteq> [] \<longrightarrow> p \<noteq> []"
        using populate_window [OF less.prems(1) [unfolded Cons] less.prems(4,5)] by blast
      have c': "dc_eIndex c' = int (b + length p)" "b + length p \<le> length xs" "ps = [] \<Longrightarrow> b + length p = length xs"
        using p(3) by (auto simp: window_def)
      show ?thesis
      proof (cases "p = []")
        case True
        have "readdir_loop E lf now dirPath (buffer cap) (int i) c acc n0 = Some ((0, c', acc), n0)"
          using Cons w ib p(1) c'(1) True by (subst readdir_loop.simps) simp
        then show ?thesis using p(2-4) ib c' True
          by (intro exI [of _ c'] exI [of _ ps] exI [of _ a'] exI [of _ b] exI [of _ b]) (simp add: entries_def)
      next
        case False
        then have i1: "a' \<le> i" "i < b + length p" using p(2) ib by auto
        have loop: "readdir_loop E lf now dirPath (buffer cap) (int i) c acc n0 =
          (case serveCachedEntries lf (buffer cap) c' (int i) acc of ((nx, dn), f1) \<Rightarrow>
             if dn then Some ((0, c', f1), n0) else readdir_loop E lf now dirPath (buffer cap) nx c' f1 n0)"
          using Cons w ib p(1) c'(1) False by (subst readdir_loop.simps) simp
        show ?thesis by (rule serve [OF p(3) i1 loop]) (simp add: Cons)
      qed
    qed
  qed
qed

end

section \<open>Reading a directory to its end\<close>

text \<open>The entries of a directory: itself, its parent and what the storage lists.\<close>

definition whole_listing :: "int \<Rightarrow> string \<Rightarrow> ObjAttr list list \<Rightarrow> ObjAttr list" where
  "whole_listing now dirPath ps = dc_children (cacheDots now dirPath empty_window) @ concat ps"

text \<open>The kernel calls with the offset behind the last entry it took, and stops at an error.\<close>

fun readdirs :: "'n fuse_env \<Rightarrow> int \<Rightarrow> int \<Rightarrow> nat list \<Rightarrow> nat \<Rightarrow> 'n fuse_state \<Rightarrow> (dir_entry list \<times> 'n fuse_state) option" where
  "readdirs E now fh [] i s = Some ([], s)"
| "readdirs E now fh (k # ks) i s = do {
     ((code, got), s1) \<leftarrow> fuse_Readdir E now (buffer k) (int i) fh [] s;
     if code \<noteq> 0 then Some (got, s1)
     else do { (rest, s2) \<leftarrow> readdirs E now fh ks (i + length got) s1; Some (got @ rest, s2) }
   }"

context fixed_listing
begin

lemma cacheDots_window:
  assumes "pages_from (answer dirPath) [] ps"
  shows "window (answer dirPath) (whole_listing now dirPath ps) ps 0 2 (cacheDots now dirPath c)"
proof -
  have "ps \<noteq> []" using assms by auto
  then show ?thesis using assms by (simp add: window_def whole_listing_def cacheDots_def numeral_2_eq_2)
qed

text \<open>The state of the directory handle between two calls.\<close>

definition at_offset :: "int \<Rightarrow> string \<Rightarrow> ObjAttr list \<Rightarrow> int \<Rightarrow> nat \<Rightarrow> Libfuse \<Rightarrow> bool" where
  "at_offset now dirPath xs fh i lf \<longleftrightarrow> (\<exists>c. fuse_Load fh lf = Some (DirHandle dirPath c) \<and>
     (0 < i \<longrightarrow> (\<exists>rest a b. window (answer dirPath) xs rest a b c \<and> a \<le> i \<and> i \<le> b)))"

lemma Readdir_serves:
  assumes h: "at_offset now dirPath xs fh i lf" and i: "i \<le> length xs" and fe: "fe_next E = nc"
    and xs: "xs = whole_listing now dirPath ps" "pages_from (answer dirPath) [] ps" "int (length xs) < 2 ^ 63"
  shows "\<exists>lf'. fuse_Readdir E now (buffer k) (int i) fh [] (lf, n0) = Some ((0, entries lf xs i (min (length xs) (i + k))), (lf', n0)) \<and>
    at_offset now dirPath xs fh (min (length xs) (i + k)) lf' \<and> (\<forall>a st. fillStat lf' a st = fillStat lf a st)"
proof -
  obtain c where c: "fuse_Load fh lf = Some (DirHandle dirPath c)"
    "0 < i \<longrightarrow> (\<exists>rest a b. window (answer dirPath) xs rest a b c \<and> a \<le> i \<and> i \<le> b)"
    using h unfolding at_offset_def by blast
  let ?c = "if i = 0 then cacheDots now dirPath c else c"
  obtain rest a b where w: "window (answer dirPath) xs rest a b ?c" "a \<le> i" "i \<le> b"
    using c(2) cacheDots_window [OF xs(2), of now c] xs(1) by (cases "i = 0") force+
  have nil: "length ([] :: dir_entry list) \<le> k" by simp
  obtain c' rest' a' b' j where r: "readdir_loop E lf now dirPath (buffer k) (int i) ?c [] n0 = Some ((0, c', [] @ entries lf xs i j), n0)"
    "j = min (length xs) (i + (k - length []))" "window (answer dirPath) xs rest' a' b' c'" "a' \<le> j" "j \<le> b'"
    using readdir_loop_serves [OF w fe xs(3) nil, of lf now] by auto
  let ?lf = "lf\<lparr>lf_table := map_store fh (DirHandle dirPath c') (lf_table lf)\<rparr>"
  have "wrapu64 (int i) = int i" using i xs(3) by (simp add: wrapu64_def)
  then have "fuse_Readdir E now (buffer k) (int i) fh [] (lf, n0) = Some ((0, entries lf xs i j), (?lf, n0))"
    using c(1) r(1) by (simp add: fuse_Readdir_def Let_def)
  moreover have "at_offset now dirPath xs fh j ?lf" using r(3-5) by (auto simp: at_offset_def fuse_Load_def)
  moreover have "\<forall>a st. fillStat ?lf a st = fillStat lf a st" by (simp add: fillStat_def Let_def)
  ultimately show ?thesis using r(2) by auto
qed

lemma readdirs_serve:
  assumes "at_offset now dirPath xs fh i lf" "i \<le> length xs" "fe_next E = nc"
    and "xs = whole_listing now dirPath ps" "pages_from (answer dirPath) [] ps" "int (length xs) < 2 ^ 63"
  shows "\<exists>s'. readdirs E now fh ks i (lf, n0) = Some (entries lf xs i (min (length xs) (i + sum_list ks)), s')"
  using assms(1,2)
proof (induction ks arbitrary: i lf)
  case Nil
  then show ?case by (simp add: entries_def)
next
  case (Cons k ks)
  let ?j = "min (length xs) (i + k)"
  obtain lf' where r: "fuse_Readdir E now (buffer k) (int i) fh [] (lf, n0) = Some ((0, entries lf xs i ?j), (lf', n0))"
    "at_offset now dirPath xs fh ?j lf'" "\<forall>a st. fillStat lf' a st = fillStat lf a st"
    using Readdir_serves [OF Cons.prems assms(3-6)] by blast
  obtain s' where s': "readdirs E now fh ks ?j (lf', n0) = Some (entries lf' xs ?j (min (length xs) (?j + sum_list ks)), s')"
    using Cons.IH [OF r(2)] by auto
  have same: "entries lf' xs = entries lf xs" using r(3) by (simp add: entries_def entry_at_def fun_eq_iff)
  have "i \<le> ?j" "?j \<le> min (length xs) (?j + sum_list ks)" using Cons.prems(2) by simp_all
  then have "entries lf xs i ?j @ entries lf xs ?j (min (length xs) (?j + sum_list ks)) = entries lf xs i (min (length xs) (?j + sum_list ks))"
    by (rule entries_append)
  moreover have "min (length xs) (?j + sum_list ks) = min (length xs) (i + sum_list (k # ks))" by auto
  moreover have "i + length (entries lf xs i ?j) = ?j" using Cons.prems(2) by simp
  ultimately show ?case using r(1) s' same by simp
qed

end

section \<open>Properties\<close>

text \<open> C8. A directory is listed completely, in order and without repetition. When the storage's listing of a directory
  does not change and none of its pages but the last is empty, calls of Readdir through a directory handle, each from the
  offset behind what the last one gave, with buffers of any sizes, together give the first entries of the directory
  itself, its parent and all pages, as many as the buffers hold, each once, with its attributes and the offset of the
  next one.\<close>

theorem directory_is_listed_once:
  assumes below: "\<And>now options. StreamDir (fe_next E) now options n = Some (answer (sd_Name options) (sd_Token options), n)"
    and h: "fuse_Load fh lf = Some (DirHandle dirPath c)" and pages: "pages_from (answer dirPath) [] ps"
    and fit: "int (length (concat ps)) + 2 < 2 ^ 63"
  shows "\<exists>s'. readdirs E now fh ks 0 (lf, n) =
    Some (entries lf (whole_listing now dirPath ps) 0 (min (2 + length (concat ps)) (sum_list ks)), s')"
proof -
  note l = fixed_listing.intro [of "fe_next E" n answer, OF below]
  have xs: "length (whole_listing now dirPath ps) = 2 + length (concat ps)" by (simp add: whole_listing_def cacheDots_def)
  have "fixed_listing.at_offset answer now dirPath (whole_listing now dirPath ps) fh 0 lf"
    using h fixed_listing.at_offset_def [OF l] by simp
  from fixed_listing.readdirs_serve [OF l this _ refl refl pages] fit xs show ?thesis by simp
qed

text \<open>Two pages, of two entries and of one, and a window with room for both.\<close>

definition demo_pages :: "string \<Rightarrow> string \<Rightarrow> ObjAttr list \<times> string \<times> err" where
  "demo_pages name t = (if t = [] then ([CreateObjAttr ''a'' 1 0, CreateObjAttr ''b'' 2 0], ''next'', None) else ([CreateObjAttr ''c'' 3 0], [], None))"

definition demo_lister :: "unit fuse_env" where
  "demo_lister = \<lparr>fe_next = (base_component None)\<lparr>StreamDir := (\<lambda>now options s. Some (demo_pages (sd_Name options) (sd_Token options), s))\<rparr>,
     fe_Create = (\<lambda>now options s. None), fe_Open = (\<lambda>now options s. None), fe_Read = (\<lambda>now h len off s. None), fe_Cached = (\<lambda>h s. False),
     fe_ReadAt = (\<lambda>h len off s. ([], None)), fe_Write = (\<lambda>now h d off s. None), fe_Dirty = (\<lambda>h s. False), fe_Flush = (\<lambda>now h s. None),
     fe_Sync = (\<lambda>now h s. None), fe_Release = (\<lambda>now h s. None), fe_Truncate = (\<lambda>now h p sz s. None)\<rparr>"

definition demo_fuse :: Libfuse where
  "demo_fuse = \<lparr>lf_mountPath = ''/mnt'', lf_dirPermission = 0x1FD, lf_filePermission = 0x1ED, lf_readOnly = False, lf_attributeExpiration = 120,
     lf_entryExpiration = 120, lf_negativeTimeout = 120, lf_allowOther = False, lf_allowRoot = False, lf_ownerUID = 1000, lf_ownerGID = 1000,
     lf_traceEnable = False, lf_extensionPath = [], lf_disableWritebackCache = False, lf_ignoreOpenFlags = True, lf_nonEmptyMount = False,
     lf_networkShare = False, lf_maxFuseThreads = 128, lf_directIO = False, lf_umask = 0, lf_displayCapacityMb = DefaultCapacityMb,
     lf_windowsSDDL = [], lf_disableKernelCache = False, lf_table = [(1, DirHandle ''d/'' empty_window)], lf_nextHandleID = 1\<rparr>"

theorem directory_is_listed_once_witness:
  "\<exists>got s'. readdirs demo_lister 7 1 [1, 3, 3] 0 (demo_fuse, ()) = Some (got, s') \<and>
    map (\<lambda>(name, st, ofst). (name, ofst)) got = [(''.'', 1), (''..'', 2), (''a'', 3), (''b'', 4), (''c'', 5)]"
proof -
  let ?ps = "[[CreateObjAttr ''a'' 1 0, CreateObjAttr ''b'' 2 0], [CreateObjAttr ''c'' 3 0]]"
  have below: "StreamDir (fe_next demo_lister) now options () = Some (demo_pages (sd_Name options) (sd_Token options), ())" for now options
    by (simp add: demo_lister_def)
  have h: "fuse_Load 1 demo_fuse = Some (DirHandle ''d/'' empty_window)" by (simp add: fuse_Load_def demo_fuse_def)
  have pages: "pages_from (demo_pages ''d/'') [] ?ps" by (simp add: demo_pages_def)
  have "map (\<lambda>(name, st, ofst). (name, ofst)) (entries demo_fuse (whole_listing 7 ''d/'' ?ps) 0 5) =
      [(''.'', 1), (''..'', 2), (''a'', 3), (''b'', 4), (''c'', 5)]" by code_simp
  then show ?thesis using directory_is_listed_once [OF below h pages, of 7 "[1, 3, 3]"] by auto
qed

text \<open> C32. An empty page ends the listing. When the storage answers a request for the next page with no entries but with
  a token to go on with, which storages may do, Readdir reports success without having offered anything, which the kernel
  takes for the end of the directory, although the handle knows that there is more.\<close>

theorem empty_page_ends_the_listing:
  assumes "fuse_Load fh (fst s) = Some (DirHandle dirPath c)" "0 < ofst" "ofst < 2 ^ 63" "dc_eIndex c = ofst" "\<not> dc_lastPage c"
    and page: "StreamDir (fe_next E) now \<lparr>sd_Name = dirPath, sd_Offset = 0, sd_Token = dc_token c, sd_Count = 0\<rparr> (snd s) = Some (([], t, None), n')"
    and more: "t \<noteq> []"
  shows "\<exists>s' c'. fuse_Readdir E now fill ofst fh f s = Some ((0, f), s') \<and> fuse_Load fh (fst s') = Some (DirHandle dirPath c') \<and>
    dc_token c' = t \<and> \<not> dc_lastPage c'"
proof -
  have w: "wrapu64 ofst = ofst" using assms(2,3) by (simp add: wrapu64_def)
  let ?c = "add_page ofst [] t c"
  have c: "dc_eIndex ?c = ofst" "dc_token ?c = t" "\<not> dc_lastPage ?c" using assms(4) more w by (simp_all add: add_page_def Let_def)
  have "populateDirChildCache E now dirPath ofst c (snd s) = Some ((0, ?c), n')"
    using assms(5) page by (simp add: populateDirChildCache_def)
  then have "readdir_loop E (fst s) now dirPath fill ofst c f (snd s) = Some ((0, ?c, f), n')"
    using assms(4,5) c(1) by (subst readdir_loop.simps) simp
  then show ?thesis using assms(1,2) w c by (simp add: fuse_Readdir_def Let_def fuse_Load_def)
qed

definition demo_gap :: "unit fuse_env" where
  "demo_gap = demo_lister\<lparr>fe_next := (base_component None)\<lparr>StreamDir := (\<lambda>now options s.
     Some (if sd_Token options = ''next'' then ([], ''last'', None) else ([CreateObjAttr ''z'' 1 0], [], None), s))\<rparr>\<rparr>"

definition demo_between :: Libfuse where
  "demo_between = demo_fuse\<lparr>lf_table := [(1, DirHandle ''d/'' \<lparr>dc_sIndex = 0, dc_eIndex = 2, dc_length = 2, dc_token = ''next'',
     dc_children = dc_children (cacheDots 0 ''d/'' empty_window), dc_lastPage = False\<rparr>)]\<rparr>"

theorem empty_page_ends_the_listing_witness:
  "\<exists>s'. fuse_Readdir demo_gap 7 (buffer 10) 2 1 [] (demo_between, ()) = Some ((0, []), s')"
  using empty_page_ends_the_listing [of 1 "(demo_between, ())" "''d/''" _ 2 demo_gap 7 "''last''" "()" "buffer 10" "[]"]
  by (auto simp: demo_between_def demo_gap_def fuse_Load_def)

end
