(* ===== verification/Block_Pool.thy ===== *)
theory Block_Pool
  imports Os_More "HOL-Library.Multiset"
begin

text \<open>
  The blocks of the block cache and their pool (\<open>component/block_cache/block.go\<close>, \<open>blockpool.go\<close>): buffers of
  one size that are lent to handles and come back zeroed.

  Blocks are cells of a store, and the pool's channels are queues of references to them. A thread of the
  pool zeroes the blocks that were released and puts them back on the free channels; it may run at any time.
\<close>

section \<open>Blocks\<close>

definition BlockFlagFresh :: nat where "BlockFlagFresh = 0"
definition BlockFlagDownloading :: nat where "BlockFlagDownloading = 1"
definition BlockFlagUploading :: nat where "BlockFlagUploading = 2"
definition BlockFlagDirty :: nat where "BlockFlagDirty = 3"
definition BlockFlagSynced :: nat where "BlockFlagSynced = 4"
definition BlockFlagFailed :: nat where "BlockFlagFailed = 5"

datatype block_status =
    BlockStatusDownloaded
  | BlockStatusUploaded
  | BlockStatusDownloadFailed
  | BlockStatusUploadFailed

text \<open>
  The channel of a block holds at most one status. A receive takes it, or finds the channel closed, or blocks.
\<close>

record block_chan =
  ch_value :: "block_status option"
  ch_closed :: bool

abbreviation new_chan :: block_chan where
  "new_chan \<equiv> \<lparr>ch_value = None, ch_closed = False\<rparr>"

text \<open>The node of a block is its place in the lists of its handle: here, that the lists hold its reference.\<close>

record CacheBlock =
  bk_offset :: int
  bk_id :: int
  bk_state :: block_chan
  bk_flags :: bitmap
  bk_data :: string

definition AllocateBlock :: "int \<Rightarrow> CacheBlock option" where
  "AllocateBlock sz =
     (if sz = 0 then None
      else Some \<lparr>bk_offset = 0, bk_id = - 1, bk_state = new_chan, bk_flags = set_flag BlockFlagFresh 0,
                 bk_data = replicate (nat sz) (CHR 0x00)\<rparr>)"

definition blk_ReUse :: "CacheBlock \<Rightarrow> CacheBlock" where
  "blk_ReUse b = b\<lparr>bk_id := - 1, bk_offset := 0, bk_flags := set_flag BlockFlagFresh (snd (ResetBits (bk_flags b))),
                   bk_state := new_chan\<rparr>"

definition blk_Uploading :: "CacheBlock \<Rightarrow> CacheBlock" where
  "blk_Uploading b = b\<lparr>bk_state := new_chan\<rparr>"

text \<open>A send on a closed channel panics, also when it is one case of a \<open>select\<close>; so does closing one twice.\<close>

definition blk_Ready :: "block_status \<Rightarrow> CacheBlock \<Rightarrow> CacheBlock option" where
  "blk_Ready v b =
     (if ch_closed (bk_state b) then None
      else Some (if ch_value (bk_state b) = None then b\<lparr>bk_state := (bk_state b)\<lparr>ch_value := Some v\<rparr>\<rparr> else b))"

definition blk_Unblock :: "CacheBlock \<Rightarrow> CacheBlock option" where
  "blk_Unblock b =
     (if ch_closed (bk_state b) then None else Some (b\<lparr>bk_state := (bk_state b)\<lparr>ch_closed := True\<rparr>\<rparr>))"

text \<open>A receive: the status and \<open>True\<close>, or that the channel is closed; \<open>None\<close> when it would block.\<close>

definition blk_receive :: "CacheBlock \<Rightarrow> (block_status option \<times> CacheBlock) option" where
  "blk_receive b =
     (case ch_value (bk_state b) of
        Some v \<Rightarrow> Some (Some v, b\<lparr>bk_state := (bk_state b)\<lparr>ch_value := None\<rparr>\<rparr>)
      | None \<Rightarrow> if ch_closed (bk_state b) then Some (None, b) else None)"

definition blk_set :: "nat \<Rightarrow> CacheBlock \<Rightarrow> CacheBlock" where
  "blk_set f b = b\<lparr>bk_flags := set_flag f (bk_flags b)\<rparr>"

definition blk_clear :: "nat \<Rightarrow> CacheBlock \<Rightarrow> CacheBlock" where
  "blk_clear f b = b\<lparr>bk_flags := clear_flag f (bk_flags b)\<rparr>"

definition blk_Dirty :: "CacheBlock \<Rightarrow> CacheBlock" where "blk_Dirty = blk_set BlockFlagDirty"
definition blk_NoMoreDirty :: "CacheBlock \<Rightarrow> CacheBlock" where "blk_NoMoreDirty = blk_clear BlockFlagDirty"
definition blk_IsDirty :: "CacheBlock \<Rightarrow> bool" where "blk_IsDirty b = IsSet (bk_flags b) BlockFlagDirty"
definition blk_Failed :: "CacheBlock \<Rightarrow> CacheBlock" where "blk_Failed = blk_set BlockFlagFailed"
definition blk_IsFailed :: "CacheBlock \<Rightarrow> bool" where "blk_IsFailed b = IsSet (bk_flags b) BlockFlagFailed"

section \<open>The pool\<close>

text \<open>The capacities of the three channels stand beside them.\<close>

record BlockPool =
  bp_blocksCh :: "nat list"
  bp_blocksCap :: nat
  bp_priorityCh :: "nat list"
  bp_priorityCap :: nat
  bp_resetCh :: "nat list"
  bp_resetCap :: nat
  bp_zeroBlock :: nat
  bp_blockSize :: int
  bp_maxBlocks :: int

text \<open>The number of blocks is a \<open>uint32\<close>. The store of blocks is filled with fresh ones.\<close>

definition NewBlockPool :: "int \<Rightarrow> int \<Rightarrow> (BlockPool \<times> (nat \<Rightarrow> CacheBlock)) option" where
  "NewBlockPool blockSize memSize =
     (if blockSize = 0 \<or> memSize < blockSize then None
      else let blockCount = wrapu32 (memSize div blockSize);
               highPriority = wrapu32 (blockCount * 10) div 100 in
        case AllocateBlock blockSize of
          None \<Rightarrow> None
        | Some b \<Rightarrow> Some
            (\<lparr>bp_blocksCh = [nat highPriority ..< nat (blockCount - 1)], bp_blocksCap = nat (wrapu32 (blockCount - highPriority - 1)),
              bp_priorityCh = [0 ..< min (nat highPriority) (nat (blockCount - 1))], bp_priorityCap = nat highPriority,
              bp_resetCh = [], bp_resetCap = nat (wrapu32 (blockCount - 1)),
              bp_zeroBlock = nat (blockCount - 1), bp_blockSize = blockSize, bp_maxBlocks = blockCount\<rparr>,
             \<lambda>_. b))"

definition pool_Usage :: "BlockPool \<Rightarrow> int" where
  "pool_Usage p =
     wrapu32 (wrapu32 (bp_maxBlocks p - int (length (bp_blocksCh p) + length (bp_priorityCh p) + length (bp_resetCh p))) * 100)
       div bp_maxBlocks p"

text \<open>
  \<open>MustGet\<close> takes from either free channel, the choice is Go's (\<open>prio\<close>); it gives up when five seconds
  bring no block. \<open>TryGet\<close> looks at one channel only. Neither touches the block here.
\<close>

definition pool_MustGet :: "bool \<Rightarrow> BlockPool \<Rightarrow> (nat \<times> BlockPool) option" where
  "pool_MustGet prio p =
     (case (bp_priorityCh p, bp_blocksCh p) of
        ([], []) \<Rightarrow> None
      | (r # rs, []) \<Rightarrow> Some (r, p\<lparr>bp_priorityCh := rs\<rparr>)
      | ([], r # rs) \<Rightarrow> Some (r, p\<lparr>bp_blocksCh := rs\<rparr>)
      | (q # qs, r # rs) \<Rightarrow> if prio then Some (q, p\<lparr>bp_priorityCh := qs\<rparr>) else Some (r, p\<lparr>bp_blocksCh := rs\<rparr>))"

definition pool_TryGet :: "BlockPool \<Rightarrow> (nat \<times> BlockPool) option" where
  "pool_TryGet p = (case bp_blocksCh p of [] \<Rightarrow> None | r # rs \<Rightarrow> Some (r, p\<lparr>bp_blocksCh := rs\<rparr>))"

text \<open>A block that finds its channel full is unmapped.\<close>

definition pool_Release :: "nat \<Rightarrow> BlockPool \<Rightarrow> BlockPool" where
  "pool_Release r p = (if length (bp_resetCh p) < bp_resetCap p then p\<lparr>bp_resetCh := bp_resetCh p @ [r]\<rparr> else p)"

text \<open>One turn of \<open>resetBlock\<close>: the block is zeroed and becomes free again.\<close>

definition pool_reset :: "BlockPool \<times> (nat \<Rightarrow> CacheBlock) \<Rightarrow> BlockPool \<times> (nat \<Rightarrow> CacheBlock)" where
  "pool_reset = (\<lambda>(p, bs).
     case bp_resetCh p of
       [] \<Rightarrow> (p, bs)
     | r # rs \<Rightarrow>
         let zero = bk_data (bs (bp_zeroBlock p)); d = bk_data (bs r); n = min (length d) (length zero);
             p1 = p\<lparr>bp_resetCh := rs\<rparr>
         in (if length (bp_priorityCh p1) < bp_priorityCap p1 then p1\<lparr>bp_priorityCh := bp_priorityCh p1 @ [r]\<rparr>
             else if length (bp_blocksCh p1) < bp_blocksCap p1 then p1\<lparr>bp_blocksCh := bp_blocksCh p1 @ [r]\<rparr>
             else p1,
             bs(r := (bs r)\<lparr>bk_data := take n zero @ drop n d\<rparr>)))"

section \<open>Every block is somewhere\<close>

text \<open>The blocks the pool has at hand or will have.\<close>

definition pool_refs :: "BlockPool \<Rightarrow> nat list" where
  "pool_refs p = bp_priorityCh p @ bp_blocksCh p @ bp_resetCh p"

text \<open>
  With \<open>out\<close> blocks lent, the channels have room for what can come back: the reset channel for every
  block, the free ones for all but those lent.
\<close>

definition pool_inv :: "BlockPool \<Rightarrow> nat list \<Rightarrow> bool" where
  "pool_inv p out \<longleftrightarrow>
     distinct (pool_refs p @ out) \<and> length (pool_refs p @ out) \<le> bp_resetCap p \<and> bp_zeroBlock p \<notin> set (pool_refs p @ out) \<and>
     bp_resetCap p = bp_priorityCap p + bp_blocksCap p \<and> length (bp_priorityCh p) \<le> bp_priorityCap p \<and>
     length (bp_blocksCh p) \<le> bp_blocksCap p"

lemma pool_inv_perm: "pool_inv p out \<Longrightarrow> mset out' = mset out \<Longrightarrow> pool_inv p out'"
  unfolding pool_inv_def distinct_append length_append set_append
  by (metis distinct_count_atmost_1 mset_eq_setD size_mset)

lemma pool_MustGet_cases:
  assumes "pool_MustGet prio p = Some (r, p')"
  obtains rs where "bp_priorityCh p = r # rs" "p' = p\<lparr>bp_priorityCh := rs\<rparr>"
  | rs where "bp_blocksCh p = r # rs" "p' = p\<lparr>bp_blocksCh := rs\<rparr>"
  using assms by (cases "bp_priorityCh p"; cases "bp_blocksCh p") (auto simp: pool_MustGet_def split: if_splits)

lemma pool_MustGet_inv:
  assumes "pool_inv p out" "pool_MustGet prio p = Some (r, p')"
  shows "pool_inv p' (r # out)" "bp_zeroBlock p' = bp_zeroBlock p" "bp_blockSize p' = bp_blockSize p"
    "set (pool_refs p) = insert r (set (pool_refs p'))"
  using assms(1) by (cases rule: pool_MustGet_cases [OF assms(2)]; auto simp: pool_inv_def pool_refs_def)+

lemma pool_TryGet_inv:
  assumes "pool_inv p out" "pool_TryGet p = Some (r, p')"
  shows "pool_inv p' (r # out)" "bp_zeroBlock p' = bp_zeroBlock p" "bp_blockSize p' = bp_blockSize p"
    "set (pool_refs p) = insert r (set (pool_refs p'))"
proof -
  obtain rs where "bp_blocksCh p = r # rs" "p' = p\<lparr>bp_blocksCh := rs\<rparr>"
    using assms(2) by (cases "bp_blocksCh p") (auto simp: pool_TryGet_def)
  with assms(1) show "pool_inv p' (r # out)" "bp_zeroBlock p' = bp_zeroBlock p" "bp_blockSize p' = bp_blockSize p"
    "set (pool_refs p) = insert r (set (pool_refs p'))" by (auto simp: pool_inv_def pool_refs_def)
qed

lemma pool_Release_inv:
  assumes "pool_inv p (r # out)"
  shows "pool_inv (pool_Release r p) out" "set (pool_refs (pool_Release r p)) = insert r (set (pool_refs p))"
    "bp_zeroBlock (pool_Release r p) = bp_zeroBlock p" "bp_blockSize (pool_Release r p) = bp_blockSize p"
  using assms by (simp_all add: pool_Release_def pool_inv_def pool_refs_def)

lemma pool_reset_inv:
  assumes "pool_inv p out" "pool_reset (p, bs) = (p', bs')"
  shows "pool_inv p' out" "set (pool_refs p') = set (pool_refs p)" "bp_zeroBlock p' = bp_zeroBlock p"
    "bp_blockSize p' = bp_blockSize p" "r \<notin> set (pool_refs p) \<Longrightarrow> bs' r = bs r"
proof -
  have "pool_inv p' out \<and> set (pool_refs p') = set (pool_refs p) \<and> bp_zeroBlock p' = bp_zeroBlock p \<and>
      bp_blockSize p' = bp_blockSize p \<and> (r \<notin> set (pool_refs p) \<longrightarrow> bs' r = bs r)"
  proof (cases "bp_resetCh p")
    case (Cons x xs)
    have room: "length (bp_priorityCh p) < bp_priorityCap p \<or> length (bp_blocksCh p) < bp_blocksCap p"
      using assms(1) Cons by (auto simp: pool_inv_def pool_refs_def)
    show ?thesis
      using assms Cons room by (cases "length (bp_priorityCh p) < bp_priorityCap p")
        (auto simp: pool_reset_def pool_inv_def pool_refs_def Let_def)
  qed (use assms in \<open>simp add: pool_reset_def\<close>)
  then show "pool_inv p' out" "set (pool_refs p') = set (pool_refs p)" "bp_zeroBlock p' = bp_zeroBlock p"
    "bp_blockSize p' = bp_blockSize p" "r \<notin> set (pool_refs p) \<Longrightarrow> bs' r = bs r" by simp_all
qed

lemma NewBlockPool_inv:
  assumes "NewBlockPool blockSize memSize = Some (p, bs)" "0 < blockSize" "memSize div blockSize < 2 ^ 32"
  shows "pool_inv p []" "set (pool_refs p) = {0 ..< nat (memSize div blockSize - 1)}" "bp_zeroBlock p = nat (memSize div blockSize - 1)"
proof -
  let ?n = "memSize div blockSize"
  have m: "blockSize \<le> memSize" using assms(1) by (auto simp: NewBlockPool_def split: if_splits)
  have n1: "1 \<le> ?n" using zdiv_mono1 [OF m assms(2)] assms(2) by simp
  then have n: "1 \<le> ?n" "wrapu32 ?n = ?n" using assms(3) by (simp_all add: wrapu32_def)
  let ?h = "wrapu32 (?n * 10) div 100"
  have h: "0 \<le> ?h" by (simp add: wrapu32_def)
  have hn: "?h \<le> ?n - 1"
  proof -
    have "wrapu32 (?n * 10) \<le> ?n * 10" using n(1) by (simp add: wrapu32_def zmod_le_nonneg_dividend)
    then have "?h \<le> ?n * 10 div 100" by (rule zdiv_mono1) simp
    also have "?n * 10 div 100 = ?n div 10" using div_mult_mult2 [of "10 :: int" ?n 10] by simp
    also have "\<dots> \<le> ?n - 1" using int_div_less_self [of ?n 10] n(1) by simp
    finally show ?thesis .
  qed
  have w: "wrapu32 (?n - ?h - 1) = ?n - ?h - 1" "wrapu32 (?n - 1) = ?n - 1"
    using n(1) h hn assms(3) by (simp_all add: wrapu32_def)
  have mi: "min (nat ?h) (nat (?n - 1)) = nat ?h" using hn by simp
  have p: "p = \<lparr>bp_blocksCh = [nat ?h ..< nat (?n - 1)], bp_blocksCap = nat (?n - ?h - 1),
      bp_priorityCh = [0 ..< nat ?h], bp_priorityCap = nat ?h, bp_resetCh = [], bp_resetCap = nat (?n - 1),
      bp_zeroBlock = nat (?n - 1), bp_blockSize = blockSize, bp_maxBlocks = ?n\<rparr>"
    using assms(1,2) m by (simp add: NewBlockPool_def Let_def AllocateBlock_def n(2) w mi)
  show "pool_inv p []" "set (pool_refs p) = {0 ..< nat (?n - 1)}" "bp_zeroBlock p = nat (?n - 1)"
    using h hn by (auto simp: p pool_inv_def pool_refs_def)
qed

end
