(* ===== verification/Block_Cache.thy ===== *)
theory Block_Cache
  imports Block_Pool Loopback Complex_Main
begin

text \<open>
  The block cache component (\<open>component/block_cache/block_cache.go\<close>, \<open>threadpool.go\<close>): its state and its
  workers, which download and stage one block at a time.

  Handles and blocks are cells of stores. What waits for a worker is a list of work items: the workers may
  take them in any order and at any time, so the two channels of the thread pool, which only order the
  items, are one list. The environment decides which item is next (\<open>be_choose\<close>) and which ones the workers
  get done by themselves before the code looks at a block again (\<open>be_turns\<close>); a wait on a block lets them
  go on until the block is ready. The channels are taken to be large enough.

  A lock of a file or of a handle is not part of the state: what the code does under it is one step. The
  ETag that a call below writes through a pointer, the random block ids, extended attributes of local
  files and the CRC64 sum are arguments. The eviction of the disk cache (package \<open>tlru\<close>) may call back at
  any time.
\<close>

section \<open>State\<close>

abbreviation io_EOF :: error where "io_EOF \<equiv> Errorf ''EOF''"

definition MIN_PREFETCH :: int where "MIN_PREFETCH = 5"
definition MIN_WRITE_BLOCK :: nat where "MIN_WRITE_BLOCK = 3"
definition MIN_RANDREAD :: int where "MIN_RANDREAD = 10"
definition MAX_FAIL_CNT :: int where "MAX_FAIL_CNT = 3"
definition MAX_BLOCKS :: int where "MAX_BLOCKS = 50000"

record blockInfo =
  bi_id :: string
  bi_committed :: bool
  bi_size :: int

text \<open>
  The values of a handle that the component stores under \<open>blockList\<close>, \<open>#\<close>, the index of a block and \<open>ETAG\<close>
  are fields; the buffers hold the cooked blocks and the cooking ones.
\<close>

record BcHandle = Handle +
  bh_blockList :: "(int \<times> blockInfo) list option"
  bh_next :: "int option"
  bh_nodes :: "(int \<times> nat) list"
  bh_etag :: "string option"

record workItem =
  wi_handle :: nat
  wi_block :: nat
  wi_prefetch :: bool
  wi_failCnt :: int
  wi_upload :: bool
  wi_blockId :: string
  wi_ETag :: string

record BlockCache =
  bc_blockSize :: int
  bc_memSize :: int
  bc_mntPath :: string
  bc_tmpPath :: string
  bc_diskSize :: int
  bc_diskTimeout :: int
  bc_workers :: int
  bc_prefetch :: int
  bc_fileNodeMap :: "string list"
  bc_maxDiskUsageHit :: bool
  bc_noPrefetch :: bool
  bc_prefetchOnOpen :: bool
  bc_consistency :: bool
  bc_lazyWrite :: bool
  bc_pool :: BlockPool
  bc_blocks :: "nat \<Rightarrow> CacheBlock"
  bc_work :: "workItem list"
  bc_heap :: "nat \<Rightarrow> BcHandle"
  bc_fresh :: nat
  bc_ids :: nat

type_synonym 'n bc_state = "BlockCache \<times> 'n"

record 'n bc_env =
  be_nxt :: "'n component"
  be_fs :: "'n \<Rightarrow> os_fs"
  be_set_fs :: "os_fs \<Rightarrow> 'n \<Rightarrow> 'n"
  be_read_etag :: "'n \<Rightarrow> ReadInBufferOptions \<Rightarrow> string"
  be_commit_etag :: "'n \<Rightarrow> CommitDataOptions \<Rightarrow> string"
  be_checksum :: "string \<Rightarrow> string"
  be_getxattr :: "'n \<Rightarrow> string \<Rightarrow> string option"
  be_setxattr :: "string \<Rightarrow> string \<Rightarrow> 'n \<Rightarrow> 'n"
  be_blockID :: "nat \<Rightarrow> string"
  be_choose :: "'n bc_state \<Rightarrow> nat"
  be_turns :: "'n bc_state \<Rightarrow> nat list"
  be_resets :: "'n bc_state \<Rightarrow> nat"
  be_prio :: "'n bc_state \<Rightarrow> bool"
  be_usage :: "os_fs \<Rightarrow> string \<Rightarrow> rat option"
  be_avail :: "os_fs \<Rightarrow> error + int"

section \<open>Cells\<close>

abbreviation blk_at :: "nat \<Rightarrow> 'n bc_state \<Rightarrow> CacheBlock" where
  "blk_at b s \<equiv> bc_blocks (fst s) b"

definition upd_blk :: "nat \<Rightarrow> (CacheBlock \<Rightarrow> CacheBlock) \<Rightarrow> 'n bc_state \<Rightarrow> 'n bc_state" where
  "upd_blk b f = (\<lambda>(bc, n). (bc\<lparr>bc_blocks := (bc_blocks bc)(b := f (bc_blocks bc b))\<rparr>, n))"

definition try_blk :: "nat \<Rightarrow> (CacheBlock \<Rightarrow> CacheBlock option) \<Rightarrow> 'n bc_state \<Rightarrow> 'n bc_state option" where
  "try_blk b f s = map_option (\<lambda>x. upd_blk b (\<lambda>_. x) s) (f (blk_at b s))"

abbreviation bh_at :: "nat \<Rightarrow> 'n bc_state \<Rightarrow> BcHandle" where
  "bh_at h s \<equiv> bc_heap (fst s) h"

definition upd_bh :: "nat \<Rightarrow> (BcHandle \<Rightarrow> BcHandle) \<Rightarrow> 'n bc_state \<Rightarrow> 'n bc_state" where
  "upd_bh h f = (\<lambda>(bc, n). (bc\<lparr>bc_heap := (bc_heap bc)(h := f (bc_heap bc h))\<rparr>, n))"

definition bh_cooked :: "BcHandle \<Rightarrow> nat list" where
  "bh_cooked h = (case h_Buffers h of Some (c, k) \<Rightarrow> c | None \<Rightarrow> [])"

definition bh_cooking :: "BcHandle \<Rightarrow> nat list" where
  "bh_cooking h = (case h_Buffers h of Some (c, k) \<Rightarrow> k | None \<Rightarrow> [])"

definition set_lists :: "nat list \<Rightarrow> nat list \<Rightarrow> BcHandle \<Rightarrow> BcHandle" where
  "set_lists c k h = h\<lparr>h_Buffers := Some (c, k)\<rparr>"

definition addToCooked :: "nat \<Rightarrow> nat \<Rightarrow> 'n bc_state \<Rightarrow> 'n bc_state" where
  "addToCooked h b = upd_bh h (\<lambda>x. set_lists (removeAll b (bh_cooked x) @ [b]) (removeAll b (bh_cooking x)) x)"

definition addToCooking :: "nat \<Rightarrow> nat \<Rightarrow> 'n bc_state \<Rightarrow> 'n bc_state" where
  "addToCooking h b = upd_bh h (\<lambda>x. set_lists (removeAll b (bh_cooked x)) (removeAll b (bh_cooking x) @ [b]) x)"

definition upd_pool :: "BlockPool \<Rightarrow> 'n bc_state \<Rightarrow> 'n bc_state" where
  "upd_pool p = (\<lambda>(bc, n). (bc\<lparr>bc_pool := p\<rparr>, n))"

abbreviation bc_fs :: "'n bc_env \<Rightarrow> 'n bc_state \<Rightarrow> os_fs" where
  "bc_fs E s \<equiv> be_fs E (snd s)"

definition bc_os :: "'n bc_env \<Rightarrow> (os_fs \<Rightarrow> 'r \<times> os_fs) \<Rightarrow> 'n bc_state \<Rightarrow> 'r \<times> 'n bc_state" where
  "bc_os E f s = (case f (bc_fs E s) of (r, fs) \<Rightarrow> (r, (fst s, be_set_fs E fs (snd s))))"

definition getBlockSize :: "int \<Rightarrow> int \<Rightarrow> CacheBlock \<Rightarrow> int" where
  "getBlockSize blockSize fileSize b = min blockSize (wrapu64 (fileSize - bk_offset b))"

definition getBlockIndex :: "BlockCache \<Rightarrow> int \<Rightarrow> int" where
  "getBlockIndex bc offset = offset div bc_blockSize bc"

section \<open>Blocks from the pool\<close>

text \<open>The thread that zeroes released blocks, over the state.\<close>

definition reset_one :: "'n bc_state \<Rightarrow> 'n bc_state" where
  "reset_one = (\<lambda>(bc, n). case pool_reset (bc_pool bc, bc_blocks bc) of (p, bs) \<Rightarrow> (bc\<lparr>bc_pool := p, bc_blocks := bs\<rparr>, n))"

definition resets :: "nat \<Rightarrow> 'n bc_state \<Rightarrow> 'n bc_state" where
  "resets k = reset_one ^^ k"

text \<open>While \<open>MustGet\<close> waits, that thread gets through all the blocks it has.\<close>

definition MustGet :: "'n bc_env \<Rightarrow> 'n bc_state \<Rightarrow> nat option \<times> 'n bc_state" where
  "MustGet E s =
     (let s1 = resets (be_resets E s) s;
          s2 = (if pool_MustGet (be_prio E s1) (bc_pool (fst s1)) = None
                then resets (length (bp_resetCh (bc_pool (fst s1)))) s1 else s1)
      in case pool_MustGet (be_prio E s2) (bc_pool (fst s2)) of
           None \<Rightarrow> (None, s2)
         | Some (b, p) \<Rightarrow> (Some b, upd_blk b blk_ReUse (upd_pool p s2)))"

definition TryGet :: "'n bc_env \<Rightarrow> 'n bc_state \<Rightarrow> nat option \<times> 'n bc_state" where
  "TryGet E s =
     (let s1 = resets (be_resets E s) s
      in case pool_TryGet (bc_pool (fst s1)) of
           None \<Rightarrow> (None, s1)
         | Some (b, p) \<Rightarrow> (Some b, upd_blk b blk_ReUse (upd_pool p s1)))"

text \<open>A block goes back: it is in no list any more.\<close>

definition give_back :: "nat \<Rightarrow> 'n bc_state \<Rightarrow> 'n bc_state" where
  "give_back b s = (let s1 = upd_blk b blk_ReUse s in upd_pool (pool_Release b (bc_pool (fst s1))) s1)"

section \<open>The disk cache\<close>

definition block_file :: "BcHandle \<Rightarrow> CacheBlock \<Rightarrow> string" where
  "block_file h b = h_Path h @ ''_'' @ show_int (bk_id b)"

definition disk_path :: "BlockCache \<Rightarrow> string \<Rightarrow> string" where
  "disk_path bc name = path_join [bc_tmpPath bc, name]"

definition touch_node :: "string \<Rightarrow> 'n bc_state \<Rightarrow> 'n bc_state" where
  "touch_node name = (\<lambda>(bc, n). (bc\<lparr>bc_fileNodeMap := List.insert name (bc_fileNodeMap bc)\<rparr>, n))"

definition os_OpenRoot :: "os_fs \<Rightarrow> string \<Rightarrow> err" where
  "os_OpenRoot fs p = (case os_Stat fs p of Inl e \<Rightarrow> Some e | Inr nd \<Rightarrow> if is_dir_node nd then None else Some (path_err ENOTDIR))"

text \<open>
  Reading a block from its local file: the number of bytes when they are what the block should hold;
  otherwise the file is removed.
\<close>

definition load_local :: "'n bc_env \<Rightarrow> int \<Rightarrow> string \<Rightarrow> nat \<Rightarrow> BcHandle \<Rightarrow> 'n bc_state \<Rightarrow> nat option \<times> 'n bc_state" where
  "load_local E now p b h s =
     (case bc_os E (os_OpenFile now p no_flags 0) s of
        (Inl e, s1) \<Rightarrow> (None, snd (bc_os E (os_Remove p) s1))
      | (Inr fd, s1) \<Rightarrow>
          let d = bk_data (blk_at b s1);
              got = (case os_ReadAt (bc_fs E s1) fd (length d) 0 of Inl (bs, eof) \<Rightarrow> bs | Inr e \<Rightarrow> []);
              s2 = upd_blk b (\<lambda>x. x\<lparr>bk_data := got @ drop (length got) d\<rparr>) s1;
              mismatch = (int (length got) \<noteq> bc_blockSize (fst s2) \<and>
                wrapu64 (bk_offset (blk_at b s2) + int (length got)) \<noteq> wrapu64 (h_Size h));
              s3 = snd (bc_os E (os_Close fd) s2)
          in if got = [] \<or> mismatch then (None, snd (bc_os E (os_Remove p) s3)) else (Some (length got), s3))"

definition checkBlockConsistency ::
  "'n bc_env \<Rightarrow> string \<Rightarrow> nat \<Rightarrow> nat \<Rightarrow> 'n bc_state \<Rightarrow> bool \<times> 'n bc_state" where
  "checkBlockConsistency E p b n s =
     (if \<not> bc_consistency (fst s) then (True, s)
      else case be_getxattr E (snd s) p of
        None \<Rightarrow> (True, s)
      | Some x \<Rightarrow> if be_checksum E (take n (bk_data (blk_at b s))) \<noteq> x then (False, snd (bc_os E (os_Remove p) s)) else (True, s))"

datatype disk_lookup = DiskLost | DiskHit | DiskMiss

text \<open>When the cache directory cannot be opened the worker returns, and nobody tells the block.\<close>

definition download_disk :: "'n bc_env \<Rightarrow> int \<Rightarrow> workItem \<Rightarrow> 'n bc_state \<Rightarrow> (disk_lookup \<times> 'n bc_state) option" where
  "download_disk E now item s0 =
     (if bc_tmpPath (fst s0) = [] then Some (DiskMiss, s0)
      else
        let b = wi_block item; h = bh_at (wi_handle item) s0; name = block_file h (blk_at b s0);
            s = touch_node name s0; p = disk_path (fst s) name in
        if os_OpenRoot (bc_fs E s) (bc_tmpPath (fst s)) \<noteq> None then Some (DiskLost, s)
        else case os_Stat (bc_fs E s) p of
          Inl _ \<Rightarrow> Some (DiskMiss, s)
        | Inr _ \<Rightarrow>
            (case load_local E now p b h s of
               (None, s1) \<Rightarrow> Some (DiskMiss, s1)
             | (Some k, s1) \<Rightarrow>
                 (case checkBlockConsistency E p b k s1 of
                    (False, s2) \<Rightarrow> Some (DiskMiss, s2)
                  | (True, s2) \<Rightarrow> map_option (\<lambda>s3. (DiskHit, s3)) (try_blk b (blk_Ready BlockStatusDownloaded) s2))))"

text \<open>Writing the first bytes of a block to its local file; writes to the disk do not fail.\<close>

definition store_local :: "'n bc_env \<Rightarrow> int \<Rightarrow> string \<Rightarrow> string \<Rightarrow> 'n bc_state \<Rightarrow> 'n bc_state" where
  "store_local E now name data s =
     (let p = disk_path (fst s) name; s1 = snd (bc_os E (os_MkdirAll now (path_dir p) 0x1ED) s) in
      case bc_os E (os_OpenFile now p create_trunc 0x1B6) s1 of
        (Inl e, s2) \<Rightarrow> s2
      | (Inr fd, s2) \<Rightarrow>
          let s3 = snd (bc_os E (os_Close fd) (snd (bc_os E (os_WriteAt now fd data 0) s2)));
              s4 = touch_node name s3
          in if bc_consistency (fst s4) then (fst s4, be_setxattr E p (be_checksum E data) (snd s4)) else s4)"

section \<open>The workers\<close>

definition Schedule :: "workItem \<Rightarrow> 'n bc_state \<Rightarrow> 'n bc_state" where
  "Schedule item = (\<lambda>(bc, n). (bc\<lparr>bc_work := bc_work bc @ [item]\<rparr>, n))"

abbreviation fail_block :: "nat \<Rightarrow> block_status \<Rightarrow> 'n bc_state \<Rightarrow> 'n bc_state option" where
  "fail_block b st s \<equiv> try_blk b (blk_Ready st) (upd_blk b blk_Failed s)"

text \<open>After the storage was read: the block is ready, has failed, or the item is scheduled again.\<close>

definition download_store :: "'n bc_env \<Rightarrow> int \<Rightarrow> workItem \<Rightarrow> nat \<Rightarrow> 'n bc_state \<Rightarrow> 'n bc_state option" where
  "download_store E now item n s =
     (let b = wi_block item; name = block_file (bh_at (wi_handle item) s) (blk_at b s);
          ready = try_blk b (blk_Ready BlockStatusDownloaded) in
      if bc_tmpPath (fst s) = [] then ready s
      else if os_OpenRoot (bc_fs E s) (bc_tmpPath (fst s)) = None
      then ready (store_local E now name (take n (bk_data (blk_at b s))) s)
      else case bc_os E (os_MkdirAll now (bc_tmpPath (fst s)) 0x1ED) s of
        (Some e, s1) \<Rightarrow> Some s1
      | (None, s1) \<Rightarrow>
          if os_OpenRoot (bc_fs E s1) (bc_tmpPath (fst s1)) \<noteq> None then Some s1
          else ready (store_local E now name (take n (bk_data (blk_at b s1))) s1))"

definition download_remote :: "'n bc_env \<Rightarrow> int \<Rightarrow> workItem \<Rightarrow> 'n bc_state \<Rightarrow> 'n bc_state option" where
  "download_remote E now item s =
     (let b = wi_block item;
          options = \<lparr>ri_Handle = Some (Handle.truncate (bh_at (wi_handle item) s)), ri_Offset = wrap64 (bk_offset (blk_at b s)),
                     ri_Etag = Some [], ri_Data = bk_data (blk_at b s), ri_Path = [], ri_Size = 0\<rparr> in
      do {
        ((data, n, e), s1) \<leftarrow> below (ReadInBuffer (be_nxt E)) now options s;
        let s2 = upd_blk b (\<lambda>x. x\<lparr>bk_data := data\<rparr>) s1;
        let etag = be_read_etag E (snd s2) options;
        if wi_failCnt item > MAX_FAIL_CNT then fail_block b BlockStatusDownloadFailed s2
        else if e \<noteq> None \<and> e \<noteq> Some io_EOF \<or> n = 0 then Some (Schedule (item\<lparr>wi_failCnt := wi_failCnt item + 1\<rparr>) s2)
        else if etag \<noteq> [] \<and> wi_ETag item \<noteq> [] \<and> wi_ETag item \<noteq> etag then fail_block b BlockStatusDownloadFailed s2
        else download_store E now item (nat n) s2
      })"

definition download :: "'n bc_env \<Rightarrow> int \<Rightarrow> workItem \<Rightarrow> 'n bc_state \<Rightarrow> 'n bc_state option" where
  "download E now item s = do {
     (found, s1) \<leftarrow> download_disk E now item s;
     if found = DiskMiss then download_remote E now item s1 else Some s1
   }"

definition upload_done :: "'n bc_env \<Rightarrow> int \<Rightarrow> workItem \<Rightarrow> int \<Rightarrow> 'n bc_state \<Rightarrow> 'n bc_state option" where
  "upload_done E now item blockSize s =
     (let b = wi_block item; name = block_file (bh_at (wi_handle item) s) (blk_at b s);
          s1 = (if bc_tmpPath (fst s) = [] then s
                else case bc_os E (os_MkdirAll now (bc_tmpPath (fst s)) 0x1ED) s of
                  (Some e, s1) \<Rightarrow> s1
                | (None, s1) \<Rightarrow>
                    if os_OpenRoot (bc_fs E s1) (bc_tmpPath (fst s1)) \<noteq> None then s1
                    else store_local E now name (take (nat blockSize) (bk_data (blk_at b s1))) s1)
      in try_blk b (blk_Ready BlockStatusUploaded) (upd_blk b (\<lambda>x. blk_NoMoreDirty (blk_set BlockFlagSynced x)) s1))"

definition upload :: "'n bc_env \<Rightarrow> int \<Rightarrow> workItem \<Rightarrow> 'n bc_state \<Rightarrow> 'n bc_state option" where
  "upload E now item s =
     (let b = wi_block item; h = bh_at (wi_handle item) s;
          blockSize = getBlockSize (bc_blockSize (fst s)) (wrapu64 (h_Size h)) (blk_at b s) in
      do {
        (e, s1) \<leftarrow> below (StageData (be_nxt E)) now
          \<lparr>sg_Name = h_Path h, sg_Id = wi_blockId item, sg_Data = take (nat blockSize) (bk_data (blk_at b s)),
           sg_Offset = bk_offset (blk_at b s)\<rparr> s;
        if e = None then upload_done E now item blockSize s1
        else let item1 = item\<lparr>wi_failCnt := wi_failCnt item + 1\<rparr> in
          if wi_failCnt item1 > MAX_FAIL_CNT then fail_block b BlockStatusUploadFailed s1
          else Some (Schedule item1 s1)
      })"

text \<open>A worker takes an item.\<close>

definition run_item :: "'n bc_env \<Rightarrow> int \<Rightarrow> nat \<Rightarrow> 'n bc_state \<Rightarrow> 'n bc_state option" where
  "run_item E now k = (\<lambda>(bc, n).
     case bc_work bc of
       [] \<Rightarrow> Some (bc, n)
     | work \<Rightarrow>
         let i = k mod length work; item = work ! i; s = (bc\<lparr>bc_work := take i work @ drop (Suc i) work\<rparr>, n)
         in if wi_upload item then upload E now item s else download E now item s)"

fun run_items :: "'n bc_env \<Rightarrow> int \<Rightarrow> nat list \<Rightarrow> 'n bc_state \<Rightarrow> 'n bc_state option" where
  "run_items E now [] s = Some s"
| "run_items E now (k # ks) s = Option.bind (run_item E now k s) (run_items E now ks)"

definition workers :: "'n bc_env \<Rightarrow> int \<Rightarrow> 'n bc_state \<Rightarrow> 'n bc_state option" where
  "workers E now s = run_items E now (be_turns E s) s"

text \<open>
  A receive from the channel of a block. It never returns when the block is not ready and nothing is left
  for the workers to do.
\<close>

definition receive :: "nat \<Rightarrow> 'n bc_state \<Rightarrow> (block_status option \<times> 'n bc_state) option" where
  "receive b s = map_option (\<lambda>(v, x). (v, upd_blk b (\<lambda>_. x) s)) (blk_receive (blk_at b s))"

partial_function (option) wait_for ::
  "'n bc_env \<Rightarrow> int \<Rightarrow> nat \<Rightarrow> 'n bc_state \<Rightarrow> (block_status option \<times> 'n bc_state) option" where
  "wait_for E now b s =
     (case receive b s of
        Some x \<Rightarrow> Some x
      | None \<Rightarrow>
          if bc_work (fst s) = [] then None
          else Option.bind (run_item E now (be_choose E s) s) (wait_for E now b))"

declare wait_for.simps [code]

definition wait_block :: "'n bc_env \<Rightarrow> int \<Rightarrow> nat \<Rightarrow> 'n bc_state \<Rightarrow> (block_status option \<times> 'n bc_state) option" where
  "wait_block E now b s = Option.bind (workers E now s) (wait_for E now b)"

end
