(* ===== verification/Block_Cache_Blocks.thy ===== *)
theory Block_Cache_Blocks
  imports Block_Cache
begin

text \<open>
  Getting hold of blocks (\<open>component/block_cache/block_cache.go\<close>): prefetching and reading, creating and
  staging, and committing the list of blocks of a file.
\<close>

section \<open>Downloading\<close>

definition shouldCommitAndDownload :: "int \<Rightarrow> BcHandle \<Rightarrow> bool \<times> bool" where
  "shouldCommitAndDownload blockID h =
     (case bh_blockList h of
        None \<Rightarrow> (False, False)
      | Some listMap \<Rightarrow>
          (case map_of listMap blockID of
             Some v \<Rightarrow> (\<not> bi_committed v, bi_committed v)
           | None \<Rightarrow> (False, False)))"

definition lineupDownload :: "nat \<Rightarrow> nat \<Rightarrow> bool \<Rightarrow> 'n bc_state \<Rightarrow> 'n bc_state" where
  "lineupDownload h b prefetch s =
     (let item = \<lparr>wi_handle = h, wi_block = b, wi_prefetch = prefetch, wi_failCnt = 0, wi_upload = False, wi_blockId = [],
                  wi_ETag = (case bh_etag (bh_at h s) of Some e \<Rightarrow> e | None \<Rightarrow> [])\<rparr>
      in Schedule item (upd_blk b (blk_set BlockFlagDownloading) (addToCooking h b s)))"

abbreviation remove_node :: "int \<Rightarrow> BcHandle \<Rightarrow> BcHandle" where
  "remove_node k x \<equiv> x\<lparr>bh_nodes := map_remove k (bh_nodes x)\<rparr>"

text \<open>A block that was received from is open to all readers.\<close>

definition unblock_if :: "nat \<Rightarrow> block_status option \<Rightarrow> 'n bc_state \<Rightarrow> 'n bc_state option" where
  "unblock_if b v s = (if v = None then Some s else try_blk b blk_Unblock s)"

text \<open>The front block of the free list, emptied and bound to the index.\<close>

definition reuse_front :: "'n bc_env \<Rightarrow> int \<Rightarrow> nat \<Rightarrow> nat \<Rightarrow> 'n bc_state \<Rightarrow> 'n bc_state option" where
  "reuse_front E now h b s =
     (if bk_id (blk_at b s) = - 1 then Some s
      else do {
        s1 \<leftarrow> (if IsSet (bk_flags (blk_at b s)) BlockFlagUploading
          then do { (v, s1) \<leftarrow> wait_block E now b s; unblock_if b v s1 } else Some s);
        Some (upd_bh h (remove_node (bk_id (blk_at b s1))) s1)
      })"

definition refreshBlock :: "'n bc_env \<Rightarrow> int \<Rightarrow> nat \<Rightarrow> int \<Rightarrow> bool \<Rightarrow> 'n bc_state \<Rightarrow> (err \<times> 'n bc_state) option" where
  "refreshBlock E now h index prefetch s =
     (let offset = wrapu64 (index * bc_blockSize (fst s)) in
      if wrap64 offset \<ge> h_Size (bh_at h s) then Some (Some io_EOF, s)
      else
        let (e, s1) = (if bh_cooked (bh_at h s) = [] \<and> \<not> prefetch
              then (case MustGet E s of
                      (None, s1) \<Rightarrow> (Some (Errorf ''Failed to Allocate Buffer''), s1)
                    | (Some b, s1) \<Rightarrow> (None, upd_bh h (\<lambda>x. set_lists (b # bh_cooked x) (bh_cooking x) x) s1))
              else (None, s)) in
        if e \<noteq> None then Some (e, s1)
        else case bh_cooked (bh_at h s1) of
          [] \<Rightarrow> Some (None, s1)
        | b # _ \<Rightarrow> do {
            s2 \<leftarrow> reuse_front E now h b s1;
            let s3 = upd_blk b (\<lambda>x. (blk_ReUse x)\<lparr>bk_id := index, bk_offset := offset\<rparr>) s2;
            let s4 = upd_bh h (\<lambda>x. x\<lparr>bh_nodes := map_store index b (bh_nodes x), bh_next := Some (index + 1)\<rparr>) s3;
            Some (None, lineupDownload h b prefetch s4)
          })"

definition releaseDownloadFailedBlock :: "nat \<Rightarrow> nat \<Rightarrow> 'n bc_state \<Rightarrow> 'n bc_state" where
  "releaseDownloadFailedBlock h b s =
     (let s1 = upd_bh h (\<lambda>x. remove_node (bk_id (blk_at b s)) (set_lists (removeAll b (bh_cooked x)) (removeAll b (bh_cooking x)) x)) s
      in give_back b s1)"

section \<open>Staging\<close>

definition lineupUpload :: "'n bc_env \<Rightarrow> nat \<Rightarrow> nat \<Rightarrow> 'n bc_state \<Rightarrow> 'n bc_state option" where
  "lineupUpload E h b s =
     (case bh_blockList (bh_at h s) of
        None \<Rightarrow> None
      | Some listMap \<Rightarrow>
          let newid = be_blockID E (bc_ids (fst s));
              info = \<lparr>bi_id = newid, bi_committed = False,
                      bi_size = getBlockSize (bc_blockSize (fst s)) (wrapu64 (h_Size (bh_at h s))) (blk_at b s)\<rparr>;
              s1 = upd_bh h (\<lambda>x. x\<lparr>bh_blockList := Some (map_store (bk_id (blk_at b s)) info listMap)\<rparr>)
                     ((fst s)\<lparr>bc_ids := Suc (bc_ids (fst s))\<rparr>, snd s);
              s2 = upd_blk b (\<lambda>x. blk_set BlockFlagUploading (blk_clear BlockFlagFailed (blk_Uploading x))) s1
          in Some (Schedule \<lparr>wi_handle = h, wi_block = b, wi_prefetch = False, wi_failCnt = 0, wi_upload = True,
                             wi_blockId = newid, wi_ETag = []\<rparr> (addToCooked h b s2)))"

fun stage_list :: "'n bc_env \<Rightarrow> nat \<Rightarrow> nat list \<Rightarrow> int \<Rightarrow> 'n bc_state \<Rightarrow> 'n bc_state option" where
  "stage_list E h [] cnt s = Some s"
| "stage_list E h (b # bs) cnt s =
     (if cnt \<le> 0 then Some s
      else if blk_IsDirty (blk_at b s) then Option.bind (lineupUpload E h b s) (stage_list E h bs (cnt - 1))
      else stage_list E h bs cnt s)"

definition stageBlocks :: "'n bc_env \<Rightarrow> nat \<Rightarrow> int \<Rightarrow> 'n bc_state \<Rightarrow> 'n bc_state option" where
  "stageBlocks E h cnt s =
     (if bh_blockList (bh_at h s) = None then None else stage_list E h (bh_cooking (bh_at h s)) cnt s)"

text \<open>The upload of each cooked block is waited for; blocks that are wiped out go back to the pool.\<close>

fun wait_free :: "'n bc_env \<Rightarrow> int \<Rightarrow> nat \<Rightarrow> bool \<Rightarrow> nat list \<Rightarrow> int \<Rightarrow> 'n bc_state \<Rightarrow> 'n bc_state option" where
  "wait_free E now h wipeout [] cnt s = Some s"
| "wait_free E now h wipeout (b # bs) cnt s =
     (if cnt \<le> 0 then Some s
      else do {
        s1 \<leftarrow> (if bk_id (blk_at b s) \<noteq> - 1
          then do {
            (v, s1) \<leftarrow> wait_block E now b s;
            unblock_if b v (upd_blk b (\<lambda>x. blk_clear BlockFlagUploading (blk_clear BlockFlagDownloading x)) s1)
          }
          else try_blk b blk_Unblock s);
        if blk_IsFailed (blk_at b s1) then wait_free E now h wipeout bs cnt (addToCooking h b s1)
        else wait_free E now h wipeout bs (cnt - 1)
          (if wipeout \<or> bk_id (blk_at b s1) = - 1
           then give_back b (upd_bh h (\<lambda>x. remove_node (bk_id (blk_at b s1)) (set_lists (removeAll b (bh_cooked x)) (bh_cooking x) x)) s1)
           else s1)
      })"

definition waitAndFreeUploadedBlocks :: "'n bc_env \<Rightarrow> int \<Rightarrow> nat \<Rightarrow> int \<Rightarrow> 'n bc_state \<Rightarrow> 'n bc_state option" where
  "waitAndFreeUploadedBlocks E now h cnt s = wait_free E now h (cnt = 1) (bh_cooked (bh_at h s)) cnt s"

section \<open>The list of block ids\<close>

abbreviation zero_data :: "'n bc_state \<Rightarrow> string" where
  "zero_data s \<equiv> bk_data (blk_at (bp_zeroBlock (bc_pool (fst s))) s)"

text \<open>A block of zeroes is staged under a new id.\<close>

definition stage_zeros :: "'n bc_env \<Rightarrow> int \<Rightarrow> nat \<Rightarrow> string \<Rightarrow> 'n bc_state \<Rightarrow> ((string \<times> err) \<times> 'n bc_state) option" where
  "stage_zeros E now h data s =
     (let newid = be_blockID E (bc_ids (fst s)) in
      do {
        (e, s1) \<leftarrow> below (StageData (be_nxt E)) now
          \<lparr>sg_Name = h_Path (bh_at h s), sg_Id = newid, sg_Data = data, sg_Offset = 0\<rparr>
          ((fst s)\<lparr>bc_ids := Suc (bc_ids (fst s))\<rparr>, snd s);
        Some ((newid, e), s1)
      })"

text \<open>The argument is the number of tries that are left.\<close>

fun stageZeroBlock :: "nat \<Rightarrow> 'n bc_env \<Rightarrow> int \<Rightarrow> nat \<Rightarrow> 'n bc_state \<Rightarrow> ((string \<times> err) \<times> 'n bc_state) option" where
  "stageZeroBlock 0 E now h s = Some (([], Some (Errorf ''3 attempts to upload zero block have failed'')), s)"
| "stageZeroBlock (Suc k) E now h s = do {
     ((newid, e), s1) \<leftarrow> stage_zeros E now h (zero_data s) s;
     if e = None then Some ((newid, None), s1) else stageZeroBlock k E now h s1
   }"

abbreviation list_map :: "BcHandle \<Rightarrow> (int \<times> blockInfo) list" where
  "list_map x \<equiv> (case bh_blockList x of Some m \<Rightarrow> m | None \<Rightarrow> [])"

text \<open>The gap before an offset is filled with one block of zeroes, staged once and listed many times.\<close>

definition fill_gap ::
  "'n bc_env \<Rightarrow> int \<Rightarrow> nat \<Rightarrow> int \<Rightarrow> int \<Rightarrow> string option \<Rightarrow> 'n bc_state \<Rightarrow> ((string list \<times> string option \<times> err) \<times> 'n bc_state) option" where
  "fill_gap E now h index to zero s =
     (if index \<ge> to then Some (([], zero, None), s)
      else do {
        ((zid, e), s1) \<leftarrow> (case zero of Some z \<Rightarrow> Some ((z, None), s) | None \<Rightarrow> stageZeroBlock 3 E now h s);
        if e \<noteq> None then Some (([], None, e), s1)
        else
          let ks = [index .. to - 1];
              info = \<lparr>bi_id = zid, bi_committed = False, bi_size = bp_blockSize (bc_pool (fst s1))\<rparr>;
              s2 = upd_bh h (\<lambda>x. x\<lparr>bh_blockList := map_option (\<lambda>m. fold (\<lambda>k. map_store k info) ks m) (bh_blockList x)\<rparr>) s1
          in Some ((map (\<lambda>_. zid) ks, Some zid, None), s2)
      })"

text \<open>
  A block that is not the last one and shorter than a block is followed by a filler; both are merged after
  the commit. The results are the ids, the ids to stage again, and the error.
\<close>

fun id_list ::
  "'n bc_env \<Rightarrow> int \<Rightarrow> nat \<Rightarrow> int list \<Rightarrow> int \<Rightarrow> string option \<Rightarrow> 'n bc_state \<Rightarrow>
     ((string list \<times> string list \<times> err) \<times> 'n bc_state) option" where
  "id_list E now h [] index zero s = Some (([], [], None), s)"
| "id_list E now h (k # ks) index zero s = do {
     ((zs, zero1, e), s1) \<leftarrow> fill_gap E now h index k zero s;
     if e \<noteq> None then Some (([], [], e), s1)
     else case map_of (list_map (bh_at h s1)) k of
       None \<Rightarrow> None
     | Some info \<Rightarrow>
         if ks \<noteq> [] \<and> bi_size info \<noteq> bc_blockSize (fst s1)
         then (let fillerSize = wrapu64 (bc_blockSize (fst s1) - bi_size info) in
           if fillerSize > int (length (zero_data s1)) then None
           else do {
             ((fid, e1), s2) \<leftarrow> stage_zeros E now h (take (nat fillerSize) (zero_data s1)) s1;
             if e1 \<noteq> None then Some (([], [], e1), s2)
             else do {
               ((ids, restage, e2), s3) \<leftarrow> id_list E now h ks (k + 1) zero1 s2;
               Some ((zs @ [bi_id info, fid] @ ids, bi_id info # restage, e2), s3)
             }
           })
         else do {
           ((ids, restage, e2), s3) \<leftarrow> id_list E now h ks (k + 1) zero1 s1;
           Some ((zs @ bi_id info # ids, restage, e2), s3)
         }
   }"

definition getBlockIDList :: "'n bc_env \<Rightarrow> int \<Rightarrow> nat \<Rightarrow> 'n bc_state \<Rightarrow> ((string list \<times> string list \<times> err) \<times> 'n bc_state) option" where
  "getBlockIDList E now h s =
     (case bh_blockList (bh_at h s) of
        None \<Rightarrow> None
      | Some listMap \<Rightarrow> id_list E now h (sort (map fst listMap)) 0 None s)"

section \<open>Creating a block to write to\<close>

type_synonym 'n bc_commit = "nat \<Rightarrow> 'n bc_state \<Rightarrow> (err \<times> 'n bc_state) option"

text \<open>
  Committing and creating blocks call each other: the creation takes the commit as an argument. When that
  commit fails the new block is lost to the pool.
\<close>

definition fetch_for_write ::
  "'n bc_commit \<Rightarrow> 'n bc_env \<Rightarrow> int \<Rightarrow> nat \<Rightarrow> nat \<Rightarrow> 'n bc_state \<Rightarrow> (err \<times> 'n bc_state) option" where
  "fetch_for_write commit E now h b s =
     (let cooking = upd_bh h (\<lambda>x. set_lists (bh_cooked x) (bh_cooking x @ [b]) x) in
      if bk_offset (blk_at b s) < wrapu64 (h_Size (bh_at h s))
      then
        let (shouldCommit, shouldDownload) = shouldCommitAndDownload (bk_id (blk_at b s)) (bh_at h s) in
        do {
          (e, s1) \<leftarrow> (if shouldCommit then commit h s else Some (None, s));
          if e \<noteq> None then Some (e, s1)
          else if shouldDownload \<or> shouldCommit
          then do {
            (v, s2) \<leftarrow> wait_block E now b (lineupDownload h b False s1);
            Some (if blk_IsFailed (blk_at b s2)
                  then (Some (Errorf ''failed to download block''), releaseDownloadFailedBlock h b s2) else (None, s2))
          }
          else Some (None, cooking s1)
        }
      else Some (None, cooking s))"

definition create_block ::
  "'n bc_commit \<Rightarrow> 'n bc_env \<Rightarrow> int \<Rightarrow> nat \<Rightarrow> int \<Rightarrow> 'n bc_state \<Rightarrow> ((nat + error) \<times> 'n bc_state) option" where
  "create_block commit E now h index s = do {
     s1 \<leftarrow> (if int (length (bh_cooked (bh_at h s)) + length (bh_cooking (bh_at h s))) \<ge> bc_prefetch (fst s)
            then waitAndFreeUploadedBlocks E now h 1 s else Some s);
     case MustGet E s1 of
       (None, s2) \<Rightarrow> Some (Inr (Errorf ''Failed to Allocate Buffer''), s2)
     | (Some b, s2) \<Rightarrow> do {
         let s3 = upd_blk b (\<lambda>x. x\<lparr>bk_id := index, bk_offset := wrapu64 (index * bc_blockSize (fst s2))\<rparr>) s2;
         (e, s4) \<leftarrow> fetch_for_write commit E now h b s3;
         case e of
           Some x \<Rightarrow> Some (Inr x, s4)
         | None \<Rightarrow> do {
             let s5 = upd_blk b (blk_clear BlockFlagDownloading)
                        (upd_bh h (\<lambda>x. x\<lparr>bh_nodes := map_store index b (bh_nodes x)\<rparr>) s4);
             s6 \<leftarrow> try_blk b blk_Unblock s5;
             s7 \<leftarrow> (if length (bh_cooking (bh_at h s6)) > MIN_WRITE_BLOCK then stageBlocks E h 1 s6 else Some s6);
             Some (Inl b, s7)
           }
       }
   }"

definition reclaim_block :: "'n bc_env \<Rightarrow> int \<Rightarrow> nat \<Rightarrow> nat \<Rightarrow> 'n bc_state \<Rightarrow> ((nat + error) \<times> 'n bc_state) option" where
  "reclaim_block E now h b s =
     (let fl = bk_flags (blk_at b s);
          again = (\<lambda>s. (Inl b, upd_blk b (\<lambda>x. blk_clear BlockFlagSynced (blk_clear BlockFlagDownloading (blk_clear BlockFlagUploading x)))
                    (addToCooking h b s))) in
      if IsSet fl BlockFlagSynced then Some (again s)
      else if IsSet fl BlockFlagDownloading then do {
        (v, s1) \<leftarrow> wait_block E now b s;
        s2 \<leftarrow> unblock_if b v s1;
        Some (if blk_IsFailed (blk_at b s2)
              then (Inr (Errorf ''failed to download block''), releaseDownloadFailedBlock h b s2) else again s2)
      }
      else if IsSet fl BlockFlagUploading then do {
        (v, s1) \<leftarrow> wait_block E now b s;
        s2 \<leftarrow> unblock_if b v s1;
        Some (again s2)
      }
      else Some (again s))"

definition getOrCreate_with ::
  "'n bc_commit \<Rightarrow> 'n bc_env \<Rightarrow> int \<Rightarrow> nat \<Rightarrow> int \<Rightarrow> 'n bc_state \<Rightarrow> ((nat + error) \<times> 'n bc_state) option" where
  "getOrCreate_with commit E now h offset s =
     (let index = getBlockIndex (fst s) offset in
      if index \<ge> MAX_BLOCKS then Some (Inr (Errorf ''block index out of range''), s)
      else case map_of (bh_nodes (bh_at h s)) index of
        None \<Rightarrow> create_block commit E now h index s
      | Some b \<Rightarrow> reclaim_block E now h b s)"

section \<open>Committing\<close>

text \<open>Up to three rounds of staging; \<open>True\<close> when all three were needed.\<close>

fun commit_rounds :: "nat \<Rightarrow> 'n bc_env \<Rightarrow> int \<Rightarrow> nat \<Rightarrow> 'n bc_state \<Rightarrow> (bool \<times> 'n bc_state) option" where
  "commit_rounds 0 E now h s = Some (True, s)"
| "commit_rounds (Suc k) E now h s =
     (if bh_cooking (bh_at h s) = [] then Some (False, s)
      else do {
        s1 \<leftarrow> stageBlocks E h MAX_BLOCKS s;
        s2 \<leftarrow> waitAndFreeUploadedBlocks E now h MAX_BLOCKS s1;
        commit_rounds k E now h s2
      })"

fun position :: "string \<Rightarrow> string list \<Rightarrow> nat option" where
  "position x [] = None"
| "position x (y # ys) = (if y = x then Some 0 else map_option Suc (position x ys))"

text \<open>A short block and its filler are fetched as one and made dirty; the filler leaves the list.\<close>

fun restage_blocks ::
  "'n bc_commit \<Rightarrow> 'n bc_env \<Rightarrow> int \<Rightarrow> nat \<Rightarrow> string list \<Rightarrow> string list \<Rightarrow> bool \<Rightarrow> 'n bc_state \<Rightarrow> ((bool \<times> err) \<times> 'n bc_state) option" where
  "restage_blocks commit E now h [] ids restaged s = Some ((restaged, None), s)"
| "restage_blocks commit E now h (x # xs) ids restaged s =
     (case position x ids of
        None \<Rightarrow> restage_blocks commit E now h xs ids restaged s
      | Some i \<Rightarrow> do {
          (r, s1) \<leftarrow> getOrCreate_with commit E now h (wrapu64 (int i * bc_blockSize (fst s))) s;
          case r of
            Inr e \<Rightarrow> Some ((restaged, Some e), s1)
          | Inl b \<Rightarrow>
              if Suc i \<ge> length ids then None
              else restage_blocks commit E now h xs (take (Suc i) ids @ drop (i + 2) ids) True (upd_blk b blk_Dirty s1)
        })"

definition set_committed :: "BcHandle \<Rightarrow> BcHandle" where
  "set_committed x = x\<lparr>bh_blockList := map_option (map (\<lambda>(k, i). (k, i\<lparr>bi_committed := True\<rparr>))) (bh_blockList x)\<rparr>"

text \<open>
  The number bounds how often a commit calls for another: once for the merged blocks, whose second commit
  finds no short block left.
\<close>

primrec commitBlocks :: "nat \<Rightarrow> 'n bc_env \<Rightarrow> int \<Rightarrow> 'n bc_commit" where
  "commitBlocks 0 E now = (\<lambda>h s. None)"
| "commitBlocks (Suc k) E now = (\<lambda>h s. do {
     (allThree, s1) \<leftarrow> commit_rounds 3 E now h s;
     if allThree \<and> list_ex (\<lambda>b. blk_IsDirty (blk_at b s1)) (bh_cooking (bh_at h s1))
     then Some (Some (Errorf ''failed to stage blocks''), s1)
     else do {
       ((ids, restage, e), s2) \<leftarrow> getBlockIDList E now h s1;
       if e \<noteq> None then Some (e, s2)
       else do {
         let options = \<lparr>cd_CommitName = h_Path (bh_at h s2), cd_List = ids, cd_BlockSize = bc_blockSize (fst s2), cd_NewETag = Some []\<rparr>;
         (e1, s3) \<leftarrow> below (CommitData (be_nxt E)) now options s2;
         if e1 \<noteq> None then Some (e1, s3)
         else do {
           let newEtag = be_commit_etag E (snd s3) options;
           let s4 = upd_bh h (\<lambda>x. set_committed (if newEtag \<noteq> [] then x\<lparr>bh_etag := Some newEtag\<rparr> else x)) s3;
           ((restaged, e2), s5) \<leftarrow> restage_blocks (commitBlocks k E now) E now h restage ids False s4;
           if e2 \<noteq> None then Some (e2, s5)
           else if restaged then commitBlocks k E now h s5
           else Some (None, upd_bh h (\<lambda>x. x\<lparr>h_Flags := clear_flag HandleFlagDirty (h_Flags x)\<rparr>) s5)
         }
       }
     }
   })"

definition commit :: "'n bc_env \<Rightarrow> int \<Rightarrow> 'n bc_commit" where
  "commit = commitBlocks 4"

definition getOrCreateBlock :: "'n bc_env \<Rightarrow> int \<Rightarrow> nat \<Rightarrow> int \<Rightarrow> 'n bc_state \<Rightarrow> ((nat + error) \<times> 'n bc_state) option" where
  "getOrCreateBlock E now = getOrCreate_with (commit E now) E now"

end
