(* ===== verification/Block_Cache_Files.thy ===== *)
theory Block_Cache_Files
  imports Block_Cache_Blocks
begin

text \<open>
  The handlers of the block cache (\<open>component/block_cache/block_cache.go\<close>): prefetching, reading and writing,
  creating, opening, flushing and releasing files, and what deletions, renames and evictions do to the
  blocks on the disk.
\<close>

section \<open>Prefetching\<close>

text \<open>
  A handle that is read at random keeps a few blocks only: first the blocks that are being fetched and are
  ready join the free ones, whatever their status, then the oldest free ones go back to the pool.
\<close>

fun recycle_cooking :: "nat \<Rightarrow> 'n bc_env \<Rightarrow> int \<Rightarrow> nat \<Rightarrow> 'n bc_state \<Rightarrow> 'n bc_state option" where
  "recycle_cooking 0 E now h s = Some s"
| "recycle_cooking (Suc k) E now h s =
     (case bh_cooking (bh_at h s) of
        [] \<Rightarrow> Some s
      | b # rest \<Rightarrow> do {
          s1 \<leftarrow> workers E now s;
          let back = upd_bh h (\<lambda>x. set_lists (bh_cooked x) (rest @ [b]) x);
          s2 \<leftarrow> (case receive b s1 of
              None \<Rightarrow> Some (back s1)
            | Some (None, s2) \<Rightarrow> Some (back s2)
            | Some (Some v, s2) \<Rightarrow>
                map_option (upd_bh h (\<lambda>x. set_lists (bh_cooked x @ [b]) rest x))
                  (try_blk b blk_Unblock (upd_blk b (blk_clear BlockFlagDownloading) s2)));
          recycle_cooking k E now h s2
        })"

fun trim_cooked :: "nat \<Rightarrow> nat \<Rightarrow> 'n bc_state \<Rightarrow> 'n bc_state" where
  "trim_cooked 0 h s = s"
| "trim_cooked (Suc k) h s =
     (case bh_cooked (bh_at h s) of
        [] \<Rightarrow> s
      | b # rest \<Rightarrow>
          trim_cooked k h (give_back b
            (upd_bh h (\<lambda>x. remove_node (bk_id (blk_at b s)) (set_lists rest (bh_cooking x) x)) s)))"

definition shrink_buffers :: "'n bc_env \<Rightarrow> int \<Rightarrow> nat \<Rightarrow> 'n bc_state \<Rightarrow> 'n bc_state option" where
  "shrink_buffers E now h s = do {
     s1 \<leftarrow> recycle_cooking (length (bh_cooking (bh_at h s))) E now h s;
     Some (trim_cooked (length (bh_cooked (bh_at h s1)) - nat MIN_PREFETCH) h s1)
   }"

text \<open>A handle that is read in order gets more blocks, up to the limit and a few at a time.\<close>

fun grow_buffers :: "nat \<Rightarrow> 'n bc_env \<Rightarrow> nat \<Rightarrow> nat \<Rightarrow> 'n bc_state \<Rightarrow> nat \<times> 'n bc_state" where
  "grow_buffers 0 E h cnt s = (cnt, s)"
| "grow_buffers (Suc k) E h cnt s =
     (if cnt \<ge> nat MIN_PREFETCH then (cnt, s)
      else case TryGet E s of
        (None, s1) \<Rightarrow> grow_buffers k E h cnt s1
      | (Some b, s1) \<Rightarrow> grow_buffers k E h (Suc cnt) (upd_bh h (\<lambda>x. set_lists (b # bh_cooked x) (bh_cooking x) x) s1))"

text \<open>The downloads: an index whose block the handle has already is not moved on from.\<close>

fun fetch_blocks :: "nat \<Rightarrow> 'n bc_env \<Rightarrow> int \<Rightarrow> nat \<Rightarrow> int \<Rightarrow> bool \<Rightarrow> 'n bc_state \<Rightarrow> (err \<times> 'n bc_state) option" where
  "fetch_blocks 0 E now h index prefetch s = Some (None, s)"
| "fetch_blocks (Suc k) E now h index prefetch s =
     (if map_of (bh_nodes (bh_at h s)) index \<noteq> None then fetch_blocks k E now h index True s
      else do {
        (e, s1) \<leftarrow> (if fst (shouldCommitAndDownload index (bh_at h s)) then commit E now h s else Some (None, s));
        if e \<noteq> None then Some (e, s1)
        else do {
          (e1, s2) \<leftarrow> refreshBlock E now h index prefetch s1;
          if e1 \<noteq> None then Some (e1, s2) else fetch_blocks k E now h (index + 1) True s2
        }
      })"

definition startPrefetch :: "'n bc_env \<Rightarrow> int \<Rightarrow> nat \<Rightarrow> int \<Rightarrow> bool \<Rightarrow> 'n bc_state \<Rightarrow> (err \<times> 'n bc_state) option" where
  "startPrefetch E now h index prefetch s =
     (let currentCnt = length (bh_cooked (bh_at h s)) + length (bh_cooking (bh_at h s)) in
      if h_OptCnt (bh_at h s) > MIN_RANDREAD
      then do {
        s1 \<leftarrow> (if int currentCnt > MIN_PREFETCH then shrink_buffers E now h s else Some s);
        fetch_blocks 1 E now h index prefetch s1
      }
      else let (cnt, s1) = grow_buffers (nat (bc_prefetch (fst s)) - currentCnt) E h 0 s
        in fetch_blocks (max 1 cnt) E now h index prefetch s1)"

section \<open>Reading\<close>

text \<open>
  A block that no one has: staged blocks are committed first; for a hole that the storage does not have yet, a
  block of zeroes that belongs to nobody is handed out at once (\<open>Inl (Some b)\<close>).
\<close>

definition before_fetch ::
  "'n bc_env \<Rightarrow> int \<Rightarrow> nat \<Rightarrow> int \<Rightarrow> int \<Rightarrow> 'n bc_state \<Rightarrow> ((nat option + error) \<times> 'n bc_state) option" where
  "before_fetch E now h readoffset index s =
     (let (shouldCommit, shouldDownload) = shouldCommitAndDownload index (bh_at h s) in
      if shouldCommit then do {
        (e, s1) \<leftarrow> commit E now h s;
        Some (case e of Some x \<Rightarrow> Inr x | None \<Rightarrow> Inl None, s1)
      }
      else if shouldDownload then Some (Inl None, s)
      else do {
        ((prop, e), s1) \<leftarrow> below (GetAttr (be_nxt E)) now \<lparr>ga_Name = h_Path (bh_at h s), ga_RetrieveMetadata = False\<rparr> s;
        case e of
          Some x \<Rightarrow> Some (Inr x, s1)
        | None \<Rightarrow>
            (case prop of
               None \<Rightarrow> None
             | Some a \<Rightarrow>
                 if readoffset < wrapu64 (a_Size a) then Some (Inl None, s1)
                 else (case MustGet E s1 of
                   (None, s2) \<Rightarrow> Some (Inr (Errorf ''Failed to Allocate Buffer''), s2)
                 | (Some b, s2) \<Rightarrow> Some (Inl (Some b), upd_blk b (\<lambda>x. x\<lparr>bk_offset := readoffset\<rparr>) s2)))
      })"

definition count_random :: "'n bc_env \<Rightarrow> nat \<Rightarrow> 'n bc_state \<Rightarrow> 'n bc_state option" where
  "count_random E h s =
     (if bc_noPrefetch (fst s) then Some (upd_bh h (\<lambda>x. x\<lparr>h_OptCnt := wrap64 (h_OptCnt x + 1)\<rparr>) s)
      else case bh_next (bh_at h s) of
        None \<Rightarrow> None
      | Some v \<Rightarrow> Some (if v = 0 then s else upd_bh h (\<lambda>x. x\<lparr>h_OptCnt := wrap64 (h_OptCnt x + 1)\<rparr>) s))"

text \<open>The first reader of a downloaded block lines up more of them.\<close>

definition first_reader :: "'n bc_env \<Rightarrow> int \<Rightarrow> nat \<Rightarrow> nat \<Rightarrow> 'n bc_state \<Rightarrow> 'n bc_state option" where
  "first_reader E now h b s0 = do {
     let s = upd_blk b (blk_clear BlockFlagDownloading) s0;
     s1 \<leftarrow> (if bc_noPrefetch (fst s) \<or> h_OptCnt (bh_at h s) > MIN_RANDREAD then Some s
       else case bh_next (bh_at h s) of
         None \<Rightarrow> None
       | Some v \<Rightarrow>
           if wrap64 (v * bc_blockSize (fst s)) < h_Size (bh_at h s)
           then map_option snd (startPrefetch E now h v True s) else Some s);
     Some (upd_blk b (blk_set BlockFlagSynced) (addToCooked h b s1))
   }"

text \<open>The wait for the block, and what its status asks for.\<close>

definition read_block :: "'n bc_env \<Rightarrow> int \<Rightarrow> nat \<Rightarrow> nat \<Rightarrow> 'n bc_state \<Rightarrow> ((nat + error) \<times> 'n bc_state) option" where
  "read_block E now h b s = do {
     (t, s1) \<leftarrow> wait_block E now b s;
     s2 \<leftarrow> unblock_if b t s1;
     case t of
       None \<Rightarrow> Some (Inl b, s2)
     | Some BlockStatusDownloaded \<Rightarrow> map_option (\<lambda>s3. (Inl b, s3)) (first_reader E now h b s2)
     | Some BlockStatusUploaded \<Rightarrow> Some (Inl b, upd_blk b (blk_clear BlockFlagUploading) s2)
     | Some BlockStatusDownloadFailed \<Rightarrow>
         Some (Inr (Errorf ''failed to download block''), releaseDownloadFailedBlock h b s2)
     | Some BlockStatusUploadFailed \<Rightarrow> Some (Inl b, addToCooking h b (upd_blk b (blk_clear BlockFlagUploading) s2))
   }"

definition getBlock :: "'n bc_env \<Rightarrow> int \<Rightarrow> nat \<Rightarrow> int \<Rightarrow> 'n bc_state \<Rightarrow> ((nat + error) \<times> 'n bc_state) option" where
  "getBlock E now h readoffset s =
     (if readoffset \<ge> wrapu64 (h_Size (bh_at h s)) then Some (Inr io_EOF, s)
      else let index = getBlockIndex (fst s) readoffset in
        case map_of (bh_nodes (bh_at h s)) index of
          Some b \<Rightarrow> read_block E now h b s
        | None \<Rightarrow> do {
            (r, s1) \<leftarrow> before_fetch E now h readoffset index s;
            case r of
              Inr e \<Rightarrow> Some (Inr e, s1)
            | Inl (Some b) \<Rightarrow> Some (Inl b, s1)
            | Inl None \<Rightarrow> do {
                s2 \<leftarrow> count_random E h s1;
                (e, s3) \<leftarrow> startPrefetch E now h index False s2;
                if e \<noteq> None \<and> e \<noteq> Some io_EOF then Some (Inr (the e), s3)
                else case map_of (bh_nodes (bh_at h s3)) index of
                  None \<Rightarrow> Some (Inr (Errorf ''not able to find block immediately after scheduling''), s3)
                | Some b \<Rightarrow> read_block E now h b s3
              }
          })"

text \<open>The length of the buffer that is left, and the bytes read so far.\<close>

partial_function (option) read_loop ::
  "'n bc_env \<Rightarrow> int \<Rightarrow> nat \<Rightarrow> int \<Rightarrow> nat \<Rightarrow> string \<Rightarrow> 'n bc_state \<Rightarrow> ((string \<times> err) \<times> 'n bc_state) option" where
  "read_loop E now h off len acc s =
     (if len = 0 then Some ((acc, None), s)
      else Option.bind (getBlock E now h (wrapu64 off) s) (\<lambda>(r, s1).
        case r of
          Inr e \<Rightarrow> Some ((acc, Some e), s1)
        | Inl b \<Rightarrow>
            let readOffset = wrapu64 (off - bk_offset (blk_at b s1));
                blockSize = getBlockSize (bc_blockSize (fst s1)) (wrapu64 (h_Size (bh_at h s1))) (blk_at b s1);
                bs = take len (drop (nat readOffset) (take (nat blockSize) (bk_data (blk_at b s1)))) in
            if readOffset > blockSize then None
            else if off + int (length bs) \<ge> h_Size (bh_at h s1) then Some ((acc @ bs, Some io_EOF), s1)
            else read_loop E now h (off + int (length bs)) (len - length bs) (acc @ bs) s1))"

declare read_loop.simps [code]

definition bc_ReadInBuffer ::
  "'n bc_env \<Rightarrow> int \<Rightarrow> nat \<Rightarrow> nat \<Rightarrow> int \<Rightarrow> 'n bc_state \<Rightarrow> ((string \<times> err) \<times> 'n bc_state) option" where
  "bc_ReadInBuffer E now h len off s =
     (if off \<ge> h_Size (bh_at h s) then Some (([], Some io_EOF), s) else read_loop E now h off len [] s)"

section \<open>Writing\<close>

text \<open>The bytes that are left and the number written.\<close>

partial_function (option) write_loop ::
  "'n bc_env \<Rightarrow> int \<Rightarrow> nat \<Rightarrow> int \<Rightarrow> string \<Rightarrow> int \<Rightarrow> 'n bc_state \<Rightarrow> ((int \<times> err) \<times> 'n bc_state) option" where
  "write_loop E now h off data cnt s =
     (if data = [] then Some ((cnt, None), s)
      else Option.bind (getOrCreateBlock E now h (wrapu64 off) s) (\<lambda>(r, s1).
        case r of
          Inr e \<Rightarrow> Some ((cnt, Some e), s1)
        | Inl b \<Rightarrow>
            let d = bk_data (blk_at b s1); writeOffset = nat (wrapu64 (off - bk_offset (blk_at b s1))) in
            if writeOffset > length d then None
            else
              let bs = take (length d - writeOffset) data;
                  s2 = upd_blk b (\<lambda>x. blk_Dirty (x\<lparr>bk_data := take writeOffset d @ bs @ drop (writeOffset + length bs) d\<rparr>)) s1;
                  off1 = off + int (length bs);
                  s3 = upd_bh h (\<lambda>x. x\<lparr>h_Flags := set_flag HandleFlagDirty (h_Flags x), h_Size := max (h_Size x) off1\<rparr>) s2
              in write_loop E now h off1 (drop (length bs) data) (cnt + int (length bs)) s3))"

declare write_loop.simps [code]

definition bc_WriteFile ::
  "'n bc_env \<Rightarrow> int \<Rightarrow> nat \<Rightarrow> string \<Rightarrow> int \<Rightarrow> 'n bc_state \<Rightarrow> ((int \<times> err) \<times> 'n bc_state) option" where
  "bc_WriteFile E now h data off s = write_loop E now h off data 0 s"

section \<open>Creating and opening\<close>

definition prepareHandleForBlockCache :: "BcHandle \<Rightarrow> BcHandle" where
  "prepareHandleForBlockCache x = x\<lparr>h_Buffers := Some ([], []), bh_blockList := Some [], bh_next := Some 0\<rparr>"

definition new_bc_handle :: "string \<Rightarrow> BcHandle" where
  "new_bc_handle path = Handle.extend (NewHandle path)
     \<lparr>bh_blockList = None, bh_next = None, bh_nodes = [], bh_etag = None\<rparr>"

definition alloc_bc_handle :: "BcHandle \<Rightarrow> 'n bc_state \<Rightarrow> nat \<times> 'n bc_state" where
  "alloc_bc_handle x = (\<lambda>(bc, n).
     (bc_fresh bc, (bc\<lparr>bc_heap := (bc_heap bc)(bc_fresh bc := x), bc_fresh := Suc (bc_fresh bc)\<rparr>, n)))"

definition bc_CreateFile :: "'n bc_env \<Rightarrow> ('n bc_state, CreateFileOptions, nat option \<times> err) handler" where
  "bc_CreateFile E now options s = do {
     ((f, e), s1) \<leftarrow> below (CreateFile (be_nxt E)) now options s;
     if e \<noteq> None then Some ((None, e), s1)
     else case f of
       None \<Rightarrow> None
     | Some x \<Rightarrow>
         let s2 = (case h_FObj x of None \<Rightarrow> s1 | Some fd \<Rightarrow> snd (bc_os E (os_Close fd) s1));
             (r, s3) = alloc_bc_handle (prepareHandleForBlockCache ((new_bc_handle (cf_Name options))\<lparr>h_Size := 0, h_Mtime := now\<rparr>)) s2
         in Some ((Some r, None), s3)
   }"

text \<open>The blocks of an object with their index, when all but the last have the size of a block.\<close>

fun validateBlockList :: "int \<Rightarrow> int \<Rightarrow> CommittedBlock list \<Rightarrow> (int \<times> blockInfo) list option" where
  "validateBlockList blockSize idx [] = Some []"
| "validateBlockList blockSize idx (b # bs) =
     (if bs \<noteq> [] \<and> cb_Size b \<noteq> blockSize \<or> bs = [] \<and> cb_Size b > blockSize then None
      else map_option ((#) (idx, \<lparr>bi_id = cb_Id b, bi_committed = True, bi_size = cb_Size b\<rparr>))
             (validateBlockList blockSize (idx + 1) bs))"

text \<open>What the flags of an open ask for; the error of a refused open.\<close>

definition open_flags_done :: "'n bc_env \<Rightarrow> int \<Rightarrow> OpenFileOptions \<Rightarrow> nat \<Rightarrow> 'n bc_state \<Rightarrow> (err \<times> 'n bc_state) option" where
  "open_flags_done E now options h s =
     (let flags = of_Flags options in
      if has_O_TRUNC flags
      then Some (None, upd_bh h (\<lambda>x. x\<lparr>h_Size := 0, h_Flags := set_flag HandleFlagDirty (h_Flags x), bh_etag := None\<rparr>) s)
      else if h_Size (bh_at h s) \<noteq> 0 \<and> (has_O_RDWR flags \<or> has_O_APPEND flags)
      then do {
        ((blockList, e), s1) \<leftarrow> below (GetCommittedBlockList (be_nxt E)) now (of_Name options) s;
        if e \<noteq> None \<or> blockList = None then Some (Some (Errorf ''failed to retrieve block list''), s1)
        else case validateBlockList (bc_blockSize (fst s1)) 0 (the blockList) of
          None \<Rightarrow> Some (Some (Errorf ''block size mismatch''), s1)
        | Some m \<Rightarrow> Some (None, upd_bh h (\<lambda>x. x\<lparr>bh_blockList := Some m\<rparr>) s1)
      }
      else if has_O_WRONLY flags then Some (None, upd_bh h (\<lambda>x. x\<lparr>bh_etag := None\<rparr>) s)
      else Some (None, s))"

definition bc_OpenFile :: "'n bc_env \<Rightarrow> ('n bc_state, OpenFileOptions, nat option \<times> err) handler" where
  "bc_OpenFile E now options s = do {
     ((attr, e), s1) \<leftarrow> below (GetAttr (be_nxt E)) now \<lparr>ga_Name = of_Name options, ga_RetrieveMetadata = False\<rparr> s;
     if e \<noteq> None then Some ((None, e), s1)
     else case attr of
       None \<Rightarrow> None
     | Some a \<Rightarrow>
         let (h, s2) = alloc_bc_handle (prepareHandleForBlockCache ((new_bc_handle (of_Name options))
               \<lparr>h_Mtime := a_Mtime a, h_Size := a_Size a, bh_etag := (if a_ETag a \<noteq> [] then Some (a_ETag a) else None)\<rparr>)) s1 in
         do {
           (e1, s3) \<leftarrow> open_flags_done E now options h s2;
           if e1 \<noteq> None then Some ((None, e1), s3)
           else do {
             s4 \<leftarrow> (if h_Size (bh_at h s3) \<le> 0 then Some s3
               else if h_Size (bh_at h s3) < wrap64 (bc_blockSize (fst s3)) then map_option snd (refreshBlock E now h 0 False s3)
               else if bc_prefetchOnOpen (fst s3) \<and> \<not> bc_noPrefetch (fst s3) then map_option snd (startPrefetch E now h 0 False s3)
               else Some s3);
             Some ((Some h, None), s4)
           }
         }
   }"

section \<open>Flushing and releasing\<close>

abbreviation bh_Dirty :: "BcHandle \<Rightarrow> bool" where
  "bh_Dirty x \<equiv> IsSet (h_Flags x) HandleFlagDirty"

definition bc_FlushFile :: "'n bc_env \<Rightarrow> int \<Rightarrow> nat \<Rightarrow> bool \<Rightarrow> 'n bc_state \<Rightarrow> (err \<times> 'n bc_state) option" where
  "bc_FlushFile E now h closeInProgress s =
     (if bc_lazyWrite (fst s) \<and> \<not> closeInProgress then Some (None, s)
      else if bh_Dirty (bh_at h s) then commit E now h s else Some (None, s))"

definition bc_SyncFile :: "'n bc_env \<Rightarrow> int \<Rightarrow> nat \<Rightarrow> 'n bc_state \<Rightarrow> (err \<times> 'n bc_state) option" where
  "bc_SyncFile E now h s = bc_FlushFile E now h True s"

text \<open>
  The blocks under download are waited for; then they and the others go back to the pool. A block leaves the
  list when its wait is over, which nobody can see: the handle has been emptied.
\<close>

fun release_cooking :: "nat \<Rightarrow> 'n bc_env \<Rightarrow> int \<Rightarrow> nat \<Rightarrow> 'n bc_state \<Rightarrow> 'n bc_state option" where
  "release_cooking 0 E now h s = Some s"
| "release_cooking (Suc k) E now h s =
     (case bh_cooking (bh_at h s) of
        [] \<Rightarrow> Some s
      | b # rest \<Rightarrow> do {
          (v, s1) \<leftarrow> wait_block E now b s;
          release_cooking k E now h (give_back b (upd_bh h (\<lambda>x. set_lists (bh_cooked x) rest x) s1))
        })"

fun release_cooked :: "nat \<Rightarrow> nat \<Rightarrow> 'n bc_state \<Rightarrow> 'n bc_state" where
  "release_cooked 0 h s = s"
| "release_cooked (Suc k) h s =
     (case bh_cooked (bh_at h s) of
        [] \<Rightarrow> s
      | b # rest \<Rightarrow> release_cooked k h (give_back b (upd_bh h (\<lambda>x. set_lists rest (bh_cooking x) x) s)))"

definition release_buffers :: "'n bc_env \<Rightarrow> int \<Rightarrow> nat \<Rightarrow> 'n bc_state \<Rightarrow> 'n bc_state option" where
  "release_buffers E now h s0 = do {
     let s = upd_bh h (\<lambda>x. x\<lparr>h_values := [], bh_blockList := None, bh_next := None, bh_nodes := [], bh_etag := None\<rparr>) s0;
     s1 \<leftarrow> release_cooking (length (bh_cooking (bh_at h s))) E now h s;
     Some (upd_bh h (\<lambda>x. x\<lparr>h_Buffers := None\<rparr>) (release_cooked (length (bh_cooked (bh_at h s1))) h s1))
   }"

definition bc_releaseFileInternal :: "'n bc_env \<Rightarrow> int \<Rightarrow> nat \<Rightarrow> 'n bc_state \<Rightarrow> (err \<times> 'n bc_state) option" where
  "bc_releaseFileInternal E now h s = do {
     (e, s1) \<leftarrow> (if bh_Dirty (bh_at h s) then bc_FlushFile E now h True s else Some (None, s));
     if e \<noteq> None then Some (e, s1)
     else map_option (\<lambda>s2. (None, s2)) (release_buffers E now h s1)
   }"

text \<open>With lazy writes this runs in a goroutine and its error is dropped.\<close>

definition bc_ReleaseFile :: "'n bc_env \<Rightarrow> int \<Rightarrow> nat \<Rightarrow> 'n bc_state \<Rightarrow> (err \<times> 'n bc_state) option" where
  "bc_ReleaseFile E now h s =
     map_option (\<lambda>(e, s1). (if bc_lazyWrite (fst s) then None else e, s1)) (bc_releaseFileInternal E now h s)"

section \<open>The local copies of blocks\<close>

text \<open>\<open>filepath.Glob\<close> of a path, without pattern characters, and a star.\<close>

definition os_GlobStar :: "os_fs \<Rightarrow> string \<Rightarrow> string list" where
  "os_GlobStar fs p =
     map fst (sort_by_name [(q, i) \<leftarrow> dents fs. prefix p q \<and> slash \<notin> set (drop (length p) q)])"

text \<open>Empty directories up to the cache directory; there are fewer of them than characters in the path.\<close>

fun prune_dirs :: "nat \<Rightarrow> string \<Rightarrow> string \<Rightarrow> os_fs \<Rightarrow> os_fs" where
  "prune_dirs 0 tmp dir fs = fs"
| "prune_dirs (Suc k) tmp dir fs =
     (if dir = tmp \<or> dir = [slash] \<or> has_children fs dir then fs
      else prune_dirs k tmp (path_dir dir) (snd (os_Remove dir fs)))"

definition prune_from :: "string \<Rightarrow> string \<Rightarrow> os_fs \<Rightarrow> unit \<times> os_fs" where
  "prune_from tmp p fs = ((), prune_dirs (length p) tmp (path_dir p) fs)"

definition bc_diskEvict :: "'n bc_env \<Rightarrow> string \<Rightarrow> 'n bc_state \<Rightarrow> 'n bc_state" where
  "bc_diskEvict E cacheKey s =
     (let s1 = ((fst s)\<lparr>bc_fileNodeMap := removeAll cacheKey (bc_fileNodeMap (fst s))\<rparr>, snd s);
          p = disk_path (fst s1) cacheKey; s2 = snd (bc_os E (os_Remove p) s1)
      in snd (bc_os E (prune_from (bc_tmpPath (fst s2)) p) s2))"

definition invalidateDirectory :: "'n bc_env \<Rightarrow> string \<Rightarrow> 'n bc_state \<Rightarrow> 'n bc_state" where
  "invalidateDirectory E name s =
     (if bc_tmpPath (fst s) = [] then s
      else let p = disk_path (fst s) name; s1 = snd (bc_os E (os_RemoveAll p) s)
        in snd (bc_os E (prune_from (bc_tmpPath (fst s1)) p) s1))"

definition bc_DeleteDir :: "'n bc_env \<Rightarrow> ('n bc_state, NameOptions, err) handler" where
  "bc_DeleteDir E now options s = do {
     (e, s1) \<leftarrow> below (DeleteDir (be_nxt E)) now options s;
     Some (e, if e \<noteq> None then s1 else invalidateDirectory E (opt_Name options) s1)
   }"

definition bc_RenameDir :: "'n bc_env \<Rightarrow> ('n bc_state, RenameDirOptions, err) handler" where
  "bc_RenameDir E now options s = do {
     (e, s1) \<leftarrow> below (RenameDir (be_nxt E)) now options s;
     Some (e, if e \<noteq> None then s1 else invalidateDirectory E (rd_Src options) s1)
   }"

text \<open>The first failure ends the loop over the local copies; a deletion does not report it, a rename does.\<close>

fun remove_files :: "string list \<Rightarrow> os_fs \<Rightarrow> unit \<times> os_fs" where
  "remove_files [] fs = ((), fs)"
| "remove_files (p # ps) fs = (case os_Remove p fs of (Some e, fs1) \<Rightarrow> ((), fs1) | (None, fs1) \<Rightarrow> remove_files ps fs1)"

fun rename_files :: "string \<Rightarrow> string \<Rightarrow> string list \<Rightarrow> os_fs \<Rightarrow> err \<times> os_fs" where
  "rename_files src dst [] fs = (None, fs)"
| "rename_files src dst (p # ps) fs =
     (case os_Rename p (replace_first src dst p) fs of
        (Some e, fs1) \<Rightarrow> (Some e, fs1)
      | (None, fs1) \<Rightarrow> rename_files src dst ps fs1)"

definition bc_DeleteFile :: "'n bc_env \<Rightarrow> ('n bc_state, NameOptions, err) handler" where
  "bc_DeleteFile E now options s = do {
     (e, s1) \<leftarrow> below (DeleteFile (be_nxt E)) now options s;
     if e \<noteq> None then Some (e, s1)
     else Some (None, snd (bc_os E (remove_files (os_GlobStar (bc_fs E s1) (disk_path (fst s1) (opt_Name options)))) s1))
   }"

text \<open>\<open>None\<close> for a rename onto the same name: the lock is taken twice.\<close>

definition bc_RenameFile :: "'n bc_env \<Rightarrow> ('n bc_state, RenameFileOptions, err) handler" where
  "bc_RenameFile E now options s =
     (if rf_Src options = rf_Dst options then None
      else do {
        (e, s1) \<leftarrow> below (RenameFile (be_nxt E)) now options s;
        if e \<noteq> None then Some (e, s1)
        else let src = disk_path (fst s1) (rf_Src options); dst = disk_path (fst s1) (rf_Dst options)
          in Some (bc_os E (rename_files src dst (os_GlobStar (bc_fs E s1) src)) s1)
      })"

section \<open>Sizes\<close>

definition bc_TruncateFile :: "'n bc_env \<Rightarrow> ('n bc_state, TruncateFileOptions, err) handler" where
  "bc_TruncateFile E now options s =
     below (TruncateFile (be_nxt E)) now (options\<lparr>tf_BlockSize := wrap64 (bc_blockSize (fst s))\<rparr>) s"

definition MAX_POOL_USAGE :: int where "MAX_POOL_USAGE = 80"
definition MIN_POOL_USAGE :: int where "MIN_POOL_USAGE = 50"

text \<open>Whether eviction is needed: from the upper mark on, until the usage is below the lower one.\<close>

definition checkDiskUsage :: "'n bc_env \<Rightarrow> 'n bc_state \<Rightarrow> bool \<times> 'n bc_state" where
  "checkDiskUsage E s =
     (let data = (case be_usage E (bc_fs E s) (bc_tmpPath (fst s)) of Some u \<Rightarrow> u | None \<Rightarrow> 0);
          usage = floor (data * 100 / of_int (bc_diskSize (fst s)));
          hit = (\<lambda>v. ((fst s)\<lparr>bc_maxDiskUsageHit := v\<rparr>, snd s)) in
      if bc_maxDiskUsageHit (fst s)
      then (if usage \<ge> MIN_POOL_USAGE then (True, s) else (False, hit False))
      else (if usage \<ge> MAX_POOL_USAGE then (True, hit True) else (False, s)))"

definition bc_StatFs :: "'n bc_env \<Rightarrow> ('n bc_state, unit, Statfs_t option \<times> bool \<times> err) handler" where
  "bc_StatFs E now options s =
     (let maxCacheSize = (if bc_diskSize (fst s) > 0 then bc_diskSize (fst s) else bc_memSize (fst s));
          usage = (case be_usage E (bc_fs E s) (bc_tmpPath (fst s)) of Some u \<Rightarrow> u | None \<Rightarrow> 0);
          available = of_int maxCacheSize - usage; bs = wrap64 (bc_blockSize (fst s)) in
      if maxCacheSize = 0 then Some ((None, False, None), s)
      else case be_avail E (bc_fs E s) of
        Inl e \<Rightarrow> Some ((None, False, Some e), s)
      | Inr free \<Rightarrow> Some ((Some \<lparr>st_Bsize = bs, st_Blocks = maxCacheSize div wrapu64 bs, st_Bfree = free,
            st_Bavail = floor (max 0 available) div wrapu64 bs, st_Files = 1000000000, st_Ffree = 1000000000,
            st_Frsize = bs, st_Flags = 0, st_Namemax = 255\<rparr>, True, None), s))"

end
