(* ===== verification/Block_Cache_Reads.thy ===== *)
theory Block_Cache_Reads
  imports Block_Cache_Files
begin

text \<open>
  Reading through the block cache: the contract of the storage below for files that do not change, the
  invariant of a cache whose handles only read, and what it makes of every step: the workers always get
  their items done, a wait returns, and a block that is handed out holds the bytes of its file.
\<close>

section \<open>The contract of the storage\<close>

text \<open>
  The files have fixed contents. A read inside a file fills the buffer as far as the file goes, says how
  far, and may report the end of the file. The tags it gives out are those of the attributes.
\<close>

locale block_source =
  fixes E :: "'n bc_env" and good :: "'n \<Rightarrow> bool" and content :: "string \<Rightarrow> string option" and tag :: "string \<Rightarrow> string"
  assumes source_attr: "good n \<Longrightarrow> content p = Some c \<Longrightarrow>
      \<exists>a n'. GetAttr (be_nxt E) now \<lparr>ga_Name = p, ga_RetrieveMetadata = False\<rparr> n = Some ((Some a, None), n') \<and> good n' \<and>
        a_Size a = int (length c) \<and> (a_ETag a = [] \<or> a_ETag a = tag p)"
    and source_read: "good n \<Longrightarrow> ri_Handle options = Some x \<Longrightarrow> h_FObj x = None \<Longrightarrow> content (h_Path x) = Some c \<Longrightarrow>
      0 \<le> ri_Offset options \<Longrightarrow> ri_Offset options < int (length c) \<Longrightarrow>
      k = min (length (ri_Data options)) (length c - nat (ri_Offset options)) \<Longrightarrow>
      \<exists>e n'. ReadInBuffer (be_nxt E) now options n =
          Some ((take k (drop (nat (ri_Offset options)) c) @ drop k (ri_Data options), int k, e), n') \<and> good n' \<and>
        (e = None \<or> e = Some io_EOF) \<and> (be_read_etag E n' options = [] \<or> be_read_etag E n' options = tag (h_Path x))"

section \<open>Cells\<close>

named_theorems bc_upd "what an update of one cell leaves"

lemma upd_blk_get [bc_upd]:
  "blk_at b' (upd_blk b f s) = (if b' = b then f (blk_at b s) else blk_at b' s)"
  "bc_heap (fst (upd_blk b f s)) = bc_heap (fst s)" "bc_pool (fst (upd_blk b f s)) = bc_pool (fst s)"
  "bc_work (fst (upd_blk b f s)) = bc_work (fst s)" "bc_fresh (fst (upd_blk b f s)) = bc_fresh (fst s)"
  "bc_blockSize (fst (upd_blk b f s)) = bc_blockSize (fst s)" "bc_tmpPath (fst (upd_blk b f s)) = bc_tmpPath (fst s)"
  "snd (upd_blk b f s) = snd s"
  by (cases s; simp add: upd_blk_def)+

lemma upd_bh_get [bc_upd]:
  "bh_at h' (upd_bh h f s) = (if h' = h then f (bh_at h s) else bh_at h' s)"
  "bc_blocks (fst (upd_bh h f s)) = bc_blocks (fst s)" "bc_pool (fst (upd_bh h f s)) = bc_pool (fst s)"
  "bc_work (fst (upd_bh h f s)) = bc_work (fst s)" "bc_fresh (fst (upd_bh h f s)) = bc_fresh (fst s)"
  "bc_blockSize (fst (upd_bh h f s)) = bc_blockSize (fst s)" "bc_tmpPath (fst (upd_bh h f s)) = bc_tmpPath (fst s)"
  "snd (upd_bh h f s) = snd s"
  by (cases s; simp add: upd_bh_def)+

lemma upd_pool_get [bc_upd]:
  "bc_blocks (fst (upd_pool p s)) = bc_blocks (fst s)" "bc_heap (fst (upd_pool p s)) = bc_heap (fst s)"
  "bc_pool (fst (upd_pool p s)) = p" "bc_work (fst (upd_pool p s)) = bc_work (fst s)"
  "bc_fresh (fst (upd_pool p s)) = bc_fresh (fst s)" "bc_blockSize (fst (upd_pool p s)) = bc_blockSize (fst s)"
  "bc_tmpPath (fst (upd_pool p s)) = bc_tmpPath (fst s)" "snd (upd_pool p s) = snd s"
  by (cases s; simp add: upd_pool_def)+

lemma Schedule_get [bc_upd]:
  "bc_blocks (fst (Schedule w s)) = bc_blocks (fst s)" "bc_heap (fst (Schedule w s)) = bc_heap (fst s)"
  "bc_pool (fst (Schedule w s)) = bc_pool (fst s)" "bc_work (fst (Schedule w s)) = bc_work (fst s) @ [w]"
  "bc_fresh (fst (Schedule w s)) = bc_fresh (fst s)" "bc_blockSize (fst (Schedule w s)) = bc_blockSize (fst s)"
  "bc_tmpPath (fst (Schedule w s)) = bc_tmpPath (fst s)" "snd (Schedule w s) = snd s"
  by (cases s; simp add: Schedule_def)+

lemma set_lists_get [bc_upd]:
  "bh_cooked (set_lists c k x) = c" "bh_cooking (set_lists c k x) = k" "h_Buffers (set_lists c k x) = Some (c, k)"
  "h_Path (set_lists c k x) = h_Path x" "h_Size (set_lists c k x) = h_Size x" "h_FObj (set_lists c k x) = h_FObj x"
  "h_Flags (set_lists c k x) = h_Flags x" "bh_blockList (set_lists c k x) = bh_blockList x"
  "bh_next (set_lists c k x) = bh_next x" "bh_nodes (set_lists c k x) = bh_nodes x" "bh_etag (set_lists c k x) = bh_etag x"
  "h_OptCnt (set_lists c k x) = h_OptCnt x"
  by (simp_all add: set_lists_def bh_cooked_def bh_cooking_def)

lemma lists_keep [bc_upd]:
  "bh_cooked (x\<lparr>bh_nodes := m\<rparr>) = bh_cooked x" "bh_cooking (x\<lparr>bh_nodes := m\<rparr>) = bh_cooking x"
  "bh_cooked (x\<lparr>bh_next := v\<rparr>) = bh_cooked x" "bh_cooking (x\<lparr>bh_next := v\<rparr>) = bh_cooking x"
  "bh_cooked (x\<lparr>h_OptCnt := w\<rparr>) = bh_cooked x" "bh_cooking (x\<lparr>h_OptCnt := w\<rparr>) = bh_cooking x"
  by (simp_all add: bh_cooked_def bh_cooking_def)

section \<open>The invariant\<close>

abbreviation open_chan :: block_chan where "open_chan \<equiv> \<lparr>ch_value = None, ch_closed = True\<rparr>"
abbreviation ready_chan :: block_chan where "ready_chan \<equiv> \<lparr>ch_value = Some BlockStatusDownloaded, ch_closed = False\<rparr>"

text \<open>The blocks lent to a handle, and those with a work item.\<close>

definition lent :: "'n bc_state \<Rightarrow> nat \<Rightarrow> nat list" where
  "lent s h = bh_cooked (bh_at h s) @ bh_cooking (bh_at h s)"

definition pending :: "'n bc_state \<Rightarrow> nat set" where
  "pending s = wi_block ` set (bc_work (fst s))"

text \<open>A block of a file, and one that holds what the file has there.\<close>

definition blk_bound :: "nat \<Rightarrow> string \<Rightarrow> CacheBlock \<Rightarrow> bool" where
  "blk_bound z c b \<longleftrightarrow> 0 \<le> bk_id b \<and> bk_offset b = bk_id b * int z \<and> bk_offset b < int (length c) \<and>
     \<not> IsSet (bk_flags b) BlockFlagUploading"

definition blk_full :: "nat \<Rightarrow> string \<Rightarrow> CacheBlock \<Rightarrow> bool" where
  "blk_full z c b \<longleftrightarrow> take (length c - nat (bk_offset b)) (bk_data b) = take z (drop (nat (bk_offset b)) c)"

definition cooked_ok :: "nat \<Rightarrow> string \<Rightarrow> CacheBlock \<Rightarrow> bool" where
  "cooked_ok z c b \<longleftrightarrow> bk_id b = - 1 \<or> blk_bound z c b \<and> blk_full z c b \<and> bk_state b = open_chan"

definition cooking_ok :: "nat \<Rightarrow> string \<Rightarrow> bool \<Rightarrow> CacheBlock \<Rightarrow> bool" where
  "cooking_ok z c pend b \<longleftrightarrow> blk_bound z c b \<and>
     (if pend then bk_state b = new_chan else blk_full z c b \<and> (bk_state b = ready_chan \<or> bk_state b = open_chan))"

text \<open>A handle of a file with the content: its fields and its blocks.\<close>

definition hd_fields :: "nat \<Rightarrow> string \<Rightarrow> BcHandle \<Rightarrow> bool" where
  "hd_fields z c x \<longleftrightarrow> h_Buffers x \<noteq> None \<and> h_FObj x = None \<and> \<not> IsSet (h_Flags x) HandleFlagDirty \<and>
     h_Size x = int (length c) \<and> int (length c) + int z < 2 ^ 63"

definition hd_ok :: "(string \<Rightarrow> string option) \<Rightarrow> nat \<Rightarrow> 'n bc_state \<Rightarrow> nat \<Rightarrow> bool" where
  "hd_ok content z s h \<longleftrightarrow> h < bc_fresh (fst s) \<and>
     (\<exists>c. content (h_Path (bh_at h s)) = Some c \<and> hd_fields z c (bh_at h s) \<and>
        (\<forall>b \<in> set (bh_cooked (bh_at h s)). b \<notin> pending s \<and> cooked_ok z c (blk_at b s)) \<and>
        (\<forall>b \<in> set (bh_cooking (bh_at h s)). cooking_ok z c (b \<in> pending s) (blk_at b s)))"

text \<open>The blocks it has under their index, and what else an open handle carries.\<close>

definition hd_nodes :: "'n bc_state \<Rightarrow> nat \<Rightarrow> bool" where
  "hd_nodes s h \<longleftrightarrow> (\<forall>k b. map_of (bh_nodes (bh_at h s)) k = Some b \<longleftrightarrow>
     b \<in> set (lent s h) \<and> bk_id (blk_at b s) = k \<and> k \<noteq> - 1)"

definition hd_index :: "(string \<Rightarrow> string) \<Rightarrow> nat \<Rightarrow> 'n bc_state \<Rightarrow> nat \<Rightarrow> bool" where
  "hd_index tag z s h \<longleftrightarrow> hd_nodes s h \<and> bh_blockList (bh_at h s) = Some [] \<and>
     (\<exists>v. bh_next (bh_at h s) = Some v \<and> 0 \<le> v \<and> v * int z < 2 ^ 63) \<and>
     (\<forall>e. bh_etag (bh_at h s) = Some e \<longrightarrow> e = [] \<or> e = tag (h_Path (bh_at h s)))"

definition item_ok :: "(string \<Rightarrow> string) \<Rightarrow> nat list \<Rightarrow> 'n bc_state \<Rightarrow> workItem \<Rightarrow> bool" where
  "item_ok tag hs s w \<longleftrightarrow> \<not> wi_upload w \<and> wi_failCnt w = 0 \<and> wi_handle w \<in> set hs \<and>
     wi_block w \<in> set (bh_cooking (bh_at (wi_handle w) s)) \<and>
     (wi_ETag w = [] \<or> wi_ETag w = tag (h_Path (bh_at (wi_handle w) s)))"

definition work_ok :: "(string \<Rightarrow> string) \<Rightarrow> nat list \<Rightarrow> 'n bc_state \<Rightarrow> bool" where
  "work_ok tag hs s \<longleftrightarrow> distinct (map wi_block (bc_work (fst s))) \<and> (\<forall>w \<in> set (bc_work (fst s)). item_ok tag hs s w)"

text \<open>Of the blocks \<open>A\<close>, some are in the pool, some lent to the handles, and some (\<open>xs\<close>) on their way.\<close>

definition lent_all :: "nat list \<Rightarrow> 'n bc_state \<Rightarrow> nat list" where
  "lent_all hs s = concat (map (lent s) hs)"

definition pool_ok :: "nat set \<Rightarrow> nat list \<Rightarrow> nat list \<Rightarrow> 'n bc_state \<Rightarrow> bool" where
  "pool_ok A hs xs s \<longleftrightarrow> pool_inv (bc_pool (fst s)) (xs @ lent_all hs s) \<and>
     set (pool_refs (bc_pool (fst s))) \<union> set (xs @ lent_all hs s) = A"

definition conf_ok :: "nat \<Rightarrow> 'n bc_state \<Rightarrow> bool" where
  "conf_ok z s \<longleftrightarrow> bc_tmpPath (fst s) = [] \<and> bc_blockSize (fst s) = int z \<and> 0 < z \<and> z < 2 ^ 62 \<and>
     (\<forall>b. length (bk_data (blk_at b s)) = z)"

definition bc_inv ::
  "('n \<Rightarrow> bool) \<Rightarrow> (string \<Rightarrow> string option) \<Rightarrow> (string \<Rightarrow> string) \<Rightarrow> nat \<Rightarrow> nat set \<Rightarrow> nat list \<Rightarrow> nat list \<Rightarrow> 'n bc_state \<Rightarrow> bool" where
  "bc_inv good content tag z A hs xs s \<longleftrightarrow> good (snd s) \<and> conf_ok z s \<and> distinct hs \<and> pool_ok A hs xs s \<and> work_ok tag hs s \<and>
     (\<forall>h \<in> set hs. hd_ok content z s h)"

definition rd_inv ::
  "('n \<Rightarrow> bool) \<Rightarrow> (string \<Rightarrow> string option) \<Rightarrow> (string \<Rightarrow> string) \<Rightarrow> nat \<Rightarrow> nat set \<Rightarrow> nat list \<Rightarrow> nat list \<Rightarrow> 'n bc_state \<Rightarrow> bool" where
  "rd_inv good content tag z A hs xs s \<longleftrightarrow> bc_inv good content tag z A hs xs s \<and> (\<forall>h \<in> set hs. hd_index tag z s h)"

section \<open>The workers\<close>

text \<open>What the workers leave alone.\<close>

definition wframe :: "'n bc_state \<Rightarrow> 'n bc_state \<Rightarrow> bool" where
  "wframe s s' \<longleftrightarrow> bc_heap (fst s') = bc_heap (fst s) \<and> bc_pool (fst s') = bc_pool (fst s) \<and>
     bc_fresh (fst s') = bc_fresh (fst s) \<and> pending s' \<subseteq> pending s \<and>
     (\<forall>b. bk_id (blk_at b s') = bk_id (blk_at b s) \<and> bk_offset (blk_at b s') = bk_offset (blk_at b s) \<and>
        bk_flags (blk_at b s') = bk_flags (blk_at b s) \<and> (b \<notin> pending s \<longrightarrow> blk_at b s' = blk_at b s))"

lemma wframe_refl: "wframe s s"
  by (simp add: wframe_def)

lemma wframe_trans: "wframe s s1 \<Longrightarrow> wframe s1 s2 \<Longrightarrow> wframe s s2"
  unfolding wframe_def by (metis subset_iff)

lemma set_drop_nth:
  assumes "distinct (map f xs)" "i < length xs"
  shows "set (take i xs @ drop (Suc i) xs) = set xs - {xs ! i}" "distinct (map f (take i xs @ drop (Suc i) xs))"
    "f ` set (take i xs @ drop (Suc i) xs) = f ` set xs - {f (xs ! i)}"
proof -
  have e: "xs = take i xs @ xs ! i # drop (Suc i) xs" using assms(2) by (rule id_take_nth_drop)
  have d: "distinct (map f (take i xs @ xs ! i # drop (Suc i) xs))" using assms(1) e by simp
  have x: "f (xs ! i) \<notin> f ` set (take i xs @ drop (Suc i) xs)" using d by auto
  have m: "set xs = insert (xs ! i) (set (take i xs @ drop (Suc i) xs))" by (subst e) auto
  have n: "xs ! i \<notin> set (take i xs @ drop (Suc i) xs)" using x by blast
  show "set (take i xs @ drop (Suc i) xs) = set xs - {xs ! i}" using m n by blast
  show "distinct (map f (take i xs @ drop (Suc i) xs))" using d by auto
  show "f ` set (take i xs @ drop (Suc i) xs) = f ` set xs - {f (xs ! i)}" using m x by auto
qed

lemma lent_frame: "bc_heap (fst s') = bc_heap (fst s) \<Longrightarrow> lent s' = lent s"
  by (simp add: lent_def fun_eq_iff)

lemma lent_all_frame: "bc_heap (fst s') = bc_heap (fst s) \<Longrightarrow> lent_all hs s' = lent_all hs s"
  by (drule lent_frame) (simp add: lent_all_def)

lemma pool_ok_frame:
  "bc_heap (fst s') = bc_heap (fst s) \<Longrightarrow> bc_pool (fst s') = bc_pool (fst s) \<Longrightarrow> pool_ok A hs xs s' = pool_ok A hs xs s"
  by (drule lent_all_frame [of _ _ hs]) (simp add: pool_ok_def)

lemma hd_nodes_frame:
  assumes "bh_at h s' = bh_at h s" "\<And>b. b \<in> set (lent s h) \<Longrightarrow> bk_id (blk_at b s') = bk_id (blk_at b s)"
  shows "hd_nodes s' h = hd_nodes s h"
proof -
  have l: "lent s' h = lent s h" using assms(1) by (simp add: lent_def)
  have "\<And>k b. (b \<in> set (lent s h) \<and> bk_id (blk_at b s') = k \<and> k \<noteq> - 1) = (b \<in> set (lent s h) \<and> bk_id (blk_at b s) = k \<and> k \<noteq> - 1)"
    using assms(2) by metis
  then show ?thesis unfolding hd_nodes_def l assms(1) by simp
qed

text \<open>A handle whose cells were not touched is as before.\<close>

lemma hd_ok_frame:
  assumes "hd_ok content z s h" "bh_at h s' = bh_at h s" "bc_fresh (fst s) \<le> bc_fresh (fst s')"
    "\<And>b. b \<in> set (lent s h) \<Longrightarrow> blk_at b s' = blk_at b s \<and> (b \<in> pending s' \<longleftrightarrow> b \<in> pending s)"
  shows "hd_ok content z s' h"
proof -
  have b: "b \<in> set (bh_cooked (bh_at h s)) \<or> b \<in> set (bh_cooking (bh_at h s)) \<Longrightarrow>
      blk_at b s' = blk_at b s \<and> (b \<in> pending s' \<longleftrightarrow> b \<in> pending s)" for b
    using assms(4) [of b] by (simp add: lent_def)
  obtain c where c: "content (h_Path (bh_at h s)) = Some c" "hd_fields z c (bh_at h s)"
    "\<forall>b \<in> set (bh_cooked (bh_at h s)). b \<notin> pending s \<and> cooked_ok z c (blk_at b s)"
    "\<forall>b \<in> set (bh_cooking (bh_at h s)). cooking_ok z c (b \<in> pending s) (blk_at b s)"
    using assms(1) unfolding hd_ok_def by blast
  have "\<forall>b \<in> set (bh_cooked (bh_at h s)). b \<notin> pending s' \<and> cooked_ok z c (blk_at b s')"
    "\<forall>b \<in> set (bh_cooking (bh_at h s)). cooking_ok z c (b \<in> pending s') (blk_at b s')"
    using c(3,4) b by simp_all
  moreover have "h < bc_fresh (fst s')" using assms(1,3) by (simp add: hd_ok_def)
  ultimately show ?thesis unfolding hd_ok_def assms(2) using c(1,2) by blast
qed

text \<open>Blocks belong to one place.\<close>

lemma pool_ok_distinct: "pool_ok A hs xs s \<Longrightarrow> distinct (pool_refs (bc_pool (fst s)) @ xs @ lent_all hs s)"
  by (simp add: pool_ok_def pool_inv_def)

lemma set_lent_all [simp]: "set (lent_all hs s) = (\<Union>h \<in> set hs. set (lent s h))"
  by (auto simp: lent_all_def)

lemma concat_distinct:
  "distinct (concat (map f xs)) \<Longrightarrow> distinct xs \<Longrightarrow> x \<in> set xs \<Longrightarrow> distinct (f x) \<and> (\<forall>y \<in> set xs. y \<noteq> x \<longrightarrow> set (f y) \<inter> set (f x) = {})"
proof (induction xs)
  case (Cons a xs)
  then show ?case by (cases "x = a") fastforce+
qed simp

lemma lent_apart:
  assumes "pool_ok A hs xs s" "distinct hs" "h \<in> set hs"
  shows "distinct (lent s h)" "b \<in> set (lent s h) \<Longrightarrow> h' \<in> set hs \<Longrightarrow> b \<in> set (lent s h') \<Longrightarrow> h' = h"
    "b \<in> set (lent s h) \<Longrightarrow> b \<notin> set xs \<and> b \<notin> set (pool_refs (bc_pool (fst s)))"
proof -
  have d: "distinct (concat (map (lent s) hs))" using pool_ok_distinct [OF assms(1)] by (simp add: lent_all_def)
  show "distinct (lent s h)" "b \<in> set (lent s h) \<Longrightarrow> h' \<in> set hs \<Longrightarrow> b \<in> set (lent s h') \<Longrightarrow> h' = h"
    using concat_distinct [OF d assms(2,3)] by blast+
  show "b \<in> set (lent s h) \<Longrightarrow> b \<notin> set xs \<and> b \<notin> set (pool_refs (bc_pool (fst s)))"
    using pool_ok_distinct [OF assms(1)] assms(3) by auto
qed

lemma pending_lent:
  assumes "work_ok tag hs s" "b \<in> pending s"
  obtains w where "w \<in> set (bc_work (fst s))" "wi_block w = b" "wi_handle w \<in> set hs" "b \<in> set (bh_cooking (bh_at (wi_handle w) s))"
  using assms unfolding work_ok_def pending_def item_ok_def by blast

text \<open>Reading into a block fills it.\<close>

lemma blk_full_read:
  assumes "length d = z" "blk_bound z c b" "k = min z (length c - nat (bk_offset b))"
  shows "blk_full z c (b\<lparr>bk_data := take k (drop (nat (bk_offset b)) c) @ drop k d, bk_state := st\<rparr>)"
    "length (take k (drop (nat (bk_offset b)) c) @ drop k d) = z"
proof -
  let ?o = "nat (bk_offset b)" and ?n = "length c - nat (bk_offset b)"
  have l: "length (take k (drop ?o c)) = k" using assms(3) by simp
  have "take ?n (take k (drop ?o c) @ drop k d) = take z (drop ?o c)"
  proof (cases "z \<le> ?n")
    case True
    then have "k = z" using assms(3) by simp
    then show ?thesis using True assms(1) by simp
  next
    case False
    then show ?thesis using assms(3) by simp
  qed
  then show "blk_full z c (b\<lparr>bk_data := take k (drop ?o c) @ drop k d, bk_state := st\<rparr>)"
    by (simp add: blk_full_def)
  show "length (take k (drop ?o c) @ drop k d) = z" using assms l by simp
qed

text \<open>An item whose block is filled: what remains of the invariant.\<close>

lemma bc_inv_filled:
  assumes inv: "bc_inv good content tag z A hs xs s"
    and i: "i < length (bc_work (fst s))" and b: "b = wi_block (bc_work (fst s) ! i)"
    and c: "content (h_Path (bh_at (wi_handle (bc_work (fst s) ! i)) s)) = Some c"
    and same: "bc_heap (fst s') = bc_heap (fst s)" "bc_pool (fst s') = bc_pool (fst s)" "bc_fresh (fst s') = bc_fresh (fst s)"
      "bc_tmpPath (fst s') = bc_tmpPath (fst s)" "bc_blockSize (fst s') = bc_blockSize (fst s)"
    and work: "bc_work (fst s') = take i (bc_work (fst s)) @ drop (Suc i) (bc_work (fst s))"
    and blk: "\<And>b'. b' \<noteq> b \<Longrightarrow> blk_at b' s' = blk_at b' s"
      "blk_at b s' = (blk_at b s)\<lparr>bk_data := d, bk_state := ready_chan\<rparr>" "length d = z" "blk_full z c (blk_at b s')"
    and good: "good (snd s')"
  shows "bc_inv good content tag z A hs xs s'" "wframe s s'"
proof -
  let ?w = "bc_work (fst s) ! i"
  have inv': "conf_ok z s" "distinct hs" "pool_ok A hs xs s" "work_ok tag hs s" "\<And>h. h \<in> set hs \<Longrightarrow> hd_ok content z s h"
    using inv by (simp_all add: bc_inv_def)
  have w: "?w \<in> set (bc_work (fst s))" using i by simp
  have dist: "distinct (map wi_block (bc_work (fst s)))" using inv'(4) by (simp add: work_ok_def)
  note drop = set_drop_nth [OF dist i]
  have pend: "pending s' = pending s - {b}" unfolding pending_def work b by (rule drop(3))
  have item: "item_ok tag hs s ?w" using inv'(4) w by (simp add: work_ok_def)
  have h: "wi_handle ?w \<in> set hs" "b \<in> set (bh_cooking (bh_at (wi_handle ?w) s))" using item by (simp_all add: item_ok_def b)
  have bl: "b \<in> set (lent s (wi_handle ?w))" using h(2) by (simp add: lent_def)
  have hs: "bh_at h s' = bh_at h s" for h using same(1) by simp
  have others: "hd_ok content z s' h'" if h': "h' \<in> set hs" "h' \<noteq> wi_handle ?w" for h'
  proof (rule hd_ok_frame [OF inv'(5) [OF h'(1)] hs])
    fix b' assume b': "b' \<in> set (lent s h')"
    have "b' \<noteq> b" using lent_apart(2) [OF inv'(3,2) h(1) bl h'(1)] b' h'(2) by blast
    then show "blk_at b' s' = blk_at b' s \<and> (b' \<in> pending s' \<longleftrightarrow> b' \<in> pending s)" using blk(1) pend by simp
  qed (simp add: same)
  have mine: "hd_ok content z s' (wi_handle ?w)"
  proof -
    have ok: "hd_ok content z s (wi_handle ?w)" by (rule inv'(5) [OF h(1)])
    have old: "\<forall>x \<in> set (bh_cooked (bh_at (wi_handle ?w) s)). x \<notin> pending s \<and> cooked_ok z c (blk_at x s)"
      "\<forall>x \<in> set (bh_cooking (bh_at (wi_handle ?w) s)). cooking_ok z c (x \<in> pending s) (blk_at x s)"
      "hd_fields z c (bh_at (wi_handle ?w) s)" "wi_handle ?w < bc_fresh (fst s)"
      using ok c unfolding hd_ok_def by auto
    have cooked: "\<forall>x \<in> set (bh_cooked (bh_at (wi_handle ?w) s)). x \<notin> pending s' \<and> cooked_ok z c (blk_at x s')"
    proof
      fix x assume x: "x \<in> set (bh_cooked (bh_at (wi_handle ?w) s))"
      have "distinct (lent s (wi_handle ?w))" by (rule lent_apart(1) [OF inv'(3,2) h(1)])
      then have "x \<noteq> b" using x h(2) by (auto simp: lent_def)
      then show "x \<notin> pending s' \<and> cooked_ok z c (blk_at x s')" using old(1) x blk(1) pend by simp
    qed
    have cooking: "\<forall>x \<in> set (bh_cooking (bh_at (wi_handle ?w) s)). cooking_ok z c (x \<in> pending s') (blk_at x s')"
    proof
      fix x assume x: "x \<in> set (bh_cooking (bh_at (wi_handle ?w) s))"
      have ok: "cooking_ok z c (x \<in> pending s) (blk_at x s)" using old(2) x by blast
      show "cooking_ok z c (x \<in> pending s') (blk_at x s')"
      proof (cases "x = b")
        case True
        then show ?thesis using ok blk(2,4) pend by (simp add: cooking_ok_def blk_bound_def)
      next
        case False
        then show ?thesis using ok blk(1) pend by simp
      qed
    qed
    show ?thesis unfolding hd_ok_def hs using old c cooked cooking same(3) by auto
  qed
  have hd: "\<forall>h \<in> set hs. hd_ok content z s' h" using others mine by blast
  have pool: "pool_ok A hs xs s'" using inv'(3) pool_ok_frame [OF same(1,2)] by blast
  have items: "work_ok tag hs s'"
    using inv'(4) drop(1,2) unfolding work_ok_def work item_ok_def same(1) by auto
  have "length (bk_data (blk_at b' s')) = z" for b'
    using inv'(1) blk(1) [of b'] blk(2,3) by (cases "b' = b") (simp_all add: conf_ok_def)
  then have "conf_ok z s'" using inv'(1) same(4,5) by (simp add: conf_ok_def)
  then show "bc_inv good content tag z A hs xs s'" using good inv'(2) pool items hd by (simp add: bc_inv_def)
  have "bk_id (blk_at b' s') = bk_id (blk_at b' s) \<and> bk_offset (blk_at b' s') = bk_offset (blk_at b' s) \<and>
      bk_flags (blk_at b' s') = bk_flags (blk_at b' s) \<and> (b' \<notin> pending s \<longrightarrow> blk_at b' s' = blk_at b' s)" for b'
    using blk(1) [of b'] blk(2) w by (cases "b' = b") (auto simp: pending_def b)
  then show "wframe s s'" using pend same by (auto simp: wframe_def)
qed

lemma download_remote_read:
  assumes "ReadInBuffer (be_nxt E) now opts n = Some ((d, int k, e), n')" "0 < k" "wi_failCnt item \<le> MAX_FAIL_CNT"
    and opts: "opts = \<lparr>ri_Handle = Some (Handle.truncate (bc_heap bc (wi_handle item))),
      ri_Offset = wrap64 (bk_offset (bc_blocks bc (wi_block item))), ri_Etag = Some [],
      ri_Data = bk_data (bc_blocks bc (wi_block item)), ri_Path = [], ri_Size = 0\<rparr>"
    and e: "e = None \<or> e = Some io_EOF"
    and tag: "be_read_etag E n' opts = [] \<or> wi_ETag item = [] \<or> wi_ETag item = be_read_etag E n' opts"
  shows "download_remote E now item (bc, n) =
    download_store E now item k (upd_blk (wi_block item) (\<lambda>x. x\<lparr>bk_data := d\<rparr>) (bc, n'))"
  using e tag assms(2,3)
  by (elim disjE) (simp_all add: download_remote_def below_def opts [symmetric] assms(1) bc_upd Let_def)

context block_source begin

text \<open>A worker that takes an item fills its block.\<close>

lemma run_item_done:
  assumes inv: "bc_inv good content tag z A hs xs s" and work: "bc_work (fst s) \<noteq> []"
  shows "\<exists>s'. run_item E now k s = Some s' \<and> bc_inv good content tag z A hs xs s' \<and> wframe s s' \<and>
    length (bc_work (fst s')) < length (bc_work (fst s))"
proof -
  obtain bc n where s: "s = (bc, n)" by (cases s)
  let ?i = "k mod length (bc_work bc)"
  define w where "w = bc_work bc ! ?i"
  define b where "b = wi_block w"
  have i: "?i < length (bc_work bc)" using work s by simp
  have item: "item_ok tag hs s w"
    using inv i by (simp add: bc_inv_def work_ok_def s w_def)
  have h: "wi_handle w \<in> set hs" "b \<in> set (bh_cooking (bc_heap bc (wi_handle w)))" using item by (simp_all add: item_ok_def b_def s)
  obtain c where c: "content (h_Path (bc_heap bc (wi_handle w))) = Some c" "hd_fields z c (bc_heap bc (wi_handle w))"
    "cooking_ok z c (b \<in> pending s) (bc_blocks bc b)"
    using inv h by (auto simp: bc_inv_def hd_ok_def s)
  have "b \<in> pending s" using i by (simp add: pending_def s b_def w_def)
  then have blk: "blk_bound z c (bc_blocks bc b)" "bk_state (bc_blocks bc b) = new_chan" using c(3) by (simp_all add: cooking_ok_def)
  have conf: "bc_tmpPath bc = []" "0 < z" "length (bk_data (bc_blocks bc b)) = z" and good: "good n"
    using inv by (simp_all add: bc_inv_def conf_ok_def s)
  let ?o = "bk_offset (bc_blocks bc b)" and ?d = "bk_data (bc_blocks bc b)" and ?x = "Handle.truncate (bc_heap bc (wi_handle w))"
  define kk where "kk = min z (length c - nat ?o)"
  let ?new = "\<lambda>k. take k (drop (nat ?o) c) @ drop k ?d"
  let ?opt = "\<lparr>ri_Handle = Some ?x, ri_Offset = ?o, ri_Etag = Some [], ri_Data = ?d, ri_Path = [], ri_Size = 0\<rparr>"
  have o: "0 \<le> ?o" "?o < int (length c)" using blk(1) by (auto simp: blk_bound_def)
  then have wo: "wrap64 ?o = ?o" using c(2) by (intro wrap64_id) (simp add: in_int64_def hd_fields_def)
  have x: "h_FObj ?x = None" "h_Path ?x = h_Path (bc_heap bc (wi_handle w))"
    using c(2) by (simp_all add: Handle.truncate_def hd_fields_def)
  obtain e n' where r: "ReadInBuffer (be_nxt E) now ?opt n = Some ((?new kk, int kk, e), n')" "good n'"
    "e = None \<or> e = Some io_EOF" "be_read_etag E n' ?opt = [] \<or> be_read_etag E n' ?opt = tag (h_Path (bc_heap bc (wi_handle w)))"
    using source_read [OF good, of ?opt ?x c kk now] x c(1) o conf(3) kk_def by auto
  have k: "0 < kk" using conf(2) o by (simp add: kk_def)
  have tag: "be_read_etag E n' ?opt = [] \<or> wi_ETag w = [] \<or> wi_ETag w = be_read_etag E n' ?opt"
    using item r(4) by (auto simp: item_ok_def s)
  define s1 where "s1 = (bc\<lparr>bc_work := take ?i (bc_work bc) @ drop (Suc ?i) (bc_work bc)\<rparr>, n')"
  define s' where "s' = upd_blk b (\<lambda>x. x\<lparr>bk_data := ?new kk, bk_state := ready_chan\<rparr>) s1"
  have not_up: "\<not> wi_upload w" "wi_failCnt w = 0" using item by (simp_all add: item_ok_def)
  have run: "run_item E now k s = Some s'"
  proof -
    let ?s = "(bc\<lparr>bc_work := take ?i (bc_work bc) @ drop (Suc ?i) (bc_work bc)\<rparr>, n)"
    have "run_item E now k s = download_remote E now w ?s"
      using work not_up conf(1) unfolding run_item_def s by (cases "bc_work bc") (simp_all add: Let_def w_def download_def download_disk_def)
    also have "\<dots> = download_store E now w kk (upd_blk b (\<lambda>x. x\<lparr>bk_data := ?new kk\<rparr>) s1)"
      using download_remote_read [OF r(1) k, where item = w and bc = "bc\<lparr>bc_work := take ?i (bc_work bc) @ drop (Suc ?i) (bc_work bc)\<rparr>", OF _ _ r(3) tag]
        not_up by (simp add: wo b_def [symmetric] MAX_FAIL_CNT_def s1_def)
    also have "\<dots> = Some s'"
      using conf(1) blk(2) unfolding download_store_def Let_def b_def [symmetric]
      by (simp add: s1_def s'_def try_blk_def blk_Ready_def upd_blk_def)
    finally show ?thesis .
  qed
  have full: "blk_full z c ((bc_blocks bc b)\<lparr>bk_data := ?new kk, bk_state := ready_chan\<rparr>)" "length (?new kk) = z"
    using blk_full_read [OF conf(3) blk(1) kk_def] by simp_all
  have st: "bc_heap (fst s') = bc_heap bc" "bc_pool (fst s') = bc_pool bc" "bc_fresh (fst s') = bc_fresh bc"
    "bc_tmpPath (fst s') = bc_tmpPath bc" "bc_blockSize (fst s') = bc_blockSize bc" "snd s' = n'"
    "bc_work (fst s') = take ?i (bc_work bc) @ drop (Suc ?i) (bc_work bc)"
    "blk_at b s' = (bc_blocks bc b)\<lparr>bk_data := ?new kk, bk_state := ready_chan\<rparr>" "\<And>b'. b' \<noteq> b \<Longrightarrow> blk_at b' s' = bc_blocks bc b'"
    by (simp_all add: s'_def s1_def upd_blk_def)
  have "blk_full z c (blk_at b s')" using full(1) st(8) by simp
  then have "bc_inv good content tag z A hs xs s' \<and> wframe s s'"
    using bc_inv_filled [where s = s and s' = s' and i = ?i and b = b and d = "?new kk" and c = c, OF inv]
      i c(1) r(2) full(2) st unfolding s w_def b_def fst_conv by blast
  moreover have "length (bc_work (fst s')) < length (bc_work (fst s))"
    using i by (simp add: s s'_def s1_def upd_blk_def)
  ultimately show ?thesis using run by blast
qed

lemma run_items_done:
  assumes "bc_inv good content tag z A hs xs s"
  shows "\<exists>s'. run_items E now ks s = Some s' \<and> bc_inv good content tag z A hs xs s' \<and> wframe s s'"
  using assms
proof (induction ks arbitrary: s)
  case Nil
  then show ?case by (simp add: wframe_refl)
next
  case (Cons k ks)
  have "\<exists>s1. run_item E now k s = Some s1 \<and> bc_inv good content tag z A hs xs s1 \<and> wframe s s1"
  proof (cases "bc_work (fst s) = []")
    case True
    then have "run_item E now k s = Some s" by (cases s) (simp add: run_item_def)
    then show ?thesis using Cons.prems by (simp add: wframe_refl)
  next
    case False
    then show ?thesis using run_item_done [OF Cons.prems] by blast
  qed
  then obtain s1 where s1: "run_item E now k s = Some s1" "bc_inv good content tag z A hs xs s1" "wframe s s1" by blast
  from Cons.IH [OF s1(2)] s1(1,3) wframe_trans show ?case by fastforce
qed

end

section \<open>Waiting for a block\<close>

text \<open>What a wait leaves: everything but data and channels.\<close>

definition kept :: "'n bc_state \<Rightarrow> 'n bc_state \<Rightarrow> bool" where
  "kept s s' \<longleftrightarrow> bc_heap (fst s') = bc_heap (fst s) \<and> bc_pool (fst s') = bc_pool (fst s) \<and>
     bc_fresh (fst s') = bc_fresh (fst s) \<and> pending s' \<subseteq> pending s \<and>
     (\<forall>b. bk_id (blk_at b s') = bk_id (blk_at b s) \<and> bk_offset (blk_at b s') = bk_offset (blk_at b s) \<and>
        bk_flags (blk_at b s') = bk_flags (blk_at b s))"

lemma kept_wframe: "wframe s s' \<Longrightarrow> kept s s'"
  by (simp add: wframe_def kept_def)

lemma kept_trans: "kept s s1 \<Longrightarrow> kept s1 s2 \<Longrightarrow> kept s s2"
  unfolding kept_def by (metis subset_trans)

lemma hd_index_kept: "kept s s' \<Longrightarrow> hd_index tag z s h \<Longrightarrow> hd_index tag z s' h"
  using hd_nodes_frame [where h = h and s = s and s' = s'] by (auto simp: hd_index_def kept_def)

lemma rd_inv_kept: "rd_inv good content tag z A hs xs s \<Longrightarrow> kept s s' \<Longrightarrow> bc_inv good content tag z A hs xs s' \<Longrightarrow>
    rd_inv good content tag z A hs xs s'"
  using hd_index_kept by (fastforce simp: rd_inv_def)

lemma blk_state_upd [simp]:
  "blk_bound z c (x\<lparr>bk_state := st\<rparr>) = blk_bound z c x" "blk_full z c (x\<lparr>bk_state := st\<rparr>) = blk_full z c x"
  by (simp_all add: blk_bound_def blk_full_def)

lemma flag_values [simp]:
  "BlockFlagDownloading \<noteq> BlockFlagUploading" "BlockFlagSynced \<noteq> BlockFlagUploading" "BlockFlagSynced < 64"
  "BlockFlagDownloading < 64"
  by (simp_all add: BlockFlagDownloading_def BlockFlagUploading_def BlockFlagSynced_def)

lemma blk_flags_upd [simp]:
  "f \<noteq> BlockFlagUploading \<Longrightarrow> blk_bound z c (blk_clear f x) = blk_bound z c x" "blk_full z c (blk_clear f x) = blk_full z c x"
  "f \<noteq> BlockFlagUploading \<Longrightarrow> f < 64 \<Longrightarrow> blk_bound z c (blk_set f x) = blk_bound z c x" "blk_full z c (blk_set f x) = blk_full z c x"
  "bk_state (blk_clear f x) = bk_state x" "bk_state (blk_set f x) = bk_state x" "bk_id (blk_clear f x) = bk_id x" "bk_id (blk_set f x) = bk_id x"
  by (auto simp: blk_bound_def blk_full_def blk_clear_def blk_set_def)

text \<open>A block whose item is done: its channel, and what it holds.\<close>

definition settled :: "nat \<Rightarrow> string \<Rightarrow> CacheBlock \<Rightarrow> bool" where
  "settled z c b \<longleftrightarrow> blk_bound z c b \<and> blk_full z c b \<and> (bk_state b = ready_chan \<or> bk_state b = open_chan)"

lemma settled_block:
  assumes "bc_inv good content tag z A hs xs s" "h \<in> set hs" "b \<in> set (lent s h)" "bk_id (blk_at b s) \<noteq> - 1"
    "b \<notin> pending s" "content (h_Path (bh_at h s)) = Some c"
  shows "settled z c (blk_at b s)" "b \<in> set (bh_cooked (bh_at h s)) \<Longrightarrow> bk_state (blk_at b s) = open_chan"
proof -
  have h: "hd_ok content z s h" using assms(1,2) by (simp add: bc_inv_def)
  show "b \<in> set (bh_cooked (bh_at h s)) \<Longrightarrow> bk_state (blk_at b s) = open_chan"
    using h assms(4,6) by (auto simp: hd_ok_def cooked_ok_def)
  show "settled z c (blk_at b s)"
    using h assms(3,4,5,6) by (auto simp: hd_ok_def cooked_ok_def cooking_ok_def settled_def lent_def)
qed

lemma pending_block:
  assumes "bc_inv good content tag z A hs xs s" "h \<in> set hs" "b \<in> set (lent s h)" "b \<in> pending s"
  shows "bk_state (blk_at b s) = new_chan" "b \<in> set (bh_cooking (bh_at h s))" "0 \<le> bk_id (blk_at b s)"
proof -
  have h: "hd_ok content z s h" using assms(1,2) by (simp add: bc_inv_def)
  then have c: "b \<notin> set (bh_cooked (bh_at h s))" using assms(4) by (auto simp: hd_ok_def)
  then show "b \<in> set (bh_cooking (bh_at h s))" using assms(3) by (simp add: lent_def)
  then show "bk_state (blk_at b s) = new_chan" "0 \<le> bk_id (blk_at b s)"
    using h assms(4) by (auto simp: hd_ok_def cooking_ok_def blk_bound_def)
qed

text \<open>Changing a lent block.\<close>

lemma bc_inv_upd_blk:
  assumes inv: "bc_inv good content tag z A hs xs s" and h: "h \<in> set hs" and b: "b \<in> set (lent s h)"
    and c: "content (h_Path (bh_at h s)) = Some c" and len: "length (bk_data (f (blk_at b s))) = z"
    and cooked: "b \<in> set (bh_cooked (bh_at h s)) \<Longrightarrow> cooked_ok z c (f (blk_at b s))"
    and cooking: "b \<in> set (bh_cooking (bh_at h s)) \<Longrightarrow> cooking_ok z c (b \<in> pending s) (f (blk_at b s))"
  shows "bc_inv good content tag z A hs xs (upd_blk b f s)" (is "bc_inv _ _ _ _ _ _ _ ?s")
proof -
  have inv': "conf_ok z s" "distinct hs" "pool_ok A hs xs s" "work_ok tag hs s" "\<And>h. h \<in> set hs \<Longrightarrow> hd_ok content z s h"
    using inv by (simp_all add: bc_inv_def)
  have heap: "bc_heap (fst ?s) = bc_heap (fst s)" "pending ?s = pending s" by (simp_all add: bc_upd pending_def)
  have "hd_ok content z ?s h'" if h': "h' \<in> set hs" for h'
  proof (cases "h' = h")
    case True
    have "hd_ok content z s h" by (rule inv'(5) [OF h])
    then show ?thesis using c cooked cooking True unfolding hd_ok_def heap by (auto simp: bc_upd)
  next
    case False
    show ?thesis
    proof (rule hd_ok_frame [OF inv'(5) [OF h']])
      fix b' assume "b' \<in> set (lent s h')"
      then have "b' \<noteq> b" using lent_apart(2) [OF inv'(3,2) h b h'] False by blast
      then show "blk_at b' ?s = blk_at b' s \<and> (b' \<in> pending ?s \<longleftrightarrow> b' \<in> pending s)" by (simp add: bc_upd pending_def)
    qed (simp_all add: bc_upd)
  qed
  moreover have "pool_ok A hs xs ?s" using inv'(3) pool_ok_frame [of ?s s] by (simp add: bc_upd)
  moreover have "work_ok tag hs ?s" using inv'(4) by (simp add: work_ok_def item_ok_def bc_upd)
  moreover have "conf_ok z ?s" using inv'(1) len by (simp add: conf_ok_def bc_upd)
  ultimately show ?thesis using inv inv'(2) by (simp add: bc_inv_def bc_upd)
qed

lemma bc_inv_chan:
  assumes inv: "bc_inv good content tag z A hs xs s" and h: "h \<in> set hs" and b: "b \<in> set (lent s h)"
    and c: "content (h_Path (bh_at h s)) = Some c" and st: "settled z c (blk_at b s)" and p: "b \<notin> pending s"
  shows "bc_inv good content tag z A hs xs (upd_blk b (\<lambda>x. x\<lparr>bk_state := open_chan\<rparr>) s)"
  using inv st p by (intro bc_inv_upd_blk [OF inv h b c]) (simp_all add: bc_inv_def conf_ok_def cooked_ok_def cooking_ok_def settled_def)

text \<open>Flags other than the one for uploads do not matter.\<close>

lemma rd_inv_flags:
  assumes inv: "rd_inv good content tag z A hs xs s" and h: "h \<in> set hs" and b: "b \<in> set (lent s h)"
    and f: "\<And>x. bk_data (f x) = bk_data x \<and> bk_state (f x) = bk_state x \<and> bk_id (f x) = bk_id x \<and> bk_offset (f x) = bk_offset x \<and>
      (IsSet (bk_flags (f x)) BlockFlagUploading \<longleftrightarrow> IsSet (bk_flags x) BlockFlagUploading)"
  shows "rd_inv good content tag z A hs xs (upd_blk b f s)"
proof -
  have inv': "bc_inv good content tag z A hs xs s" using inv by (simp add: rd_inv_def)
  then have ok: "hd_ok content z s h" using h by (simp add: bc_inv_def)
  then obtain c where c: "content (h_Path (bh_at h s)) = Some c" by (auto simp: hd_ok_def)
  have same: "blk_bound z c (f x) = blk_bound z c x" "blk_full z c (f x) = blk_full z c x" for x
    using f [of x] by (simp_all add: blk_bound_def blk_full_def)
  have "bc_inv good content tag z A hs xs (upd_blk b f s)"
    using ok c inv' f by (intro bc_inv_upd_blk [OF inv' h b c]) (auto simp: bc_inv_def conf_ok_def hd_ok_def cooked_ok_def cooking_ok_def same)
  moreover have "hd_index tag z (upd_blk b f s) h'" if "h' \<in> set hs" for h'
  proof -
    have "hd_nodes (upd_blk b f s) h' = hd_nodes s h'" by (rule hd_nodes_frame) (simp_all add: bc_upd f)
    then show ?thesis using inv that by (simp add: rd_inv_def hd_index_def bc_upd)
  qed
  ultimately show ?thesis by (simp add: rd_inv_def)
qed

lemma upd_blk_same: "f (blk_at b s) = blk_at b s \<Longrightarrow> upd_blk b f s = s"
  by (cases s) (simp add: upd_blk_def fun_upd_idem)

lemma receive_settled:
  assumes "settled z c (blk_at b s)"
  shows "\<exists>v s1. receive b s = Some (v, s1) \<and> unblock_if b v s1 = Some (upd_blk b (\<lambda>x. x\<lparr>bk_state := open_chan\<rparr>) s) \<and>
    (bk_state (blk_at b s) = ready_chan \<and> v = Some BlockStatusDownloaded \<or> bk_state (blk_at b s) = open_chan \<and> v = None) \<and>
    (\<exists>ch. s1 = upd_blk b (\<lambda>x. x\<lparr>bk_state := ch\<rparr>) s)"
proof -
  obtain bc n where s: "s = (bc, n)" by (cases s)
  consider "bk_state (bc_blocks bc b) = ready_chan" | "bk_state (bc_blocks bc b) = open_chan"
    using assms by (auto simp: settled_def s)
  then show ?thesis
  proof cases
    case 1
    then show ?thesis
      by (simp add: s receive_def blk_receive_def unblock_if_def try_blk_def blk_Unblock_def upd_blk_def) (rule exI; rule refl)
  next
    case 2
    then have "upd_blk b (\<lambda>x. x\<lparr>bk_state := open_chan\<rparr>) s = s" by (intro upd_blk_same) (simp add: s)
    moreover have "receive b s = Some (None, upd_blk b (\<lambda>x. x) s)" "upd_blk b (\<lambda>x. x) s = s"
      using 2 by (simp_all add: s receive_def blk_receive_def upd_blk_def)
    ultimately show ?thesis using 2 by (metis s fst_conv unblock_if_def)
  qed
qed

context block_source begin

text \<open>While a block is pending its item is still to be done, so the wait for it comes to an end.\<close>

lemma wait_for_done:
  assumes "bc_inv good content tag z A hs xs s" "h \<in> set hs" "b \<in> set (lent s h)" "bk_id (blk_at b s) \<noteq> - 1"
    "content (h_Path (bh_at h s)) = Some c"
  shows "\<exists>s1. wait_for E now b s = receive b s1 \<and> bc_inv good content tag z A hs xs s1 \<and> wframe s s1 \<and> b \<notin> pending s1"
  using assms
proof (induction "length (bc_work (fst s))" arbitrary: s rule: less_induct)
  case less
  show ?case
  proof (cases "b \<in> pending s")
    case False
    have "settled z c (blk_at b s)" by (rule settled_block(1) [OF less.prems(1-4) False less.prems(5)])
    then obtain v s1 where "receive b s = Some (v, s1)" using receive_settled by blast
    then have "wait_for E now b s = receive b s" by (subst wait_for.simps) simp
    then show ?thesis using less.prems(1) False wframe_refl by blast
  next
    case True
    have "receive b s = None"
      using pending_block(1) [OF less.prems(1-3) True] by (simp add: receive_def blk_receive_def)
    moreover have work: "bc_work (fst s) \<noteq> []" using True by (auto simp: pending_def)
    ultimately have w: "wait_for E now b s = Option.bind (run_item E now (be_choose E s) s) (wait_for E now b)"
      by (subst wait_for.simps) simp
    obtain s1 where s1: "run_item E now (be_choose E s) s = Some s1" "bc_inv good content tag z A hs xs s1" "wframe s s1"
      "length (bc_work (fst s1)) < length (bc_work (fst s))"
      using run_item_done [OF less.prems(1) work] by blast
    have heap: "bc_heap (fst s1) = bc_heap (fst s)" "bk_id (blk_at b s1) = bk_id (blk_at b s)"
      using s1(3) by (simp_all add: wframe_def)
    obtain s2 where s2: "wait_for E now b s1 = receive b s2" "bc_inv good content tag z A hs xs s2" "wframe s1 s2" "b \<notin> pending s2"
      using less.hyps [OF s1(4,2) less.prems(2)] less.prems(3-5) heap by (auto simp: lent_def)
    have "wait_for E now b s = receive b s2" using w s1(1) s2(1) by simp
    then show ?thesis using s2(2,4) wframe_trans [OF s1(3) s2(3)] by blast
  qed
qed

text \<open>Afterwards the block is open to all, and its content is that of the file.\<close>

lemma wait_block_done:
  assumes "bc_inv good content tag z A hs xs s" "h \<in> set hs" "b \<in> set (lent s h)" "bk_id (blk_at b s) \<noteq> - 1"
    "content (h_Path (bh_at h s)) = Some c"
  obtains v s1 s2 where "wait_block E now b s = Some (v, s1)" "unblock_if b v s1 = Some s2"
    "bc_inv good content tag z A hs xs s2" "kept s s2" "b \<notin> pending s2" "settled z c (blk_at b s2)" "bk_state (blk_at b s2) = open_chan"
    "v = None \<or> v = Some BlockStatusDownloaded \<and> b \<in> set (bh_cooking (bh_at h s))"
    "\<exists>ch. s2 = upd_blk b (\<lambda>x. x\<lparr>bk_state := ch\<rparr>) s1"
proof -
  obtain sw where sw: "workers E now s = Some sw" "bc_inv good content tag z A hs xs sw" "wframe s sw"
    using run_items_done [OF assms(1)] unfolding workers_def by blast
  have l: "lent sw = lent s" "bh_at h sw = bh_at h s" "bk_id (blk_at b sw) = bk_id (blk_at b s)"
    using sw(3) by (simp_all add: lent_def wframe_def fun_eq_iff)
  obtain s1 where s1: "wait_for E now b sw = receive b s1" "bc_inv good content tag z A hs xs s1" "wframe sw s1" "b \<notin> pending s1"
    using wait_for_done [OF sw(2) assms(2)] assms(3-5) l by metis
  have f: "wframe s s1" by (rule wframe_trans [OF sw(3) s1(3)])
  have l1: "lent s1 = lent s" "bh_at h s1 = bh_at h s" "bk_id (blk_at b s1) = bk_id (blk_at b s)"
    using f by (simp_all add: lent_def wframe_def fun_eq_iff)
  have prem: "b \<in> set (lent s1 h)" "bk_id (blk_at b s1) \<noteq> - 1" "content (h_Path (bh_at h s1)) = Some c"
    using assms(3-5) l1 by simp_all
  note st = settled_block [OF s1(2) assms(2) prem(1,2) s1(4) prem(3)]
  obtain v s2 where r: "receive b s1 = Some (v, s2)" "unblock_if b v s2 = Some (upd_blk b (\<lambda>x. x\<lparr>bk_state := open_chan\<rparr>) s1)"
    "bk_state (blk_at b s1) = ready_chan \<and> v = Some BlockStatusDownloaded \<or> bk_state (blk_at b s1) = open_chan \<and> v = None"
    "\<exists>ch. s2 = upd_blk b (\<lambda>x. x\<lparr>bk_state := ch\<rparr>) s1"
    using receive_settled [OF st(1)] by blast
  let ?s = "upd_blk b (\<lambda>x. x\<lparr>bk_state := open_chan\<rparr>) s1"
  have "v = None \<or> v = Some BlockStatusDownloaded \<and> b \<in> set (bh_cooking (bh_at h s))"
    using r(3) st(2) l1(2) assms(3) by (auto simp: lent_def)
  moreover have "wait_block E now b s = Some (v, s2)" using sw(1) s1(1) r(1) by (simp add: wait_block_def)
  moreover have "bc_inv good content tag z A hs xs ?s" by (rule bc_inv_chan [OF s1(2) assms(2) prem(1,3) st(1) s1(4)])
  moreover have "kept s ?s" using f by (simp add: kept_def wframe_def bc_upd pending_def)
  moreover have "b \<notin> pending ?s" "settled z c (blk_at b ?s)" "bk_state (blk_at b ?s) = open_chan"
    using s1(4) st(1) by (simp_all add: pending_def bc_upd settled_def)
  moreover have "\<exists>ch. ?s = upd_blk b (\<lambda>x. x\<lparr>bk_state := ch\<rparr>) s2"
  proof -
    obtain ch where "s2 = upd_blk b (\<lambda>x. x\<lparr>bk_state := ch\<rparr>) s1" using r(4) by blast
    then have "?s = upd_blk b (\<lambda>x. x\<lparr>bk_state := open_chan\<rparr>) s2" by (cases s1) (simp add: upd_blk_def)
    then show ?thesis by blast
  qed
  ultimately show ?thesis using that r(2) by blast
qed

end

end
