(* ===== verification/Block_Cache_Moves.thy ===== *)
theory Block_Cache_Moves
  imports Block_Cache_Reads
begin

text \<open>
  How blocks move between the pool and the lists of a handle that reads, and that every move keeps the
  invariant: taking a block from the pool, giving one back, and binding a free one to an index.
\<close>

section \<open>Frames\<close>

lemma hd_index_frame:
  assumes "hd_index tag z s h" "bh_at h s' = bh_at h s" "\<And>b. b \<in> set (lent s h) \<Longrightarrow> bk_id (blk_at b s') = bk_id (blk_at b s)"
  shows "hd_index tag z s' h"
  using assms(1) hd_nodes_frame [OF assms(2,3)] unfolding hd_index_def assms(2) by simp

text \<open>When only blocks that are not lent change, and the pool.\<close>

lemma bc_inv_pool:
  assumes inv: "bc_inv good content tag z A hs xs s" and good: "good (snd s')" and pool: "pool_ok A hs xs' s'"
    and same: "bc_heap (fst s') = bc_heap (fst s)" "bc_work (fst s') = bc_work (fst s)" "bc_fresh (fst s') = bc_fresh (fst s)"
      "bc_tmpPath (fst s') = bc_tmpPath (fst s)" "bc_blockSize (fst s') = bc_blockSize (fst s)"
    and len: "\<And>b. length (bk_data (blk_at b s')) = z"
    and blk: "\<And>b. b \<in> set (lent_all hs s) \<Longrightarrow> blk_at b s' = blk_at b s"
  shows "bc_inv good content tag z A hs xs' s'"
proof -
  have "hd_ok content z s' h" if "h \<in> set hs" for h
    by (rule hd_ok_frame [of content z s]) (use inv that same blk in \<open>auto simp: bc_inv_def pending_def\<close>)
  moreover have "work_ok tag hs s'" using inv same(1,2) by (simp add: bc_inv_def work_ok_def item_ok_def)
  moreover have "conf_ok z s'" using inv same(4,5) len by (simp add: bc_inv_def conf_ok_def)
  ultimately show ?thesis using inv good pool by (simp add: bc_inv_def)
qed

text \<open>The handles and their blocks are as before.\<close>

definition hsame :: "nat list \<Rightarrow> 'n bc_state \<Rightarrow> 'n bc_state \<Rightarrow> bool" where
  "hsame hs s s' \<longleftrightarrow> bc_heap (fst s') = bc_heap (fst s) \<and> bc_work (fst s') = bc_work (fst s) \<and>
     bc_fresh (fst s') = bc_fresh (fst s) \<and> (\<forall>b \<in> set (lent_all hs s). blk_at b s' = blk_at b s)"

lemma hsame_refl: "hsame hs s s"
  by (simp add: hsame_def)

lemma hsame_trans: "hsame hs s s1 \<Longrightarrow> hsame hs s1 s2 \<Longrightarrow> hsame hs s s2"
  using lent_all_frame [of s1 s hs] by (simp add: hsame_def)

lemma hd_index_hsame: "hsame hs s s' \<Longrightarrow> h \<in> set hs \<Longrightarrow> hd_index tag z s h \<Longrightarrow> hd_index tag z s' h"
  by (rule hd_index_frame [of tag z s]) (auto simp: hsame_def)

lemma rd_inv_hsame:
  "rd_inv good content tag z A hs xs s \<Longrightarrow> bc_inv good content tag z A hs xs' s' \<Longrightarrow> hsame hs s s' \<Longrightarrow>
    rd_inv good content tag z A hs xs' s'"
  using hd_index_hsame [of hs s s'] by (simp add: rd_inv_def)

text \<open>When a handle changes, and blocks move between its lists and those on their way.\<close>

lemma mset_lent_all:
  assumes "distinct hs" "h \<in> set hs" "\<And>h'. h' \<noteq> h \<Longrightarrow> lent s' h' = lent s h'"
  shows "mset (lent_all hs s') + mset (lent s h) = mset (lent_all hs s) + mset (lent s' h)"
  using assms(1,2)
proof (induction hs)
  case (Cons a hs)
  show ?case
  proof (cases "a = h")
    case True
    have "concat (map (lent s') hs) = concat (map (lent s) hs)"
      using Cons.prems(1) True by (intro arg_cong [where f = concat] map_cong refl assms(3)) auto
    then show ?thesis using True by (simp add: lent_all_def)
  next
    case False
    then show ?thesis using Cons assms(3) [of a] by (simp add: lent_all_def)
  qed
qed simp

lemma pool_ok_move:
  assumes "pool_ok A hs xs s" "distinct hs" "h \<in> set hs" "\<And>h'. h' \<noteq> h \<Longrightarrow> lent s' h' = lent s h'"
    "bc_pool (fst s') = bc_pool (fst s)" "mset xs' + mset (lent s' h) = mset xs + mset (lent s h)"
  shows "pool_ok A hs xs' s'"
proof -
  have "mset (xs' @ lent_all hs s') + mset (lent s h) = mset xs' + mset (lent s' h) + mset (lent_all hs s)"
    using mset_lent_all [OF assms(2-4)] by (simp add: ac_simps)
  also have "\<dots> = mset (xs @ lent_all hs s) + mset (lent s h)" using assms(6) by (simp add: ac_simps)
  finally have m: "mset (xs' @ lent_all hs s') = mset (xs @ lent_all hs s)" by simp
  then have "set (xs' @ lent_all hs s') = set (xs @ lent_all hs s)" by (rule mset_eq_setD)
  then show ?thesis using assms(1,5) pool_inv_perm [OF _ m] unfolding pool_ok_def by simp
qed

lemma bc_inv_upd_bh:
  assumes inv: "bc_inv good content tag z A hs xs s" and h: "h \<in> set hs" and c: "content (h_Path (bh_at h s)) = Some c"
    and f: "h_Path (f (bh_at h s)) = h_Path (bh_at h s)" "hd_fields z c (f (bh_at h s))"
      "ck = bh_cooked (f (bh_at h s))" "cg = bh_cooking (f (bh_at h s))"
    and m: "mset xs' + mset (ck @ cg) = mset xs + mset (lent s h)"
    and cooked: "\<And>b. b \<in> set ck \<Longrightarrow> b \<notin> pending s \<and> cooked_ok z c (blk_at b s)"
    and cooking: "\<And>b. b \<in> set cg \<Longrightarrow> cooking_ok z c (b \<in> pending s) (blk_at b s)"
    and stay: "\<And>b. b \<in> pending s \<Longrightarrow> b \<in> set (bh_cooking (bh_at h s)) \<Longrightarrow> b \<in> set cg"
  shows "bc_inv good content tag z A hs xs' (upd_bh h f s)" (is "bc_inv _ _ _ _ _ _ _ ?s")
proof -
  have inv': "conf_ok z s" "distinct hs" "pool_ok A hs xs s" "work_ok tag hs s" "\<And>h. h \<in> set hs \<Longrightarrow> hd_ok content z s h"
    using inv by (simp_all add: bc_inv_def)
  have p: "pending ?s = pending s" by (simp add: pending_def bc_upd)
  have "pool_ok A hs xs' ?s"
    by (rule pool_ok_move [OF inv'(3,2) h]) (use m f(3,4) in \<open>auto simp: lent_def bc_upd\<close>)
  moreover have "hd_ok content z ?s h'" if h': "h' \<in> set hs" for h'
  proof (cases "h' = h")
    case True
    have "h < bc_fresh (fst s)" using inv'(5) [OF h] by (simp add: hd_ok_def)
    then show ?thesis using c f cooked cooking True by (auto simp: hd_ok_def bc_upd p)
  next
    case False
    then show ?thesis by (intro hd_ok_frame [OF inv'(5) [OF h']]) (simp_all add: bc_upd p)
  qed
  moreover have "work_ok tag hs ?s"
    using inv'(4) stay f(1,4) by (auto simp: work_ok_def item_ok_def bc_upd pending_def)
  moreover have "conf_ok z ?s" using inv'(1) by (simp add: conf_ok_def bc_upd)
  ultimately show ?thesis using inv inv'(2) by (simp add: bc_inv_def bc_upd)
qed

lemma rd_inv_upd_bh:
  assumes "rd_inv good content tag z A hs xs s" "bc_inv good content tag z A hs xs' (upd_bh h f s)" "hd_index tag z (upd_bh h f s) h"
  shows "rd_inv good content tag z A hs xs' (upd_bh h f s)"
proof -
  have "hd_index tag z (upd_bh h f s) h'" if "h' \<in> set hs" for h'
  proof (cases "h' = h")
    case False
    have "hd_index tag z s h'" using assms(1) that by (simp add: rd_inv_def)
    then show ?thesis by (rule hd_index_frame) (use False in \<open>simp_all add: bc_upd\<close>)
  qed (use assms(3) in simp)
  then show ?thesis using assms(2) by (simp add: rd_inv_def)
qed

section \<open>The pool\<close>

lemma reset_one_get:
  assumes "pool_reset (bc_pool (fst s), bc_blocks (fst s)) = (p, bs)"
  shows "bc_pool (fst (reset_one s)) = p" "bc_blocks (fst (reset_one s)) = bs" "bc_heap (fst (reset_one s)) = bc_heap (fst s)"
    "bc_work (fst (reset_one s)) = bc_work (fst s)" "bc_fresh (fst (reset_one s)) = bc_fresh (fst s)"
    "bc_tmpPath (fst (reset_one s)) = bc_tmpPath (fst s)" "bc_blockSize (fst (reset_one s)) = bc_blockSize (fst s)"
    "snd (reset_one s) = snd s"
  using assms by (cases s; simp add: reset_one_def)+

lemma pool_reset_lengths:
  assumes "\<And>b. length (bk_data (bs b)) = z" "pool_reset (p, bs) = (p', bs')"
  shows "length (bk_data (bs' b)) = z" "bp_resetCh p' = drop 1 (bp_resetCh p)"
  using assms by (cases "bp_resetCh p"; auto simp: pool_reset_def Let_def split: if_splits)+

text \<open>The thread that zeroes blocks works on those in the pool only.\<close>

lemma reset_one_inv:
  assumes inv: "bc_inv good content tag z A hs xs s"
  shows "bc_inv good content tag z A hs xs (reset_one s) \<and> hsame hs s (reset_one s) \<and>
    bp_resetCh (bc_pool (fst (reset_one s))) = drop 1 (bp_resetCh (bc_pool (fst s)))"
proof -
  obtain p bs where r: "pool_reset (bc_pool (fst s), bc_blocks (fst s)) = (p, bs)" by fastforce
  note get = reset_one_get [OF r]
  have pool: "pool_ok A hs xs s" and len: "\<And>b. length (bk_data (blk_at b s)) = z" and good: "good (snd s)"
    using inv by (simp_all add: bc_inv_def conf_ok_def)
  have pi: "pool_inv (bc_pool (fst s)) (xs @ lent_all hs s)" using pool by (simp add: pool_ok_def)
  have l: "lent_all hs (reset_one s) = lent_all hs s" by (rule lent_all_frame [OF get(3)])
  have blk: "blk_at b (reset_one s) = blk_at b s" if "b \<in> set (lent_all hs s)" for b
  proof -
    have "b \<notin> set (pool_refs (bc_pool (fst s)))" using pool_ok_distinct [OF pool] that by (auto simp del: set_lent_all)
    then show ?thesis using pool_reset_inv(5) [OF pi r] get(2) by simp
  qed
  have "pool_ok A hs xs (reset_one s)"
    using pool pool_reset_inv(1,2) [OF pi r] by (simp add: pool_ok_def get l)
  moreover have "length (bk_data (blk_at b (reset_one s))) = z" for b
    using pool_reset_lengths(1) [OF len r] get(2) by simp
  ultimately have "bc_inv good content tag z A hs xs (reset_one s)"
    using blk good by (intro bc_inv_pool [OF inv]) (simp_all add: get)
  then show ?thesis using blk pool_reset_lengths(2) [OF len r] by (simp add: hsame_def get)
qed

lemma resets_inv:
  assumes "bc_inv good content tag z A hs xs s"
  shows "bc_inv good content tag z A hs xs (resets k s) \<and> hsame hs s (resets k s) \<and>
    bp_resetCh (bc_pool (fst (resets k s))) = drop k (bp_resetCh (bc_pool (fst s)))"
proof (induction k)
  case 0
  then show ?case using assms by (simp add: resets_def hsame_refl)
next
  case (Suc k)
  let ?s = "resets k s"
  have s: "resets (Suc k) s = reset_one ?s" by (simp add: resets_def)
  have "bc_inv good content tag z A hs xs ?s" "hsame hs s ?s" using Suc by simp_all
  with reset_one_inv [OF this(1)] hsame_trans [of hs s ?s "reset_one ?s"] Suc show ?case by (simp add: s)
qed

text \<open>A block that was taken is on its way, empty.\<close>

lemma taken_inv:
  assumes inv: "bc_inv good content tag z A hs xs s" and pool: "pool_inv p (b # xs @ lent_all hs s)"
    "set (pool_refs (bc_pool (fst s))) = insert b (set (pool_refs p))"
  shows "bc_inv good content tag z A hs (b # xs) (upd_blk b blk_ReUse (upd_pool p s))" (is "bc_inv _ _ _ _ _ _ _ ?s")
    "hsame hs s (upd_blk b blk_ReUse (upd_pool p s))"
proof -
  have l: "lent_all hs ?s = lent_all hs s" by (rule lent_all_frame) (simp add: bc_upd)
  have old: "pool_ok A hs xs s" "\<And>b. length (bk_data (blk_at b s)) = z" "good (snd s)"
    using inv by (simp_all add: bc_inv_def conf_ok_def)
  have nb: "b \<notin> set (lent_all hs s)" using pool(1) by (simp add: pool_inv_def del: set_lent_all)
  have "pool_ok A hs (b # xs) ?s" using old(1) pool by (auto simp: pool_ok_def l bc_upd simp del: set_lent_all)
  then show "bc_inv good content tag z A hs (b # xs) ?s"
    using nb old by (intro bc_inv_pool [OF inv]) (auto simp: bc_upd blk_ReUse_def simp del: set_lent_all)
  show "hsame hs s ?s" using nb by (auto simp: hsame_def bc_upd simp del: set_lent_all)
qed

text \<open>\<open>MustGet\<close> fails only when every block is lent.\<close>

lemma MustGet_inv:
  assumes inv: "bc_inv good content tag z A hs xs s"
  obtains s1 where "MustGet E s = (None, s1)" "bc_inv good content tag z A hs xs s1" "hsame hs s s1" "pool_refs (bc_pool (fst s1)) = []"
  | b s1 where "MustGet E s = (Some b, s1)" "bc_inv good content tag z A hs (b # xs) s1" "hsame hs s s1" "bk_id (blk_at b s1) = - 1"
proof -
  define s1 where "s1 = resets (be_resets E s) s"
  define s2 where "s2 = (if pool_MustGet (be_prio E s1) (bc_pool (fst s1)) = None
    then resets (length (bp_resetCh (bc_pool (fst s1)))) s1 else s1)"
  have i1: "bc_inv good content tag z A hs xs s1" "hsame hs s s1" using resets_inv [OF inv] by (simp_all add: s1_def)
  have i2: "bc_inv good content tag z A hs xs s2" "hsame hs s s2"
    using i1 resets_inv [OF i1(1)] hsame_trans [OF i1(2)] by (auto simp: s2_def)
  show ?thesis
  proof (cases "pool_MustGet (be_prio E s2) (bc_pool (fst s2))")
    case None
    have free: "bp_priorityCh p = [] \<and> bp_blocksCh p = []" if "pool_MustGet pr p = None" for pr p
      using that by (auto simp: pool_MustGet_def split: list.splits if_splits)
    have n1: "pool_MustGet (be_prio E s1) (bc_pool (fst s1)) = None"
      using None by (cases "pool_MustGet (be_prio E s1) (bc_pool (fst s1))") (simp_all add: s2_def)
    then have "bp_resetCh (bc_pool (fst s2)) = []" using resets_inv [OF i1(1)] by (simp add: s2_def)
    with free [OF None] have "pool_refs (bc_pool (fst s2)) = []" by (simp add: pool_refs_def)
    moreover have "MustGet E s = (None, s2)" using None by (simp add: MustGet_def s1_def [symmetric] s2_def [symmetric] Let_def)
    ultimately show ?thesis using that(1) i2 by blast
  next
    case (Some bp)
    obtain b p where bp: "bp = (b, p)" by fastforce
    have pi: "pool_inv (bc_pool (fst s2)) (xs @ lent_all hs s2)" using i2(1) by (simp add: bc_inv_def pool_ok_def)
    note t = pool_MustGet_inv [OF pi Some [unfolded bp]]
    have "MustGet E s = (Some b, upd_blk b blk_ReUse (upd_pool p s2))"
      using Some bp by (simp add: MustGet_def s1_def [symmetric] s2_def [symmetric] Let_def)
    then show ?thesis
      using that(2) taken_inv [OF i2(1) t(1,4)] hsame_trans [OF i2(2)] by (simp add: bc_upd blk_ReUse_def)
  qed
qed

lemma TryGet_inv:
  assumes inv: "bc_inv good content tag z A hs xs s"
  obtains s1 where "TryGet E s = (None, s1)" "bc_inv good content tag z A hs xs s1" "hsame hs s s1"
  | b s1 where "TryGet E s = (Some b, s1)" "bc_inv good content tag z A hs (b # xs) s1" "hsame hs s s1" "bk_id (blk_at b s1) = - 1"
proof -
  define s1 where "s1 = resets (be_resets E s) s"
  have i1: "bc_inv good content tag z A hs xs s1" "hsame hs s s1" using resets_inv [OF inv] by (simp_all add: s1_def)
  show ?thesis
  proof (cases "pool_TryGet (bc_pool (fst s1))")
    case None
    then show ?thesis using that(1) i1 by (simp add: TryGet_def s1_def [symmetric] Let_def)
  next
    case (Some bp)
    obtain b p where bp: "bp = (b, p)" by fastforce
    have pi: "pool_inv (bc_pool (fst s1)) (xs @ lent_all hs s1)" using i1(1) by (simp add: bc_inv_def pool_ok_def)
    note t = pool_TryGet_inv [OF pi Some [unfolded bp]]
    have "TryGet E s = (Some b, upd_blk b blk_ReUse (upd_pool p s1))"
      using Some bp by (simp add: TryGet_def s1_def [symmetric] Let_def)
    then show ?thesis
      using that(2) taken_inv [OF i1(1) t(1,4)] hsame_trans [OF i1(2)] by (simp add: bc_upd blk_ReUse_def)
  qed
qed

text \<open>A block on its way goes back to the pool.\<close>

lemma give_back_inv:
  assumes inv: "bc_inv good content tag z A hs (b # xs) s"
  shows "bc_inv good content tag z A hs xs (give_back b s)" "hsame hs s (give_back b s)"
proof -
  let ?s = "give_back b s"
  have g: "?s = upd_pool (pool_Release b (bc_pool (fst s))) (upd_blk b blk_ReUse s)"
    by (simp add: give_back_def Let_def bc_upd)
  have l: "lent_all hs ?s = lent_all hs s" by (rule lent_all_frame) (simp add: g bc_upd)
  have old: "pool_ok A hs (b # xs) s" "\<And>b. length (bk_data (blk_at b s)) = z" "good (snd s)"
    using inv by (simp_all add: bc_inv_def conf_ok_def)
  have pi: "pool_inv (bc_pool (fst s)) (b # xs @ lent_all hs s)" using old(1) by (simp add: pool_ok_def)
  have nb: "b \<notin> set (lent_all hs s)" using pi by (simp add: pool_inv_def del: set_lent_all)
  have "pool_ok A hs xs ?s"
    using old(1) pool_Release_inv(1,2) [OF pi] l by (auto simp: pool_ok_def g bc_upd simp del: set_lent_all)
  then show "bc_inv good content tag z A hs xs ?s"
    using nb old by (intro bc_inv_pool [OF inv]) (auto simp: g bc_upd blk_ReUse_def simp del: set_lent_all)
  show "hsame hs s ?s" using nb by (auto simp: hsame_def g bc_upd simp del: set_lent_all)
qed

section \<open>The lists of a handle\<close>

lemma flight_apart:
  assumes "bc_inv good content tag z A hs xs s" "b \<in> set xs"
  shows "b \<notin> pending s" "h \<in> set hs \<Longrightarrow> b \<notin> set (lent s h)"
proof -
  have p: "pool_ok A hs xs s" "work_ok tag hs s" using assms(1) by (simp_all add: bc_inv_def)
  have d: "b \<notin> set (lent_all hs s)" using pool_ok_distinct [OF p(1)] assms(2) by (auto simp del: set_lent_all)
  then show "h \<in> set hs \<Longrightarrow> b \<notin> set (lent s h)" by auto
  show "b \<notin> pending s"
  proof
    assume "b \<in> pending s"
    then show False
    proof (rule pending_lent [OF p(2)])
      fix w assume "wi_handle w \<in> set hs" "b \<in> set (bh_cooking (bh_at (wi_handle w) s))"
      then show False using d by (auto simp: lent_def)
    qed
  qed
qed

lemma hd_okE:
  assumes "bc_inv good content tag z A hs xs s" "h \<in> set hs"
  obtains c where "content (h_Path (bh_at h s)) = Some c" "hd_fields z c (bh_at h s)"
    "\<And>b. b \<in> set (bh_cooked (bh_at h s)) \<Longrightarrow> b \<notin> pending s \<and> cooked_ok z c (blk_at b s)"
    "\<And>b. b \<in> set (bh_cooking (bh_at h s)) \<Longrightarrow> cooking_ok z c (b \<in> pending s) (blk_at b s)"
  using assms unfolding bc_inv_def hd_ok_def by blast

lemma hd_fields_lists [intro]: "hd_fields z c x \<Longrightarrow> hd_fields z c (set_lists k l x)"
  by (simp add: hd_fields_def bc_upd)

lemma cooked_ok_new: "bk_id x = - 1 \<Longrightarrow> cooked_ok z c x"
  by (simp add: cooked_ok_def)

text \<open>An empty block joins the free ones.\<close>

lemma push_cooked:
  assumes inv: "rd_inv good content tag z A hs (b # xs) s" and h: "h \<in> set hs" and b: "bk_id (blk_at b s) = - 1"
  shows "rd_inv good content tag z A hs xs (upd_bh h (\<lambda>x. set_lists (b # bh_cooked x) (bh_cooking x) x) s)"
proof (rule rd_inv_upd_bh [OF inv])
  have i: "bc_inv good content tag z A hs (b # xs) s" and ix: "hd_index tag z s h" using inv h by (simp_all add: rd_inv_def)
  obtain c where c: "content (h_Path (bh_at h s)) = Some c" "hd_fields z c (bh_at h s)"
    "\<And>b. b \<in> set (bh_cooked (bh_at h s)) \<Longrightarrow> b \<notin> pending s \<and> cooked_ok z c (blk_at b s)"
    "\<And>b. b \<in> set (bh_cooking (bh_at h s)) \<Longrightarrow> cooking_ok z c (b \<in> pending s) (blk_at b s)"
    using hd_okE [OF i h] by metis
  have nb: "b \<notin> pending s" "b \<notin> set (lent s h)" using flight_apart [OF i, of b] h by simp_all
  let ?s = "upd_bh h (\<lambda>x. set_lists (b # bh_cooked x) (bh_cooking x) x) s"
  show "bc_inv good content tag z A hs xs ?s"
    by (rule bc_inv_upd_bh [OF i h c(1)]) (use c nb b cooked_ok_new in \<open>auto simp: bc_upd lent_def\<close>)
  have "lent ?s h = b # lent s h" by (simp add: lent_def bc_upd)
  then have "(b' \<in> set (lent ?s h) \<and> bk_id (blk_at b' s) = k \<and> k \<noteq> - 1) = (b' \<in> set (lent s h) \<and> bk_id (blk_at b' s) = k \<and> k \<noteq> - 1)" for k b'
    using b by auto
  then have "hd_nodes ?s h" using ix unfolding hd_index_def hd_nodes_def by (simp add: bc_upd)
  then show "hd_index tag z ?s h" using ix by (simp add: hd_index_def bc_upd)
qed

end
