(* ===== verification/Block_Cache_Reading.thy ===== *)
theory Block_Cache_Reading
  imports Block_Cache_Moves
begin

text \<open>
  Prefetching and reading keep the invariant, return, and hand out the bytes of the file.
\<close>

section \<open>Binding a free block to an index\<close>

definition bound_block :: "nat \<Rightarrow> nat \<Rightarrow> int \<Rightarrow> int \<Rightarrow> bool \<Rightarrow> 'n bc_state \<Rightarrow> 'n bc_state" where
  "bound_block h b index offset prefetch s2 = lineupDownload h b prefetch
     (upd_bh h (\<lambda>x. x\<lparr>bh_nodes := map_store index b (bh_nodes x), bh_next := Some (index + 1)\<rparr>)
       (upd_blk b (\<lambda>x. (blk_ReUse x)\<lparr>bk_id := index, bk_offset := offset\<rparr>) s2))"

text \<open>What is kept of a handle while blocks are bound: the blocks under download stay, untouched.\<close>

definition grows :: "nat \<Rightarrow> 'n bc_state \<Rightarrow> 'n bc_state \<Rightarrow> bool" where
  "grows h s s' \<longleftrightarrow> (\<forall>x. h_Path (bh_at x s') = h_Path (bh_at x s)) \<and> h_Size (bh_at h s') = h_Size (bh_at h s) \<and>
     h_OptCnt (bh_at h s') = h_OptCnt (bh_at h s) \<and>
     (\<forall>b \<in> set (bh_cooking (bh_at h s)). b \<in> set (bh_cooking (bh_at h s')) \<and> blk_at b s' = blk_at b s \<and> (b \<in> pending s' \<longleftrightarrow> b \<in> pending s))"

lemma grows_refl: "grows h s s"
  by (simp add: grows_def)

lemma grows_trans: "grows h s s1 \<Longrightarrow> grows h s1 s2 \<Longrightarrow> grows h s s2"
  by (simp add: grows_def)

definition has_block :: "nat \<Rightarrow> int \<Rightarrow> 'n bc_state \<Rightarrow> bool" where
  "has_block h k s \<longleftrightarrow> (\<exists>b \<in> set (bh_cooking (bh_at h s)). bk_id (blk_at b s) = k)"

lemma has_block_grows: "has_block h k s \<Longrightarrow> grows h s s' \<Longrightarrow> has_block h k s'"
  unfolding has_block_def grows_def by metis

lemma has_block_node:
  assumes "rd_inv good content tag z A hs xs s" "h \<in> set hs" "has_block h k s" "0 \<le> k"
  shows "map_of (bh_nodes (bh_at h s)) k \<noteq> None"
  using assms unfolding rd_inv_def hd_index_def hd_nodes_def has_block_def lent_def by force

lemma node_block:
  assumes "rd_inv good content tag z A hs xs s" "h \<in> set hs" "map_of (bh_nodes (bh_at h s)) k = Some b"
  shows "b \<in> set (lent s h)" "bk_id (blk_at b s) = k" "k \<noteq> - 1"
  using assms unfolding rd_inv_def hd_index_def hd_nodes_def by blast+

lemma bound_block_get:
  assumes d: "distinct (lent s h)" and front: "bh_cooked (bh_at h s) = b # rest"
    and s2: "s2 = (if bk_id (blk_at b s) = - 1 then s else upd_bh h (remove_node (bk_id (blk_at b s))) s)"
    and s': "s' = bound_block h b index offset prefetch s2"
  shows "bh_cooked (bh_at h s') = rest" "bh_cooking (bh_at h s') = bh_cooking (bh_at h s) @ [b]"
    "h' \<noteq> h \<Longrightarrow> bh_at h' s' = bh_at h' s" "h_Path (bh_at h s') = h_Path (bh_at h s)" "h_Size (bh_at h s') = h_Size (bh_at h s)"
    "h_OptCnt (bh_at h s') = h_OptCnt (bh_at h s)" "h_FObj (bh_at h s') = h_FObj (bh_at h s)" "h_Flags (bh_at h s') = h_Flags (bh_at h s)"
    "h_Buffers (bh_at h s') = Some (rest, bh_cooking (bh_at h s) @ [b])" "bh_blockList (bh_at h s') = bh_blockList (bh_at h s)"
    "bh_etag (bh_at h s') = bh_etag (bh_at h s)" "bh_next (bh_at h s') = Some (index + 1)"
    "map_of (bh_nodes (bh_at h s')) = (if bk_id (blk_at b s) = - 1 then map_of (bh_nodes (bh_at h s))
       else (map_of (bh_nodes (bh_at h s)))(bk_id (blk_at b s) := None))(index \<mapsto> b)"
    "blk_at b' s' = (if b' = b then blk_set BlockFlagDownloading ((blk_ReUse (blk_at b s))\<lparr>bk_id := index, bk_offset := offset\<rparr>) else blk_at b' s)"
    "bc_pool (fst s') = bc_pool (fst s)" "bc_fresh (fst s') = bc_fresh (fst s)" "bc_blockSize (fst s') = bc_blockSize (fst s)"
    "bc_tmpPath (fst s') = bc_tmpPath (fst s)" "snd s' = snd s"
    "bc_work (fst s') = bc_work (fst s) @ [\<lparr>wi_handle = h, wi_block = b, wi_prefetch = prefetch, wi_failCnt = 0, wi_upload = False,
       wi_blockId = [], wi_ETag = (case bh_etag (bh_at h s) of Some e \<Rightarrow> e | None \<Rightarrow> [])\<rparr>]"
proof -
  have "b \<notin> set rest" "b \<notin> set (bh_cooking (bh_at h s))" using d front by (auto simp: lent_def)
  then have r: "removeAll b rest = rest" "removeAll b (bh_cooking (bh_at h s)) = bh_cooking (bh_at h s)" by simp_all
  show "bh_cooked (bh_at h s') = rest" "bh_cooking (bh_at h s') = bh_cooking (bh_at h s) @ [b]"
    "h' \<noteq> h \<Longrightarrow> bh_at h' s' = bh_at h' s" "h_Path (bh_at h s') = h_Path (bh_at h s)" "h_Size (bh_at h s') = h_Size (bh_at h s)"
    "h_OptCnt (bh_at h s') = h_OptCnt (bh_at h s)" "h_FObj (bh_at h s') = h_FObj (bh_at h s)" "h_Flags (bh_at h s') = h_Flags (bh_at h s)"
    "h_Buffers (bh_at h s') = Some (rest, bh_cooking (bh_at h s) @ [b])" "bh_blockList (bh_at h s') = bh_blockList (bh_at h s)"
    "bh_etag (bh_at h s') = bh_etag (bh_at h s)" "bh_next (bh_at h s') = Some (index + 1)"
    "map_of (bh_nodes (bh_at h s')) = (if bk_id (blk_at b s) = - 1 then map_of (bh_nodes (bh_at h s))
       else (map_of (bh_nodes (bh_at h s)))(bk_id (blk_at b s) := None))(index \<mapsto> b)"
    "blk_at b' s' = (if b' = b then blk_set BlockFlagDownloading ((blk_ReUse (blk_at b s))\<lparr>bk_id := index, bk_offset := offset\<rparr>) else blk_at b' s)"
    "bc_pool (fst s') = bc_pool (fst s)" "bc_fresh (fst s') = bc_fresh (fst s)" "bc_blockSize (fst s') = bc_blockSize (fst s)"
    "bc_tmpPath (fst s') = bc_tmpPath (fst s)" "snd s' = snd s"
    "bc_work (fst s') = bc_work (fst s) @ [\<lparr>wi_handle = h, wi_block = b, wi_prefetch = prefetch, wi_failCnt = 0, wi_upload = False,
       wi_blockId = [], wi_ETag = (case bh_etag (bh_at h s) of Some e \<Rightarrow> e | None \<Rightarrow> [])\<rparr>]"
    by (simp_all add: s' s2 bound_block_def lineupDownload_def addToCooking_def Let_def bc_upd front r)
qed

lemma new_block_bound:
  assumes "0 \<le> index" "index * int z < int (length c)"
  shows "cooking_ok z c True (blk_set BlockFlagDownloading ((blk_ReUse x)\<lparr>bk_id := index, bk_offset := index * int z\<rparr>))"
  using assms by (simp add: cooking_ok_def blk_bound_def blk_set_def blk_ReUse_def ResetBits_def
      BlockFlagFresh_def BlockFlagDownloading_def BlockFlagUploading_def)

lemma bound_block_nodes:
  assumes ix: "hd_nodes s h" and b: "b \<in> set (lent s h)" and l: "set (lent s' h) = set (lent s h)"
    and free: "map_of (bh_nodes (bh_at h s)) index = None" and pos: "0 \<le> index"
    and nodes: "map_of (bh_nodes (bh_at h s')) = (if bk_id (blk_at b s) = - 1 then map_of (bh_nodes (bh_at h s))
       else (map_of (bh_nodes (bh_at h s)))(bk_id (blk_at b s) := None))(index \<mapsto> b)"
    and ids: "\<And>b'. bk_id (blk_at b' s') = (if b' = b then index else bk_id (blk_at b' s))"
  shows "hd_nodes s' h"
proof -
  have n: "\<And>k x. map_of (bh_nodes (bh_at h s)) k = Some x \<longleftrightarrow> x \<in> set (lent s h) \<and> bk_id (blk_at x s) = k \<and> k \<noteq> - 1"
    using ix unfolding hd_nodes_def by blast
  have no_index: "x \<in> set (lent s h) \<Longrightarrow> bk_id (blk_at x s) \<noteq> index" for x
    using n [of index x] free pos by auto
  have one: "x \<in> set (lent s h) \<Longrightarrow> bk_id (blk_at x s) = bk_id (blk_at b s) \<Longrightarrow> bk_id (blk_at b s) \<noteq> - 1 \<Longrightarrow> x = b" for x
    using n [of "bk_id (blk_at b s)" x] n [of "bk_id (blk_at b s)" b] b by auto
  have "map_of (bh_nodes (bh_at h s')) k = Some x \<longleftrightarrow> x \<in> set (lent s' h) \<and> bk_id (blk_at x s') = k \<and> k \<noteq> - 1" for k x
  proof (cases "k = index")
    case True
    then show ?thesis unfolding nodes ids l using no_index [of x] b pos by auto
  next
    case False
    show ?thesis
    proof (cases "bk_id (blk_at b s) \<noteq> - 1 \<and> k = bk_id (blk_at b s)")
      case True
      then show ?thesis unfolding nodes ids l using False one [of x] by auto
    next
      case other: False
      then have "map_of (bh_nodes (bh_at h s')) k = map_of (bh_nodes (bh_at h s)) k"
        unfolding nodes using False by auto
      moreover have "bk_id (blk_at x s') = k \<longleftrightarrow> bk_id (blk_at x s) = k" if "k \<noteq> - 1"
        using other False that by (auto simp: ids)
      ultimately show ?thesis unfolding l using n [of k x] by auto
    qed
  qed
  then show ?thesis unfolding hd_nodes_def by blast
qed

lemma bound_block_inv:
  assumes inv: "rd_inv good content tag z A hs xs s" and h: "h \<in> set hs" and front: "bh_cooked (bh_at h s) = b # rest"
    and index: "0 \<le> index" "index * int z < h_Size (bh_at h s)" and free: "map_of (bh_nodes (bh_at h s)) index = None"
    and s2: "s2 = (if bk_id (blk_at b s) = - 1 then s else upd_bh h (remove_node (bk_id (blk_at b s))) s)"
    and s': "s' = bound_block h b index (index * int z) prefetch s2"
  shows "rd_inv good content tag z A hs xs s'" "grows h s s'" "has_block h index s'"
proof -
  have i: "bc_inv good content tag z A hs xs s" and ix: "\<And>h. h \<in> set hs \<Longrightarrow> hd_index tag z s h" using inv by (simp_all add: rd_inv_def)
  have inv': "conf_ok z s" "distinct hs" "pool_ok A hs xs s" "work_ok tag hs s" "\<And>h. h \<in> set hs \<Longrightarrow> hd_ok content z s h" "good (snd s)"
    using i by (simp_all add: bc_inv_def)
  obtain c where c: "content (h_Path (bh_at h s)) = Some c" "hd_fields z c (bh_at h s)"
    "\<And>b. b \<in> set (bh_cooked (bh_at h s)) \<Longrightarrow> b \<notin> pending s \<and> cooked_ok z c (blk_at b s)"
    "\<And>b. b \<in> set (bh_cooking (bh_at h s)) \<Longrightarrow> cooking_ok z c (b \<in> pending s) (blk_at b s)"
    using hd_okE [OF i h] by metis
  have d: "distinct (lent s h)" by (rule lent_apart(1) [OF inv'(3,2) h])
  note get = bound_block_get [OF d front s2 s']
  have b: "b \<in> set (lent s h)" "b \<notin> pending s" "b \<notin> set rest" "b \<notin> set (bh_cooking (bh_at h s))"
    using front c(3) d by (auto simp: lent_def)
  have p: "pending s' = insert b (pending s)" by (simp add: pending_def get)
  have l: "mset (lent s' h) = mset (lent s h)" "set (lent s' h) = set (lent s h)" by (auto simp: lent_def get front)
  have lo: "h' \<noteq> h \<Longrightarrow> lent s' h' = lent s h'" for h' by (simp add: lent_def get)
  have size: "h_Size (bh_at h s) = int (length c)" "int (length c) + int z < 2 ^ 63" using c(2) by (simp_all add: hd_fields_def)
  have blk: "b' \<noteq> b \<Longrightarrow> blk_at b' s' = blk_at b' s" for b' by (simp add: get)
  have "pool_ok A hs xs s'" by (rule pool_ok_move [OF inv'(3,2) h]) (use lo l(1) in \<open>auto simp: get(15)\<close>)
  moreover have "work_ok tag hs s'"
  proof -
    have "distinct (map wi_block (bc_work (fst s')))" using inv'(4) b(2) by (simp add: work_ok_def get pending_def image_iff)
    moreover have "item_ok tag hs s' w" if w: "w \<in> set (bc_work (fst s))" for w
    proof -
      have "item_ok tag hs s w" using inv'(4) w by (simp add: work_ok_def)
      then show ?thesis by (cases "wi_handle w = h") (auto simp: item_ok_def get)
    qed
    ultimately show ?thesis using h ix [OF h] by (auto simp: work_ok_def item_ok_def get hd_index_def split: option.split)
  qed
  moreover have "hd_ok content z s' h'" if h': "h' \<in> set hs" for h'
  proof (cases "h' = h")
    case True
    have "cooking_ok z c (b' \<in> pending s') (blk_at b' s')" if "b' \<in> set (bh_cooking (bh_at h s'))" for b'
      using that c(4) [of b'] new_block_bound [of index z c "blk_at b s"] index size(1) by (cases "b' = b") (auto simp: get p)
    moreover have "b' \<notin> pending s' \<and> cooked_ok z c (blk_at b' s')" if "b' \<in> set (bh_cooked (bh_at h s'))" for b'
      using that c(3) [of b'] b(3) front by (cases "b' = b") (auto simp: get p)
    moreover have "h < bc_fresh (fst s)" using inv'(5) [OF h] by (simp add: hd_ok_def)
    moreover have "hd_fields z c (bh_at h s')" using c(2) by (simp add: hd_fields_def get)
    ultimately show ?thesis using c(1) True by (auto simp: hd_ok_def get(4,16))
  next
    case False
    show ?thesis
    proof (rule hd_ok_frame [OF inv'(5) [OF h']])
      fix b' assume "b' \<in> set (lent s h')"
      then have "b' \<noteq> b" using lent_apart(2) [OF inv'(3,2) h b(1) h'] False by blast
      then show "blk_at b' s' = blk_at b' s \<and> (b' \<in> pending s' \<longleftrightarrow> b' \<in> pending s)" using blk p by simp
    qed (simp_all add: get False)
  qed
  moreover have "conf_ok z s'" using inv'(1) by (auto simp: conf_ok_def get blk_set_def blk_ReUse_def)
  ultimately have bi: "bc_inv good content tag z A hs xs s'" using inv'(2,6) by (simp add: bc_inv_def get)
  have "hd_index tag z s' h'" if h': "h' \<in> set hs" for h'
  proof (cases "h' = h")
    case True
    have ids: "bk_id (blk_at b' s') = (if b' = b then index else bk_id (blk_at b' s))" for b'
      by (simp add: get blk_set_def)
    have "hd_nodes s h" using ix [OF h] by (simp add: hd_index_def)
    then have "hd_nodes s' h" by (rule bound_block_nodes [OF _ b(1) l(2) free index(1) get(13) ids])
    moreover have "(index + 1) * int z < 2 ^ 63" using index size by (simp add: algebra_simps)
    ultimately show ?thesis using ix [OF h] index(1) True by (simp add: hd_index_def get)
  next
    case False
    show ?thesis
    proof (rule hd_index_frame [OF ix [OF h']])
      fix b' assume "b' \<in> set (lent s h')"
      then have "b' \<noteq> b" using lent_apart(2) [OF inv'(3,2) h b(1) h'] False by blast
      then show "bk_id (blk_at b' s') = bk_id (blk_at b' s)" using blk by simp
    qed (simp add: get False)
  qed
  then show "rd_inv good content tag z A hs xs s'" using bi by (simp add: rd_inv_def)
  have nb: "b' \<in> set (bh_cooking (bh_at h s)) \<Longrightarrow> b' \<noteq> b" for b' using b(4) by blast
  have "h_Path (bh_at x s') = h_Path (bh_at x s)" for x by (cases "x = h") (simp_all add: get(3,4))
  then show "grows h s s'" using nb blk p by (auto simp: grows_def get(2,5,6))
  show "has_block h index s'" by (simp add: has_block_def get blk_set_def)
qed

section \<open>Prefetching\<close>

lemma grows_hsame:
  assumes "hsame hs s s'" "h \<in> set hs"
  shows "grows h s s'" "bh_cooked (bh_at h s') = bh_cooked (bh_at h s)" "bh_nodes (bh_at h s') = bh_nodes (bh_at h s)"
  using assms by (auto simp: grows_def hsame_def pending_def lent_def)

lemma grows_push: "grows h s (upd_bh h (\<lambda>x. set_lists (b # bh_cooked x) (bh_cooking x) x) s)"
  by (simp add: grows_def bc_upd pending_def)

text \<open>The only failure of a refresh inside the file is that the pool has no block.\<close>

lemma refreshBlock_inv:
  assumes inv: "rd_inv good content tag z A hs xs s" and h: "h \<in> set hs"
    and index: "0 \<le> index" "index * int z < 2 ^ 63" and free: "map_of (bh_nodes (bh_at h s)) index = None"
  obtains e s' where "refreshBlock E now h index prefetch s = Some (e, s')" "rd_inv good content tag z A hs xs s'" "grows h s s'"
    "e = None \<and> (has_block h index s' \<or> prefetch) \<and> index * int z < h_Size (bh_at h s) \<or>
     e = Some io_EOF \<and> h_Size (bh_at h s) \<le> index * int z \<or> e \<noteq> None \<and> e \<noteq> Some io_EOF \<and> pool_refs (bc_pool (fst s')) = []"
proof -
  have i: "bc_inv good content tag z A hs xs s" using inv by (simp add: rd_inv_def)
  have bs: "bc_blockSize (fst s) = int z" using i by (simp add: bc_inv_def conf_ok_def)
  have "0 \<le> index * int z" using index(1) by simp
  then have wrap: "wrapu64 (index * int z) = index * int z" "wrap64 (index * int z) = index * int z"
    using index(2) by (simp_all add: wrapu64_id wrap64_id in_uint64_def in_int64_def)
  show ?thesis
  proof (cases "h_Size (bh_at h s) \<le> index * int z")
    case True
    then have "refreshBlock E now h index prefetch s = Some (Some io_EOF, s)" by (simp add: refreshBlock_def Let_def bs wrap)
    then show ?thesis using that inv grows_refl True by blast
  next
    case False
    have bind: "\<exists>s'. (do {
          s2 \<leftarrow> reuse_front E now h b s1;
          let s3 = upd_blk b (\<lambda>x. (blk_ReUse x)\<lparr>bk_id := index, bk_offset := index * int z\<rparr>) s2;
          let s4 = upd_bh h (\<lambda>x. x\<lparr>bh_nodes := map_store index b (bh_nodes x), bh_next := Some (index + 1)\<rparr>) s3;
          Some (None :: err, lineupDownload h b prefetch s4)
        }) = Some (None, s') \<and> rd_inv good content tag z A hs xs s' \<and> grows h s1 s' \<and> has_block h index s'"
      if s1: "rd_inv good content tag z A hs xs s1" "bh_cooked (bh_at h s1) = b # rest" "h_Size (bh_at h s1) = h_Size (bh_at h s)"
        "map_of (bh_nodes (bh_at h s1)) index = None" for s1 b rest
    proof -
      have i1: "bc_inv good content tag z A hs xs s1" using s1(1) by (simp add: rd_inv_def)
      obtain c where c: "cooked_ok z c (blk_at b s1)"
        by (rule hd_okE [OF i1 h]) (use s1(2) in \<open>metis list.set_intros(1)\<close>)
      let ?s2 = "if bk_id (blk_at b s1) = - 1 then s1 else upd_bh h (remove_node (bk_id (blk_at b s1))) s1"
      have "reuse_front E now h b s1 = Some ?s2"
        using c by (auto simp: reuse_front_def cooked_ok_def blk_bound_def)
      moreover note bound_block_inv [OF s1(1) h s1(2) index(1) _ s1(4) refl refl, of prefetch]
      ultimately show ?thesis using False s1(3) by (simp add: bound_block_def)
    qed
    have r: "refreshBlock E now h index prefetch s =
        (let (e, s1) = (if bh_cooked (bh_at h s) = [] \<and> \<not> prefetch
              then (case MustGet E s of
                      (None, s1) \<Rightarrow> (Some (Errorf ''Failed to Allocate Buffer''), s1)
                    | (Some b, s1) \<Rightarrow> (None, upd_bh h (\<lambda>x. set_lists (b # bh_cooked x) (bh_cooking x) x) s1))
              else (None, s)) in
        if e \<noteq> None then Some (e, s1)
        else case bh_cooked (bh_at h s1) of
          [] \<Rightarrow> Some (None, s1)
        | b # _ \<Rightarrow> do {
            s2 \<leftarrow> reuse_front E now h b s1;
            let s3 = upd_blk b (\<lambda>x. (blk_ReUse x)\<lparr>bk_id := index, bk_offset := index * int z\<rparr>) s2;
            let s4 = upd_bh h (\<lambda>x. x\<lparr>bh_nodes := map_store index b (bh_nodes x), bh_next := Some (index + 1)\<rparr>) s3;
            Some (None, lineupDownload h b prefetch s4)
          })"
      using False by (simp add: refreshBlock_def Let_def bs wrap)
    show ?thesis
    proof (cases "bh_cooked (bh_at h s) = [] \<and> \<not> prefetch")
      case True
      show ?thesis
      proof (rule MustGet_inv [OF i, of E])
        fix s1 assume m: "MustGet E s = (None, s1)" "bc_inv good content tag z A hs xs s1" "hsame hs s s1" "pool_refs (bc_pool (fst s1)) = []"
        have "refreshBlock E now h index prefetch s = Some (Some (Errorf ''Failed to Allocate Buffer''), s1)"
          using r True m(1) by simp
        then show ?thesis using that rd_inv_hsame [OF inv m(2,3)] grows_hsame(1) [OF m(3) h] m(4) by simp
      next
        fix b s1 assume m: "MustGet E s = (Some b, s1)" "bc_inv good content tag z A hs (b # xs) s1" "hsame hs s s1" "bk_id (blk_at b s1) = - 1"
        let ?s = "upd_bh h (\<lambda>x. set_lists (b # bh_cooked x) (bh_cooking x) x) s1"
        have p: "rd_inv good content tag z A hs xs ?s" by (rule push_cooked [OF rd_inv_hsame [OF inv m(2,3)] h m(4)])
        have g: "grows h s ?s" by (rule grows_trans [OF grows_hsame(1) [OF m(3) h] grows_push])
        have "bh_cooked (bh_at h ?s) = [b]" "h_Size (bh_at h ?s) = h_Size (bh_at h s)" "map_of (bh_nodes (bh_at h ?s)) index = None"
          using grows_hsame [OF m(3) h] True free g by (simp_all add: bc_upd grows_def)
        from bind [OF p this] obtain s' where s': "refreshBlock E now h index prefetch s = Some (None, s')"
          "rd_inv good content tag z A hs xs s'" "grows h ?s s'" "has_block h index s'"
          using r True m(1) by (simp add: bc_upd) blast
        then show ?thesis using that [OF s'(1,2) grows_trans [OF g s'(3)]] False by simp
      qed
    next
      case cooked: False
      show ?thesis
      proof (cases "bh_cooked (bh_at h s)")
        case Nil
        then show ?thesis using that [of None s] r cooked inv grows_refl [of h s] False by simp
      next
        case (Cons b rest)
        from bind [OF inv Cons refl free] obtain s' where s': "refreshBlock E now h index prefetch s = Some (None, s')"
          "rd_inv good content tag z A hs xs s'" "grows h s s'" "has_block h index s'"
          using r cooked Cons by auto
        then show ?thesis using that [OF s'(1-3)] False by simp
      qed
    qed
  qed
qed

lemma grow_buffers_inv:
  assumes "rd_inv good content tag z A hs xs s" "h \<in> set hs"
  obtains n s' where "grow_buffers k E h cnt s = (n, s')" "rd_inv good content tag z A hs xs s'" "grows h s s'"
    "bh_nodes (bh_at h s') = bh_nodes (bh_at h s)"
proof -
  have "\<exists>n s'. grow_buffers k E h cnt s = (n, s') \<and> rd_inv good content tag z A hs xs s' \<and> grows h s s' \<and>
      bh_nodes (bh_at h s') = bh_nodes (bh_at h s)"
    using assms(1)
  proof (induction k arbitrary: cnt s)
    case 0
    then show ?case by (simp add: grows_refl)
  next
    case (Suc k)
    have i: "bc_inv good content tag z A hs xs s" using Suc.prems by (simp add: rd_inv_def)
    show ?case
    proof (cases "cnt \<ge> nat MIN_PREFETCH")
      case True
      then show ?thesis using Suc.prems by (simp add: grows_refl)
    next
      case False
      show ?thesis
      proof (rule TryGet_inv [OF i, of E])
        fix s1 assume t: "TryGet E s = (None, s1)" "bc_inv good content tag z A hs xs s1" "hsame hs s s1"
        from Suc.IH [OF rd_inv_hsame [OF Suc.prems t(2,3)], of cnt] obtain n s' where
          "grow_buffers k E h cnt s1 = (n, s')" "rd_inv good content tag z A hs xs s'" "grows h s1 s'"
          "bh_nodes (bh_at h s') = bh_nodes (bh_at h s1)" by blast
        then show ?thesis
          using t(1) False grows_hsame [OF t(3) assms(2)] grows_trans [of h s s1 s'] by simp
      next
        fix b s1 assume t: "TryGet E s = (Some b, s1)" "bc_inv good content tag z A hs (b # xs) s1" "hsame hs s s1" "bk_id (blk_at b s1) = - 1"
        let ?s = "upd_bh h (\<lambda>x. set_lists (b # bh_cooked x) (bh_cooking x) x) s1"
        have p: "rd_inv good content tag z A hs xs ?s" by (rule push_cooked [OF rd_inv_hsame [OF Suc.prems t(2,3)] assms(2) t(4)])
        from Suc.IH [OF p, of "Suc cnt"] obtain n s' where
          "grow_buffers k E h (Suc cnt) ?s = (n, s')" "rd_inv good content tag z A hs xs s'" "grows h ?s s'"
          "bh_nodes (bh_at h s') = bh_nodes (bh_at h ?s)" by blast
        then show ?thesis
          using t(1) False grows_hsame [OF t(3) assms(2)] grows_trans [OF grows_trans [of h s s1 ?s] , of s'] grows_push [of h s1 b]
          by (simp add: bc_upd)
      qed
    qed
  qed
  then show thesis using that by blast
qed

lemma rd_index:
  assumes "rd_inv good content tag z A hs xs s" "h \<in> set hs"
  obtains v where "bh_blockList (bh_at h s) = Some []" "bh_next (bh_at h s) = Some v" "0 \<le> v" "v * int z < 2 ^ 63"
  using assms unfolding rd_inv_def hd_index_def by blast

lemma no_commit: "rd_inv good content tag z A hs xs s \<Longrightarrow> h \<in> set hs \<Longrightarrow> shouldCommitAndDownload k (bh_at h s) = (False, False)"
  by (erule (1) rd_index) (simp add: shouldCommitAndDownload_def)

lemma rd_size:
  assumes "rd_inv good content tag z A hs xs s" "h \<in> set hs"
  obtains c where "content (h_Path (bh_at h s)) = Some c" "h_Size (bh_at h s) = int (length c)" "int (length c) + int z < 2 ^ 63"
proof -
  have "bc_inv good content tag z A hs xs s" using assms(1) by (simp add: rd_inv_def)
  then show thesis by (rule hd_okE [OF _ assms(2)]) (use that in \<open>auto simp: hd_fields_def\<close>)
qed

text \<open>The block asked for first is bound, unless the pool has none; the others are a bonus.\<close>

lemma fetch_blocks_inv:
  assumes "rd_inv good content tag z A hs xs s" "h \<in> set hs" "0 \<le> index" "index * int z < 2 ^ 63"
  obtains e s' where "fetch_blocks k E now h index prefetch s = Some (e, s')" "rd_inv good content tag z A hs xs s'" "grows h s s'"
    "e = None \<or> e = Some io_EOF \<or> pool_refs (bc_pool (fst s')) = []"
    "(e = None \<or> e = Some io_EOF) \<and> 0 < k \<and> \<not> prefetch \<and> index * int z < h_Size (bh_at h s) \<and>
       map_of (bh_nodes (bh_at h s)) index = None \<longrightarrow> has_block h index s'"
proof -
  have "\<exists>e s'. fetch_blocks k E now h index prefetch s = Some (e, s') \<and> rd_inv good content tag z A hs xs s' \<and> grows h s s' \<and>
      (e = None \<or> e = Some io_EOF \<or> pool_refs (bc_pool (fst s')) = []) \<and>
      ((e = None \<or> e = Some io_EOF) \<and> 0 < k \<and> \<not> prefetch \<and> index * int z < h_Size (bh_at h s) \<and>
        map_of (bh_nodes (bh_at h s)) index = None \<longrightarrow> has_block h index s')"
    using assms(1,3,4)
  proof (induction k arbitrary: index prefetch s)
    case 0
    then show ?case by (simp add: grows_refl)
  next
    case (Suc k)
    show ?case
    proof (cases "map_of (bh_nodes (bh_at h s)) index")
      case (Some b)
      from Suc.IH [OF Suc.prems, of True] Some show ?thesis by auto
    next
      case None
      from refreshBlock_inv [OF Suc.prems(1) assms(2) Suc.prems(2,3) None, of E now prefetch] obtain e s1 where
        r: "refreshBlock E now h index prefetch s = Some (e, s1)" "rd_inv good content tag z A hs xs s1" "grows h s s1"
        "e = None \<and> (has_block h index s1 \<or> prefetch) \<and> index * int z < h_Size (bh_at h s) \<or>
         e = Some io_EOF \<and> h_Size (bh_at h s) \<le> index * int z \<or> e \<noteq> None \<and> e \<noteq> Some io_EOF \<and> pool_refs (bc_pool (fst s1)) = []"
        by metis
      have nc: "fst (shouldCommitAndDownload index (bh_at h s)) = False" using no_commit [OF Suc.prems(1) assms(2)] by simp
      show ?thesis
      proof (cases e)
        case (Some x)
        then have "fetch_blocks (Suc k) E now h index prefetch s = Some (e, s1)" using r(1) None nc by simp
        then show ?thesis using r(2-4) Some by auto
      next
        case e: None
        obtain c where "content (h_Path (bh_at h s)) = Some c" and c: "h_Size (bh_at h s) = int (length c)" "int (length c) + int z < 2 ^ 63"
          by (rule rd_size [OF Suc.prems(1) assms(2)])
        have "(index + 1) * int z < 2 ^ 63" using r(4) e c by (simp add: algebra_simps)
        from Suc.IH [OF r(2) _ this, of True] Suc.prems(2) obtain e' s' where
          f: "fetch_blocks k E now h (index + 1) True s1 = Some (e', s')" "rd_inv good content tag z A hs xs s'" "grows h s1 s'"
          "e' = None \<or> e' = Some io_EOF \<or> pool_refs (bc_pool (fst s')) = []" by auto
        have "fetch_blocks (Suc k) E now h index prefetch s = Some (e', s')" using r(1) None nc e f(1) by simp
        then show ?thesis using f r(4) e has_block_grows [OF _ f(3)] grows_trans [OF r(3) f(3)] by auto
      qed
    qed
  qed
  then show thesis using that by blast
qed

section \<open>Fewer blocks for random reads\<close>

lemma cooking_okD:
  assumes "bc_inv good content tag z A hs xs s" "h \<in> set hs" "content (h_Path (bh_at h s)) = Some c" "b \<in> set (bh_cooking (bh_at h s))"
  shows "cooking_ok z c (b \<in> pending s) (blk_at b s)"
  using assms by (auto simp: bc_inv_def hd_ok_def)

lemma upd_bh_cong: "f (bh_at h s) = g (bh_at h s) \<Longrightarrow> upd_bh h f s = upd_bh h g s"
  by (cases s) (simp add: upd_bh_def)

text \<open>Blocks may change lists, as long as those that become free are settled and open.\<close>

lemma rd_inv_lists:
  assumes inv: "rd_inv good content tag z A hs xs s" and h: "h \<in> set hs" and m: "mset (ck @ cg) = mset (lent s h)"
    and ck: "\<And>b c. b \<in> set ck \<Longrightarrow> content (h_Path (bh_at h s)) = Some c \<Longrightarrow> b \<in> set (bh_cooked (bh_at h s)) \<or>
      b \<notin> pending s \<and> settled z c (blk_at b s) \<and> bk_state (blk_at b s) = open_chan"
    and cg: "set cg \<subseteq> set (bh_cooking (bh_at h s))"
  shows "rd_inv good content tag z A hs xs (upd_bh h (set_lists ck cg) s)" (is "rd_inv _ _ _ _ _ _ _ ?s")
proof (rule rd_inv_upd_bh [OF inv])
  have i: "bc_inv good content tag z A hs xs s" and ix: "hd_index tag z s h" using inv h by (simp_all add: rd_inv_def)
  obtain c where c: "content (h_Path (bh_at h s)) = Some c" "hd_fields z c (bh_at h s)"
    "\<And>b. b \<in> set (bh_cooked (bh_at h s)) \<Longrightarrow> b \<notin> pending s \<and> cooked_ok z c (blk_at b s)"
    "\<And>b. b \<in> set (bh_cooking (bh_at h s)) \<Longrightarrow> cooking_ok z c (b \<in> pending s) (blk_at b s)"
    using hd_okE [OF i h] by metis
  have cooked: "b \<notin> pending s \<and> cooked_ok z c (blk_at b s)" if "b \<in> set ck" for b
    using ck [OF that c(1)] c(3) [of b] by (auto simp: cooked_ok_def settled_def)
  have sets: "set (ck @ cg) = set (lent s h)" using mset_eq_setD [OF m] .
  have stay: "b \<in> set cg" if b: "b \<in> pending s" "b \<in> set (bh_cooking (bh_at h s))" for b
  proof -
    have "b \<in> set ck \<or> b \<in> set cg" using b(2) sets by (auto simp: lent_def)
    then show ?thesis using cooked b(1) by blast
  qed
  show "bc_inv good content tag z A hs xs ?s"
    by (rule bc_inv_upd_bh [OF i h c(1), where ck = ck and cg = cg]) (use c(2,4) cooked cg stay m in \<open>auto simp: bc_upd\<close>)
  have "set (lent ?s h) = set (lent s h)" using sets by (simp add: lent_def bc_upd)
  then have "hd_nodes ?s h" using ix unfolding hd_index_def hd_nodes_def by (simp add: bc_upd)
  then show "hd_index tag z ?s h" using ix by (simp add: hd_index_def bc_upd)
qed

lemma flags_state_swap: "(x :: CacheBlock)\<lparr>bk_flags := f, bk_state := t\<rparr> = x\<lparr>bk_state := t, bk_flags := f\<rparr>"
  by simp

lemma recycle_one:
  assumes r1: "rd_inv good content tag z A hs xs s" and h: "h \<in> set hs" and cons: "bh_cooking (bh_at h s) = b # rest"
  obtains s2 where "(case receive b s of
        None \<Rightarrow> Some (upd_bh h (\<lambda>x. set_lists (bh_cooked x) (rest @ [b]) x) s)
      | Some (None, s2) \<Rightarrow> Some (upd_bh h (\<lambda>x. set_lists (bh_cooked x) (rest @ [b]) x) s2)
      | Some (Some v, s2) \<Rightarrow>
          map_option (upd_bh h (\<lambda>x. set_lists (bh_cooked x @ [b]) rest x))
            (try_blk b blk_Unblock (upd_blk b (blk_clear BlockFlagDownloading) s2))) = Some s2"
    "rd_inv good content tag z A hs xs s2" "(\<forall>x. h_Path (bh_at x s2) = h_Path (bh_at x s))" "h_Size (bh_at h s2) = h_Size (bh_at h s)"
proof -
  have i: "bc_inv good content tag z A hs xs s" using r1 by (simp add: rd_inv_def)
  have b: "b \<in> set (lent s h)" "b \<in> set (bh_cooking (bh_at h s))" using cons by (simp_all add: lent_def)
  obtain c where c: "content (h_Path (bh_at h s)) = Some c" by (rule rd_size [OF r1 h])
  have stay: "rd_inv good content tag z A hs xs (upd_bh h (set_lists (bh_cooked (bh_at h s)) (rest @ [b])) s)"
    by (rule rd_inv_lists [OF r1 h]) (use cons in \<open>auto simp: lent_def\<close>)
  have same: "upd_bh h (\<lambda>x. set_lists (bh_cooked x) (rest @ [b]) x) s = upd_bh h (set_lists (bh_cooked (bh_at h s)) (rest @ [b])) s"
    by (rule upd_bh_cong) simp
  consider "b \<in> pending s" | "b \<notin> pending s" "settled z c (blk_at b s)" "bk_state (blk_at b s) = open_chan"
    | "b \<notin> pending s" "settled z c (blk_at b s)" "bk_state (blk_at b s) = ready_chan"
    using cooking_okD [OF i h c b(2)] by (auto simp: cooking_ok_def settled_def split: if_splits)
  then show ?thesis
  proof cases
    case 1
    have "receive b s = None"
      using pending_block(1) [OF i h b(1) 1] by (simp add: receive_def blk_receive_def)
    then show ?thesis using that [OF _ stay] same by (simp add: bc_upd)
  next
    case 2
    have "upd_blk b (\<lambda>_. blk_at b s) s = s" by (rule upd_blk_same) simp
    then have "receive b s = Some (None, s)" using 2(3) by (simp add: receive_def blk_receive_def)
    then show ?thesis using that [OF _ stay] same by (simp add: bc_upd)
  next
    case 3
    let ?c = "upd_blk b (\<lambda>x. x\<lparr>bk_state := open_chan\<rparr>) s"
    let ?f = "upd_blk b (blk_clear BlockFlagDownloading) ?c"
    let ?r = "upd_blk b (\<lambda>_. (blk_at b s)\<lparr>bk_state := new_chan\<rparr>) s"
    have ci: "bc_inv good content tag z A hs xs ?c" by (rule bc_inv_chan [OF i h b(1) c 3(2,1)])
    have "kept s ?c" by (simp add: kept_def bc_upd pending_def)
    then have cr: "rd_inv good content tag z A hs xs ?c" by (rule rd_inv_kept [OF r1 _ ci])
    have fr: "rd_inv good content tag z A hs xs ?f"
      by (rule rd_inv_flags [OF cr h]) (use b in \<open>auto simp: lent_def bc_upd blk_clear_def BlockFlagDownloading_def BlockFlagUploading_def\<close>)
    have "settled z c (blk_at b ?f)" "bk_state (blk_at b ?f) = open_chan" "b \<notin> pending ?f"
      using 3 by (simp_all add: bc_upd pending_def settled_def)
    then have "rd_inv good content tag z A hs xs (upd_bh h (set_lists (bh_cooked (bh_at h s) @ [b]) rest) ?f)"
      using c by (intro rd_inv_lists [OF fr h]) (use cons in \<open>auto simp: lent_def bc_upd\<close>)
    moreover have "map_option (upd_bh h (\<lambda>x. set_lists (bh_cooked x @ [b]) rest x))
        (try_blk b blk_Unblock (upd_blk b (blk_clear BlockFlagDownloading) ?r)) = Some (upd_bh h (set_lists (bh_cooked (bh_at h s) @ [b]) rest) ?f)"
      by (cases s) (simp add: try_blk_def blk_Unblock_def blk_clear_def upd_blk_def upd_bh_def flags_state_swap)
    moreover have "receive b s = Some (Some BlockStatusDownloaded, ?r)"
      using 3(3) by (simp add: receive_def blk_receive_def)
    ultimately show ?thesis using that by (simp add: bc_upd)
  qed
qed

context block_source begin

lemma recycle_cooking_inv:
  assumes "rd_inv good content tag z A hs xs s" "h \<in> set hs"
  obtains s' where "recycle_cooking k E now h s = Some s'" "rd_inv good content tag z A hs xs s'"
    "(\<forall>x. h_Path (bh_at x s') = h_Path (bh_at x s))" "h_Size (bh_at h s') = h_Size (bh_at h s)"
proof -
  have "\<exists>s'. recycle_cooking k E now h s = Some s' \<and> rd_inv good content tag z A hs xs s' \<and>
      (\<forall>x. h_Path (bh_at x s') = h_Path (bh_at x s)) \<and> h_Size (bh_at h s') = h_Size (bh_at h s)"
    using assms(1)
  proof (induction k arbitrary: s)
    case (Suc k)
    show ?case
    proof (cases "bh_cooking (bh_at h s)")
      case Nil
      then show ?thesis using Suc.prems by simp
    next
      case (Cons b rest)
      have i: "bc_inv good content tag z A hs xs s" using Suc.prems by (simp add: rd_inv_def)
      obtain s1 where s1: "workers E now s = Some s1" "bc_inv good content tag z A hs xs s1" "wframe s s1"
        using run_items_done [OF i] unfolding workers_def by blast
      have r1: "rd_inv good content tag z A hs xs s1" by (rule rd_inv_kept [OF Suc.prems kept_wframe [OF s1(3)] s1(2)])
      have heap: "bh_at x s1 = bh_at x s" for x using s1(3) by (simp add: wframe_def)
      then have "bh_cooking (bh_at h s1) = b # rest" using Cons by simp
      then show ?thesis
      proof (rule recycle_one [OF r1 assms(2)])
        fix s2 assume s2: "(case receive b s1 of
              None \<Rightarrow> Some (upd_bh h (\<lambda>x. set_lists (bh_cooked x) (rest @ [b]) x) s1)
            | Some (None, s2) \<Rightarrow> Some (upd_bh h (\<lambda>x. set_lists (bh_cooked x) (rest @ [b]) x) s2)
            | Some (Some v, s2) \<Rightarrow>
                map_option (upd_bh h (\<lambda>x. set_lists (bh_cooked x @ [b]) rest x))
                  (try_blk b blk_Unblock (upd_blk b (blk_clear BlockFlagDownloading) s2))) = Some s2"
          "rd_inv good content tag z A hs xs s2" "(\<forall>x. h_Path (bh_at x s2) = h_Path (bh_at x s1))" "h_Size (bh_at h s2) = h_Size (bh_at h s1)"
        then have "recycle_cooking (Suc k) E now h s = recycle_cooking k E now h s2" using Cons s1(1) by (simp add: Let_def)
        moreover obtain s' where "recycle_cooking k E now h s2 = Some s'" "rd_inv good content tag z A hs xs s'"
          "\<forall>x. h_Path (bh_at x s') = h_Path (bh_at x s2)" "h_Size (bh_at h s') = h_Size (bh_at h s2)"
          using Suc.IH [OF s2(2)] by blast
        ultimately show ?thesis using s2(3,4) heap by simp
      qed
    qed
  qed simp
  then show thesis using that by blast
qed

end

text \<open>A free block leaves its handle.\<close>

lemma take_cooked:
  assumes inv: "rd_inv good content tag z A hs xs s" and h: "h \<in> set hs" and front: "bh_cooked (bh_at h s) = b # rest"
    and s': "s' = upd_bh h (\<lambda>x. remove_node (bk_id (blk_at b s)) (set_lists rest (bh_cooking x) x)) s"
  shows "rd_inv good content tag z A hs (b # xs) s'"
  unfolding s'
proof (rule rd_inv_upd_bh [OF inv])
  have i: "bc_inv good content tag z A hs xs s" and ix: "hd_index tag z s h" using inv h by (simp_all add: rd_inv_def)
  obtain c where c: "content (h_Path (bh_at h s)) = Some c" "hd_fields z c (bh_at h s)"
    "\<And>b. b \<in> set (bh_cooked (bh_at h s)) \<Longrightarrow> b \<notin> pending s \<and> cooked_ok z c (blk_at b s)"
    "\<And>b. b \<in> set (bh_cooking (bh_at h s)) \<Longrightarrow> cooking_ok z c (b \<in> pending s) (blk_at b s)"
    using hd_okE [OF i h] by metis
  let ?f = "\<lambda>x. remove_node (bk_id (blk_at b s)) (set_lists rest (bh_cooking x) x)"
  have fields: "hd_fields z c (?f (bh_at h s))" using c(2) by (simp add: hd_fields_def bc_upd)
  show "bc_inv good content tag z A hs (b # xs) (upd_bh h ?f s)"
    by (rule bc_inv_upd_bh [where ck = rest and cg = "bh_cooking (bh_at h s)", OF i h c(1)])
      (use fields c(3,4) front in \<open>auto simp: bc_upd lent_def\<close>)
  have d: "distinct (lent s h)" using lent_apart(1) [of A hs xs s h] i h by (simp add: bc_inv_def)
  have n: "\<And>k x. map_of (bh_nodes (bh_at h s)) k = Some x \<longleftrightarrow> x \<in> set (lent s h) \<and> bk_id (blk_at x s) = k \<and> k \<noteq> - 1"
    using ix unfolding hd_index_def hd_nodes_def by blast
  have l: "x \<in> set (lent (upd_bh h ?f s) h) \<longleftrightarrow> x \<in> set (lent s h) \<and> x \<noteq> b" for x
    using d front by (auto simp: lent_def bc_upd)
  have bl: "b \<in> set (lent s h)" using front by (simp add: lent_def)
  have nodes: "map_of (bh_nodes (bh_at h (upd_bh h ?f s))) = (map_of (bh_nodes (bh_at h s)))(bk_id (blk_at b s) := None)"
    by (simp add: bc_upd)
  have "map_of (bh_nodes (bh_at h (upd_bh h ?f s))) k = Some x \<longleftrightarrow>
      x \<in> set (lent (upd_bh h ?f s) h) \<and> bk_id (blk_at x s) = k \<and> k \<noteq> - 1" for k x
  proof (cases "k = bk_id (blk_at b s)")
    case True
    have "x = b" if "x \<in> set (lent s h)" "bk_id (blk_at x s) = k" "k \<noteq> - 1"
    proof -
      have "map_of (bh_nodes (bh_at h s)) k = Some x" "map_of (bh_nodes (bh_at h s)) k = Some b"
        using n [of k x] n [of k b] that True bl by simp_all
      then show ?thesis by simp
    qed
    then show ?thesis unfolding nodes l using True by auto
  next
    case False
    then have "map_of (bh_nodes (bh_at h (upd_bh h ?f s))) k = map_of (bh_nodes (bh_at h s)) k" unfolding nodes by simp
    then show ?thesis unfolding l using n [of k x] False by auto
  qed
  then have "hd_nodes (upd_bh h ?f s) h" unfolding hd_nodes_def upd_bh_get(2) by blast
  then show "hd_index tag z (upd_bh h ?f s) h" using ix by (simp add: hd_index_def bc_upd)
qed

lemma trim_cooked_inv:
  assumes "rd_inv good content tag z A hs xs s" "h \<in> set hs"
  shows "rd_inv good content tag z A hs xs (trim_cooked k h s) \<and> (\<forall>x. h_Path (bh_at x (trim_cooked k h s)) = h_Path (bh_at x s)) \<and>
    h_Size (bh_at h (trim_cooked k h s)) = h_Size (bh_at h s)"
  using assms(1)
proof (induction k arbitrary: s)
  case (Suc k)
  show ?case
  proof (cases "bh_cooked (bh_at h s)")
    case Nil
    then show ?thesis using Suc.prems by simp
  next
    case (Cons b rest)
    define s1 where "s1 = upd_bh h (\<lambda>x. remove_node (bk_id (blk_at b s)) (set_lists rest (bh_cooking x) x)) s"
    have r: "rd_inv good content tag z A hs (b # xs) s1" by (rule take_cooked [OF Suc.prems assms(2) Cons s1_def])
    then have i: "bc_inv good content tag z A hs (b # xs) s1" by (simp add: rd_inv_def)
    note g = give_back_inv [OF i]
    have "trim_cooked (Suc k) h s = trim_cooked k h (give_back b s1)" using Cons by (simp add: s1_def)
    moreover have "bh_at x (give_back b s1) = bh_at x s1" for x using g(2) by (simp add: hsame_def)
    moreover have "(\<forall>x. h_Path (bh_at x s1) = h_Path (bh_at x s))" "h_Size (bh_at h s1) = h_Size (bh_at h s)"
      by (simp_all add: s1_def bc_upd)
    ultimately show ?thesis using Suc.IH [OF rd_inv_hsame [OF r g]] by simp
  qed
qed simp

context block_source begin

lemma startPrefetch_inv:
  assumes inv: "rd_inv good content tag z A hs xs s" and h: "h \<in> set hs" and index: "0 \<le> index" "index * int z < 2 ^ 63"
  obtains e s' where "startPrefetch E now h index prefetch s = Some (e, s')" "rd_inv good content tag z A hs xs s'"
    "(\<forall>x. h_Path (bh_at x s') = h_Path (bh_at x s))" "h_Size (bh_at h s') = h_Size (bh_at h s)"
    "e = None \<or> e = Some io_EOF \<or> pool_refs (bc_pool (fst s')) = []"
    "(e = None \<or> e = Some io_EOF) \<and> \<not> prefetch \<and> index * int z < h_Size (bh_at h s) \<and> map_of (bh_nodes (bh_at h s)) index = None \<longrightarrow>
       map_of (bh_nodes (bh_at h s')) index \<noteq> None"
    "h_OptCnt (bh_at h s) \<le> MIN_RANDREAD \<longrightarrow> grows h s s'"
proof (cases "h_OptCnt (bh_at h s) > MIN_RANDREAD")
  case True
  obtain s1 where s1: "(if int (length (bh_cooked (bh_at h s)) + length (bh_cooking (bh_at h s))) > MIN_PREFETCH
      then shrink_buffers E now h s else Some s) = Some s1" "rd_inv good content tag z A hs xs s1"
    "(\<forall>x. h_Path (bh_at x s1) = h_Path (bh_at x s))" "h_Size (bh_at h s1) = h_Size (bh_at h s)"
  proof (cases "int (length (bh_cooked (bh_at h s)) + length (bh_cooking (bh_at h s))) > MIN_PREFETCH")
    case True
    obtain s0 where s0: "recycle_cooking (length (bh_cooking (bh_at h s))) E now h s = Some s0" "rd_inv good content tag z A hs xs s0"
      "(\<forall>x. h_Path (bh_at x s0) = h_Path (bh_at x s))" "h_Size (bh_at h s0) = h_Size (bh_at h s)"
      by (rule recycle_cooking_inv [OF inv h])
    then show ?thesis using that trim_cooked_inv [OF s0(2) h] True by (simp add: shrink_buffers_def)
  qed (use that inv in auto)
  have st: "startPrefetch E now h index prefetch s = fetch_blocks 1 E now h index prefetch s1"
    using True s1(1) by (simp add: startPrefetch_def Let_def)
  obtain e s' where f: "fetch_blocks 1 E now h index prefetch s1 = Some (e, s')" "rd_inv good content tag z A hs xs s'" "grows h s1 s'"
    "e = None \<or> e = Some io_EOF \<or> pool_refs (bc_pool (fst s')) = []"
    "(e = None \<or> e = Some io_EOF) \<and> 0 < (1::nat) \<and> \<not> prefetch \<and> index * int z < h_Size (bh_at h s1) \<and>
       map_of (bh_nodes (bh_at h s1)) index = None \<longrightarrow> has_block h index s'"
    by (rule fetch_blocks_inv [OF s1(2) h index])
  have "map_of (bh_nodes (bh_at h s')) index \<noteq> None"
    if "e = None \<or> e = Some io_EOF" "\<not> prefetch" "index * int z < h_Size (bh_at h s)"
  proof (cases "map_of (bh_nodes (bh_at h s1)) index = None")
    case True
    then have "has_block h index s'" using f(5) that s1(4) by simp
    then show ?thesis by (rule has_block_node [OF f(2) h _ index(1)])
  next
    case False
    then have "s' = s1" using f(1) by (auto simp: numeral_eq_Suc)
    then show ?thesis using False by simp
  qed
  then show ?thesis using that [OF _ f(2)] st f(1,3,4) s1(3,4) True by (auto simp: grows_def)
next
  case False
  define k where "k = nat (bc_prefetch (fst s)) - (length (bh_cooked (bh_at h s)) + length (bh_cooking (bh_at h s)))"
  obtain cnt s1 where s1: "grow_buffers k E h 0 s = (cnt, s1)" "rd_inv good content tag z A hs xs s1" "grows h s s1"
    "bh_nodes (bh_at h s1) = bh_nodes (bh_at h s)"
    by (rule grow_buffers_inv [OF inv h])
  obtain e s' where f: "fetch_blocks (max 1 cnt) E now h index prefetch s1 = Some (e, s')" "rd_inv good content tag z A hs xs s'" "grows h s1 s'"
    "e = None \<or> e = Some io_EOF \<or> pool_refs (bc_pool (fst s')) = []"
    "(e = None \<or> e = Some io_EOF) \<and> 0 < max 1 cnt \<and> \<not> prefetch \<and> index * int z < h_Size (bh_at h s1) \<and>
       map_of (bh_nodes (bh_at h s1)) index = None \<longrightarrow> has_block h index s'"
    by (rule fetch_blocks_inv [OF s1(2) h index])
  have st: "startPrefetch E now h index prefetch s = Some (e, s')"
    using False s1(1) f(1) by (simp add: startPrefetch_def Let_def k_def)
  have g: "grows h s s'" by (rule grows_trans [OF s1(3) f(3)])
  have "map_of (bh_nodes (bh_at h s')) index \<noteq> None"
    if "e = None \<or> e = Some io_EOF" "\<not> prefetch" "index * int z < h_Size (bh_at h s)" "map_of (bh_nodes (bh_at h s)) index = None"
  proof -
    have "has_block h index s'" using f(5) that s1(3,4) by (simp add: grows_def)
    then show ?thesis by (rule has_block_node [OF f(2) h _ index(1)])
  qed
  then show ?thesis using that [OF st f(2)] f(4) g by (auto simp: grows_def)
qed

end

end
