(* ===== verification/Block_Cache_Serving.thy ===== *)
theory Block_Cache_Serving
  imports Block_Cache_Reading
begin

text \<open>
  What a reader of the block cache gets: the block for an offset, the bytes of a range; and what opening
  and releasing a file do to the invariant.
\<close>

section \<open>One block\<close>

lemma mset_removeAll_distinct: "distinct xs \<Longrightarrow> b \<in> set xs \<Longrightarrow> add_mset b (mset (removeAll b xs)) = mset xs"
  by (metis distinct_remove1_removeAll insert_DiffM mset_remove1 set_mset_mset)

lemma rd_inv_add_cooked:
  assumes inv: "rd_inv good content tag z A hs xs s" and h: "h \<in> set hs" and b: "b \<in> set (bh_cooking (bh_at h s))"
    and c: "content (h_Path (bh_at h s)) = Some c" and st: "b \<notin> pending s" "settled z c (blk_at b s)" "bk_state (blk_at b s) = open_chan"
  shows "rd_inv good content tag z A hs xs (addToCooked h b s)" "b \<in> set (lent (addToCooked h b s) h)"
proof -
  have d: "distinct (lent s h)" using lent_apart(1) [of A hs xs s h] inv h by (simp add: rd_inv_def bc_inv_def)
  then have dc: "distinct (bh_cooking (bh_at h s))" and "b \<notin> set (bh_cooked (bh_at h s))" using b by (auto simp: lent_def)
  then have nc: "removeAll b (bh_cooked (bh_at h s)) = bh_cooked (bh_at h s)" by simp
  have e: "addToCooked h b s = upd_bh h (set_lists (bh_cooked (bh_at h s) @ [b]) (removeAll b (bh_cooking (bh_at h s)))) s"
    unfolding addToCooked_def by (rule upd_bh_cong) (simp add: nc)
  show "rd_inv good content tag z A hs xs (addToCooked h b s)"
    unfolding e by (rule rd_inv_lists [OF inv h]) (use mset_removeAll_distinct [OF dc b] c st in \<open>auto simp: lent_def\<close>)
  show "b \<in> set (lent (addToCooked h b s) h)" by (simp add: e lent_def bc_upd)
qed

text \<open>A block as a reader finds it.\<close>

definition served :: "(string \<Rightarrow> string option) \<Rightarrow> nat \<Rightarrow> nat \<Rightarrow> nat \<Rightarrow> 'n bc_state \<Rightarrow> bool" where
  "served content z h b s \<longleftrightarrow> b \<in> set (lent s h) \<and>
     (\<exists>c. content (h_Path (bh_at h s)) = Some c \<and> settled z c (blk_at b s))"

definition same_file :: "nat \<Rightarrow> 'n bc_state \<Rightarrow> 'n bc_state \<Rightarrow> bool" where
  "same_file h s s' \<longleftrightarrow> (\<forall>x. h_Path (bh_at x s') = h_Path (bh_at x s)) \<and> h_Size (bh_at h s') = h_Size (bh_at h s)"

context block_source begin

lemma first_reader_inv:
  assumes inv: "rd_inv good content tag z A hs xs s" and h: "h \<in> set hs" and b: "b \<in> set (bh_cooking (bh_at h s))"
    and c: "content (h_Path (bh_at h s)) = Some c" and st: "b \<notin> pending s" "settled z c (blk_at b s)" "bk_state (blk_at b s) = open_chan"
  obtains s' where "first_reader E now h b s = Some s'" "rd_inv good content tag z A hs xs s'" "same_file h s s'"
    "served content z h b s'" "bk_id (blk_at b s') = bk_id (blk_at b s)"
proof -
  let ?s0 = "upd_blk b (blk_clear BlockFlagDownloading) s"
  have r0: "rd_inv good content tag z A hs xs ?s0"
    by (rule rd_inv_flags [OF inv h]) (use b in \<open>auto simp: lent_def blk_clear_def BlockFlagDownloading_def BlockFlagUploading_def\<close>)
  obtain v where v: "bh_next (bh_at h ?s0) = Some v" "0 \<le> v" "v * int z < 2 ^ 63" by (rule rd_index [OF r0 h])
  obtain s1 where s1: "(if bc_noPrefetch (fst ?s0) \<or> h_OptCnt (bh_at h ?s0) > MIN_RANDREAD then Some ?s0
       else case bh_next (bh_at h ?s0) of
         None \<Rightarrow> None
       | Some v \<Rightarrow>
           if wrap64 (v * bc_blockSize (fst ?s0)) < h_Size (bh_at h ?s0)
           then map_option snd (startPrefetch E now h v True ?s0) else Some ?s0) = Some s1"
    "rd_inv good content tag z A hs xs s1" "grows h ?s0 s1"
  proof (cases "h_OptCnt (bh_at h ?s0) > MIN_RANDREAD")
    case True
    then show ?thesis using that r0 grows_refl [of h ?s0] by simp
  next
    case False
    obtain e s' where "startPrefetch E now h v True ?s0 = Some (e, s')" "rd_inv good content tag z A hs xs s'"
      "h_OptCnt (bh_at h ?s0) \<le> MIN_RANDREAD \<longrightarrow> grows h ?s0 s'"
      by (rule startPrefetch_inv [OF r0 h v(2,3)])
    then show ?thesis using that [of ?s0] that [of s'] r0 grows_refl [of h ?s0] v(1) False
      by (cases "bc_noPrefetch (fst ?s0)"; cases "wrap64 (v * bc_blockSize (fst ?s0)) < h_Size (bh_at h ?s0)") simp_all
  qed
  have b1: "b \<in> set (bh_cooking (bh_at h s1))" "blk_at b s1 = blk_clear BlockFlagDownloading (blk_at b s)" "b \<notin> pending s1"
    "(\<forall>x. h_Path (bh_at x s1) = h_Path (bh_at x s))" "h_Size (bh_at h s1) = h_Size (bh_at h s)"
    using s1(3) b st(1) by (auto simp: grows_def bc_upd pending_def)
  have st1: "settled z c (blk_at b s1)" "bk_state (blk_at b s1) = open_chan" using st by (simp_all add: b1(2) settled_def)
  note add = rd_inv_add_cooked [OF s1(2) h b1(1) _ b1(3) st1]
  have c1: "content (h_Path (bh_at h s1)) = Some c" using c b1(4) by simp
  let ?s2 = "upd_blk b (blk_set BlockFlagSynced) (addToCooked h b s1)"
  have r2: "rd_inv good content tag z A hs xs ?s2"
    by (rule rd_inv_flags [OF add(1) [OF c1] h add(2) [OF c1]])
      (auto simp: blk_set_def BlockFlagSynced_def BlockFlagUploading_def)
  have "first_reader E now h b s = Some ?s2" using s1(1) by (simp add: first_reader_def Let_def)
  moreover have "same_file h s ?s2" using b1 by (simp add: same_file_def bc_upd addToCooked_def)
  moreover have "served content z h b ?s2"
    using add(2) [OF c1] c1 st1 by (simp add: served_def bc_upd addToCooked_def lent_def settled_def)
  moreover have "bk_id (blk_at b ?s2) = bk_id (blk_at b s)" by (simp add: bc_upd addToCooked_def b1(2))
  ultimately show ?thesis using that r2 by blast
qed

lemma read_block_inv:
  assumes inv: "rd_inv good content tag z A hs xs s" and h: "h \<in> set hs" and b: "b \<in> set (lent s h)" and ne: "bk_id (blk_at b s) \<noteq> - 1"
  obtains s' where "read_block E now h b s = Some (Inl b, s')" "rd_inv good content tag z A hs xs s'" "same_file h s s'"
    "served content z h b s'" "bk_id (blk_at b s') = bk_id (blk_at b s)"
proof -
  have i: "bc_inv good content tag z A hs xs s" using inv by (simp add: rd_inv_def)
  obtain c where c: "content (h_Path (bh_at h s)) = Some c" by (rule rd_size [OF inv h])
  obtain v s1 s2 where w: "wait_block E now b s = Some (v, s1)" "unblock_if b v s1 = Some s2"
    "bc_inv good content tag z A hs xs s2" "kept s s2" "b \<notin> pending s2" "settled z c (blk_at b s2)" "bk_state (blk_at b s2) = open_chan"
    "v = None \<or> v = Some BlockStatusDownloaded \<and> b \<in> set (bh_cooking (bh_at h s))"
    by (rule wait_block_done [OF i h b ne c])
  have r2: "rd_inv good content tag z A hs xs s2" by (rule rd_inv_kept [OF inv w(4,3)])
  have heap: "bh_at x s2 = bh_at x s" "bk_id (blk_at b s2) = bk_id (blk_at b s)" for x using w(4) by (simp_all add: kept_def)
  show ?thesis
  proof (cases v)
    case None
    have "read_block E now h b s = Some (Inl b, s2)" using w(1,2) None by (simp add: read_block_def)
    moreover have "served content z h b s2" using b c w(6) heap by (simp add: served_def lent_def)
    ultimately show ?thesis using that r2 heap by (simp add: same_file_def)
  next
    case (Some x)
    then have x: "x = BlockStatusDownloaded" "b \<in> set (bh_cooking (bh_at h s2))" using w(8) heap by simp_all
    obtain s' where s': "first_reader E now h b s2 = Some s'" "rd_inv good content tag z A hs xs s'" "same_file h s2 s'"
      "served content z h b s'" "bk_id (blk_at b s') = bk_id (blk_at b s2)"
      by (rule first_reader_inv [OF r2 h x(2) _ w(5-7)]) (use c heap in simp)
    have "read_block E now h b s = Some (Inl b, s')" using w(1,2) Some x s'(1) by (simp add: read_block_def)
    then show ?thesis using that s' heap by (simp add: same_file_def)
  qed
qed

end

section \<open>Bytes\<close>

lemma rd_inv_below:
  assumes "rd_inv good content tag z A hs xs (bc, n)" "good n'"
  shows "rd_inv good content tag z A hs xs (bc, n')"
proof (rule rd_inv_hsame [OF assms(1)])
  have i: "bc_inv good content tag z A hs xs (bc, n)" using assms(1) by (simp add: rd_inv_def)
  have "pool_ok A hs xs (bc, n') = pool_ok A hs xs (bc, n)" by (rule pool_ok_frame) simp_all
  then show "bc_inv good content tag z A hs xs (bc, n')"
    using assms(2) i by (intro bc_inv_pool [OF i]) (simp_all add: bc_inv_def conf_ok_def)
qed (simp add: hsame_def)

lemma rd_inv_optcnt:
  assumes inv: "rd_inv good content tag z A hs xs s" and h: "h \<in> set hs"
  shows "rd_inv good content tag z A hs xs (upd_bh h (\<lambda>x. x\<lparr>h_OptCnt := f x\<rparr>) s)" (is "rd_inv _ _ _ _ _ _ _ ?s")
proof (rule rd_inv_upd_bh [OF inv])
  have i: "bc_inv good content tag z A hs xs s" and ix: "hd_index tag z s h" using inv h by (simp_all add: rd_inv_def)
  obtain c where c: "content (h_Path (bh_at h s)) = Some c" "hd_fields z c (bh_at h s)"
    "\<And>b. b \<in> set (bh_cooked (bh_at h s)) \<Longrightarrow> b \<notin> pending s \<and> cooked_ok z c (blk_at b s)"
    "\<And>b. b \<in> set (bh_cooking (bh_at h s)) \<Longrightarrow> cooking_ok z c (b \<in> pending s) (blk_at b s)"
    using hd_okE [OF i h] by metis
  show "bc_inv good content tag z A hs xs ?s"
    by (rule bc_inv_upd_bh [where ck = "bh_cooked (bh_at h s)" and cg = "bh_cooking (bh_at h s)", OF i h c(1)])
      (use c(2-4) in \<open>auto simp: bc_upd lent_def hd_fields_def\<close>)
  have "lent ?s h = lent s h" by (simp add: lent_def bc_upd)
  then have "hd_nodes ?s h" using ix unfolding hd_index_def hd_nodes_def by (simp add: bc_upd)
  then show "hd_index tag z ?s h" using ix by (simp add: hd_index_def bc_upd)
qed

lemma count_random_inv:
  assumes inv: "rd_inv good content tag z A hs xs s" and h: "h \<in> set hs"
  obtains s' where "count_random E h s = Some s'" "rd_inv good content tag z A hs xs s'" "same_file h s s'"
    "bh_nodes (bh_at h s') = bh_nodes (bh_at h s)"
proof -
  obtain v where v: "bh_next (bh_at h s) = Some v" by (rule rd_index [OF inv h])
  show ?thesis
  proof (cases "bc_noPrefetch (fst s) \<or> v \<noteq> 0")
    case True
    then have "count_random E h s = Some (upd_bh h (\<lambda>x. x\<lparr>h_OptCnt := wrap64 (h_OptCnt x + 1)\<rparr>) s)"
      using v by (auto simp: count_random_def)
    then show ?thesis using that rd_inv_optcnt [OF inv h] by (simp add: same_file_def bc_upd)
  next
    case False
    then show ?thesis using that inv v by (simp add: count_random_def same_file_def)
  qed
qed

context block_source begin

text \<open>An offset inside the file gets its block, unless the pool is exhausted.\<close>

lemma getBlock_inv:
  assumes inv: "rd_inv good content tag z A hs xs s" and h: "h \<in> set hs" and off: "0 \<le> off" "off < h_Size (bh_at h s)"
  obtains r s' where "getBlock E now h off s = Some (r, s')" "rd_inv good content tag z A hs xs s'" "same_file h s s'"
    "(\<exists>b. r = Inl b \<and> served content z h b s' \<and> bk_id (blk_at b s') = off div int z) \<or>
     (\<exists>e. r = Inr e \<and> e \<noteq> io_EOF \<and> pool_refs (bc_pool (fst s')) = [])"
proof -
  obtain bc n where s: "s = (bc, n)" by (cases s)
  have i: "bc_inv good content tag z A hs xs s" using inv by (simp add: rd_inv_def)
  obtain c where c: "content (h_Path (bh_at h s)) = Some c" "h_Size (bh_at h s) = int (length c)" "int (length c) + int z < 2 ^ 63"
    by (rule rd_size [OF inv h])
  have z: "bc_blockSize (fst s) = int z" "0 < z" "good n" using i by (simp_all add: bc_inv_def conf_ok_def s)
  let ?k = "off div int z"
  have ws: "wrapu64 (h_Size (bh_at h s)) = h_Size (bh_at h s)" using c by (intro wrapu64_id) (simp add: in_uint64_def)
  have "?k * int z = off - off mod int z" by (simp add: minus_mod_eq_div_mult)
  then have k: "0 \<le> ?k" "?k * int z \<le> off" using off(1) z(2) by (simp_all add: pos_imp_zdiv_nonneg_iff)
  then have k2: "?k * int z < 2 ^ 63" "?k * int z < h_Size (bh_at h s)" using off(2) c by simp_all
  show ?thesis
  proof (cases "map_of (bh_nodes (bh_at h s)) ?k")
    case (Some b)
    note nb = node_block [OF inv h Some]
    obtain s' where "read_block E now h b s = Some (Inl b, s')" "rd_inv good content tag z A hs xs s'" "same_file h s s'"
      "served content z h b s'" "bk_id (blk_at b s') = bk_id (blk_at b s)"
      by (rule read_block_inv [OF inv h nb(1)]) (use nb in simp)
    then show ?thesis using that Some nb(2) off ws z(1) by (simp add: getBlock_def getBlockIndex_def)
  next
    case None
    obtain a n' where a: "GetAttr (be_nxt E) now \<lparr>ga_Name = h_Path (bh_at h s), ga_RetrieveMetadata = False\<rparr> n = Some ((Some a, None), n')"
      "good n'" "a_Size a = int (length c)" using source_attr [OF z(3) c(1)] by blast
    have before: "before_fetch E now h off ?k s = Some (Inl None, (bc, n'))"
      using a no_commit [OF inv h, of ?k] off c ws by (simp add: before_fetch_def below_def s)
    have i1: "rd_inv good content tag z A hs xs (bc, n')" by (rule rd_inv_below [OF inv [unfolded s] a(2)])
    obtain s2 where s2: "count_random E h (bc, n') = Some s2" "rd_inv good content tag z A hs xs s2" "same_file h (bc, n') s2"
      "bh_nodes (bh_at h s2) = bh_nodes (bh_at h (bc, n'))"
      by (rule count_random_inv [OF i1 h])
    have s2': "same_file h s s2" "bh_nodes (bh_at h s2) = bh_nodes (bh_at h s)" using s2(3,4) by (simp_all add: s same_file_def)
    obtain e s3 where s3: "startPrefetch E now h ?k False s2 = Some (e, s3)" "rd_inv good content tag z A hs xs s3"
      "(\<forall>x. h_Path (bh_at x s3) = h_Path (bh_at x s2))" "h_Size (bh_at h s3) = h_Size (bh_at h s2)"
      "e = None \<or> e = Some io_EOF \<or> pool_refs (bc_pool (fst s3)) = []"
      "(e = None \<or> e = Some io_EOF) \<and> \<not> False \<and> ?k * int z < h_Size (bh_at h s2) \<and> map_of (bh_nodes (bh_at h s2)) ?k = None \<longrightarrow>
         map_of (bh_nodes (bh_at h s3)) ?k \<noteq> None"
      by (rule startPrefetch_inv [OF s2(2) h k(1) k2(1)])
    have g: "getBlock E now h off s = (if e \<noteq> None \<and> e \<noteq> Some io_EOF then Some (Inr (the e), s3)
        else case map_of (bh_nodes (bh_at h s3)) ?k of
          None \<Rightarrow> Some (Inr (Errorf ''not able to find block immediately after scheduling''), s3)
        | Some b \<Rightarrow> read_block E now h b s3)"
      using None off ws z(1) before s2(1) s3(1) by (simp add: getBlock_def getBlockIndex_def)
    have f3: "same_file h s s3" using s2'(1) s3(3,4) by (simp add: same_file_def)
    show ?thesis
    proof (cases "e = None \<or> e = Some io_EOF")
      case True
      then obtain b where b: "map_of (bh_nodes (bh_at h s3)) ?k = Some b" using s3(6) k2 None s2' by (auto simp: same_file_def)
      note nb = node_block [OF s3(2) h b]
      obtain s' where "read_block E now h b s3 = Some (Inl b, s')" "rd_inv good content tag z A hs xs s'" "same_file h s3 s'"
        "served content z h b s'" "bk_id (blk_at b s') = bk_id (blk_at b s3)"
        by (rule read_block_inv [OF s3(2) h nb(1)]) (use nb in simp)
      then show ?thesis using that [of "Inl b" s'] g True b nb(2) f3 by (auto simp: same_file_def)
    next
      case False
      then obtain x where x: "e = Some x" "x \<noteq> io_EOF" by auto
      then have "getBlock E now h off s = Some (Inr x, s3)" using g by simp
      then show ?thesis using that s3(2,5) f3 x by auto
    qed
  qed
qed

end

text \<open>The part of a served block that a read copies.\<close>

lemma served_bytes:
  assumes inv: "rd_inv good content tag z A hs xs s" and h: "h \<in> set hs" and sv: "served content z h b s" and id: "bk_id (blk_at b s) = off div int z"
    and c: "content (h_Path (bh_at h s)) = Some c" and off: "0 \<le> off" "off < int (length c)"
  defines "bsz \<equiv> getBlockSize (bc_blockSize (fst s)) (wrapu64 (h_Size (bh_at h s))) (blk_at b s)"
  shows "wrapu64 (off - bk_offset (blk_at b s)) = off mod int z" "off mod int z < bsz"
    "take len (drop (nat (off mod int z)) (take (nat bsz) (bk_data (blk_at b s)))) =
      take (min len (nat (bsz - off mod int z))) (drop (nat off) c)" "bsz - off mod int z \<le> int (length c) - off"
proof -
  have i: "bc_inv good content tag z A hs xs s" using inv by (simp add: rd_inv_def)
  have size: "h_Size (bh_at h s) = int (length c)" "int (length c) + int z < 2 ^ 63" using rd_size [OF inv h] c by (metis option.inject)+
  have z: "bc_blockSize (fst s) = int z" "0 < z" "z < 2 ^ 62" "length (bk_data (blk_at b s)) = z" using i by (simp_all add: bc_inv_def conf_ok_def)
  let ?o = "off div int z * int z" and ?m = "off mod int z"
  have st: "settled z c (blk_at b s)" using sv c by (auto simp: served_def)
  then have o: "bk_offset (blk_at b s) = ?o" "?o < int (length c)" using id by (auto simp: settled_def blk_bound_def)
  have m: "0 \<le> ?m" "?m < int z" "?o + ?m = off" "?o \<ge> 0" using z(2) off(1) by (simp_all add: pos_imp_zdiv_nonneg_iff)
  have d: "off - ?o = ?m" by (rule minus_div_mult_eq_mod)
  have "?m < 2 ^ 64" using m(2) z(3) by simp
  then show w: "wrapu64 (off - bk_offset (blk_at b s)) = ?m" unfolding o(1) d using m(1) by (intro wrapu64_id) (simp add: in_uint64_def)
  have "wrapu64 (wrapu64 (int (length c)) - ?o) = int (length c) - ?o"
    using size m(4) o(2) by (simp add: wrapu64_id in_uint64_def)
  then have B: "bsz = min (int z) (int (length c) - ?o)" by (simp add: bsz_def getBlockSize_def z(1) size(1) o(1))
  have "?m < int (length c) - ?o" using d off(2) by linarith
  then show mB: "?m < bsz" using m(2) by (simp add: B)
  have "bsz \<le> int (length c) - ?o" by (simp add: B)
  then show "bsz - ?m \<le> int (length c) - off" using d by linarith
  have nB: "nat bsz = min z (length c - nat ?o)" using m(4) o(2) by (simp add: B nat_diff_distrib' flip: nat_int)
  have full: "take (length c - nat ?o) (bk_data (blk_at b s)) = take z (drop (nat ?o) c)"
    using st by (simp add: settled_def blk_full_def o(1))
  have "take (nat bsz) (bk_data (blk_at b s)) = take (nat bsz) (take (length c - nat ?o) (bk_data (blk_at b s)))"
    by (simp add: nB min_def)
  also have "\<dots> = take (nat bsz) (drop (nat ?o) c)" unfolding full by (simp add: nB min_def)
  finally have t: "take (nat bsz) (bk_data (blk_at b s)) = take (nat bsz) (drop (nat ?o) c)" .
  have no: "nat off = nat ?m + nat ?o" using m by (metis add.commute nat_add_distrib)
  have "nat bsz - nat ?m = nat (bsz - ?m)" using m(1) mB by simp
  then show "take len (drop (nat ?m) (take (nat bsz) (bk_data (blk_at b s)))) = take (min len (nat (bsz - ?m))) (drop (nat off) c)"
    unfolding t no by (simp add: drop_take min.commute)
qed

context block_source begin

text \<open>
  A read returns a prefix of the range: all of it when it reports no error, up to the end of the file when it
  reports the end; a shorter one only when the pool has run out of blocks.
\<close>

lemma read_loop_inv:
  assumes "rd_inv good content tag z A hs xs s" "h \<in> set hs" "content (h_Path (bh_at h s)) = Some c" "0 \<le> off" "off < int (length c)"
  obtains bs e s' where "read_loop E now h off len acc s = Some ((acc @ bs, e), s')" "rd_inv good content tag z A hs xs s'" "same_file h s s'"
    "bs = take (length bs) (drop (nat off) c)"
    "e = None \<and> length bs = len \<or> e = Some io_EOF \<and> int (length bs) = int (length c) - off \<and> length bs \<le> len \<or>
     e \<noteq> None \<and> e \<noteq> Some io_EOF \<and> length bs < len \<and> pool_refs (bc_pool (fst s')) = []"
proof -
  have "\<exists>bs e s'. read_loop E now h off len acc s = Some ((acc @ bs, e), s') \<and> rd_inv good content tag z A hs xs s' \<and> same_file h s s' \<and>
      bs = take (length bs) (drop (nat off) c) \<and>
      (e = None \<and> length bs = len \<or> e = Some io_EOF \<and> int (length bs) = int (length c) - off \<and> length bs \<le> len \<or>
       e \<noteq> None \<and> e \<noteq> Some io_EOF \<and> length bs < len \<and> pool_refs (bc_pool (fst s')) = [])"
    using assms(1,3-5)
  proof (induction len arbitrary: off acc s rule: less_induct)
    case (less len)
    show ?case
    proof (cases "len = 0")
      case True
      then have "read_loop E now h off len acc s = Some ((acc @ [], None), s)" by (subst read_loop.simps) simp
      then show ?thesis using less.prems(1) True by (intro exI [of _ "[]"] exI [of _ None] exI [of _ s]) (simp add: same_file_def)
    next
      case False
      have size: "h_Size (bh_at h s) = int (length c)" "int (length c) + int z < 2 ^ 63"
        using rd_size [OF less.prems(1) assms(2)] less.prems(2) by (metis option.inject)+
      have wo: "wrapu64 off = off" using less.prems(3,4) size(2) by (intro wrapu64_id) (simp add: in_uint64_def)
      obtain r s1 where g: "getBlock E now h off s = Some (r, s1)" "rd_inv good content tag z A hs xs s1" "same_file h s s1"
        "(\<exists>b. r = Inl b \<and> served content z h b s1 \<and> bk_id (blk_at b s1) = off div int z) \<or>
         (\<exists>e. r = Inr e \<and> e \<noteq> io_EOF \<and> pool_refs (bc_pool (fst s1)) = [])"
        by (rule getBlock_inv [OF less.prems(1) assms(2) less.prems(3)]) (use less.prems(4) size in simp)
      from g(4) show ?thesis
      proof (elim disjE exE conjE)
        fix e assume e: "r = Inr e" "e \<noteq> io_EOF" "pool_refs (bc_pool (fst s1)) = []"
        have "read_loop E now h off len acc s = Some ((acc @ [], Some e), s1)" using False g(1) e(1) wo by (subst read_loop.simps) simp
        then show ?thesis using g(2,3) e False by (intro exI [of _ "[]"] exI [of _ "Some e"] exI [of _ s1]) simp
      next
        fix b assume b: "r = Inl b" "served content z h b s1" "bk_id (blk_at b s1) = off div int z"
        have c1: "content (h_Path (bh_at h s1)) = Some c" using less.prems(2) g(3) by (simp add: same_file_def)
        define bsz where "bsz = getBlockSize (bc_blockSize (fst s1)) (wrapu64 (h_Size (bh_at h s1))) (blk_at b s1)"
        note sb = served_bytes [OF g(2) assms(2) b(2,3) c1 less.prems(3,4), folded bsz_def]
        define bs where "bs = take len (drop (nat (off mod int z)) (take (nat bsz) (bk_data (blk_at b s1))))"
        have len: "length bs = min len (nat (bsz - off mod int z))"
          using sb(4) less.prems(3,4) by (simp add: bs_def sb(3) min_def) linarith
        have bs: "bs = take (length bs) (drop (nat off) c)" by (simp add: bs_def sb(3)) (use len bs_def sb(3) in simp)
        have pos: "0 < length bs" "length bs \<le> len" "int (length bs) \<le> int (length c) - off" using len False sb(2,4) by auto
        have s1size: "h_Size (bh_at h s1) = int (length c)" using g(3) size by (simp add: same_file_def)
        have "read_loop E now h off len acc s =
            (if bsz < off mod int z then None
             else if off + int (length bs) \<ge> h_Size (bh_at h s1) then Some ((acc @ bs, Some io_EOF), s1)
             else read_loop E now h (off + int (length bs)) (len - length bs) (acc @ bs) s1)"
          using False by (subst read_loop.simps)
            (simp add: g(1) b(1) wo Let_def sb(1) bsz_def [symmetric] bs_def [symmetric] del: length_take length_drop)
        then have step: "read_loop E now h off len acc s =
            (if off + int (length bs) \<ge> int (length c) then Some ((acc @ bs, Some io_EOF), s1)
             else read_loop E now h (off + int (length bs)) (len - length bs) (acc @ bs) s1)"
          using sb(2) s1size by simp
        show ?thesis
        proof (cases "off + int (length bs) \<ge> int (length c)")
          case True
          then show ?thesis using step g(2,3) bs pos by (intro exI [of _ bs] exI [of _ "Some io_EOF"] exI [of _ s1]) simp
        next
          case more: False
          have lt: "len - length bs < len" using pos False by simp
          have off1: "0 \<le> off + int (length bs)" "off + int (length bs) < int (length c)" using more less.prems(3) by simp_all
          from less.IH [OF lt g(2) c1 off1, where acc = "acc @ bs"] obtain bs' e s' where
            ih: "read_loop E now h (off + int (length bs)) (len - length bs) (acc @ bs) s1 = Some (((acc @ bs) @ bs', e), s')"
            "rd_inv good content tag z A hs xs s'" "same_file h s1 s'" "bs' = take (length bs') (drop (nat (off + int (length bs))) c)"
            "e = None \<and> length bs' = len - length bs \<or> e = Some io_EOF \<and> int (length bs') = int (length c) - (off + int (length bs)) \<and>
              length bs' \<le> len - length bs \<or> e \<noteq> None \<and> e \<noteq> Some io_EOF \<and> length bs' < len - length bs \<and> pool_refs (bc_pool (fst s')) = []"
            by blast
          have n: "nat (off + int (length bs)) = length bs + nat off" using less.prems(3) by (simp add: nat_add_distrib)
          have "bs @ bs' = take (length bs + length bs') (drop (nat off) c)"
            unfolding take_add using bs ih(4) by (simp add: n)
          then have "bs @ bs' = take (length (bs @ bs')) (drop (nat off) c)" unfolding length_append .
          moreover have "same_file h s s'" using g(3) ih(3) by (simp add: same_file_def)
          moreover have "e = None \<and> length (bs @ bs') = len \<or> e = Some io_EOF \<and> int (length (bs @ bs')) = int (length c) - off \<and>
              length (bs @ bs') \<le> len \<or> e \<noteq> None \<and> e \<noteq> Some io_EOF \<and> length (bs @ bs') < len \<and> pool_refs (bc_pool (fst s')) = []"
            using ih(5) pos(2) by (elim disjE) (simp; linarith)+
          moreover have "read_loop E now h off len acc s = Some ((acc @ (bs @ bs'), e), s')" using step more ih(1) by simp
          ultimately show ?thesis using ih(2) by blast
        qed
      qed
    qed
  qed
  then show thesis using that by blast
qed

end

end
