(* ===== verification/Block_Cache_Runs.thy ===== *)
theory Block_Cache_Runs
  imports Block_Cache_Serving
begin

text \<open>
  Opening and releasing files, and runs of clients that open, read and release files through one block
  cache over the loopback storage: what they read, and that no block is lost.
\<close>

section \<open>Opening\<close>

text \<open>A handle that has just been made.\<close>

definition fresh_handle :: "(string \<Rightarrow> string) \<Rightarrow> nat \<Rightarrow> string \<Rightarrow> BcHandle \<Rightarrow> bool" where
  "fresh_handle tag z c x \<longleftrightarrow> h_Buffers x = Some ([], []) \<and> bh_blockList x = Some [] \<and> bh_next x = Some 0 \<and> bh_nodes x = [] \<and>
     h_FObj x = None \<and> \<not> IsSet (h_Flags x) HandleFlagDirty \<and> h_Size x = int (length c) \<and> int (length c) + int z < 2 ^ 63 \<and>
     (bh_etag x = None \<or> bh_etag x = Some (tag (h_Path x)))"

lemma alloc_handle_inv:
  assumes inv: "rd_inv good content tag z A hs xs s" and x: "fresh_handle tag z c x" "content (h_Path x) = Some c"
    and a: "alloc_bc_handle x s = (h, s')"
  shows "rd_inv good content tag z A (h # hs) xs s'" "bh_at h s' = x" "h \<notin> set hs" "h = bc_fresh (fst s)"
    "h' \<in> set hs \<Longrightarrow> bh_at h' s' = bh_at h' s"
proof -
  obtain bc n where s: "s = (bc, n)" by (cases s)
  have i: "bc_inv good content tag z A hs xs s" and ix: "\<And>h. h \<in> set hs \<Longrightarrow> hd_index tag z s h" using inv by (simp_all add: rd_inv_def)
  have inv': "conf_ok z s" "distinct hs" "pool_ok A hs xs s" "work_ok tag hs s" "\<And>h. h \<in> set hs \<Longrightarrow> hd_ok content z s h" "good (snd s)"
    using i by (simp_all add: bc_inv_def)
  have h: "h = bc_fresh bc" and s': "s' = (bc\<lparr>bc_heap := (bc_heap bc)(h := x), bc_fresh := Suc (bc_fresh bc)\<rparr>, n)"
    using a by (auto simp: alloc_bc_handle_def s)
  then show "h = bc_fresh (fst s)" by (simp add: s)
  show new: "h \<notin> set hs" using inv'(5) h by (force simp: hd_ok_def s)
  have get: "h' \<noteq> h \<Longrightarrow> bh_at h' s' = bh_at h' s" "bh_at h s' = x" "blk_at b s' = blk_at b s" "pending s' = pending s"
    "bc_pool (fst s') = bc_pool (fst s)" "bc_work (fst s') = bc_work (fst s)" "snd s' = snd s" "bc_fresh (fst s) \<le> bc_fresh (fst s')"
    "bc_tmpPath (fst s') = bc_tmpPath (fst s)" "bc_blockSize (fst s') = bc_blockSize (fst s)" for h' b
    by (simp_all add: s s' pending_def)
  show "bh_at h s' = x" by (rule get(2))
  show "bh_at h' s' = bh_at h' s" if "h' \<in> set hs" by (rule get(1)) (use that new in blast)
  have lists: "bh_cooked x = []" "bh_cooking x = []" using x(1) by (simp_all add: fresh_handle_def bh_cooked_def bh_cooking_def)
  have "lent s' h' = lent s h'" if "h' \<in> set hs" for h'
  proof -
    have "h' \<noteq> h" using new that by blast
    then show ?thesis using get(1) [of h'] by (simp add: lent_def)
  qed
  then have "concat (map (lent s') hs) = concat (map (lent s) hs)" by (intro arg_cong [where f = concat] map_cong refl)
  moreover have "lent s' h = []" unfolding lent_def get(2) lists by simp
  ultimately have l: "lent_all (h # hs) s' = lent_all hs s" by (simp add: lent_all_def)
  have "pool_ok A (h # hs) xs s'" using inv'(3) unfolding pool_ok_def l get(5) by simp
  moreover have "work_ok tag (h # hs) s'"
    using inv'(4) new get(1) unfolding work_ok_def get(6) item_ok_def by (metis list.set_intros(2))
  moreover have "hd_ok content z s' h'" if "h' \<in> set hs" for h'
    by (rule hd_ok_frame [OF inv'(5) [OF that] get(1) get(8)]) (use that new get(3,4) in auto)
  moreover have "hd_ok content z s' h"
    using x lists by (simp add: hd_ok_def get(2) fresh_handle_def hd_fields_def) (simp add: s' h)
  moreover have "conf_ok z s'" using inv'(1) by (simp add: conf_ok_def get)
  ultimately have "bc_inv good content tag z A (h # hs) xs s'" using inv'(2,6) new by (simp add: bc_inv_def get)
  moreover have "hd_index tag z s' h'" if "h' \<in> set hs" for h'
    by (rule hd_index_frame [OF ix [OF that] get(1)]) (use that new get(3) in auto)
  moreover have "hd_index tag z s' h"
    using x lists by (auto simp: hd_index_def hd_nodes_def lent_def get(2) fresh_handle_def)
  ultimately show "rd_inv good content tag z A (h # hs) xs s'" by (simp add: rd_inv_def)
qed

definition read_only :: "OpenFileOptions \<Rightarrow> bool" where
  "read_only options \<longleftrightarrow> \<not> has_O_TRUNC (of_Flags options) \<and> \<not> has_O_RDWR (of_Flags options) \<and>
     \<not> has_O_APPEND (of_Flags options) \<and> \<not> has_O_WRONLY (of_Flags options)"

context block_source begin

lemma OpenFile_inv:
  assumes inv: "rd_inv good content tag z A hs [] s" and ro: "read_only options"
    and c: "content (of_Name options) = Some c" "int (length c) + int z < 2 ^ 63"
  obtains h s' where "bc_OpenFile E now options s = Some ((Some h, None), s')" "rd_inv good content tag z A (h # hs) [] s'"
    "h_Path (bh_at h s') = of_Name options" "h \<notin> set hs" "\<forall>h' \<in> set hs. h_Path (bh_at h' s') = h_Path (bh_at h' s)"
proof -
  obtain bc n where s: "s = (bc, n)" by (cases s)
  have good: "good n" using inv by (simp add: rd_inv_def bc_inv_def s)
  obtain a n' where a: "GetAttr (be_nxt E) now \<lparr>ga_Name = of_Name options, ga_RetrieveMetadata = False\<rparr> n = Some ((Some a, None), n')"
    "good n'" "a_Size a = int (length c)" "a_ETag a = [] \<or> a_ETag a = tag (of_Name options)"
    using source_attr [OF good c(1)] by blast
  have i1: "rd_inv good content tag z A hs [] (bc, n')" by (rule rd_inv_below [OF inv [unfolded s] a(2)])
  define x where "x = prepareHandleForBlockCache ((new_bc_handle (of_Name options))
    \<lparr>h_Mtime := a_Mtime a, h_Size := a_Size a, bh_etag := (if a_ETag a \<noteq> [] then Some (a_ETag a) else None)\<rparr>)"
  obtain h s2 where al: "alloc_bc_handle x (bc, n') = (h, s2)" by (meson surj_pair)
  have x: "fresh_handle tag z c x" "h_Path x = of_Name options"
    using a(3,4) c(2) by (auto simp: x_def fresh_handle_def prepareHandleForBlockCache_def new_bc_handle_def NewHandle_def Handle.extend_def)
  note ai = alloc_handle_inv [OF i1 x(1) _ al, unfolded x(2), OF c(1)]
  have h: "h \<in> set (h # hs)" by simp
  have size: "h_Size (bh_at h s2) = int (length c)" "bh_nodes (bh_at h s2) = []"
    using ai(2) x(1) by (simp_all add: fresh_handle_def)
  have flags: "open_flags_done E now options h s2 = Some (None, s2)" using ro by (simp add: open_flags_done_def read_only_def Let_def)
  have zero: "(0::int) \<le> 0" "0 * int z < 2 ^ 63" "map_of (bh_nodes (bh_at h s2)) 0 = None" using size(2) by simp_all
  obtain s4 where s4: "(if h_Size (bh_at h s2) \<le> 0 then Some s2
               else if h_Size (bh_at h s2) < wrap64 (bc_blockSize (fst s2)) then map_option snd (refreshBlock E now h 0 False s2)
               else if bc_prefetchOnOpen (fst s2) \<and> \<not> bc_noPrefetch (fst s2) then map_option snd (startPrefetch E now h 0 False s2)
               else Some s2) = Some s4" "rd_inv good content tag z A (h # hs) [] s4" "\<forall>x. h_Path (bh_at x s4) = h_Path (bh_at x s2)"
  proof -
    obtain e1 r1 where r: "refreshBlock E now h 0 False s2 = Some (e1, r1)" "rd_inv good content tag z A (h # hs) [] r1" "grows h s2 r1"
      by (rule refreshBlock_inv [OF ai(1) h zero])
    obtain e2 r2 where p: "startPrefetch E now h 0 False s2 = Some (e2, r2)" "rd_inv good content tag z A (h # hs) [] r2"
      "\<forall>x. h_Path (bh_at x r2) = h_Path (bh_at x s2)"
      by (rule startPrefetch_inv [OF ai(1) h zero(1,2)])
    have rp: "\<forall>x. h_Path (bh_at x r1) = h_Path (bh_at x s2)" using r(3) by (simp add: grows_def)
    show ?thesis
    proof (cases "0 < h_Size (bh_at h s2) \<and> (h_Size (bh_at h s2) < wrap64 (bc_blockSize (fst s2)) \<or> bc_prefetchOnOpen (fst s2) \<and> \<not> bc_noPrefetch (fst s2))")
      case False
      then show ?thesis by (intro that [of s2] ai(1)) auto
    next
      case True
      show ?thesis
      proof (cases "h_Size (bh_at h s2) < wrap64 (bc_blockSize (fst s2))")
        case small: True
        show ?thesis by (rule that [of r1, OF _ r(2) rp]) (use True small r(1) in simp)
      next
        case False
        show ?thesis by (rule that [of r2, OF _ p(2,3)]) (use True False p(1) in simp)
      qed
    qed
  qed
  have "bc_OpenFile E now options s = Some ((Some h, None), s4)"
    using a(1) al flags s4(1) by (simp add: bc_OpenFile_def below_def s x_def [symmetric])
  moreover have "h_Path (bh_at h' s4) = h_Path (bh_at h' s)" if "h' \<in> set hs" for h'
    using s4(3) ai(5) [OF that] by (simp add: s)
  ultimately show ?thesis using that s4(2,3) ai(2,3) x(2) by simp
qed

end

section \<open>Releasing\<close>

lemma mset_concat_map_remove1: "h \<in> set hs \<Longrightarrow> mset (concat (map f (remove1 h hs))) + mset (f h) = mset (concat (map f hs))"
  by (induction hs) (auto simp: ac_simps)

text \<open>While a handle is released the others are as they were.\<close>

definition rel_inv ::
  "('n \<Rightarrow> bool) \<Rightarrow> (string \<Rightarrow> string option) \<Rightarrow> (string \<Rightarrow> string) \<Rightarrow> nat \<Rightarrow> nat set \<Rightarrow> nat list \<Rightarrow> nat \<Rightarrow> nat list \<Rightarrow> 'n bc_state \<Rightarrow> bool" where
  "rel_inv good content tag z A hs h xs s \<longleftrightarrow> bc_inv good content tag z A hs xs s \<and> (\<forall>h' \<in> set hs. h' \<noteq> h \<longrightarrow> hd_index tag z s h')"

lemma rel_inv_upd_bh:
  assumes "rel_inv good content tag z A hs h xs s" "bc_inv good content tag z A hs xs' (upd_bh h f s)"
  shows "rel_inv good content tag z A hs h xs' (upd_bh h f s)"
proof -
  have "hd_index tag z (upd_bh h f s) h'" if "h' \<in> set hs" "h' \<noteq> h" for h'
  proof -
    have "hd_index tag z s h'" using assms(1) that by (simp add: rel_inv_def)
    then show ?thesis by (rule hd_index_frame) (use that in \<open>simp_all add: bc_upd\<close>)
  qed
  then show ?thesis using assms(2) by (simp add: rel_inv_def)
qed

lemma rel_inv_hsame:
  "rel_inv good content tag z A hs h xs s \<Longrightarrow> bc_inv good content tag z A hs xs' s' \<Longrightarrow> hsame hs s s' \<Longrightarrow>
    rel_inv good content tag z A hs h xs' s'"
  using hd_index_hsame [of hs s s'] by (simp add: rel_inv_def)

lemma rel_inv_kept:
  "rel_inv good content tag z A hs h xs s \<Longrightarrow> bc_inv good content tag z A hs xs s' \<Longrightarrow> kept s s' \<Longrightarrow>
    rel_inv good content tag z A hs h xs s'"
  using hd_index_kept [of s s'] by (simp add: rel_inv_def)

text \<open>A block that nobody waits for leaves its handle and goes back.\<close>

lemma release_one:
  assumes inv: "rel_inv good content tag z A hs h xs s" and h: "h \<in> set hs" and b: "b \<notin> pending s"
    and lists: "mset (lent s h) = add_mset b (mset (ck @ cg))" "set ck \<subseteq> set (bh_cooked (bh_at h s))"
      "set cg \<subseteq> set (bh_cooking (bh_at h s))"
  shows "rel_inv good content tag z A hs h xs (give_back b (upd_bh h (set_lists ck cg) s))" (is "rel_inv _ _ _ _ _ _ _ _ ?s")
    "bh_cooked (bh_at h (give_back b (upd_bh h (set_lists ck cg) s))) = ck" "bh_cooking (bh_at h (give_back b (upd_bh h (set_lists ck cg) s))) = cg"
    "h_Path (bh_at x (give_back b (upd_bh h (set_lists ck cg) s))) = h_Path (bh_at x s)"
proof -
  have i: "bc_inv good content tag z A hs xs s" using inv by (simp add: rel_inv_def)
  obtain c where c: "content (h_Path (bh_at h s)) = Some c" "hd_fields z c (bh_at h s)"
    "\<And>b. b \<in> set (bh_cooked (bh_at h s)) \<Longrightarrow> b \<notin> pending s \<and> cooked_ok z c (blk_at b s)"
    "\<And>b. b \<in> set (bh_cooking (bh_at h s)) \<Longrightarrow> cooking_ok z c (b \<in> pending s) (blk_at b s)"
    using hd_okE [OF i h] by metis
  let ?u = "upd_bh h (set_lists ck cg) s"
  have sets: "set (lent s h) = insert b (set ck \<union> set cg)" using arg_cong [OF lists(1), of set_mset] by simp
  have cooked: "x \<notin> pending s \<and> cooked_ok z c (blk_at x s)" if "x \<in> set ck" for x using c(3) lists(2) that by blast
  have stay: "x \<in> set cg" if x: "x \<in> pending s" "x \<in> set (bh_cooking (bh_at h s))" for x
  proof -
    have "x \<in> insert b (set ck \<union> set cg)" using x(2) sets by (auto simp: lent_def)
    then show ?thesis using x(1) b cooked by blast
  qed
  have u: "bc_inv good content tag z A hs (b # xs) ?u"
    by (rule bc_inv_upd_bh [where ck = ck and cg = cg, OF i h c(1)])
      (use c(2,4) cooked stay lists in \<open>auto simp: bc_upd\<close>)
  note g = give_back_inv [OF u]
  show "rel_inv good content tag z A hs h xs ?s" by (rule rel_inv_hsame [OF rel_inv_upd_bh [OF inv u] g])
  have heap: "bc_heap (fst ?s) = bc_heap (fst ?u)" using g(2) by (simp add: hsame_def)
  show "bh_cooked (bh_at h ?s) = ck" "bh_cooking (bh_at h ?s) = cg" "h_Path (bh_at x ?s) = h_Path (bh_at x s)"
    by (simp_all add: heap bc_upd)
qed

lemma give_back_chan: "give_back b (upd_bh h f (upd_blk b (\<lambda>x. x\<lparr>bk_state := ch\<rparr>) s)) = give_back b (upd_bh h f s)"
  by (cases s) (simp add: give_back_def upd_bh_def upd_blk_def upd_pool_def blk_ReUse_def Let_def)

lemma release_cooked_inv:
  assumes "rel_inv good content tag z A hs h xs s" "h \<in> set hs" "bh_cooking (bh_at h s) = []"
  shows "rel_inv good content tag z A hs h xs (release_cooked (length (bh_cooked (bh_at h s))) h s) \<and>
    lent (release_cooked (length (bh_cooked (bh_at h s))) h s) h = [] \<and>
    (\<forall>x. h_Path (bh_at x (release_cooked (length (bh_cooked (bh_at h s))) h s)) = h_Path (bh_at x s))"
  using assms
proof (induction "length (bh_cooked (bh_at h s))" arbitrary: s)
  case 0
  then show ?case by (simp add: lent_def)
next
  case (Suc n)
  then obtain b rest where cons: "bh_cooked (bh_at h s) = b # rest" by (metis length_Suc_conv)
  have i: "bc_inv good content tag z A hs xs s" using Suc.prems by (simp add: rel_inv_def)
  have b: "b \<notin> pending s" using hd_okE [OF i Suc.prems(2)] cons by (metis list.set_intros(1))
  let ?s = "give_back b (upd_bh h (set_lists rest []) s)"
  have m: "mset (lent s h) = add_mset b (mset (rest @ []))" "set rest \<subseteq> set (bh_cooked (bh_at h s))"
    "set [] \<subseteq> set (bh_cooking (bh_at h s))" using cons Suc.prems(3) by (auto simp: lent_def)
  note one = release_one [OF Suc.prems(1,2) b m]
  have e: "upd_bh h (\<lambda>x. set_lists rest (bh_cooking x) x) s = upd_bh h (set_lists rest []) s"
    by (rule upd_bh_cong) (simp add: Suc.prems(3))
  have n: "n = length (bh_cooked (bh_at h ?s))" using Suc.hyps(2) cons one(2) by simp
  have "release_cooked (length (bh_cooked (bh_at h s))) h s = release_cooked (length (bh_cooked (bh_at h ?s))) h ?s"
    using cons e n Suc.hyps(2) by simp
  then show ?case using Suc.hyps(1) [OF n one(1) Suc.prems(2) one(3)] one(4) by simp
qed

context block_source begin

lemma release_cooking_inv:
  assumes "rel_inv good content tag z A hs h xs s" "h \<in> set hs"
  shows "\<exists>s'. release_cooking (length (bh_cooking (bh_at h s))) E now h s = Some s' \<and> rel_inv good content tag z A hs h xs s' \<and>
    bh_cooking (bh_at h s') = [] \<and> (\<forall>x. h_Path (bh_at x s') = h_Path (bh_at x s))"
  using assms
proof (induction "length (bh_cooking (bh_at h s))" arbitrary: s)
  case 0
  then show ?case by simp
next
  case (Suc n)
  then obtain b rest where cons: "bh_cooking (bh_at h s) = b # rest" by (metis length_Suc_conv)
  have i: "bc_inv good content tag z A hs xs s" using Suc.prems by (simp add: rel_inv_def)
  obtain c where c: "content (h_Path (bh_at h s)) = Some c" "cooking_ok z c (b \<in> pending s) (blk_at b s)"
    using hd_okE [OF i Suc.prems(2)] cons by (metis list.set_intros(1))
  have ne: "bk_id (blk_at b s) \<noteq> - 1" using c(2) by (auto simp: cooking_ok_def blk_bound_def)
  have bl: "b \<in> set (lent s h)" using cons by (simp add: lent_def)
  obtain v s1 s2 where w: "wait_block E now b s = Some (v, s1)" "bc_inv good content tag z A hs xs s2" "kept s s2" "b \<notin> pending s2"
    "\<exists>ch. s2 = upd_blk b (\<lambda>x. x\<lparr>bk_state := ch\<rparr>) s1"
    using wait_block_done [OF i Suc.prems(2) bl ne c(1)] by metis
  have r2: "rel_inv good content tag z A hs h xs s2" by (rule rel_inv_kept [OF Suc.prems(1) w(2,3)])
  have heap: "bh_at x s2 = bh_at x s" for x using w(3) by (simp add: kept_def)
  let ?ck = "bh_cooked (bh_at h s)"
  let ?s = "give_back b (upd_bh h (set_lists ?ck rest) s2)"
  have m: "mset (lent s2 h) = add_mset b (mset (?ck @ rest))" "set ?ck \<subseteq> set (bh_cooked (bh_at h s2))"
    "set rest \<subseteq> set (bh_cooking (bh_at h s2))" using cons heap by (auto simp: lent_def)
  note one = release_one [OF r2 Suc.prems(2) w(4) m]
  obtain ch where ch: "s2 = upd_blk b (\<lambda>x. x\<lparr>bk_state := ch\<rparr>) s1" using w(5) by blast
  have "upd_bh h (\<lambda>x. set_lists (bh_cooked x) rest x) s1 = upd_bh h (set_lists ?ck rest) s1"
    by (rule upd_bh_cong) (use heap ch in \<open>simp add: bc_upd\<close>)
  then have e: "give_back b (upd_bh h (\<lambda>x. set_lists (bh_cooked x) rest x) s1) = ?s" unfolding ch give_back_chan by simp
  have n: "n = length (bh_cooking (bh_at h ?s))" using Suc.hyps(2) cons one(3) by simp
  have "release_cooking (length (bh_cooking (bh_at h s))) E now h s = release_cooking (length (bh_cooking (bh_at h ?s))) E now h ?s"
    using cons e n Suc.hyps(2) w(1) by simp
  then show ?case using Suc.hyps(1) [OF n one(1) Suc.prems(2)] one(4) heap by simp
qed

end

text \<open>A handle without blocks can be forgotten.\<close>

lemma forget_handle:
  assumes inv: "rel_inv good content tag z A hs h [] s" and h: "h \<in> set hs" and l: "lent s h = []"
  shows "rd_inv good content tag z A (remove1 h hs) [] (upd_bh h (\<lambda>x. x\<lparr>h_Buffers := None\<rparr>) s)" (is "rd_inv _ _ _ _ _ ?hs _ ?s")
proof -
  have i: "bc_inv good content tag z A hs [] s" and ix: "\<And>h'. h' \<in> set hs \<Longrightarrow> h' \<noteq> h \<Longrightarrow> hd_index tag z s h'"
    using inv by (simp_all add: rel_inv_def)
  have inv': "conf_ok z s" "distinct hs" "pool_ok A hs [] s" "work_ok tag hs s" "\<And>h. h \<in> set hs \<Longrightarrow> hd_ok content z s h" "good (snd s)"
    using i by (simp_all add: bc_inv_def)
  have hs: "set ?hs = set hs - {h}" "distinct ?hs" using inv'(2) by (simp_all add: set_remove1_eq)
  have get: "x \<noteq> h \<Longrightarrow> bh_at x ?s = bh_at x s" "pending ?s = pending s" for x by (simp_all add: bc_upd pending_def)
  have "lent ?s h = []" by (simp add: lent_def bc_upd bh_cooked_def bh_cooking_def)
  moreover have "x \<noteq> h \<Longrightarrow> lent ?s x = lent s x" for x by (simp add: lent_def get)
  ultimately have ls: "lent ?s = lent s" using l by (metis ext)
  have "mset (lent_all ?hs ?s) + mset (lent s h) = mset (lent_all hs s)"
    using h by (simp add: lent_all_def ls mset_concat_map_remove1)
  then have m: "mset (lent_all ?hs ?s) = mset (lent_all hs s)" using l by simp
  have "pool_ok A ?hs [] ?s"
    using inv'(3) pool_inv_perm [OF _ m] mset_eq_setD [OF m] by (simp add: pool_ok_def bc_upd del: set_lent_all)
  moreover have "work_ok tag ?hs ?s"
  proof -
    have "item_ok tag ?hs ?s w" if w: "w \<in> set (bc_work (fst s))" for w
    proof -
      have ok: "item_ok tag hs s w" using inv'(4) w by (simp add: work_ok_def)
      then have "wi_handle w \<noteq> h" using l by (auto simp: item_ok_def lent_def)
      then show ?thesis using ok hs(1) get(1) by (simp add: item_ok_def)
    qed
    then show ?thesis using inv'(4) by (simp add: work_ok_def bc_upd)
  qed
  moreover have "hd_ok content z ?s h'" if "h' \<in> set ?hs" for h'
    by (rule hd_ok_frame [of content z s]) (use inv'(5) that hs(1) get in \<open>auto simp: bc_upd\<close>)
  moreover have "hd_index tag z ?s h'" if "h' \<in> set ?hs" for h'
    by (rule hd_index_frame [of tag z s]) (use ix that hs(1) get in \<open>auto simp: bc_upd\<close>)
  moreover have "conf_ok z ?s" using inv'(1) by (simp add: conf_ok_def bc_upd)
  ultimately show ?thesis using inv'(6) hs(2) by (simp add: rd_inv_def bc_inv_def bc_upd)
qed

context block_source begin

lemma ReleaseFile_inv:
  assumes inv: "rd_inv good content tag z A hs [] s" and h: "h \<in> set hs"
  obtains s' where "bc_ReleaseFile E now h s = Some (None, s')" "rd_inv good content tag z A (remove1 h hs) [] s'"
    "\<forall>x. h_Path (bh_at x s') = h_Path (bh_at x s)"
proof -
  have i: "bc_inv good content tag z A hs [] s" using inv by (simp add: rd_inv_def)
  obtain c where c: "content (h_Path (bh_at h s)) = Some c" "hd_fields z c (bh_at h s)"
    "\<And>b. b \<in> set (bh_cooked (bh_at h s)) \<Longrightarrow> b \<notin> pending s \<and> cooked_ok z c (blk_at b s)"
    "\<And>b. b \<in> set (bh_cooking (bh_at h s)) \<Longrightarrow> cooking_ok z c (b \<in> pending s) (blk_at b s)"
    using hd_okE [OF i h] by metis
  let ?s = "upd_bh h (\<lambda>x. x\<lparr>h_values := [], bh_blockList := None, bh_next := None, bh_nodes := [], bh_etag := None\<rparr>) s"
  have lists: "bh_cooked (bh_at h ?s) = bh_cooked (bh_at h s)" "bh_cooking (bh_at h ?s) = bh_cooking (bh_at h s)"
    by (simp_all add: bc_upd bh_cooked_def bh_cooking_def)
  have "bc_inv good content tag z A hs [] ?s"
    by (rule bc_inv_upd_bh [where ck = "bh_cooked (bh_at h s)" and cg = "bh_cooking (bh_at h s)", OF i h c(1)])
      (use c(2-4) in \<open>auto simp: hd_fields_def bh_cooked_def bh_cooking_def lent_def\<close>)
  moreover have "rel_inv good content tag z A hs h [] s" using inv by (simp add: rd_inv_def rel_inv_def)
  ultimately have r: "rel_inv good content tag z A hs h [] ?s" by (intro rel_inv_upd_bh)
  obtain s1 where s1: "release_cooking (length (bh_cooking (bh_at h ?s))) E now h ?s = Some s1" "rel_inv good content tag z A hs h [] s1"
    "bh_cooking (bh_at h s1) = []" "\<forall>x. h_Path (bh_at x s1) = h_Path (bh_at x ?s)"
    using release_cooking_inv [OF r h] by blast
  define s2 where "s2 = release_cooked (length (bh_cooked (bh_at h s1))) h s1"
  have s2: "rel_inv good content tag z A hs h [] s2" "lent s2 h = []" "\<forall>x. h_Path (bh_at x s2) = h_Path (bh_at x s1)"
    using release_cooked_inv [OF s1(2) h s1(3)] by (simp_all add: s2_def)
  let ?s3 = "upd_bh h (\<lambda>x. x\<lparr>h_Buffers := None\<rparr>) s2"
  have "release_buffers E now h s = Some ?s3" using s1(1) by (simp add: release_buffers_def Let_def s2_def)
  moreover have "\<not> bh_Dirty (bh_at h s)" using c(2) by (simp add: hd_fields_def)
  ultimately have "bc_ReleaseFile E now h s = Some (None, ?s3)" by (simp add: bc_ReleaseFile_def bc_releaseFileInternal_def)
  moreover have "h_Path (bh_at x ?s3) = h_Path (bh_at x s)" for x using s2(3) s1(4) by (simp add: bc_upd)
  ultimately show ?thesis using that forget_handle [OF s2(1) h s2(2)] by blast
qed

end

section \<open>Runs of readers\<close>

text \<open>
  Clients open files to read, read ranges through the handles they were given, and release them. The state
  has the handles with their names.
\<close>

inductive rd_reach :: "'n bc_env \<Rightarrow> (string \<Rightarrow> string option) \<Rightarrow> 'n bc_state \<Rightarrow> (nat \<times> string) list \<Rightarrow> 'n bc_state \<Rightarrow> bool"
  for E content s0 where
  rd_start: "rd_reach E content s0 [] s0"
| rd_open: "rd_reach E content s0 hs s \<Longrightarrow> read_only options \<Longrightarrow> content (of_Name options) \<noteq> None \<Longrightarrow>
    bc_OpenFile E now options s = Some ((Some h, e), s') \<Longrightarrow> rd_reach E content s0 ((h, of_Name options) # hs) s'"
| rd_read: "rd_reach E content s0 hs s \<Longrightarrow> (h, p) \<in> set hs \<Longrightarrow> 0 \<le> off \<Longrightarrow>
    bc_ReadInBuffer E now h len off s = Some (r, s') \<Longrightarrow> rd_reach E content s0 hs s'"
| rd_close: "rd_reach E content s0 hs s \<Longrightarrow> (h, p) \<in> set hs \<Longrightarrow> bc_ReleaseFile E now h s = Some (e, s') \<Longrightarrow>
    rd_reach E content s0 (remove1 (h, p) hs) s'"

definition rd_ok :: "('n \<Rightarrow> bool) \<Rightarrow> (string \<Rightarrow> string option) \<Rightarrow> (string \<Rightarrow> string) \<Rightarrow> nat \<Rightarrow> nat set \<Rightarrow> (nat \<times> string) list \<Rightarrow> 'n bc_state \<Rightarrow> bool" where
  "rd_ok good content tag z A hs s \<longleftrightarrow> rd_inv good content tag z A (map fst hs) [] s \<and>
     (\<forall>(h, p) \<in> set hs. h_Path (bh_at h s) = p \<and> content p \<noteq> None)"

text \<open>What a read may return: the range, as far as the file goes, or less of it when the pool is exhausted.\<close>

definition read_result :: "string \<Rightarrow> int \<Rightarrow> nat \<Rightarrow> string \<times> err \<Rightarrow> 'n bc_state \<Rightarrow> bool" where
  "read_result c off len = (\<lambda>(bs, e) s.
     e = None \<and> bs = take len (drop (nat off) c) \<and> length bs = len \<or>
     e = Some io_EOF \<and> bs = take len (drop (nat off) c) \<and> int (length c) \<le> off + int (length bs) \<or>
     e \<noteq> None \<and> e \<noteq> Some io_EOF \<and> prefix bs (take len (drop (nat off) c)) \<and> pool_refs (bc_pool (fst s)) = [])"

context block_source begin

lemma ReadInBuffer_inv:
  assumes inv: "rd_inv good content tag z A hs [] s" and h: "h \<in> set hs" and c: "content (h_Path (bh_at h s)) = Some c" and off: "0 \<le> off"
  obtains r s' where "bc_ReadInBuffer E now h len off s = Some (r, s')" "rd_inv good content tag z A hs [] s'"
    "\<forall>x. h_Path (bh_at x s') = h_Path (bh_at x s)" "read_result c off len r s'"
proof -
  have size: "h_Size (bh_at h s) = int (length c)" using rd_size [OF inv h] c by (metis option.inject)
  show ?thesis
  proof (cases "off < int (length c)")
    case False
    then have "bc_ReadInBuffer E now h len off s = Some (([], Some io_EOF), s)" by (simp add: bc_ReadInBuffer_def size)
    then show ?thesis using that inv False by (simp add: read_result_def)
  next
    case True
    obtain bs e s' where r: "read_loop E now h off len [] s = Some (([] @ bs, e), s')" "rd_inv good content tag z A hs [] s'" "same_file h s s'"
      "bs = take (length bs) (drop (nat off) c)"
      "e = None \<and> length bs = len \<or> e = Some io_EOF \<and> int (length bs) = int (length c) - off \<and> length bs \<le> len \<or>
       e \<noteq> None \<and> e \<noteq> Some io_EOF \<and> length bs < len \<and> pool_refs (bc_pool (fst s')) = []"
      by (rule read_loop_inv [OF inv h c off True])
    have "bc_ReadInBuffer E now h len off s = Some ((bs, e), s')" using r(1) True by (simp add: bc_ReadInBuffer_def size)
    moreover have "read_result c off len (bs, e) s'"
      using r(5)
    proof (elim disjE conjE)
      assume "e = None" "length bs = len"
      then show ?thesis using r(4) by (auto simp: read_result_def)
    next
      assume e: "e = Some io_EOF" "int (length bs) = int (length c) - off" "length bs \<le> len"
      then have "take len (drop (nat off) c) = drop (nat off) c" "bs = drop (nat off) c" using r(4) off by auto
      then show ?thesis using e by (simp add: read_result_def)
    next
      assume e: "e \<noteq> None" "e \<noteq> Some io_EOF" "length bs < len" "pool_refs (bc_pool (fst s')) = []"
      have "take (length bs) (drop (nat off) c) = take (length bs) (take len (drop (nat off) c))" using e(3) by simp
      then have "prefix (take (length bs) (drop (nat off) c)) (take len (drop (nat off) c))" by (metis take_is_prefix)
      then show ?thesis using e r(4) by (auto simp: read_result_def)
    qed
    ultimately show ?thesis using that r(2,3) by (simp add: same_file_def)
  qed
qed

lemma rd_reach_ok:
  assumes "rd_reach E content s0 hs s" "rd_ok good content tag z A [] s0"
    and fit: "\<And>p c. content p = Some c \<Longrightarrow> int (length c) + int z < 2 ^ 63"
  shows "rd_ok good content tag z A hs s"
  using assms(1)
proof induction
  case rd_start
  then show ?case using assms(2) .
next
  case (rd_open hs s options now h e s')
  then have inv: "rd_inv good content tag z A (map fst hs) [] s" by (simp add: rd_ok_def)
  obtain c where c: "content (of_Name options) = Some c" using rd_open.hyps(3) by blast
  obtain h1 s1 where o: "bc_OpenFile E now options s = Some ((Some h1, None), s1)" "rd_inv good content tag z A (h1 # map fst hs) [] s1"
    "h_Path (bh_at h1 s1) = of_Name options" "h1 \<notin> set (map fst hs)" "\<forall>h' \<in> set (map fst hs). h_Path (bh_at h' s1) = h_Path (bh_at h' s)"
    by (rule OpenFile_inv [OF inv rd_open.hyps(2) c fit [OF c], where now = now])
  then have "h = h1" "s' = s1" using rd_open.hyps(4) by simp_all
  then show ?case using o rd_open.IH c by (force simp: rd_ok_def)
next
  case (rd_read hs s h p off now len r s')
  then have inv: "rd_inv good content tag z A (map fst hs) [] s" "h \<in> set (map fst hs)" "h_Path (bh_at h s) = p" "content p \<noteq> None"
    by (force simp: rd_ok_def)+
  then obtain c where c: "content (h_Path (bh_at h s)) = Some c" by blast
  obtain r1 s1 where "bc_ReadInBuffer E now h len off s = Some (r1, s1)" "rd_inv good content tag z A (map fst hs) [] s1"
    "\<forall>x. h_Path (bh_at x s1) = h_Path (bh_at x s)" "read_result c off len r1 s1"
    by (rule ReadInBuffer_inv [OF inv(1,2) c rd_read.hyps(3), where now = now and len = len])
  then show ?case using rd_read.hyps(4) rd_read.IH by (auto simp: rd_ok_def)
next
  case (rd_close hs s h p now e s')
  then have inv: "rd_inv good content tag z A (map fst hs) [] s" "h \<in> set (map fst hs)" by (force simp: rd_ok_def)+
  obtain s1 where s1: "bc_ReleaseFile E now h s = Some (None, s1)" "rd_inv good content tag z A (remove1 h (map fst hs)) [] s1"
    "\<forall>x. h_Path (bh_at x s1) = h_Path (bh_at x s)"
    by (rule ReleaseFile_inv [OF inv, where now = now])
  have "distinct (map fst hs)" using inv(1) by (simp add: rd_inv_def bc_inv_def)
  then have "map fst (remove1 (h, p) hs) = remove1 h (map fst hs)" using rd_close.hyps(2)
    by (induction hs) (auto simp: image_iff)
  then show ?case using s1 rd_close.hyps(3) rd_close.IH set_remove1_subset [of "(h, p)" hs] by (auto simp: rd_ok_def)
qed

end

end
