(* ===== verification/Block_Cache_Config.thy ===== *)
theory Block_Cache_Config
  imports Block_Cache_Files
begin

text \<open>
  Configuring, starting and stopping the block cache (\<open>component/block_cache/block_cache.go\<close>,
  \<open>newThreadPool\<close> of \<open>threadpool.go\<close>). The values of the configuration file, the number of processors and the
  memory of the machine are arguments; a key that is not set is \<open>None\<close>.
\<close>

section \<open>Configuration\<close>

record BlockCacheOptions =
  bo_BlockSize :: "rat option"
  bo_MemSize :: "int option"
  bo_TmpPath :: string
  bo_DiskSize :: "int option"
  bo_DiskTimeout :: "int option"
  bo_PrefetchCount :: "int option"
  bo_Workers :: "int option"
  bo_PrefetchOnOpen :: bool
  bo_Consistency :: bool

text \<open>
  The section of the component, the other keys it reads, \<open>common.ExpandPath\<close>, what the machine has, and
  whether the library can make the eviction policy of the disk copies.
\<close>

record bc_config =
  bf_section :: "error + BlockCacheOptions"
  bf_lazyWrite :: "error + bool"
  bf_mountPath :: "error + string"
  bf_expand :: "string \<Rightarrow> string"
  bf_NumCPU :: int
  bf_FreeRam :: "error + int"
  bf_AvailFree :: "string \<Rightarrow> error + int"
  bf_tlru :: err

definition bc_MB :: int where "bc_MB = 1048576"
definition bc_defaultBlockSize :: int where "bc_defaultBlockSize = 16"
definition bc_defaultTimeout :: int where "bc_defaultTimeout = 120"

text \<open>A float as a \<open>uint64\<close>: cut towards zero.\<close>

definition uint64_of :: "rat \<Rightarrow> int" where
  "uint64_of x = wrapu64 (if x < 0 then - floor (- x) else floor x)"

definition bc_getDefaultDiskSize :: "bc_config \<Rightarrow> string \<Rightarrow> int" where
  "bc_getDefaultDiskSize cfg p =
     (case bf_AvailFree cfg p of Inl e \<Rightarrow> 4192 * bc_MB | Inr bavail \<Rightarrow> uint64_of (8 / 10 * of_int bavail * 4096))"

definition bc_getDefaultMemSize :: "bc_config \<Rightarrow> int" where
  "bc_getDefaultMemSize cfg = (case bf_FreeRam cfg of Inl e \<Rightarrow> 4192 * bc_MB | Inr ram \<Rightarrow> uint64_of (8 / 10 * of_int ram))"

definition bc_config_error :: "string \<Rightarrow> err" where
  "bc_config_error m = Some (Errorf (''config error in block_cache '' @ m))"

text \<open>The sizes and the default of the prefetch count.\<close>

definition bc_configure_sizes :: "bc_config \<Rightarrow> BlockCacheOptions \<Rightarrow> BlockCache \<Rightarrow> BlockCache" where
  "bc_configure_sizes cfg conf bc =
     (let blockSize = (case bo_BlockSize conf of Some mb \<Rightarrow> uint64_of (mb * of_int bc_MB) | None \<Rightarrow> bc_defaultBlockSize * bc_MB);
          memSize = (case bo_MemSize conf of Some mb \<Rightarrow> wrapu64 (mb * bc_MB) | None \<Rightarrow> bc_getDefaultMemSize cfg);
          prefetch = max (MIN_PREFETCH * 2 + 1) (2 * bf_NumCPU cfg) in
      bc\<lparr>bc_blockSize := blockSize, bc_memSize := memSize,
         bc_diskTimeout := (case bo_DiskTimeout conf of Some t \<Rightarrow> t | None \<Rightarrow> bc_defaultTimeout),
         bc_consistency := bo_Consistency conf, bc_prefetchOnOpen := bo_PrefetchOnOpen conf, bc_noPrefetch := False,
         bc_prefetch := (if bo_MemSize conf = None \<and> wrapu64 (prefetch * blockSize) > memSize
                         then MIN_PREFETCH * 2 + 1 else prefetch)\<rparr>)"

definition bc_configure_prefetch :: "BlockCacheOptions \<Rightarrow> BlockCache \<Rightarrow> err \<times> BlockCache" where
  "bc_configure_prefetch conf bc =
     (case bo_PrefetchCount conf of
        None \<Rightarrow> (None, bc)
      | Some p \<Rightarrow>
          if p = 0 then (None, bc\<lparr>bc_prefetch := p, bc_noPrefetch := True\<rparr>)
          else if p \<le> MIN_PREFETCH * 2 then (bc_config_error ''[invalid prefetch count]'', bc\<lparr>bc_prefetch := p\<rparr>)
          else (None, bc\<lparr>bc_prefetch := p\<rparr>))"

text \<open>The directory of the disk copies: not the mount point, made if it is missing, and empty.\<close>

definition bc_configure_disk :: "bc_config \<Rightarrow> BlockCacheOptions \<Rightarrow> 'n bc_env \<Rightarrow> int \<Rightarrow> 'n bc_state \<Rightarrow> err \<times> 'n bc_state" where
  "bc_configure_disk cfg conf E now s =
     (let tmp = bc_tmpPath (fst s) in
      if tmp = [] then (None, s)
      else case bf_mountPath cfg of
        Inl e \<Rightarrow> (bc_config_error ''[mount-path]'', s)
      | Inr mnt \<Rightarrow>
          let s1 = ((fst s)\<lparr>bc_mntPath := mnt\<rparr>, snd s) in
          if equal_fold (path_clean mnt) (path_clean tmp)
          then (bc_config_error ''error [tmp-path is same as mount path]'', s1)
          else
            let missing = (case os_Stat (bc_fs E s1) tmp of Inl e \<Rightarrow> is_not_exist (Some e) | Inr nd \<Rightarrow> False);
                (e, s2) = (if missing then bc_os E (os_Mkdir now tmp 0x1ED) s1 else (None, s1)) in
            if e \<noteq> None then (bc_config_error ''[mkdir]'', s2)
            else if \<not> IsDirectoryEmpty (bc_fs E s2) tmp then (bc_config_error ''[temp directory not empty]'', s2)
            else (None, ((fst s2)\<lparr>bc_diskSize := (case bo_DiskSize conf of
                     Some mb \<Rightarrow> wrapu64 (mb * bc_MB) | None \<Rightarrow> bc_getDefaultDiskSize cfg tmp)\<rparr>, snd s2)))"

text \<open>
  What comes last. The product of the prefetch count and the block size wraps; a block size of zero makes
  the division for the eviction policy panic.
\<close>

definition bc_configure_check :: "bc_config \<Rightarrow> 'n bc_state \<Rightarrow> (err \<times> 'n bc_state) option" where
  "bc_configure_check cfg s =
     (let bc = fst s in
      if wrapu64 (bc_prefetch bc * bc_blockSize bc) > bc_memSize bc
      then Some (bc_config_error ''[memory limit too low for configured prefetch]'', s)
      else if bc_tmpPath bc = [] then Some (None, s)
      else if bc_blockSize bc = 0 then None
      else case bf_tlru cfg of
        Some e \<Rightarrow> Some (bc_config_error ''[tlru]'', s)
      | None \<Rightarrow> Some (None, s))"

definition bc_Configure :: "bc_config \<Rightarrow> 'n bc_env \<Rightarrow> int \<Rightarrow> 'n bc_state \<Rightarrow> (err \<times> 'n bc_state) option" where
  "bc_Configure cfg E now = (\<lambda>(bc, n).
     case bf_section cfg of
       Inl e \<Rightarrow> Some (bc_config_error ''[section]'', (bc, n))
     | Inr conf \<Rightarrow>
         let bc1 = bc_configure_sizes cfg conf bc in
         (case bf_lazyWrite cfg of
            Inl e \<Rightarrow> Some (bc_config_error ''[lazy-write]'', (bc1, n))
          | Inr lazy \<Rightarrow>
              (case bc_configure_prefetch conf (bc1\<lparr>bc_lazyWrite := lazy\<rparr>) of
                 (Some e, bc2) \<Rightarrow> Some (Some e, (bc2, n))
               | (None, bc2) \<Rightarrow>
                   let bc3 = bc2\<lparr>bc_maxDiskUsageHit := False,
                     bc_workers := (case bo_Workers conf of Some w \<Rightarrow> w | None \<Rightarrow> 3 * bf_NumCPU cfg),
                     bc_tmpPath := bf_expand cfg (bo_TmpPath conf)\<rparr> in
                   (case bc_configure_disk cfg conf E now (bc3, n) of
                      (Some e, s) \<Rightarrow> Some (Some e, s)
                    | (None, s) \<Rightarrow> bc_configure_check cfg s))))"

section \<open>Start and stop\<close>

text \<open>
  \<open>Start\<close>: the pool of blocks, and workers that have nothing to do yet. What starting the eviction policy of
  the disk copies reports is the library's.
\<close>

definition bc_Start :: "err \<Rightarrow> 'n bc_state \<Rightarrow> err \<times> 'n bc_state" where
  "bc_Start policy_err = (\<lambda>(bc, n).
     case NewBlockPool (bc_blockSize bc) (bc_memSize bc) of
       None \<Rightarrow> (bc_config_error ''[failed to init block pool]'', (bc, n))
     | Some (p, bs) \<Rightarrow>
         if bc_workers bc = 0
         then (bc_config_error ''[failed to init thread pool]'', (bc\<lparr>bc_pool := p, bc_blocks := bs\<rparr>, n))
         else (if bc_tmpPath bc \<noteq> [] \<and> policy_err \<noteq> None
               then Some (Errorf ''failed to start  disk-policy for block-cache'') else None,
               (bc\<lparr>bc_pool := p, bc_blocks := bs, bc_work := []\<rparr>, n)))"

text \<open>
  \<open>Stop\<close>: the workers do some of what is left before they see the signal, and the rest is dropped with the
  channels; then the directory of the disk copies is emptied.
\<close>

definition bc_Stop :: "'n bc_env \<Rightarrow> int \<Rightarrow> 'n bc_state \<Rightarrow> (err \<times> 'n bc_state) option" where
  "bc_Stop E now s = map_option (\<lambda>(bc, n).
     let s1 = (bc\<lparr>bc_work := []\<rparr>, n) in
     (None, if bc_tmpPath bc = [] then s1 else snd (bc_os E (TempCacheCleanup (bc_tmpPath bc)) s1))) (workers E now s)"

section \<open>What an accepted configuration has\<close>

lemma bc_configure_disk_memory:
  "bc_configure_disk cfg conf E now s = (None, s') \<Longrightarrow> bc_tmpPath (fst s') = [] \<Longrightarrow> s' = s"
  by (auto simp: bc_configure_disk_def Let_def bc_config_error_def bc_os_def split: sum.splits if_splits prod.splits)

text \<open>Without disk copies it is the memory check that was passed, on a count that is zero only when prefetching is off.\<close>

lemma bc_Configure_done:
  assumes "bc_Configure cfg E now (bc0, n) = Some (None, (bc, n'))" "bc_tmpPath bc = []"
  shows "n' = n" "wrapu64 (bc_prefetch bc * bc_blockSize bc) \<le> bc_memSize bc" "0 \<le> bc_prefetch bc"
    "\<not> bc_noPrefetch bc \<Longrightarrow> 1 \<le> bc_prefetch bc"
proof -
  obtain conf lazy where o: "bf_section cfg = Inr conf" "bf_lazyWrite cfg = Inr lazy"
    using assms(1) by (auto simp: bc_Configure_def bc_config_error_def Let_def split: sum.splits)
  define bc1 where "bc1 = (bc_configure_sizes cfg conf bc0)\<lparr>bc_lazyWrite := lazy\<rparr>"
  obtain bc2 where bc2: "bc_configure_prefetch conf bc1 = (None, bc2)"
    using assms(1) o by (auto simp: bc_Configure_def Let_def bc1_def split: prod.splits option.splits)
  define bc3 where "bc3 = bc2\<lparr>bc_maxDiskUsageHit := False,
    bc_workers := (case bo_Workers conf of Some w \<Rightarrow> w | None \<Rightarrow> 3 * bf_NumCPU cfg), bc_tmpPath := bf_expand cfg (bo_TmpPath conf)\<rparr>"
  obtain s where s: "bc_configure_disk cfg conf E now (bc3, n) = (None, s)" "bc_configure_check cfg s = Some (None, (bc, n'))"
    using assms(1) o bc2 unfolding bc1_def bc3_def by (auto simp: bc_Configure_def Let_def split: prod.splits option.splits)
  have sb: "s = (bc, n')" using s(2) by (auto simp: bc_configure_check_def Let_def bc_config_error_def split: if_splits option.splits)
  then have "(bc, n') = (bc3, n)" using bc_configure_disk_memory [OF s(1)] assms(2) by simp
  then have nb: "n' = n" and bc: "bc = bc3" by simp_all
  show "n' = n" by (rule nb)
  show "wrapu64 (bc_prefetch bc * bc_blockSize bc) \<le> bc_memSize bc"
    using s(2) sb by (auto simp: bc_configure_check_def Let_def bc_config_error_def split: if_splits)
  have one: "1 \<le> bc_prefetch bc1" "\<not> bc_noPrefetch bc1" by (simp_all add: bc1_def bc_configure_sizes_def Let_def MIN_PREFETCH_def le_max_iff_disj)
  show "0 \<le> bc_prefetch bc" "\<not> bc_noPrefetch bc \<Longrightarrow> 1 \<le> bc_prefetch bc"
    using bc2 one unfolding bc bc3_def
    by (auto simp: bc_configure_prefetch_def bc_config_error_def MIN_PREFETCH_def split: option.splits if_splits)
qed

end
