(* ===== verification/Block_Cache_Results.thy ===== *)
theory Block_Cache_Results
  imports Block_Cache_Runs Block_Cache_Config
begin

text \<open>
  The block cache over the loopback storage: the storage gives what a \<open>block_source\<close> promises, so the
  results about runs of readers hold for the two components together.
\<close>

section \<open>The loopback storage as a source\<close>

text \<open>A storage that has the files, and the environment with the loopback below, which has no ETags.\<close>

definition lb_serves :: "(string \<Rightarrow> string option) \<Rightarrow> loopback \<Rightarrow> bool" where
  "lb_serves content l \<longleftrightarrow> (\<forall>p c. content p = Some c \<longrightarrow>
     (\<exists>i m t. map_of (dents (lb_fs l)) (lb_full l p) = Some i \<and> inodes (lb_fs l) i = FileNode c m t))"

definition lb_block_env :: "loopback bc_env \<Rightarrow> (string \<Rightarrow> string) \<Rightarrow> loopback bc_env" where
  "lb_block_env E md5 = E\<lparr>be_nxt := loopback_component md5, be_read_etag := (\<lambda>_ _. [])\<rparr>"

lemma lb_block_env_simps [simp]:
  "GetAttr (be_nxt (lb_block_env E md5)) = lb_GetAttr" "ReadInBuffer (be_nxt (lb_block_env E md5)) = lb_ReadInBuffer"
  "be_read_etag (lb_block_env E md5) n q = []"
  by (simp_all add: lb_block_env_def loopback_component_def)

lemma lb_serves_open:
  assumes "lb_serves content l" "content p = Some c"
  obtains i fs where "os_OpenFile now (lb_full l p) no_flags 0 (lb_fs l) = (Inr (next_fd (lb_fs l)), fs)"
    "map_of (open_fds fs) (next_fd (lb_fs l)) = Some i" "dents fs = dents (lb_fs l)" "inodes fs = inodes (lb_fs l)"
    "\<exists>m t. inodes (lb_fs l) i = FileNode c m t"
proof -
  obtain i m t where i: "map_of (dents (lb_fs l)) (lb_full l p) = Some i" "inodes (lb_fs l) i = FileNode c m t"
    using assms unfolding lb_serves_def by blast
  have "resolve 40 (lb_fs l) (lb_full l p) = Some (lb_full l p)"
    using i by (simp add: numeral_eq_Suc node_at_def)
  then have "os_OpenFile now (lb_full l p) no_flags 0 (lb_fs l) =
      (Inr (next_fd (lb_fs l)), snd (alloc_fd i (lb_fs l)))"
    using i by (simp add: os_OpenFile_def alloc_fd_def Let_def)
  then show ?thesis using that [of "snd (alloc_fd i (lb_fs l))" i] i(2) by (simp add: alloc_fd_def)
qed

lemma lb_serves_same:
  "lb_serves content l \<Longrightarrow> lb_path l' = lb_path l \<Longrightarrow> dents (lb_fs l') = dents (lb_fs l) \<Longrightarrow>
    inodes (lb_fs l') = inodes (lb_fs l) \<Longrightarrow> lb_serves content l'"
  by (simp add: lb_serves_def lb_full_def)

lemma lb_read_served:
  assumes l: "lb_serves content l" and x: "ri_Handle options = Some x" "h_FObj x = None" "content (h_Path x) = Some c"
    and off: "0 \<le> ri_Offset options" and k: "k = min (length (ri_Data options)) (length c - nat (ri_Offset options))"
  shows "\<exists>l'. lb_ReadInBuffer now options l =
    Some ((take k (drop (nat (ri_Offset options)) c) @ drop k (ri_Data options), int k, None), l') \<and> lb_serves content l'"
proof -
  obtain i fs where i: "os_OpenFile now (lb_full l (h_Path x)) no_flags 0 (lb_fs l) = (Inr (next_fd (lb_fs l)), fs)"
    "map_of (open_fds fs) (next_fd (lb_fs l)) = Some i" "dents fs = dents (lb_fs l)" "inodes fs = inodes (lb_fs l)"
    "\<exists>m t. inodes (lb_fs l) i = FileNode c m t"
    by (rule lb_serves_open [OF l x(3)])
  let ?l = "l\<lparr>lb_fs := snd (os_Close (next_fd (lb_fs l)) fs)\<rparr>"
  have "lb_serves content ?l" by (rule lb_serves_same [OF l]) (simp_all add: i(3,4) os_Close_def)
  moreover have "lb_ReadInBuffer now options l =
      Some ((take k (drop (nat (ri_Offset options)) c) @ drop k (ri_Data options), int k, None), ?l)"
    using i x(1,2) off k by (auto simp: lb_ReadInBuffer_def os_ReadAt_def Let_def min_def)
  ultimately show ?thesis by blast
qed

lemma lb_attr_served:
  assumes "lb_serves content l" "content p = Some c"
  shows "\<exists>a l'. GetAttr (be_nxt (lb_block_env E md5)) now \<lparr>ga_Name = p, ga_RetrieveMetadata = False\<rparr> l = Some ((Some a, None), l') \<and>
    lb_serves content l' \<and> a_Size a = int (length c) \<and> (a_ETag a = [] \<or> a_ETag a = [])"
proof -
  obtain i m t where i: "map_of (dents (lb_fs l)) (lb_full l p) = Some i" "inodes (lb_fs l) i = FileNode c m t"
    using assms unfolding lb_serves_def by blast
  then have "os_Lstat (lb_fs l) (lb_full l p) = Inr (FileNode c m t)" by (simp add: os_Lstat_def node_at_def)
  then show ?thesis using assms(1) by (simp add: lb_GetAttr_def node_attr_def)
qed

interpretation lb_blocks: block_source "lb_block_env E md5" "lb_serves content" content "\<lambda>_. []" for E md5 content
proof unfold_locales
  fix n p c now
  assume "lb_serves content n" "content p = Some c"
  then show "\<exists>a n'. GetAttr (be_nxt (lb_block_env E md5)) now \<lparr>ga_Name = p, ga_RetrieveMetadata = False\<rparr> n = Some ((Some a, None), n') \<and>
      lb_serves content n' \<and> a_Size a = int (length c) \<and> (a_ETag a = [] \<or> a_ETag a = [])"
    by (intro lb_attr_served) simp_all
next
  fix n and options :: ReadInBufferOptions and x c k now
  assume "lb_serves content n" "ri_Handle options = Some x" "h_FObj x = None" "content (h_Path x) = Some c"
    "0 \<le> ri_Offset options" "ri_Offset options < int (length c)" "k = min (length (ri_Data options)) (length c - nat (ri_Offset options))"
  then show "\<exists>e n'. ReadInBuffer (be_nxt (lb_block_env E md5)) now options n =
      Some ((take k (drop (nat (ri_Offset options)) c) @ drop k (ri_Data options), int k, e), n') \<and> lb_serves content n' \<and>
      (e = None \<or> e = Some io_EOF) \<and>
      (be_read_etag (lb_block_env E md5) n' options = [] \<or> be_read_etag (lb_block_env E md5) n' options = [])"
    using lb_read_served [of content n options x c k now] by auto
qed

section \<open>Starting\<close>

text \<open>A configuration the component starts with, without a disk cache, over files that fit.\<close>

definition boots :: "(string \<Rightarrow> string option) \<Rightarrow> BlockCache \<Rightarrow> loopback \<Rightarrow> bool" where
  "boots content bc l \<longleftrightarrow> bc_tmpPath bc = [] \<and> 0 < bc_blockSize bc \<and> bc_blockSize bc < 2 ^ 62 \<and>
     bc_blockSize bc \<le> bc_memSize bc \<and> bc_workers bc \<noteq> 0 \<and> bc_memSize bc div bc_blockSize bc < 2 ^ 32 \<and> lb_serves content l \<and>
     (\<forall>p c. content p = Some c \<longrightarrow> int (length c) + bc_blockSize bc < 2 ^ 63)"

text \<open>The blocks of a configuration: all it has memory for, but the last, which is the zero block.\<close>

definition all_blocks :: "BlockCache \<Rightarrow> nat set" where
  "all_blocks bc = {0 ..< nat (bc_memSize bc div bc_blockSize bc - 1)}"

lemma boots_ok:
  assumes b: "boots content bc l"
  shows "fst (bc_Start None (bc, l)) = None"
    "rd_ok (lb_serves content) content (\<lambda>_. []) (nat (bc_blockSize bc)) (all_blocks bc) [] (snd (bc_Start None (bc, l)))"
proof -
  have c: "bc_tmpPath bc = []" "0 < bc_blockSize bc" "bc_blockSize bc < 2 ^ 62" "bc_blockSize bc \<le> bc_memSize bc"
    "bc_memSize bc div bc_blockSize bc < 2 ^ 32" "lb_serves content l" "bc_workers bc \<noteq> 0"
    using b by (simp_all add: boots_def)
  obtain p bs where p: "NewBlockPool (bc_blockSize bc) (bc_memSize bc) = Some (p, bs)"
    using c(2,4) by (auto simp: NewBlockPool_def Let_def AllocateBlock_def)
  then have bs: "length (bk_data (bs x)) = nat (bc_blockSize bc)" for x
    by (auto simp: NewBlockPool_def Let_def AllocateBlock_def split: if_splits)
  have s: "bc_Start None (bc, l) = (None, (bc\<lparr>bc_pool := p, bc_blocks := bs, bc_work := []\<rparr>, l))"
    by (simp add: bc_Start_def p c(1,7))
  note pi = NewBlockPool_inv [OF p c(2,5)]
  show "fst (bc_Start None (bc, l)) = None" by (simp add: s)
  show "rd_ok (lb_serves content) content (\<lambda>_. []) (nat (bc_blockSize bc)) (all_blocks bc) [] (snd (bc_Start None (bc, l)))"
    using c pi bs by (simp add: s rd_ok_def rd_inv_def bc_inv_def conf_ok_def pool_ok_def work_ok_def lent_all_def all_blocks_def)
qed

abbreviation reaches :: "loopback bc_env \<Rightarrow> (string \<Rightarrow> string) \<Rightarrow> (string \<Rightarrow> string option) \<Rightarrow> BlockCache \<Rightarrow> loopback \<Rightarrow>
    (nat \<times> string) list \<Rightarrow> loopback bc_state \<Rightarrow> bool" where
  "reaches E md5 content bc l \<equiv> rd_reach (lb_block_env E md5) content (snd (bc_Start None (bc, l)))"

lemma reaches_ok:
  assumes "boots content bc l" "reaches E md5 content bc l hs s"
  shows "rd_ok (lb_serves content) content (\<lambda>_. []) (nat (bc_blockSize bc)) (all_blocks bc) hs s"
  by (rule lb_blocks.rd_reach_ok [OF assms(2) boots_ok(2) [OF assms(1)]]) (use assms(1) in \<open>auto simp: boots_def\<close>)

lemma reaches_handle:
  assumes "boots content bc l" "reaches E md5 content bc l hs s" "(h, p) \<in> set hs" "content p = Some c"
  shows "rd_inv (lb_serves content) content (\<lambda>_. []) (nat (bc_blockSize bc)) (all_blocks bc) (map fst hs) [] s"
    "h \<in> set (map fst hs)" "content (h_Path (bh_at h s)) = Some c"
  using reaches_ok [OF assms(1,2)] assms(3,4) by (force simp: rd_ok_def)+

section \<open>A small block cache\<close>

text \<open>Blocks of four bytes, five of them and the zero block, over one file of eleven bytes.\<close>

definition demo_blocks :: BlockCache where
  "demo_blocks = \<lparr>bc_blockSize = 4, bc_memSize = 24, bc_mntPath = [], bc_tmpPath = [], bc_diskSize = 0,
     bc_diskTimeout = 120, bc_workers = 3, bc_prefetch = 2, bc_fileNodeMap = [],
     bc_maxDiskUsageHit = False, bc_noPrefetch = False, bc_prefetchOnOpen = False, bc_consistency = False, bc_lazyWrite = False,
     bc_pool = \<lparr>bp_blocksCh = [], bp_blocksCap = 0, bp_priorityCh = [], bp_priorityCap = 0, bp_resetCh = [], bp_resetCap = 0,
       bp_zeroBlock = 0, bp_blockSize = 0, bp_maxBlocks = 0\<rparr>,
     bc_blocks = (\<lambda>_. \<lparr>bk_offset = 0, bk_id = - 1, bk_state = new_chan, bk_flags = 0, bk_data = []\<rparr>), bc_work = [],
     bc_heap = (\<lambda>_. new_bc_handle []), bc_fresh = 0, bc_ids = 0\<rparr>"

definition demo_disk :: loopback where
  "demo_disk = \<lparr>lb_fs = \<lparr>dents = [(''/s'', 0), (''/s/f'', 1)],
       inodes = (\<lambda>_. DirNode 0x1FF 0)(1 := FileNode ''hello world'' 0x1FF 0), next_ino = 2, open_fds = [], next_fd = 3\<rparr>,
     lb_table = \<lparr>handles = [], nextHandleID = 1\<rparr>, lb_path = ''/s'', lb_consistency = False\<rparr>"

definition demo_files :: "string \<Rightarrow> string option" where
  "demo_files = [''f'' \<mapsto> ''hello world'']"

definition demo_blocks_env :: "loopback bc_env" where
  "demo_blocks_env = \<lparr>be_nxt = base_component None, be_fs = lb_fs, be_set_fs = (\<lambda>fs n. n\<lparr>lb_fs := fs\<rparr>),
     be_read_etag = (\<lambda>_ _. []), be_commit_etag = (\<lambda>_ _. []), be_checksum = id, be_getxattr = (\<lambda>_ _. None),
     be_setxattr = (\<lambda>_ _ n. n), be_blockID = show_nat, be_choose = (\<lambda>_. 0), be_turns = (\<lambda>_. []), be_resets = (\<lambda>_. 0),
     be_prio = (\<lambda>_. True), be_usage = (\<lambda>_ _. None), be_avail = (\<lambda>_. Inr 0)\<rparr>"

definition demo_open :: OpenFileOptions where
  "demo_open = \<lparr>of_Name = ''f'', of_Flags = 0, of_Mode = 0x1FF\<rparr>"

abbreviation demo_block_env :: "loopback bc_env" where
  "demo_block_env \<equiv> lb_block_env demo_blocks_env (\<lambda>x. x)"

definition demo_opened :: "loopback bc_state" where
  "demo_opened = snd (the (bc_OpenFile demo_block_env 0 demo_open (snd (bc_Start None (demo_blocks, demo_disk)))))"

lemma demo_files_served: "lb_full demo_disk ''f'' = ''/s/f''" "read_only demo_open" "demo_files ''f'' = Some ''hello world''" "of_Name demo_open = ''f''"
  by code_simp+

lemma demo_boots: "boots demo_files demo_blocks demo_disk"
proof -
  have "lb_serves demo_files demo_disk"
    unfolding lb_serves_def demo_files_def using demo_files_served(1) by (simp add: demo_disk_def)
  then show ?thesis by (simp add: boots_def demo_blocks_def) (simp add: demo_files_def)
qed

lemma demo_open_returns: "bc_OpenFile demo_block_env 0 demo_open (snd (bc_Start None (demo_blocks, demo_disk))) = Some ((Some 0, None), demo_opened)"
proof -
  have "map_option fst (bc_OpenFile demo_block_env 0 demo_open (snd (bc_Start None (demo_blocks, demo_disk)))) = Some (Some 0, None)"
    by code_simp
  then show ?thesis by (auto simp: demo_opened_def)
qed

lemma demo_reaches: "reaches demo_blocks_env (\<lambda>x. x) demo_files demo_blocks demo_disk [(0, ''f'')] demo_opened"
  using rd_open [OF rd_start demo_files_served(2) _ demo_open_returns, of demo_files] by (simp add: demo_files_served)

section \<open>Results\<close>

text \<open> C5. Reading gives what is stored. In every state that clients can bring the block cache over the loopback
  storage into by opening, reading and releasing files, whatever the workers do and whichever blocks are evicted,
  a read returns, and it gives the bytes the file has in the range, with the end of the file reported only when
  the bytes reach it; only when the handles hold all blocks of the pool it may fail, and then what it gave so
  far is the beginning of the range.\<close>

theorem blocks_read_what_is_stored:
  assumes "boots content bc l" "reaches E md5 content bc l hs s" "(h, p) \<in> set hs" "content p = Some c" "0 \<le> off"
  shows "\<exists>r s'. bc_ReadInBuffer (lb_block_env E md5) now h len off s = Some (r, s') \<and> read_result c off len r s'"
proof -
  note r = reaches_handle [OF assms(1-4)]
  show ?thesis by (rule lb_blocks.ReadInBuffer_inv [OF r assms(5), where now = now and len = len]) blast
qed

theorem blocks_read_what_is_stored_witness:
  "\<exists>r s'. bc_ReadInBuffer demo_block_env 1 0 6 3 demo_opened = Some (r, s') \<and> read_result ''hello world'' 3 6 r s'"
  using blocks_read_what_is_stored [OF demo_boots demo_reaches, of 0 "''f''" "''hello world''" 3 1 6]
  by (simp add: demo_files_def)

text \<open> C6. No block is lost or used twice. In every such state the blocks in the pool's channels and those the open
  handles hold are distinct and are together all blocks the pool was made with; once all files are released the
  pool has them all again.\<close>

theorem blocks_return_to_the_pool:
  assumes "boots content bc l" "reaches E md5 content bc l hs s"
  shows "distinct (pool_refs (bc_pool (fst s)) @ concat (map (lent s) (map fst hs))) \<and>
    set (pool_refs (bc_pool (fst s)) @ concat (map (lent s) (map fst hs))) = all_blocks bc"
  using reaches_ok [OF assms] by (simp add: rd_ok_def rd_inv_def bc_inv_def pool_ok_def pool_inv_def lent_all_def)

theorem blocks_return_to_the_pool_witness:
  "set (pool_refs (bc_pool (fst demo_opened)) @ concat (map (lent demo_opened) (map fst [(0 :: nat, ''f'')]))) = {0 ..< 5}"
  using blocks_return_to_the_pool [OF demo_boots demo_reaches] by (simp add: all_blocks_def demo_blocks_def)

text \<open> C7. Opening and releasing always succeed. In every such state the opening of a stored file for reading returns
  a new handle, whatever blocks it starts to fetch, and releasing an open handle, which waits for the downloads
  it has under way, returns without an error.\<close>

theorem blocks_open_and_release_return:
  assumes "boots content bc l" "reaches E md5 content bc l hs s"
  shows "(read_only options \<longrightarrow> content (of_Name options) \<noteq> None \<longrightarrow>
      (\<exists>h s'. bc_OpenFile (lb_block_env E md5) now options s = Some ((Some h, None), s') \<and> h \<notin> set (map fst hs))) \<and>
    ((h', p) \<in> set hs \<longrightarrow> (\<exists>s'. bc_ReleaseFile (lb_block_env E md5) now h' s = Some (None, s')))"
proof -
  have inv: "rd_inv (lb_serves content) content (\<lambda>_. []) (nat (bc_blockSize bc)) (all_blocks bc) (map fst hs) [] s"
    using reaches_ok [OF assms] by (simp add: rd_ok_def)
  show ?thesis
  proof (intro conjI impI)
    assume ro: "read_only options" and c: "content (of_Name options) \<noteq> None"
    then obtain c where c: "content (of_Name options) = Some c" by blast
    then have fit: "int (length c) + int (nat (bc_blockSize bc)) < 2 ^ 63" using assms(1) by (auto simp: boots_def)
    show "\<exists>h s'. bc_OpenFile (lb_block_env E md5) now options s = Some ((Some h, None), s') \<and> h \<notin> set (map fst hs)"
      by (rule lb_blocks.OpenFile_inv [OF inv ro c fit, where now = now]) blast
  next
    assume "(h', p) \<in> set hs"
    then have h: "h' \<in> set (map fst hs)" by force
    show "\<exists>s'. bc_ReleaseFile (lb_block_env E md5) now h' s = Some (None, s')"
      by (rule lb_blocks.ReleaseFile_inv [OF inv h, where now = now]) blast
  qed
qed

theorem blocks_open_and_release_return_witness:
  "(\<exists>h s'. bc_OpenFile demo_block_env 1 demo_open demo_opened = Some ((Some h, None), s') \<and> h \<noteq> 0) \<and>
    (\<exists>s'. bc_ReleaseFile demo_block_env 1 0 demo_opened = Some (None, s'))"
  using blocks_open_and_release_return [OF demo_boots demo_reaches, of demo_open 1 0 "''f''"]
  by (auto simp: demo_files_served)

text \<open>
  C29. A configuration that is accepted boots. When the configuration of a memory cache went through without an error
  and its numbers make sense (some memory per block, workers, and a product of prefetch count and block size that
  does not wrap), starting succeeds, and there is a block for all but one of the prefetch count.
\<close>

theorem configured_block_cache_boots:
  assumes "bc_Configure cfg E now (bc0, n) = Some (None, (bc, n'))" "bc_tmpPath bc = []" "0 < bc_blockSize bc" "bc_workers bc \<noteq> 0"
    "bc_prefetch bc * bc_blockSize bc < 2 ^ 64" "bc_noPrefetch bc \<longrightarrow> bc_blockSize bc \<le> bc_memSize bc"
    "bc_memSize bc div bc_blockSize bc < 2 ^ 32"
  shows "n' = n \<and> fst (bc_Start policy_err (bc, n)) = None \<and> bc_prefetch bc - 1 \<le> int (card (all_blocks bc))"
proof -
  note u = bc_Configure_done [OF assms(1,2)]
  have "wrapu64 (bc_prefetch bc * bc_blockSize bc) = bc_prefetch bc * bc_blockSize bc"
    using u(3) assms(3,5) by (simp add: wrapu64_def)
  then have m: "bc_prefetch bc * bc_blockSize bc \<le> bc_memSize bc" using u(2) by simp
  have pre: "bc_prefetch bc \<le> bc_memSize bc div bc_blockSize bc"
    using zdiv_mono1 [OF m assms(3)] assms(3) by simp
  have "bc_blockSize bc \<le> bc_memSize bc"
  proof (cases "bc_noPrefetch bc")
    case False
    then have "1 * bc_blockSize bc \<le> bc_prefetch bc * bc_blockSize bc" using u(4) assms(3) by (intro mult_right_mono) auto
    then show ?thesis using m by simp
  qed (use assms(6) in blast)
  then obtain p bs where "NewBlockPool (bc_blockSize bc) (bc_memSize bc) = Some (p, bs)"
    using assms(3) by (auto simp: NewBlockPool_def Let_def AllocateBlock_def)
  then have "fst (bc_Start policy_err (bc, n)) = None" using assms(2,4) by (simp add: bc_Start_def)
  then show ?thesis using u(1) pre by (simp add: all_blocks_def)
qed

definition demo_block_config :: bc_config where
  "demo_block_config = \<lparr>bf_section = Inr \<lparr>bo_BlockSize = Some 1, bo_MemSize = Some 16, bo_TmpPath = [], bo_DiskSize = None,
       bo_DiskTimeout = None, bo_PrefetchCount = Some 12, bo_Workers = None, bo_PrefetchOnOpen = False, bo_Consistency = False\<rparr>,
     bf_lazyWrite = Inr False, bf_mountPath = Inr ''/mnt'', bf_expand = (\<lambda>p. p), bf_NumCPU = 4, bf_FreeRam = Inr 1000000000,
     bf_AvailFree = (\<lambda>_. Inr 1000), bf_tlru = None\<rparr>"

definition demo_accepted :: BlockCache where
  "demo_accepted = fst (snd (the (bc_Configure demo_block_config demo_block_env 0 (demo_blocks, demo_disk))))"

lemma demo_accepts: "bc_Configure demo_block_config demo_block_env 0 (demo_blocks, demo_disk) = Some (None, (demo_accepted, demo_disk))"
  "bc_blockSize demo_accepted = 1048576" "bc_memSize demo_accepted = 16777216" "bc_prefetch demo_accepted = 12"
  "bc_workers demo_accepted = 12" "bc_tmpPath demo_accepted = []" "\<not> bc_noPrefetch demo_accepted"
  by (simp_all add: demo_accepted_def demo_block_config_def bc_Configure_def bc_configure_sizes_def bc_configure_prefetch_def
    bc_configure_disk_def bc_configure_check_def Let_def bc_MB_def uint64_of_def wrapu64_def MIN_PREFETCH_def)

theorem configured_block_cache_boots_witness:
  "fst (bc_Start None (demo_accepted, demo_disk)) = None \<and> 11 \<le> int (card (all_blocks demo_accepted))"
  using configured_block_cache_boots [OF demo_accepts(1)] by (simp add: demo_accepts)

end
