(* ===== verification/Libfuse_Blocks.thy ===== *)
theory Libfuse_Blocks
  imports Libfuse_Listing Block_Cache_Results
begin

text \<open>
  FUSE over the block cache over the loopback storage: what a program that opens and reads a mounted file gets.
\<close>

section \<open>The block cache as the next component\<close>

text \<open>A component that passes every call on to the one below, with the state of its own unused.\<close>

definition pass_below :: "'n component \<Rightarrow> ('b \<times> 'n) component" where
  "pass_below nc = \<lparr>CloudConnected = below (CloudConnected nc), CreateDir = below (CreateDir nc), DeleteDir = below (DeleteDir nc),
     IsDirEmpty = below (IsDirEmpty nc), OpenDir = below (OpenDir nc), StreamDir = below (StreamDir nc), CloseDir = below (CloseDir nc),
     RenameDir = below (RenameDir nc), CreateFile = below (CreateFile nc), DeleteFile = below (DeleteFile nc), OpenFile = below (OpenFile nc),
     ReleaseFile = below (ReleaseFile nc), RenameFile = below (RenameFile nc), ReadInBuffer = below (ReadInBuffer nc), WriteFile = below (WriteFile nc),
     TruncateFile = below (TruncateFile nc), CopyToFile = below (CopyToFile nc), CopyFromFile = below (CopyFromFile nc), SyncFile = below (SyncFile nc),
     SyncDir = below (SyncDir nc), FlushFile = below (FlushFile nc), CreateLink = below (CreateLink nc), ReadLink = below (ReadLink nc),
     GetAttr = below (GetAttr nc), GetFileBlockOffsets = below (GetFileBlockOffsets nc), Chmod = below (Chmod nc), Chown = below (Chown nc),
     FileUsed = below (FileUsed nc), StatFs = below (StatFs nc), GetCommittedBlockList = below (GetCommittedBlockList nc),
     StageData = below (StageData nc), CommitData = below (CommitData nc)\<rparr>"

definition block_fuse :: "'n bc_env \<Rightarrow> 'n bc_state fuse_env" where
  "block_fuse E =
     \<lparr>fe_next = (pass_below (be_nxt E))\<lparr>DeleteDir := bc_DeleteDir E, RenameDir := bc_RenameDir E, DeleteFile := bc_DeleteFile E,
        RenameFile := bc_RenameFile E, TruncateFile := bc_TruncateFile E, StatFs := bc_StatFs E\<rparr>,
      fe_Create = bc_CreateFile E, fe_Open = bc_OpenFile E, fe_Read = bc_ReadInBuffer E, fe_Cached = (\<lambda>h s. False), fe_ReadAt = (\<lambda>h len off s. ([], None)),
      fe_Write = bc_WriteFile E, fe_Dirty = (\<lambda>h s. bh_Dirty (bh_at h s)), fe_Flush = (\<lambda>now h. bc_FlushFile E now h False), fe_Sync = bc_SyncFile E,
      fe_Release = bc_ReleaseFile E,
      fe_Truncate = (\<lambda>now h name sz. bc_TruncateFile E now
        \<lparr>tf_Handle = None, tf_Name = name, tf_OldSize = - 1, tf_NewSize = sz, tf_BlockSize = 0\<rparr>)\<rparr>"

section \<open>Error numbers\<close>

lemma fuse_errno_positive: "0 < fuse_errno n"
  by (cases n) simp_all

lemma fuseErrnoFromError_sign: "fuseErrnoFromError None = 0" "fuseErrnoFromError (Some e) < 0"
  by (simp_all add: fuseErrnoFromError_def fuse_errno_positive split: option.splits)

section \<open>Opening and reading\<close>

lemma fuse_Add_fresh:
  assumes "length (lf_table lf) < 2 ^ 64"
  shows "\<exists>fh lf'. fuse_Add x lf = Some (fh, lf') \<and> fuse_Load fh lf' = Some x \<and> fuse_Load fh lf = None"
  using alloc_id_returns [OF assms, of "lf_nextHandleID lf"] by (auto simp: fuse_Add_def fuse_Load_def)

text \<open>A read of the block cache as the number that FUSE gets.\<close>

definition fuse_number :: "string \<times> err \<Rightarrow> int" where
  "fuse_number r = (if snd r \<noteq> None \<and> snd r \<noteq> Some io_EOF then fuseErrnoFromError (snd r) else int (length (fst r)))"

lemma fuse_Read_block:
  assumes "fuse_Load fh lf = Some (FileHandle h)" "bc_ReadInBuffer E now h len ofst s = Some (r, t)"
  shows "fuse_Read (block_fuse E) now len ofst fh (lf, s) = Some ((fuse_number r, fst r), (lf, t))"
  using assms by (cases r) (simp add: fuse_Read_def fe_call_def block_fuse_def fuse_number_def)

lemma fuse_number_result:
  assumes "read_result c ofst len r t"
  shows "fst r = take len (drop (nat ofst) c) \<and> fuse_number r = int (length (fst r)) \<or>
    fuse_number r < 0 \<and> pool_refs (bc_pool (fst t)) = []"
  using assms by (cases r) (auto simp: read_result_def fuse_number_def fuseErrnoFromError_sign)

text \<open> C9. What a program gets that opens, reads and closes a mounted file. Over the block cache over the loopback storage,
  in every state that other readers have brought them into, opening a stored file for reading gives a new number; a read
  through it gives exactly the bytes the file has in the range and their count, or an error number when open files hold all
  blocks; and closing it reports success and takes the number out of the table.\<close>

theorem mounted_file_is_read:
  assumes boot: "boots content bc l" and run: "reaches E md5 content bc l hs s"
    and name: "normalizeFusePath path = (p, 0)" "content p = Some c" and flags: "read_only \<lparr>of_Name = p, of_Flags = flags, of_Mode = 0\<rparr>"
    and table: "length (lf_table lf) < 2 ^ 64" and ofst: "0 \<le> ofst"
  shows "\<exists>fh lf1 s1 r bs s2 lf2 s3.
    fuse_Open (block_fuse (lb_block_env E md5)) now path flags (lf, s) = Some ((0, fh), (lf1, s1)) \<and> fuse_Load fh lf = None \<and>
    fuse_Read (block_fuse (lb_block_env E md5)) now len ofst fh (lf1, s1) = Some ((r, bs), (lf1, s2)) \<and>
    (bs = take len (drop (nat ofst) c) \<and> r = int (length bs) \<or> r < 0 \<and> pool_refs (bc_pool (fst s2)) = []) \<and>
    fuse_Release (block_fuse (lb_block_env E md5)) now fh (lf1, s2) = Some (0, (lf2, s3)) \<and> fuse_Load fh lf2 = None"
proof -
  let ?E = "lb_block_env E md5" and ?z = "nat (bc_blockSize bc)" and ?A = "all_blocks bc"
  let ?o = "\<lparr>of_Name = p, of_Flags = flags, of_Mode = lf_filePermission lf\<rparr>"
  have inv: "rd_inv (lb_serves content) content (\<lambda>_. []) ?z ?A (map fst hs) [] s" using reaches_ok [OF boot run] by (simp add: rd_ok_def)
  have ro: "read_only ?o" using flags by (simp add: read_only_def)
  have fit: "int (length c) + int ?z < 2 ^ 63" using boot name(2) by (auto simp: boots_def)
  have cp: "content (of_Name ?o) = Some c" using name(2) by simp
  obtain h s1 where o: "bc_OpenFile ?E now ?o s = Some ((Some h, None), s1)" "rd_inv (lb_serves content) content (\<lambda>_. []) ?z ?A (h # map fst hs) [] s1"
    "h_Path (bh_at h s1) = of_Name ?o" "h \<notin> set (map fst hs)" "\<forall>h' \<in> set (map fst hs). h_Path (bh_at h' s1) = h_Path (bh_at h' s)"
    by (rule lb_blocks.OpenFile_inv [OF inv ro cp fit, where now = now and E = E])
  obtain fh lf1 where f: "fuse_Add (FileHandle h) lf = Some (fh, lf1)" "fuse_Load fh lf1 = Some (FileHandle h)" "fuse_Load fh lf = None"
    using fuse_Add_fresh [OF table] by blast
  have open_ok: "fuse_Open (block_fuse ?E) now path flags (lf, s) = Some ((0, fh), (lf1, s1))"
    using name(1) o(1) f(1) by (simp add: fuse_Open_def fuse_opened_def fe_call_def block_fuse_def)
  have h: "h \<in> set (h # map fst hs)" "content (h_Path (bh_at h s1)) = Some c" using o(3) name(2) by simp_all
  obtain r s2 where r: "bc_ReadInBuffer ?E now h len ofst s1 = Some (r, s2)" "rd_inv (lb_serves content) content (\<lambda>_. []) ?z ?A (h # map fst hs) [] s2"
    "\<forall>x. h_Path (bh_at x s2) = h_Path (bh_at x s1)" "read_result c ofst len r s2"
    by (rule lb_blocks.ReadInBuffer_inv [OF o(2) h ofst, where now = now and len = len and E = E])
  obtain s3 where s3: "bc_ReleaseFile ?E now h s2 = Some (None, s3)"
    "rd_inv (lb_serves content) content (\<lambda>_. []) ?z ?A (remove1 h (h # map fst hs)) [] s3" "\<forall>x. h_Path (bh_at x s3) = h_Path (bh_at x s2)"
    by (rule lb_blocks.ReleaseFile_inv [OF r(2) h(1), where now = now and E = E])
  have "fuse_Release (block_fuse ?E) now fh (lf1, s2) = Some (0, (fuse_Delete fh lf1, s3))"
    using f(2) s3(1) by (simp add: fuse_Release_def with_file_def fe_call_def block_fuse_def)
  moreover have "fuse_Load fh (fuse_Delete fh lf1) = None" by (simp add: fuse_Load_def fuse_Delete_def)
  ultimately show ?thesis using open_ok f(3) fuse_Read_block [OF f(2) r(1)] fuse_number_result [OF r(4)] by blast
qed

theorem mounted_file_is_read_witness:
  "\<exists>fh lf1 s1 r bs s2. fuse_Open (block_fuse demo_block_env) 1 ''/f'' 0 (demo_fuse, demo_opened) = Some ((0, fh), (lf1, s1)) \<and>
    fuse_Read (block_fuse demo_block_env) 1 6 3 fh (lf1, s1) = Some ((r, bs), (lf1, s2)) \<and>
    (bs = ''lo wor'' \<and> r = 6 \<or> r < 0 \<and> pool_refs (bc_pool (fst s2)) = [])"
proof -
  have name: "normalizeFusePath ''/f'' = (''f'', 0)" by code_simp
  have ro: "read_only \<lparr>of_Name = ''f'', of_Flags = 0, of_Mode = 0\<rparr>" by code_simp
  have table: "length (lf_table demo_fuse) < 2 ^ 64" by (simp add: demo_fuse_def)
  show ?thesis
    using mounted_file_is_read [OF demo_boots demo_reaches name demo_files_served(3) ro table, of 3 1 6] by fastforce
qed

end
