(* ===== verification/Spec2Isabelle.thy ===== *)
theory Spec2Isabelle
  imports Attr_Cache_Correct File_Lru_Snapshot File_Cache_Results File_Cache_Config Libfuse_Blocks
begin

text \<open>
  A verification development of cloudfuse, a virtual file system that presents cloud storage as a
  local directory.

  \<^bold>\<open>The program.\<close> A mount is a pipeline of components (\<open>internal/pipeline.go\<close>). Each one implements the
  same interface of file operations (\<open>internal/component.go\<close>) and calls the next one below it; a
  component that has nothing to add to an operation inherits the pass-through of
  \<open>internal/base_component.go\<close>. At the top, libfuse receives the kernel's requests; below it come the
  caches and the size tracker; at the bottom a storage component talks to Azure, to S3 or, in tests, to
  a local directory.

  \<^bold>\<open>How it is modelled.\<close> A component is a record of functions over the state of everything from there
  down (\<open>component\<close> in \<open>Component\<close>): an operation takes the clock reading, its options and that state and
  returns the results with the new state, or \<open>None\<close> when the process crashes. A component's model is
  written over an arbitrary next component, as the code is, and stacked on a concrete one by applying
  it. Handles, blocks, cache entries and attributes that the code shares by pointer are cells of a
  store. Goroutines that act on a timer are steps that may happen at any time.

  \<^bold>\<open>The theories.\<close>
  \<^item> \<open>Prelude\<close>, \<open>Go_Std\<close>: Go values and the part of Go's standard library that the code calls.
  \<^item> \<open>Bit_Maps\<close>: \<open>BitMap64\<close> of \<open>common/util.go\<close>, with the compare-and-swap loop of \<open>Set\<close> as a step
    relation over racing threads.
  \<^item> \<open>Block_List\<close>: \<open>Block\<close> and \<open>BlockOffsetList\<close> of \<open>common/types.go\<close>; the searches over consecutive
    blocks meet their specification.
  \<^item> \<open>Lru_Cache\<close>: \<open>common/cache_policy/lru_policy.go\<close>; which block an insertion evicts.
  \<^item> \<open>Handle_Map\<close>: \<open>common/lock_map.go\<close>, \<open>internal/handlemap/handle_map.go\<close>; the id allocator returns.
  \<^item> \<open>Component\<close>, \<open>Pipeline\<close>: the component interface, attributes and options; building, starting and
    stopping the pipeline.
  \<^item> \<open>Size_Journal\<close>: \<open>component/size_tracker/journal.go\<close>; no update of a mount sharing the journal is lost.
  \<^item> \<open>Os_Files\<close>, \<open>Loopback\<close>: the operating system's files, and \<open>component/loopback/loopback_fs.go\<close> over
    them: the concrete storage the contracts are discharged on.
  \<^item> \<open>Size_Tracker\<close>, \<open>Size_Accounting\<close>, \<open>Loopback_Sizes\<close>: \<open>component/size_tracker/size_tracker.go\<close>; the
    contract \<open>sized_store\<close> of the storage below it, the accounting properties proved over the contract,
    and its interpretation on the loopback component.
  \<^item> \<open>Entry_Cache\<close>: \<open>component/entry_cache/entry_cache.go\<close> over the contract \<open>fixed_listing\<close>.
  \<^item> \<open>Cache_Tree\<close>, \<open>Attr_Cache\<close>: \<open>component/attr_cache/cacheMap.go\<close> and \<open>attr_cache.go\<close>.
  \<^item> \<open>Cache_Invariant\<close>, \<open>Attr_Cache_Safety\<close>, \<open>Attr_Cache_Runs\<close>: the shape of the cache tree is kept by
    each tree operation, by each handler, and along every run; the walks over the tree return.
  \<^item> \<open>Attr_Cache_Correct\<close>: what a creation or a deletion makes of later lookups, and where the cache errs.
  \<^item> \<open>File_Lru\<close>, \<open>File_Lru_Correct\<close>, \<open>File_Lru_Props\<close>, \<open>File_Lru_Snapshot\<close>: the eviction policy of the file
    cache (\<open>component/file_cache/lru_policy.go\<close>), a linked list with two markers over a store of nodes; the
    list's invariant, which holds between the parts of an eviction round too, the operations on the list it stands
    for, rounds by themselves and cut into steps that the other operations interleave with, and the snapshot.
  \<^item> \<open>File_Cache\<close>, \<open>File_Cache_Files\<close>, \<open>File_Cache_Dirs\<close>: the file cache (\<open>component/file_cache/file_cache.go\<close>
    and \<open>async.go\<close>): its state over the policy, the local files and the next component; the handlers on
    files and on directories; the pending operations and the upload thread.
  \<^item> \<open>File_Cache_Handles\<close>, \<open>File_Cache_Counts\<close>, \<open>File_Cache_Runs\<close>, \<open>File_Cache_Safety\<close>, \<open>File_Cache_Props\<close>: what
    each handler does to the handles and to their counts in the lock map, and the runs of requests,
    uploads and evictions: along every run the counts are exact, every handle can be used, and no
    eviction takes the file of an open handle.
  \<^item> \<open>File_Cache_Storage\<close>, \<open>File_Cache_Results\<close>: the contracts \<open>object_store\<close> and \<open>reliable_store\<close> of the storage
    below the file cache, interpreted on the loopback storage: without lazy writes, closing a modified file stores or
    queues its content; a pass of the upload thread empties a queue of uploads; writes are read back and stay within
    the limit; two checks of the offline code that do not do what they are for.
  \<^item> \<open>Block_Pool\<close>, \<open>Block_Cache\<close>, \<open>Block_Cache_Blocks\<close>, \<open>Block_Cache_Files\<close>: the block cache
    (\<open>component/block_cache/*.go\<close>): the pool its buffers come from; its state and workers; reading, creating,
    staging and committing blocks; the handlers.
  \<^item> \<open>Block_Cache_Config\<close>, \<open>File_Cache_Config\<close>: how the two caches read their configuration, start and stop; what
    an accepted configuration gives.
  \<^item> \<open>Block_Cache_Reads\<close>, \<open>Block_Cache_Moves\<close>, \<open>Block_Cache_Reading\<close>, \<open>Block_Cache_Serving\<close>, \<open>Block_Cache_Runs\<close>: the
    contract \<open>block_source\<close> of a storage that serves files which stay as they are, the invariant of the blocks, the
    pool and the handles under it, and that the workers, the movements of blocks between pool and handles,
    prefetching, serving, opening and releasing keep it, along every run of readers.
  \<^item> \<open>Block_Cache_Results\<close>: its interpretation on the loopback storage: reads give what is stored, no block is lost,
    opening and releasing return.
  \<^item> \<open>Libfuse\<close>, \<open>Libfuse_Listing\<close>, \<open>Libfuse_Blocks\<close>: the FUSE component (\<open>component/libfuse/*.go\<close>) on top of the
    pipeline: its configuration and callbacks; that the kernel gets every entry of a directory once, over the
    \<open>fixed_listing\<close> contract of the entry cache; and what a program reads from a file mounted over the block cache over
    the loopback storage.

  \<^bold>\<open>Fuel.\<close> The recursions over the attribute cache's tree follow pointers and take fuel; \<open>tree_fuel\<close>, one
  more than the length of the longest path, is enough since children have strictly longer paths
  (\<open>Cache_Invariant\<close>). The id allocator, the walks of the
  eviction policy, the listing of the cloud, the waits for a block, the loops over a range that is read or written and the
  loop of a directory listing
  are \<open>partial_function\<close>s, so that not returning is a value.
  The walks over the local directories take one more than the number of entries, which bounds their depth.

  \<^bold>\<open>Not modelled.\<close> The cloud back ends are mostly calls of the Azure and AWS libraries; of libfuse, starting
  and stopping the FUSE host is left out, and what differs on Windows; the command line, logging, statistics and the Windows service are input and
  output around the pipeline. Mutexes are not modelled: what the code does under a lock is one step, and where the eviction policy
  releases its lock inside a round the round is cut (\<open>lru_event_step\<close>); \<open>expire_round\<close> is a round that nothing comes
  into the middle of. An open file is not held to its access mode, which the kernel checks before a request
  gets to the file system.
  Of the file cache the parsing of schedules is not modelled, which is the work of a library: windows of the schedule
  open and close as steps of the run. The eviction policy of the block cache's disk copies is a library's too; an
  eviction of one copy is an operation. What \<open>GenConfig\<close> prints for these components is not modelled.
  Memory exhaustion and the operating system's failures (full disk, permissions) are left out of the
  loopback storage.
\<close>

end
